(* ===== verification/Prelude.thy ===== *)
theory Prelude
  imports Main "HOL-Library.Word" "HOL-Library.Multiset"
begin

section \<open>Shared types, the error discipline and generic lemmas\<close>

text \<open>
  What every component of the model shares.
  \<^item> \<open>try_bind\<close> is Rust's \<open>?\<close> on a \<open>Result\<close>: \<open>Inl\<close> is the error, \<open>Inr\<close> the value.
  \<^item> \<open>u32_max\<close>, \<open>usize_max\<close> and the \<open>checked_\<close> operations write out the widths the code
    checks. Sizes, lengths and indices that the code never compares with their width are
    \<open>nat\<close>; values that wrap (the RNG seeds, the clock) are \<open>64 word\<close> in their theories.
  \<^item> \<open>show_nat\<close> is the decimal rendering that \<open>format!\<close> uses in the error messages.
  \<^item> The lemmas on lists are the ones more than one component uses.
\<close>

named_theorems try_simps \<open>equations of the error-propagating bind\<close>

subsection \<open>Results\<close>

definition try_bind :: "'e + 'a \<Rightarrow> ('a \<Rightarrow> 'e + 'b) \<Rightarrow> 'e + 'b" where
  "try_bind r f = (case r of Inl e \<Rightarrow> Inl e | Inr x \<Rightarrow> f x)"

lemma try_bind_Inl [simp, try_simps]: "try_bind (Inl e) f = Inl e"
  by (simp add: try_bind_def)

lemma try_bind_Inr [simp, try_simps]: "try_bind (Inr x) f = f x"
  by (simp add: try_bind_def)

lemma try_bind_eq_Inr [try_simps]:
  "try_bind r f = Inr y \<longleftrightarrow> (\<exists>x. r = Inr x \<and> f x = Inr y)"
  by (cases r) simp_all

lemma try_bind_eq_Inl [try_simps]:
  "try_bind r f = Inl e \<longleftrightarrow> r = Inl e \<or> (\<exists>x. r = Inr x \<and> f x = Inl e)"
  by (cases r) simp_all

text \<open>\<open>map_err\<close>: change the error, keep the value.\<close>

definition map_err :: "('e \<Rightarrow> 'd) \<Rightarrow> 'e + 'a \<Rightarrow> 'd + 'a" where
  "map_err f r = (case r of Inl e \<Rightarrow> Inl (f e) | Inr x \<Rightarrow> Inr x)"

lemma map_err_simps [simp]: "map_err f (Inl e) = Inl (f e)" "map_err f (Inr x) = Inr x"
  by (simp_all add: map_err_def)

lemma map_err_eq_Inr [simp]: "map_err f r = Inr x \<longleftrightarrow> r = Inr x"
  by (cases r) simp_all

text \<open>\<open>ok_or_else\<close>: the value of an option, or an error.\<close>

definition ok_or :: "'e \<Rightarrow> 'a option \<Rightarrow> 'e + 'a" where
  "ok_or e x = (case x of None \<Rightarrow> Inl e | Some v \<Rightarrow> Inr v)"

lemma ok_or_simps [simp]: "ok_or e None = Inl e" "ok_or e (Some v) = Inr v"
  by (simp_all add: ok_or_def)

text \<open>A loop over a list whose body may return early with \<open>?\<close>.\<close>

fun try_fold :: "('s \<Rightarrow> 'a \<Rightarrow> 'e + 's) \<Rightarrow> 's \<Rightarrow> 'a list \<Rightarrow> 'e + 's" where
  "try_fold f s [] = Inr s"
| "try_fold f s (x # xs) = try_bind (f s x) (\<lambda>s'. try_fold f s' xs)"

lemma try_fold_append:
  "try_fold f s (xs @ ys) = try_bind (try_fold f s xs) (\<lambda>s'. try_fold f s' ys)"
proof (induction xs arbitrary: s)
  case (Cons x xs)
  then show ?case by (cases "f s x") simp_all
qed simp

lemma try_fold_invariant:
  assumes "try_fold f s xs = Inr s'" and "P s"
    and "\<And>s x t. P s \<Longrightarrow> x \<in> set xs \<Longrightarrow> f s x = Inr t \<Longrightarrow> P t"
  shows "P s'"
  using assms
proof (induction xs arbitrary: s)
  case (Cons x xs)
  from Cons.prems(1) obtain t where t: "f s x = Inr t" "try_fold f t xs = Inr s'"
    by (auto simp: try_bind_eq_Inr)
  have "P t"
    by (rule Cons.prems(3) [OF Cons.prems(2) _ t(1)]) simp
  moreover have "P u'" if "P u" "y \<in> set xs" "f u y = Inr u'" for u y u'
    using that by (intro Cons.prems(3) [of u y u']) simp_all
  ultimately show ?case
    using t(2) by (intro Cons.IH [of t])
qed simp

text \<open>\<open>res?\<close> where the callee may loop.\<close>

definition loop_bind :: "('e + 'a) option \<Rightarrow> ('a \<Rightarrow> ('e + 'b) option) \<Rightarrow> ('e + 'b) option" where
  "loop_bind r f = Option.bind r (\<lambda>res. case res of Inl e \<Rightarrow> Some (Inl e) | Inr x \<Rightarrow> f x)"

lemma loop_bind_simps [simp]:
  "loop_bind (Some (Inr x)) f = f x" "loop_bind (Some (Inl e)) f = Some (Inl e)" "loop_bind None f = None"
  by (simp_all add: loop_bind_def)

subsection \<open>Machine widths\<close>

definition u32_max :: nat where
  "u32_max = 2 ^ 32 - 1"

lemma u32_max_eq: "u32_max = 4294967295"
  by (simp add: u32_max_def)

definition usize_max :: nat where
  "usize_max = 2 ^ 64 - 1"

text \<open>\<open>u64\<close> and \<open>usize\<close> have the same width on the 64-bit targets the workspace builds for.\<close>

definition u64_max :: nat where
  "u64_max = 2 ^ 64 - 1"

definition checked_add :: "nat \<Rightarrow> nat \<Rightarrow> nat option" where
  "checked_add a b = (if a + b \<le> usize_max then Some (a + b) else None)"

definition checked_mul :: "nat \<Rightarrow> nat \<Rightarrow> nat option" where
  "checked_mul a b = (if a * b \<le> usize_max then Some (a * b) else None)"

definition saturating_mul :: "nat \<Rightarrow> nat \<Rightarrow> nat" where
  "saturating_mul a b = min (a * b) usize_max"

lemma saturating_mul_eq [simp]: "a * b \<le> usize_max \<Longrightarrow> saturating_mul a b = a * b"
  by (simp add: saturating_mul_def)

lemma checked_add_Some: "checked_add a b = Some c \<longleftrightarrow> c = a + b \<and> a + b \<le> usize_max"
  by (auto simp: checked_add_def)

lemma checked_mul_Some: "checked_mul a b = Some c \<longleftrightarrow> c = a * b \<and> a * b \<le> usize_max"
  by (auto simp: checked_mul_def)

lemma checked_mul_None: "checked_mul a b = None \<longleftrightarrow> usize_max < a * b"
  by (auto simp: checked_mul_def)

text \<open>\<open>-\<close> on \<open>usize\<close>, which wraps in a release build.\<close>

definition wrapping_sub :: "nat \<Rightarrow> nat \<Rightarrow> nat" where
  "wrapping_sub a b = (if b \<le> a then a - b else 2 ^ 64 + a - b)"

lemma wrapping_sub_le [simp]: "b \<le> a \<Longrightarrow> wrapping_sub a b = a - b"
  by (simp add: wrapping_sub_def)

text \<open>\<open>u32::try_from\<close> of a \<open>usize\<close>.\<close>

definition u32_try_from :: "nat \<Rightarrow> nat option" where
  "u32_try_from n = (if n \<le> u32_max then Some n else None)"

lemma u32_try_from_Some [simp]: "u32_try_from n = Some m \<longleftrightarrow> m = n \<and> n \<le> u32_max"
  by (auto simp: u32_try_from_def)

subsection \<open>Decimal rendering\<close>

text \<open>A decimal digit, for \<open>n < 10\<close>.\<close>

definition digit :: "nat \<Rightarrow> char" where
  "digit n = ''0123456789'' ! n"

fun show_nat :: "nat \<Rightarrow> string" where
  "show_nat n = (if n < 10 then [digit n] else show_nat (n div 10) @ [digit (n mod 10)])"

declare show_nat.simps [simp del]

subsection \<open>Lists\<close>

text \<open>\<open>slice.get(a..b)\<close>: the sub-slice, or \<open>None\<close> when the range is not inside the list.\<close>

definition slice_get :: "'a list \<Rightarrow> nat \<Rightarrow> nat \<Rightarrow> 'a list option" where
  "slice_get xs a b = (if a \<le> b \<and> b \<le> length xs then Some (take (b - a) (drop a xs)) else None)"

text \<open>\<open>slice.get(i)\<close>.\<close>

definition get_opt :: "'a list \<Rightarrow> nat \<Rightarrow> 'a option" where
  "get_opt xs i = (if i < length xs then Some (xs ! i) else None)"

lemma get_opt_Some [simp]: "get_opt xs i = Some x \<longleftrightarrow> i < length xs \<and> xs ! i = x"
  by (auto simp: get_opt_def)

lemma get_opt_None [simp]: "get_opt xs i = None \<longleftrightarrow> length xs \<le> i"
  by (auto simp: get_opt_def)

text \<open>\<open>Vec::dedup\<close> removes consecutive repeats; the library's \<open>remdups_adj\<close> is that function.\<close>

lemma distinct_remdups_adj_if_sorted: "sorted xs \<Longrightarrow> distinct (remdups_adj xs)"
  for xs :: "'a::linorder list"
  by (induction xs rule: remdups_adj.induct) auto

text \<open>\<open>sort_unstable\<close> followed by \<open>dedup\<close>: the sorted list of the set of the elements.\<close>

lemma remdups_adj_sort: "remdups_adj (sort xs) = sorted_list_of_set (set xs)"
  for xs :: "'a::linorder list"
  by (rule sorted_distinct_set_unique)
    (simp_all add: sorted_remdups_adj distinct_remdups_adj_if_sorted)

end
