(* ===== verification/Rng.thy ===== *)
theory Rng
  imports Prelude
begin

section \<open>Seeds and the random stream (crates/socsim-rng)\<close>

text \<open>
  \<open>derive_seed\<close> and its finaliser \<open>fmix64\<close> are translated on \<open>64 word\<close>, where \<open>*\<close> is
  \<open>wrapping_mul\<close>, \<open>XOR\<close> is \<open>^\<close> and \<open>drop_bit\<close> is \<open>>>\<close>. \<open>ChaCha20Rng\<close> is a third-party
  generator: its operations are the fields of \<open>chacha_ops\<close>, a parameter of the definitions
  that use them. The lemmas show that the finaliser is a bijection, that a seed determines
  the root and each label of a list of known length, and which label lists collide.
\<close>

unbundle bit_operations_syntax

type_synonym u64 = "64 word"

subsection \<open>The finaliser and the seed derivation\<close>

definition fnv_offset :: u64 where
  "fnv_offset = 0xcbf29ce484222325"

definition fnv_prime :: u64 where
  "fnv_prime = 0x100000001b3"

definition fmix64 :: "u64 \<Rightarrow> u64" where
  "fmix64 h0 =
     (let h1 = h0 XOR drop_bit 33 h0;
          h2 = h1 * 0xff51afd7ed558ccd;
          h3 = h2 XOR drop_bit 33 h2;
          h4 = h3 * 0xc4ceb9fe1a85ec53
      in h4 XOR drop_bit 33 h4)"

text \<open>One turn of the accumulation loop, and the loop.\<close>

definition fnv_mix :: "u64 \<Rightarrow> u64 \<Rightarrow> u64" where
  "fnv_mix p h = (h XOR p) * fnv_prime"

definition derive_seed :: "u64 \<Rightarrow> u64 list \<Rightarrow> u64" where
  "derive_seed root parts =
     (let h = fold fnv_mix parts (fnv_offset XOR root * fnv_prime)
      in fmix64 (fnv_mix (word_of_nat (length parts)) h))"

subsection \<open>The generator\<close>

record 'r chacha_ops =
  seed_from_u64 :: "u64 \<Rightarrow> 'r"
  get_word_pos :: "'r \<Rightarrow> 128 word"
  chacha_next_u64 :: "'r \<Rightarrow> u64 \<times> 'r"

record 'r sim_rng =
  inner :: 'r

definition from_seed :: "'r chacha_ops \<Rightarrow> u64 \<Rightarrow> 'r sim_rng" where
  "from_seed cc seed = \<lparr>inner = seed_from_u64 cc seed\<rparr>"

definition derive :: "'r chacha_ops \<Rightarrow> 'r sim_rng \<Rightarrow> u64 list \<Rightarrow> 'r sim_rng" where
  "derive cc self label =
     (let root = ucast (get_word_pos cc (inner self));
          seed = derive_seed root label
      in from_seed cc seed)"

definition next_u64 :: "'r chacha_ops \<Rightarrow> 'r sim_rng \<Rightarrow> u64 \<times> 'r sim_rng" where
  "next_u64 cc self =
     (let (v, r) = chacha_next_u64 cc (inner self) in (v, self\<lparr>inner := r\<rparr>))"

subsection \<open>The steps of the mix are invertible\<close>

lemma xorshift33_involution: "(h XOR drop_bit 33 h) XOR drop_bit 33 (h XOR drop_bit 33 h) = h"
  for h :: u64
proof -
  have "drop_bit 66 h = 0"
    by (rule bit_word_eqI) (auto simp: bit_simps dest: bit_imp_le_length)
  then have "drop_bit 33 (h XOR drop_bit 33 h) = drop_bit 33 h"
    by (simp add: drop_bit_xor drop_bit_drop_bit)
  then show ?thesis
    by (simp add: xor.assoc)
qed

lemma xorshift33_eq_iff: "h XOR drop_bit 33 h = k XOR drop_bit 33 k \<longleftrightarrow> h = k" for h k :: u64
  by (metis xorshift33_involution)

lemma word_mult_inj_iff:
  fixes a b c d :: "'a::len word"
  assumes "c * d = 1"
  shows "a * c = b * c \<longleftrightarrow> a = b"
  by (metis assms mult.assoc mult.right_neutral)

definition fnv_prime_inv :: u64 where
  "fnv_prime_inv = 0xce965057aff6957b"

lemma fnv_prime_inverse: "fnv_prime * fnv_prime_inv = 1" "fnv_prime_inv * fnv_prime = 1"
  by (simp_all add: fnv_prime_def fnv_prime_inv_def)

lemmas mult_prime_iff = word_mult_inj_iff [OF fnv_prime_inverse(1)]

lemma u64_xor_left_iff [simp]: "a XOR b = a XOR c \<longleftrightarrow> b = c" for a b c :: u64
proof
  assume "a XOR b = a XOR c"
  then have "(a XOR a) XOR b = (a XOR a) XOR c" by (simp only: xor.assoc)
  then show "b = c" by simp
qed simp

lemma u64_xor_right_iff [simp]: "b XOR a = c XOR a \<longleftrightarrow> b = c" for a b c :: u64
  by (simp only: xor.commute [of b a] xor.commute [of c a] u64_xor_left_iff)

lemma fnv_mix_iff [simp]:
  "fnv_mix p h = fnv_mix p k \<longleftrightarrow> h = k" "fnv_mix p h = fnv_mix q h \<longleftrightarrow> p = q"
  by (simp_all add: fnv_mix_def mult_prime_iff)

lemma fold_fnv_mix_iff: "fold fnv_mix ps h = fold fnv_mix ps k \<longleftrightarrow> h = k"
  by (induction ps arbitrary: h k) simp_all

lemma fmix64_iff [simp]: "fmix64 h = fmix64 k \<longleftrightarrow> h = k"
  unfolding fmix64_def Let_def xorshift33_eq_iff
  by (simp add: xorshift33_eq_iff
      word_mult_inj_iff [of "0xff51afd7ed558ccd :: u64" "0x4f74430c22a54005"]
      word_mult_inj_iff [of "0xc4ceb9fe1a85ec53 :: u64" "0x9cb4b2f8129337db"])


lemma bij_of_inj_u64: "(\<And>x y. f x = f y \<longleftrightarrow> x = y) \<Longrightarrow> bij f" for f :: "u64 \<Rightarrow> u64"
  by (simp add: bij_def inj_def finite_UNIV_inj_surj)

lemma derive_seed_eq_iff:
  "length ps = length qs \<Longrightarrow>
   derive_seed r ps = derive_seed s qs \<longleftrightarrow>
   fold fnv_mix ps (fnv_offset XOR r * fnv_prime) = fold fnv_mix qs (fnv_offset XOR s * fnv_prime)"
  by (simp add: derive_seed_def)

subsection \<open>What a seed determines\<close>

lemma bij_fmix64: "bij fmix64"
  by (rule bij_of_inj_u64) simp

text \<open>
  with the root, the other labels and the number of labels fixed, the seed is a bijective
  function of the label at any position. Distinct labels at one position never share a seed,
  and every seed is reached by exactly one label.
\<close>

theorem derive_seed_label_bij: "bij (\<lambda>label. derive_seed root (before @ label # after))"
  by (rule bij_of_inj_u64) (simp add: derive_seed_eq_iff fold_fnv_mix_iff)

text \<open>
  with the labels fixed, the seed is a bijective function of the root: two trials with
  different roots never derive the same seed for the same label list.
\<close>

theorem derive_seed_root_bij: "bij (\<lambda>root. derive_seed root parts)"
  by (rule bij_of_inj_u64) (simp add: derive_seed_eq_iff fold_fnv_mix_iff mult_prime_iff)

text \<open>
  C39: mixing the label count in does not keep label lists of different lengths apart: for every
  root and every list there is exactly one label whose addition leaves the derived seed unchanged.
\<close>

theorem derive_seed_length_collision:
  "\<exists>!b. derive_seed root (parts @ [b]) = derive_seed root parts"
proof -
  have "bij (\<lambda>b. derive_seed root (parts @ [b]))"
    by (rule bij_of_inj_u64) (simp add: derive_seed_eq_iff)
  then show ?thesis by (simp add: bij_iff)
qed

text \<open>\<open>n\<close> calls of \<open>next_u64\<close>.\<close>

primrec drawn :: "'r chacha_ops \<Rightarrow> nat \<Rightarrow> 'r sim_rng \<Rightarrow> 'r sim_rng" where
  "drawn cc 0 g = g"
| "drawn cc (Suc n) g = drawn cc n (snd (next_u64 cc g))"

text \<open>What the documentation of the generator says of its position: it counts 32-bit words, a seeded
  generator starts at 0, and a 64-bit draw takes two words. The counter may wrap above 64 bits.\<close>

definition counts_words :: "'r chacha_ops \<Rightarrow> bool" where
  "counts_words cc \<longleftrightarrow>
     (\<forall>seed. get_word_pos cc (seed_from_u64 cc seed) = 0) \<and>
     (\<forall>r. (ucast (get_word_pos cc (snd (chacha_next_u64 cc r))) :: u64) = ucast (get_word_pos cc r) + 2)"

lemma drawn_position:
  assumes "counts_words cc"
  shows "(ucast (get_word_pos cc (inner (drawn cc n g))) :: u64) = ucast (get_word_pos cc (inner g)) + word_of_nat (2 * n)"
proof (induction n arbitrary: g)
  case (Suc n)
  have "inner (snd (next_u64 cc g)) = snd (chacha_next_u64 cc (inner g))"
    by (simp add: next_u64_def split: prod.split)
  with Suc assms show ?case by (simp add: counts_words_def algebra_simps)
qed simp

lemma even_words_eq_iff: "(word_of_nat (2 * n) :: u64) = word_of_nat (2 * m) \<longleftrightarrow> n mod 2 ^ 63 = m mod 2 ^ 63"
proof -
  have "(word_of_nat (2 * n) :: u64) = word_of_nat (2 * m) \<longleftrightarrow> (2 * n) mod (2 * 2 ^ 63) = (2 * m) mod (2 * 2 ^ 63)"
    unfolding word_of_nat_eq_iff take_bit_eq_mod by simp
  then show ?thesis by (simp only: mult_mod_right [symmetric] mult_cancel1) simp
qed

text \<open>
  C40: \<open>SimRng::derive\<close> roots the child in how much its parent has drawn and not in the parent's seed.
  After \<open>n\<close> draws from any seed the child is built from the same seed, the one derived from the word
  count \<open>2 * n\<close>; and for one label two numbers of draws give the same seed of the child exactly when they
  agree modulo \<open>2^63\<close>.
\<close>

theorem derive_ignores_seed:
  assumes "counts_words cc"
  shows "derive cc (drawn cc n (from_seed cc seed)) label = from_seed cc (derive_seed (word_of_nat (2 * n)) label) \<and>
    (derive_seed (word_of_nat (2 * n)) label = derive_seed (word_of_nat (2 * m)) label \<longleftrightarrow> n mod 2 ^ 63 = m mod 2 ^ 63)"
proof
  have "(ucast (get_word_pos cc (inner (from_seed cc seed))) :: u64) = 0"
    using assms by (simp add: counts_words_def from_seed_def)
  then show "derive cc (drawn cc n (from_seed cc seed)) label = from_seed cc (derive_seed (word_of_nat (2 * n)) label)"
    by (simp only: derive_def Let_def drawn_position [OF assms]) simp
  have "derive_seed r label = derive_seed s label \<longleftrightarrow> r = s" for r s
    by (simp add: derive_seed_eq_iff fold_fnv_mix_iff mult_prime_iff)
  then show "derive_seed (word_of_nat (2 * n)) label = derive_seed (word_of_nat (2 * m)) label \<longleftrightarrow> n mod 2 ^ 63 = m mod 2 ^ 63"
    by (simp only: even_words_eq_iff)
qed

text \<open>A generator that satisfies the hypothesis: the seed and the position as its state. Generators with the
  seeds 1 and 2 have the same child after three draws each, and another one after a fourth draw.\<close>

definition counting_generator :: "(u64 \<times> 128 word) chacha_ops" where
  "counting_generator =
     \<lparr>seed_from_u64 = (\<lambda>s. (s, 0)), get_word_pos = snd,
      chacha_next_u64 = (\<lambda>(s, n). (s XOR ucast n, (s, n + 2)))\<rparr>"

lemma counting_counts: "counts_words counting_generator"
proof -
  have cancel: "b dvd a \<Longrightarrow> (k mod a + 2) mod b = (k + 2) mod b" for k a b :: int
    by (metis mod_add_left_eq mod_mod_cancel)
  have "(ucast (n + 2) :: u64) = ucast n + 2" for n :: "128 word"
    by transfer (simp add: take_bit_eq_mod mod_simps mod_mod_cancel cancel)
  then show ?thesis by (auto simp: counts_words_def counting_generator_def)
qed

theorem derive_ignores_seed_witness:
  "from_seed counting_generator 1 \<noteq> from_seed counting_generator 2 \<and>
   derive counting_generator (drawn counting_generator 3 (from_seed counting_generator 1)) [7] =
   derive counting_generator (drawn counting_generator 3 (from_seed counting_generator 2)) [7] \<and>
   derive counting_generator (drawn counting_generator 3 (from_seed counting_generator 1)) [7] \<noteq>
   derive counting_generator (drawn counting_generator 4 (from_seed counting_generator 1)) [7]"
proof -
  note child = derive_ignores_seed [OF counting_counts, THEN conjunct1]
  have "derive_seed (word_of_nat (2 * 3)) [7] \<noteq> derive_seed (word_of_nat (2 * 4)) [7]"
    using derive_ignores_seed [OF counting_counts, of 3 undefined "[7]" 4] by simp
  then show ?thesis unfolding child by (simp add: from_seed_def counting_generator_def)
qed

end
