(* ===== verification/Core.thy ===== *)
theory Core
  imports Rng
begin

section \<open>Core types and interfaces (crates/socsim-core)\<close>

text \<open>
  Agent identifiers with their derived order, the clock, the six phases, the error type, the
  blackboard, and the traits that a simulation is assembled from. A trait object is a record:
  its state and the operations on it. \<open>&mut self\<close> methods take the state and return it.
  A value of \<open>Box<dyn Any>\<close> is a pair of a type tag and a value, as \<open>downcast\<close> sees it.
  The clock is at its width: \<open>tick\<close> wraps, as a release build does.
\<close>

subsection \<open>AgentId\<close>

datatype agent_id = AgentId (agent_no: nat)

instantiation agent_id :: linorder
begin

definition less_eq_agent_id :: "agent_id \<Rightarrow> agent_id \<Rightarrow> bool" where
  "less_eq_agent_id a b \<longleftrightarrow> agent_no a \<le> agent_no b"

definition less_agent_id :: "agent_id \<Rightarrow> agent_id \<Rightarrow> bool" where
  "less_agent_id a b \<longleftrightarrow> agent_no a < agent_no b"

instance
  by standard (auto simp: less_eq_agent_id_def less_agent_id_def agent_id.expand)

end

lemma AgentId_le [simp]: "AgentId i \<le> AgentId j \<longleftrightarrow> i \<le> j"
  by (simp add: less_eq_agent_id_def)

lemma AgentId_less [simp]: "AgentId i < AgentId j \<longleftrightarrow> i < j"
  by (simp add: less_agent_id_def)

subsection \<open>SimClock\<close>

record sim_clock =
  clk_t :: u64
  clk_t_max :: u64

definition clock_new :: "u64 \<Rightarrow> sim_clock" where
  "clock_new t_max = \<lparr>clk_t = 0, clk_t_max = t_max\<rparr>"

definition is_done :: "sim_clock \<Rightarrow> bool" where
  "is_done c \<longleftrightarrow> clk_t c \<ge> clk_t_max c"

definition tick :: "sim_clock \<Rightarrow> sim_clock" where
  "tick c = c\<lparr>clk_t := clk_t c + 1\<rparr>"

lemma tick_t_max [simp]: "clk_t_max (tick c) = clk_t_max c"
  by (simp add: tick_def)

lemma unat_Suc_below: "a < b \<Longrightarrow> unat (a + 1) = Suc (unat a)" for a b :: "'a::len word"
proof -
  assume "a < b"
  then have "Suc (unat a) \<le> unat b" by (simp add: word_less_nat_alt Suc_leI)
  then have "Suc (unat a) < 2 ^ LENGTH('a)" using unsigned_less [of b] by (rule le_less_trans)
  then show ?thesis by (simp add: unat_word_ariths)
qed

lemma tick_before_done: "\<not> is_done c \<Longrightarrow> unat (clk_t (tick c)) = Suc (unat (clk_t c))"
  by (simp add: is_done_def tick_def not_le unat_Suc_below)

lemma is_done_iff: "is_done c \<longleftrightarrow> unat (clk_t_max c) \<le> unat (clk_t c)"
  by (simp add: is_done_def word_le_nat_alt)

subsection \<open>Phase\<close>

datatype phase = PreStep | Environment | Decision | Interaction | Reward | PostStep

definition phase_order :: "phase list" where
  "phase_order = [PreStep, Environment, Decision, Interaction, Reward, PostStep]"

lemma set_phase_order [simp]: "set phase_order = UNIV"
  by (auto simp: phase_order_def) (metis phase.exhaust)

lemma distinct_phase_order [simp]: "distinct phase_order"
  by (simp add: phase_order_def)

subsection \<open>SocsimError\<close>

datatype socsim_error =
    Config string
  | Mechanism string
  | UnknownMechanism string
  | Snapshot string

type_synonym 'a result = "socsim_error + 'a"

subsection \<open>WorldState\<close>

text \<open>\<open>clock_mut\<close> hands out a mutable reference; the model reads with \<open>clock\<close> and writes with
  \<open>set_clock\<close>.\<close>

record 'w world_ops =
  agent_ids :: "'w \<Rightarrow> agent_id list"
  clock :: "'w \<Rightarrow> sim_clock"
  set_clock :: "sim_clock \<Rightarrow> 'w \<Rightarrow> 'w"

locale world_state =
  fixes W :: "'w world_ops"
  assumes clock_set_clock [simp]: "clock W (set_clock W c w) = c"
    and set_clock_clock [simp]: "set_clock W (clock W w) w = w"
    and agent_ids_set_clock [simp]: "agent_ids W (set_clock W c w) = agent_ids W w"

subsection \<open>Recorder\<close>

record ('c, 'f, 'j) recorder_ops =
  record_metric :: "'c \<Rightarrow> u64 \<Rightarrow> string \<Rightarrow> 'f \<Rightarrow> 'c"
  record_event :: "'c \<Rightarrow> u64 \<Rightarrow> string \<Rightarrow> 'j \<Rightarrow> 'c"
  record_row :: "'c \<Rightarrow> u64 \<Rightarrow> string \<Rightarrow> (string \<times> 'f) list \<Rightarrow> 'c"

text \<open>The default body of \<open>record_row\<close>: one \<open>record_metric\<close> per column.\<close>

definition default_record_row ::
    "('c \<Rightarrow> u64 \<Rightarrow> string \<Rightarrow> 'f \<Rightarrow> 'c) \<Rightarrow> 'c \<Rightarrow> u64 \<Rightarrow> string \<Rightarrow> (string \<times> 'f) list \<Rightarrow> 'c" where
  "default_record_row metric self t table row =
     foldl (\<lambda>s (col, value). metric s t (table @ ''.'' @ col) value) self row"

definition null_recorder :: "(unit, 'f, 'j) recorder_ops" where
  "null_recorder =
     \<lparr>record_metric = (\<lambda>s _ _ _. s), record_event = (\<lambda>s _ _ _. s), record_row = (\<lambda>s _ _ _. s)\<rparr>"

subsection \<open>Blackboard\<close>

record ('ty, 'v) blackboard =
  bb_map :: "string \<rightharpoonup> 'ty \<times> 'v"

definition bb_new :: "('ty, 'v) blackboard" where
  "bb_new = \<lparr>bb_map = Map.empty\<rparr>"

definition bb_insert :: "'ty \<Rightarrow> string \<Rightarrow> 'v \<Rightarrow> ('ty, 'v) blackboard \<Rightarrow> ('ty, 'v) blackboard" where
  "bb_insert ty key value bb = bb\<lparr>bb_map := (bb_map bb)(key \<mapsto> (ty, value))\<rparr>"

definition bb_get :: "'ty \<Rightarrow> string \<Rightarrow> ('ty, 'v) blackboard \<Rightarrow> 'v option" where
  "bb_get ty key bb =
     (case bb_map bb key of None \<Rightarrow> None | Some (ty', v) \<Rightarrow> if ty' = ty then Some v else None)"

text \<open>\<open>get_mut\<close> followed by a write through the reference: \<open>None\<close> when there is no reference.\<close>

definition bb_get_mut ::
    "'ty \<Rightarrow> string \<Rightarrow> ('v \<Rightarrow> 'v) \<Rightarrow> ('ty, 'v) blackboard \<Rightarrow> ('ty, 'v) blackboard option" where
  "bb_get_mut ty key f bb = map_option (\<lambda>v. bb_insert ty key (f v) bb) (bb_get ty key bb)"

definition bb_clear :: "('ty, 'v) blackboard \<Rightarrow> ('ty, 'v) blackboard" where
  "bb_clear bb = bb\<lparr>bb_map := Map.empty\<rparr>"

lemma bb_clear_eq [simp]: "bb_clear bb = bb_new" for bb :: "('ty, 'v) blackboard"
  by (simp add: bb_clear_def bb_new_def)

lemma bb_get_insert:
  "bb_get ty key (bb_insert ty' key' v bb) =
     (if key = key' then (if ty = ty' then Some v else None) else bb_get ty key bb)"
  by (auto simp: bb_get_def bb_insert_def)

lemma bb_get_new [simp]: "bb_get ty key bb_new = None"
  by (simp add: bb_get_def bb_new_def)

lemma bb_get_get_mut:
  "bb_get_mut ty key f bb = Some bb' \<Longrightarrow> bb_get ty key bb' = map_option f (bb_get ty key bb)"
  by (auto simp: bb_get_mut_def bb_get_insert)

subsection \<open>StepContext, Mechanism and Scheduler\<close>

record ('w, 'r, 'c, 'ty, 'v) step_context =
  ctx_world :: 'w
  ctx_clock :: sim_clock
  ctx_rng :: 'r
  ctx_recorder :: 'c
  ctx_agent_order :: "agent_id list"
  ctx_scratch :: "('ty, 'v) blackboard"
  ctx_stop :: bool

definition request_stop :: "('w, 'r, 'c, 'ty, 'v) step_context \<Rightarrow> ('w, 'r, 'c, 'ty, 'v) step_context" where
  "request_stop ctx = ctx\<lparr>ctx_stop := True\<rparr>"

text \<open>The outcome of \<open>apply\<close> is the result, the mechanism's own new state and the context with
  the effects made until then, also when the result is an error.\<close>

record ('m, 'w, 'r, 'c, 'ty, 'v) mechanism =
  mech_name :: string
  mech_phases :: "phase list"
  mech_self :: 'm
  mech_apply :: "'m \<Rightarrow> phase \<Rightarrow> ('w, 'r, 'c, 'ty, 'v) step_context \<Rightarrow>
     unit result \<times> 'm \<times> ('w, 'r, 'c, 'ty, 'v) step_context"

record ('s, 'w, 'r) scheduler =
  sched_self :: 's
  sched_order :: "'s \<Rightarrow> 'w \<Rightarrow> 'r \<Rightarrow> agent_id list \<times> 's \<times> 'r"

subsection \<open>Loops left at the first error\<close>

text \<open>
  A \<open>for\<close> loop over \<open>xs\<close> whose body is a fallible \<open>&mut self\<close> call followed by \<open>?\<close>: the
  loop ends at the first error, with the state the failing call left.
\<close>

fun for_each :: "('x \<Rightarrow> 's \<Rightarrow> unit result \<times> 's) \<Rightarrow> 'x list \<Rightarrow> 's \<Rightarrow> unit result \<times> 's" where
  "for_each body [] s = (Inr (), s)"
| "for_each body (x # xs) s =
     (case body x s of
        (Inl e, s') \<Rightarrow> (Inl e, s')
      | (Inr _, s') \<Rightarrow> for_each body xs s')"

lemma for_each_append:
  "for_each body (xs @ ys) s =
     (case for_each body xs s of
        (Inl e, s') \<Rightarrow> (Inl e, s')
      | (Inr _, s') \<Rightarrow> for_each body ys s')"
  by (induction xs arbitrary: s) (auto split: prod.splits sum.splits)

lemma for_each_nested:
  "for_each (\<lambda>x. for_each (body x) (ys x)) xs s =
     for_each (\<lambda>(x, y). body x y) (concat (map (\<lambda>x. map (Pair x) (ys x)) xs)) s"
proof (induction xs arbitrary: s)
  case (Cons x xs)
  have inner: "for_each (\<lambda>(x, y). body x y) (map (Pair x) zs) s = for_each (body x) zs s" for zs s
    by (induction zs arbitrary: s) (auto split: prod.splits sum.splits)
  show ?case
    by (simp add: for_each_append inner Cons.IH split: prod.splits sum.splits)
qed simp

lemma for_each_cong_inv:
  assumes "I s" and "\<And>x s. x \<in> set xs \<Longrightarrow> I s \<Longrightarrow> f x s = g x s"
    and "\<And>x s. x \<in> set xs \<Longrightarrow> I s \<Longrightarrow> I (snd (g x s))"
  shows "for_each f xs s = for_each g xs s"
  using assms
proof (induction xs arbitrary: s)
  case (Cons x xs)
  have eq: "f x s = g x s" and inv: "I (snd (g x s))" using Cons.prems by simp_all
  show ?case
  proof (cases "g x s")
    case (Pair r s')
    with inv have "for_each f xs s' = for_each g xs s'"
      using Cons.prems by (intro Cons.IH) auto
    with Pair eq show ?thesis by (simp split: sum.splits)
  qed
qed simp

lemma for_each_invariant:
  assumes "I s" and "\<And>x s. x \<in> set xs \<Longrightarrow> I s \<Longrightarrow> I (snd (body x s))"
  shows "I (snd (for_each body xs s))"
  using assms
proof (induction xs arbitrary: s)
  case (Cons x xs)
  have step: "I (snd (body x s))" using Cons.prems by simp
  have rest: "I (snd (for_each body xs s'))" if "I s'" for s'
    using that Cons.prems(2) by (intro Cons.IH) auto
  show ?case
    using step rest by (cases "body x s") (auto split: sum.splits)
qed simp

lemma for_each_skip:
  "for_each (\<lambda>x s. if P x then body x s else (Inr (), s)) xs s = for_each body (filter P xs) s"
  by (induction xs arbitrary: s) (auto split: prod.splits sum.splits)

end
