(* ===== verification/Engine.thy ===== *)
theory Engine
  imports Core
begin

section \<open>The simulation engine (crates/socsim-engine)\<close>

text \<open>
  The two schedulers, the simulation record, \<open>step\<close> and the drivers around it, snapshots and the
  builder. \<open>mech_calls\<close> is the specification of a step: the list of (phase, mechanism) calls
  in the order the engine must make them. The clock laws of a world are the locale
  \<open>world_state\<close> of \<open>Core\<close>; the drivers' termination is proved from them and from the contract
  that no mechanism writes the clock.
\<close>

subsection \<open>Schedulers\<close>

definition sequential_scheduler :: "'w world_ops \<Rightarrow> (unit, 'w, 'r) scheduler" where
  "sequential_scheduler W =
     \<lparr>sched_self = (), sched_order = (\<lambda>self world rng. (sort (agent_ids W world), self, rng))\<rparr>"

text \<open>\<open>SliceRandom::shuffle\<close> belongs to the crate \<open>rand\<close>: it is the parameter \<open>shuffle\<close>.\<close>

definition random_activation_scheduler ::
    "(agent_id list \<Rightarrow> 'r \<Rightarrow> agent_id list \<times> 'r) \<Rightarrow> 'w world_ops \<Rightarrow> (unit, 'w, 'r) scheduler" where
  "random_activation_scheduler shuffle W =
     \<lparr>sched_self = (),
      sched_order = (\<lambda>self world rng.
        let (ids, rng') = shuffle (agent_ids W world) rng in (ids, self, rng'))\<rparr>"

subsection \<open>The simulation and one step\<close>

record ('m, 's, 'w, 'r, 'c, 'ty, 'v) simulation =
  sim_world :: 'w
  sim_mechanisms :: "('m, 'w, 'r, 'c, 'ty, 'v) mechanism list"
  sim_scheduler :: "('s, 'w, 'r) scheduler"
  sim_rng :: 'r
  sim_recorder :: 'c
  sim_scratch :: "('ty, 'v) blackboard"
  sim_stop_requested :: bool

text \<open>One \<open>mech.apply(phase, &mut ctx)\<close>: the context borrows the simulation's fields, so what the
  mechanism leaves in it is the simulation's state afterwards.\<close>

definition call_mech ::
    "sim_clock \<Rightarrow> agent_id list \<Rightarrow> phase \<Rightarrow> nat \<Rightarrow> ('m, 's, 'w, 'r, 'c, 'ty, 'v) simulation \<Rightarrow>
     unit result \<times> ('m, 's, 'w, 'r, 'c, 'ty, 'v) simulation" where
  "call_mech snapshot order phase i sim =
     (let mech = sim_mechanisms sim ! i;
          ctx = \<lparr>ctx_world = sim_world sim, ctx_clock = snapshot, ctx_rng = sim_rng sim,
                 ctx_recorder = sim_recorder sim, ctx_agent_order = order,
                 ctx_scratch = sim_scratch sim, ctx_stop = sim_stop_requested sim\<rparr>;
          (r, self', ctx') = mech_apply mech (mech_self mech) phase ctx
      in (r, sim\<lparr>sim_world := ctx_world ctx',
                 sim_mechanisms := (sim_mechanisms sim)[i := mech\<lparr>mech_self := self'\<rparr>],
                 sim_rng := ctx_rng ctx', sim_recorder := ctx_recorder ctx',
                 sim_scratch := ctx_scratch ctx', sim_stop_requested := ctx_stop ctx'\<rparr>))"

text \<open>The inner loop over the mechanisms, in insertion order.\<close>

definition run_phase ::
    "sim_clock \<Rightarrow> agent_id list \<Rightarrow> phase \<Rightarrow> ('m, 's, 'w, 'r, 'c, 'ty, 'v) simulation \<Rightarrow>
     unit result \<times> ('m, 's, 'w, 'r, 'c, 'ty, 'v) simulation" where
  "run_phase snapshot order phase sim =
     for_each (\<lambda>i sim. if phase \<in> set (mech_phases (sim_mechanisms sim ! i))
                       then call_mech snapshot order phase i sim else (Inr (), sim))
       [0..<length (sim_mechanisms sim)] sim"

text \<open>What \<open>step\<close> does before the phases: tick, clear the scratch, ask the scheduler.\<close>

definition begin_step ::
    "'w world_ops \<Rightarrow> ('m, 's, 'w, 'r, 'c, 'ty, 'v) simulation \<Rightarrow>
     sim_clock \<times> agent_id list \<times> ('m, 's, 'w, 'r, 'c, 'ty, 'v) simulation" where
  "begin_step W sim =
     (let world = set_clock W (tick (clock W (sim_world sim))) (sim_world sim);
          snapshot = clock W world;
          sch = sim_scheduler sim;
          (order, self', rng') = sched_order sch (sched_self sch) world (sim_rng sim)
      in (snapshot, order,
          sim\<lparr>sim_world := world, sim_scratch := bb_clear (sim_scratch sim),
              sim_scheduler := sch\<lparr>sched_self := self'\<rparr>, sim_rng := rng'\<rparr>))"

definition step ::
    "'w world_ops \<Rightarrow> ('m, 's, 'w, 'r, 'c, 'ty, 'v) simulation \<Rightarrow>
     unit result \<times> ('m, 's, 'w, 'r, 'c, 'ty, 'v) simulation" where
  "step W sim =
     (let (snapshot, order, sim1) = begin_step W sim
      in for_each (run_phase snapshot order) phase_order sim1)"

subsection \<open>The drivers\<close>

definition finished :: "'w world_ops \<Rightarrow> ('m, 's, 'w, 'r, 'c, 'ty, 'v) simulation \<Rightarrow> bool" where
  "finished W sim \<longleftrightarrow> is_done (clock W (sim_world sim)) \<or> sim_stop_requested sim"

partial_function (option) run ::
    "'w world_ops \<Rightarrow> ('m, 's, 'w, 'r, 'c, 'ty, 'v) simulation \<Rightarrow>
     (unit result \<times> ('m, 's, 'w, 'r, 'c, 'ty, 'v) simulation) option" where
  "run W sim =
     (if finished W sim then Some (Inr (), sim)
      else let (r, sim') = step W sim in if isl r then Some (r, sim') else run W sim')"

partial_function (option) run_until ::
    "'w world_ops \<Rightarrow> ('w \<Rightarrow> bool) \<Rightarrow> ('m, 's, 'w, 'r, 'c, 'ty, 'v) simulation \<Rightarrow>
     (unit result \<times> ('m, 's, 'w, 'r, 'c, 'ty, 'v) simulation) option" where
  "run_until W predicate sim =
     (if finished W sim then Some (Inr (), sim)
      else let (r, sim') = step W sim
           in if isl r then Some (r, sim')
              else if predicate (sim_world sim') then Some (Inr (), sim')
              else run_until W predicate sim')"

record ('w, 'ty, 'v) step_report =
  rep_t :: u64
  rep_stopped :: bool
  rep_world :: 'w
  rep_scratch :: "('ty, 'v) blackboard"

definition report :: "'w world_ops \<Rightarrow> ('m, 's, 'w, 'r, 'c, 'ty, 'v) simulation \<Rightarrow> ('w, 'ty, 'v) step_report" where
  "report W sim =
     \<lparr>rep_t = clk_t (clock W (sim_world sim)), rep_stopped = sim_stop_requested sim,
      rep_world = sim_world sim, rep_scratch = sim_scratch sim\<rparr>"

definition step_reported ::
    "'w world_ops \<Rightarrow> ('m, 's, 'w, 'r, 'c, 'ty, 'v) simulation \<Rightarrow>
     ('w, 'ty, 'v) step_report result \<times> ('m, 's, 'w, 'r, 'c, 'ty, 'v) simulation" where
  "step_reported W sim =
     (case step W sim of
        (Inl e, sim') \<Rightarrow> (Inl e, sim')
      | (Inr _, sim') \<Rightarrow> (Inr (report W sim'), sim'))"

text \<open>\<open>observe\<close> is an \<open>FnMut\<close>: it carries its captured state, here \<open>'o\<close>.\<close>

partial_function (option) run_observed ::
    "'w world_ops \<Rightarrow> ('o \<Rightarrow> ('w, 'ty, 'v) step_report \<Rightarrow> 'o) \<Rightarrow> 'o \<Rightarrow>
     ('m, 's, 'w, 'r, 'c, 'ty, 'v) simulation \<Rightarrow>
     (unit result \<times> 'o \<times> ('m, 's, 'w, 'r, 'c, 'ty, 'v) simulation) option" where
  "run_observed W observe obs sim =
     (if finished W sim then Some (Inr (), obs, sim)
      else let (r, sim') = step W sim
           in if isl r then Some (r, obs, sim')
              else let obs' = observe obs (report W sim')
                   in if sim_stop_requested sim' then Some (Inr (), obs', sim')
                      else run_observed W observe obs' sim')"

subsection \<open>Snapshots\<close>

definition snapshot_version :: nat where
  "snapshot_version = 1"

record ('w, 'r) snapshot =
  snap_version :: nat
  snap_world :: 'w
  snap_rng :: 'r
  snap_stop_requested :: bool

definition take_snapshot :: "('m, 's, 'w, 'r, 'c, 'ty, 'v) simulation \<Rightarrow> ('w, 'r) snapshot" where
  "take_snapshot sim =
     \<lparr>snap_version = snapshot_version, snap_world = sim_world sim, snap_rng = sim_rng sim,
      snap_stop_requested = sim_stop_requested sim\<rparr>"

definition restore ::
    "('w, 'r) snapshot \<Rightarrow> ('m, 's, 'w, 'r, 'c, 'ty, 'v) simulation \<Rightarrow>
     ('m, 's, 'w, 'r, 'c, 'ty, 'v) simulation" where
  "restore snap sim =
     sim\<lparr>sim_world := snap_world snap, sim_rng := snap_rng snap,
         sim_stop_requested := snap_stop_requested snap,
         sim_scratch := bb_clear (sim_scratch sim)\<rparr>"

text \<open>\<open>Snapshot::load\<close> over the text that \<open>serde_json\<close> reads: \<open>parse\<close> is the third-party
  deserialiser (\<open>Inl\<close> its message), the version check is the code's own.\<close>

definition load_snapshot :: "('t \<Rightarrow> string + ('w, 'r) snapshot) \<Rightarrow> 't \<Rightarrow> ('w, 'r) snapshot result" where
  "load_snapshot parse text =
     try_bind (map_err (\<lambda>e. Snapshot (''deserialise: '' @ e)) (parse text)) (\<lambda>snap.
       if snap_version snap \<noteq> snapshot_version
       then Inl (Snapshot (''version mismatch: file is v'' @ show_nat (snap_version snap) @
              '', expected v'' @ show_nat snapshot_version))
       else Inr snap)"

subsection \<open>The builder\<close>

record ('m, 's, 'w, 'r, 'c, 'ty, 'v) simulation_builder =
  bld_world :: 'w
  bld_mechanisms :: "('m, 'w, 'r, 'c, 'ty, 'v) mechanism list"
  bld_scheduler :: "('s, 'w, 'r) scheduler option"
  bld_seed :: u64
  bld_recorder :: "'c option"

definition builder_new :: "'w \<Rightarrow> ('m, 's, 'w, 'r, 'c, 'ty, 'v) simulation_builder" where
  "builder_new world =
     \<lparr>bld_world = world, bld_mechanisms = [], bld_scheduler = None, bld_seed = 0,
      bld_recorder = None\<rparr>"

definition add_mechanism ::
    "('m, 'w, 'r, 'c, 'ty, 'v) mechanism \<Rightarrow> ('m, 's, 'w, 'r, 'c, 'ty, 'v) simulation_builder \<Rightarrow>
     ('m, 's, 'w, 'r, 'c, 'ty, 'v) simulation_builder" where
  "add_mechanism m b = b\<lparr>bld_mechanisms := bld_mechanisms b @ [m]\<rparr>"

definition with_scheduler ::
    "('s, 'w, 'r) scheduler \<Rightarrow> ('m, 's, 'w, 'r, 'c, 'ty, 'v) simulation_builder \<Rightarrow>
     ('m, 's, 'w, 'r, 'c, 'ty, 'v) simulation_builder" where
  "with_scheduler s b = b\<lparr>bld_scheduler := Some s\<rparr>"

definition with_seed ::
    "u64 \<Rightarrow> ('m, 's, 'w, 'r, 'c, 'ty, 'v) simulation_builder \<Rightarrow>
     ('m, 's, 'w, 'r, 'c, 'ty, 'v) simulation_builder" where
  "with_seed seed b = b\<lparr>bld_seed := seed\<rparr>"

definition with_recorder ::
    "'c \<Rightarrow> ('m, 's, 'w, 'r, 'c, 'ty, 'v) simulation_builder \<Rightarrow>
     ('m, 's, 'w, 'r, 'c, 'ty, 'v) simulation_builder" where
  "with_recorder r b = b\<lparr>bld_recorder := Some r\<rparr>"

text \<open>\<open>build\<close>: the boxed defaults (\<open>SequentialScheduler\<close>, \<open>NullRecorder\<close>) are passed in, as values
  of the types the simulation's boxes have.\<close>

definition build ::
    "'g chacha_ops \<Rightarrow> ('s, 'w, 'g sim_rng) scheduler \<Rightarrow> 'c \<Rightarrow>
     ('m, 's, 'w, 'g sim_rng, 'c, 'ty, 'v) simulation_builder \<Rightarrow>
     ('m, 's, 'w, 'g sim_rng, 'c, 'ty, 'v) simulation" where
  "build cc sequential null_rec b =
     \<lparr>sim_world = bld_world b, sim_mechanisms = bld_mechanisms b,
      sim_scheduler = (case bld_scheduler b of Some s \<Rightarrow> s | None \<Rightarrow> sequential),
      sim_rng = from_seed cc (bld_seed b),
      sim_recorder = (case bld_recorder b of Some r \<Rightarrow> r | None \<Rightarrow> null_rec),
      sim_scratch = bb_new, sim_stop_requested = False\<rparr>"

subsection \<open>The calls of a step\<close>

text \<open>What does not change about a mechanism when it is called: its code.\<close>

definition mech_code :: "('m, 'w, 'r, 'c, 'ty, 'v) mechanism \<Rightarrow> string \<times> phase list \<times>
    ('m \<Rightarrow> phase \<Rightarrow> ('w, 'r, 'c, 'ty, 'v) step_context \<Rightarrow>
     unit result \<times> 'm \<times> ('w, 'r, 'c, 'ty, 'v) step_context)" where
  "mech_code m = (mech_name m, mech_phases m, mech_apply m)"

text \<open>The calls of one step: the phases in \<open>phase_order\<close>, within a phase the mechanisms that
  registered it, in insertion order.\<close>

definition mech_calls :: "('m, 'w, 'r, 'c, 'ty, 'v) mechanism list \<Rightarrow> (phase \<times> nat) list" where
  "mech_calls ms =
     concat (map (\<lambda>ph. map (Pair ph) (filter (\<lambda>i. ph \<in> set (mech_phases (ms ! i))) [0..<length ms]))
       phase_order)"

abbreviation "sim_code sim \<equiv> map mech_code (sim_mechanisms sim)"

lemma mech_code_self [simp]: "mech_code (m\<lparr>mech_self := x\<rparr>) = mech_code m"
  by (simp add: mech_code_def)

lemma call_mech_code [simp]: "sim_code (snd (call_mech snapshot order ph i sim)) = sim_code sim"
proof (cases "i < length (sim_mechanisms sim)")
  case True
  then have "(map mech_code (sim_mechanisms sim))[i := mech_code (sim_mechanisms sim ! i)] =
      map mech_code (sim_mechanisms sim)"
    by (simp add: list_update_same_conv)
  then show ?thesis
    by (simp add: call_mech_def Let_def map_update split: prod.splits)
next
  case False
  then show ?thesis
    by (simp add: call_mech_def Let_def list_update_beyond split: prod.splits)
qed

lemma sim_code_length: "sim_code sim = map mech_code ms \<Longrightarrow> length (sim_mechanisms sim) = length ms"
  by (metis length_map)

lemma sim_code_nth:
  "sim_code sim = map mech_code ms \<Longrightarrow> i < length ms \<Longrightarrow>
   mech_code (sim_mechanisms sim ! i) = mech_code (ms ! i)"
  by (metis nth_map sim_code_length)

lemma sim_code_phases:
  "sim_code sim = map mech_code ms \<Longrightarrow> i < length ms \<Longrightarrow>
   mech_phases (sim_mechanisms sim ! i) = mech_phases (ms ! i)"
  by (drule (1) sim_code_nth) (simp add: mech_code_def)

lemma run_phase_calls:
  assumes "sim_code sim = map mech_code ms"
  shows "run_phase snapshot order ph sim =
    for_each (call_mech snapshot order ph)
      (filter (\<lambda>i. ph \<in> set (mech_phases (ms ! i))) [0..<length ms]) sim"
proof -
  have "run_phase snapshot order ph sim =
      for_each (\<lambda>i sim. if ph \<in> set (mech_phases (sim_mechanisms sim ! i))
                       then call_mech snapshot order ph i sim else (Inr (), sim)) [0..<length ms] sim"
    using sim_code_length [OF assms] by (simp add: run_phase_def)
  also have "\<dots> = for_each (\<lambda>i sim. if ph \<in> set (mech_phases (ms ! i))
                       then call_mech snapshot order ph i sim else (Inr (), sim)) [0..<length ms] sim"
    by (rule for_each_cong_inv [where I = "\<lambda>sim. sim_code sim = map mech_code ms"])
      (use assms in \<open>auto simp: sim_code_phases\<close>)
  finally show ?thesis by (simp add: for_each_skip)
qed

lemma calls_code:
  "sim_code sim = K \<Longrightarrow> sim_code (snd (for_each (call_mech snapshot order ph) is sim)) = K"
  by (rule for_each_invariant [where I = "\<lambda>sim. sim_code sim = K"]) simp_all

lemma run_phase_code:
  "sim_code sim = map mech_code ms \<Longrightarrow> sim_code (snd (run_phase snapshot order ph sim)) = map mech_code ms"
  by (simp only: run_phase_calls calls_code)

lemma begin_step_code:
  "begin_step W sim = (snapshot, order, sim1) \<Longrightarrow> sim_mechanisms sim1 = sim_mechanisms sim"
  by (auto simp: begin_step_def Let_def split: prod.splits)

lemma step_calls:
  assumes b: "begin_step W sim = (snapshot, order, sim1)"
  shows "step W sim =
    for_each (\<lambda>(ph, i). call_mech snapshot order ph i) (mech_calls (sim_mechanisms sim)) sim1"
proof -
  let ?ms = "sim_mechanisms sim"
  have ms: "sim_code sim1 = map mech_code ?ms"
    using begin_step_code [OF b] by simp
  have "for_each (run_phase snapshot order) phase_order sim1 =
      for_each (\<lambda>ph. for_each (call_mech snapshot order ph)
        (filter (\<lambda>i. ph \<in> set (mech_phases (?ms ! i))) [0..<length ?ms])) phase_order sim1"
    by (rule for_each_cong_inv [where I = "\<lambda>s. sim_code s = map mech_code ?ms"])
      (rule ms, erule run_phase_calls, erule calls_code)
  then show ?thesis
    by (simp add: step_def b for_each_nested mech_calls_def)
qed

text \<open>
  C1: a step makes exactly the calls of \<open>mech_calls\<close>, in that order, each on the state the call
  before it left, and it ends at the first call that fails.
\<close>

theorem step_follows_schedule:
  "step W sim =
     (let (snapshot, order, sim1) = begin_step W sim
      in for_each (\<lambda>(ph, i). call_mech snapshot order ph i) (mech_calls (sim_mechanisms sim)) sim1)"
  by (cases "begin_step W sim") (simp add: step_calls)

end
