(* ===== verification/Engine_Runs.thy ===== *)
theory Engine_Runs
  imports Engine
begin

section \<open>Properties of the engine's drivers\<close>

text \<open>
  The clock during a step, termination of \<open>run\<close> and what holds when it ends, the agreement of
  \<open>run_observed\<close> with \<open>run\<close> and what the observer sees, and exact resumption from a snapshot.
  The clock lemmas are proved once in the locale \<open>world_state\<close>.
\<close>

subsection \<open>Mechanisms that leave the clock alone\<close>

definition keeps_clock :: "'w world_ops \<Rightarrow> ('m, 'w, 'r, 'c, 'ty, 'v) mechanism \<Rightarrow> bool" where
  "keeps_clock W m \<longleftrightarrow>
     (\<forall>self ph ctx. clock W (ctx_world (snd (snd (mech_apply m self ph ctx)))) =
        clock W (ctx_world ctx))"

abbreviation sim_clock_of :: "'w world_ops \<Rightarrow> ('m, 's, 'w, 'r, 'c, 'ty, 'v) simulation \<Rightarrow> sim_clock" where
  "sim_clock_of W sim \<equiv> clock W (sim_world sim)"

abbreviation clock_kept :: "'w world_ops \<Rightarrow> ('m, 's, 'w, 'r, 'c, 'ty, 'v) simulation \<Rightarrow> bool" where
  "clock_kept W sim \<equiv> \<forall>m \<in> set (sim_mechanisms sim). keeps_clock W m"

lemma keeps_clock_code: "mech_code m = mech_code m' \<Longrightarrow> keeps_clock W m = keeps_clock W m'"
  by (simp add: keeps_clock_def mech_code_def)

lemma clock_kept_code:
  assumes "sim_code sim = sim_code sim'" "clock_kept W sim"
  shows "clock_kept W sim'"
proof
  fix m assume "m \<in> set (sim_mechanisms sim')"
  then have "mech_code m \<in> set (sim_code sim')" by simp
  then obtain m' where "m' \<in> set (sim_mechanisms sim)" "mech_code m = mech_code m'"
    unfolding assms(1) [symmetric] by auto
  then show "keeps_clock W m" using assms(2) keeps_clock_code by metis
qed

lemma step_code: "sim_code (snd (step W sim)) = sim_code sim"
proof -
  obtain snapshot order sim1 where b: "begin_step W sim = (snapshot, order, sim1)"
    by (metis prod_cases3)
  have "sim_code (snd (for_each (\<lambda>(ph, i). call_mech snapshot order ph i)
      (mech_calls (sim_mechanisms sim)) sim1)) = sim_code sim"
    by (rule for_each_invariant [where I = "\<lambda>s. sim_code s = sim_code sim"])
      (auto simp: begin_step_code [OF b])
  then show ?thesis by (simp add: step_calls [OF b])
qed

lemma step_clock_kept: "clock_kept W sim \<Longrightarrow> clock_kept W (snd (step W sim))"
  by (rule clock_kept_code [OF step_code [symmetric]])

lemma call_mech_clock:
  assumes "i < length (sim_mechanisms sim)" "clock_kept W sim"
  shows "sim_clock_of W (snd (call_mech snapshot order ph i sim)) = sim_clock_of W sim"
proof -
  have "keeps_clock W (sim_mechanisms sim ! i)" using assms by simp
  then show ?thesis
    unfolding call_mech_def keeps_clock_def Let_def
    by (simp split: prod.splits) (metis snd_conv step_context.select_convs(1))
qed

lemma mech_calls_index: "(ph, i) \<in> set (mech_calls ms) \<Longrightarrow> i < length ms"
  by (auto simp: mech_calls_def)

context world_state
begin

lemma begin_step_clock:
  "begin_step W sim = (snapshot, order, sim1) \<Longrightarrow>
   sim_clock_of W sim1 = tick (sim_clock_of W sim) \<and> snapshot = tick (sim_clock_of W sim)"
  by (auto simp: begin_step_def Let_def split: prod.splits)

lemma step_ticks:
  assumes "clock_kept W sim"
  shows "sim_clock_of W (snd (step W sim)) = tick (sim_clock_of W sim)"
proof -
  obtain snapshot order sim1 where b: "begin_step W sim = (snapshot, order, sim1)"
    by (metis prod_cases3)
  let ?I = "\<lambda>s. sim_code s = sim_code sim \<and> sim_clock_of W s = tick (sim_clock_of W sim)"
  have "?I (snd (for_each (\<lambda>(ph, i). call_mech snapshot order ph i)
      (mech_calls (sim_mechanisms sim)) sim1))"
  proof (rule for_each_invariant [where I = ?I])
    show "?I sim1" using begin_step_clock [OF b] begin_step_code [OF b] by simp
  next
    fix x s assume x: "x \<in> set (mech_calls (sim_mechanisms sim))" and s: "?I s"
    obtain ph i where x_eq: "x = (ph, i)" by fastforce
    have "i < length (sim_mechanisms s)"
      using mech_calls_index x x_eq sim_code_length [of s "sim_mechanisms sim"] s by auto
    moreover have "clock_kept W s" using s assms clock_kept_code [of sim s W] by simp
    ultimately show "?I (snd ((\<lambda>(ph, i). call_mech snapshot order ph i) x s))"
      using s by (simp add: x_eq call_mech_clock)
  qed
  then show ?thesis by (simp add: step_calls [OF b])
qed

lemma run_outcome:
  assumes "clock_kept W sim"
  shows "\<exists>r sim'. run W sim = Some (r, sim') \<and>
    clk_t_max (sim_clock_of W sim') = clk_t_max (sim_clock_of W sim) \<and>
    (isl r \<or> sim_stop_requested sim' \<or>
     clk_t (sim_clock_of W sim') = max (clk_t (sim_clock_of W sim)) (clk_t_max (sim_clock_of W sim)))"
  using assms
proof (induction "unat (clk_t_max (sim_clock_of W sim)) - unat (clk_t (sim_clock_of W sim))"
    arbitrary: sim rule: less_induct)
  case less
  show ?case
  proof (cases "finished W sim")
    case True
    then show ?thesis
      by (subst run.simps) (auto simp: finished_def is_done_def max_def)
  next
    case False
    obtain r sim' where st: "step W sim = (r, sim')" by fastforce
    have clk: "sim_clock_of W sim' = tick (sim_clock_of W sim)"
      using step_ticks [OF less.prems] st by simp
    show ?thesis
    proof (cases "isl r")
      case True
      with False st clk show ?thesis by (subst run.simps) simp
    next
      case running: False
      have nd: "\<not> is_done (sim_clock_of W sim)" using False by (simp add: finished_def)
      note t = tick_before_done [OF nd] nd [unfolded is_done_iff]
      have kept: "clock_kept W sim'" using step_clock_kept [OF less.prems] st by simp
      have smaller: "unat (clk_t_max (sim_clock_of W sim')) - unat (clk_t (sim_clock_of W sim')) <
          unat (clk_t_max (sim_clock_of W sim)) - unat (clk_t (sim_clock_of W sim))"
        unfolding clk using t by simp
      obtain r' sim'' where ih: "run W sim' = Some (r', sim'')"
        "clk_t_max (sim_clock_of W sim'') = clk_t_max (sim_clock_of W sim')"
        "isl r' \<or> sim_stop_requested sim'' \<or> clk_t (sim_clock_of W sim'') =
           max (clk_t (sim_clock_of W sim')) (clk_t_max (sim_clock_of W sim'))"
        using less.hyps [OF smaller kept] by blast
      have "max (clk_t (tick (sim_clock_of W sim))) (clk_t_max (sim_clock_of W sim)) =
          max (clk_t (sim_clock_of W sim)) (clk_t_max (sim_clock_of W sim))"
        using t by (simp add: max_def word_le_nat_alt)
      then show ?thesis
        using False st running ih clk by (subst run.simps) auto
    qed
  qed
qed

end

text \<open>
  C2: when no mechanism writes the clock, \<open>run\<close> returns, whatever else the mechanisms do. It ends
  with a mechanism's error, or with a stop requested, or with the clock exactly at \<open>t_max\<close> (or
  where it was, when it started past \<open>t_max\<close>).
\<close>

theorem run_terminates:
  assumes "world_state W" and "\<forall>m \<in> set (sim_mechanisms sim). keeps_clock W m"
  shows "\<exists>r sim'. run W sim = Some (r, sim') \<and>
    clk_t_max (clock W (sim_world sim')) = clk_t_max (clock W (sim_world sim)) \<and>
    (isl r \<or> sim_stop_requested sim' \<or>
     clk_t (clock W (sim_world sim')) =
       max (clk_t (clock W (sim_world sim))) (clk_t_max (clock W (sim_world sim))))"
  by (rule world_state.run_outcome [OF assms])

text \<open>The hypotheses hold for a world that is only a clock with a counter, and a mechanism that
  counts its calls and requests a stop at three.\<close>

definition counter_world :: "(sim_clock \<times> nat) world_ops" where
  "counter_world = \<lparr>agent_ids = (\<lambda>_. [AgentId 0]), clock = fst, set_clock = (\<lambda>c w. (c, snd w))\<rparr>"

definition count_to :: "nat \<Rightarrow> (unit, sim_clock \<times> nat, nat, unit, unit, unit) mechanism" where
  "count_to n =
     \<lparr>mech_name = ''count'', mech_phases = [Environment], mech_self = (),
      mech_apply = (\<lambda>self ph ctx.
        let k = Suc (snd (ctx_world ctx));
            ctx' = ctx\<lparr>ctx_world := (fst (ctx_world ctx), k)\<rparr>
        in (Inr (), self, if n \<le> k then request_stop ctx' else ctx'))\<rparr>"

definition counter_sim :: "nat \<Rightarrow> u64 \<Rightarrow> (unit, unit, sim_clock \<times> nat, nat, unit, unit, unit) simulation" where
  "counter_sim n t_max =
     \<lparr>sim_world = (clock_new t_max, 0), sim_mechanisms = [count_to n],
      sim_scheduler = sequential_scheduler counter_world, sim_rng = 0, sim_recorder = (),
      sim_scratch = bb_new, sim_stop_requested = False\<rparr>"

lemma counter_sim_ok: "world_state counter_world" "clock_kept counter_world (counter_sim n t_max)"
  by (unfold_locales; simp add: counter_world_def)
    (auto simp: counter_sim_def keeps_clock_def count_to_def counter_world_def Let_def request_stop_def)

theorem run_terminates_witness:
  "\<exists>r sim'. run counter_world (counter_sim 3 100) = Some (r, sim') \<and>
     clk_t_max (clock counter_world (sim_world sim')) = 100 \<and>
     (isl r \<or> sim_stop_requested sim' \<or> clk_t (clock counter_world (sim_world sim')) = 100)"
  using run_terminates [OF counter_sim_ok, of 3 100]
  by (simp add: counter_sim_def counter_world_def clock_new_def)

subsection \<open>Observation does not change the run\<close>

lemma run_finished: "finished W sim \<Longrightarrow> run W sim = Some (Inr (), sim)"
  by (subst run.simps) simp

lemma run_error: "\<not> finished W sim \<Longrightarrow> step W sim = (Inl e, sim') \<Longrightarrow> run W sim = Some (Inl e, sim')"
  by (subst run.simps) simp

lemma run_step: "\<not> finished W sim \<Longrightarrow> step W sim = (Inr u, sim') \<Longrightarrow> run W sim = run W sim'"
  by (subst run.simps) simp

lemma run_observed_finished:
  "finished W sim \<Longrightarrow> run_observed W observe obs sim = Some (Inr (), obs, sim)"
  by (subst run_observed.simps) simp

lemma run_observed_error:
  "\<not> finished W sim \<Longrightarrow> step W sim = (Inl e, sim') \<Longrightarrow>
   run_observed W observe obs sim = Some (Inl e, obs, sim')"
  by (subst run_observed.simps) simp

text \<open>After a successful step the early \<open>break\<close> only anticipates the loop condition.\<close>

lemma run_observed_step:
  "\<not> finished W sim \<Longrightarrow> step W sim = (Inr u, sim') \<Longrightarrow>
   run_observed W observe obs sim = run_observed W observe (observe obs (report W sim')) sim'"
  by (subst run_observed.simps) (simp add: Let_def run_observed_finished finished_def)

lemma run_observed_run:
  assumes "run_observed W observe obs sim = Some x"
  shows "run W sim = Some (fst x, snd (snd x))"
proof (rule run_observed.raw_induct [where P = "\<lambda>W observe obs sim x.
      run W sim = Some (fst x, snd (snd x))", OF _ assms])
  fix f W observe obs sim x
  assume IH: "\<And>W observe obs sim x. f W observe obs sim = Some x \<Longrightarrow>
      run W sim = Some (fst x, snd (snd x))"
    and eq: "(if finished W sim then Some (Inr (), obs, sim)
      else let (r, sim') = step W sim
           in if isl r then Some (r, obs, sim')
              else let obs' = observe obs (report W sim')
                   in if sim_stop_requested sim' then Some (Inr (), obs', sim')
                      else f W observe obs' sim') = Some x"
  obtain r sim1 where st: "step W sim = (r, sim1)" by fastforce
  show "run W sim = Some (fst x, snd (snd x))"
  proof (cases "finished W sim")
    case True
    with eq show ?thesis by (auto simp: run_finished)
  next
    case False
    with eq st show ?thesis
      by (cases r) (auto simp: Let_def run_error run_step run_finished finished_def dest: IH
          split: if_splits)
  qed
qed

lemma run_run_observed:
  assumes "run W sim = Some x"
  shows "\<exists>obs'. run_observed W observe obs sim = Some (fst x, obs', snd x)"
proof -
  have "\<forall>obs. \<exists>obs'. run_observed W observe obs sim = Some (fst x, obs', snd x)"
  proof (rule run.raw_induct [where P = "\<lambda>W sim x. \<forall>obs. \<exists>obs'.
        run_observed W observe obs sim = Some (fst x, obs', snd x)", OF _ assms])
    fix f W sim x
    assume IH: "\<And>W sim x. f W sim = Some x \<Longrightarrow>
        \<forall>obs. \<exists>obs'. run_observed W observe obs sim = Some (fst x, obs', snd x)"
      and eq: "(if finished W sim then Some (Inr (), sim)
        else let (r, sim') = step W sim in if isl r then Some (r, sim') else f W sim') = Some x"
    obtain r sim1 where st: "step W sim = (r, sim1)" by fastforce
    show "\<forall>obs. \<exists>obs'. run_observed W observe obs sim = Some (fst x, obs', snd x)"
    proof (cases "finished W sim")
      case True
      with eq show ?thesis by (auto simp: run_observed_finished)
    next
      case False
      with eq st show ?thesis
        by (cases r) (auto simp: run_observed_error run_observed_step dest: IH)
    qed
  qed
  then show ?thesis by blast
qed

text \<open>
  observing a run does not change it: \<open>run_observed\<close> returns exactly when \<open>run\<close> does, with
  the same result and the same final simulation, whatever the observer computes.
\<close>

theorem run_observed_agrees:
  "map_option (\<lambda>(r, obs', sim'). (r, sim')) (run_observed W observe obs sim) = run W sim"
proof (cases "run_observed W observe obs sim")
  case None
  moreover from this have "run W sim = None"
    using run_run_observed [of W sim _ observe obs] by (cases "run W sim") fastforce+
  ultimately show ?thesis by simp
next
  case (Some x)
  then show ?thesis using run_observed_run [OF Some] by (simp add: case_prod_beta)
qed

definition collect :: "('w, 'ty, 'v) step_report list \<Rightarrow> ('w, 'ty, 'v) step_report \<Rightarrow> ('w, 'ty, 'v) step_report list" where
  "collect reps rep = reps @ [rep]"

abbreviation sim_time :: "'w world_ops \<Rightarrow> ('m, 's, 'w, 'r, 'c, 'ty, 'v) simulation \<Rightarrow> nat" where
  "sim_time W sim \<equiv> unat (clk_t (sim_clock_of W sim))"

definition reports_from ::
    "nat \<Rightarrow> ('w, 'ty, 'v) step_report list \<Rightarrow> bool" where
  "reports_from t0 reps \<longleftrightarrow>
     map (\<lambda>rep. unat (rep_t rep)) reps = [Suc t0..<Suc t0 + length reps] \<and>
     (\<forall>rep \<in> set (butlast reps). \<not> rep_stopped rep)"

lemma reports_from_Nil [simp]: "reports_from t0 []"
  by (simp add: reports_from_def)

lemma reports_from_single: "unat (rep_t rep) = Suc t0 \<Longrightarrow> reports_from t0 [rep]"
  by (simp add: reports_from_def)

lemma reports_from_Cons:
  assumes "unat (rep_t rep) = Suc t0" "\<not> rep_stopped rep" "reports_from (Suc t0) reps"
  shows "reports_from t0 (rep # reps)"
proof -
  have upt: "[Suc t0..<Suc t0 + length (rep # reps)] =
      Suc t0 # [Suc (Suc t0)..<Suc (Suc t0) + length reps]"
    by (rule trans [OF upt_conv_Cons]) simp_all
  have "\<forall>rep' \<in> set (butlast (rep # reps)). \<not> rep_stopped rep'"
    using assms(2,3) by (cases reps) (simp_all add: reports_from_def)
  moreover have "map (\<lambda>rep. unat (rep_t rep)) (rep # reps) = [Suc t0..<Suc t0 + length (rep # reps)]"
    using assms(1,3) unfolding upt by (simp add: reports_from_def del: upt_Suc)
  ultimately show ?thesis unfolding reports_from_def by blast
qed

context world_state
begin

lemma run_observed_collects:
  assumes "run_observed W collect obs sim = Some x" and "clock_kept W sim"
  shows "\<exists>reps. fst (snd x) = obs @ reps \<and> reports_from (sim_time W sim) reps \<and>
    (\<not> isl (fst x) \<longrightarrow> sim_time W (snd (snd x)) = sim_time W sim + length reps)"
proof -
  let ?Q = "\<lambda>obs sim x. \<exists>reps. fst (snd x) = obs @ reps \<and> reports_from (sim_time W sim) reps \<and>
    (\<not> isl (fst x) \<longrightarrow> sim_time W (snd (snd x)) = sim_time W sim + length reps)"
  have "V = W \<longrightarrow> observe = collect \<longrightarrow> clock_kept W sim \<longrightarrow> ?Q obs sim x"
    if "run_observed V observe obs sim = Some x" for V observe obs sim x
  proof (rule run_observed.raw_induct [where P = "\<lambda>V observe obs sim x.
      V = W \<longrightarrow> observe = collect \<longrightarrow> clock_kept W sim \<longrightarrow> ?Q obs sim x", OF _ that])
    fix f V observe obs sim x
    assume IH: "\<And>V observe obs sim x. f V observe obs sim = Some x \<Longrightarrow>
        V = W \<longrightarrow> observe = collect \<longrightarrow> clock_kept W sim \<longrightarrow> ?Q obs sim x"
      and eq: "(if finished V sim then Some (Inr (), obs, sim)
        else let (r, sim') = step V sim
             in if isl r then Some (r, obs, sim')
                else let obs' = observe obs (report V sim')
                     in if sim_stop_requested sim' then Some (Inr (), obs', sim')
                        else f V observe obs' sim') = Some x"
    show "V = W \<longrightarrow> observe = collect \<longrightarrow> clock_kept W sim \<longrightarrow> ?Q obs sim x"
    proof (intro impI)
      assume V: "V = W" and observe: "observe = collect" and kept: "clock_kept W sim"
      obtain r sim1 where st: "step W sim = (r, sim1)" by fastforce
      show "?Q obs sim x"
      proof (cases "finished W sim \<or> isl r")
        case True
        with eq V st show ?thesis by (auto split: if_splits)
      next
        case False
        then have "\<not> is_done (sim_clock_of W sim)" by (simp add: finished_def)
        then have t1: "sim_time W sim1 = Suc (sim_time W sim)"
          using step_ticks [OF kept] st by (simp add: tick_before_done)
        have kept1: "clock_kept W sim1" using step_clock_kept [OF kept] st by simp
        have rep: "unat (rep_t (report W sim1)) = Suc (sim_time W sim)"
          "rep_stopped (report W sim1) = sim_stop_requested sim1"
          using t1 by (simp_all add: report_def)
        let ?obs' = "obs @ [report W sim1]"
        show ?thesis
        proof (cases "sim_stop_requested sim1")
          case True
          then have "x = (Inr (), ?obs', sim1)"
            using eq V observe st False by (simp add: Let_def collect_def)
          then show ?thesis using t1 reports_from_single [OF rep(1)] by auto
        next
          case going: False
          then have "f W collect ?obs' sim1 = Some x"
            using eq V observe st False by (simp add: Let_def collect_def)
          with IH kept1 obtain reps where reps: "fst (snd x) = ?obs' @ reps"
            "reports_from (sim_time W sim1) reps"
            "\<not> isl (fst x) \<longrightarrow> sim_time W (snd (snd x)) = sim_time W sim1 + length reps"
            by blast
          have "reports_from (sim_time W sim) (report W sim1 # reps)"
            using reports_from_Cons [OF rep(1)] rep(2) going reps(2) t1 by simp
          then show ?thesis using reps t1 by (intro exI [of _ "report W sim1 # reps"]) simp
        qed
      qed
    qed
  qed
  with assms show ?thesis by blast
qed

end

text \<open>
  C38: the observer is called once per executed step, with the clock times after the steps, which
  are consecutive, and no report before the last is marked stopped; on success the number of calls
  is the number of steps.
\<close>

theorem observer_sees_every_step:
  assumes "world_state W" and "\<forall>m \<in> set (sim_mechanisms sim). keeps_clock W m"
    and "run_observed W collect [] sim = Some (r, reps, sim')"
  shows "map (\<lambda>rep. unat (rep_t rep)) reps =
      [Suc (unat (clk_t (clock W (sim_world sim))))..<
       Suc (unat (clk_t (clock W (sim_world sim)))) + length reps] \<and>
    (\<forall>rep \<in> set (butlast reps). \<not> rep_stopped rep) \<and>
    (\<not> isl r \<longrightarrow> unat (clk_t (clock W (sim_world sim'))) =
      unat (clk_t (clock W (sim_world sim))) + length reps)"
  using world_state.run_observed_collects [OF assms(1,3,2)] by (auto simp: reports_from_def)

theorem observer_sees_every_step_witness:
  "\<exists>reps. map (\<lambda>rep. unat (rep_t rep)) reps = [1..<Suc (length reps)] \<and>
     (\<exists>r sim'. run_observed counter_world collect [] (counter_sim 3 100) = Some (r, reps, sim'))"
proof -
  obtain r sim' where "run counter_world (counter_sim 3 100) = Some (r, sim')"
    using world_state.run_outcome [OF counter_sim_ok] by blast
  from run_run_observed [OF this, of collect "[]"] obtain reps where
    reps: "run_observed counter_world collect [] (counter_sim 3 100) = Some (r, reps, sim')"
    by auto
  have "clk_t (clock counter_world (sim_world (counter_sim 3 100))) = 0"
    by (simp add: counter_sim_def counter_world_def clock_new_def)
  with observer_sees_every_step [OF counter_sim_ok reps] reps show ?thesis by auto
qed

subsection \<open>Snapshots\<close>

lemma begin_step_restore:
  assumes "sim_mechanisms other = sim_mechanisms sim" "sim_scheduler other = sim_scheduler sim"
    "sim_recorder other = sim_recorder sim"
  shows "begin_step W (restore (take_snapshot sim) other) = begin_step W sim"
  using assms
  by (cases sim; cases other)
    (simp add: begin_step_def restore_def take_snapshot_def Let_def)

lemma step_restore:
  assumes "sim_mechanisms other = sim_mechanisms sim" "sim_scheduler other = sim_scheduler sim"
    "sim_recorder other = sim_recorder sim"
  shows "step W (restore (take_snapshot sim) other) = step W sim"
  by (simp add: step_def begin_step_restore [OF assms])

text \<open>
  C31: restoring a snapshot into a simulation with the same mechanisms, scheduler and recorder
  resumes exactly: the next step, and the whole remaining run of an unfinished simulation, are the
  ones the captured simulation would have made, results and final state included.
\<close>

theorem restore_resumes:
  assumes "sim_mechanisms other = sim_mechanisms sim" "sim_scheduler other = sim_scheduler sim"
    "sim_recorder other = sim_recorder sim" and "\<not> finished W sim"
  shows "step W (restore (take_snapshot sim) other) = step W sim \<and>
    run W (restore (take_snapshot sim) other) = run W sim"
proof -
  have "finished W (restore (take_snapshot sim) other) = finished W sim"
    by (simp add: finished_def restore_def take_snapshot_def)
  then show ?thesis
    using assms(4) by (subst (1 2) run.simps) (simp add: step_restore [OF assms(1-3)])
qed

theorem restore_resumes_witness:
  "run counter_world (restore (take_snapshot (counter_sim 3 100))
      ((counter_sim 3 7)\<lparr>sim_world := (clock_new 5, 9), sim_stop_requested := True\<rparr>)) =
   run counter_world (counter_sim 3 100)"
  using restore_resumes [of "(counter_sim 3 7)\<lparr>sim_world := (clock_new 5, 9), sim_stop_requested := True\<rparr>"
      "counter_sim 3 100" counter_world]
  by (simp add: counter_sim_def finished_def is_done_def counter_world_def clock_new_def)

end
