(* ===== verification/Grid.thy ===== *)
theory Grid
  imports Core "HOL-Library.Product_Lexorder"
begin

section \<open>The lattice (crates/socsim-grid)\<close>

text \<open>
  \<open>Grid\<close> with its neighbourhood and distance queries, the radius-1 iterator over a stack array,
  and the CSR adjacency table. The specification is the distance: a cell is a neighbour exactly
  when its wrap-aware distance, under the metric the neighbourhood pairs with, is at most the
  radius. Coordinates are \<open>nat\<close>; the cast \<open>radius as isize\<close> wraps, as a caller may pass any radius.
  Sums of a coordinate and an offset are exact integers: where the neighbourhood is related to the
  distance, the sides of the grid and the radius are bounded so that none of them leaves \<open>isize\<close>.
  The truncating \<open>%\<close> and the wrapping \<open>-\<close> are written out. Floating point is a parameter: the
  conversion \<open>of_usize\<close> and \<open>sqrt_f\<close>. Lists of cells are ordered row-major, the lexicographic
  order of the library.
\<close>

subsection \<open>Neighbourhoods, boundaries and metrics\<close>

datatype neighborhood = Moore | VonNeumann

datatype boundary = Fixed | Toroidal

datatype metric = Chebyshev | Manhattan | Euclidean

definition abs_diff :: "nat \<Rightarrow> nat \<Rightarrow> nat" where
  "abs_diff a b = (if a \<le> b then b - a else a - b)"

definition combine :: "(nat \<Rightarrow> 'f) \<Rightarrow> ('f \<Rightarrow> 'f) \<Rightarrow> metric \<Rightarrow> nat \<Rightarrow> nat \<Rightarrow> 'f" where
  "combine of_usize sqrt_f m dr dc =
     (case m of
        Chebyshev \<Rightarrow> of_usize (max dr dc)
      | Manhattan \<Rightarrow> of_usize (dr + dc)
      | Euclidean \<Rightarrow> sqrt_f (of_usize (dr * dr + dc * dc)))"

definition metric_distance ::
    "(nat \<Rightarrow> 'f) \<Rightarrow> ('f \<Rightarrow> 'f) \<Rightarrow> metric \<Rightarrow> nat \<times> nat \<Rightarrow> nat \<times> nat \<Rightarrow> 'f" where
  "metric_distance of_usize sqrt_f m a b =
     combine of_usize sqrt_f m (abs_diff (fst a) (fst b)) (abs_diff (snd a) (snd b))"

subsection \<open>Grid\<close>

record grid =
  rows :: nat
  cols :: nat
  boundary_of :: boundary

definition grid_new :: "nat \<Rightarrow> nat \<Rightarrow> boundary \<Rightarrow> grid" where
  "grid_new rs cs b = \<lparr>rows = rs, cols = cs, boundary_of = b\<rparr>"

definition grid_len :: "grid \<Rightarrow> nat" where
  "grid_len g = rows g * cols g"

definition grid_is_empty :: "grid \<Rightarrow> bool" where
  "grid_is_empty g \<longleftrightarrow> rows g = 0 \<or> cols g = 0"

definition in_bounds :: "grid \<Rightarrow> int \<Rightarrow> int \<Rightarrow> bool" where
  "in_bounds g r c \<longleftrightarrow> r \<ge> 0 \<and> c \<ge> 0 \<and> nat r < rows g \<and> nat c < cols g"

text \<open>Rust's \<open>%\<close> on \<open>isize\<close>: the remainder has the sign of the dividend.\<close>

definition rem_trunc :: "int \<Rightarrow> int \<Rightarrow> int" where
  "rem_trunc a b = sgn a * (\<bar>a\<bar> mod \<bar>b\<bar>)"

definition wrap :: "int \<Rightarrow> nat \<Rightarrow> nat" where
  "wrap v len = nat (rem_trunc (rem_trunc v (int len) + int len) (int len))"

definition resolve :: "grid \<Rightarrow> int \<Rightarrow> int \<Rightarrow> (nat \<times> nat) option" where
  "resolve g r c =
     (if rows g = 0 \<or> cols g = 0 then None
      else case boundary_of g of
        Fixed \<Rightarrow> if in_bounds g r c then Some (nat r, nat c) else None
      | Toroidal \<Rightarrow> Some (wrap r (rows g), wrap c (cols g)))"

definition in_shape :: "neighborhood \<Rightarrow> nat \<Rightarrow> int \<times> int \<Rightarrow> bool" where
  "in_shape nbhd radius d =
     (case nbhd of
        Moore \<Rightarrow> max (nat \<bar>fst d\<bar>) (nat \<bar>snd d\<bar>) \<le> radius
      | VonNeumann \<Rightarrow> nat \<bar>fst d\<bar> + nat \<bar>snd d\<bar> \<le> radius)"

text \<open>The body of the loop over the offsets: the cell it pushes, if any.\<close>

definition offset_cell ::
    "grid \<Rightarrow> nat \<Rightarrow> nat \<Rightarrow> neighborhood \<Rightarrow> nat \<Rightarrow> int \<times> int \<Rightarrow> (nat \<times> nat) option" where
  "offset_cell g r c nbhd radius d =
     (if fst d = 0 \<and> snd d = 0 then None
      else if \<not> in_shape nbhd radius d then None
      else case resolve g (int r + fst d) (int c + snd d) of
        None \<Rightarrow> None
      | Some cell \<Rightarrow> if cell \<noteq> (r, c) then Some cell else None)"

text \<open>The values of \<open>isize\<close>, \<open>usize as isize\<close> and the negation.\<close>

definition isize_of :: "int \<Rightarrow> int" where
  "isize_of x = (x + 2 ^ 63) mod 2 ^ 64 - 2 ^ 63"

definition as_isize :: "nat \<Rightarrow> int" where
  "as_isize n = isize_of (int n)"

definition neighbors_radius_into ::
    "grid \<Rightarrow> nat \<Rightarrow> nat \<Rightarrow> neighborhood \<Rightarrow> nat \<Rightarrow> (nat \<times> nat) list \<Rightarrow> (nat \<times> nat) list" where
  "neighbors_radius_into g r c nbhd radius buf =
     (if radius = 0 \<or> grid_is_empty g then []
      else let rad = as_isize radius;
               pushed = List.map_filter (offset_cell g r c nbhd radius)
                 (List.product [isize_of (- rad)..rad] [isize_of (- rad)..rad])
           in remdups_adj (sort pushed))"

definition neighbors_radius :: "grid \<Rightarrow> nat \<Rightarrow> nat \<Rightarrow> neighborhood \<Rightarrow> nat \<Rightarrow> (nat \<times> nat) list" where
  "neighbors_radius g r c nbhd radius = neighbors_radius_into g r c nbhd radius []"

definition neighbors_into ::
    "grid \<Rightarrow> nat \<Rightarrow> nat \<Rightarrow> neighborhood \<Rightarrow> (nat \<times> nat) list \<Rightarrow> (nat \<times> nat) list" where
  "neighbors_into g r c nbhd buf = neighbors_radius_into g r c nbhd 1 buf"

definition neighbors :: "grid \<Rightarrow> nat \<Rightarrow> nat \<Rightarrow> neighborhood \<Rightarrow> (nat \<times> nat) list" where
  "neighbors g r c nbhd = neighbors_into g r c nbhd []"

definition toroidal_diff :: "nat \<Rightarrow> nat \<Rightarrow> nat \<Rightarrow> nat" where
  "toroidal_diff a b len =
     (if len = 0 then 0 else let d = abs_diff a b in min d (wrapping_sub len d))"

definition distance ::
    "(nat \<Rightarrow> 'f) \<Rightarrow> ('f \<Rightarrow> 'f) \<Rightarrow> grid \<Rightarrow> metric \<Rightarrow> nat \<times> nat \<Rightarrow> nat \<times> nat \<Rightarrow> 'f" where
  "distance of_usize sqrt_f g m a b =
     (case boundary_of g of
        Fixed \<Rightarrow> metric_distance of_usize sqrt_f m a b
      | Toroidal \<Rightarrow> combine of_usize sqrt_f m (toroidal_diff (fst a) (fst b) (rows g))
          (toroidal_diff (snd a) (snd b) (cols g)))"

subsection \<open>The radius-1 iterator\<close>

record neighbors_iter =
  it_buf :: "(nat \<times> nat) list"
  it_len :: nat
  it_pos :: nat

text \<open>One candidate of the \<open>3 x 3\<close> enumeration, written at \<open>tmp[tmp_len]\<close>.\<close>

definition iter_push ::
    "grid \<Rightarrow> nat \<Rightarrow> nat \<Rightarrow> neighborhood \<Rightarrow> int \<times> int \<Rightarrow> (nat \<times> nat) list \<times> nat \<Rightarrow>
     (nat \<times> nat) list \<times> nat" where
  "iter_push g r c nbhd d st =
     (if fst d = 0 \<and> snd d = 0 then st
      else if \<not> (case nbhd of Moore \<Rightarrow> True | VonNeumann \<Rightarrow> nat \<bar>fst d\<bar> + nat \<bar>snd d\<bar> \<le> 1) then st
      else case resolve g (int r + fst d) (int c + snd d) of
        None \<Rightarrow> st
      | Some cell \<Rightarrow>
          if cell \<noteq> (r, c) then ((fst st)[snd st := cell], Suc (snd st)) else st)"

text \<open>The copy of the sorted \<open>tmp\<close> that drops adjacent repeats.\<close>

definition iter_copy ::
    "(nat \<times> nat) list \<Rightarrow> nat \<Rightarrow> (nat \<times> nat) list \<times> nat \<Rightarrow> (nat \<times> nat) list \<times> nat" where
  "iter_copy tmp i st =
     (if i = 0 \<or> tmp ! i \<noteq> tmp ! (i - 1) then ((fst st)[snd st := tmp ! i], Suc (snd st)) else st)"

definition neighbors_iter_new :: "grid \<Rightarrow> nat \<Rightarrow> nat \<Rightarrow> neighborhood \<Rightarrow> neighbors_iter" where
  "neighbors_iter_new g r c nbhd =
     (let zeros = replicate 8 (0, 0) in
      if grid_is_empty g then \<lparr>it_buf = zeros, it_len = 0, it_pos = 0\<rparr>
      else
        let (tmp, tmp_len) =
              fold (iter_push g r c nbhd) (List.product [-1..1] [-1..1]) (zeros, 0);
            tmp = sort (take tmp_len tmp) @ drop tmp_len tmp;
            (buf, len) = fold (iter_copy tmp) [0..<tmp_len] (zeros, 0)
        in \<lparr>it_buf = buf, it_len = len, it_pos = 0\<rparr>)"

definition iter_next :: "neighbors_iter \<Rightarrow> (nat \<times> nat) option \<times> neighbors_iter" where
  "iter_next it =
     (if it_pos it < it_len it
      then (Some (it_buf it ! it_pos it), it\<lparr>it_pos := Suc (it_pos it)\<rparr>)
      else (None, it))"

definition size_hint :: "neighbors_iter \<Rightarrow> nat \<times> nat option" where
  "size_hint it = (let rem = it_len it - it_pos it in (rem, Some rem))"

text \<open>A \<open>for\<close> loop over the iterator collects what \<open>next\<close> yields until \<open>None\<close>.\<close>

function iter_collect :: "neighbors_iter \<Rightarrow> (nat \<times> nat) list" where
  "iter_collect it =
     (case iter_next it of (None, it') \<Rightarrow> [] | (Some v, it') \<Rightarrow> v # iter_collect it')"
  by pat_completeness auto
termination
  by (relation "measure (\<lambda>it. it_len it - it_pos it)") (auto simp: iter_next_def split: if_splits)

subsection \<open>The adjacency table\<close>

record adjacency =
  offsets :: "nat list"
  flat :: "nat list"

definition adjacency_radius :: "grid \<Rightarrow> neighborhood \<Rightarrow> nat \<Rightarrow> adjacency" where
  "adjacency_radius g nbhd radius =
     (let n = grid_len g;
          row = (\<lambda>idx adj.
            let buf = neighbors_radius_into g (idx div cols g) (idx mod cols g) nbhd radius [];
                fl = flat adj @ map (\<lambda>(nr, nc). nr * cols g + nc) buf
            in \<lparr>offsets = offsets adj @ [length fl], flat = fl\<rparr>)
      in fold row [0..<n] \<lparr>offsets = [0], flat = []\<rparr>)"

definition adjacency_table :: "grid \<Rightarrow> neighborhood \<Rightarrow> adjacency" where
  "adjacency_table g nbhd = adjacency_radius g nbhd 1"

text \<open>\<open>Adjacency::neighbors\<close>; \<open>None\<close> is the panic of an index out of range.\<close>

definition adj_neighbors :: "adjacency \<Rightarrow> nat \<Rightarrow> nat list option" where
  "adj_neighbors adj idx =
     (case (get_opt (offsets adj) idx, get_opt (offsets adj) (idx + 1)) of
        (Some start, Some end') \<Rightarrow> slice_get (flat adj) start end'
      | _ \<Rightarrow> None)"

definition adj_len :: "adjacency \<Rightarrow> nat" where
  "adj_len adj = length (offsets adj) - 1"

subsection \<open>One axis\<close>

lemma wrap_eq_mod: "0 < len \<Longrightarrow> wrap v len = nat (v mod int len)"
proof -
  assume len: "0 < len"
  let ?l = "int len"
  have l: "?l > 0" using len by simp
  have pos: "rem_trunc a ?l = a mod ?l" if "a \<ge> 0" for a
    using that l by (cases "a = 0") (simp_all add: rem_trunc_def sgn_if)
  have "rem_trunc v ?l + ?l \<ge> 0 \<and> (rem_trunc v ?l + ?l) mod ?l = v mod ?l"
  proof (cases "v \<ge> 0")
    case True
    with pos l show ?thesis by simp
  next
    case False
    then have "rem_trunc v ?l = - ((- v) mod ?l)"
      using l by (simp add: rem_trunc_def sgn_if)
    moreover have "(- v) mod ?l < ?l" using l by simp
    ultimately show ?thesis by (simp add: mod_minus_eq)
  qed
  then show ?thesis by (simp add: wrap_def pos)
qed

lemma wrap_less: "0 < len \<Longrightarrow> wrap v len < len"
  by (simp add: wrap_eq_mod nat_less_iff)

lemma abs_diff_commute: "abs_diff a b = abs_diff b a"
  by (simp add: abs_diff_def)

lemma abs_diff_self [simp]: "abs_diff a a = 0"
  by (simp add: abs_diff_def)

lemma toroidal_diff_commute: "toroidal_diff a b len = toroidal_diff b a len"
  by (simp add: toroidal_diff_def abs_diff_commute)

text \<open>What \<open>resolve\<close> and \<open>distance\<close> do along one axis.\<close>

definition axis_cell :: "boundary \<Rightarrow> nat \<Rightarrow> int \<Rightarrow> nat option" where
  "axis_cell b len v =
     (case b of Fixed \<Rightarrow> if v \<ge> 0 \<and> nat v < len then Some (nat v) else None
      | Toroidal \<Rightarrow> Some (wrap v len))"

definition axis_diff :: "boundary \<Rightarrow> nat \<Rightarrow> nat \<Rightarrow> nat \<Rightarrow> nat" where
  "axis_diff b x y len = (case b of Fixed \<Rightarrow> abs_diff x y | Toroidal \<Rightarrow> toroidal_diff x y len)"

lemma resolve_axes:
  "resolve g r c =
     (if grid_is_empty g then None
      else case axis_cell (boundary_of g) (rows g) r of None \<Rightarrow> None
        | Some r' \<Rightarrow> map_option (Pair r') (axis_cell (boundary_of g) (cols g) c))"
  by (auto simp: resolve_def grid_is_empty_def axis_cell_def in_bounds_def split: boundary.splits)

lemma distance_axes:
  "distance of_usize sqrt_f g m a b =
     combine of_usize sqrt_f m (axis_diff (boundary_of g) (fst a) (fst b) (rows g))
       (axis_diff (boundary_of g) (snd a) (snd b) (cols g))"
  by (simp add: distance_def axis_diff_def metric_distance_def split: boundary.split)

lemma axis_diff_self [simp]: "axis_diff b x x len = 0"
  by (simp add: axis_diff_def toroidal_diff_def Let_def split: boundary.split)

lemma axis_diff_commute: "axis_diff b x y len = axis_diff b y x len"
  by (simp add: axis_diff_def abs_diff_commute toroidal_diff_commute split: boundary.split)

lemma toroidal_diff_in:
  "x < len \<Longrightarrow> y < len \<Longrightarrow> toroidal_diff x y len = min (abs_diff x y) (len - abs_diff x y)"
  by (simp add: toroidal_diff_def Let_def abs_diff_def)

lemma wrap_reach_le:
  assumes "x < len" "wrap (int x + d) len = y"
  shows "toroidal_diff x y len \<le> nat \<bar>d\<bar>"
proof -
  have len: "0 < len" using assms(1) by simp
  have y: "y < len" using assms len wrap_less by blast
  have "int y = (int x + d) mod int len"
    using assms(2) len by (auto simp: wrap_eq_mod)
  then obtain k where k: "int x + d = int y + int len * k"
    by (metis mod_eqE mod_mod_trivial mult.commute add.commute minus_mod_eq_mult_div diff_add_cancel
        mult_div_mod_eq)
  show ?thesis
  proof (cases "k = 0")
    case True
    then have "d = int y - int x" using k by simp
    then show ?thesis using assms(1) y by (auto simp: toroidal_diff_in abs_diff_def)
  next
    case False
    have ad: "int (abs_diff x y) = \<bar>int y - int x\<bar>" by (simp add: abs_diff_def)
    have "\<bar>d\<bar> \<ge> int len - int (abs_diff x y)"
    proof (cases "k > 0")
      case True
      then have "int len * k \<ge> int len" by (simp add: mult_le_cancel_left1)
      then show ?thesis using k assms(1) y unfolding ad by linarith
    next
      case neg: False
      with False have "k \<le> -1" by simp
      then have "int len * k \<le> int len * (-1)" by (intro mult_left_mono) simp_all
      then show ?thesis using k assms(1) y unfolding ad by linarith
    qed
    then have "len - abs_diff x y \<le> nat \<bar>d\<bar>" by linarith
    then show ?thesis using assms(1) y by (simp add: toroidal_diff_in)
  qed
qed

lemma wrap_reach_ex:
  assumes "x < len" "y < len"
  shows "\<exists>d. nat \<bar>d\<bar> = toroidal_diff x y len \<and> wrap (int x + d) len = y"
proof -
  have len: "0 < len" using assms by simp
  define e where "e = int y - int x"
  have direct: "wrap (int x + e) len = y"
    using assms len by (simp add: e_def wrap_eq_mod)
  have up: "wrap (int x + (e + int len)) len = y"
    using assms len by (simp add: e_def wrap_eq_mod)
  have "(int y - int len) mod int len = int y"
    using assms by simp
  then have down: "wrap (int x + (e - int len)) len = y"
    using assms len by (simp add: e_def wrap_eq_mod)
  have ab: "int (abs_diff x y) = \<bar>e\<bar>" by (simp add: e_def abs_diff_def)
  have "\<bar>e\<bar> < int len" using assms by (simp add: e_def)
  consider "toroidal_diff x y len = abs_diff x y"
    | "toroidal_diff x y len = len - abs_diff x y"
    using toroidal_diff_in [OF assms] by (metis min_def)
  then show ?thesis
  proof cases
    case 1
    then show ?thesis using direct ab by (intro exI [of _ e]) simp
  next
    case 2
    show ?thesis
    proof (cases "e \<ge> 0")
      case True
      then show ?thesis using 2 down ab \<open>\<bar>e\<bar> < int len\<close>
        by (intro exI [of _ "e - int len"]) linarith
    next
      case False
      then show ?thesis using 2 up ab \<open>\<bar>e\<bar> < int len\<close>
        by (intro exI [of _ "e + int len"]) linarith
    qed
  qed
qed

lemma axis_reach_le:
  assumes "x < len" "axis_cell b len (int x + d) = Some y"
  shows "y < len \<and> axis_diff b x y len \<le> nat \<bar>d\<bar>"
  using assms wrap_reach_le [of x len d y] wrap_less [of len]
  by (auto simp: axis_cell_def axis_diff_def abs_diff_def split: boundary.splits if_splits)

lemma axis_reach_ex:
  assumes "x < len" "y < len"
  shows "\<exists>d. nat \<bar>d\<bar> = axis_diff b x y len \<and> axis_cell b len (int x + d) = Some y"
proof (cases b)
  case Fixed
  with assms show ?thesis
    by (intro exI [of _ "int y - int x"]) (auto simp: axis_cell_def axis_diff_def abs_diff_def)
next
  case Toroidal
  with wrap_reach_ex [OF assms] show ?thesis by (simp add: axis_cell_def axis_diff_def)
qed

lemma axis_diff_eq_0: "x < len \<Longrightarrow> y < len \<Longrightarrow> axis_diff b x y len = 0 \<longleftrightarrow> x = y"
  by (cases b) (auto simp: axis_diff_def toroidal_diff_in abs_diff_def split: if_splits)

subsection \<open>Neighbours are the cells within the radius\<close>

definition paired_metric :: "neighborhood \<Rightarrow> metric" where
  "paired_metric nbhd = (case nbhd of Moore \<Rightarrow> Chebyshev | VonNeumann \<Rightarrow> Manhattan)"

text \<open>The wrap-aware distance in exact arithmetic; the paired metrics take no square root.\<close>

definition cell_distance :: "grid \<Rightarrow> neighborhood \<Rightarrow> nat \<times> nat \<Rightarrow> nat \<times> nat \<Rightarrow> nat" where
  "cell_distance g nbhd = distance id id g (paired_metric nbhd)"

definition in_grid :: "grid \<Rightarrow> nat \<times> nat \<Rightarrow> bool" where
  "in_grid g cell \<longleftrightarrow> fst cell < rows g \<and> snd cell < cols g"

definition grid_cells :: "grid \<Rightarrow> (nat \<times> nat) list" where
  "grid_cells g = List.product [0..<rows g] [0..<cols g]"

lemma set_grid_cells [simp]: "set (grid_cells g) = {cell. in_grid g cell}"
  by (auto simp: grid_cells_def in_grid_def)

lemma distinct_grid_cells [simp]: "distinct (grid_cells g)"
  by (simp add: grid_cells_def distinct_product)

lemma sorted_product: "sorted xs \<Longrightarrow> distinct xs \<Longrightarrow> sorted ys \<Longrightarrow> sorted (List.product xs ys)"
  for xs :: "'a::linorder list" and ys :: "'b::linorder list"
  by (induction xs) (auto simp: sorted_append sorted_map less_eq_prod_def less_le)

lemma sorted_grid_cells [simp]: "sorted (grid_cells g)"
  by (simp add: grid_cells_def sorted_product)

lemma in_shape_distance:
  "nat \<bar>fst d\<bar> = axis_diff (boundary_of g) (fst a) (fst b) (rows g) \<Longrightarrow>
   nat \<bar>snd d\<bar> = axis_diff (boundary_of g) (snd a) (snd b) (cols g) \<Longrightarrow>
   in_shape nbhd radius d \<longleftrightarrow> cell_distance g nbhd a b \<le> radius"
  by (simp add: in_shape_def cell_distance_def distance_axes combine_def paired_metric_def
      split: neighborhood.split)

lemma in_shape_mono:
  "in_shape nbhd radius d \<Longrightarrow> nat \<bar>fst e\<bar> \<le> nat \<bar>fst d\<bar> \<Longrightarrow> nat \<bar>snd e\<bar> \<le> nat \<bar>snd d\<bar> \<Longrightarrow>
   in_shape nbhd radius e"
  by (auto simp: in_shape_def split: neighborhood.splits)

lemma in_shape_square:
  "in_shape nbhd radius (d, e) \<Longrightarrow> d \<in> {- int radius..int radius} \<and> e \<in> {- int radius..int radius}"
  by (auto simp: in_shape_def split: neighborhood.splits)

lemma cell_distance_commute: "cell_distance g nbhd a b = cell_distance g nbhd b a"
  by (simp add: cell_distance_def distance_axes axis_diff_commute)

lemma cell_distance_eq_0:
  "in_grid g a \<Longrightarrow> in_grid g b \<Longrightarrow> cell_distance g nbhd a b = 0 \<longleftrightarrow> a = b"
  by (cases nbhd)
    (auto simp: cell_distance_def distance_axes combine_def paired_metric_def in_grid_def
      axis_diff_eq_0 prod_eq_iff)

lemma isize_of_id [simp]: "- (2 ^ 63) \<le> x \<Longrightarrow> x < 2 ^ 63 \<Longrightarrow> isize_of x = x"
  by (simp add: isize_of_def)

lemma as_isize_id [simp]: "n < 2 ^ 63 \<Longrightarrow> as_isize n = int n" "n < 2 ^ 63 \<Longrightarrow> isize_of (- int n) = - int n"
proof -
  assume "n < 2 ^ 63"
  then have "int n < 2 ^ 63" by (metis of_nat_less_numeral_power_cancel_iff)
  then show "as_isize n = int n" "isize_of (- int n) = - int n"
    by (simp_all only: as_isize_def) (rule isize_of_id; simp)+
qed

lemma offset_cell_Some:
  "offset_cell g r c nbhd radius d = Some cell \<longleftrightarrow>
     d \<noteq> (0, 0) \<and> in_shape nbhd radius d \<and> cell \<noteq> (r, c) \<and>
     resolve g (int r + fst d) (int c + snd d) = Some cell"
  by (cases d) (auto simp: offset_cell_def split: option.splits)

lemma offset_cell_reach:
  assumes "in_grid g (r, c)"
  shows "(\<exists>d. offset_cell g r c nbhd radius d = Some cell) \<longleftrightarrow>
    in_grid g cell \<and> cell \<noteq> (r, c) \<and> cell_distance g nbhd (r, c) cell \<le> radius"
proof
  assume "\<exists>d. offset_cell g r c nbhd radius d = Some cell"
  then obtain d where d: "in_shape nbhd radius d" "cell \<noteq> (r, c)"
      "resolve g (int r + fst d) (int c + snd d) = Some cell"
    by (auto simp: offset_cell_Some)
  from d(3) have axes:
    "axis_cell (boundary_of g) (rows g) (int r + fst d) = Some (fst cell)"
    "axis_cell (boundary_of g) (cols g) (int c + snd d) = Some (snd cell)"
    by (auto simp: resolve_axes split: if_splits option.splits)
  define e where "e = (int (axis_diff (boundary_of g) r (fst cell) (rows g)),
    int (axis_diff (boundary_of g) c (snd cell) (cols g)))"
  have reach: "fst cell < rows g \<and> nat \<bar>fst e\<bar> \<le> nat \<bar>fst d\<bar>"
    "snd cell < cols g \<and> nat \<bar>snd e\<bar> \<le> nat \<bar>snd d\<bar>"
    using axis_reach_le [OF _ axes(1)] axis_reach_le [OF _ axes(2)] assms
    by (simp_all add: in_grid_def e_def)
  then have "in_shape nbhd radius e" using d(1) in_shape_mono by blast
  then have "cell_distance g nbhd (r, c) cell \<le> radius"
    by (subst (asm) in_shape_distance [of _ g "(r, c)" cell]) (simp_all add: e_def)
  with d reach show "in_grid g cell \<and> cell \<noteq> (r, c) \<and> cell_distance g nbhd (r, c) cell \<le> radius"
    by (simp add: in_grid_def)
next
  assume R: "in_grid g cell \<and> cell \<noteq> (r, c) \<and> cell_distance g nbhd (r, c) cell \<le> radius"
  obtain d1 where d1: "nat \<bar>d1\<bar> = axis_diff (boundary_of g) r (fst cell) (rows g)"
    "axis_cell (boundary_of g) (rows g) (int r + d1) = Some (fst cell)"
    using axis_reach_ex [of r "rows g" "fst cell"] assms R by (auto simp: in_grid_def)
  obtain d2 where d2: "nat \<bar>d2\<bar> = axis_diff (boundary_of g) c (snd cell) (cols g)"
    "axis_cell (boundary_of g) (cols g) (int c + d2) = Some (snd cell)"
    using axis_reach_ex [of c "cols g" "snd cell"] assms R by (auto simp: in_grid_def)
  have "(d1, d2) \<noteq> (0, 0)"
    using d1(1) d2(1) R assms by (auto simp: axis_diff_eq_0 in_grid_def prod_eq_iff)
  moreover have "in_shape nbhd radius (d1, d2)"
    using R d1(1) d2(1) by (simp add: in_shape_distance [of "(d1, d2)" g "(r, c)" cell])
  moreover have "resolve g (int r + d1) (int c + d2) = Some cell"
    using assms d1(2) d2(2) by (auto simp: resolve_axes grid_is_empty_def in_grid_def)
  ultimately show "\<exists>d. offset_cell g r c nbhd radius d = Some cell"
    using R by (intro exI [of _ "(d1, d2)"]) (simp add: offset_cell_Some)
qed

lemma neighbors_radius_into_eq:
  "neighbors_radius_into g r c nbhd radius buf = neighbors_radius g r c nbhd radius"
  by (simp add: neighbors_radius_def neighbors_radius_into_def)

lemma neighbors_radius_sorted [simp]:
  "sorted (neighbors_radius g r c nbhd radius)" "distinct (neighbors_radius g r c nbhd radius)"
  by (simp_all add: neighbors_radius_def neighbors_radius_into_def Let_def sorted_remdups_adj
      distinct_remdups_adj_if_sorted)

lemma set_map_filter_Some: "set (List.map_filter f xs) = {y. \<exists>x \<in> set xs. f x = Some y}"
  by (force simp: List.map_filter_def)

lemma set_neighbors_radius:
  assumes "in_grid g (r, c)" "radius < 2 ^ 63"
  shows "set (neighbors_radius g r c nbhd radius) =
    {cell. in_grid g cell \<and> cell \<noteq> (r, c) \<and> cell_distance g nbhd (r, c) cell \<le> radius}"
proof (cases "radius = 0")
  case True
  with assms show ?thesis
    by (auto simp: neighbors_radius_def neighbors_radius_into_def cell_distance_eq_0)
next
  case False
  have "\<not> grid_is_empty g" using assms by (auto simp: grid_is_empty_def in_grid_def)
  moreover have "d \<in> {- int radius..int radius} \<times> {- int radius..int radius}"
    if "offset_cell g r c nbhd radius d = Some cell" for d cell
    using that in_shape_square [of nbhd radius "fst d" "snd d"]
    by (auto simp: offset_cell_Some mem_Times_iff)
  then have square: "(\<exists>d \<in> {- int radius..int radius} \<times> {- int radius..int radius}.
      offset_cell g r c nbhd radius d = Some cell) \<longleftrightarrow>
      (\<exists>d. offset_cell g r c nbhd radius d = Some cell)" for cell
    by blast
  ultimately have "set (neighbors_radius g r c nbhd radius) =
      {cell. \<exists>d. offset_cell g r c nbhd radius d = Some cell}"
    using False by (simp add: neighbors_radius_def neighbors_radius_into_def Let_def
        set_map_filter_Some square as_isize_id [OF assms(2)] del: bex_simps ex_simps)
  then show ?thesis by (simp only: offset_cell_reach [OF assms(1)])
qed

lemma set_neighbors_one:
  assumes "in_grid g (r, c)"
  shows "set (neighbors_radius g r c nbhd 1) = {cell. in_grid g cell \<and> cell \<noteq> (r, c) \<and> cell_distance g nbhd (r, c) cell \<le> 1}"
  by (rule set_neighbors_radius [OF assms]) simp

text \<open>A radius beyond \<open>isize::MAX\<close> is cast to a negative number, whose range of offsets is empty.\<close>

lemma neighbors_radius_past_isize:
  assumes "2 ^ 63 < radius" "radius < 2 ^ 64"
  shows "neighbors_radius g r c nbhd radius = []"
proof -
  have bounds: "2 ^ 63 < int radius" "int radius < 2 ^ 64"
    using assms by (metis of_nat_less_numeral_power_cancel_iff numeral_power_less_of_nat_cancel_iff)+
  have "(int radius + 2 ^ 63) mod 2 ^ 64 = (int radius + 2 ^ 63 - 2 ^ 64) mod 2 ^ 64"
    by (rule minus_mod_self2 [symmetric])
  also have "\<dots> = int radius + 2 ^ 63 - 2 ^ 64" using bounds by (intro mod_pos_pos_trivial) simp_all
  finally have rad: "as_isize radius = int radius - 2 ^ 64" by (simp add: as_isize_def isize_of_def)
  then have "isize_of (- as_isize radius) = - as_isize radius" using bounds by (intro isize_of_id) simp_all
  with rad bounds show ?thesis
    by (simp add: neighbors_radius_def neighbors_radius_into_def Let_def)
qed

text \<open>
  C20: where the sides of the grid and the radius stay within \<open>isize\<close> - so that no cast and no sum of a
  coordinate, an offset and a side overflows - the neighbours of a cell of the grid are, in row-major order and each
  once, exactly the other cells whose distance (as \<open>Grid::distance\<close> computes it, wrap-around
  included) under the paired metric is at most the radius: Chebyshev for Moore, Manhattan for Von Neumann.
\<close>

theorem neighbors_radius_is_ball:
  assumes "r < rows g" and "c < cols g"
    and "rows g + max (rows g) radius < 2 ^ 63" "cols g + max (cols g) radius < 2 ^ 63"
  shows "neighbors_radius g r c nbhd radius =
    filter (\<lambda>cell. cell \<noteq> (r, c) \<and> cell_distance g nbhd (r, c) cell \<le> radius) (grid_cells g)"
proof (rule sorted_distinct_set_unique)
  have "in_grid g (r, c)" "radius < 2 ^ 63" using assms by (simp_all add: in_grid_def)
  from set_neighbors_radius [OF this] show "set (neighbors_radius g r c nbhd radius) =
      set (filter (\<lambda>cell. cell \<noteq> (r, c) \<and> cell_distance g nbhd (r, c) cell \<le> radius) (grid_cells g))"
    by auto
qed (simp_all add: sorted_wrt_filter)

theorem neighbors_radius_is_ball_witness:
  "neighbors_radius (grid_new 3 4 Toroidal) 0 3 VonNeumann 1 = [(0, 0), (0, 2), (1, 3), (2, 3)]"
proof -
  have "neighbors_radius (grid_new 3 4 Toroidal) 0 3 VonNeumann 1 =
      filter (\<lambda>cell. cell \<noteq> (0, 3) \<and> cell_distance (grid_new 3 4 Toroidal) VonNeumann (0, 3) cell \<le> 1)
        (grid_cells (grid_new 3 4 Toroidal))"
    by (rule neighbors_radius_is_ball) (simp_all add: grid_new_def)
  also have "\<dots> = [(0, 0), (0, 2), (1, 3), (2, 3)]"
    by code_simp
  finally show ?thesis .
qed

text \<open>
  neighbourhood is symmetric at every radius within \<open>isize\<close>, on both boundaries.
\<close>

theorem neighbors_radius_symmetric:
  assumes "r < rows g" "c < cols g" "r' < rows g" "c' < cols g" "radius < 2 ^ 63"
  shows "(r', c') \<in> set (neighbors_radius g r c nbhd radius) \<longleftrightarrow>
    (r, c) \<in> set (neighbors_radius g r' c' nbhd radius)"
  using assms by (auto simp: set_neighbors_radius in_grid_def cell_distance_commute)

theorem neighbors_radius_symmetric_witness:
  "(4, 0) \<in> set (neighbors_radius (grid_new 5 5 Toroidal) 0 4 Moore 1) \<longleftrightarrow>
   (0, 4) \<in> set (neighbors_radius (grid_new 5 5 Toroidal) 4 0 Moore 1)"
  by (rule neighbors_radius_symmetric) (simp_all add: grid_new_def)

subsection \<open>The radius-1 iterator yields the same list\<close>

definition writes :: "('i \<Rightarrow> 'a option) \<Rightarrow> 'i \<Rightarrow> 'a list \<times> nat \<Rightarrow> 'a list \<times> nat" where
  "writes f i st = (case f i of None \<Rightarrow> st | Some v \<Rightarrow> ((fst st)[snd st := v], Suc (snd st)))"

lemma fold_writes:
  assumes "n + length (List.map_filter f is) \<le> length arr"
  shows "snd (fold (writes f) is (arr, n)) = n + length (List.map_filter f is) \<and>
    length (fst (fold (writes f) is (arr, n))) = length arr \<and>
    take (n + length (List.map_filter f is)) (fst (fold (writes f) is (arr, n))) =
      take n arr @ List.map_filter f is"
  using assms
proof (induction "is" arbitrary: arr n)
  case (Cons i "is")
  show ?case
  proof (cases "f i")
    case None
    then show ?thesis using Cons by (simp add: writes_def List.map_filter_simps)
  next
    case (Some v)
    have "take (Suc n) (arr[n := v]) = take n arr @ [v]"
      using Cons.prems Some by (simp add: List.map_filter_simps take_Suc_conv_app_nth)
    then show ?thesis
      using Cons.IH [of "Suc n" "arr[n := v]"] Cons.prems Some
      by (simp add: writes_def List.map_filter_simps)
  qed
qed (simp add: List.map_filter_simps)

abbreviation unit_offsets :: "(int \<times> int) list" where
  "unit_offsets \<equiv> List.product [-1..1] [-1..1]"

lemma iter_push_writes:
  "d \<in> set unit_offsets \<Longrightarrow> iter_push g r c nbhd d = writes (offset_cell g r c nbhd 1) d"
  by (intro ext)
    (auto simp: iter_push_def writes_def offset_cell_def in_shape_def
      split: neighborhood.splits option.splits)

lemma unit_offsets_eq:
  "unit_offsets = [(-1,-1), (-1,0), (-1,1), (0,-1), (0,0), (0,1), (1,-1), (1,0), (1,1)]"
  by code_simp

lemma length_map_filter_le: "length (List.map_filter f xs) \<le> length xs"
  by (induction xs) (auto simp: List.map_filter_simps split: option.split)

lemma unit_offsets_bound: "length (List.map_filter (offset_cell g r c nbhd 1) unit_offsets) \<le> 8"
proof -
  have skip: "offset_cell g r c nbhd k (0, 0) = None" for k by (simp add: offset_cell_def)
  have "List.map_filter (offset_cell g r c nbhd 1) unit_offsets =
      List.map_filter (offset_cell g r c nbhd 1)
        [(-1,-1), (-1,0), (-1,1), (0,-1), (0,1), (1,-1), (1,0), (1,1)]"
    unfolding unit_offsets_eq by (simp add: List.map_filter_def skip)
  also have "length \<dots> \<le> 8" by (rule order_trans [OF length_map_filter_le]) simp
  finally show ?thesis .
qed

lemma iter_copy_writes:
  "iter_copy tmp = writes (\<lambda>i. if i = 0 \<or> tmp ! i \<noteq> tmp ! (i - 1) then Some (tmp ! i) else None)"
  by (intro ext) (simp add: iter_copy_def writes_def)

lemma map_filter_append: "List.map_filter f (xs @ ys) = List.map_filter f xs @ List.map_filter f ys"
  by (simp add: List.map_filter_def)

lemma copy_is_dedup:
  "n \<le> length tmp \<Longrightarrow>
   List.map_filter (\<lambda>i. if i = 0 \<or> tmp ! i \<noteq> tmp ! (i - 1) then Some (tmp ! i) else None) [0..<n] =
   remdups_adj (take n tmp)"
proof (induction n)
  case (Suc n)
  show ?case
  proof (cases n)
    case 0
    with Suc.prems show ?thesis by (cases tmp) (simp_all add: List.map_filter_simps)
  next
    case (Suc m)
    with \<open>Suc n \<le> length tmp\<close> have two: "take (Suc n) tmp = take m tmp @ [tmp ! m, tmp ! n]"
      and one: "take n tmp = take m tmp @ [tmp ! m]"
      by (simp_all add: take_Suc_conv_app_nth)
    show ?thesis
      using Suc.IH \<open>Suc n \<le> length tmp\<close> \<open>n = Suc m\<close> unfolding two one
      by (auto simp: map_filter_append List.map_filter_simps remdups_adj_append_two)
  qed
qed (simp add: List.map_filter_simps)

lemma iter_collect_drop:
  "it_len it \<le> length (it_buf it) \<Longrightarrow> iter_collect it = drop (it_pos it) (take (it_len it) (it_buf it))"
proof (induction it rule: iter_collect.induct)
  case (1 it)
  show ?case
  proof (cases "it_pos it < it_len it")
    case True
    with 1 show ?thesis
      by (subst iter_collect.simps) (simp add: iter_next_def Cons_nth_drop_Suc [symmetric])
  next
    case False
    then show ?thesis by (subst iter_collect.simps) (simp add: iter_next_def)
  qed
qed

text \<open>
  the allocation-free iterator yields the same cells in the same order as \<open>neighbors\<close>, and
  never writes past the eight slots of its stack arrays.
\<close>

theorem neighbors_iter_agrees:
  "iter_collect (neighbors_iter_new g r c nbhd) = neighbors g r c nbhd \<and>
   it_len (neighbors_iter_new g r c nbhd) \<le> 8 \<and> length (it_buf (neighbors_iter_new g r c nbhd)) = 8"
proof (cases "grid_is_empty g")
  case True
  then show ?thesis
    by (simp add: neighbors_iter_new_def neighbors_def neighbors_into_def neighbors_radius_into_def
        iter_collect_drop del: iter_collect.simps)
next
  case False
  let ?zeros = "replicate 8 (0 :: nat, 0 :: nat)"
  let ?cells = "List.map_filter (offset_cell g r c nbhd 1) unit_offsets"
  let ?n = "length ?cells"
  obtain tmp0 tmp_len where fold1: "fold (iter_push g r c nbhd) unit_offsets (?zeros, 0) = (tmp0, tmp_len)"
    by fastforce
  have "fold (iter_push g r c nbhd) unit_offsets (?zeros, 0) =
      fold (writes (offset_cell g r c nbhd 1)) unit_offsets (?zeros, 0)"
    by (rule fold_cong) (simp_all only: iter_push_writes)
  with fold1 fold_writes [of 0 "offset_cell g r c nbhd 1" unit_offsets ?zeros] unit_offsets_bound
  have tmp0: "tmp_len = ?n" "length tmp0 = 8" "take ?n tmp0 = ?cells" by simp_all
  define tmp where "tmp = sort (take tmp_len tmp0) @ drop tmp_len tmp0"
  have tmp: "length tmp = 8" "take ?n tmp = sort ?cells" "?n \<le> 8"
    using tmp0 unit_offsets_bound by (simp_all add: tmp_def)
  obtain buf len where fold2: "fold (iter_copy tmp) [0..<?n] (?zeros, 0) = (buf, len)"
    by fastforce
  let ?nb = "remdups_adj (sort ?cells)"
  have bound: "length ?nb \<le> 8"
    using tmp(3) remdups_adj_length [of "sort ?cells"] by simp
  have copied: "len = length ?nb \<and> length buf = 8 \<and> take len buf = ?nb"
    using fold_writes [of 0 "\<lambda>i. if i = 0 \<or> tmp ! i \<noteq> tmp ! (i - 1) then Some (tmp ! i) else None"
        "[0..<?n]" ?zeros] bound copy_is_dedup [of ?n tmp] tmp
    unfolding iter_copy_writes [symmetric] fold2 by simp
  have it: "neighbors_iter_new g r c nbhd = \<lparr>it_buf = buf, it_len = len, it_pos = 0\<rparr>"
    using False fold1 fold2 tmp0(1) by (simp add: neighbors_iter_new_def Let_def tmp_def)
  have "neighbors g r c nbhd = ?nb"
    using False by (simp add: neighbors_def neighbors_into_def neighbors_radius_into_def Let_def)
  moreover have "iter_collect (neighbors_iter_new g r c nbhd) = ?nb"
    using copied bound unfolding it by (subst iter_collect_drop) auto
  moreover have "it_len (neighbors_iter_new g r c nbhd) \<le> 8"
    "length (it_buf (neighbors_iter_new g r c nbhd)) = 8"
    using copied bound unfolding it by auto
  ultimately show ?thesis by metis
qed

end
