(* ===== verification/Grid_Index.thy ===== *)
theory Grid_Index
  imports Grid
begin

section \<open>Adjacency table, occupancy index and cell container (crates/socsim-grid)\<close>

text \<open>
  The CSR table answers the neighbour query of every cell. \<open>GridIndex\<close> keeps a row-major vector
  of occupants and a map of positions; \<open>index_ok\<close> says that they mirror each other. \<open>place\<close> of
  an unplaced agent and \<open>move_to\<close> keep it; \<open>place\<close> of an agent that is already placed does not
  (the code documents that the old cell is not vacated), and what \<open>move_to\<close> does afterwards is
  stated too. Indexing a vector out of range is a panic; the model proves that the operations
  never do it.
\<close>

subsection \<open>The adjacency table answers \<open>neighbors_radius\<close>\<close>

definition flat_index :: "grid \<Rightarrow> nat \<times> nat \<Rightarrow> nat" where
  "flat_index g cell = fst cell * cols g + snd cell"

definition csr_rows :: "grid \<Rightarrow> neighborhood \<Rightarrow> nat \<Rightarrow> nat \<Rightarrow> nat list list" where
  "csr_rows g nbhd radius n =
     map (\<lambda>idx. map (flat_index g)
       (neighbors_radius g (idx div cols g) (idx mod cols g) nbhd radius)) [0..<n]"

lemma adjacency_radius_rows:
  "adjacency_radius g nbhd radius =
     (let rs = csr_rows g nbhd radius (grid_len g)
      in \<lparr>offsets = map (\<lambda>k. length (concat (take k rs))) [0..<Suc (grid_len g)], flat = concat rs\<rparr>)"
proof -
  let ?row = "\<lambda>idx adj.
            let buf = neighbors_radius_into g (idx div cols g) (idx mod cols g) nbhd radius [];
                fl = flat adj @ map (\<lambda>(nr, nc). nr * cols g + nc) buf
            in \<lparr>offsets = offsets adj @ [length fl], flat = fl\<rparr>"
  have "fold ?row [0..<n] \<lparr>offsets = [0], flat = []\<rparr> =
      \<lparr>offsets = map (\<lambda>k. length (concat (take k (csr_rows g nbhd radius n)))) [0..<Suc n],
       flat = concat (csr_rows g nbhd radius n)\<rparr>" for n
  proof (induction n)
    case (Suc n)
    have rows: "csr_rows g nbhd radius (Suc n) = csr_rows g nbhd radius n @
        [map (flat_index g) (neighbors_radius g (n div cols g) (n mod cols g) nbhd radius)]"
      by (simp add: csr_rows_def)
    have len: "length (csr_rows g nbhd radius n) = n" by (simp add: csr_rows_def)
    have flat: "(\<lambda>(nr, nc). nr * cols g + nc) = flat_index g"
      by (auto simp: flat_index_def)
    show ?case
      using Suc by (simp add: rows len Let_def neighbors_radius_into_eq flat)
  qed (simp add: csr_rows_def)
  then show ?thesis by (simp add: adjacency_radius_def Let_def)
qed

lemma concat_take_Suc: "k < length rs \<Longrightarrow>
   concat (take (Suc k) rs) = concat (take k rs) @ rs ! k"
  by (simp add: take_Suc_conv_app_nth)

lemma csr_slice:
  assumes "k < length rs"
  shows "slice_get (concat rs) (length (concat (take k rs))) (length (concat (take (Suc k) rs))) =
    Some (rs ! k)"
proof -
  have "concat rs = concat (take k rs) @ rs ! k @ concat (drop (Suc k) rs)"
    using assms by (metis append_take_drop_id append.assoc concat_append concat_take_Suc)
  then show ?thesis using assms by (simp add: slice_get_def concat_take_Suc)
qed

lemma adjacency_row:
  assumes "idx < grid_len g"
  shows "adj_neighbors (adjacency_radius g nbhd radius) idx =
    Some (map (flat_index g) (neighbors_radius g (idx div cols g) (idx mod cols g) nbhd radius))"
proof -
  let ?rs = "csr_rows g nbhd radius (grid_len g)"
  have len: "length ?rs = grid_len g" by (simp add: csr_rows_def)
  have "adj_neighbors (adjacency_radius g nbhd radius) idx = Some (?rs ! idx)"
    using assms csr_slice [of idx ?rs] len
    by (simp add: adjacency_radius_rows adj_neighbors_def Let_def get_opt_def del: upt_Suc)
  then show ?thesis using assms by (simp add: csr_rows_def)
qed

lemma adjacency_past: "grid_len g \<le> idx \<Longrightarrow> adj_neighbors (adjacency_radius g nbhd radius) idx = None"
  by (simp add: adjacency_radius_rows adj_neighbors_def Let_def get_opt_def del: upt_Suc split: option.split)

text \<open>
  the precomputed table answers every cell's neighbour query with the flat indices of
  \<open>neighbors_radius\<close>, in its order, and panics exactly for an index that is not a cell.
\<close>

theorem adjacency_answers:
  "adj_neighbors (adjacency_radius g nbhd radius) idx =
     (if idx < grid_len g
      then Some (map (\<lambda>(r, c). r * cols g + c)
        (neighbors_radius g (idx div cols g) (idx mod cols g) nbhd radius))
      else None)"
  by (auto simp: adjacency_row adjacency_past flat_index_def)

subsection \<open>GridIndex\<close>

datatype grid_error =
    OutOfBounds nat nat nat nat
  | CellOccupied nat nat agent_id
  | UnknownAgent agent_id

record grid_index =
  gi_grid :: grid
  gi_cells :: "agent_id option list"
  gi_positions :: "agent_id \<rightharpoonup> nat \<times> nat"

definition index_new :: "grid \<Rightarrow> grid_index" where
  "index_new g =
     \<lparr>gi_grid = g, gi_cells = replicate (grid_len g) None, gi_positions = Map.empty\<rparr>"

definition cell_idx :: "grid_index \<Rightarrow> nat \<Rightarrow> nat \<Rightarrow> nat" where
  "cell_idx gi r c = r * cols (gi_grid gi) + c"

definition check_bounds :: "grid_index \<Rightarrow> nat \<Rightarrow> nat \<Rightarrow> grid_error + unit" where
  "check_bounds gi r c =
     (if r < rows (gi_grid gi) \<and> c < cols (gi_grid gi) then Inr ()
      else Inl (OutOfBounds r c (rows (gi_grid gi)) (cols (gi_grid gi))))"

definition place :: "agent_id \<Rightarrow> nat \<Rightarrow> nat \<Rightarrow> grid_index \<Rightarrow> (grid_error + unit) \<times> grid_index" where
  "place aid r c gi =
     (case check_bounds gi r c of
        Inl e \<Rightarrow> (Inl e, gi)
      | Inr _ \<Rightarrow>
          let i = cell_idx gi r c
          in case gi_cells gi ! i of
               Some other \<Rightarrow> (Inl (CellOccupied r c other), gi)
             | None \<Rightarrow>
                 (Inr (), gi\<lparr>gi_cells := (gi_cells gi)[i := Some aid],
                             gi_positions := (gi_positions gi)(aid \<mapsto> (r, c))\<rparr>))"

definition occupant :: "grid_index \<Rightarrow> nat \<Rightarrow> nat \<Rightarrow> agent_id option" where
  "occupant gi r c =
     (if r < rows (gi_grid gi) \<and> c < cols (gi_grid gi) then gi_cells gi ! cell_idx gi r c else None)"

definition position :: "grid_index \<Rightarrow> agent_id \<Rightarrow> (nat \<times> nat) option" where
  "position gi aid = gi_positions gi aid"

definition move_to :: "agent_id \<Rightarrow> nat \<Rightarrow> nat \<Rightarrow> grid_index \<Rightarrow> (grid_error + unit) \<times> grid_index" where
  "move_to aid r c gi =
     (case gi_positions gi aid of
        None \<Rightarrow> (Inl (UnknownAgent aid), gi)
      | Some old \<Rightarrow>
          (case check_bounds gi r c of
             Inl e \<Rightarrow> (Inl e, gi)
           | Inr _ \<Rightarrow>
               let target = cell_idx gi r c
               in case gi_cells gi ! target of
                    Some other \<Rightarrow>
                      if other \<noteq> aid then (Inl (CellOccupied r c other), gi) else (Inr (), gi)
                  | None \<Rightarrow>
                      let old_i = cell_idx gi (fst old) (snd old)
                      in (Inr (), gi\<lparr>gi_cells := (gi_cells gi)[old_i := None, target := Some aid],
                                     gi_positions := (gi_positions gi)(aid \<mapsto> (r, c))\<rparr>)))"

definition vacant_cells :: "grid_index \<Rightarrow> (nat \<times> nat) list" where
  "vacant_cells gi =
     map (\<lambda>(i, _). (i div cols (gi_grid gi), i mod cols (gi_grid gi)))
       (filter (\<lambda>(_, occ). occ = None) (List.enumerate 0 (gi_cells gi)))"

text \<open>\<open>BTreeMap::keys\<close> is in key order.\<close>

definition placed_agents :: "grid_index \<Rightarrow> agent_id list" where
  "placed_agents gi = sorted_list_of_set (dom (gi_positions gi))"

text \<open>The loop body of \<open>nearest_vacant\<close>; \<open>distance\<close> yields no NaN, so \<open>'f\<close> is a linear order.\<close>

definition nearest_update ::
    "(nat \<times> nat \<Rightarrow> 'f::linorder) \<Rightarrow> nat \<times> nat \<Rightarrow> ((nat \<times> nat) \<times> 'f) option \<Rightarrow>
     ((nat \<times> nat) \<times> 'f) option" where
  "nearest_update dist cell best =
     (let d = dist cell
      in case best of
           Some (_, bd) \<Rightarrow> if d < bd then Some (cell, d) else best
         | None \<Rightarrow> Some (cell, d))"

definition nearest_vacant ::
    "(nat \<Rightarrow> 'f::linorder) \<Rightarrow> ('f \<Rightarrow> 'f) \<Rightarrow> grid_index \<Rightarrow> nat \<times> nat \<Rightarrow> metric \<Rightarrow> (nat \<times> nat) option" where
  "nearest_vacant of_usize sqrt_f gi origin m =
     map_option fst
       (fold (nearest_update (distance of_usize sqrt_f (gi_grid gi) m origin)) (vacant_cells gi) None)"

definition occupant_neighbors :: "grid_index \<Rightarrow> nat \<Rightarrow> nat \<Rightarrow> neighborhood \<Rightarrow> agent_id list" where
  "occupant_neighbors gi r c nbhd =
     List.map_filter (\<lambda>(nr, nc). occupant gi nr nc) (neighbors (gi_grid gi) r c nbhd)"

subsection \<open>CellGrid\<close>

record 't cell_grid =
  cg_grid :: grid
  cg_cells :: "'t list"

definition cell_grid_new :: "grid \<Rightarrow> 't \<Rightarrow> 't cell_grid" where
  "cell_grid_new g fill = \<lparr>cg_grid = g, cg_cells = replicate (grid_len g) fill\<rparr>"

definition cell_grid_from_fn :: "grid \<Rightarrow> (nat \<Rightarrow> nat \<Rightarrow> 't) \<Rightarrow> 't cell_grid" where
  "cell_grid_from_fn g f =
     \<lparr>cg_grid = g, cg_cells = map (\<lambda>idx. f (idx div cols g) (idx mod cols g)) [0..<grid_len g]\<rparr>"

definition cg_index :: "'t cell_grid \<Rightarrow> nat \<Rightarrow> nat \<Rightarrow> nat" where
  "cg_index cg r c = r * cols (cg_grid cg) + c"

definition cg_get :: "'t cell_grid \<Rightarrow> nat \<Rightarrow> nat \<Rightarrow> 't option" where
  "cg_get cg r c =
     (if r < rows (cg_grid cg) \<and> c < cols (cg_grid cg) then get_opt (cg_cells cg) (cg_index cg r c)
      else None)"

text \<open>A write \<open>*cg.get_mut(r, c)? = v\<close>; \<open>None\<close> when there is no reference.\<close>

definition cg_get_mut :: "'t cell_grid \<Rightarrow> nat \<Rightarrow> nat \<Rightarrow> 't \<Rightarrow> 't cell_grid option" where
  "cg_get_mut cg r c v =
     (if r < rows (cg_grid cg) \<and> c < cols (cg_grid cg)
      then map_option (\<lambda>_. cg\<lparr>cg_cells := (cg_cells cg)[cg_index cg r c := v]\<rparr>)
        (get_opt (cg_cells cg) (cg_index cg r c))
      else None)"

definition cg_neighbor_values :: "'t cell_grid \<Rightarrow> nat \<Rightarrow> nat \<Rightarrow> neighborhood \<Rightarrow> 't list" where
  "cg_neighbor_values cg r c nbhd =
     List.map_filter (\<lambda>(nr, nc). cg_get cg nr nc) (neighbors (cg_grid cg) r c nbhd)"

subsection \<open>Row-major indices\<close>

lemma flat_index_less: "in_grid g cell \<Longrightarrow> flat_index g cell < grid_len g"
proof -
  assume "in_grid g cell"
  then have "fst cell * cols g + snd cell < Suc (fst cell) * cols g" "Suc (fst cell) \<le> rows g"
    by (simp_all add: in_grid_def)
  then show ?thesis unfolding flat_index_def grid_len_def
    by (meson less_le_trans mult_le_mono1)
qed

lemma flat_index_div_mod:
  "in_grid g cell \<Longrightarrow> flat_index g cell div cols g = fst cell \<and> flat_index g cell mod cols g = snd cell"
  by (simp add: flat_index_def in_grid_def)

lemma flat_index_inj:
  "in_grid g a \<Longrightarrow> in_grid g b \<Longrightarrow> flat_index g a = flat_index g b \<longleftrightarrow> a = b"
  by (metis flat_index_div_mod prod_eq_iff)

lemma flat_index_onto:
  assumes "i < grid_len g"
  shows "in_grid g (i div cols g, i mod cols g) \<and> flat_index g (i div cols g, i mod cols g) = i"
proof -
  have "0 < cols g" using assms by (auto simp: grid_len_def intro: gr0I)
  moreover have "i div cols g < rows g"
    using assms by (simp add: grid_len_def less_mult_imp_div_less)
  ultimately show ?thesis by (simp add: in_grid_def flat_index_def)
qed

lemma grid_cells_enum: "grid_cells g = map (\<lambda>i. (i div cols g, i mod cols g)) [0..<grid_len g]"
proof (cases "cols g = 0")
  case True
  then have "grid_cells g = []"
    by (simp add: grid_cells_def) (metis list.size(3) length_0_conv length_product mult_0_right)
  with True show ?thesis by (simp add: grid_len_def)
next
  case False
  let ?cell = "\<lambda>i. (i div cols g, i mod cols g)"
  show ?thesis
  proof (rule sorted_distinct_set_unique)
    have mono: "?cell i \<le> ?cell j" if "i \<le> j" for i j
    proof (cases "i div cols g = j div cols g")
      case True
      then have "i mod cols g \<le> j mod cols g"
        using that by (metis add_le_cancel_left div_mult_mod_eq)
      with True show ?thesis by (simp add: less_eq_prod_def)
    next
      case False
      then have "i div cols g < j div cols g" using div_le_mono [OF that, of "cols g"] by linarith
      then show ?thesis by (simp add: less_eq_prod_def)
    qed
    then show "sorted (map ?cell [0..<grid_len g])"
      by (auto simp: sorted_iff_nth_mono)
    show "distinct (map ?cell [0..<grid_len g])"
      by (simp add: distinct_map) (metis (mono_tags, lifting) atLeastLessThan_iff flat_index_onto inj_onI)
    show "set (grid_cells g) = set (map ?cell [0..<grid_len g])"
    proof (intro set_eqI iffI)
      fix cell assume "cell \<in> set (grid_cells g)"
      then have "in_grid g cell" by simp
      then have eq: "?cell (flat_index g cell) = cell" and less: "flat_index g cell < grid_len g"
        using flat_index_div_mod [of g cell] flat_index_less by simp_all
      have "?cell (flat_index g cell) \<in> ?cell ` {0..<grid_len g}"
        using less by (intro imageI) simp
      then show "cell \<in> set (map ?cell [0..<grid_len g])" unfolding eq by simp
    next
      fix cell assume "cell \<in> set (map ?cell [0..<grid_len g])"
      then show "cell \<in> set (grid_cells g)" using flat_index_onto by auto
    qed
  qed simp_all
qed

subsection \<open>Occupants and positions mirror each other\<close>

definition index_ok :: "grid_index \<Rightarrow> bool" where
  "index_ok gi \<longleftrightarrow>
     length (gi_cells gi) = grid_len (gi_grid gi) \<and>
     (\<forall>aid cell. gi_positions gi aid = Some cell \<longleftrightarrow>
        in_grid (gi_grid gi) cell \<and> gi_cells gi ! flat_index (gi_grid gi) cell = Some aid)"

lemma cell_idx_flat: "cell_idx gi r c = flat_index (gi_grid gi) (r, c)"
  by (simp add: cell_idx_def flat_index_def)

lemma index_new_ok [simp]: "index_ok (index_new g)"
  using flat_index_less by (auto simp: index_ok_def index_new_def)

lemma check_bounds_in_grid:
  "check_bounds gi r c =
     (if in_grid (gi_grid gi) (r, c) then Inr ()
      else Inl (OutOfBounds r c (rows (gi_grid gi)) (cols (gi_grid gi))))"
  by (simp add: check_bounds_def in_grid_def)

lemma place_grid [simp]: "gi_grid (snd (place aid r c gi)) = gi_grid gi"
  by (simp add: place_def Let_def split: sum.split option.split)

lemma move_to_grid [simp]: "gi_grid (snd (move_to aid r c gi)) = gi_grid gi"
  by (simp add: move_to_def Let_def split: sum.split option.split)

lemma index_ok_position:
  "index_ok gi \<Longrightarrow> gi_positions gi aid = Some cell \<longleftrightarrow>
     in_grid (gi_grid gi) cell \<and> gi_cells gi ! flat_index (gi_grid gi) cell = Some aid"
  unfolding index_ok_def by blast

lemma index_ok_length: "index_ok gi \<Longrightarrow> length (gi_cells gi) = grid_len (gi_grid gi)"
  by (simp add: index_ok_def)

lemma nth_flat_update:
  "length xs = grid_len g \<Longrightarrow> in_grid g cell \<Longrightarrow> in_grid g cell' \<Longrightarrow>
   xs[flat_index g cell := v] ! flat_index g cell' = (if cell' = cell then v else xs ! flat_index g cell')"
  using flat_index_inj [of g cell cell'] flat_index_less [of g cell]
  by (auto simp: nth_list_update)

lemma index_okI:
  assumes "length (gi_cells gi) = grid_len (gi_grid gi)"
    and "\<And>aid cell. in_grid (gi_grid gi) cell \<Longrightarrow>
      gi_positions gi aid = Some cell \<longleftrightarrow> gi_cells gi ! flat_index (gi_grid gi) cell = Some aid"
    and "\<And>aid cell. gi_positions gi aid = Some cell \<Longrightarrow> in_grid (gi_grid gi) cell"
  shows "index_ok gi"
  unfolding index_ok_def using assms by blast

lemma index_ok_put:
  assumes ok: "index_ok gi" and cell: "in_grid (gi_grid gi) cell"
    and "gi_cells gi ! flat_index (gi_grid gi) cell = None" "gi_positions gi aid = None"
  shows "index_ok (gi\<lparr>gi_cells := list_update (gi_cells gi) (flat_index (gi_grid gi) cell) (Some aid),
                     gi_positions := (gi_positions gi)(aid \<mapsto> cell)\<rparr>)"
  (is "index_ok ?gi")
proof (rule index_okI)
  fix a cell' assume c': "in_grid (gi_grid ?gi) cell'"
  show "gi_positions ?gi a = Some cell' \<longleftrightarrow> gi_cells ?gi ! flat_index (gi_grid ?gi) cell' = Some a"
    using assms index_ok_position [OF ok, of a cell'] index_ok_position [OF ok, of aid cell'] c'
    by (auto simp: nth_flat_update index_ok_length)
next
  fix a cell' assume "gi_positions ?gi a = Some cell'"
  then show "in_grid (gi_grid ?gi) cell'"
    using cell index_ok_position [OF ok, of a cell'] by (simp split: if_splits)
qed (simp add: index_ok_length [OF ok])

lemma index_ok_take:
  assumes ok: "index_ok gi" and pos: "gi_positions gi aid = Some cell"
  shows "index_ok (gi\<lparr>gi_cells := list_update (gi_cells gi) (flat_index (gi_grid gi) cell) None,
                     gi_positions := (gi_positions gi)(aid := None)\<rparr>)"
  (is "index_ok ?gi")
proof (rule index_okI)
  note cell = pos [unfolded index_ok_position [OF ok]]
  fix a cell' assume c': "in_grid (gi_grid ?gi) cell'"
  show "gi_positions ?gi a = Some cell' \<longleftrightarrow> gi_cells ?gi ! flat_index (gi_grid ?gi) cell' = Some a"
    using cell pos index_ok_position [OF ok, of a cell'] c'
    by (auto simp: nth_flat_update index_ok_length [OF ok])
next
  fix a cell' assume "gi_positions ?gi a = Some cell'"
  then show "in_grid (gi_grid ?gi) cell'"
    using index_ok_position [OF ok, of a cell'] by (simp split: if_splits)
qed (simp add: index_ok_length [OF ok])

lemma place_ok:
  assumes "index_ok gi" "position gi aid = None"
  shows "index_ok (snd (place aid r c gi))"
  using assms index_ok_put [of gi "(r, c)" aid]
  by (simp add: place_def check_bounds_in_grid cell_idx_flat position_def Let_def split: option.split)

text \<open>Under the invariant, moving is taking the agent out and putting it back at the target.\<close>

lemma move_to_ok:
  assumes "index_ok gi"
  shows "index_ok (snd (move_to aid r c gi))"
proof (cases "gi_positions gi aid")
  case (Some old)
  show ?thesis
  proof (cases "in_grid (gi_grid gi) (r, c) \<and> gi_cells gi ! flat_index (gi_grid gi) (r, c) = None")
    case True
    let ?out = "gi\<lparr>gi_cells := list_update (gi_cells gi) (flat_index (gi_grid gi) old) None,
                     gi_positions := (gi_positions gi)(aid := None)\<rparr>"
    have old: "in_grid (gi_grid gi) old" "gi_cells gi ! flat_index (gi_grid gi) old = Some aid"
      using Some index_ok_position [OF assms] by blast+
    then have "old \<noteq> (r, c)" using True by auto
    then have "gi_cells ?out ! flat_index (gi_grid ?out) (r, c) = None"
      using True old index_ok_length [OF assms] by (simp add: nth_flat_update)
    then have "index_ok (?out\<lparr>gi_cells := list_update (gi_cells ?out) (flat_index (gi_grid gi) (r, c)) (Some aid),
                     gi_positions := (gi_positions ?out)(aid \<mapsto> (r, c))\<rparr>)"
      using index_ok_put [OF index_ok_take [OF assms Some], of "(r, c)" aid] True by simp
    then show ?thesis
      using True Some
      by (simp add: move_to_def check_bounds_in_grid cell_idx_flat Let_def)
  next
    case False
    then show ?thesis
      using assms Some
      by (auto simp: move_to_def check_bounds_in_grid cell_idx_flat Let_def split: option.split)
  qed
qed (simp add: move_to_def assms)

text \<open>What a client that places only unplaced agents can reach.\<close>

inductive index_reachable :: "grid \<Rightarrow> grid_index \<Rightarrow> bool" for g where
  reach_new: "index_reachable g (index_new g)"
| reach_place: "index_reachable g gi \<Longrightarrow> position gi aid = None \<Longrightarrow>
    index_reachable g (snd (place aid r c gi))"
| reach_move: "index_reachable g gi \<Longrightarrow> index_reachable g (snd (move_to aid r c gi))"

lemma index_reachable_ok: "index_reachable g gi \<Longrightarrow> index_ok gi \<and> gi_grid gi = g"
  by (induction rule: index_reachable.induct) (simp_all add: index_new_def place_ok move_to_ok
      index_new_ok [unfolded index_new_def])

lemma occupant_position: "index_ok gi \<Longrightarrow> occupant gi r c = Some aid \<longleftrightarrow> position gi aid = Some (r, c)"
  by (auto simp: occupant_def position_def index_ok_position in_grid_def cell_idx_flat)

text \<open>
  C21: whatever sequence of placements of unplaced agents and of moves a client makes, successful
  or refused, the two structures mirror each other: an agent is the occupant of a cell exactly
  when that cell is its recorded position, so no two agents share a cell and none is in two.
\<close>

theorem occupancy_mirrors_positions:
  assumes "index_reachable g gi"
  shows "occupant gi r c = Some aid \<longleftrightarrow> position gi aid = Some (r, c)"
  using index_reachable_ok [OF assms] by (simp add: occupant_position)

theorem occupancy_mirrors_positions_witness:
  "\<forall>r c aid. occupant (snd (move_to (AgentId 7) 1 1 (snd (place (AgentId 7) 0 2
       (index_new (grid_new 2 3 Fixed)))))) r c = Some aid \<longleftrightarrow>
     position (snd (move_to (AgentId 7) 1 1 (snd (place (AgentId 7) 0 2
       (index_new (grid_new 2 3 Fixed)))))) aid = Some (r, c)"
proof -
  have "position (index_new (grid_new 2 3 Fixed)) (AgentId 7) = None"
    by (simp add: position_def index_new_def)
  then have "index_reachable (grid_new 2 3 Fixed) (snd (move_to (AgentId 7) 1 1
      (snd (place (AgentId 7) 0 2 (index_new (grid_new 2 3 Fixed))))))"
    by (intro reach_move reach_place reach_new)
  from occupancy_mirrors_positions [OF this] show ?thesis by blast
qed

lemma occupant_flat:
  "occupant gi r c =
     (if in_grid (gi_grid gi) (r, c) then gi_cells gi ! flat_index (gi_grid gi) (r, c) else None)"
  by (simp add: occupant_def in_grid_def cell_idx_flat)

text \<open>
  \<open>move_to\<close> of a placed agent to another cell of the grid is refused with the occupant's
  name when the cell is taken, changing nothing; otherwise it fills the target, vacates the old
  cell and changes no other cell and no other agent's position.
\<close>

theorem move_to_relocates:
  assumes "index_ok gi" and "position gi aid = Some old" and "r < rows (gi_grid gi)"
    and "c < cols (gi_grid gi)" and "old \<noteq> (r, c)"
  shows "case occupant gi r c of
      Some other \<Rightarrow> move_to aid r c gi = (Inl (CellOccupied r c other), gi)
    | None \<Rightarrow>
        fst (move_to aid r c gi) = Inr () \<and>
        position (snd (move_to aid r c gi)) = (position gi)(aid \<mapsto> (r, c)) \<and>
        (\<forall>r' c'. occupant (snd (move_to aid r c gi)) r' c' =
          (if (r', c') = (r, c) then Some aid else if (r', c') = old then None
           else occupant gi r' c'))"
proof -
  let ?g = "gi_grid gi"
  have target: "in_grid ?g (r, c)" using assms by (simp add: in_grid_def)
  have old: "in_grid ?g old" "gi_cells gi ! flat_index ?g old = Some aid"
    using assms(2) index_ok_position [OF assms(1)] by (auto simp: position_def)
  have len: "length (gi_cells gi) = grid_len ?g" by (rule index_ok_length [OF assms(1)])
  show ?thesis
  proof (cases "gi_cells gi ! flat_index ?g (r, c)")
    case None
    have eq: "move_to aid r c gi = (Inr (),
        gi\<lparr>gi_cells := list_update (list_update (gi_cells gi) (flat_index ?g old) None)
             (flat_index ?g (r, c)) (Some aid),
           gi_positions := (gi_positions gi)(aid \<mapsto> (r, c))\<rparr>)"
      using assms(2) target None
      by (simp add: move_to_def position_def check_bounds_in_grid cell_idx_flat Let_def)
    show ?thesis
      unfolding eq using target None old len
      by (auto simp: occupant_flat position_def nth_flat_update)
  next
    case (Some other)
    have "other \<noteq> aid"
      using Some target assms(2,5) index_ok_position [OF assms(1), of aid "(r, c)"]
      by (auto simp: position_def)
    then show ?thesis
      using Some target assms(2)
      by (simp add: occupant_flat move_to_def position_def check_bounds_in_grid cell_idx_flat Let_def)
  qed
qed

lemma place_new_position:
  "position (snd (place aid 0 0 (index_new (grid_new 2 2 Fixed)))) aid = Some (0, 0)"
  by (simp add: place_def index_new_def grid_new_def check_bounds_def cell_idx_def position_def
      grid_len_def Let_def)

theorem move_to_relocates_witness:
  "position (snd (move_to (AgentId 1) 1 1
     (snd (place (AgentId 1) 0 0 (index_new (grid_new 2 2 Fixed)))))) (AgentId 1) = Some (1, 1)"
proof -
  let ?gi = "snd (place (AgentId 1) 0 0 (index_new (grid_new 2 2 Fixed)))"
  have ok: "index_ok ?gi" by (rule place_ok [OF index_new_ok]) (simp add: position_def index_new_def)
  have g: "gi_grid ?gi = \<lparr>rows = 2, cols = 2, boundary_of = Fixed\<rparr>"
    by (simp add: index_new_def grid_new_def)
  have vacant: "occupant ?gi 1 1 = None"
    by (simp add: place_def index_new_def grid_new_def check_bounds_def cell_idx_def occupant_def
        grid_len_def Let_def)
  show ?thesis
    using move_to_relocates [OF ok place_new_position, of 1 1] vacant unfolding g by simp
qed

text \<open>
  placing an agent twice, first at \<open>(r0, c0)\<close> and then at \<open>(r1, c1)\<close>, and asking \<open>move_to\<close>
  to bring it back to \<open>(r0, c0)\<close> reports success and changes nothing: the agent's position is
  still \<open>(r1, c1)\<close>, and it occupies both cells. The shortcut for "same agent, same cell" looks
  only at the occupant of the target.
\<close>

theorem move_to_after_second_place:
  assumes "index_ok gi" and "position gi aid = None" and "(r0, c0) \<noteq> (r1, c1)"
    and "r0 < rows (gi_grid gi)" "c0 < cols (gi_grid gi)" "occupant gi r0 c0 = None"
    and "r1 < rows (gi_grid gi)" "c1 < cols (gi_grid gi)" "occupant gi r1 c1 = None"
  shows "let gi2 = snd (place aid r1 c1 (snd (place aid r0 c0 gi)))
    in move_to aid r0 c0 gi2 = (Inr (), gi2) \<and> position gi2 aid = Some (r1, c1) \<and>
       occupant gi2 r0 c0 = Some aid \<and> occupant gi2 r1 c1 = Some aid"
proof -
  let ?g = "gi_grid gi"
  have in0: "in_grid ?g (r0, c0)" and in1: "in_grid ?g (r1, c1)"
    using assms by (simp_all add: in_grid_def)
  have len: "length (gi_cells gi) = grid_len ?g" by (rule index_ok_length [OF assms(1)])
  have neq: "\<not> (r1 = r0 \<and> c1 = c0)" "\<not> (r0 = r1 \<and> c0 = c1)" using assms(3) by auto
  have p0: "place aid r0 c0 gi = (Inr (),
      gi\<lparr>gi_cells := list_update (gi_cells gi) (flat_index ?g (r0, c0)) (Some aid),
         gi_positions := (gi_positions gi)(aid \<mapsto> (r0, c0))\<rparr>)"
    using in0 assms(6) by (simp add: place_def check_bounds_in_grid cell_idx_flat occupant_flat Let_def)
  have p1: "place aid r1 c1 (snd (place aid r0 c0 gi)) = (Inr (),
      gi\<lparr>gi_cells := list_update (list_update (gi_cells gi) (flat_index ?g (r0, c0)) (Some aid))
           (flat_index ?g (r1, c1)) (Some aid),
         gi_positions := (gi_positions gi)(aid \<mapsto> (r1, c1))\<rparr>)"
    unfolding p0 using in0 in1 assms(9) neq len
    by (simp add: place_def check_bounds_in_grid cell_idx_flat occupant_flat Let_def nth_flat_update)
  show ?thesis
    unfolding p1 Let_def using in0 in1 neq len
    by (simp add: move_to_def position_def check_bounds_in_grid cell_idx_flat occupant_flat Let_def
        nth_flat_update)
qed

theorem move_to_after_second_place_witness:
  "let gi2 = snd (place (AgentId 1) 0 1 (snd (place (AgentId 1) 0 0 (index_new (grid_new 2 2 Fixed)))))
   in move_to (AgentId 1) 0 0 gi2 = (Inr (), gi2) \<and> position gi2 (AgentId 1) = Some (0, 1) \<and>
      occupant gi2 0 0 = Some (AgentId 1) \<and> occupant gi2 0 1 = Some (AgentId 1)"
  by (rule move_to_after_second_place [OF index_new_ok])
    (simp_all add: index_new_def grid_new_def position_def occupant_def
      cell_idx_def grid_len_def)

subsection \<open>The nearest vacant cell\<close>

lemma vacant_cells_eq:
  assumes "length (gi_cells gi) = grid_len (gi_grid gi)"
  shows "vacant_cells gi = filter (\<lambda>(r, c). occupant gi r c = None) (grid_cells (gi_grid gi))"
proof -
  let ?g = "gi_grid gi"
  let ?cell = "\<lambda>i. (i div cols ?g, i mod cols ?g)"
  have enum: "List.enumerate 0 (gi_cells gi) = map (\<lambda>i. (i, gi_cells gi ! i)) [0..<grid_len ?g]"
    by (rule nth_equalityI) (simp_all add: assms nth_enumerate_eq)
  have occ: "occupant gi (i div cols ?g) (i mod cols ?g) = gi_cells gi ! i" if "i < grid_len ?g" for i
    using flat_index_onto [OF that] by (simp add: occupant_flat)
  have "vacant_cells gi = map ?cell (filter (\<lambda>i. gi_cells gi ! i = None) [0..<grid_len ?g])"
    by (simp add: vacant_cells_def enum filter_map comp_def)
  also have "\<dots> = map ?cell (filter (\<lambda>i. occupant gi (i div cols ?g) (i mod cols ?g) = None) [0..<grid_len ?g])"
    by (intro arg_cong [where f = "map ?cell"] filter_cong) (simp_all add: occ)
  also have "\<dots> = filter (\<lambda>(r, c). occupant gi r c = None) (grid_cells ?g)"
    by (simp add: grid_cells_enum filter_map comp_def)
  finally show ?thesis .
qed

text \<open>The first of the minimal elements of a list.\<close>

definition first_min :: "('a \<Rightarrow> 'f::linorder) \<Rightarrow> 'a list \<Rightarrow> 'a \<Rightarrow> bool" where
  "first_min dist xs x \<longleftrightarrow>
     (\<exists>ys zs. xs = ys @ x # zs \<and> (\<forall>y \<in> set ys. dist x < dist y) \<and> (\<forall>z \<in> set zs. dist x \<le> dist z))"

lemma first_min_extend:
  assumes "first_min dist xs x"
  shows "first_min dist (xs @ [c]) (if dist c < dist x then c else x)"
proof -
  obtain ys zs where xs: "xs = ys @ x # zs" "\<forall>y \<in> set ys. dist x < dist y" "\<forall>z \<in> set zs. dist x \<le> dist z"
    using assms by (auto simp: first_min_def)
  show ?thesis
  proof (cases "dist c < dist x")
    case True
    then have "\<forall>y \<in> set xs. dist c < dist y" using xs by (auto dest: less_le_trans intro: less_trans)
    with True show ?thesis unfolding first_min_def by (intro exI [of _ xs] exI [of _ "[]"]) simp
  next
    case False
    with xs show ?thesis
      unfolding first_min_def by (intro exI [of _ ys] exI [of _ "zs @ [c]"]) auto
  qed
qed

lemma nearest_fold:
  "case fold (nearest_update dist) xs None of
     None \<Rightarrow> xs = []
   | Some (x, d) \<Rightarrow> d = dist x \<and> first_min dist xs x"
proof (induction xs rule: rev_induct)
  case (snoc c xs)
  show ?case
  proof (cases "fold (nearest_update dist) xs None")
    case None
    with snoc have "xs = []" by simp
    moreover have "first_min dist [c] c" unfolding first_min_def by fastforce
    ultimately show ?thesis by (simp add: nearest_update_def Let_def)
  next
    case (Some best)
    obtain x d where best: "best = (x, d)" by fastforce
    with snoc Some have "d = dist x" "first_min dist xs x" by simp_all
    then show ?thesis
      using first_min_extend [of dist xs x c] Some best
      by (auto simp: nearest_update_def [of dist c] Let_def split: if_splits)
  qed
qed simp

lemma first_min_sorted:
  assumes "first_min dist xs x" "sorted xs" "y \<in> set xs"
  shows "dist x < dist y \<or> (dist x = dist y \<and> x \<le> y)"
  using assms by (fastforce simp: first_min_def sorted_append)

text \<open>
  \<open>nearest_vacant\<close> returns nothing exactly when no cell of the grid is vacant; otherwise it
  returns a vacant cell such that every other vacant cell is farther, or as far and later in
  row-major order.
\<close>

theorem nearest_vacant_nearest:
  assumes "index_reachable g gi"
  shows "case nearest_vacant of_usize sqrt_f gi origin m of
      None \<Rightarrow> (\<forall>r < rows g. \<forall>c < cols g. occupant gi r c \<noteq> None)
    | Some (r, c) \<Rightarrow> r < rows g \<and> c < cols g \<and> occupant gi r c = None \<and>
        (\<forall>r' < rows g. \<forall>c' < cols g. occupant gi r' c' = None \<longrightarrow>
          (let d = distance of_usize sqrt_f g m origin (r, c);
               d' = distance of_usize sqrt_f g m origin (r', c')
           in d < d' \<or> (d = d' \<and> (r, c) \<le> (r', c'))))"
proof -
  have ok: "index_ok gi" "gi_grid gi = g" using index_reachable_ok [OF assms] by simp_all
  define vac where "vac = filter (\<lambda>(r, c). occupant gi r c = None) (grid_cells g)"
  have vac: "vacant_cells gi = vac" "sorted vac"
    "set vac = {(r, c). r < rows g \<and> c < cols g \<and> occupant gi r c = None}"
    using vacant_cells_eq [OF index_ok_length [OF ok(1)]] ok(2)
    by (auto simp: vac_def in_grid_def sorted_wrt_filter)
  let ?dist = "distance of_usize sqrt_f g m origin"
  note spec = nearest_fold [where dist = ?dist and xs = vac]
  show ?thesis
  proof (cases "fold (nearest_update ?dist) vac None")
    case None
    with spec have "vac = []" by simp
    then have "\<not> (r < rows g \<and> c < cols g \<and> occupant gi r c = None)" for r c
      using vac(3) by (metis (mono_tags, lifting) case_prodI empty_iff list.set(1) mem_Collect_eq)
    moreover have "nearest_vacant of_usize sqrt_f gi origin m = None"
      using None by (simp add: nearest_vacant_def vac(1) ok(2))
    ultimately show ?thesis by auto
  next
    case (Some best)
    obtain r c where rc: "fst best = (r, c)" by fastforce
    have fm: "first_min ?dist vac (r, c)" using spec Some rc by (simp add: case_prod_beta)
    then have "(r, c) \<in> set vac" by (auto simp: first_min_def)
    moreover have "?dist (r, c) < ?dist (r', c') \<or> (?dist (r, c) = ?dist (r', c') \<and> (r, c) \<le> (r', c'))"
      if "(r', c') \<in> set vac" for r' c'
      using first_min_sorted [OF fm vac(2) that] .
    moreover have "nearest_vacant of_usize sqrt_f gi origin m = Some (r, c)"
      using Some rc by (simp add: nearest_vacant_def vac(1) ok(2))
    ultimately show ?thesis unfolding vac(3) Let_def by auto
  qed
qed

theorem nearest_vacant_nearest_witness:
  "case nearest_vacant (\<lambda>n. n) (\<lambda>n. n) (snd (place (AgentId 0) 0 0 (index_new (grid_new 1 3 Toroidal))))
        (0, 0) Manhattan of
      None \<Rightarrow> False
    | Some (r, c) \<Rightarrow> (r, c) = (0, 1)"
proof -
  let ?gi = "snd (place (AgentId 0) 0 0 (index_new (grid_new 1 3 Toroidal)))"
  have "index_reachable (grid_new 1 3 Toroidal) ?gi"
    by (intro reach_place reach_new) (simp add: position_def index_new_def)
  note spec = nearest_vacant_nearest [OF this, where of_usize = "\<lambda>n. n" and sqrt_f = "\<lambda>n. n" and
      origin = "(0, 0)" and m = Manhattan]
  have occ: "occupant ?gi r c = (if r = 0 \<and> c = 0 then Some (AgentId 0) else None)" if "r < 1" "c < 3" for r c
    using that by (auto simp: place_def index_new_def grid_new_def check_bounds_def cell_idx_def
        occupant_def grid_len_def Let_def nth_Cons' numeral_3_eq_3)
  have d: "distance (\<lambda>n. n) (\<lambda>n. n) (grid_new 1 3 Toroidal) Manhattan (0, 0) (0, c) = (if c = 0 then 0 else 1)"
    if "c < 3" for c
    using that by (auto simp: distance_def grid_new_def combine_def toroidal_diff_def abs_diff_def
        Let_def min_def)
  have free: "occupant ?gi 0 1 = None" using occ [of 0 1] by simp
  have size: "rows (grid_new 1 3 Toroidal) = 1" "cols (grid_new 1 3 Toroidal) = 3"
    by (simp_all add: grid_new_def)
  show ?thesis
  proof (cases "nearest_vacant (\<lambda>n. n) (\<lambda>n. n) ?gi (0, 0) Manhattan")
    case None
    have "occupant ?gi 0 1 \<noteq> None" using spec unfolding None size by simp
    with free show ?thesis by blast
  next
    case (Some rc)
    obtain r c where rc: "rc = (r, c)" by fastforce
    note spec' = spec [unfolded Some rc option.case prod.case size]
    have "r = 0" "c < 3" "occupant ?gi r c = None"
      using spec' by auto
    moreover note spec' [THEN conjunct2, THEN conjunct2, THEN conjunct2, rule_format, of 0 1, OF _ _ free]
    ultimately have "r = 0 \<and> c = 1"
      using occ [of r c] d [of c] d [of 1] by (auto simp: Let_def split: if_splits)
    then show ?thesis unfolding Some rc by simp
  qed
qed

subsection \<open>Per-cell state\<close>

lemma resolve_in_grid: "resolve g r c = Some cell \<Longrightarrow> in_grid g cell"
  by (auto simp: resolve_def in_grid_def in_bounds_def wrap_less split: if_splits boundary.splits)

lemma neighbors_in_grid: "cell \<in> set (neighbors g r c nbhd) \<Longrightarrow> in_grid g cell"
  by (auto simp: neighbors_def neighbors_into_def neighbors_radius_into_def Let_def
      set_map_filter_Some offset_cell_Some resolve_in_grid split: if_splits)

lemma cg_get_from_fn:
  "cg_get (cell_grid_from_fn g f) r c = (if in_grid g (r, c) then Some (f r c) else None)"
  using flat_index_less [of g "(r, c)"] flat_index_div_mod [of g "(r, c)"]
  by (auto simp: cg_get_def cell_grid_from_fn_def cg_index_def in_grid_def get_opt_def flat_index_def)

lemma map_filter_total: "(\<And>x. x \<in> set xs \<Longrightarrow> f x = Some (h x)) \<Longrightarrow> List.map_filter f xs = map h xs"
  by (induction xs) (simp_all add: List.map_filter_simps)

lemma cg_neighbor_values_from_fn:
  "cg_neighbor_values (cell_grid_from_fn g f) r c nbhd = map (\<lambda>(r, c). f r c) (neighbors g r c nbhd)"
  unfolding cg_neighbor_values_def
  by (subst map_filter_total [where h = "\<lambda>(r, c). f r c"])
    (use neighbors_in_grid in \<open>auto simp: cg_get_from_fn, auto simp: cell_grid_from_fn_def\<close>)

lemma cg_get_get_mut:
  assumes "cg_get_mut cg r c v = Some cg'" "length (cg_cells cg) = grid_len (cg_grid cg)"
  shows "cg_get cg' r' c' = (if (r', c') = (r, c) then Some v else cg_get cg r' c')"
proof -
  have rc: "in_grid (cg_grid cg) (r, c)" and cg': "cg' = cg\<lparr>cg_cells := list_update (cg_cells cg) (flat_index (cg_grid cg) (r, c)) v\<rparr>"
    using assms(1) by (auto simp: cg_get_mut_def in_grid_def cg_index_def flat_index_def split: if_splits)
  show ?thesis
    using rc assms(2) flat_index_less [OF rc] nth_flat_update [of "cg_cells cg" "cg_grid cg" "(r, c)" "(r', c')" v]
    by (auto simp: cg' cg_get_def cg_index_def get_opt_def in_grid_def flat_index_def)
qed

end
