(* ===== verification/Histories.thy ===== *)
theory Histories
  imports Core "HOL-Library.Product_Lexorder"
begin

section \<open>Bounded histories (crates/socsim-games/src/world)\<close>

text \<open>
  Three structures of the game world keep the most recent records in a ring: \<open>StepHistory\<close> (one
  flat vector, a row per agent and one shared head), \<open>PairRing\<close> inside \<open>PairHistory\<close> (slots that
  start as \<open>None\<close>), and \<open>AggregateTable\<close> (a vector that grows until it is full). The locale
  \<open>bounded_ring\<close> is what their readers rely on: the chronological contents after a push are the
  last \<open>cap\<close> records of the history. It is interpreted on each of the three.
\<close>

subsection \<open>The contract\<close>

definition lastn :: "nat \<Rightarrow> 'a list \<Rightarrow> 'a list" where
  "lastn n xs = drop (length xs - n) xs"

lemma length_lastn [simp]: "length (lastn n xs) = min n (length xs)"
  by (simp add: lastn_def)

lemma lastn_all [simp]: "length xs \<le> n \<Longrightarrow> lastn n xs = xs"
  by (simp add: lastn_def)

lemma lastn_append_lastn: "lastn n (lastn n xs @ ys) = lastn n (xs @ ys)"
proof (cases "length xs \<le> n")
  case False
  then have "xs = take (length xs - n) xs @ lastn n xs" by (simp add: lastn_def)
  then show ?thesis using False by (auto simp: lastn_def add.commute)
qed simp

lemma last_lastn: "0 < n \<Longrightarrow> xs \<noteq> [] \<Longrightarrow> last (lastn n xs) = last xs"
  by (simp add: lastn_def)

lemma lastn_map: "lastn n (map f xs) = map f (lastn n xs)"
  by (simp add: lastn_def drop_map)

locale bounded_ring =
  fixes push :: "'x \<Rightarrow> 's \<Rightarrow> 's"
    and proj :: "'x \<Rightarrow> 'y"
    and contents :: "'s \<Rightarrow> 'y list"
    and cap :: "'s \<Rightarrow> nat"
    and ok :: "'s \<Rightarrow> bool"
    and fits :: "'s \<Rightarrow> 'x \<Rightarrow> bool"
  assumes ok_push: "ok s \<Longrightarrow> fits s x \<Longrightarrow> ok (push x s)"
    and cap_push: "ok s \<Longrightarrow> fits s x \<Longrightarrow> cap (push x s) = cap s"
    and fits_push: "ok s \<Longrightarrow> fits s x \<Longrightarrow> fits (push x s) y = fits s y"
    and contents_push:
      "ok s \<Longrightarrow> fits s x \<Longrightarrow> contents (push x s) = lastn (cap s) (contents s @ [proj x])"
    and cap_pos: "ok s \<Longrightarrow> 0 < cap s"
    and contents_cap: "ok s \<Longrightarrow> length (contents s) \<le> cap s"
begin

lemma pushes:
  assumes "ok s" "\<forall>x \<in> set xs. fits s x"
  shows "ok (fold push xs s) \<and> cap (fold push xs s) = cap s \<and>
    contents (fold push xs s) = lastn (cap s) (contents s @ map proj xs)"
  using assms
proof (induction xs arbitrary: s)
  case Nil
  then show ?case using contents_cap by simp
next
  case (Cons x xs)
  then have "ok (push x s)" "\<forall>y \<in> set xs. fits (push x s) y"
    using ok_push fits_push by simp_all
  from Cons.IH [OF this] show ?case
    using Cons.prems cap_push [of s x] contents_push [of s x]
      lastn_append_lastn [of "cap s" "contents s @ [proj x]" "map proj xs"] by simp
qed

lemma pushes_last:
  assumes "ok s" "\<forall>x \<in> set (xs @ [x]). fits s x"
  shows "contents (fold push (xs @ [x]) s) \<noteq> [] \<and> last (contents (fold push (xs @ [x]) s)) = proj x"
proof -
  have "contents (fold push (xs @ [x]) s) = lastn (cap s) (contents s @ map proj (xs @ [x]))"
    using pushes [OF assms] by simp
  then show ?thesis
    using cap_pos [OF assms(1)] by (simp add: last_lastn) (simp add: lastn_def)
qed

end

subsection \<open>One ring\<close>

text \<open>Writing at the head of a full-size vector and advancing, and the contents in order.\<close>

definition ring_ok :: "nat \<Rightarrow> nat \<Rightarrow> nat \<Rightarrow> 'a list \<Rightarrow> bool" where
  "ring_ok n head filled xs \<longleftrightarrow> 0 < n \<and> length xs = n \<and> head < n \<and> filled \<le> n \<and> (filled < n \<longrightarrow> head = filled)"

definition ring_contents :: "nat \<Rightarrow> nat \<Rightarrow> nat \<Rightarrow> 'a list \<Rightarrow> 'a list" where
  "ring_contents n head filled xs = (if filled < n then take filled xs else drop head xs @ take head xs)"

lemma ring_ok_write:
  "ring_ok n head filled xs \<Longrightarrow> ring_ok n ((head + 1) mod n) (min (filled + 1) n) (xs[head := x])"
  by (auto simp: ring_ok_def mod_Suc)

lemma length_ring_contents: "ring_ok n head filled xs \<Longrightarrow> length (ring_contents n head filled xs) = filled"
  by (auto simp: ring_ok_def ring_contents_def)

lemma ring_contents_write:
  assumes "ring_ok n head filled xs"
  shows "ring_contents n ((head + 1) mod n) (min (filled + 1) n) (xs[head := x]) =
    lastn n (ring_contents n head filled xs @ [x])"
proof (cases "filled < n")
  case True
  then have h: "head = filled" using assms by (simp add: ring_ok_def)
  have xs: "length xs = n" using assms by (simp add: ring_ok_def)
  have "take (Suc filled) (xs[filled := x]) = take filled xs @ [x]"
    using True xs by (simp add: take_Suc_conv_app_nth)
  then show ?thesis
    using True h xs by (auto simp: ring_contents_def mod_Suc le_Suc_eq not_less)
next
  case False
  then have full: "filled = n" "length xs = n" "head < n" using assms by (simp_all add: ring_ok_def)
  have old: "ring_contents n head filled xs = drop head xs @ take head xs"
    using False by (simp add: ring_contents_def)
  have "lastn n (drop head xs @ take head xs @ [x]) = drop (Suc head) xs @ take head xs @ [x]"
    using full by (simp add: lastn_def drop_Suc [symmetric] Suc_diff_le flip: Cons_nth_drop_Suc)
  moreover have "ring_contents n ((head + 1) mod n) n (xs[head := x]) = drop (Suc head) xs @ take head xs @ [x]"
    using full by (cases "Suc head = n")
      (auto simp: ring_contents_def take_Suc_conv_app_nth upd_conv_take_nth_drop)
  ultimately show ?thesis using full old by simp
qed

lemma ring_index:
  assumes "ring_ok n head filled xs"
  shows "ring_contents n head filled xs =
    map (\<lambda>offset. xs ! (((if filled = n then head else 0) + offset) mod n)) [0..<filled]"
proof (rule nth_equalityI)
  show "length (ring_contents n head filled xs) =
      length (map (\<lambda>offset. xs ! (((if filled = n then head else 0) + offset) mod n)) [0..<filled])"
    using length_ring_contents [OF assms] by simp
next
  fix i assume "i < length (ring_contents n head filled xs)"
  then have i: "i < filled" using length_ring_contents [OF assms] by simp
  show "ring_contents n head filled xs ! i =
      map (\<lambda>offset. xs ! (((if filled = n then head else 0) + offset) mod n)) [0..<filled] ! i"
  proof (cases "filled = n")
    case True
    show ?thesis
    proof (cases "head + i < n")
      case False
      have "head + i - n < n" using i True assms by (simp add: ring_ok_def) linarith
      with False have "(head + i) mod n = head + i - n"
        using le_mod_geq [of n "head + i"] by simp
      then show ?thesis
        using False i True assms
        by (auto simp: ring_contents_def ring_ok_def nth_append add.commute)
    qed (use i True assms in \<open>auto simp: ring_contents_def ring_ok_def nth_append\<close>)
  qed (use i assms in \<open>simp add: ring_contents_def ring_ok_def\<close>)
qed

subsection \<open>StepHistory\<close>

record ('a, 'f) step_record =
  sr_action :: "'a option"
  sr_payoff :: 'f
  sr_n_played :: nat

record ('a, 'f) step_history =
  sh_history_len :: nat
  sh_n_agents :: nat
  sh_head :: nat
  sh_filled :: nat
  sh_data :: "('a, 'f) step_record list"

definition step_history_new :: "'f \<Rightarrow> nat \<Rightarrow> nat \<Rightarrow> ('a, 'f) step_history" where
  "step_history_new zero n_agents history_len =
     (let empty = \<lparr>sr_action = None, sr_payoff = zero, sr_n_played = 0\<rparr>
      in \<lparr>sh_history_len = history_len, sh_n_agents = n_agents, sh_head = 0, sh_filled = 0,
          sh_data = replicate (saturating_mul n_agents history_len) empty\<rparr>)"

text \<open>\<open>*slot.get(agent) = record\<close> through the writer that \<open>next_slot_mut\<close> returns.\<close>

definition slot_write :: "nat \<Rightarrow> ('a, 'f) step_record \<Rightarrow> ('a, 'f) step_history \<Rightarrow> ('a, 'f) step_history" where
  "slot_write agent rec h =
     h\<lparr>sh_data := list_update (sh_data h) (agent * sh_history_len h + sh_head h) rec\<rparr>"

definition slot_get :: "nat \<Rightarrow> ('a, 'f) step_history \<Rightarrow> ('a, 'f) step_record" where
  "slot_get agent h = sh_data h ! (agent * sh_history_len h + sh_head h)"

definition slot_commit :: "('a, 'f) step_history \<Rightarrow> ('a, 'f) step_history" where
  "slot_commit h =
     h\<lparr>sh_head := (sh_head h + 1) mod sh_history_len h,
       sh_filled := min (sh_filled h + 1) (sh_history_len h)\<rparr>"

record 't history_view =
  hv_front :: "'t list"
  hv_back :: "'t list"

definition history_view :: "agent_id \<Rightarrow> ('a, 'f) step_history \<Rightarrow> ('a, 'f) step_record history_view option" where
  "history_view agent h =
     (if agent_no agent \<ge> sh_n_agents h then None
      else
        let row = take (sh_history_len h) (drop (agent_no agent * sh_history_len h) (sh_data h))
        in if sh_filled h < sh_history_len h
           then Some \<lparr>hv_front = take (sh_filled h) row, hv_back = []\<rparr>
           else Some \<lparr>hv_front = drop (sh_head h) row, hv_back = take (sh_head h) row\<rparr>)"

definition hv_len :: "'t history_view \<Rightarrow> nat" where
  "hv_len v = length (hv_front v) + length (hv_back v)"

definition hv_is_empty :: "'t history_view \<Rightarrow> bool" where
  "hv_is_empty v \<longleftrightarrow> hv_front v = [] \<and> hv_back v = []"

definition hv_iter :: "'t history_view \<Rightarrow> 't list" where
  "hv_iter v = hv_front v @ hv_back v"

definition hv_last :: "'t history_view \<Rightarrow> 't option" where
  "hv_last v =
     (if hv_back v \<noteq> [] then Some (last (hv_back v))
      else if hv_front v \<noteq> [] then Some (last (hv_front v)) else None)"

definition peer_actions :: "('a, 'f) step_record history_view \<Rightarrow> 'a option list" where
  "peer_actions v = map sr_action (hv_iter v)"

definition peer_last :: "('a, 'f) step_record history_view \<Rightarrow> 'a option option" where
  "peer_last v = map_option sr_action (hv_last v)"

text \<open>A step of the play mechanism: every row of the slot is written, then the slot committed.\<close>

definition write_step :: "('a, 'f) step_record list \<Rightarrow> ('a, 'f) step_history \<Rightarrow> ('a, 'f) step_history" where
  "write_step recs h = slot_commit (fold (\<lambda>(i, rec). slot_write i rec) (List.enumerate 0 recs) h)"

definition step_history_ok :: "('a, 'f) step_history \<Rightarrow> bool" where
  "step_history_ok h \<longleftrightarrow>
     ring_ok (sh_history_len h) (sh_head h) (sh_filled h) (replicate (sh_history_len h) ()) \<and>
     length (sh_data h) = sh_n_agents h * sh_history_len h"

definition history_row :: "nat \<Rightarrow> ('a, 'f) step_history \<Rightarrow> ('a, 'f) step_record list" where
  "history_row agent h = take (sh_history_len h) (drop (agent * sh_history_len h) (sh_data h))"

definition history_contents :: "nat \<Rightarrow> ('a, 'f) step_history \<Rightarrow> ('a, 'f) step_record list" where
  "history_contents agent h =
     ring_contents (sh_history_len h) (sh_head h) (sh_filled h) (history_row agent h)"

lemma step_history_new_ok:
  "0 < history_len \<Longrightarrow> n_agents * history_len \<le> usize_max \<Longrightarrow>
   step_history_ok (step_history_new zero n_agents history_len)"
  by (simp add: step_history_ok_def step_history_new_def Let_def ring_ok_def)

lemma length_history_row:
  "step_history_ok h \<Longrightarrow> agent < sh_n_agents h \<Longrightarrow> length (history_row agent h) = sh_history_len h"
proof -
  assume ok: "step_history_ok h" and "agent < sh_n_agents h"
  then have "(agent + 1) * sh_history_len h \<le> sh_n_agents h * sh_history_len h"
    by (intro mult_le_mono1) simp
  with ok show ?thesis by (simp add: history_row_def step_history_ok_def)
qed

lemma history_ring_ok:
  "step_history_ok h \<Longrightarrow> agent < sh_n_agents h \<Longrightarrow>
   ring_ok (sh_history_len h) (sh_head h) (sh_filled h) (history_row agent h)"
  using length_history_row [of h agent] by (simp add: step_history_ok_def ring_ok_def)

lemma history_view_contents:
  "agent_no agent < sh_n_agents h \<Longrightarrow>
   \<exists>v. history_view agent h = Some v \<and> hv_iter v = history_contents (agent_no agent) h"
  by (auto simp: history_view_def history_contents_def history_row_def ring_contents_def hv_iter_def
      Let_def)

lemma hv_last_iter: "hv_last v = (if hv_iter v = [] then None else Some (last (hv_iter v)))"
  by (simp add: hv_last_def hv_iter_def)

lemma history_row_write:
  assumes "sh_head h < sh_history_len h"
  shows "history_row j (slot_write i rec h) =
    (if j = i then list_update (history_row j h) (sh_head h) rec else history_row j h)"
proof -
  let ?L = "sh_history_len h"
  consider "j = i" | "j < i" | "i < j" by linarith
  then show ?thesis
  proof cases
    case 1
    then show ?thesis
      by (simp add: history_row_def slot_write_def drop_update_swap take_update_swap)
  next
    case 2
    then have "(j + 1) * ?L \<le> i * ?L" by (intro mult_le_mono1) simp
    then have "j * ?L \<le> i * ?L + sh_head h" "?L \<le> i * ?L + sh_head h - j * ?L" by simp_all
    with 2 show ?thesis
      by (simp add: history_row_def slot_write_def drop_update_swap take_update_cancel)
  next
    case 3
    then have "(i + 1) * ?L \<le> j * ?L" by (intro mult_le_mono1) simp
    then have "i * ?L + sh_head h < j * ?L" using assms by simp
    with 3 show ?thesis
      by (simp add: history_row_def slot_write_def drop_update_cancel)
  qed
qed

abbreviation write_all :: "('a, 'f) step_record list \<Rightarrow> ('a, 'f) step_history \<Rightarrow> ('a, 'f) step_history" where
  "write_all recs \<equiv> fold (\<lambda>(i, rec). slot_write i rec) (List.enumerate 0 recs)"

lemma write_all_frame:
  "sh_history_len (write_all recs h) = sh_history_len h \<and> sh_n_agents (write_all recs h) = sh_n_agents h \<and>
   sh_head (write_all recs h) = sh_head h \<and> sh_filled (write_all recs h) = sh_filled h \<and>
   length (sh_data (write_all recs h)) = length (sh_data h)"
  by (induction recs rule: rev_induct) (simp_all add: enumerate_append_eq slot_write_def)

lemma history_row_write_all:
  assumes "sh_head h < sh_history_len h" "agent < length recs"
  shows "history_row agent (write_all recs h) = list_update (history_row agent h) (sh_head h) (recs ! agent)"
proof -
  have "history_row agent (write_all recs h) =
      (if agent < length recs then list_update (history_row agent h) (sh_head h) (recs ! agent)
       else history_row agent h)"
  proof (induction recs rule: rev_induct)
    case (snoc rec recs)
    then show ?case
      using assms(1) write_all_frame [of recs h]
      by (auto simp: enumerate_append_eq history_row_write nth_append)
  qed simp
  with assms(2) show ?thesis by simp
qed

lemma history_row_commit [simp]: "history_row agent (slot_commit h) = history_row agent h"
  by (simp add: history_row_def slot_commit_def)

text \<open>A slot being written: every row below \<open>n\<close> holds the old records with its new one at the head.\<close>

definition slot_holds :: "('a, 'f) step_history \<Rightarrow> (nat \<Rightarrow> ('a, 'f) step_record) \<Rightarrow> ('a, 'f) step_history \<Rightarrow> bool" where
  "slot_holds h0 f h \<longleftrightarrow>
     sh_history_len h = sh_history_len h0 \<and> sh_n_agents h = sh_n_agents h0 \<and> sh_head h = sh_head h0 \<and>
     sh_filled h = sh_filled h0 \<and> length (sh_data h) = length (sh_data h0) \<and>
     (\<forall>j < sh_n_agents h0. history_row j h = list_update (history_row j h0) (sh_head h0) (f j))"

lemma slot_holds_write:
  assumes "step_history_ok h0" "slot_holds h0 f h" "i < sh_n_agents h0"
  shows "slot_holds h0 (f(i := r)) (slot_write i r h)"
proof -
  have "sh_head h < sh_history_len h"
    using assms(1,2) by (simp add: slot_holds_def step_history_ok_def ring_ok_def)
  note row = history_row_write [OF this]
  have "slot_write i r h = h\<lparr>sh_data := sh_data (slot_write i r h)\<rparr>" "length (sh_data (slot_write i r h)) = length (sh_data h)"
    by (simp_all add: slot_write_def)
  then show ?thesis
    using assms row [of _ i r] by (auto simp: slot_holds_def slot_write_def)
qed

lemma slot_holds_get:
  assumes "step_history_ok h0" "slot_holds h0 f h" "i < sh_n_agents h0"
  shows "slot_get i h = f i"
proof -
  let ?L = "sh_history_len h"
  have head: "sh_head h < ?L" and data: "length (sh_data h) = sh_n_agents h * ?L" and eq: "sh_n_agents h = sh_n_agents h0"
      "sh_head h = sh_head h0" "sh_history_len h = sh_history_len h0"
    using assms(1,2) by (auto simp: slot_holds_def step_history_ok_def ring_ok_def)
  have "i * ?L \<le> length (sh_data h)" unfolding data using assms(3) eq by (intro mult_le_mono1) simp
  then have "slot_get i h = history_row i h ! sh_head h"
    using head by (simp add: slot_get_def history_row_def)
  also have "\<dots> = f i"
    using assms(2,3) head eq length_history_row [OF assms(1,3)] by (simp add: slot_holds_def)
  finally show ?thesis .
qed

lemma slot_holds_commit:
  assumes "step_history_ok h0" "slot_holds h0 f h" "i < sh_n_agents h0"
  shows "history_contents i (slot_commit h) = lastn (sh_history_len h0) (history_contents i h0 @ [f i])"
  using assms(2,3) ring_contents_write [OF history_ring_ok [OF assms(1,3)], of "f i"]
  by (simp add: slot_holds_def history_contents_def) (simp add: slot_commit_def)

definition step_fits :: "('a, 'f) step_history \<Rightarrow> ('a, 'f) step_record list \<Rightarrow> bool" where
  "step_fits h recs \<longleftrightarrow> length recs = sh_n_agents h"

lemma write_step_frame:
  "sh_history_len (write_step recs h) = sh_history_len h \<and> sh_n_agents (write_step recs h) = sh_n_agents h \<and>
   sh_head (write_step recs h) = (sh_head h + 1) mod sh_history_len h \<and>
   sh_filled (write_step recs h) = min (sh_filled h + 1) (sh_history_len h) \<and>
   length (sh_data (write_step recs h)) = length (sh_data h)"
  using write_all_frame [of recs h] by (simp add: write_step_def slot_commit_def)

lemma write_step_ok: "step_history_ok h \<Longrightarrow> step_history_ok (write_step recs h)"
  using write_step_frame [of recs h] ring_ok_write [of "sh_history_len h" "sh_head h" "sh_filled h"
      "replicate (sh_history_len h) ()"]
  by (auto simp: step_history_ok_def ring_ok_def mod_Suc)

lemma write_step_contents:
  assumes "step_history_ok h" "step_fits h recs" "agent < sh_n_agents h"
  shows "history_contents agent (write_step recs h) =
    lastn (sh_history_len h) (history_contents agent h @ [recs ! agent])"
proof -
  have "sh_head h < sh_history_len h" using assms(1) by (simp add: step_history_ok_def ring_ok_def)
  then have "history_row agent (write_step recs h) =
      list_update (history_row agent h) (sh_head h) (recs ! agent)"
    using assms(2,3) by (simp add: write_step_def step_fits_def history_row_write_all)
  then show ?thesis
    using ring_contents_write [OF history_ring_ok [OF assms(1,3)]] write_step_frame [of recs h]
    by (simp add: history_contents_def)
qed

interpretation step_ring: bounded_ring
  write_step "\<lambda>recs. recs ! agent" "history_contents agent" sh_history_len
  "\<lambda>h. step_history_ok h \<and> agent < sh_n_agents h" step_fits
  for agent :: nat
proof unfold_locales
  fix h :: "('a, 'f) step_history" and recs y
  assume ok: "step_history_ok h \<and> agent < sh_n_agents h"
  show "0 < sh_history_len h" using ok by (simp add: step_history_ok_def ring_ok_def)
  show "length (history_contents agent h) \<le> sh_history_len h"
    using ok length_ring_contents [OF history_ring_ok, of h agent]
    by (simp add: history_contents_def step_history_ok_def ring_ok_def)
  assume fits: "step_fits h recs"
  show "step_history_ok (write_step recs h) \<and> agent < sh_n_agents (write_step recs h)"
    using ok write_step_ok [of h recs] write_step_frame [of recs h] by simp
  show "sh_history_len (write_step recs h) = sh_history_len h" using write_step_frame [of recs h] by simp
  show "step_fits (write_step recs h) y = step_fits h y"
    using write_step_frame [of recs h] by (simp add: step_fits_def)
  show "history_contents agent (write_step recs h) =
      lastn (sh_history_len h) (history_contents agent h @ [recs ! agent])"
    using ok fits by (intro write_step_contents) simp_all
qed

lemma history_contents_new [simp]:
  "0 < history_len \<Longrightarrow> history_contents agent (step_history_new zero n_agents history_len) = []"
  by (simp add: history_contents_def step_history_new_def Let_def ring_contents_def)

text \<open>
  C16: after any sequence of steps, each written for all agents, an agent's view lists, oldest
  first, exactly that agent's records of the last \<open>history_len\<close> steps.
\<close>

theorem step_history_keeps_last:
  fixes steps :: "('a, 'f) step_record list list" and zero :: 'f
  assumes "0 < history_len" "n_agents * history_len \<le> usize_max" "agent_no agent < n_agents"
    and "\<forall>recs \<in> set steps. length recs = n_agents"
  shows "map_option hv_iter (history_view agent (fold write_step steps (step_history_new zero n_agents history_len))) =
    Some (lastn history_len (map (\<lambda>recs. recs ! agent_no agent) steps))"
proof -
  let ?h = "step_history_new zero n_agents history_len :: ('a, 'f) step_history"
  let ?h' = "fold write_step steps ?h"
  have frame: "sh_n_agents ?h = n_agents" "sh_history_len ?h = history_len"
    by (simp_all add: step_history_new_def Let_def)
  have ok: "step_history_ok ?h \<and> agent_no agent < sh_n_agents ?h"
    using assms step_history_new_ok frame by simp
  have fits: "\<forall>recs \<in> set steps. step_fits ?h recs" using assms(4) frame by (simp add: step_fits_def)
  note after = step_ring.pushes [OF ok fits]
  then have "agent_no agent < sh_n_agents ?h'" by simp
  from history_view_contents [OF this] obtain v where
    "history_view agent ?h' = Some v" "hv_iter v = history_contents (agent_no agent) ?h'" by blast
  with after frame assms(1) show ?thesis by simp
qed

theorem step_history_keeps_last_witness:
  "map_option hv_iter (history_view (AgentId 1) (fold write_step
      [[\<lparr>sr_action = Some 10, sr_payoff = 0, sr_n_played = 1\<rparr>, \<lparr>sr_action = None, sr_payoff = 0, sr_n_played = 0\<rparr>],
       [\<lparr>sr_action = Some 11, sr_payoff = 0, sr_n_played = 1\<rparr>, \<lparr>sr_action = Some 21, sr_payoff = 5, sr_n_played = 1\<rparr>],
       [\<lparr>sr_action = Some 12, sr_payoff = 0, sr_n_played = 1\<rparr>, \<lparr>sr_action = Some 22, sr_payoff = 6, sr_n_played = 1\<rparr>]]
      (step_history_new (0::nat) 2 2))) =
    Some [\<lparr>sr_action = Some 21, sr_payoff = 5, sr_n_played = 1\<rparr>,
          \<lparr>sr_action = Some (22::nat), sr_payoff = 6, sr_n_played = 1\<rparr>]"
  by (subst step_history_keeps_last) (simp_all add: usize_max_def lastn_def)

subsection \<open>PairHistory\<close>

record 'a pair_record =
  pr_t :: u64
  pr_first :: 'a
  pr_second :: 'a

record 'a pair_ring =
  ring_head :: nat
  ring_filled :: nat
  ring_data :: "'a pair_record option list"

definition pair_ring_new :: "nat \<Rightarrow> 'a pair_ring" where
  "pair_ring_new len = \<lparr>ring_head = 0, ring_filled = 0, ring_data = replicate len None\<rparr>"

definition pair_ring_push :: "'a pair_record \<Rightarrow> 'a pair_ring \<Rightarrow> 'a pair_ring" where
  "pair_ring_push record ring =
     (let data = list_update (ring_data ring) (ring_head ring) (Some record)
      in ring\<lparr>ring_data := data, ring_head := (ring_head ring + 1) mod length data,
              ring_filled := min (ring_filled ring + 1) (length data)\<rparr>)"

text \<open>The iterator; \<open>the\<close> is the \<open>expect\<close>, which panics on \<open>None\<close>.\<close>

definition pair_ring_slots :: "'a pair_ring \<Rightarrow> 'a pair_record option list" where
  "pair_ring_slots ring =
     (let start = (if ring_filled ring = length (ring_data ring) then ring_head ring else 0)
      in map (\<lambda>offset. ring_data ring ! ((start + offset) mod length (ring_data ring))) [0..<ring_filled ring])"

definition pair_ring_iter :: "'a pair_ring \<Rightarrow> 'a pair_record list" where
  "pair_ring_iter ring = map the (pair_ring_slots ring)"

record 'a pair_history =
  ph_len :: nat
  ph_keys :: "(agent_id \<times> agent_id) list"
  ph_rings :: "'a pair_ring list"

definition pair_history_new :: "nat \<Rightarrow> 'a pair_history" where
  "pair_history_new len = \<lparr>ph_len = len, ph_keys = [], ph_rings = []\<rparr>"

text \<open>\<open>slice::binary_search\<close> on a sorted slice without repeats: the index of the key, or the
  insertion point that keeps the order. On such a slice the result does not depend on how the
  library splits the range.\<close>

definition binary_search :: "'k::linorder list \<Rightarrow> 'k \<Rightarrow> nat + nat" where
  "binary_search keys key =
     (let i = length (takeWhile (\<lambda>k. k < key) keys)
      in if i < length keys \<and> keys ! i = key then Inr i else Inl i)"

definition list_insert :: "nat \<Rightarrow> 'a \<Rightarrow> 'a list \<Rightarrow> 'a list" where
  "list_insert i x xs = take i xs @ x # drop i xs"

definition pair_push ::
    "u64 \<Rightarrow> agent_id \<Rightarrow> agent_id \<Rightarrow> 'a \<Rightarrow> 'a \<Rightarrow> 'a pair_history \<Rightarrow> 'a pair_history" where
  "pair_push t first second first_action second_action h =
     (let (key, a0, a1) =
            (if first \<le> second then ((first, second), first_action, second_action)
             else ((second, first), second_action, first_action));
          (index, h') =
            (case binary_search (ph_keys h) key of
               Inr index \<Rightarrow> (index, h)
             | Inl index \<Rightarrow>
                 (index, h\<lparr>ph_keys := list_insert index key (ph_keys h),
                          ph_rings := list_insert index (pair_ring_new (ph_len h)) (ph_rings h)\<rparr>))
      in h'\<lparr>ph_rings := list_update (ph_rings h') index
              (pair_ring_push \<lparr>pr_t = t, pr_first = a0, pr_second = a1\<rparr> (ph_rings h' ! index))\<rparr>)"

record 'a pair_view =
  pv_ring :: "'a pair_ring option"
  pv_swapped :: bool

definition pair_view :: "agent_id \<Rightarrow> agent_id \<Rightarrow> 'a pair_history \<Rightarrow> 'a pair_view" where
  "pair_view first second h =
     (let (key, swapped) = (if first \<le> second then ((first, second), False) else ((second, first), True));
          ring = (case binary_search (ph_keys h) key of
                    Inl _ \<Rightarrow> None | Inr index \<Rightarrow> Some (ph_rings h ! index))
      in \<lparr>pv_ring = ring, pv_swapped = swapped\<rparr>)"

definition pair_view_len :: "'a pair_view \<Rightarrow> nat" where
  "pair_view_len v = (case pv_ring v of None \<Rightarrow> 0 | Some ring \<Rightarrow> ring_filled ring)"

definition pair_view_iter :: "'a pair_view \<Rightarrow> (u64 \<times> 'a \<times> 'a) list" where
  "pair_view_iter v =
     (case pv_ring v of None \<Rightarrow> []
      | Some ring \<Rightarrow> map (\<lambda>r. if pv_swapped v then (pr_t r, pr_second r, pr_first r)
                           else (pr_t r, pr_first r, pr_second r)) (pair_ring_iter ring))"

definition pair_ring_ok :: "nat \<Rightarrow> 'a pair_ring \<Rightarrow> bool" where
  "pair_ring_ok len ring \<longleftrightarrow>
     ring_ok len (ring_head ring) (ring_filled ring) (ring_data ring) \<and>
     None \<notin> set (ring_contents len (ring_head ring) (ring_filled ring) (ring_data ring))"

lemma pair_ring_new_ok: "0 < len \<Longrightarrow> pair_ring_ok len (pair_ring_new len)"
  by (simp add: pair_ring_ok_def pair_ring_new_def ring_ok_def ring_contents_def)

lemma pair_ring_slots_contents:
  "pair_ring_ok len ring \<Longrightarrow>
   pair_ring_slots ring = ring_contents len (ring_head ring) (ring_filled ring) (ring_data ring)"
  using ring_index [of len "ring_head ring" "ring_filled ring" "ring_data ring"]
  by (simp add: pair_ring_ok_def pair_ring_slots_def ring_ok_def Let_def)

lemma set_lastn: "set (lastn n xs) \<subseteq> set xs"
  by (simp add: lastn_def set_drop_subset)

lemma pair_ring_push_ok:
  assumes "pair_ring_ok len ring"
  shows "pair_ring_ok len (pair_ring_push r ring) \<and>
    pair_ring_slots (pair_ring_push r ring) = lastn len (pair_ring_slots ring @ [Some r])"
proof -
  have ok: "ring_ok len (ring_head ring) (ring_filled ring) (ring_data ring)"
    and len: "length (ring_data ring) = len"
    using assms by (simp_all add: pair_ring_ok_def ring_ok_def)
  note written = ring_contents_write [OF ok, of "Some r"]
  have "pair_ring_ok len (pair_ring_push r ring)"
    using assms ring_ok_write [OF ok, of "Some r"] written len
      set_lastn [of len "ring_contents len (ring_head ring) (ring_filled ring) (ring_data ring) @ [Some r]"]
    by (auto simp: pair_ring_ok_def pair_ring_push_def Let_def)
  with assms written len show ?thesis
    by (simp add: pair_ring_slots_contents) (simp add: pair_ring_push_def Let_def)
qed

interpretation pair_ring: bounded_ring
  pair_ring_push "\<lambda>r. r" pair_ring_iter "\<lambda>_. len" "pair_ring_ok len" "\<lambda>_ _. True"
  for len :: nat
proof unfold_locales
  fix ring :: "'a pair_ring" and r
  assume ok: "pair_ring_ok len ring"
  show "pair_ring_ok len (pair_ring_push r ring)" using pair_ring_push_ok [OF ok] by simp
  show "pair_ring_iter (pair_ring_push r ring) = lastn len (pair_ring_iter ring @ [r])"
    using pair_ring_push_ok [OF ok, of r] by (simp add: pair_ring_iter_def lastn_map [symmetric])
  show "0 < len" using ok by (simp add: pair_ring_ok_def ring_ok_def)
  show "length (pair_ring_iter ring) \<le> len"
    using ok by (simp add: pair_ring_iter_def pair_ring_slots_def pair_ring_ok_def ring_ok_def Let_def)
qed simp_all

subsection \<open>Looking up a pair\<close>

lemma binary_search_found:
  "binary_search keys key = Inr i \<Longrightarrow> i < length keys \<and> keys ! i = key"
  by (auto simp: binary_search_def Let_def split: if_splits)

lemma sorted_between:
  "sorted_wrt (<) (xs @ ys) \<Longrightarrow> \<forall>x \<in> set xs. x < k \<Longrightarrow> \<forall>y \<in> set ys. k < y \<Longrightarrow>
   sorted_wrt (<) (xs @ k # ys)"
  by (auto simp: sorted_wrt_append)

lemma binary_search_missing:
  assumes "sorted_wrt (<) keys" "binary_search keys key = Inl i"
  shows "key \<notin> set keys \<and> i \<le> length keys \<and> sorted_wrt (<) (list_insert i key keys)"
proof -
  let ?P = "\<lambda>k. k < key"
  have i: "i = length (takeWhile ?P keys)" and no: "\<not> (i < length keys \<and> keys ! i = key)"
    using assms(2) by (auto simp: binary_search_def Let_def split: if_splits)
  have split: "keys = takeWhile ?P keys @ dropWhile ?P keys" by simp
  have le: "i \<le> length keys" unfolding i by (rule length_takeWhile_le)
  have parts: "take i keys = takeWhile ?P keys" "drop i keys = dropWhile ?P keys"
    unfolding i by (metis takeWhile_eq_take) (rule dropWhile_eq_drop [symmetric])
  have low: "\<forall>k \<in> set (takeWhile ?P keys). k < key" by (auto dest: set_takeWhileD)
  have high: "\<forall>k \<in> set (dropWhile ?P keys). key < k"
  proof (cases "dropWhile ?P keys")
    case (Cons k ks)
    have "sorted_wrt (<) (k # ks)" using assms(1) split Cons by (metis sorted_wrt_append)
    moreover have "\<not> k < key" using Cons by (metis dropWhile_eq_Cons_conv)
    moreover have "k \<noteq> key"
    proof
      assume "k = key"
      then have "keys ! i = key" "i < length keys"
        using Cons parts(2) le by (auto simp: nth_via_drop) (metis drop_all list.distinct(1) not_less)
      with no show False by simp
    qed
    ultimately show ?thesis using Cons by (auto dest: less_trans)
  next
    case Nil
    then show ?thesis by (simp only: Nil list.set ball_empty)
  qed
  have "sorted_wrt (<) (takeWhile ?P keys @ dropWhile ?P keys)" using assms(1) by simp
  then have "sorted_wrt (<) (list_insert i key keys)"
    using low high unfolding list_insert_def parts by (rule sorted_between)
  moreover have "key \<notin> set keys" using low high split by (metis Un_iff less_irrefl set_append)
  ultimately show ?thesis using le by simp
qed

lemma sorted_wrt_less_distinct: "sorted_wrt (<) xs \<Longrightarrow> distinct xs" for xs :: "'a::linorder list"
  by (induction xs) auto

definition pair_lookup :: "'a pair_history \<Rightarrow> agent_id \<times> agent_id \<Rightarrow> 'a pair_ring option" where
  "pair_lookup h key =
     (case binary_search (ph_keys h) key of Inl _ \<Rightarrow> None | Inr i \<Rightarrow> Some (ph_rings h ! i))"

definition pair_history_ok :: "'a pair_history \<Rightarrow> bool" where
  "pair_history_ok h \<longleftrightarrow> 0 < ph_len h \<and> sorted_wrt (<) (ph_keys h) \<and>
     length (ph_rings h) = length (ph_keys h) \<and> (\<forall>ring \<in> set (ph_rings h). pair_ring_ok (ph_len h) ring)"

lemma map_of_zip_None: "length vs = length ks \<Longrightarrow> k \<notin> set ks \<Longrightarrow> map_of (zip ks vs) k = None"
  by (metis map_of_zip_is_None)

lemma map_of_zip_nth_distinct:
  "distinct ks \<Longrightarrow> length vs = length ks \<Longrightarrow> i < length ks \<Longrightarrow> map_of (zip ks vs) (ks ! i) = Some (vs ! i)"
  by (simp add: map_of_zip_nth)

lemma map_of_zip_list_update:
  assumes "distinct ks" "length vs = length ks" "i < length ks"
  shows "map_of (zip ks (list_update vs i v)) = (map_of (zip ks vs))(ks ! i \<mapsto> v)"
proof
  fix k
  show "map_of (zip ks (list_update vs i v)) k = ((map_of (zip ks vs))(ks ! i \<mapsto> v)) k"
  proof (cases "k \<in> set ks")
    case True
    then obtain j where j: "j < length ks" "k = ks ! j" by (auto simp: in_set_conv_nth)
    then show ?thesis
      using assms map_of_zip_nth_distinct [of ks "list_update vs i v" j] map_of_zip_nth_distinct [of ks vs j]
      by (auto simp: nth_list_update nth_eq_iff_index_eq)
  next
    case False
    then show ?thesis using assms by (auto simp: map_of_zip_None)
  qed
qed

lemma pair_lookup_map_of:
  assumes "pair_history_ok h"
  shows "pair_lookup h key = map_of (zip (ph_keys h) (ph_rings h)) key"
proof (cases "binary_search (ph_keys h) key")
  case (Inl i)
  then show ?thesis
    using assms binary_search_missing [OF _ Inl]
    by (auto simp: pair_lookup_def pair_history_ok_def map_of_zip_None)
next
  case (Inr i)
  then show ?thesis
    using assms binary_search_found [OF Inr] map_of_zip_nth_distinct [of "ph_keys h" "ph_rings h" i]
    by (auto simp: pair_lookup_def pair_history_ok_def sorted_wrt_less_distinct)
qed

text \<open>Replacing the ring of a key that is there.\<close>

lemma pair_history_update:
  assumes "pair_history_ok h" "i < length (ph_keys h)" "pair_ring_ok (ph_len h) ring"
  shows "pair_history_ok (h\<lparr>ph_rings := list_update (ph_rings h) i ring\<rparr>) \<and>
    pair_lookup (h\<lparr>ph_rings := list_update (ph_rings h) i ring\<rparr>) = (pair_lookup h)(ph_keys h ! i \<mapsto> ring)"
    (is "pair_history_ok ?h \<and> _")
proof -
  have ok: "pair_history_ok ?h"
    using assms set_update_subset_insert [of "ph_rings h" i ring]
    by (auto simp: pair_history_ok_def)
  moreover have "pair_lookup ?h = (pair_lookup h)(ph_keys h ! i \<mapsto> ring)"
    using assms map_of_zip_list_update [of "ph_keys h" "ph_rings h" i ring]
    by (intro ext) (simp add: pair_lookup_map_of [OF ok] pair_lookup_map_of [OF assms(1)]
        pair_history_ok_def sorted_wrt_less_distinct)
  ultimately show ?thesis by simp
qed

text \<open>Inserting a fresh ring for a key that is not there.\<close>

lemma pair_history_insert:
  assumes "pair_history_ok h" "binary_search (ph_keys h) key = Inl i"
  shows "let h' = h\<lparr>ph_keys := list_insert i key (ph_keys h),
                   ph_rings := list_insert i (pair_ring_new (ph_len h)) (ph_rings h)\<rparr>
    in pair_history_ok h' \<and> i < length (ph_keys h') \<and> ph_keys h' ! i = key \<and>
       ph_rings h' ! i = pair_ring_new (ph_len h) \<and>
       pair_lookup h' = (pair_lookup h)(key \<mapsto> pair_ring_new (ph_len h))"
proof -
  define h' where "h' = h\<lparr>ph_keys := list_insert i key (ph_keys h),
                   ph_rings := list_insert i (pair_ring_new (ph_len h)) (ph_rings h)\<rparr>"
  have len: "length (ph_rings h) = length (ph_keys h)" and sorted: "sorted_wrt (<) (ph_keys h)"
    using assms(1) by (simp_all add: pair_history_ok_def)
  note missing = binary_search_missing [OF sorted assms(2)]
  have ok: "pair_history_ok h'"
    using assms(1) missing pair_ring_new_ok [of "ph_len h"]
    by (auto simp: pair_history_ok_def h'_def list_insert_def dest: in_set_takeD in_set_dropD)
  have zip': "zip (ph_keys h') (ph_rings h') = take i (zip (ph_keys h) (ph_rings h)) @
      (key, pair_ring_new (ph_len h)) # drop i (zip (ph_keys h) (ph_rings h))"
    using missing len by (simp add: h'_def list_insert_def take_zip drop_zip)
  have "map_of (take i (zip (ph_keys h) (ph_rings h)) @ (key, r) # drop i (zip (ph_keys h) (ph_rings h))) =
      (map_of (take i (zip (ph_keys h) (ph_rings h)) @ drop i (zip (ph_keys h) (ph_rings h))))(key \<mapsto> r)" for r
  proof -
    have "key \<notin> dom (map_of (take i (zip (ph_keys h) (ph_rings h))))"
      using missing by (auto simp: dom_map_of_conv_image_fst take_zip dest!: set_zip_leftD in_set_takeD)
    then show ?thesis
      by (simp add: map_of_append map_add_upd_left del: append_take_drop_id)
  qed
  then have "pair_lookup h' = (pair_lookup h)(key \<mapsto> pair_ring_new (ph_len h))"
    by (intro ext) (simp add: pair_lookup_map_of [OF ok] pair_lookup_map_of [OF assms(1)] zip')
  then show ?thesis
    using ok missing len unfolding h'_def [symmetric] Let_def
    by (simp add: h'_def list_insert_def nth_append)
qed

subsection \<open>What a pair view shows\<close>

record 'a pair_encounter =
  enc_t :: u64
  enc_first :: agent_id
  enc_second :: agent_id
  enc_action :: 'a
  enc_reply :: 'a

definition push_encounter :: "'a pair_encounter \<Rightarrow> 'a pair_history \<Rightarrow> 'a pair_history" where
  "push_encounter e = pair_push (enc_t e) (enc_first e) (enc_second e) (enc_action e) (enc_reply e)"

text \<open>An encounter seen from \<open>first\<close>, when it is one with \<open>second\<close>.\<close>

definition seen_from :: "agent_id \<Rightarrow> agent_id \<Rightarrow> 'a pair_encounter \<Rightarrow> (u64 \<times> 'a \<times> 'a) option" where
  "seen_from first second e =
     (if enc_first e = first \<and> enc_second e = second then Some (enc_t e, enc_action e, enc_reply e)
      else if enc_first e = second \<and> enc_second e = first then Some (enc_t e, enc_reply e, enc_action e)
      else None)"

definition pair_key :: "agent_id \<Rightarrow> agent_id \<Rightarrow> agent_id \<times> agent_id" where
  "pair_key a b = (if a \<le> b then (a, b) else (b, a))"

definition stored_record :: "'a pair_encounter \<Rightarrow> 'a pair_record" where
  "stored_record e =
     (if enc_first e \<le> enc_second e then \<lparr>pr_t = enc_t e, pr_first = enc_action e, pr_second = enc_reply e\<rparr>
      else \<lparr>pr_t = enc_t e, pr_first = enc_reply e, pr_second = enc_action e\<rparr>)"

definition pair_contents :: "'a pair_history \<Rightarrow> agent_id \<times> agent_id \<Rightarrow> 'a pair_record list" where
  "pair_contents h key = (case pair_lookup h key of None \<Rightarrow> [] | Some ring \<Rightarrow> pair_ring_iter ring)"

lemma pair_key_eq:
  "pair_key a b = pair_key c d \<longleftrightarrow> a = c \<and> b = d \<or> a = d \<and> b = c"
  by (cases "a \<le> b"; cases "c \<le> d") (auto simp: pair_key_def)

lemma seen_from_stored:
  "seen_from first second e =
     (if pair_key (enc_first e) (enc_second e) = pair_key first second
      then Some (let r = stored_record e
        in if first \<le> second then (pr_t r, pr_first r, pr_second r) else (pr_t r, pr_second r, pr_first r))
      else None)"
proof (cases e)
  case (fields t a b x y)
  consider "a = first \<and> b = second" | "\<not> (a = first \<and> b = second)" "a = second \<and> b = first"
    | "\<not> (a = first \<and> b = second)" "\<not> (a = second \<and> b = first)" by blast
  then show ?thesis
  proof cases
    case 1
    then show ?thesis by (simp add: seen_from_def pair_key_eq stored_record_def fields)
  next
    case 2
    then have ba: "first = b" "second = a" and neq: "a \<noteq> b" by blast+
    show ?thesis
    proof (cases "a \<le> b")
      case True
      with neq have "\<not> b \<le> a" by (metis antisym)
      with True neq show ?thesis
        unfolding ba fields by (simp add: seen_from_def pair_key_eq stored_record_def)
    next
      case False
      then have "b \<le> a" by (metis linear)
      with False neq show ?thesis
        unfolding ba fields by (simp add: seen_from_def pair_key_eq stored_record_def)
    qed
  next
    case 3
    then have no: "(a = first \<and> b = second) = False" "(a = second \<and> b = first) = False" by blast+
    show ?thesis
      by (simp only: seen_from_def pair_key_eq fields pair_encounter.select_convs no if_False disj_ac simp_thms)
  qed
qed

lemma pair_push_ok:
  assumes ok: "pair_history_ok h"
  shows "pair_history_ok (push_encounter e h) \<and> ph_len (push_encounter e h) = ph_len h \<and>
    pair_contents (push_encounter e h) k =
      (if k = pair_key (enc_first e) (enc_second e)
       then lastn (ph_len h) (pair_contents h k @ [stored_record e]) else pair_contents h k)"
proof -
  let ?k = "pair_key (enc_first e) (enc_second e)"
  define h0 where "h0 = (case binary_search (ph_keys h) ?k of Inr i \<Rightarrow> h
    | Inl i \<Rightarrow> h\<lparr>ph_keys := list_insert i ?k (ph_keys h),
                 ph_rings := list_insert i (pair_ring_new (ph_len h)) (ph_rings h)\<rparr>)"
  define i where "i = (case binary_search (ph_keys h) ?k of Inr i \<Rightarrow> i | Inl i \<Rightarrow> i)"
  have push: "push_encounter e h =
      h0\<lparr>ph_rings := list_update (ph_rings h0) i (pair_ring_push (stored_record e) (ph_rings h0 ! i))\<rparr>"
    by (simp add: push_encounter_def pair_push_def pair_key_def stored_record_def h0_def i_def Let_def
        split: sum.split)
  have h0: "pair_history_ok h0 \<and> i < length (ph_keys h0) \<and> ph_keys h0 ! i = ?k \<and> ph_len h0 = ph_len h \<and>
      pair_contents h0 = pair_contents h"
  proof (cases "binary_search (ph_keys h) ?k")
    case (Inr j)
    then show ?thesis using binary_search_found [OF Inr] ok by (simp add: h0_def i_def)
  next
    case (Inl j)
    have missing: "pair_lookup h ?k = None" by (simp add: pair_lookup_def Inl)
    have new: "pair_ring_iter (pair_ring_new n) = []" for n
      by (simp add: pair_ring_iter_def pair_ring_slots_def pair_ring_new_def Let_def)
    show ?thesis
      using pair_history_insert [OF ok Inl] missing new
      by (auto simp: h0_def i_def Inl Let_def pair_contents_def fun_eq_iff)
  qed
  let ?ring = "ph_rings h0 ! i"
  have ring: "pair_ring_ok (ph_len h0) ?ring"
    using h0 by (auto simp: pair_history_ok_def)
  have lookup: "pair_lookup h0 ?k = Some ?ring"
    using h0 map_of_zip_nth_distinct [of "ph_keys h0" "ph_rings h0" i]
    by (auto simp: pair_lookup_map_of pair_history_ok_def sorted_wrt_less_distinct)
  have pushed: "pair_ring_ok (ph_len h0) (pair_ring_push (stored_record e) ?ring)"
    "pair_ring_iter (pair_ring_push (stored_record e) ?ring) =
      lastn (ph_len h0) (pair_ring_iter ?ring @ [stored_record e])"
    using pair_ring.ok_push [OF ring] pair_ring.contents_push [OF ring] by simp_all
  have contents: "pair_contents h k = pair_contents h0 k" using h0 by simp
  have at: "pair_history_ok h0" "i < length (ph_keys h0)" "ph_keys h0 ! i = ?k" "ph_len h0 = ph_len h"
    using h0 by simp_all
  show ?thesis
    using pair_history_update [OF at(1,2) pushed(1)] at(3,4) lookup pushed(2)
    unfolding push contents by (auto simp: pair_contents_def)
qed

lemma pair_pushes:
  assumes "0 < len"
  shows "pair_history_ok (fold push_encounter encs (pair_history_new len)) \<and>
    ph_len (fold push_encounter encs (pair_history_new len)) = len \<and>
    pair_contents (fold push_encounter encs (pair_history_new len)) k =
      lastn len (map stored_record (filter (\<lambda>e. pair_key (enc_first e) (enc_second e) = k) encs))"
proof (induction encs rule: rev_induct)
  case Nil
  show ?case
    using assms by (simp add: pair_history_ok_def pair_history_new_def pair_contents_def
        pair_lookup_def binary_search_def)
next
  case (snoc e encs)
  then show ?case
    using pair_push_ok [of "fold push_encounter encs (pair_history_new len)" e k]
    by (auto simp: lastn_append_lastn)
qed

text \<open>
  C17: after any sequence of encounters, the view of a pair lists, oldest first, the last \<open>len\<close>
  encounters of these two agents, whichever of them came first when it was recorded, with the
  actions turned to the agent that asks.
\<close>

theorem pair_view_keeps_last:
  assumes "0 < len"
  shows "pair_view_iter (pair_view first second (fold push_encounter encs (pair_history_new len))) =
    lastn len (List.map_filter (seen_from first second) encs)"
proof -
  let ?h = "fold push_encounter encs (pair_history_new len)"
  let ?k = "pair_key first second"
  let ?turn = "\<lambda>r. if first \<le> second then (pr_t r, pr_first r, pr_second r) else (pr_t r, pr_second r, pr_first r)"
  have view: "pair_view_iter (pair_view first second ?h) = map ?turn (pair_contents ?h ?k)"
    by (auto simp: pair_view_iter_def pair_view_def pair_contents_def pair_lookup_def pair_key_def Let_def
        split: sum.split)
  have "List.map_filter (seen_from first second) encs =
      map ?turn (map stored_record (filter (\<lambda>e. pair_key (enc_first e) (enc_second e) = ?k) encs))"
    by (induction encs) (simp_all add: List.map_filter_simps seen_from_stored Let_def)
  then show ?thesis
    unfolding view using pair_pushes [OF assms, of encs ?k] by (simp add: lastn_map)
qed

theorem pair_view_keeps_last_witness:
  "pair_view_iter (pair_view (AgentId 2) (AgentId 1) (fold push_encounter
      [\<lparr>enc_t = 1, enc_first = AgentId 1, enc_second = AgentId 2, enc_action = CHR ''a'', enc_reply = CHR ''b''\<rparr>,
       \<lparr>enc_t = 2, enc_first = AgentId 2, enc_second = AgentId 1, enc_action = CHR ''c'', enc_reply = CHR ''d''\<rparr>,
       \<lparr>enc_t = 2, enc_first = AgentId 2, enc_second = AgentId 3, enc_action = CHR ''e'', enc_reply = CHR ''f''\<rparr>,
       \<lparr>enc_t = 3, enc_first = AgentId 1, enc_second = AgentId 2, enc_action = CHR ''g'', enc_reply = CHR ''h''\<rparr>]
      (pair_history_new 2))) =
    [(2, CHR ''c'', CHR ''d''), (3, CHR ''h'', CHR ''g'')]"
  by (subst pair_view_keeps_last) (simp_all add: lastn_def List.map_filter_def seen_from_def)

subsection \<open>AggregateTable\<close>

record 'f aggregate_row =
  ar_t :: u64
  ar_values :: "'f option list"

record 'f aggregate_table =
  at_names :: "string list"
  at_len :: nat
  at_head :: nat
  at_filled :: nat
  at_rows :: "'f aggregate_row list"

definition aggregate_new :: "string list \<Rightarrow> nat \<Rightarrow> 'f aggregate_table" where
  "aggregate_new names len =
     \<lparr>at_names = names, at_len = len, at_head = 0, at_filled = 0, at_rows = []\<rparr>"

definition aggregate_push :: "'f aggregate_row \<Rightarrow> 'f aggregate_table \<Rightarrow> 'f aggregate_table" where
  "aggregate_push row tab =
     (let tab1 =
            (if at_filled tab < at_len tab
             then tab\<lparr>at_rows := at_rows tab @ [row], at_filled := at_filled tab + 1\<rparr>
             else tab\<lparr>at_rows := list_update (at_rows tab) (at_head tab) row\<rparr>)
      in tab1\<lparr>at_head := (at_head tab1 + 1) mod at_len tab1\<rparr>)"

definition aggregate_start :: "'f aggregate_table \<Rightarrow> nat" where
  "aggregate_start tab = (if at_filled tab = at_len tab then at_head tab else 0)"

definition aggregate_iter :: "'f aggregate_table \<Rightarrow> 'f aggregate_row list" where
  "aggregate_iter tab =
     map (\<lambda>offset. at_rows tab ! ((aggregate_start tab + offset) mod at_len tab)) [0..<at_filled tab]"

definition aggregate_last :: "'f aggregate_table \<Rightarrow> 'f aggregate_row option" where
  "aggregate_last tab =
     (if at_filled tab = 0 then None
      else Some (at_rows tab ! ((aggregate_start tab + (at_filled tab - 1)) mod at_len tab)))"

definition aggregate_ok :: "'f aggregate_table \<Rightarrow> bool" where
  "aggregate_ok tab \<longleftrightarrow>
     0 < at_len tab \<and> length (at_rows tab) = at_filled tab \<and> at_filled tab \<le> at_len tab \<and>
     at_head tab < at_len tab \<and> (at_filled tab < at_len tab \<longrightarrow> at_head tab = at_filled tab)"

lemma aggregate_iter_full:
  assumes "aggregate_ok tab" "at_filled tab = at_len tab"
  shows "aggregate_iter tab = drop (at_head tab) (at_rows tab) @ take (at_head tab) (at_rows tab)"
proof -
  have "ring_ok (at_len tab) (at_head tab) (at_filled tab) (at_rows tab)"
    using assms by (simp add: aggregate_ok_def ring_ok_def)
  from ring_index [OF this] assms show ?thesis
    by (simp add: aggregate_iter_def aggregate_start_def ring_contents_def aggregate_ok_def)
qed

lemma aggregate_iter_filling:
  assumes "aggregate_ok tab" "at_filled tab < at_len tab"
  shows "aggregate_iter tab = at_rows tab"
  using assms by (intro nth_equalityI) (auto simp: aggregate_iter_def aggregate_start_def aggregate_ok_def)

lemma aggregate_push_ok: "aggregate_ok tab \<Longrightarrow> aggregate_ok (aggregate_push row tab)"
  by (auto simp: aggregate_ok_def aggregate_push_def Let_def mod_Suc)

lemma aggregate_push_iter:
  assumes ok: "aggregate_ok tab"
  shows "aggregate_iter (aggregate_push row tab) = lastn (at_len tab) (aggregate_iter tab @ [row])"
proof (cases "at_filled tab < at_len tab")
  case True
  have ok': "aggregate_ok (aggregate_push row tab)" by (rule aggregate_push_ok [OF ok])
  have rows: "at_rows (aggregate_push row tab) = at_rows tab @ [row]"
    "at_filled (aggregate_push row tab) = Suc (at_filled tab)"
    "at_len (aggregate_push row tab) = at_len tab"
    using True by (simp_all add: aggregate_push_def Let_def)
  have "aggregate_iter (aggregate_push row tab) = at_rows tab @ [row]"
  proof (cases "Suc (at_filled tab) < at_len tab")
    case True
    with aggregate_iter_filling [OF ok'] rows show ?thesis by simp
  next
    case False
    with \<open>at_filled tab < at_len tab\<close> have "Suc (at_filled tab) = at_len tab" by simp
    moreover from this have "at_head (aggregate_push row tab) = 0"
      using ok by (simp add: aggregate_push_def Let_def aggregate_ok_def)
    ultimately show ?thesis using aggregate_iter_full [OF ok'] rows by simp
  qed
  then show ?thesis
    using aggregate_iter_filling [OF ok True] True ok by (simp add: aggregate_ok_def)
next
  case False
  then have full: "at_filled tab = at_len tab" using ok by (simp add: aggregate_ok_def)
  have ring: "ring_ok (at_len tab) (at_head tab) (at_len tab) (at_rows tab)"
    using ok full by (simp add: aggregate_ok_def ring_ok_def)
  have push: "at_rows (aggregate_push row tab) = list_update (at_rows tab) (at_head tab) row"
    "at_filled (aggregate_push row tab) = at_len tab" "at_len (aggregate_push row tab) = at_len tab"
    "at_head (aggregate_push row tab) = (at_head tab + 1) mod at_len tab"
    using full by (simp_all add: aggregate_push_def Let_def)
  show ?thesis
    using ring_contents_write [OF ring, of row] aggregate_iter_full [OF ok full]
      aggregate_iter_full [OF aggregate_push_ok [OF ok, of row]] push
    by (simp add: ring_contents_def)
qed

interpretation aggregate_ring: bounded_ring
  aggregate_push "\<lambda>row. row" aggregate_iter at_len aggregate_ok "\<lambda>_ _. True"
proof unfold_locales
  fix tab :: "'f aggregate_table" and row
  assume ok: "aggregate_ok tab"
  show "aggregate_ok (aggregate_push row tab)" by (rule aggregate_push_ok [OF ok])
  show "at_len (aggregate_push row tab) = at_len tab" by (simp add: aggregate_push_def Let_def)
  show "aggregate_iter (aggregate_push row tab) = lastn (at_len tab) (aggregate_iter tab @ [row])"
    by (rule aggregate_push_iter [OF ok])
  show "0 < at_len tab" using ok by (simp add: aggregate_ok_def)
  show "length (aggregate_iter tab) \<le> at_len tab"
    using ok by (simp add: aggregate_iter_def aggregate_ok_def)
qed simp_all

lemma aggregate_last_iter:
  "aggregate_last tab = (if aggregate_iter tab = [] then None else Some (last (aggregate_iter tab)))"
  by (simp add: aggregate_last_def aggregate_iter_def last_map last_upt)

lemma aggregate_keeps_last:
  fixes rws :: "'f aggregate_row list"
  assumes "0 < len"
  shows "aggregate_iter (fold aggregate_push rws (aggregate_new names len)) = lastn len rws"
proof -
  let ?new = "aggregate_new names len :: 'f aggregate_table"
  have "aggregate_ok ?new" "aggregate_iter ?new = []" "at_len ?new = len"
    using assms by (simp_all add: aggregate_ok_def aggregate_new_def aggregate_iter_def)
  then show ?thesis using aggregate_ring.pushes [of ?new rws] by simp
qed

lemma aggregate_last_is_newest:
  assumes "0 < len"
  shows "aggregate_last (fold aggregate_push (rws @ [row]) (aggregate_new names len)) = Some row"
proof -
  have "aggregate_ok (aggregate_new names len)" using assms by (simp add: aggregate_ok_def aggregate_new_def)
  from aggregate_ring.pushes_last [OF this, of rws row] show ?thesis
    by (simp add: aggregate_last_iter)
qed

end
