(* ===== verification/Arena.thy ===== *)
theory Arena
  imports Core
begin

section \<open>Per-step tables of the game world (crates/socsim-games/src/world)\<close>

text \<open>
  The play arena with its append-only writer, the policy reports, the policy table and the counts
  of played actions. Flat vectors are addressed by \<open>index * n_roles\<close> with checked arithmetic; the
  lemmas show that the addressing separates the entries. \<open>'f\<close> is the type of payoffs, \<open>zero\<close> its
  \<open>0.0\<close>.
\<close>

subsection \<open>The arena\<close>

datatype encounter_id = EncounterId (encounter_no: nat)

datatype credit = CreditAll | CreditCenter

record encounter_ref =
  er_id :: encounter_id
  er_seats :: "agent_id list"
  er_credit :: credit

record ('a, 'f) play_arena =
  pa_n_roles :: nat
  pa_seats :: "agent_id list"
  pa_credit :: "credit list"
  pa_actions :: "'a option list"
  pa_payoffs :: "'f list"

definition arena_new :: "nat \<Rightarrow> ('a, 'f) play_arena" where
  "arena_new n_roles =
     \<lparr>pa_n_roles = n_roles, pa_seats = [], pa_credit = [], pa_actions = [], pa_payoffs = []\<rparr>"

definition arena_clear :: "('a, 'f) play_arena \<Rightarrow> ('a, 'f) play_arena" where
  "arena_clear ar = ar\<lparr>pa_seats := [], pa_credit := [], pa_actions := [], pa_payoffs := []\<rparr>"

definition n_encounters :: "('a, 'f) play_arena \<Rightarrow> nat" where
  "n_encounters ar = length (pa_credit ar)"

text \<open>The range of a role-indexed row: \<open>start\<close> and \<open>end\<close>, or \<open>None\<close> on overflow.\<close>

definition row_range :: "nat \<Rightarrow> encounter_id \<Rightarrow> (nat \<times> nat) option" where
  "row_range n_roles eid =
     Option.bind (checked_mul (encounter_no eid) n_roles) (\<lambda>start.
       map_option (Pair start) (checked_add start n_roles))"

definition encounter :: "('a, 'f) play_arena \<Rightarrow> encounter_id \<Rightarrow> encounter_ref option" where
  "encounter ar eid =
     Option.bind (row_range (pa_n_roles ar) eid) (\<lambda>(start, end').
       Option.bind (slice_get (pa_seats ar) start end') (\<lambda>seats.
         map_option (\<lambda>cr. \<lparr>er_id = eid, er_seats = seats, er_credit = cr\<rparr>)
           (get_opt (pa_credit ar) (encounter_no eid))))"

definition arena_actions :: "('a, 'f) play_arena \<Rightarrow> encounter_id \<Rightarrow> 'a option list option" where
  "arena_actions ar eid =
     Option.bind (row_range (pa_n_roles ar) eid) (\<lambda>(start, end'). slice_get (pa_actions ar) start end')"

definition arena_payoffs :: "('a, 'f) play_arena \<Rightarrow> encounter_id \<Rightarrow> 'f list option" where
  "arena_payoffs ar eid =
     Option.bind (row_range (pa_n_roles ar) eid) (\<lambda>(start, end'). slice_get (pa_payoffs ar) start end')"

text \<open>\<open>ArenaWriter::push\<close>.\<close>

definition arena_push ::
    "'f \<Rightarrow> agent_id list \<Rightarrow> credit \<Rightarrow> ('a, 'f) play_arena \<Rightarrow> encounter_id result \<times> ('a, 'f) play_arena" where
  "arena_push zero seats cr ar =
     (if length seats \<noteq> pa_n_roles ar
      then (Inl (Mechanism (''encounter has '' @ show_nat (length seats) @ '' seats, expected '' @
              show_nat (pa_n_roles ar))), ar)
      else case u32_try_from (length (pa_credit ar)) of
        None \<Rightarrow> (Inl (Mechanism ''encounter count exceeds u32::MAX''), ar)
      | Some eid \<Rightarrow>
          (Inr (EncounterId eid),
           ar\<lparr>pa_seats := pa_seats ar @ seats, pa_credit := pa_credit ar @ [cr],
              pa_actions := pa_actions ar @ replicate (pa_n_roles ar) None,
              pa_payoffs := pa_payoffs ar @ replicate (pa_n_roles ar) zero\<rparr>))"

subsection \<open>Rows of a flat vector\<close>

definition rows_ok :: "('a, 'f) play_arena \<Rightarrow> bool" where
  "rows_ok ar \<longleftrightarrow>
     length (pa_seats ar) = n_encounters ar * pa_n_roles ar \<and>
     length (pa_actions ar) = n_encounters ar * pa_n_roles ar \<and>
     length (pa_payoffs ar) = n_encounters ar * pa_n_roles ar"

lemma rows_ok_new [simp]: "rows_ok (arena_new n)"
  by (simp add: rows_ok_def arena_new_def n_encounters_def)

lemma rows_ok_clear [simp]: "rows_ok (arena_clear ar)"
  by (simp add: rows_ok_def arena_clear_def n_encounters_def)

lemma arena_push_frame [simp]: "pa_n_roles (snd (arena_push zero seats cr ar)) = pa_n_roles ar"
  by (simp add: arena_push_def split: option.split)

lemma rows_ok_push: "rows_ok ar \<Longrightarrow> rows_ok (snd (arena_push zero seats cr ar))"
  by (auto simp: rows_ok_def arena_push_def n_encounters_def split: option.split)

lemma slice_of_concat:
  assumes "i < length rs" "\<forall>r \<in> set rs. length r = n"
  shows "slice_get (concat rs) (i * n) (i * n + n) = Some (rs ! i)"
proof -
  have len: "length (concat (take k rs)) = k * n" if "k \<le> length rs" for k
    using that assms(2)
    by (induction k) (auto simp: take_Suc_conv_app_nth)
  have "concat rs = concat (take i rs) @ rs ! i @ concat (drop (Suc i) rs)"
    by (metis assms(1) concat.simps(2) concat_append id_take_nth_drop)
  moreover have "length (rs ! i) = n" using assms by simp
  ultimately show ?thesis
    using len [of i] assms(1) by (simp add: slice_get_def)
qed

text \<open>The encounters of an arena, as the writer was given them.\<close>

definition arena_of :: "'f \<Rightarrow> nat \<Rightarrow> (agent_id list \<times> credit) list \<Rightarrow> ('a, 'f) play_arena" where
  "arena_of zero n encs =
     \<lparr>pa_n_roles = n, pa_seats = concat (map fst encs), pa_credit = map snd encs,
      pa_actions = replicate (length encs * n) None, pa_payoffs = replicate (length encs * n) zero\<rparr>"

definition push_all :: "'f \<Rightarrow> (agent_id list \<times> credit) list \<Rightarrow> ('a, 'f) play_arena \<Rightarrow> unit result \<times> ('a, 'f) play_arena" where
  "push_all zero = for_each (\<lambda>(seats, cr) ar.
     let (r, ar') = arena_push zero seats cr ar in (map_sum (\<lambda>e. e) (\<lambda>_. ()) r, ar'))"

lemma arena_of_Nil [simp]: "arena_of zero n [] = arena_new n"
  by (simp add: arena_of_def arena_new_def)

lemma arena_push_arena_of:
  "length seats = n \<Longrightarrow> length encs \<le> u32_max \<Longrightarrow>
   arena_push zero seats cr (arena_of zero n encs) =
     (Inr (EncounterId (length encs)), arena_of zero n (encs @ [(seats, cr)]))"
  by (simp add: arena_push_def arena_of_def u32_try_from_def replicate_add [symmetric] add.commute)

lemma push_all_arena_of:
  assumes "\<forall>e \<in> set encs. length (fst e) = n" "length done + length encs \<le> u32_max + 1"
  shows "push_all zero encs (arena_of zero n done) = (Inr (), arena_of zero n (done @ encs))"
  using assms
proof (induction encs arbitrary: "done")
  case (Cons e encs)
  obtain seats cr where e: "e = (seats, cr)" by fastforce
  then show ?case
    using Cons.prems Cons.IH [of "done @ [e]"] by (simp add: push_all_def e arena_push_arena_of)
qed (simp add: push_all_def)

text \<open>
  C35: writing a list of encounters with the right number of seats and reading them back by their
  index gives the seats and the credit that were written, actions that are still undecided and
  zero payoffs; an index past the end gives nothing.
\<close>

theorem arena_roundtrip:
  assumes "\<forall>e \<in> set encs. length (fst e) = n" "length encs \<le> u32_max + 1"
    and "length encs * n \<le> usize_max"
  shows "\<exists>ar. push_all zero encs (arena_new n) = (Inr (), ar) \<and> n_encounters ar = length encs \<and>
    (\<forall>i. encounter ar (EncounterId i) =
      (if i < length encs
       then Some \<lparr>er_id = EncounterId i, er_seats = fst (encs ! i), er_credit = snd (encs ! i)\<rparr>
       else None)) \<and>
    (\<forall>i < length encs. arena_actions ar (EncounterId i) = Some (replicate n None) \<and>
      arena_payoffs ar (EncounterId i) = Some (replicate n zero))"
proof (intro exI conjI)
  let ?ar = "arena_of zero n encs"
  show "push_all zero encs (arena_new n) = (Inr (), ?ar)"
    using push_all_arena_of [of encs n "[]" zero] assms(1,2) by simp
  show "n_encounters ?ar = length encs" by (simp add: n_encounters_def arena_of_def)
  have range: "row_range n (EncounterId i) = Some (i * n, i * n + n)" if "i < length encs" for i
  proof -
    have "(i + 1) * n \<le> length encs * n" using that by (intro mult_le_mono1) simp
    then have "i * n + n \<le> usize_max" "i * n \<le> usize_max" using assms(3) by simp_all
    then show ?thesis by (simp add: row_range_def checked_mul_def checked_add_def)
  qed
  show "\<forall>i. encounter ?ar (EncounterId i) =
      (if i < length encs
       then Some \<lparr>er_id = EncounterId i, er_seats = fst (encs ! i), er_credit = snd (encs ! i)\<rparr>
       else None)"
  proof
    fix i
    show "encounter ?ar (EncounterId i) = (if i < length encs
       then Some \<lparr>er_id = EncounterId i, er_seats = fst (encs ! i), er_credit = snd (encs ! i)\<rparr>
       else None)"
    proof (cases "i < length encs")
      case True
      then show ?thesis
        using range [OF True] slice_of_concat [of i "map fst encs" n] assms(1)
        by (simp add: encounter_def arena_of_def get_opt_def)
    next
      case False
      then show ?thesis
        by (auto simp: encounter_def arena_of_def get_opt_def split: option.splits bind_splits)
    qed
  qed
  show "\<forall>i < length encs. arena_actions ?ar (EncounterId i) = Some (replicate n None) \<and>
      arena_payoffs ?ar (EncounterId i) = Some (replicate n zero)"
  proof (intro allI impI)
    fix i assume i: "i < length encs"
    then have "(i + 1) * n \<le> length encs * n" by (intro mult_le_mono1) simp
    then show "arena_actions ?ar (EncounterId i) = Some (replicate n None) \<and>
      arena_payoffs ?ar (EncounterId i) = Some (replicate n zero)"
      using range [OF i] by (simp add: arena_actions_def arena_payoffs_def arena_of_def slice_get_def)
  qed
qed

theorem arena_roundtrip_witness:
  "\<exists>ar. push_all (0::nat) [([AgentId 0, AgentId 1], CreditAll), ([AgentId 1, AgentId 2], CreditCenter)]
      (arena_new 2 :: (nat, nat) play_arena) = (Inr (), ar) \<and>
    encounter ar (EncounterId 1) = Some \<lparr>er_id = EncounterId 1, er_seats = [AgentId 1, AgentId 2], er_credit = CreditCenter\<rparr> \<and>
    encounter ar (EncounterId 2) = None"
proof -
  let ?encs = "[([AgentId 0, AgentId 1], CreditAll), ([AgentId 1, AgentId 2], CreditCenter)]"
  have "\<forall>e \<in> set ?encs. length (fst e) = 2" "length ?encs \<le> u32_max + 1" "length ?encs * 2 \<le> usize_max"
    by (simp_all add: u32_max_def usize_max_def)
  from arena_roundtrip [OF this, of "0 :: nat"] obtain ar :: "(nat, nat) play_arena" where
    "push_all 0 ?encs (arena_new 2) = (Inr (), ar)"
    and read: "\<And>i. encounter ar (EncounterId i) =
      (if i < length ?encs
       then Some \<lparr>er_id = EncounterId i, er_seats = fst (?encs ! i), er_credit = snd (?encs ! i)\<rparr>
       else None)" by metis
  then show ?thesis using read [of 1] read [of 2] by (intro exI [of _ ar]) simp
qed

subsection \<open>Policy reports\<close>

record 'f policy_reports =
  rp_t :: u64
  rp_n_roles :: nat
  rp_mixed :: "'f list option list"

definition reports_new :: "u64 \<Rightarrow> nat \<Rightarrow> nat \<Rightarrow> 'f policy_reports option" where
  "reports_new t n_agents n_roles =
     map_option (\<lambda>len. \<lparr>rp_t = t, rp_n_roles = n_roles, rp_mixed = replicate len None\<rparr>)
       (checked_mul n_agents n_roles)"

definition reports_reset :: "u64 \<Rightarrow> 'f policy_reports \<Rightarrow> 'f policy_reports" where
  "reports_reset t rp = rp\<lparr>rp_t := t, rp_mixed := map (\<lambda>_. None) (rp_mixed rp)\<rparr>"

definition report_index :: "'f policy_reports \<Rightarrow> nat \<Rightarrow> nat \<Rightarrow> nat option" where
  "report_index rp agent role =
     Option.bind (checked_mul agent (rp_n_roles rp)) (\<lambda>base. checked_add base role)"

definition reports_set :: "nat \<Rightarrow> nat \<Rightarrow> 'f list option \<Rightarrow> 'f policy_reports \<Rightarrow> bool \<times> 'f policy_reports" where
  "reports_set agent role value rp =
     (if role \<ge> rp_n_roles rp then (False, rp)
      else case report_index rp agent role of
        None \<Rightarrow> (False, rp)
      | Some index \<Rightarrow>
          if index < length (rp_mixed rp)
          then (True, rp\<lparr>rp_mixed := list_update (rp_mixed rp) index value\<rparr>) else (False, rp))"

definition reports_get :: "nat \<Rightarrow> nat \<Rightarrow> 'f policy_reports \<Rightarrow> 'f list option" where
  "reports_get agent role rp =
     (if role \<ge> rp_n_roles rp then None
      else Option.bind (report_index rp agent role) (\<lambda>index.
        Option.bind (get_opt (rp_mixed rp) index) (\<lambda>v. v)))"

text \<open>The table covers \<open>n_agents\<close> agents.\<close>

definition reports_ok :: "nat \<Rightarrow> 'f policy_reports \<Rightarrow> bool" where
  "reports_ok n_agents rp \<longleftrightarrow>
     length (rp_mixed rp) = n_agents * rp_n_roles rp \<and> n_agents * rp_n_roles rp \<le> usize_max"

lemma reports_new_ok: "reports_new t n_agents n_roles = Some rp \<Longrightarrow> reports_ok n_agents rp \<and> rp_n_roles rp = n_roles"
  by (auto simp: reports_new_def reports_ok_def checked_mul_Some)

lemma reports_reset_ok: "reports_ok n rp \<Longrightarrow> reports_ok n (reports_reset t rp)"
  by (simp add: reports_ok_def reports_reset_def)

lemma row_bound: "agent < n \<Longrightarrow> role < k \<Longrightarrow> agent * k + role < n * k" for agent role n k :: nat
proof -
  assume "agent < n" "role < k"
  then have "agent * k + role < (agent + 1) * k" "(agent + 1) * k \<le> n * k"
    using mult_le_mono1 [of "agent + 1" n k] by simp_all
  then show ?thesis by (rule less_le_trans)
qed

lemma row_past: "n \<le> agent \<Longrightarrow> n * k \<le> agent * k + role" for agent role n k :: nat
  by (simp add: trans_le_add1)

lemma report_index_in:
  assumes "reports_ok n rp" "role < rp_n_roles rp"
  shows "agent < n \<Longrightarrow> report_index rp agent role = Some (agent * rp_n_roles rp + role)"
    and "n \<le> agent \<Longrightarrow> report_index rp agent role = Some i \<Longrightarrow> length (rp_mixed rp) \<le> i"
proof -
  assume "agent < n"
  then have "agent * rp_n_roles rp + role < n * rp_n_roles rp" using assms(2) by (rule row_bound)
  then show "report_index rp agent role = Some (agent * rp_n_roles rp + role)"
    using assms(1) by (simp add: report_index_def reports_ok_def checked_mul_def checked_add_def)
next
  assume "n \<le> agent" "report_index rp agent role = Some i"
  then show "length (rp_mixed rp) \<le> i"
    using assms(1) row_past [of n agent "rp_n_roles rp" role]
    by (auto simp: report_index_def reports_ok_def checked_mul_Some checked_add_Some bind_eq_Some_conv)
qed

lemma row_index_inj:
  fixes agent agent' k role role' :: nat
  assumes "role < k" "role' < k"
  shows "agent * k + role = agent' * k + role' \<longleftrightarrow> agent = agent' \<and> role = role'"
proof
  assume eq: "agent * k + role = agent' * k + role'"
  have "(agent * k + role) div k = (agent' * k + role') div k"
    "(agent * k + role) mod k = (agent' * k + role') mod k" using eq by simp_all
  then show "agent = agent' \<and> role = role'" using assms by simp
qed simp

text \<open>
  on a table for \<open>n\<close> agents, \<open>set\<close> answers whether the agent and the role exist, and reading
  after it gives the value just written for that agent and role and what was there for every
  other.
\<close>

theorem reports_get_set:
  assumes "reports_ok n rp"
  shows "fst (reports_set agent role value rp) = (agent < n \<and> role < rp_n_roles rp) \<and>
    reports_get agent' role' (snd (reports_set agent role value rp)) =
      (if agent < n \<and> role < rp_n_roles rp \<and> agent' = agent \<and> role' = role then value
       else reports_get agent' role' rp)"
proof (cases "agent < n \<and> role < rp_n_roles rp")
  case True
  let ?i = "agent * rp_n_roles rp + role"
  have i: "report_index rp agent role = Some ?i" "?i < length (rp_mixed rp)"
    using True report_index_in(1) [OF assms] row_bound [of agent n role "rp_n_roles rp"] assms
    by (auto simp: reports_ok_def)
  have set: "reports_set agent role value rp = (True, rp\<lparr>rp_mixed := list_update (rp_mixed rp) ?i value\<rparr>)"
    using True i by (simp add: reports_set_def)
  have index: "report_index (rp\<lparr>rp_mixed := list_update (rp_mixed rp) ?i value\<rparr>) = report_index rp"
    by (intro ext) (simp add: report_index_def)
  have val: "Option.bind (get_opt (list_update (rp_mixed rp) ?i value) j) (\<lambda>v. v) =
      (if j = ?i then value else Option.bind (get_opt (rp_mixed rp) j) (\<lambda>v. v))" for j
    using i(2) by (simp add: get_opt_def nth_list_update)
  show ?thesis
  proof (cases "role' < rp_n_roles rp")
    case r': True
    have "j = ?i \<longleftrightarrow> agent' = agent \<and> role' = role" if "report_index rp agent' role' = Some j" for j
      using that True r' row_index_inj [of role' "rp_n_roles rp" role agent' agent]
      by (auto simp: report_index_def checked_mul_Some checked_add_Some bind_eq_Some_conv)
    then show ?thesis
      using True r' i(1) by (cases "report_index rp agent' role'")
        (auto simp: set reports_get_def index val)
  next
    case False
    then show ?thesis using True by (auto simp: set reports_get_def)
  qed
next
  case False
  then have "reports_set agent role value rp = (False, rp)"
    using report_index_in(2) [OF assms, of role agent]
    by (auto simp: reports_set_def not_less split: option.split) (meson leI)
  with False show ?thesis by auto
qed

theorem reports_get_set_witness:
  "fst (reports_set 1 0 (Some [1, 2]) \<lparr>rp_t = 0, rp_n_roles = 2, rp_mixed = replicate 4 (None :: nat list option)\<rparr>) = True \<and>
   reports_get 1 0 (snd (reports_set 1 0 (Some [1, 2])
     \<lparr>rp_t = 0, rp_n_roles = 2, rp_mixed = replicate 4 (None :: nat list option)\<rparr>)) = Some [1, 2]"
proof -
  have "reports_ok 2 \<lparr>rp_t = 0, rp_n_roles = 2, rp_mixed = replicate 4 (None :: nat list option)\<rparr>"
    by (simp add: reports_ok_def usize_max_def)
  from reports_get_set [OF this, of 1 0 "Some [1, 2]" 1 0] show ?thesis by simp
qed

subsection \<open>The policy table\<close>

datatype rule_kind_id = RuleKindId (kind_no: nat)

record 's policy_table =
  pt_kinds :: "string list"
  pt_slot :: "nat list"
  pt_kind_of :: "rule_kind_id list"
  pt_states :: "'s list"

definition HELD :: nat where
  "HELD = u32_max"

definition policy_new :: "string list \<Rightarrow> nat list \<Rightarrow> rule_kind_id list \<Rightarrow> 's list \<Rightarrow> 's policy_table" where
  "policy_new kinds slots kind_of states =
     \<lparr>pt_kinds = kinds, pt_slot = slots, pt_kind_of = kind_of, pt_states = states\<rparr>"

definition policy_len :: "'s policy_table \<Rightarrow> nat" where
  "policy_len pt = length (pt_states pt)"

text \<open>\<open>&self.states[state]\<close> panics out of range; \<open>policy_ok\<close> below excludes it.\<close>

definition policy_state :: "'s policy_table \<Rightarrow> agent_id \<Rightarrow> 's option" where
  "policy_state pt agent =
     Option.bind (get_opt (pt_slot pt) (agent_no agent)) (\<lambda>state.
       if state \<noteq> HELD then Some (pt_states pt ! state) else None)"

definition policy_kind :: "'s policy_table \<Rightarrow> agent_id \<Rightarrow> string option" where
  "policy_kind pt agent =
     Option.bind (get_opt (pt_slot pt) (agent_no agent)) (\<lambda>state.
       if state = HELD then None
       else Option.bind (get_opt (pt_kind_of pt) state) (\<lambda>kind. get_opt (pt_kinds pt) (kind_no kind)))"

definition policy_ok :: "'s policy_table \<Rightarrow> bool" where
  "policy_ok pt \<longleftrightarrow>
     length (pt_kind_of pt) = length (pt_states pt) \<and>
     list_all (\<lambda>s. s = HELD \<or> s < length (pt_states pt)) (pt_slot pt) \<and>
     list_all (\<lambda>k. kind_no k < length (pt_kinds pt)) (pt_kind_of pt)"

lemma policy_state_kind:
  "policy_ok pt \<Longrightarrow> policy_state pt agent = None \<longleftrightarrow> policy_kind pt agent = None"
  by (auto simp: policy_state_def policy_kind_def policy_ok_def get_opt_def list_all_length
      split: bind_splits if_splits)

subsection \<open>Counts of played actions\<close>

datatype implicit_pattern = GridCenter bool | NetworkEdgesPattern | WholePopulationPattern

record played_counts =
  pc_by_role :: "nat list list"
  pc_total :: nat
  pc_pattern :: "implicit_pattern option"

definition played_new :: "nat \<Rightarrow> implicit_pattern option \<Rightarrow> played_counts" where
  "played_new n_roles pat =
     \<lparr>pc_by_role = replicate n_roles [], pc_total = 0, pc_pattern = pat\<rparr>"

text \<open>\<open>Vec::resize(n, 0)\<close> of a shorter vector.\<close>

definition grow :: "nat \<Rightarrow> nat list \<Rightarrow> nat list" where
  "grow n row = row @ replicate (n - length row) 0"

definition played_increment :: "nat \<Rightarrow> nat \<Rightarrow> played_counts \<Rightarrow> unit result \<times> played_counts" where
  "played_increment role action pc =
     (if role \<ge> length (pc_by_role pc)
      then (Inl (Mechanism (''played-action count has no role '' @ show_nat role)), pc)
      else
        let row = (let row = pc_by_role pc ! role in if length row \<le> action then grow (action + 1) row else row);
            pc1 = pc\<lparr>pc_by_role := list_update (pc_by_role pc) role row\<rparr>
        in case checked_add (row ! action) 1 of
             None \<Rightarrow> (Inl (Mechanism (''played-action count overflowed for role '' @ show_nat role @
                 '' action '' @ show_nat action)), pc1)
           | Some c \<Rightarrow>
               let pc2 = pc1\<lparr>pc_by_role := list_update (pc_by_role pc1) role (list_update row action c)\<rparr>
               in case checked_add (pc_total pc2) 1 of
                    None \<Rightarrow> (Inl (Mechanism ''played seat count overflowed''), pc2)
                  | Some tot \<Rightarrow> (Inr (), pc2\<lparr>pc_total := tot\<rparr>))"

definition played_count :: "played_counts \<Rightarrow> nat \<Rightarrow> nat \<Rightarrow> nat" where
  "played_count pc role action =
     (if role < length (pc_by_role pc) \<and> action < length (pc_by_role pc ! role)
      then pc_by_role pc ! role ! action else 0)"

lemma length_grow [simp]: "length (grow n row) = max n (length row)"
  by (simp add: grow_def)

lemma nth_grow: "i < max n (length row) \<Longrightarrow> grow n row ! i = (if i < length row then row ! i else 0)"
  by (auto simp: grow_def nth_append)

lemma played_increment_Ok:
  assumes "fst (played_increment role action pc) = Inr ()"
  shows "role < length (pc_by_role pc) \<and> snd (played_increment role action pc) =
    pc\<lparr>pc_by_role := list_update (pc_by_role pc) role (let row = grow (action + 1) (pc_by_role pc ! role)
         in list_update row action (row ! action + 1)),
       pc_total := pc_total pc + 1\<rparr>"
proof -
  have role: "role < length (pc_by_role pc)"
    using assms by (auto simp: played_increment_def split: if_splits)
  have row: "(if length r \<le> action then grow (action + 1) r else r) = grow (action + 1) r" for r
    by (simp add: grow_def)
  show ?thesis
    using assms role unfolding played_increment_def Let_def row
    by (simp add: checked_add_def split: if_splits)
qed

lemma played_increment_count:
  assumes "fst (played_increment role action pc) = Inr ()"
  shows "played_count (snd (played_increment role action pc)) role' action' =
      played_count pc role' action' + (if role' = role \<and> action' = action then 1 else 0) \<and>
    pc_total (snd (played_increment role action pc)) = pc_total pc + 1"
proof -
  note ok = played_increment_Ok [OF assms]
  show ?thesis
  proof (cases "role' = role")
    case True
    then show ?thesis
      using ok by (auto simp: played_count_def Let_def nth_grow nth_list_update)
  next
    case False
    then show ?thesis using ok by (simp add: played_count_def)
  qed
qed

end
