(* ===== verification/Game_World.thy ===== *)
theory Game_World
  imports Grid_Index Arena Histories
begin

section \<open>Topology and the game world (crates/socsim-games/src/world)\<close>

text \<open>
  The topology wraps a social network or a grid and precomputes neighbour tables; the game world
  is the record of everything a game simulation keeps. The network types come from
  \<open>socsim-net\<close>; the topology reads them through four queries each, the records \<open>social_ops\<close>.
  The world is a \<open>world_state\<close>, so the engine's results hold for it, and its \<open>neighbors_of\<close> is
  shown symmetric and closed over the world's agents on every accepted grid.
\<close>

subsection \<open>Errors and small types\<close>

datatype game_error =
    AgentCount nat nat
  | InvalidHistoryLength
  | InvalidAggregateHistoryLength
  | UnsupportedRoles nat
  | InvalidMatching string
  | TopologyError string
  | PopulationError string
  | MetricsError string
  | InvalidKinds "string list" "string list"
  | ManifestMismatch string
  | ConfigError string

datatype matching_state = NoMatchingState | RoundRobinState u64

record 'f metrics_state =
  ms_prev :: "'f list option"
  ms_below :: nat
  ms_cumulative :: "u64 list list option"

definition metrics_state_new :: "u64 list list option \<Rightarrow> 'f metrics_state" where
  "metrics_state_new cumulative = \<lparr>ms_prev = None, ms_below = 0, ms_cumulative = cumulative\<rparr>"

subsection \<open>Network topology\<close>

record 'n social_ops =
  so_node_count :: "'n \<Rightarrow> nat"
  so_contains :: "'n \<Rightarrow> agent_id \<Rightarrow> bool"
  so_neighbors :: "'n \<Rightarrow> agent_id \<Rightarrow> agent_id list"
  so_edges :: "'n \<Rightarrow> (agent_id \<times> agent_id) list"

datatype ('n, 'd) network_kind = Undirected 'n | Directed 'd

record network_tables =
  nt_offsets :: "nat list"
  nt_neighbors :: "agent_id list"
  nt_edges :: "(agent_id \<times> agent_id) list"
  nt_incident_offsets :: "nat list"
  nt_incident_edges :: "nat list"

record ('n, 'd) network_topology =
  net_network :: "('n, 'd) network_kind"
  net_tables :: network_tables

text \<open>The \<open>match &network\<close> of each query; \<open>D\<close>'s neighbours are the out-neighbours.\<close>

definition kind_node_count :: "'n social_ops \<Rightarrow> 'd social_ops \<Rightarrow> ('n, 'd) network_kind \<Rightarrow> nat" where
  "kind_node_count U D k = (case k of Undirected n \<Rightarrow> so_node_count U n | Directed n \<Rightarrow> so_node_count D n)"

definition kind_neighbors :: "'n social_ops \<Rightarrow> 'd social_ops \<Rightarrow> ('n, 'd) network_kind \<Rightarrow> agent_id \<Rightarrow> agent_id list" where
  "kind_neighbors U D k i = (case k of Undirected n \<Rightarrow> so_neighbors U n i | Directed n \<Rightarrow> so_neighbors D n i)"

definition kind_edges :: "'n social_ops \<Rightarrow> 'd social_ops \<Rightarrow> ('n, 'd) network_kind \<Rightarrow> (agent_id \<times> agent_id) list" where
  "kind_edges U D k = (case k of Undirected n \<Rightarrow> so_edges U n | Directed n \<Rightarrow> so_edges D n)"

definition kind_contains :: "'n social_ops \<Rightarrow> 'd social_ops \<Rightarrow> ('n, 'd) network_kind \<Rightarrow> agent_id \<Rightarrow> bool" where
  "kind_contains U D k i = (case k of Undirected n \<Rightarrow> so_contains U n i | Directed n \<Rightarrow> so_contains D n i)"

text \<open>\<open>neighbors.extend(row); offsets.push(neighbors.len())\<close>.\<close>

definition csr_push :: "'a list \<Rightarrow> nat list \<times> 'a list \<Rightarrow> nat list \<times> 'a list" where
  "csr_push row st = (let fl = snd st @ row in (fst st @ [length fl], fl))"

text \<open>One edge of the loop that fills \<open>incident_rows\<close>.\<close>

definition push_incident :: "nat \<Rightarrow> agent_id \<Rightarrow> nat list list \<Rightarrow> nat list list" where
  "push_incident edge_index agent rws =
     (if agent_no agent < length rws
      then list_update rws (agent_no agent) (rws ! agent_no agent @ [edge_index]) else rws)"

definition add_incident :: "nat \<times> agent_id \<times> agent_id \<Rightarrow> nat list list \<Rightarrow> nat list list" where
  "add_incident e rws =
     (let (edge_index, source, target) = e;
          rws1 = push_incident edge_index source rws
      in if target \<noteq> source then push_incident edge_index target rws1 else rws1)"

definition from_kind ::
    "'n social_ops \<Rightarrow> 'd social_ops \<Rightarrow> ('n, 'd) network_kind \<Rightarrow> ('n, 'd) network_topology" where
  "from_kind U D k =
     (let n = kind_node_count U D k;
          (offs, nbs) = fold (\<lambda>index. csr_push (remdups_adj (sort (kind_neighbors U D k (AgentId index)))))
             [0..<n] ([0], []);
          edges = remdups_adj (sort (kind_edges U D k));
          incident_rows = fold add_incident (List.enumerate 0 edges) (replicate n []);
          (ioffs, ies) = fold csr_push incident_rows ([0], [])
      in \<lparr>net_network = k,
          net_tables = \<lparr>nt_offsets = offs, nt_neighbors = nbs, nt_edges = edges,
                        nt_incident_offsets = ioffs, nt_incident_edges = ies\<rparr>\<rparr>)"

text \<open>A lookup: an index past the offsets gives the empty slice; \<open>&v[start..end]\<close> panics out of
  range, which the tables of \<open>from_kind\<close> never do (\<open>table_lookup_rows\<close>).\<close>

definition table_lookup :: "nat list \<Rightarrow> 'a list \<Rightarrow> agent_id \<Rightarrow> 'a list" where
  "table_lookup offs xs i =
     (case (get_opt offs (agent_no i), get_opt offs (agent_no i + 1)) of
        (Some start, Some end') \<Rightarrow> take (end' - start) (drop start xs)
      | _ \<Rightarrow> [])"

definition net_neighbors :: "('n, 'd) network_topology \<Rightarrow> agent_id \<Rightarrow> agent_id list" where
  "net_neighbors nt = table_lookup (nt_offsets (net_tables nt)) (nt_neighbors (net_tables nt))"

definition incident_edges :: "('n, 'd) network_topology \<Rightarrow> agent_id \<Rightarrow> nat list" where
  "incident_edges nt = table_lookup (nt_incident_offsets (net_tables nt)) (nt_incident_edges (net_tables nt))"

definition net_edges :: "('n, 'd) network_topology \<Rightarrow> (agent_id \<times> agent_id) list" where
  "net_edges nt = nt_edges (net_tables nt)"

definition network_validate ::
    "'n social_ops \<Rightarrow> 'd social_ops \<Rightarrow> ('n, 'd) network_topology \<Rightarrow> agent_id list \<Rightarrow> game_error + unit" where
  "network_validate U D nt ids =
     (let n = kind_node_count U D (net_network nt)
      in if n \<noteq> length ids \<or> list_ex (\<lambda>i. \<not> kind_contains U D (net_network nt) i) ids
         then Inl (TopologyError ''network vertices must equal the world's agent IDs'')
         else if list_ex (\<lambda>(source, target). source = target) (nt_edges (net_tables nt))
         then Inl (TopologyError ''network self-loops are not supported'')
         else Inr ())"

subsection \<open>Grid topology\<close>

datatype grid_boundary = GB_Fixed | GB_Toroidal

datatype grid_neighbors = GN_Moore | GN_VonNeumann

record grid_spec =
  gs_rows :: nat
  gs_cols :: nat
  gs_boundary :: grid_boundary
  gs_neighborhood :: grid_neighbors

definition boundary_into :: "grid_boundary \<Rightarrow> boundary" where
  "boundary_into b = (case b of GB_Fixed \<Rightarrow> Fixed | GB_Toroidal \<Rightarrow> Toroidal)"

definition neighbors_into_kind :: "grid_neighbors \<Rightarrow> neighborhood" where
  "neighbors_into_kind n = (case n of GN_Moore \<Rightarrow> Moore | GN_VonNeumann \<Rightarrow> VonNeumann)"

definition cell_count :: "grid_spec \<Rightarrow> game_error + nat" where
  "cell_count spec =
     (if gs_rows spec = 0 \<or> gs_cols spec = 0
      then Inl (TopologyError ''grid rows and columns must be greater than zero'')
      else ok_or (TopologyError ''grid cell count overflow'') (checked_mul (gs_rows spec) (gs_cols spec)))"

record grid_topology =
  gt_spec :: grid_spec
  gt_adjacency :: adjacency

definition spec_grid :: "grid_spec \<Rightarrow> grid" where
  "spec_grid spec = grid_new (gs_rows spec) (gs_cols spec) (boundary_into (gs_boundary spec))"

definition grid_topology_new :: "grid_spec \<Rightarrow> game_error + grid_topology" where
  "grid_topology_new spec =
     try_bind (cell_count spec) (\<lambda>_.
       Inr \<lparr>gt_spec = spec,
            gt_adjacency = adjacency_table (spec_grid spec) (neighbors_into_kind (gs_neighborhood spec))\<rparr>)"

datatype ('n, 'd) topology =
    NoTopology
  | NetworkTopo "('n, 'd) network_topology"
  | GridTopo grid_topology

definition topology_grid :: "grid_spec \<Rightarrow> game_error + ('n, 'd) topology" where
  "topology_grid spec = try_bind (grid_topology_new spec) (\<lambda>gt. Inr (GridTopo gt))"

definition topology_network :: "'n social_ops \<Rightarrow> 'd social_ops \<Rightarrow> 'n \<Rightarrow> ('n, 'd) topology" where
  "topology_network U D n = NetworkTopo (from_kind U D (Undirected n))"

definition topology_directed :: "'n social_ops \<Rightarrow> 'd social_ops \<Rightarrow> 'd \<Rightarrow> ('n, 'd) topology" where
  "topology_directed U D n = NetworkTopo (from_kind U D (Directed n))"

definition validate_agents ::
    "'n social_ops \<Rightarrow> 'd social_ops \<Rightarrow> ('n, 'd) topology \<Rightarrow> agent_id list \<Rightarrow> game_error + unit" where
  "validate_agents U D topo ids =
     (case topo of
        NoTopology \<Rightarrow> Inr ()
      | NetworkTopo nt \<Rightarrow> network_validate U D nt ids
      | GridTopo gt \<Rightarrow>
          try_bind (cell_count (gt_spec gt)) (\<lambda>cells.
            if cells \<noteq> length ids
            then Inl (TopologyError (''grid has '' @ show_nat cells @ '' cells but the world has '' @
                   show_nat (length ids) @ '' agents''))
            else Inr ()))"

text \<open>The serialised form keeps the network or the spec only; the tables are rebuilt.\<close>

datatype ('n, 'd) topology_dto = NoneDto | UndirectedDto 'n | DirectedDto 'd | GridDto grid_spec

definition into_dto :: "('n, 'd) topology \<Rightarrow> ('n, 'd) topology_dto" where
  "into_dto topo =
     (case topo of
        NoTopology \<Rightarrow> NoneDto
      | NetworkTopo nt \<Rightarrow> (case net_network nt of Undirected n \<Rightarrow> UndirectedDto n | Directed n \<Rightarrow> DirectedDto n)
      | GridTopo gt \<Rightarrow> GridDto (gt_spec gt))"

definition from_dto ::
    "'n social_ops \<Rightarrow> 'd social_ops \<Rightarrow> ('n, 'd) topology_dto \<Rightarrow> game_error + ('n, 'd) topology" where
  "from_dto U D dto =
     (case dto of
        NoneDto \<Rightarrow> Inr NoTopology
      | UndirectedDto n \<Rightarrow> Inr (topology_network U D n)
      | DirectedDto n \<Rightarrow> Inr (topology_directed U D n)
      | GridDto spec \<Rightarrow> topology_grid spec)"

subsection \<open>The game world\<close>

text \<open>\<open>'g\<close> is the stage game, \<open>'a\<close> its actions, \<open>'f\<close> the payoffs, \<open>'s\<close> the policy states and \<open>'x\<close>
  the experiment state.\<close>

record ('g, 'a, 'f, 's, 'x, 'n, 'd) game_world =
  gw_clock :: sim_clock
  gw_ids :: "agent_id list"
  gw_game :: 'g
  gw_topology :: "('n, 'd) topology"
  gw_held :: "'a list"
  gw_policies :: "'s policy_table"
  gw_matching_state :: matching_state
  gw_plays :: "('a, 'f) play_arena"
  gw_payoff :: "'f list"
  gw_n_played :: "nat list"
  gw_played_counts :: "played_counts option"
  gw_step_history :: "('a, 'f) step_history"
  gw_pair_history :: "'a pair_history option"
  gw_aggregate :: "'f aggregate_table option"
  gw_reports :: "'f policy_reports option"
  gw_metrics_state :: "'f metrics_state option"
  gw_x :: 'x
  gw_decision_root :: u64

definition with_topology ::
    "'n social_ops \<Rightarrow> 'd social_ops \<Rightarrow> ('n, 'd) topology \<Rightarrow> ('g, 'a, 'f, 's, 'x, 'n, 'd) game_world \<Rightarrow>
     game_error + ('g, 'a, 'f, 's, 'x, 'n, 'd) game_world" where
  "with_topology U D topo w =
     try_bind (validate_agents U D topo (gw_ids w)) (\<lambda>_. Inr (w\<lparr>gw_topology := topo\<rparr>))"

definition world_history ::
    "('g, 'a, 'f, 's, 'x, 'n, 'd) game_world \<Rightarrow> agent_id \<Rightarrow> ('a, 'f) step_record history_view option" where
  "world_history w agent = history_view agent (gw_step_history w)"

definition reported_mixed :: "('g, 'a, 'f, 's, 'x, 'n, 'd) game_world \<Rightarrow> agent_id \<Rightarrow> nat \<Rightarrow> 'f list option" where
  "reported_mixed w agent role =
     Option.bind (gw_reports w) (\<lambda>rp. reports_get (agent_no agent) role rp)"

text \<open>\<open>adjacency().neighbors\<close> would panic past the end; the guard before it excludes that, and the
  \<open>[]\<close> of the second \<open>case\<close> is not reached.\<close>

definition neighbors_of :: "('g, 'a, 'f, 's, 'x, 'n, 'd) game_world \<Rightarrow> agent_id \<Rightarrow> agent_id list" where
  "neighbors_of w i =
     (case gw_topology w of
        NoTopology \<Rightarrow> []
      | NetworkTopo nt \<Rightarrow> net_neighbors nt i
      | GridTopo gt \<Rightarrow>
          if agent_no i \<ge> adj_len (gt_adjacency gt) then []
          else (case adj_neighbors (gt_adjacency gt) (agent_no i) of
                  Some nbs \<Rightarrow> map AgentId nbs | None \<Rightarrow> []))"

definition game_world_ops :: "('g, 'a, 'f, 's, 'x, 'n, 'd) game_world world_ops" where
  "game_world_ops =
     \<lparr>agent_ids = gw_ids, clock = gw_clock, set_clock = (\<lambda>c w. w\<lparr>gw_clock := c\<rparr>)\<rparr>"

interpretation game_world: world_state game_world_ops
  by unfold_locales (simp_all add: game_world_ops_def)

subsection \<open>The tables of a network topology\<close>

lemma fold_csr_push:
  "fold csr_push rws (map (\<lambda>k. length (concat (take k done))) [0..<Suc (length done)], concat done) =
     (map (\<lambda>k. length (concat (take k (done @ rws)))) [0..<Suc (length (done @ rws))], concat (done @ rws))"
proof (induction rws arbitrary: "done")
  case (Cons row rws)
  have "csr_push row (map (\<lambda>k. length (concat (take k done))) [0..<Suc (length done)], concat done) =
      (map (\<lambda>k. length (concat (take k (done @ [row])))) [0..<Suc (length (done @ [row]))], concat (done @ [row]))"
    by (simp add: csr_push_def Let_def)
  then show ?case using Cons.IH [of "done @ [row]"] by (simp del: upt_Suc)
qed simp

lemma csr_of_rows:
  "fold csr_push rws ([0], []) = (map (\<lambda>k. length (concat (take k rws))) [0..<Suc (length rws)], concat rws)"
  using fold_csr_push [of rws "[]"] by simp

lemma table_lookup_rows:
  assumes "(offs, xs) = fold csr_push rws ([0], [])"
  shows "table_lookup offs xs i = (if agent_no i < length rws then rws ! agent_no i else [])"
proof -
  let ?k = "agent_no i"
  have offs: "offs = map (\<lambda>k. length (concat (take k rws))) [0..<Suc (length rws)]" and xs: "xs = concat rws"
    using assms by (simp_all add: csr_of_rows)
  show ?thesis
  proof (cases "?k < length rws")
    case True
    then have lookup: "get_opt offs ?k = Some (length (concat (take ?k rws)))"
      "get_opt offs (?k + 1) = Some (length (concat (take (Suc ?k) rws)))"
      by (simp_all add: offs get_opt_def del: upt_Suc)
    have "slice_get xs (length (concat (take ?k rws))) (length (concat (take (Suc ?k) rws))) = Some (rws ! ?k)"
      unfolding xs by (rule csr_slice [OF True])
    then show ?thesis using True lookup
      by (simp add: table_lookup_def slice_get_def get_opt_def split: if_splits)
  next
    case False
    then have "get_opt offs (?k + 1) = None" by (simp add: offs del: upt_Suc)
    then show ?thesis using False by (simp add: table_lookup_def split: option.split)
  qed
qed

definition network_rows :: "'n social_ops \<Rightarrow> 'd social_ops \<Rightarrow> ('n, 'd) network_kind \<Rightarrow> agent_id list list" where
  "network_rows U D k =
     map (\<lambda>index. remdups_adj (sort (kind_neighbors U D k (AgentId index)))) [0..<kind_node_count U D k]"

text \<open>An edge touches an agent when it is its source or its target.\<close>

definition touches :: "agent_id \<Rightarrow> agent_id \<times> agent_id \<Rightarrow> bool" where
  "touches i e \<longleftrightarrow> fst e = i \<or> snd e = i"

definition incident_row :: "(agent_id \<times> agent_id) list \<Rightarrow> agent_id \<Rightarrow> nat list" where
  "incident_row edges i = filter (\<lambda>k. touches i (edges ! k)) [0..<length edges]"

lemma incident_row_snoc:
  "incident_row (edges @ [e]) i = incident_row edges i @ (if touches i e then [length edges] else [])"
  by (auto simp: incident_row_def nth_append intro!: filter_cong)

lemma length_add_incident [simp]: "length (add_incident e rws) = length rws"
  by (simp add: add_incident_def push_incident_def Let_def split: prod.splits)

lemma push_incident_nth:
  "i < length rws \<Longrightarrow> push_incident k agent rws ! i = rws ! i @ (if agent = AgentId i then [k] else [])"
  by (cases agent) (auto simp: push_incident_def nth_list_update)

lemma add_incident_nth:
  assumes "i < length rws"
  shows "add_incident (k, e) rws ! i = rws ! i @ (if touches (AgentId i) e then [k] else [])"
proof -
  have "i < length (push_incident k (fst e) rws)" using assms by (simp add: push_incident_def)
  with assms show ?thesis
    by (cases e) (auto simp: add_incident_def Let_def touches_def push_incident_nth)
qed

lemma incident_rows:
  "length (fold add_incident (List.enumerate 0 edges) (replicate n [])) = n \<and>
   (\<forall>i < n. fold add_incident (List.enumerate 0 edges) (replicate n []) ! i = incident_row edges (AgentId i))"
proof (induction edges rule: rev_induct)
  case (snoc e edges)
  then show ?case by (simp add: enumerate_append_eq add_incident_nth incident_row_snoc)
qed (simp add: incident_row_def)

lemma from_kind_tables:
  "net_neighbors (from_kind U D k) i =
     (if agent_no i < kind_node_count U D k then sorted_list_of_set (set (kind_neighbors U D k i)) else []) \<and>
   net_edges (from_kind U D k) = sorted_list_of_set (set (kind_edges U D k)) \<and>
   incident_edges (from_kind U D k) i =
     (if agent_no i < kind_node_count U D k then incident_row (net_edges (from_kind U D k)) i else []) \<and>
   net_network (from_kind U D k) = k"
proof -
  let ?n = "kind_node_count U D k"
  let ?edges = "remdups_adj (sort (kind_edges U D k))"
  let ?inc = "fold add_incident (List.enumerate 0 ?edges) (replicate ?n [])"
  obtain offs nbs where f1: "fold csr_push (network_rows U D k) ([0], []) = (offs, nbs)" by fastforce
  obtain ioffs ies where f2: "fold csr_push ?inc ([0], []) = (ioffs, ies)" by fastforce
  have rows: "fold (\<lambda>index. csr_push (remdups_adj (sort (kind_neighbors U D k (AgentId index)))))
      [0..<?n] ([0], []) = (offs, nbs)"
    using f1 by (simp add: network_rows_def fold_map comp_def)
  have fk: "from_kind U D k = \<lparr>net_network = k,
      net_tables = \<lparr>nt_offsets = offs, nt_neighbors = nbs, nt_edges = ?edges,
        nt_incident_offsets = ioffs, nt_incident_edges = ies\<rparr>\<rparr>"
    by (simp add: from_kind_def Let_def rows f2)
  have "net_neighbors (from_kind U D k) i =
      (if agent_no i < ?n then sorted_list_of_set (set (kind_neighbors U D k i)) else [])"
    using table_lookup_rows [OF f1 [symmetric], of i]
    by (simp add: fk net_neighbors_def network_rows_def remdups_adj_sort)
  moreover have "incident_edges (from_kind U D k) i = (if agent_no i < ?n then incident_row ?edges i else [])"
    using table_lookup_rows [OF f2 [symmetric], of i] incident_rows [of ?edges ?n]
    by (simp add: fk incident_edges_def)
  ultimately show ?thesis by (simp add: fk net_edges_def remdups_adj_sort)
qed

text \<open>
  the precomputed tables of a network answer, for every vertex, its neighbours sorted and
  without repeats, and exactly the positions, ascending, of the edges that touch it in the sorted
  edge list; an identifier past the vertices gets empty lists.
\<close>

theorem network_tables_answer:
  "net_neighbors (from_kind U D k) i =
     (if agent_no i < kind_node_count U D k then sorted_list_of_set (set (kind_neighbors U D k i)) else []) \<and>
   net_edges (from_kind U D k) = sorted_list_of_set (set (kind_edges U D k)) \<and>
   incident_edges (from_kind U D k) i =
     filter (\<lambda>e. agent_no i < kind_node_count U D k \<and>
         (fst (net_edges (from_kind U D k) ! e) = i \<or> snd (net_edges (from_kind U D k) ! e) = i))
       [0..<length (net_edges (from_kind U D k))]"
  using from_kind_tables [of U D k i] by (auto simp: incident_row_def touches_def)

subsection \<open>Accepted topologies\<close>

lemma cell_count_Inr:
  "cell_count spec = Inr n \<longleftrightarrow>
     0 < gs_rows spec \<and> 0 < gs_cols spec \<and> n = gs_rows spec * gs_cols spec \<and> n \<le> usize_max"
  by (auto simp: cell_count_def checked_mul_def)

lemma with_topology_Inr:
  "with_topology U D topo w = Inr w' \<longleftrightarrow> validate_agents U D topo (gw_ids w) = Inr () \<and> w' = w\<lparr>gw_topology := topo\<rparr>"
  by (auto simp: with_topology_def try_bind_eq_Inr)

lemma topology_grid_Inr:
  "topology_grid spec = Inr topo \<longleftrightarrow>
     (\<exists>n. cell_count spec = Inr n) \<and>
     topo = GridTopo \<lparr>gt_spec = spec,
       gt_adjacency = adjacency_table (spec_grid spec) (neighbors_into_kind (gs_neighborhood spec))\<rparr>"
  by (auto simp: topology_grid_def grid_topology_new_def try_bind_eq_Inr)

text \<open>Agent \<open>i\<close> sits in the cell with row-major index \<open>i\<close>.\<close>

lemma grid_neighbors_of:
  assumes "topology_grid spec = Inr topo" "gw_topology w = topo"
  shows "neighbors_of w i =
    (if agent_no i < gs_rows spec * gs_cols spec
     then map (\<lambda>cell. AgentId (flat_index (spec_grid spec) cell))
       (neighbors_radius (spec_grid spec) (agent_no i div gs_cols spec) (agent_no i mod gs_cols spec)
         (neighbors_into_kind (gs_neighborhood spec)) 1)
     else [])"
proof -
  have g: "rows (spec_grid spec) = gs_rows spec" "cols (spec_grid spec) = gs_cols spec"
    by (simp_all add: spec_grid_def grid_new_def)
  have len: "adj_len (adjacency_radius g nb r) = grid_len g" for g nb r
    by (simp add: adj_len_def adjacency_radius_rows Let_def del: upt_Suc)
  show ?thesis
    using assms
    by (auto simp: topology_grid_Inr neighbors_of_def adjacency_table_def len adjacency_row adjacency_past
        grid_len_def g flat_index_def not_less)
qed

lemma grid_neighbors_of_iff:
  assumes "topology_grid spec = Inr topo" "gw_topology w = topo" "agent_no a < gs_rows spec * gs_cols spec"
  shows "b \<in> set (neighbors_of w a) \<longleftrightarrow>
    agent_no b < gs_rows spec * gs_cols spec \<and>
    (agent_no b div gs_cols spec, agent_no b mod gs_cols spec) \<in>
      set (neighbors_radius (spec_grid spec) (agent_no a div gs_cols spec) (agent_no a mod gs_cols spec)
         (neighbors_into_kind (gs_neighborhood spec)) 1)"
proof -
  let ?g = "spec_grid spec"
  have g: "cols ?g = gs_cols spec" "grid_len ?g = gs_rows spec * gs_cols spec" "rows ?g = gs_rows spec"
    by (simp_all add: spec_grid_def grid_new_def grid_len_def)
  have a: "in_grid ?g (agent_no a div gs_cols spec, agent_no a mod gs_cols spec)"
    using flat_index_onto [of "agent_no a" ?g] assms(3) by (simp add: g)
  let ?N = "neighbors_radius ?g (agent_no a div gs_cols spec) (agent_no a mod gs_cols spec)
      (neighbors_into_kind (gs_neighborhood spec)) 1"
  have inside: "in_grid ?g cell" if "cell \<in> set ?N" for cell
    using that set_neighbors_one [OF a] by auto
  show ?thesis
  proof
    assume "b \<in> set (neighbors_of w a)"
    then obtain cell where cell: "cell \<in> set ?N" "b = AgentId (flat_index ?g cell)"
      using grid_neighbors_of [OF assms(1,2), of a] assms(3) by auto
    then show "agent_no b < gs_rows spec * gs_cols spec \<and>
        (agent_no b div gs_cols spec, agent_no b mod gs_cols spec) \<in> set ?N"
      using flat_index_less [OF inside] flat_index_div_mod [OF inside] by (simp add: g)
  next
    assume R: "agent_no b < gs_rows spec * gs_cols spec \<and>
        (agent_no b div gs_cols spec, agent_no b mod gs_cols spec) \<in> set ?N"
    then have "b = AgentId (flat_index ?g (agent_no b div gs_cols spec, agent_no b mod gs_cols spec))"
      using flat_index_onto [of "agent_no b" ?g] by (simp add: g)
    then show "b \<in> set (neighbors_of w a)"
      using grid_neighbors_of [OF assms(1,2), of a] assms(3) R by auto
  qed
qed

text \<open>
  a world that accepts a grid (its agents are numbered from zero) has a neighbour relation
  that stays inside its agents, never relates an agent to itself and is symmetric.
\<close>

theorem accepted_grid_neighbors:
  assumes "topology_grid spec = Inr topo" and "with_topology U D topo w = Inr w'"
    and "gw_ids w = map AgentId [0..<n]" and "a \<in> set (gw_ids w)"
  shows "set (neighbors_of w' a) \<subseteq> set (gw_ids w') \<and> a \<notin> set (neighbors_of w' a) \<and>
    (\<forall>b \<in> set (neighbors_of w' a). a \<in> set (neighbors_of w' b))"
proof -
  let ?g = "spec_grid spec" and ?nb = "neighbors_into_kind (gs_neighborhood spec)"
  have w': "gw_topology w' = topo" "gw_ids w' = gw_ids w"
    using assms(2) by (auto simp: with_topology_Inr)
  have n: "n = gs_rows spec * gs_cols spec"
    using assms(1-3) by (auto simp: with_topology_Inr topology_grid_Inr validate_agents_def
        try_bind_eq_Inr cell_count_Inr split: if_splits)
  have a: "agent_no a < gs_rows spec * gs_cols spec" using assms(3,4) n by auto
  note iff = grid_neighbors_of_iff [OF assms(1) w'(1)]
  have g: "cols ?g = gs_cols spec" "grid_len ?g = gs_rows spec * gs_cols spec"
    by (simp_all add: spec_grid_def grid_new_def grid_len_def)
  have in_g: "in_grid ?g (agent_no c div gs_cols spec, agent_no c mod gs_cols spec)"
    if "agent_no c < gs_rows spec * gs_cols spec" for c
    using flat_index_onto [of "agent_no c" ?g] that by (simp add: g)
  have "b \<in> set (gw_ids w')" if "b \<in> set (neighbors_of w' a)" for b
  proof -
    have "agent_no b < n" using that iff [OF a, of b] n by blast
    then have "AgentId (agent_no b) \<in> AgentId ` {0..<n}" by (intro imageI) simp
    then show ?thesis using w'(2) assms(3) by simp
  qed
  moreover have "a \<notin> set (neighbors_of w' a)"
    using iff [OF a, of a] set_neighbors_one [OF in_g [OF a]] by auto
  moreover have "a \<in> set (neighbors_of w' b)" if "b \<in> set (neighbors_of w' a)" for b
    using that iff [OF a, of b] iff [of b a] a in_g [of a] in_g [of b]
    by (auto simp: set_neighbors_one [unfolded One_nat_def] in_grid_def cell_distance_commute)
  ultimately show ?thesis by blast
qed

text \<open>A world of a game without state, with \<open>n\<close> agents that have not played, for concrete runs.\<close>

definition idle_world :: "nat \<Rightarrow> (unit, nat, nat, unit, unit, unit, unit) game_world" where
  "idle_world n =
     \<lparr>gw_clock = clock_new 10, gw_ids = map AgentId [0..<n], gw_game = (), gw_topology = NoTopology,
      gw_held = replicate n 0, gw_policies = policy_new [] (replicate n HELD) [] [],
      gw_matching_state = NoMatchingState, gw_plays = arena_new 2, gw_payoff = replicate n 0,
      gw_n_played = replicate n 0, gw_played_counts = None, gw_step_history = step_history_new 0 n 1,
      gw_pair_history = None, gw_aggregate = None, gw_reports = None, gw_metrics_state = None,
      gw_x = (), gw_decision_root = 0\<rparr>"

definition no_network :: "unit social_ops" where
  "no_network = \<lparr>so_node_count = (\<lambda>_. 0), so_contains = (\<lambda>_ _. False), so_neighbors = (\<lambda>_ _. []),
     so_edges = (\<lambda>_. [])\<rparr>"

definition torus_spec :: grid_spec where
  "torus_spec = \<lparr>gs_rows = 3, gs_cols = 4, gs_boundary = GB_Toroidal, gs_neighborhood = GN_Moore\<rparr>"

theorem accepted_grid_neighbors_witness:
  "\<exists>topo w'. topology_grid torus_spec = Inr topo \<and>
     with_topology no_network no_network topo (idle_world 12) = Inr w' \<and>
     set (neighbors_of w' (AgentId 5)) \<subseteq> set (gw_ids w') \<and> AgentId 5 \<notin> set (neighbors_of w' (AgentId 5))"
proof -
  obtain topo :: "(unit, unit) topology" where topo: "topology_grid torus_spec = Inr topo"
    by (auto simp: topology_grid_Inr cell_count_Inr torus_spec_def usize_max_def)
  have "cell_count torus_spec = Inr 12" by (simp add: cell_count_Inr torus_spec_def usize_max_def)
  then have "with_topology no_network no_network topo (idle_world 12) = Inr ((idle_world 12)\<lparr>gw_topology := topo\<rparr>)"
    using topo by (auto simp: with_topology_Inr topology_grid_Inr validate_agents_def idle_world_def)
  moreover have "gw_ids (idle_world 12) = map AgentId [0..<12]" "AgentId 5 \<in> set (gw_ids (idle_world 12))"
    by (simp_all add: idle_world_def)
  ultimately show ?thesis using accepted_grid_neighbors [OF topo, of no_network no_network "idle_world 12"] topo
    by blast
qed

text \<open>Serialisation keeps a topology that was built by the constructors.\<close>

lemma dto_roundtrip:
  "from_dto U D (into_dto (topology_network U D n)) = Inr (topology_network U D n)"
  "from_dto U D (into_dto (topology_directed U D d)) = Inr (topology_directed U D d)"
  "topology_grid spec = Inr topo \<Longrightarrow> from_dto U D (into_dto topo) = Inr topo"
  using from_kind_tables [of U D "Undirected n"] from_kind_tables [of U D "Directed d"]
  by (auto simp: from_dto_def into_dto_def topology_network_def topology_directed_def topology_grid_Inr)

end
