(* ===== verification/Matching.thy ===== *)
theory Matching
  imports Game_World
begin

section \<open>Matchings (crates/socsim-games/src/matching, src/mechanism/matching.rs)\<close>

text \<open>
  The seven built-in matchings, the mechanism that runs them and the locale \<open>seating\<close>: what the
  step relies on. A successful matching fills the arena with encounters of known agents, one seat
  per role, and pays every agent within the bounds it declares. A matching's loops only push, so
  each is the list of encounters it pushes in order, given to \<open>push_all\<close>, which stops at the first
  refused push. \<open>SliceRandom::shuffle\<close> is the parameter \<open>shuffle\<close>, a permutation.
\<close>

subsection \<open>Context and interface\<close>

datatype decision_scope = PerStep | PerAgentRole | PerEncounter

record ('g, 'a, 'f, 'x, 'n, 'd) match_context =
  mc_t :: u64
  mc_decision_scope :: decision_scope
  mc_ids :: "agent_id list"
  mc_game :: 'g
  mc_topology :: "('n, 'd) topology"
  mc_held :: "'a list"
  mc_history :: "('a, 'f) step_history"
  mc_x :: 'x

definition mc_held_of :: "('g, 'a, 'f, 'x, 'n, 'd) match_context \<Rightarrow> agent_id \<Rightarrow> 'a option" where
  "mc_held_of ctx agent = get_opt (mc_held ctx) (agent_no agent)"

definition mc_history_of ::
    "('g, 'a, 'f, 'x, 'n, 'd) match_context \<Rightarrow> agent_id \<Rightarrow> ('a, 'f) step_record history_view option" where
  "mc_history_of ctx agent = history_view agent (mc_history ctx)"

record encounter_bounds =
  eb_min :: nat
  eb_max :: nat

text \<open>The trait; \<open>'c\<close> is the context, \<open>'r\<close> the generator, \<open>'ar\<close> the arena.\<close>

record ('c, 'r, 'ar) matching =
  mt_name :: string
  mt_check :: "'c \<Rightarrow> game_error + unit"
  mt_supports_roles :: "nat \<Rightarrow> bool"
  mt_encounter_bounds :: "'c \<Rightarrow> encounter_bounds option"
  mt_allows_multi_role :: bool
  mt_implicit :: "implicit_pattern option"
  mt_init_state :: "'c \<Rightarrow> matching_state"
  mt_encounters_into :: "'c \<Rightarrow> matching_state \<Rightarrow> 'r \<Rightarrow> 'ar \<Rightarrow> unit result \<times> matching_state \<times> 'r \<times> 'ar"

text \<open>The provided methods of the trait.\<close>

definition default_supports_roles :: "nat \<Rightarrow> bool" where
  "default_supports_roles n_roles \<longleftrightarrow> n_roles = 2"

definition default_encounter_bounds :: "'c \<Rightarrow> encounter_bounds option" where
  "default_encounter_bounds ctx = None"

definition default_allows_multi_role :: bool where
  "default_allows_multi_role = False"

definition default_implicit :: "implicit_pattern option" where
  "default_implicit = None"

definition default_init_state :: "'c \<Rightarrow> matching_state" where
  "default_init_state ctx = NoMatchingState"

subsection \<open>RoundRobin\<close>

record round_robin =
  rr_both_orders :: bool
  rr_self_play :: bool

definition rr_check ::
    "('g \<Rightarrow> nat) \<Rightarrow> round_robin \<Rightarrow> ('g, 'a, 'f, 'x, 'n, 'd) match_context \<Rightarrow> game_error + unit" where
  "rr_check n_roles self ctx =
     (if n_roles (mc_game ctx) \<noteq> 2
      then Inl (InvalidMatching ''RoundRobin requires exactly two roles'')
      else if rr_self_play self then Inl (InvalidMatching ''RoundRobin self-play is not supported'')
      else if mc_decision_scope ctx = PerStep \<and> (length (mc_ids ctx) \<ge> 3 \<or> rr_both_orders self)
      then Inl (InvalidMatching ''RoundRobin assigns more than one role to an agent in a per-step decision'')
      else Inr ())"

definition rr_init_state :: "'c \<Rightarrow> matching_state" where
  "rr_init_state ctx = RoundRobinState 0"

definition rr_encounters :: "round_robin \<Rightarrow> agent_id list \<Rightarrow> (agent_id list \<times> credit) list" where
  "rr_encounters self ids =
     concat (map (\<lambda>left.
       concat (map (\<lambda>right.
         ([ids ! left, ids ! right], CreditAll) #
         (if rr_both_orders self then [([ids ! right, ids ! left], CreditAll)] else []))
         [left + 1..<length ids])) [0..<length ids])"

definition rr_encounters_into ::
    "'f \<Rightarrow> round_robin \<Rightarrow> ('g, 'a, 'f, 'x, 'n, 'd) match_context \<Rightarrow> matching_state \<Rightarrow> 'r \<Rightarrow>
     ('a, 'f) play_arena \<Rightarrow> unit result \<times> matching_state \<times> 'r \<times> ('a, 'f) play_arena" where
  "rr_encounters_into zero self ctx st rng ar =
     (case push_all zero (rr_encounters self (sort (mc_ids ctx))) ar of
        (Inl e, ar') \<Rightarrow> (Inl e, st, rng, ar')
      | (Inr _, ar') \<Rightarrow>
          (case st of
             NoMatchingState \<Rightarrow> (Inl (Mechanism ''RoundRobin matching state is not initialized''), st, rng, ar')
           | RoundRobinState cursor \<Rightarrow>
               if cursor = - 1
               then (Inl (Mechanism ''RoundRobin cursor overflow''), st, rng, ar')
               else (Inr (), RoundRobinState (cursor + 1), rng, ar')))"

definition round_robin_matching ::
    "('g \<Rightarrow> nat) \<Rightarrow> 'f \<Rightarrow> round_robin \<Rightarrow>
     (('g, 'a, 'f, 'x, 'n, 'd) match_context, 'r, ('a, 'f) play_arena) matching" where
  "round_robin_matching n_roles zero self =
     \<lparr>mt_name = ''round_robin'', mt_check = rr_check n_roles self,
      mt_supports_roles = default_supports_roles, mt_encounter_bounds = default_encounter_bounds,
      mt_allows_multi_role = default_allows_multi_role, mt_implicit = default_implicit,
      mt_init_state = rr_init_state, mt_encounters_into = rr_encounters_into zero self\<rparr>"

subsection \<open>FixedPlayers\<close>

type_synonym fixed_players = "(agent_id \<times> agent_id) list"

definition fixed_pairs :: "(nat \<times> nat) list \<Rightarrow> fixed_players" where
  "fixed_pairs pairs = map (\<lambda>(left, right). (AgentId left, AgentId right)) pairs"

text \<open>One agent of the loop of \<open>check\<close> over the seats.\<close>

definition fixed_see :: "bool list \<Rightarrow> agent_id \<Rightarrow> game_error + bool list" where
  "fixed_see seen agent =
     (if agent_no agent \<ge> length seen
      then Inl (InvalidMatching (''unknown agent '' @ show_nat (agent_no agent)))
      else if seen ! agent_no agent
      then Inl (InvalidMatching (''agent '' @ show_nat (agent_no agent) @ '' appears more than once''))
      else Inr (list_update seen (agent_no agent) True))"

definition fixed_check ::
    "('g \<Rightarrow> nat) \<Rightarrow> fixed_players \<Rightarrow> ('g, 'a, 'f, 'x, 'n, 'd) match_context \<Rightarrow> game_error + unit" where
  "fixed_check n_roles self ctx =
     (if n_roles (mc_game ctx) \<noteq> 2
      then Inl (InvalidMatching ''FixedPlayers requires exactly two roles'')
      else try_bind (try_fold (\<lambda>seen (left, right). try_fold fixed_see seen [left, right])
             (replicate (length (mc_ids ctx)) False) self) (\<lambda>_. Inr ()))"

definition fixed_encounters_into ::
    "'f \<Rightarrow> fixed_players \<Rightarrow> 'c \<Rightarrow> matching_state \<Rightarrow> 'r \<Rightarrow>
     ('a, 'f) play_arena \<Rightarrow> unit result \<times> matching_state \<times> 'r \<times> ('a, 'f) play_arena" where
  "fixed_encounters_into zero self ctx st rng ar =
     (let (r, ar') = push_all zero (map (\<lambda>(left, right). ([left, right], CreditAll)) self) ar
      in (r, st, rng, ar'))"

definition fixed_players_matching ::
    "('g \<Rightarrow> nat) \<Rightarrow> 'f \<Rightarrow> fixed_players \<Rightarrow>
     (('g, 'a, 'f, 'x, 'n, 'd) match_context, 'r, ('a, 'f) play_arena) matching" where
  "fixed_players_matching n_roles zero self =
     \<lparr>mt_name = ''fixed_players'', mt_check = fixed_check n_roles self,
      mt_supports_roles = default_supports_roles, mt_encounter_bounds = default_encounter_bounds,
      mt_allows_multi_role = default_allows_multi_role, mt_implicit = default_implicit,
      mt_init_state = default_init_state, mt_encounters_into = fixed_encounters_into zero self\<rparr>"

subsection \<open>RandomPairs and RandomGroups\<close>

text \<open>\<open>chunks_exact(k)\<close> (and \<open>as_chunks::<2>().0\<close>): the leading full chunks; \<open>k = 0\<close> is excluded
  by the constructor.\<close>

function chunks_exact :: "nat \<Rightarrow> 'a list \<Rightarrow> 'a list list" where
  "chunks_exact k xs = (if k = 0 \<or> length xs < k then [] else take k xs # chunks_exact k (drop k xs))"
  by pat_completeness auto
termination
  by (relation "measure (\<lambda>(k, xs). length xs)") auto

declare chunks_exact.simps [simp del]

definition pairs_check ::
    "('g \<Rightarrow> nat) \<Rightarrow> ('g, 'a, 'f, 'x, 'n, 'd) match_context \<Rightarrow> game_error + unit" where
  "pairs_check n_roles ctx =
     (if n_roles (mc_game ctx) \<noteq> 2 then Inl (InvalidMatching ''RandomPairs requires exactly two roles'')
      else Inr ())"

definition pairs_bounds :: "('g, 'a, 'f, 'x, 'n, 'd) match_context \<Rightarrow> encounter_bounds option" where
  "pairs_bounds ctx =
     Some (if length (mc_ids ctx) mod 2 = 0 then \<lparr>eb_min = 1, eb_max = 1\<rparr> else \<lparr>eb_min = 0, eb_max = 1\<rparr>)"

definition pairs_encounters_into ::
    "(agent_id list \<Rightarrow> 'r \<Rightarrow> agent_id list \<times> 'r) \<Rightarrow> 'f \<Rightarrow> ('g, 'a, 'f, 'x, 'n, 'd) match_context \<Rightarrow>
     matching_state \<Rightarrow> 'r \<Rightarrow> ('a, 'f) play_arena \<Rightarrow>
     unit result \<times> matching_state \<times> 'r \<times> ('a, 'f) play_arena" where
  "pairs_encounters_into shuffle zero ctx st rng ar =
     (let (ids, rng') = shuffle (mc_ids ctx) rng;
          (r, ar') = push_all zero (map (\<lambda>pair. (pair, CreditAll)) (chunks_exact 2 ids)) ar
      in (r, st, rng', ar'))"

definition random_pairs_matching ::
    "('g \<Rightarrow> nat) \<Rightarrow> (agent_id list \<Rightarrow> 'r \<Rightarrow> agent_id list \<times> 'r) \<Rightarrow> 'f \<Rightarrow>
     (('g, 'a, 'f, 'x, 'n, 'd) match_context, 'r, ('a, 'f) play_arena) matching" where
  "random_pairs_matching n_roles shuffle zero =
     \<lparr>mt_name = ''random_pairs'', mt_check = pairs_check n_roles,
      mt_supports_roles = default_supports_roles, mt_encounter_bounds = pairs_bounds,
      mt_allows_multi_role = default_allows_multi_role, mt_implicit = default_implicit,
      mt_init_state = default_init_state, mt_encounters_into = pairs_encounters_into shuffle zero\<rparr>"

record random_groups =
  rg_k :: nat

definition random_groups_new :: "nat \<Rightarrow> game_error + random_groups" where
  "random_groups_new k =
     (if k < 2 then Inl (InvalidMatching ''RandomGroups group size must be at least two'')
      else Inr \<lparr>rg_k = k\<rparr>)"

definition groups_check ::
    "('g \<Rightarrow> nat) \<Rightarrow> random_groups \<Rightarrow> ('g, 'a, 'f, 'x, 'n, 'd) match_context \<Rightarrow> game_error + unit" where
  "groups_check n_roles self ctx =
     (if n_roles (mc_game ctx) \<noteq> rg_k self
      then Inl (InvalidMatching (''RandomGroups group size '' @ show_nat (rg_k self) @ '' does not match '' @
             show_nat (n_roles (mc_game ctx)) @ '' game roles''))
      else Inr ())"

definition groups_supports_roles :: "random_groups \<Rightarrow> nat \<Rightarrow> bool" where
  "groups_supports_roles self n_roles \<longleftrightarrow> n_roles = rg_k self"

definition groups_bounds :: "random_groups \<Rightarrow> ('g, 'a, 'f, 'x, 'n, 'd) match_context \<Rightarrow> encounter_bounds option" where
  "groups_bounds self ctx =
     Some (if length (mc_ids ctx) mod rg_k self = 0 then \<lparr>eb_min = 1, eb_max = 1\<rparr>
           else \<lparr>eb_min = 0, eb_max = 1\<rparr>)"

definition groups_encounters_into ::
    "(agent_id list \<Rightarrow> 'r \<Rightarrow> agent_id list \<times> 'r) \<Rightarrow> 'f \<Rightarrow> random_groups \<Rightarrow>
     ('g, 'a, 'f, 'x, 'n, 'd) match_context \<Rightarrow> matching_state \<Rightarrow> 'r \<Rightarrow> ('a, 'f) play_arena \<Rightarrow>
     unit result \<times> matching_state \<times> 'r \<times> ('a, 'f) play_arena" where
  "groups_encounters_into shuffle zero self ctx st rng ar =
     (let (ids, rng') = shuffle (mc_ids ctx) rng;
          (r, ar') = push_all zero (map (\<lambda>group. (group, CreditAll)) (chunks_exact (rg_k self) ids)) ar
      in (r, st, rng', ar'))"

definition random_groups_matching ::
    "('g \<Rightarrow> nat) \<Rightarrow> (agent_id list \<Rightarrow> 'r \<Rightarrow> agent_id list \<times> 'r) \<Rightarrow> 'f \<Rightarrow> random_groups \<Rightarrow>
     (('g, 'a, 'f, 'x, 'n, 'd) match_context, 'r, ('a, 'f) play_arena) matching" where
  "random_groups_matching n_roles shuffle zero self =
     \<lparr>mt_name = ''random_groups'', mt_check = groups_check n_roles self,
      mt_supports_roles = groups_supports_roles self, mt_encounter_bounds = groups_bounds self,
      mt_allows_multi_role = default_allows_multi_role, mt_implicit = default_implicit,
      mt_init_state = default_init_state, mt_encounters_into = groups_encounters_into shuffle zero self\<rparr>"

subsection \<open>WholePopulation\<close>

definition whole_check ::
    "('g \<Rightarrow> nat) \<Rightarrow> ('g, 'a, 'f, 'x, 'n, 'd) match_context \<Rightarrow> game_error + unit" where
  "whole_check n_roles ctx =
     (if n_roles (mc_game ctx) \<noteq> length (mc_ids ctx)
      then Inl (InvalidMatching (''WholePopulation requires one role per agent, got '' @
             show_nat (n_roles (mc_game ctx)) @ '' roles and '' @ show_nat (length (mc_ids ctx)) @ '' agents''))
      else Inr ())"

definition whole_bounds :: "'c \<Rightarrow> encounter_bounds option" where
  "whole_bounds ctx = Some \<lparr>eb_min = 1, eb_max = 1\<rparr>"

definition whole_encounters_into ::
    "'f \<Rightarrow> ('g, 'a, 'f, 'x, 'n, 'd) match_context \<Rightarrow> matching_state \<Rightarrow> 'r \<Rightarrow> ('a, 'f) play_arena \<Rightarrow>
     unit result \<times> matching_state \<times> 'r \<times> ('a, 'f) play_arena" where
  "whole_encounters_into zero ctx st rng ar =
     (let (r, ar') = push_all zero [(sort (mc_ids ctx), CreditAll)] ar in (r, st, rng, ar'))"

definition whole_population_matching ::
    "('g \<Rightarrow> nat) \<Rightarrow> 'f \<Rightarrow> (('g, 'a, 'f, 'x, 'n, 'd) match_context, 'r, ('a, 'f) play_arena) matching" where
  "whole_population_matching n_roles zero =
     \<lparr>mt_name = ''whole_population'', mt_check = whole_check n_roles, mt_supports_roles = (\<lambda>_. True),
      mt_encounter_bounds = whole_bounds, mt_allows_multi_role = default_allows_multi_role,
      mt_implicit = Some WholePopulationPattern, mt_init_state = default_init_state,
      mt_encounters_into = whole_encounters_into zero\<rparr>"

subsection \<open>NetworkEdges\<close>

definition edges_check ::
    "('g \<Rightarrow> nat) \<Rightarrow> ('g, 'a, 'f, 'x, 'n, 'd) match_context \<Rightarrow> game_error + unit" where
  "edges_check n_roles ctx =
     (if n_roles (mc_game ctx) \<noteq> 2 then Inl (InvalidMatching ''NetworkEdges requires exactly two roles'')
      else case mc_topology ctx of
        NetworkTopo _ \<Rightarrow> Inr ()
      | _ \<Rightarrow> Inl (InvalidMatching ''NetworkEdges requires a network topology''))"

definition bump :: "nat list \<Rightarrow> agent_id \<Rightarrow> nat list option" where
  "bump counts a = (if agent_no a < length counts
     then Some (list_update counts (agent_no a) (counts ! agent_no a + 1)) else None)"

text \<open>The loop with \<open>?\<close> on \<open>Option\<close> (\<open>None\<close> ends it).\<close>

fun bump_all :: "nat list \<Rightarrow> agent_id list \<Rightarrow> nat list option" where
  "bump_all counts [] = Some counts"
| "bump_all counts (a # as) = Option.bind (bump counts a) (\<lambda>c. bump_all c as)"

text \<open>\<open>iter().min().unwrap_or(0)\<close> and \<open>max\<close>.\<close>

definition min_or_0 :: "nat list \<Rightarrow> nat" where
  "min_or_0 xs = (if xs = [] then 0 else Min (set xs))"

definition max_or_0 :: "nat list \<Rightarrow> nat" where
  "max_or_0 xs = (if xs = [] then 0 else Max (set xs))"

definition bounds_u32 :: "nat \<Rightarrow> nat \<Rightarrow> encounter_bounds option" where
  "bounds_u32 lo hi =
     Option.bind (u32_try_from lo) (\<lambda>lo. map_option (\<lambda>hi. \<lparr>eb_min = lo, eb_max = hi\<rparr>) (u32_try_from hi))"

definition edges_bounds :: "('g, 'a, 'f, 'x, 'n, 'd) match_context \<Rightarrow> encounter_bounds option" where
  "edges_bounds ctx =
     (case mc_topology ctx of
        NetworkTopo nt \<Rightarrow>
          Option.bind (bump_all (replicate (length (mc_ids ctx)) 0)
              (concat (map (\<lambda>(source, target). [source, target]) (net_edges nt)))) (\<lambda>counts.
            bounds_u32 (min_or_0 counts) (max_or_0 counts))
      | _ \<Rightarrow> None)"

definition edge_encounters :: "(agent_id \<times> agent_id) list \<Rightarrow> (agent_id list \<times> credit) list" where
  "edge_encounters edges = map (\<lambda>(source, target). ([source, target], CreditAll)) edges"

definition edges_encounters_into ::
    "'f \<Rightarrow> ('g, 'a, 'f, 'x, 'n, 'd) match_context \<Rightarrow> matching_state \<Rightarrow> 'r \<Rightarrow> ('a, 'f) play_arena \<Rightarrow>
     unit result \<times> matching_state \<times> 'r \<times> ('a, 'f) play_arena" where
  "edges_encounters_into zero ctx st rng ar =
     (case mc_topology ctx of
        NetworkTopo nt \<Rightarrow>
          (let (r, ar') = push_all zero (edge_encounters (net_edges nt)) ar in (r, st, rng, ar'))
      | _ \<Rightarrow> (Inl (Mechanism ''NetworkEdges requires a network topology''), st, rng, ar))"

definition network_edges_matching ::
    "('g \<Rightarrow> nat) \<Rightarrow> 'f \<Rightarrow> (('g, 'a, 'f, 'x, 'n, 'd) match_context, 'r, ('a, 'f) play_arena) matching" where
  "network_edges_matching n_roles zero =
     \<lparr>mt_name = ''network_edges'', mt_check = edges_check n_roles,
      mt_supports_roles = default_supports_roles, mt_encounter_bounds = edges_bounds,
      mt_allows_multi_role = True, mt_implicit = Some NetworkEdgesPattern,
      mt_init_state = default_init_state, mt_encounters_into = edges_encounters_into zero\<rparr>"

subsection \<open>GridNeighborhood\<close>

record grid_neighborhood =
  gn_include_self :: bool

definition gn_check ::
    "('g \<Rightarrow> nat) \<Rightarrow> ('g, 'a, 'f, 'x, 'n, 'd) match_context \<Rightarrow> game_error + unit" where
  "gn_check n_roles ctx =
     (if n_roles (mc_game ctx) \<noteq> 2 then Inl (InvalidMatching ''GridNeighborhood requires exactly two roles'')
      else case mc_topology ctx of
        GridTopo _ \<Rightarrow> Inr ()
      | _ \<Rightarrow> Inl (InvalidMatching ''GridNeighborhood requires a grid topology''))"

text \<open>\<open>adjacency().neighbors(index)\<close> for an index below \<open>len()\<close>, where it does not panic.\<close>

definition adj_row :: "adjacency \<Rightarrow> nat \<Rightarrow> nat list" where
  "adj_row adj index = (case adj_neighbors adj index of Some nbs \<Rightarrow> nbs | None \<Rightarrow> [])"

definition gn_bounds ::
    "grid_neighborhood \<Rightarrow> ('g, 'a, 'f, 'x, 'n, 'd) match_context \<Rightarrow> encounter_bounds option" where
  "gn_bounds self ctx =
     (case mc_topology ctx of
        GridTopo gt \<Rightarrow>
          (let self_count = (if gn_include_self self then 1 else 0);
               degrees = map (\<lambda>index. length (adj_row (gt_adjacency gt) index) + self_count)
                 [0..<adj_len (gt_adjacency gt)];
               first = (case degrees of [] \<Rightarrow> self_count | d # _ \<Rightarrow> d);
               (lo, hi) = fold (\<lambda>degree (lo, hi). (min lo degree, max hi degree)) (tl degrees) (first, first)
           in bounds_u32 lo hi)
      | _ \<Rightarrow> None)"

definition cell_encounters :: "bool \<Rightarrow> adjacency \<Rightarrow> nat \<Rightarrow> (agent_id list \<times> credit) list" where
  "cell_encounters include_self adj index =
     map (\<lambda>neighbor. ([AgentId index, AgentId neighbor], CreditCenter)) (adj_row adj index) @
     (if include_self then [([AgentId index, AgentId index], CreditCenter)] else [])"

definition grid_encounters :: "bool \<Rightarrow> adjacency \<Rightarrow> (agent_id list \<times> credit) list" where
  "grid_encounters include_self adj = concat (map (cell_encounters include_self adj) [0..<adj_len adj])"

definition gn_encounters_into ::
    "'f \<Rightarrow> grid_neighborhood \<Rightarrow> ('g, 'a, 'f, 'x, 'n, 'd) match_context \<Rightarrow> matching_state \<Rightarrow> 'r \<Rightarrow>
     ('a, 'f) play_arena \<Rightarrow> unit result \<times> matching_state \<times> 'r \<times> ('a, 'f) play_arena" where
  "gn_encounters_into zero self ctx st rng ar =
     (case mc_topology ctx of
        GridTopo gt \<Rightarrow>
          (let (r, ar') = push_all zero (grid_encounters (gn_include_self self) (gt_adjacency gt)) ar
           in (r, st, rng, ar'))
      | _ \<Rightarrow> (Inl (Mechanism ''GridNeighborhood requires a grid topology''), st, rng, ar))"

definition grid_neighborhood_matching ::
    "('g \<Rightarrow> nat) \<Rightarrow> 'f \<Rightarrow> grid_neighborhood \<Rightarrow>
     (('g, 'a, 'f, 'x, 'n, 'd) match_context, 'r, ('a, 'f) play_arena) matching" where
  "grid_neighborhood_matching n_roles zero self =
     \<lparr>mt_name = ''grid_neighborhood'', mt_check = gn_check n_roles,
      mt_supports_roles = default_supports_roles, mt_encounter_bounds = gn_bounds self,
      mt_allows_multi_role = True, mt_implicit = Some (GridCenter (gn_include_self self)),
      mt_init_state = default_init_state, mt_encounters_into = gn_encounters_into zero self\<rparr>"

subsection \<open>The mechanism\<close>

definition match_context_of ::
    "decision_scope \<Rightarrow> ('g, 'a, 'f, 's, 'x, 'n, 'd) game_world \<Rightarrow> ('g, 'a, 'f, 'x, 'n, 'd) match_context" where
  "match_context_of scope w =
     \<lparr>mc_t = clk_t (gw_clock w), mc_decision_scope = scope, mc_ids = gw_ids w, mc_game = gw_game w,
      mc_topology = gw_topology w, mc_held = gw_held w, mc_history = gw_step_history w, mc_x = gw_x w\<rparr>"

definition match_apply ::
    "'f \<Rightarrow> (('g, 'a, 'f, 'x, 'n, 'd) match_context, 'r, ('a, 'f) play_arena) matching \<Rightarrow> decision_scope \<Rightarrow>
     bool \<Rightarrow> phase \<Rightarrow> (('g, 'a, 'f, 's, 'x, 'n, 'd) game_world, 'r, 'c, 'ty, 'v) step_context \<Rightarrow>
     unit result \<times> (('g, 'a, 'f, 's, 'x, 'n, 'd) game_world, 'r, 'c, 'ty, 'v) step_context" where
  "match_apply zero M scope implicit ph ctx =
     (let w = ctx_world ctx in
      case ph of
        PreStep \<Rightarrow>
          (Inr (), ctx\<lparr>ctx_world := w\<lparr>gw_plays := arena_clear (gw_plays w),
             gw_payoff := map (\<lambda>_. zero) (gw_payoff w), gw_n_played := map (\<lambda>_. 0) (gw_n_played w),
             gw_played_counts := None\<rparr>\<rparr>)
      | Decision \<Rightarrow>
          if implicit then (Inr (), ctx)
          else
            (let (r, st, rng, ar) = mt_encounters_into M (match_context_of scope w) (gw_matching_state w)
                   (ctx_rng ctx) (gw_plays w)
             in (r, ctx\<lparr>ctx_world := w\<lparr>gw_matching_state := st, gw_plays := ar\<rparr>, ctx_rng := rng\<rparr>))
      | _ \<Rightarrow> (Inr (), ctx))"

definition match_mechanism ::
    "'f \<Rightarrow> (('g, 'a, 'f, 'x, 'n, 'd) match_context, 'r, ('a, 'f) play_arena) matching \<Rightarrow> decision_scope \<Rightarrow>
     bool \<Rightarrow> (unit, ('g, 'a, 'f, 's, 'x, 'n, 'd) game_world, 'r, 'c, 'ty, 'v) mechanism" where
  "match_mechanism zero M scope implicit =
     \<lparr>mech_name = ''game_match'', mech_phases = [PreStep, Decision], mech_self = (),
      mech_apply = (\<lambda>self ph ctx.
        let (r, ctx') = match_apply zero M scope implicit ph ctx in (r, self, ctx'))\<rparr>"

end
