(* ===== verification/Seating.thy ===== *)
theory Seating
  imports Matching Engine_Runs
begin

section \<open>What every matching guarantees\<close>

text \<open>
  The locale \<open>seating\<close> is the contract between a matching and the step that plays its encounters;
  it is interpreted on all the built-in matchings. \<open>credited\<close> counts the seats that pay an agent,
  which is what the play kernel adds to \<open>n_played\<close>.
\<close>

subsection \<open>Credited seats\<close>

definition credited_seats :: "agent_id list \<times> credit \<Rightarrow> agent_id list" where
  "credited_seats e = (case snd e of CreditAll \<Rightarrow> fst e | CreditCenter \<Rightarrow> take 1 (fst e))"

definition credited :: "(agent_id list \<times> credit) list \<Rightarrow> agent_id \<Rightarrow> nat" where
  "credited encs a = count_list (concat (map credited_seats encs)) a"

lemma credited_Nil [simp]: "credited [] a = 0"
  by (simp add: credited_def)

lemma credited_Cons: "credited (e # encs) a = count_list (credited_seats e) a + credited encs a"
  by (simp add: credited_def)

lemma credited_append: "credited (xs @ ys) a = credited xs a + credited ys a"
  by (simp add: credited_def)

lemma credited_concat: "credited (concat xss) a = (\<Sum>xs \<leftarrow> xss. credited xs a)"
  by (induction xss) (simp_all add: credited_append)

lemma credited_all: "credited (map (\<lambda>g. (g, CreditAll)) gs) a = count_list (concat gs) a"
  by (induction gs) (simp_all add: credited_Cons credited_seats_def)

lemma count_list_distinct: "distinct xs \<Longrightarrow> count_list xs a = (if a \<in> set xs then 1 else 0)"
  by (induction xs) auto

subsection \<open>The contract\<close>

text \<open>\<open>encs c rng\<close> is the list of encounters the matching generates.\<close>

locale seating =
  fixes M :: "('c, 'r, ('a, 'f) play_arena) matching"
    and zero :: 'f
    and ids_of :: "'c \<Rightarrow> agent_id list"
    and roles_of :: "'c \<Rightarrow> nat"
    and ok :: "'c \<Rightarrow> bool"
    and ready :: "matching_state \<Rightarrow> bool"
    and encs :: "'c \<Rightarrow> 'r \<Rightarrow> (agent_id list \<times> credit) list"
  assumes generates:
      "ok c \<Longrightarrow> mt_check M c = Inr () \<Longrightarrow> ready st \<Longrightarrow> length (encs c rng) \<le> u32_max \<Longrightarrow>
       \<exists>st' rng'. mt_encounters_into M c st rng (arena_new (roles_of c)) =
         (Inr (), st', rng', arena_of zero (roles_of c) (encs c rng))"
    and seats: "ok c \<Longrightarrow> mt_check M c = Inr () \<Longrightarrow> e \<in> set (encs c rng) \<Longrightarrow>
       length (fst e) = roles_of c \<and> set (fst e) \<subseteq> set (ids_of c)"
    and bounds: "ok c \<Longrightarrow> mt_check M c = Inr () \<Longrightarrow> mt_encounter_bounds M c = Some b \<Longrightarrow>
       a \<in> set (ids_of c) \<Longrightarrow> eb_min b \<le> credited (encs c rng) a \<and> credited (encs c rng) a \<le> eb_max b"
begin

text \<open>The arena after a generation: readable encounters, each agent paid within the bounds.\<close>

lemma step_arena:
  assumes "ok c" "mt_check M c = Inr ()" "ready st" "length (encs c rng) \<le> u32_max"
  shows "\<exists>st' rng' ar. mt_encounters_into M c st rng (arena_new (roles_of c)) = (Inr (), st', rng', ar) \<and>
    n_encounters ar = length (encs c rng) \<and> set (pa_seats ar) \<subseteq> set (ids_of c) \<and>
    length (pa_seats ar) = n_encounters ar * roles_of c"
proof -
  let ?ar = "arena_of zero (roles_of c) (encs c rng) :: ('a, 'f) play_arena"
  have len: "length (concat (map fst es)) = length es * n" if "\<forall>e \<in> set es. length (fst e) = n" for es :: "(agent_id list \<times> credit) list" and n
    using that by (induction es) simp_all
  have "length (pa_seats ?ar) = length (encs c rng) * roles_of c"
    using seats [OF assms(1,2)] by (simp add: arena_of_def len)
  moreover have "set (pa_seats ?ar) \<subseteq> set (ids_of c)"
    using seats [OF assms(1,2)] by (auto simp: arena_of_def)
  ultimately show ?thesis
    using generates [OF assms] by (fastforce simp: n_encounters_def arena_of_def)
qed

lemma total_credit:
  assumes "ok c" "mt_check M c = Inr ()" "mt_encounter_bounds M c = Some b" "distinct (ids_of c)"
  shows "length (ids_of c) * eb_min b \<le> (\<Sum>a \<leftarrow> ids_of c. credited (encs c rng) a) \<and>
    (\<Sum>a \<leftarrow> ids_of c. credited (encs c rng) a) \<le> length (ids_of c) * eb_max b"
proof -
  have "length as * eb_min b \<le> (\<Sum>a \<leftarrow> as. credited (encs c rng) a) \<and>
      (\<Sum>a \<leftarrow> as. credited (encs c rng) a) \<le> length as * eb_max b" if "set as \<subseteq> set (ids_of c)" for as
    using that
  proof (induction as)
    case (Cons a as)
    then show ?case using bounds [OF assms(1-3), of a rng] by auto
  qed simp
  then show ?thesis by blast
qed

end

subsection \<open>Contexts of an assembled world\<close>

text \<open>The agents are numbered from zero; the topology was built by its constructors and accepted by
  \<open>with_topology\<close>. \<open>social_ok\<close> is what \<open>socsim-net\<close> documents of the queries the topology reads:
  \<open>node_count\<close> counts the vertices and edges join vertices.\<close>

definition social_ok :: "'n social_ops \<Rightarrow> 'n \<Rightarrow> bool" where
  "social_ok U n \<longleftrightarrow>
     finite {i. so_contains U n i} \<and> card {i. so_contains U n i} = so_node_count U n \<and>
     (\<forall>(s, t) \<in> set (so_edges U n). so_contains U n s \<and> so_contains U n t)"

definition kind_ok :: "'n social_ops \<Rightarrow> 'd social_ops \<Rightarrow> ('n, 'd) network_kind \<Rightarrow> bool" where
  "kind_ok U D k = (case k of Undirected n \<Rightarrow> social_ok U n | Directed n \<Rightarrow> social_ok D n)"

definition topology_built :: "'n social_ops \<Rightarrow> 'd social_ops \<Rightarrow> ('n, 'd) topology \<Rightarrow> bool" where
  "topology_built U D topo \<longleftrightarrow>
     (case topo of
        NoTopology \<Rightarrow> True
      | NetworkTopo nt \<Rightarrow> nt = from_kind U D (net_network nt) \<and> kind_ok U D (net_network nt)
      | GridTopo gt \<Rightarrow> topology_grid (gt_spec gt) = (Inr (GridTopo gt) :: game_error + ('n, 'd) topology))"

definition accepted :: "'n social_ops \<Rightarrow> 'd social_ops \<Rightarrow> ('n, 'd) topology \<Rightarrow> agent_id list \<Rightarrow> bool" where
  "accepted U D topo ids \<longleftrightarrow>
     ids = map AgentId [0..<length ids] \<and> validate_agents U D topo ids = Inr () \<and> topology_built U D topo"

definition context_ok ::
    "'n social_ops \<Rightarrow> 'd social_ops \<Rightarrow> ('g, 'a, 'f, 'x, 'n, 'd) match_context \<Rightarrow> bool" where
  "context_ok U D ctx \<longleftrightarrow> accepted U D (mc_topology ctx) (mc_ids ctx)"

lemma accepted_ids:
  assumes "accepted U D topo ids"
  shows "distinct ids" "sorted ids" "sort ids = ids" "a \<in> set ids \<longleftrightarrow> agent_no a < length ids"
    "i < length ids \<Longrightarrow> ids ! i = AgentId i"
proof -
  have ids: "ids = map AgentId [0..<length ids]" using assms by (simp add: accepted_def)
  show "distinct ids" by (subst ids) (simp add: distinct_map inj_on_def)
  show sorted: "sorted ids" by (subst ids) (simp add: sorted_map)
  then show "sort ids = ids" by (rule sorted_sort_id)
  show "a \<in> set ids \<longleftrightarrow> agent_no a < length ids" by (subst ids, cases a) auto
  show "i < length ids \<Longrightarrow> ids ! i = AgentId i" by (subst ids) simp
qed

lemma context_ids:
  assumes "context_ok U D ctx"
  shows "distinct (mc_ids ctx)" "sorted (mc_ids ctx)" "sort (mc_ids ctx) = mc_ids ctx"
    "a \<in> set (mc_ids ctx) \<longleftrightarrow> agent_no a < length (mc_ids ctx)"
  using accepted_ids [of U D "mc_topology ctx" "mc_ids ctx"] assms by (simp_all add: context_ok_def)

lemma push_all_new:
  "\<forall>e \<in> set encs. length (fst e) = n \<Longrightarrow> length encs \<le> u32_max \<Longrightarrow>
   push_all zero encs (arena_new n) = (Inr (), arena_of zero n encs)"
  using push_all_arena_of [of encs n "[]" zero] by simp

subsection \<open>Round robin and fixed pairs\<close>

definition rr_ready :: "matching_state \<Rightarrow> bool" where
  "rr_ready st = (case st of RoundRobinState cursor \<Rightarrow> cursor \<noteq> - 1 | _ \<Rightarrow> False)"

lemma rr_seats:
  "e \<in> set (rr_encounters self ids) \<Longrightarrow> length (fst e) = 2 \<and> set (fst e) \<subseteq> set ids"
  by (auto simp: rr_encounters_def split: if_splits)

interpretation round_robin: seating
  "round_robin_matching n_roles zero self" zero mc_ids "\<lambda>c. n_roles (mc_game c)" "context_ok U D"
  rr_ready "\<lambda>c rng. rr_encounters self (sort (mc_ids c))"
  for n_roles :: "'g \<Rightarrow> nat" and zero :: 'f and self and U :: "'n social_ops" and D :: "'d social_ops"
proof unfold_locales
  fix c :: "('g, 'a, 'f, 'x, 'n, 'd) match_context" and st rng
  assume check: "mt_check (round_robin_matching n_roles zero self) c = Inr ()"
  then have roles: "n_roles (mc_game c) = 2"
    by (auto simp: round_robin_matching_def rr_check_def split: if_splits)
  {
    assume "rr_ready st" "length (rr_encounters self (sort (mc_ids c))) \<le> u32_max"
    moreover have "\<forall>e \<in> set (rr_encounters self (sort (mc_ids c))). length (fst e) = 2"
      using rr_seats by blast
    ultimately show "\<exists>st' rng'. mt_encounters_into (round_robin_matching n_roles zero self) c st rng
        (arena_new (n_roles (mc_game c))) =
        (Inr (), st', rng', arena_of zero (n_roles (mc_game c)) (rr_encounters self (sort (mc_ids c))))"
      using roles
      by (auto simp: round_robin_matching_def rr_encounters_into_def rr_ready_def push_all_new
          split: matching_state.splits)
  }
  {
    fix e assume "e \<in> set (rr_encounters self (sort (mc_ids c)))"
    then show "length (fst e) = n_roles (mc_game c) \<and> set (fst e) \<subseteq> set (mc_ids c)"
      using rr_seats [of e self "sort (mc_ids c)"] roles by simp
  }
qed (simp add: round_robin_matching_def default_encounter_bounds_def)

text \<open>The check of the fixed pairs accepts exactly disjoint pairs of known agents.\<close>

lemma fixed_see_Inr:
  "fixed_see seen agent = Inr seen' \<longleftrightarrow>
     agent_no agent < length seen \<and> \<not> seen ! agent_no agent \<and> seen' = list_update seen (agent_no agent) True"
  by (auto simp: fixed_see_def)

lemma fixed_fold:
  "(\<exists>seen'. try_fold fixed_see seen as = Inr seen') \<longleftrightarrow>
     distinct as \<and> (\<forall>a \<in> set as. agent_no a < length seen \<and> \<not> seen ! agent_no a)"
proof (induction as arbitrary: seen)
  case (Cons a as)
  show ?case
  proof (cases "agent_no a < length seen \<and> \<not> seen ! agent_no a")
    case True
    then have "fixed_see seen a = Inr (list_update seen (agent_no a) True)" by (simp add: fixed_see_Inr)
    moreover have "(\<forall>b \<in> set as. agent_no b < length seen \<and> \<not> list_update seen (agent_no a) True ! agent_no b) \<longleftrightarrow>
        a \<notin> set as \<and> (\<forall>b \<in> set as. agent_no b < length seen \<and> \<not> seen ! agent_no b)"
      using True by (auto simp: nth_list_update dest: agent_id.expand)
    ultimately show ?thesis using True Cons.IH [of "list_update seen (agent_no a) True"] by auto
  next
    case False
    then have "\<nexists>seen'. fixed_see seen a = Inr seen'" by (simp add: fixed_see_Inr)
    then show ?thesis using False by (auto simp: try_bind_eq_Inr)
  qed
qed simp

definition seats_of :: "fixed_players \<Rightarrow> agent_id list" where
  "seats_of self = concat (map (\<lambda>(left, right). [left, right]) self)"

lemma try_fold_pairs:
  "try_fold (\<lambda>seen (left, right). try_fold fixed_see seen [left, right]) seen self =
   try_fold fixed_see seen (seats_of self)"
proof (induction self arbitrary: seen)
  case (Cons p self)
  obtain l r where p: "p = (l, r)" by fastforce
  have seats: "seats_of ((l, r) # self) = [l, r] @ seats_of self" by (simp add: seats_of_def)
  show ?case unfolding p seats try_fold_append by (simp add: Cons.IH [symmetric])
qed (simp add: seats_of_def)

lemma fixed_check_Inr:
  "fixed_check n_roles self ctx = Inr () \<longleftrightarrow>
     n_roles (mc_game ctx) = 2 \<and> distinct (seats_of self) \<and>
     (\<forall>a \<in> set (seats_of self). agent_no a < length (mc_ids ctx))"
proof -
  let ?seen = "replicate (length (mc_ids ctx)) False"
  have "fixed_check n_roles self ctx = Inr () \<longleftrightarrow>
      n_roles (mc_game ctx) = 2 \<and> (\<exists>seen'. try_fold fixed_see ?seen (seats_of self) = Inr seen')"
    unfolding fixed_check_def try_fold_pairs by (auto simp: try_bind_eq_Inr)
  also have "\<dots> \<longleftrightarrow> n_roles (mc_game ctx) = 2 \<and> distinct (seats_of self) \<and>
     (\<forall>a \<in> set (seats_of self). agent_no a < length (mc_ids ctx))"
    by (auto simp: fixed_fold)
  finally show ?thesis .
qed

definition fixed_encounters :: "fixed_players \<Rightarrow> (agent_id list \<times> credit) list" where
  "fixed_encounters self = map (\<lambda>(left, right). ([left, right], CreditAll)) self"

interpretation fixed_players: seating
  "fixed_players_matching n_roles zero self" zero mc_ids "\<lambda>c. n_roles (mc_game c)" "context_ok U D"
  "\<lambda>_. True" "\<lambda>c rng. fixed_encounters self"
  for n_roles :: "'g \<Rightarrow> nat" and zero :: 'f and self and U :: "'n social_ops" and D :: "'d social_ops"
proof unfold_locales
  fix c :: "('g, 'a, 'f, 'x, 'n, 'd) match_context" and st rng e
  assume ok: "context_ok U D c" and "mt_check (fixed_players_matching n_roles zero self) c = Inr ()"
  then have check: "n_roles (mc_game c) = 2" "\<forall>a \<in> set (seats_of self). a \<in> set (mc_ids c)"
    by (simp_all add: fixed_players_matching_def fixed_check_Inr context_ids(4) [OF ok])
  have two: "\<forall>e \<in> set (fixed_encounters self). length (fst e) = 2" by (auto simp: fixed_encounters_def)
  show "length (fixed_encounters self) \<le> u32_max \<Longrightarrow>
      \<exists>st' rng'. mt_encounters_into (fixed_players_matching n_roles zero self) c st rng
        (arena_new (n_roles (mc_game c))) =
        (Inr (), st', rng', arena_of zero (n_roles (mc_game c)) (fixed_encounters self))"
    using check(1) two
    by (simp add: fixed_players_matching_def fixed_encounters_into_def fixed_encounters_def [symmetric]
        push_all_new)
  show "e \<in> set (fixed_encounters self) \<Longrightarrow>
      length (fst e) = n_roles (mc_game c) \<and> set (fst e) \<subseteq> set (mc_ids c)"
    using check by (auto simp: fixed_encounters_def seats_of_def)
qed (simp add: fixed_players_matching_def default_encounter_bounds_def)

subsection \<open>Random groups\<close>

lemma concat_chunks_exact: "0 < k \<Longrightarrow> concat (chunks_exact k xs) = take (k * (length xs div k)) xs"
proof (induction k xs rule: chunks_exact.induct)
  case (1 k xs)
  show ?case
  proof (cases "length xs < k")
    case True
    then show ?thesis by (subst chunks_exact.simps) simp
  next
    case False
    then have "length xs div k = Suc ((length xs - k) div k)"
      using 1 by (simp add: le_div_geq)
    then have "take (k * (length xs div k)) xs = take k xs @ take (k * ((length xs - k) div k)) (drop k xs)"
      by (simp add: take_add)
    then show ?thesis using 1 False by (subst chunks_exact.simps) simp
  qed
qed

lemma chunks_exact_length: "g \<in> set (chunks_exact k xs) \<Longrightarrow> length g = k"
  by (induction k xs rule: chunks_exact.induct) (subst (asm) (2) chunks_exact.simps, auto split: if_splits)

lemma chunks_exact_bounds:
  assumes "0 < k" "distinct xs" "a \<in> set xs"
  shows "count_list (concat (chunks_exact k xs)) a \<le> 1 \<and>
    (length xs mod k = 0 \<longrightarrow> count_list (concat (chunks_exact k xs)) a = 1)"
proof -
  have "k * (length xs div k) = length xs" if "length xs mod k = 0"
    using that by (simp add: mult_div_mod_eq [of k, symmetric] mod_eq_0_iff_dvd)
  then show ?thesis
    using assms by (auto simp: concat_chunks_exact count_list_distinct)
qed

definition permutes :: "('a list \<Rightarrow> 'r \<Rightarrow> 'a list \<times> 'r) \<Rightarrow> bool" where
  "permutes shuffle \<longleftrightarrow> (\<forall>xs rng. mset (fst (shuffle xs rng)) = mset xs)"

definition group_encounters ::
    "(agent_id list \<Rightarrow> 'r \<Rightarrow> agent_id list \<times> 'r) \<Rightarrow> nat \<Rightarrow> agent_id list \<Rightarrow> 'r \<Rightarrow> (agent_id list \<times> credit) list" where
  "group_encounters shuffle k ids rng = map (\<lambda>g. (g, CreditAll)) (chunks_exact k (fst (shuffle ids rng)))"

lemma permutes_set: "permutes shuffle \<Longrightarrow> set (fst (shuffle xs rng)) = set xs"
  by (metis permutes_def set_mset_mset)

lemma permutes_distinct: "permutes shuffle \<Longrightarrow> distinct (fst (shuffle xs rng)) = distinct xs"
  by (metis permutes_def mset_eq_imp_distinct_iff)

lemma permutes_length: "permutes shuffle \<Longrightarrow> length (fst (shuffle xs rng)) = length xs"
  by (metis permutes_def size_mset)

lemma group_seats:
  assumes "permutes shuffle" "0 < k" "e \<in> set (group_encounters shuffle k ids rng)"
  shows "length (fst e) = k \<and> set (fst e) \<subseteq> set ids"
proof -
  obtain g where g: "e = (g, CreditAll)" "g \<in> set (chunks_exact k (fst (shuffle ids rng)))"
    using assms(3) by (auto simp: group_encounters_def)
  have "set g \<subseteq> set (concat (chunks_exact k (fst (shuffle ids rng))))" using g(2) by auto
  also have "\<dots> \<subseteq> set ids"
    using assms(1,2) by (auto simp: concat_chunks_exact permutes_set dest: in_set_takeD)
  finally show ?thesis using g chunks_exact_length by auto
qed

lemma group_bounds:
  assumes "permutes shuffle" "0 < k" "distinct ids" "a \<in> set ids"
  shows "credited (group_encounters shuffle k ids rng) a \<le> 1 \<and>
    (length ids mod k = 0 \<longrightarrow> credited (group_encounters shuffle k ids rng) a = 1)"
  using chunks_exact_bounds [of k "fst (shuffle ids rng)" a] assms
  by (simp add: group_encounters_def credited_all permutes_set permutes_distinct permutes_length)

interpretation random_pairs: seating
  "random_pairs_matching n_roles shuffle zero" zero mc_ids "\<lambda>c. n_roles (mc_game c)"
  "\<lambda>c. permutes shuffle \<and> context_ok U D c" "\<lambda>_. True" "\<lambda>c rng. group_encounters shuffle 2 (mc_ids c) rng"
  for n_roles :: "'g \<Rightarrow> nat" and shuffle :: "agent_id list \<Rightarrow> 'r \<Rightarrow> agent_id list \<times> 'r" and zero :: 'f
    and U :: "'n social_ops" and D :: "'d social_ops"
proof unfold_locales
  fix c :: "('g, 'a, 'f, 'x, 'n, 'd) match_context" and st rng e b a
  assume ok: "permutes shuffle \<and> context_ok U D c"
    and check: "mt_check (random_pairs_matching n_roles shuffle zero) c = Inr ()"
  then have roles: "n_roles (mc_game c) = 2"
    by (auto simp: random_pairs_matching_def pairs_check_def split: if_splits)
  have two: "\<forall>e \<in> set (group_encounters shuffle 2 (mc_ids c) rng). length (fst e) = 2"
    using ok group_seats [of shuffle 2] by simp
  show "length (group_encounters shuffle 2 (mc_ids c) rng) \<le> u32_max \<Longrightarrow>
      \<exists>st' rng'. mt_encounters_into (random_pairs_matching n_roles shuffle zero) c st rng
        (arena_new (n_roles (mc_game c))) =
        (Inr (), st', rng', arena_of zero (n_roles (mc_game c)) (group_encounters shuffle 2 (mc_ids c) rng))"
    using roles two
    by (cases "shuffle (mc_ids c) rng")
      (simp add: random_pairs_matching_def pairs_encounters_into_def group_encounters_def push_all_new)
  show "e \<in> set (group_encounters shuffle 2 (mc_ids c) rng) \<Longrightarrow>
      length (fst e) = n_roles (mc_game c) \<and> set (fst e) \<subseteq> set (mc_ids c)"
    using ok roles group_seats [of shuffle 2] by simp
  show "mt_encounter_bounds (random_pairs_matching n_roles shuffle zero) c = Some b \<Longrightarrow> a \<in> set (mc_ids c) \<Longrightarrow>
      eb_min b \<le> credited (group_encounters shuffle 2 (mc_ids c) rng) a \<and>
      credited (group_encounters shuffle 2 (mc_ids c) rng) a \<le> eb_max b"
    using ok group_bounds [of shuffle 2 "mc_ids c" a rng] context_ids(1) [of U D c]
    by (auto simp: random_pairs_matching_def pairs_bounds_def split: if_splits)
qed

interpretation random_groups: seating
  "random_groups_matching n_roles shuffle zero self" zero mc_ids "\<lambda>c. n_roles (mc_game c)"
  "\<lambda>c. 2 \<le> rg_k self \<and> permutes shuffle \<and> context_ok U D c" "\<lambda>_. True"
  "\<lambda>c rng. group_encounters shuffle (rg_k self) (mc_ids c) rng"
  for n_roles :: "'g \<Rightarrow> nat" and shuffle :: "agent_id list \<Rightarrow> 'r \<Rightarrow> agent_id list \<times> 'r" and zero :: 'f
    and self and U :: "'n social_ops" and D :: "'d social_ops"
proof unfold_locales
  fix c :: "('g, 'a, 'f, 'x, 'n, 'd) match_context" and st rng e b a
  assume ok: "2 \<le> rg_k self \<and> permutes shuffle \<and> context_ok U D c"
    and check: "mt_check (random_groups_matching n_roles shuffle zero self) c = Inr ()"
  then have roles: "n_roles (mc_game c) = rg_k self"
    by (auto simp: random_groups_matching_def groups_check_def split: if_splits)
  have k: "\<forall>e \<in> set (group_encounters shuffle (rg_k self) (mc_ids c) rng). length (fst e) = rg_k self"
    using ok group_seats [of shuffle "rg_k self"] by simp
  show "length (group_encounters shuffle (rg_k self) (mc_ids c) rng) \<le> u32_max \<Longrightarrow>
      \<exists>st' rng'. mt_encounters_into (random_groups_matching n_roles shuffle zero self) c st rng
        (arena_new (n_roles (mc_game c))) =
        (Inr (), st', rng', arena_of zero (n_roles (mc_game c)) (group_encounters shuffle (rg_k self) (mc_ids c) rng))"
    using roles k
    by (cases "shuffle (mc_ids c) rng")
      (simp add: random_groups_matching_def groups_encounters_into_def group_encounters_def push_all_new)
  show "e \<in> set (group_encounters shuffle (rg_k self) (mc_ids c) rng) \<Longrightarrow>
      length (fst e) = n_roles (mc_game c) \<and> set (fst e) \<subseteq> set (mc_ids c)"
    using ok roles group_seats [of shuffle "rg_k self"] by simp
  show "mt_encounter_bounds (random_groups_matching n_roles shuffle zero self) c = Some b \<Longrightarrow> a \<in> set (mc_ids c) \<Longrightarrow>
      eb_min b \<le> credited (group_encounters shuffle (rg_k self) (mc_ids c) rng) a \<and>
      credited (group_encounters shuffle (rg_k self) (mc_ids c) rng) a \<le> eb_max b"
    using ok group_bounds [of shuffle "rg_k self" "mc_ids c" a rng] context_ids(1) [of U D c]
    by (auto simp: random_groups_matching_def groups_bounds_def split: if_splits)
qed

subsection \<open>Whole population\<close>

interpretation whole_population: seating
  "whole_population_matching n_roles zero" zero mc_ids "\<lambda>c. n_roles (mc_game c)" "context_ok U D"
  "\<lambda>_. True" "\<lambda>c rng. [(mc_ids c, CreditAll)]"
  for n_roles :: "'g \<Rightarrow> nat" and zero :: 'f and U :: "'n social_ops" and D :: "'d social_ops"
proof unfold_locales
  fix c :: "('g, 'a, 'f, 'x, 'n, 'd) match_context" and st rng e b a
  assume ok: "context_ok U D c" and check: "mt_check (whole_population_matching n_roles zero) c = Inr ()"
  then have roles: "n_roles (mc_game c) = length (mc_ids c)"
    by (auto simp: whole_population_matching_def whole_check_def split: if_splits)
  show "length [(mc_ids c, CreditAll)] \<le> u32_max \<Longrightarrow>
      \<exists>st' rng'. mt_encounters_into (whole_population_matching n_roles zero) c st rng
        (arena_new (n_roles (mc_game c))) =
        (Inr (), st', rng', arena_of zero (n_roles (mc_game c)) [(mc_ids c, CreditAll)])"
    using roles context_ids(3) [OF ok]
    by (simp add: whole_population_matching_def whole_encounters_into_def push_all_new)
  show "e \<in> set [(mc_ids c, CreditAll)] \<Longrightarrow>
      length (fst e) = n_roles (mc_game c) \<and> set (fst e) \<subseteq> set (mc_ids c)"
    using roles by simp
  show "mt_encounter_bounds (whole_population_matching n_roles zero) c = Some b \<Longrightarrow> a \<in> set (mc_ids c) \<Longrightarrow>
      eb_min b \<le> credited [(mc_ids c, CreditAll)] a \<and> credited [(mc_ids c, CreditAll)] a \<le> eb_max b"
    using context_ids(1) [OF ok]
    by (auto simp: whole_population_matching_def whole_bounds_def credited_Cons credited_seats_def
        count_list_distinct)
qed

subsection \<open>Network edges\<close>

lemma bump_all_counts:
  "bump_all counts as = Some counts' \<Longrightarrow>
   length counts' = length counts \<and> (\<forall>a \<in> set as. agent_no a < length counts) \<and>
   (\<forall>i < length counts. counts' ! i = counts ! i + count_list as (AgentId i))"
proof (induction as arbitrary: counts)
  case (Cons a as)
  then have a: "agent_no a < length counts"
    and rest: "bump_all (list_update counts (agent_no a) (counts ! agent_no a + 1)) as = Some counts'"
    by (auto simp: bump_def split: bind_splits if_splits)
  show ?case
    using Cons.IH [OF rest] a by (cases a) (auto simp: nth_list_update)
qed simp

lemma min_max_or_0: "x \<in> set xs \<Longrightarrow> min_or_0 xs \<le> x \<and> x \<le> max_or_0 xs"
  by (auto simp: min_or_0_def max_or_0_def)

lemma bounds_u32_Some: "bounds_u32 lo hi = Some b \<longleftrightarrow> b = \<lparr>eb_min = lo, eb_max = hi\<rparr> \<and> lo \<le> u32_max \<and> hi \<le> u32_max"
  by (auto simp: bounds_u32_def bind_eq_Some_conv)

lemma edge_encounters_credited:
  "credited (edge_encounters edges) a = count_list (concat (map (\<lambda>(source, target). [source, target]) edges)) a"
  by (induction edges) (auto simp: edge_encounters_def credited_Cons credited_seats_def)

lemma accepted_edge_known:
  assumes "accepted U D (NetworkTopo nt) ids" "(s, t) \<in> set (net_edges nt)"
  shows "s \<in> set ids \<and> t \<in> set ids \<and> s \<noteq> t"
proof -
  let ?k = "net_network nt"
  let ?V = "{i. kind_contains U D ?k i}"
  have valid: "kind_node_count U D ?k = length ids" "\<forall>i \<in> set ids. i \<in> ?V" "\<forall>(s, t) \<in> set (net_edges nt). s \<noteq> t"
    and built: "nt = from_kind U D ?k" "kind_ok U D ?k"
    using assms(1) by (auto simp: accepted_def validate_agents_def network_validate_def topology_built_def
        Let_def list_ex_iff net_edges_def split: if_splits)
  have V: "finite ?V" "card ?V = kind_node_count U D ?k"
    "\<forall>(s, t) \<in> set (kind_edges U D ?k). s \<in> ?V \<and> t \<in> ?V"
    using built(2) by (auto simp: kind_ok_def social_ok_def kind_contains_def kind_node_count_def kind_edges_def
        split: network_kind.splits)
  have "card (set ids) = length ids"
    using accepted_ids(1) [OF assms(1)] by (rule distinct_card)
  then have "set ids = ?V"
    using V(1,2) valid by (intro card_subset_eq) auto
  moreover have "(s, t) \<in> set (kind_edges U D ?k)"
    using assms(2) from_kind_tables [of U D ?k] built(1) by simp
  ultimately show ?thesis using V(3) valid(3) assms(2) by auto
qed

lemma edge_known:
  assumes "context_ok U D c" "mc_topology c = NetworkTopo nt" "(s, t) \<in> set (net_edges nt)"
  shows "s \<in> set (mc_ids c) \<and> t \<in> set (mc_ids c)"
  using accepted_edge_known [of U D nt "mc_ids c"] assms by (simp add: context_ok_def)

definition edge_list_of :: "('n, 'd) topology \<Rightarrow> (agent_id \<times> agent_id) list" where
  "edge_list_of topo = (case topo of NetworkTopo nt \<Rightarrow> net_edges nt | _ \<Rightarrow> [])"

interpretation network_edges: seating
  "network_edges_matching n_roles zero" zero mc_ids "\<lambda>c. n_roles (mc_game c)" "context_ok U D"
  "\<lambda>_. True" "\<lambda>c rng. edge_encounters (edge_list_of (mc_topology c))"
  for n_roles :: "'g \<Rightarrow> nat" and zero :: 'f and U :: "'n social_ops" and D :: "'d social_ops"
proof unfold_locales
  fix c :: "('g, 'a, 'f, 'x, 'n, 'd) match_context" and st rng e b a
  assume ok: "context_ok U D c" and check: "mt_check (network_edges_matching n_roles zero) c = Inr ()"
  then obtain nt where roles: "n_roles (mc_game c) = 2" and nt: "mc_topology c = NetworkTopo nt"
    by (auto simp: network_edges_matching_def edges_check_def split: if_splits topology.splits)
  have two: "\<forall>e \<in> set (edge_encounters edges). length (fst e) = 2" for edges
    by (auto simp: edge_encounters_def)
  show "length (edge_encounters (edge_list_of (mc_topology c))) \<le> u32_max \<Longrightarrow>
      \<exists>st' rng'. mt_encounters_into (network_edges_matching n_roles zero) c st rng
        (arena_new (n_roles (mc_game c))) =
        (Inr (), st', rng', arena_of zero (n_roles (mc_game c)) (edge_encounters (edge_list_of (mc_topology c))))"
    using roles two
    by (simp add: network_edges_matching_def edges_encounters_into_def nt edge_list_of_def push_all_new)
  show "e \<in> set (edge_encounters (edge_list_of (mc_topology c))) \<Longrightarrow>
      length (fst e) = n_roles (mc_game c) \<and> set (fst e) \<subseteq> set (mc_ids c)"
    using roles edge_known [OF ok nt] by (auto simp: edge_encounters_def nt edge_list_of_def)
  assume bnd: "mt_encounter_bounds (network_edges_matching n_roles zero) c = Some b"
    and a: "a \<in> set (mc_ids c)"
  let ?as = "concat (map (\<lambda>(source, target). [source, target]) (net_edges nt))"
  obtain counts where counts: "bump_all (replicate (length (mc_ids c)) 0) ?as = Some counts"
    "b = \<lparr>eb_min = min_or_0 counts, eb_max = max_or_0 counts\<rparr>"
    using bnd by (auto simp: network_edges_matching_def edges_bounds_def nt bind_eq_Some_conv bounds_u32_Some)
  have "agent_no a < length (mc_ids c)" using a context_ids(4) [OF ok] by simp
  then have "counts ! agent_no a = count_list ?as a" "agent_no a < length counts"
    using bump_all_counts [OF counts(1)] by simp_all
  moreover from this(2) have "counts ! agent_no a \<in> set counts" by (rule nth_mem)
  ultimately have "counts ! agent_no a = count_list ?as a" "counts ! agent_no a \<in> set counts" by blast+
  then show "eb_min b \<le> credited (edge_encounters (edge_list_of (mc_topology c))) a \<and>
      credited (edge_encounters (edge_list_of (mc_topology c))) a \<le> eb_max b"
    using min_max_or_0 [of _ counts] by (simp add: nt edge_list_of_def edge_encounters_credited counts(2))
qed

subsection \<open>Grid neighbourhoods\<close>

lemma fold_min_max:
  "fold (\<lambda>d (lo, hi). (min lo d, max hi d)) ds (l, h) = (lo, hi) \<Longrightarrow>
   lo \<le> l \<and> h \<le> hi \<and> (\<forall>d \<in> set ds. lo \<le> d \<and> d \<le> hi)" for l h :: nat
proof (induction ds arbitrary: l h)
  case (Cons d ds)
  from Cons.IH [of "min l d" "max h d"] Cons.prems show ?case by auto
qed simp

lemma cell_encounters_credited:
  "credited (cell_encounters include_self adj index) a =
     (if a = AgentId index then length (adj_row adj index) + (if include_self then 1 else 0) else 0)"
proof -
  have "credited (map (\<lambda>nb. ([AgentId index, AgentId nb], CreditCenter)) xs) a =
      (if a = AgentId index then length xs else 0)" for xs
    by (induction xs) (simp_all add: credited_Cons credited_seats_def)
  then show ?thesis
    by (simp add: cell_encounters_def credited_append credited_Cons credited_seats_def)
qed

lemma grid_encounters_credited:
  "credited (grid_encounters include_self adj) a =
     (if agent_no a < adj_len adj then length (adj_row adj (agent_no a)) + (if include_self then 1 else 0) else 0)"
proof -
  have "(\<Sum>index \<leftarrow> [0..<n]. credited (cell_encounters include_self adj index) a) =
      (if agent_no a < n then length (adj_row adj (agent_no a)) + (if include_self then 1 else 0) else 0)" for n
    by (induction n) (cases a, auto simp: cell_encounters_credited)+
  then show ?thesis by (simp add: grid_encounters_def credited_concat comp_def)
qed

definition adjacency_of :: "('n, 'd) topology \<Rightarrow> adjacency" where
  "adjacency_of topo = (case topo of GridTopo gt \<Rightarrow> gt_adjacency gt | _ \<Rightarrow> \<lparr>offsets = [0], flat = []\<rparr>)"

lemma accepted_grid:
  fixes U :: "'n social_ops" and D :: "'d social_ops"
  assumes "accepted U D (GridTopo gt) ids"
  shows "adj_len (gt_adjacency gt) = length ids"
    "nb \<in> set (adj_row (gt_adjacency gt) i) \<Longrightarrow> i < length ids \<Longrightarrow> nb < length ids"
proof -
  let ?spec = "gt_spec gt" and ?g = "spec_grid (gt_spec gt)"
  have built: "topology_grid ?spec = (Inr (GridTopo gt) :: game_error + ('n, 'd) topology)"
    and valid: "validate_agents U D (GridTopo gt) ids = Inr ()"
    using assms by (auto simp: accepted_def topology_built_def)
  obtain n where n: "cell_count ?spec = Inr n" using built by (auto simp: topology_grid_Inr)
  with valid have "n = length ids"
    by (auto simp: validate_agents_def split: if_splits)
  with n have len: "grid_len ?g = length ids"
    by (simp add: cell_count_Inr spec_grid_def grid_new_def grid_len_def)
  have "gt = \<lparr>gt_spec = ?spec, gt_adjacency = adjacency_table ?g (neighbors_into_kind (gs_neighborhood ?spec))\<rparr>"
    using built by (simp add: topology_grid_Inr)
  then have adj: "gt_adjacency gt = adjacency_radius ?g (neighbors_into_kind (gs_neighborhood ?spec)) 1"
    by (metis adjacency_table_def grid_topology.select_convs(2))
  show "adj_len (gt_adjacency gt) = length ids"
    unfolding adj by (simp add: adj_len_def adjacency_radius_rows Let_def len del: upt_Suc)
  assume "nb \<in> set (adj_row (gt_adjacency gt) i)" "i < length ids"
  then obtain cell where cell: "nb = flat_index ?g cell"
    "cell \<in> set (neighbors_radius ?g (i div cols ?g) (i mod cols ?g) (neighbors_into_kind (gs_neighborhood ?spec)) 1)"
    unfolding adj by (auto simp: adj_row_def adjacency_row len)
  moreover have "in_grid ?g (i div cols ?g, i mod cols ?g)"
    using flat_index_onto [of i ?g] \<open>i < length ids\<close> len by simp
  ultimately have "in_grid ?g cell" by (simp add: set_neighbors_one [unfolded One_nat_def])
  then show "nb < length ids" using flat_index_less len cell(1) by metis
qed

interpretation grid_neighborhood: seating
  "grid_neighborhood_matching n_roles zero self" zero mc_ids "\<lambda>c. n_roles (mc_game c)" "context_ok U D"
  "\<lambda>_. True" "\<lambda>c rng. grid_encounters (gn_include_self self) (adjacency_of (mc_topology c))"
  for n_roles :: "'g \<Rightarrow> nat" and zero :: 'f and self and U :: "'n social_ops" and D :: "'d social_ops"
proof unfold_locales
  fix c :: "('g, 'a, 'f, 'x, 'n, 'd) match_context" and st rng e b a
  let ?self = "gn_include_self self"
  assume ok: "context_ok U D c" and check: "mt_check (grid_neighborhood_matching n_roles zero self) c = Inr ()"
  then obtain gt where roles: "n_roles (mc_game c) = 2" and gt: "mc_topology c = GridTopo gt"
    by (auto simp: grid_neighborhood_matching_def gn_check_def split: if_splits topology.splits)
  have acc: "accepted U D (GridTopo gt) (mc_ids c)" using ok gt by (simp add: context_ok_def)
  let ?adj = "gt_adjacency gt"
  have adj: "adjacency_of (mc_topology c) = ?adj" by (simp add: adjacency_of_def gt)
  have two: "\<forall>e \<in> set (grid_encounters b ?adj). length (fst e) = 2" for b
    by (auto simp: grid_encounters_def cell_encounters_def)
  show "length (grid_encounters ?self (adjacency_of (mc_topology c))) \<le> u32_max \<Longrightarrow>
      \<exists>st' rng'. mt_encounters_into (grid_neighborhood_matching n_roles zero self) c st rng
        (arena_new (n_roles (mc_game c))) =
        (Inr (), st', rng', arena_of zero (n_roles (mc_game c)) (grid_encounters ?self (adjacency_of (mc_topology c))))"
    using roles two by (simp add: grid_neighborhood_matching_def gn_encounters_into_def gt adjacency_of_def push_all_new)
  show "e \<in> set (grid_encounters ?self (adjacency_of (mc_topology c))) \<Longrightarrow>
      length (fst e) = n_roles (mc_game c) \<and> set (fst e) \<subseteq> set (mc_ids c)"
    using roles accepted_grid [OF acc]
    by (auto simp: grid_encounters_def cell_encounters_def adjacency_of_def gt context_ids(4) [OF ok])
  assume bnd: "mt_encounter_bounds (grid_neighborhood_matching n_roles zero self) c = Some b"
    and a: "a \<in> set (mc_ids c)"
  let ?deg = "\<lambda>index. length (adj_row ?adj index) + (if ?self then 1 else 0)"
  let ?degs = "map ?deg [0..<adj_len ?adj]"
  have i: "agent_no a < adj_len ?adj" using a context_ids(4) [OF ok] accepted_grid(1) [OF acc] by simp
  then obtain d ds where ds: "?degs = d # ds" by (cases ?degs) auto
  obtain lo hi where fold: "fold (\<lambda>d (lo, hi). (min lo d, max hi d)) ds (d, d) = (lo, hi)" by fastforce
  have b: "b = \<lparr>eb_min = lo, eb_max = hi\<rparr>"
    using bnd by (simp add: grid_neighborhood_matching_def gn_bounds_def gt ds fold bounds_u32_Some Let_def)
  have "?deg (agent_no a) \<in> set ?degs" using i by auto
  then have "lo \<le> ?deg (agent_no a) \<and> ?deg (agent_no a) \<le> hi"
    using fold_min_max [OF fold] unfolding ds by auto
  then show "eb_min b \<le> credited (grid_encounters ?self (adjacency_of (mc_topology c))) a \<and>
      credited (grid_encounters ?self (adjacency_of (mc_topology c))) a \<le> eb_max b"
    using i by (simp add: adjacency_of_def gt b grid_encounters_credited)
qed

text \<open>
  C32: whatever the shuffle, a step of \<open>RandomGroups\<close> seats every agent at most once, and exactly
  once when the group size divides the population; the agents in the arena are known and fill
  whole encounters.
\<close>

theorem random_groups_seat_once:
  assumes "permutes shuffle" "2 \<le> rg_k self" "context_ok U D c"
    and "groups_check n_roles self c = Inr ()" "length (mc_ids c) \<le> u32_max"
  shows "\<exists>st' rng' ar. groups_encounters_into shuffle zero self c st rng (arena_new (n_roles (mc_game c))) =
      (Inr (), st', rng', ar) \<and>
    set (pa_seats ar) \<subseteq> set (mc_ids c) \<and> length (pa_seats ar) = n_encounters ar * rg_k self \<and>
    (\<forall>a \<in> set (mc_ids c). count_list (pa_seats ar) a \<le> 1 \<and>
      (length (mc_ids c) mod rg_k self = 0 \<longrightarrow> count_list (pa_seats ar) a = 1))"
proof -
  let ?encs = "group_encounters shuffle (rg_k self) (mc_ids c) rng"
  let ?M = "random_groups_matching n_roles shuffle zero self"
  have roles: "n_roles (mc_game c) = rg_k self"
    using assms(4) by (auto simp: groups_check_def split: if_splits)
  have chunks: "length (chunks_exact (rg_k self) xs) \<le> length xs" for xs :: "agent_id list"
    by (induction "rg_k self" xs rule: chunks_exact.induct) (subst chunks_exact.simps, use assms(2) in auto)
  have len: "length ?encs \<le> u32_max"
    using chunks [of "fst (shuffle (mc_ids c) rng)"] permutes_length [OF assms(1)] assms(5)
    by (simp add: group_encounters_def)
  have ok: "2 \<le> rg_k self \<and> permutes shuffle \<and> context_ok U D c" using assms by simp
  have check: "mt_check ?M c = Inr ()" using assms(4) by (simp add: random_groups_matching_def)
  obtain st' rng' where gen: "mt_encounters_into ?M c st rng (arena_new (n_roles (mc_game c))) =
      (Inr (), st', rng', arena_of zero (n_roles (mc_game c)) ?encs)"
    using random_groups.generates [OF ok check TrueI len] by blast
  let ?ar = "arena_of zero (n_roles (mc_game c)) ?encs"
  have seats: "pa_seats ?ar = concat (chunks_exact (rg_k self) (fst (shuffle (mc_ids c) rng)))"
    by (simp add: arena_of_def group_encounters_def comp_def)
  have count: "count_list (pa_seats ?ar) a = credited ?encs a" for a
    unfolding seats by (simp add: group_encounters_def credited_all)
  have subset: "set (pa_seats ?ar) \<subseteq> set (mc_ids c)"
    using random_groups.seats [OF ok check] by (auto simp: arena_of_def)
  have flat: "length (concat (chunks_exact (rg_k self) xs)) = length (chunks_exact (rg_k self) xs) * rg_k self" for xs :: "agent_id list"
  proof -
    have "\<forall>g \<in> set (chunks_exact (rg_k self) xs). length g = rg_k self" using chunks_exact_length by blast
    then show ?thesis by (simp add: length_concat sum_list_triv cong: map_cong)
  qed
  have "length (pa_seats ?ar) = n_encounters ?ar * rg_k self"
    unfolding seats flat by (simp add: n_encounters_def arena_of_def group_encounters_def)
  moreover have "count_list (pa_seats ?ar) a \<le> 1 \<and>
      (length (mc_ids c) mod rg_k self = 0 \<longrightarrow> count_list (pa_seats ?ar) a = 1)" if "a \<in> set (mc_ids c)" for a
    unfolding count using group_bounds [OF assms(1) _ context_ids(1) [OF assms(3)] that] assms(2) by simp
  ultimately show ?thesis using gen subset by (auto simp: random_groups_matching_def mod_eq_0_iff_dvd)
qed

lemma rotate1_mset: "mset (rotate1 xs) = mset xs"
  by (cases xs) simp_all

definition rotate_shuffle :: "agent_id list \<Rightarrow> 'r \<Rightarrow> agent_id list \<times> 'r" where
  "rotate_shuffle xs rng = (rotate1 xs, rng)"

lemma idle_context_ok: "context_ok no_network no_network (match_context_of scope (idle_world n))"
  by (simp add: context_ok_def accepted_def match_context_of_def idle_world_def validate_agents_def topology_built_def)

theorem random_groups_seat_once_witness:
  "\<exists>st' rng' ar. groups_encounters_into rotate_shuffle 0 \<lparr>rg_k = 2\<rparr>
      (match_context_of PerStep (idle_world 4)) NoMatchingState () (arena_new 2) = (Inr (), st', rng', ar) \<and>
    length (pa_seats ar) = n_encounters ar * 2 \<and> count_list (pa_seats ar) (AgentId 3) = 1"
proof -
  let ?c = "match_context_of PerStep (idle_world 4)"
  have "permutes (rotate_shuffle :: _ \<Rightarrow> unit \<Rightarrow> _)" 
    by (simp add: permutes_def rotate_shuffle_def rotate1_mset)
  moreover have "groups_check (\<lambda>_. 2) \<lparr>rg_k = 2\<rparr> ?c = Inr ()" by (simp add: groups_check_def)
  moreover have ids: "mc_ids ?c = map AgentId [0..<4]" by (simp add: match_context_of_def idle_world_def)
  ultimately show ?thesis
    using random_groups_seat_once [of rotate_shuffle "\<lparr>rg_k = 2\<rparr>" no_network no_network ?c "\<lambda>_. 2" 0
        NoMatchingState "()"] idle_context_ok [of PerStep 4]
    by (auto simp: ids u32_max_def)
qed

end
