(* ===== verification/Games.thy ===== *)
theory Games
  imports Arena
begin

section \<open>Stage games (crates/socsim-games/src/game)\<close>

text \<open>
  The game traits as records of their methods, each extending its supertrait, and \<open>MatrixGame\<close>.
  \<open>'g\<close> is the game (\<open>self\<close>), \<open>'a\<close> its action type, \<open>'f\<close> the payoffs. A payoff of a role or profile
  that breaks the trait's contract may panic; the theorems on \<open>MatrixGame\<close> show that valid
  profiles always index inside the tensor.
\<close>

datatype action_error =
    InvalidRole nat
  | InvalidAction nat nat
  | DimensionMismatch nat nat nat
  | NonFiniteComponent nat nat
  | OutOfBounds nat nat

record ('g, 'a) stage_game =
  sg_n_roles :: "'g \<Rightarrow> nat"
  sg_check_action :: "'g \<Rightarrow> nat \<Rightarrow> 'a \<Rightarrow> action_error + unit"

record ('g, 'a, 'f) normal_form_game = "('g, 'a) stage_game" +
  nf_payoff :: "'g \<Rightarrow> nat \<Rightarrow> 'a list \<Rightarrow> 'f"
  nf_payoffs_into :: "'g \<Rightarrow> 'a list \<Rightarrow> 'f list \<Rightarrow> 'f list"

record ('g, 'f) finite_game = "('g, nat, 'f) normal_form_game" +
  fg_n_actions :: "'g \<Rightarrow> nat \<Rightarrow> nat"
  fg_action_label :: "'g \<Rightarrow> nat \<Rightarrow> nat \<Rightarrow> string"
  fg_is_symmetric :: "'g \<Rightarrow> bool"

record ('g, 'f) anonymous_game = "('g, 'f) finite_game" +
  ag_payoff_by_counts :: "'g \<Rightarrow> nat \<Rightarrow> nat list \<Rightarrow> 'f"

text \<open>The default \<open>payoffs_into\<close>: the first \<open>n_roles\<close> slots are overwritten.\<close>

definition default_payoffs_into ::
    "('g \<Rightarrow> nat) \<Rightarrow> ('g \<Rightarrow> nat \<Rightarrow> 'a list \<Rightarrow> 'f) \<Rightarrow> 'g \<Rightarrow> 'a list \<Rightarrow> 'f list \<Rightarrow> 'f list" where
  "default_payoffs_into n_roles payoff self profile out =
     map (\<lambda>(role, value). if role < n_roles self then payoff self role profile else value) (List.enumerate 0 out)"

lemma default_payoffs_into_full:
  "length out = n_roles self \<Longrightarrow>
   default_payoffs_into n_roles payoff self profile out = map (\<lambda>role. payoff self role profile) [0..<n_roles self]"
  by (rule nth_equalityI) (simp_all add: default_payoffs_into_def nth_enumerate_eq)

text \<open>\<open>check_common_action_space\<close>: the loop over the roles from 1, ending at the first difference.\<close>

definition check_common_action_space :: "('g \<Rightarrow> nat) \<Rightarrow> ('g \<Rightarrow> nat \<Rightarrow> nat) \<Rightarrow> 'g \<Rightarrow> string + unit" where
  "check_common_action_space n_roles n_actions game =
     (if n_roles game = 0 then Inl ''a common action space requires at least one role''
      else case find (\<lambda>role. n_actions game role \<noteq> n_actions game 0) [1..<n_roles game] of
        Some role \<Rightarrow> Inl (''every role must share one action space, but role 0 has '' @
          show_nat (n_actions game 0) @ '' actions and role '' @ show_nat role @ '' has '' @
          show_nat (n_actions game role))
      | None \<Rightarrow> if n_actions game 0 = 0 then Inl ''the common action space is empty'' else Inr ())"

lemma check_common_action_space_Inr:
  "check_common_action_space n_roles n_actions game = Inr () \<longleftrightarrow>
     0 < n_roles game \<and> 0 < n_actions game 0 \<and> (\<forall>role < n_roles game. n_actions game role = n_actions game 0)"
proof (cases "find (\<lambda>role. n_actions game role \<noteq> n_actions game 0) [1..<n_roles game]")
  case None
  then have same: "n_actions game role = n_actions game 0" if "role < n_roles game" for role
    using that by (cases role) (simp_all add: find_None_iff)
  from None have "check_common_action_space n_roles n_actions game = Inr () \<longleftrightarrow>
      0 < n_roles game \<and> 0 < n_actions game 0"
    by (simp add: check_common_action_space_def)
  with same show ?thesis by blast
next
  case (Some role)
  then have "role < n_roles game" "n_actions game role \<noteq> n_actions game 0"
    by (auto simp: find_Some_iff nth_append split: if_splits)
  with Some show ?thesis by (auto simp: check_common_action_space_def)
qed

subsection \<open>MatrixGame\<close>

definition max_profiles :: nat where
  "max_profiles = 1000000"

definition max_payoff_elements :: nat where
  "max_payoff_elements = 10000000"

datatype matrix_error = Shape | TooLarge nat nat | NonFinite | Labels

record 'f matrix_game =
  mg_n_actions :: "nat list"
  mg_payoffs :: "'f list list"
  mg_labels :: "string list list option"
  mg_symmetric :: bool

text \<open>\<open>saturating_mul\<close> on \<open>u128\<close>.\<close>

definition saturating_mul_u128 :: "nat \<Rightarrow> nat \<Rightarrow> nat" where
  "saturating_mul_u128 a b = min (a * b) (2 ^ 128 - 1)"

definition profile_count :: "nat list \<Rightarrow> matrix_error + nat \<times> nat" where
  "profile_count n_actions =
     try_fold (\<lambda>(profiles, wide) count.
       let wide' = saturating_mul_u128 wide count
       in case checked_mul profiles count of
            None \<Rightarrow> Inl (TooLarge wide' (saturating_mul_u128 wide' (length n_actions)))
          | Some next' \<Rightarrow> Inr (next', wide')) (1, 1) n_actions"

text \<open>\<open>&&\<close> and \<open>all\<close> short-circuit; \<open>feq\<close> is \<open>==\<close> on \<open>f64\<close>.\<close>

definition is_symmetric_matrix :: "('f \<Rightarrow> 'f \<Rightarrow> bool) \<Rightarrow> nat list \<Rightarrow> 'f list list \<Rightarrow> bool" where
  "is_symmetric_matrix feq n_actions payoffs \<longleftrightarrow>
     length n_actions = 2 \<and> n_actions ! 0 = n_actions ! 1 \<and>
     list_all (\<lambda>row. list_all (\<lambda>column.
       feq (payoffs ! 0 ! (row * (n_actions ! 0) + column)) (payoffs ! 1 ! (column * (n_actions ! 0) + row)))
       [0..<n_actions ! 0]) [0..<n_actions ! 0]"

definition matrix_new ::
    "('f \<Rightarrow> bool) \<Rightarrow> ('f \<Rightarrow> 'f \<Rightarrow> bool) \<Rightarrow> nat list \<Rightarrow> 'f list list \<Rightarrow> matrix_error + 'f matrix_game" where
  "matrix_new finite_f feq n_actions payoffs =
     (if n_actions = [] \<or> 0 \<in> set n_actions then Inl Shape
      else try_bind (profile_count n_actions) (\<lambda>(profiles, wide).
        let elements = saturating_mul_u128 wide (length n_actions)
        in if wide > max_profiles \<or> elements > max_payoff_elements then Inl (TooLarge wide elements)
           else if length payoffs \<noteq> length n_actions \<or> list_ex (\<lambda>row. length row \<noteq> profiles) payoffs
           then Inl Shape
           else if list_ex (\<lambda>p. \<not> finite_f p) (concat payoffs) then Inl NonFinite
           else Inr \<lparr>mg_n_actions = n_actions, mg_payoffs = payoffs, mg_labels = None,
                     mg_symmetric = is_symmetric_matrix feq n_actions payoffs\<rparr>))"

definition rectangular_shape :: "'f list list \<Rightarrow> (nat \<times> nat) option" where
  "rectangular_shape matrix =
     (case matrix of [] \<Rightarrow> None
      | first # _ \<Rightarrow>
          if length first = 0 \<or> list_ex (\<lambda>row. length row \<noteq> length first) matrix then None
          else Some (length matrix, length first))"

definition bimatrix ::
    "('f \<Rightarrow> bool) \<Rightarrow> ('f \<Rightarrow> 'f \<Rightarrow> bool) \<Rightarrow> 'f list list \<Rightarrow> 'f list list \<Rightarrow> matrix_error + 'f matrix_game" where
  "bimatrix finite_f feq a b =
     try_bind (ok_or Shape (rectangular_shape a)) (\<lambda>(rws, columns).
       if rectangular_shape b \<noteq> Some (rws, columns) then Inl Shape
       else matrix_new finite_f feq [rws, columns] [concat a, concat b])"

definition zero_sum ::
    "('f \<Rightarrow> bool) \<Rightarrow> ('f \<Rightarrow> 'f \<Rightarrow> bool) \<Rightarrow> ('f \<Rightarrow> 'f) \<Rightarrow> 'f list list \<Rightarrow> matrix_error + 'f matrix_game" where
  "zero_sum finite_f feq neg a =
     try_bind (ok_or Shape (rectangular_shape a)) (\<lambda>(rws, columns).
       let role_0 = concat a; role_1 = map neg role_0
       in matrix_new finite_f feq [rws, columns] [role_0, role_1])"

definition with_labels :: "string list list \<Rightarrow> 'f matrix_game \<Rightarrow> matrix_error + 'f matrix_game" where
  "with_labels labels g =
     (if length labels \<noteq> length (mg_n_actions g) \<or>
         list_ex (\<lambda>(role_labels, count). length role_labels \<noteq> count) (zip labels (mg_n_actions g))
      then Inl Labels else Inr (g\<lparr>mg_labels := Some labels\<rparr>))"

definition profile_index :: "'f matrix_game \<Rightarrow> nat list \<Rightarrow> nat" where
  "profile_index g profile =
     fold (\<lambda>(action, count) index. index * count + action) (zip profile (mg_n_actions g)) 0"

definition matrix_check_action :: "'f matrix_game \<Rightarrow> nat \<Rightarrow> nat \<Rightarrow> action_error + unit" where
  "matrix_check_action g role action =
     (case get_opt (mg_n_actions g) role of
        None \<Rightarrow> Inl (InvalidRole role)
      | Some n_acts \<Rightarrow> if action \<ge> n_acts then Inl (InvalidAction role action) else Inr ())"

definition matrix_payoff :: "'f matrix_game \<Rightarrow> nat \<Rightarrow> nat list \<Rightarrow> 'f" where
  "matrix_payoff g role profile = mg_payoffs g ! role ! profile_index g profile"

definition matrix_action_label :: "'f matrix_game \<Rightarrow> nat \<Rightarrow> nat \<Rightarrow> string" where
  "matrix_action_label g role action =
     (case mg_labels g of Some labels \<Rightarrow> labels ! role ! action | None \<Rightarrow> ''a'' @ show_nat action)"

definition matrix_game_ops :: "('f matrix_game, 'f) finite_game" where
  "matrix_game_ops =
     \<lparr>sg_n_roles = (\<lambda>g. length (mg_n_actions g)), sg_check_action = matrix_check_action,
      nf_payoff = matrix_payoff,
      nf_payoffs_into = default_payoffs_into (\<lambda>g. length (mg_n_actions g)) matrix_payoff,
      fg_n_actions = (\<lambda>g role. mg_n_actions g ! role), fg_action_label = matrix_action_label,
      fg_is_symmetric = mg_symmetric\<rparr>"

subsection \<open>Row-major profiles\<close>

text \<open>A complete valid profile: one action per role, each inside the role's action space.\<close>

definition valid_profile :: "nat list \<Rightarrow> nat list \<Rightarrow> bool" where
  "valid_profile n_actions profile \<longleftrightarrow> list_all2 (\<lambda>action n. action < n) profile n_actions"

definition index_of :: "nat list \<Rightarrow> nat list \<Rightarrow> nat \<Rightarrow> nat" where
  "index_of n_actions profile = fold (\<lambda>(action, n) index. index * n + action) (zip profile n_actions)"

lemma index_of_simps [simp]:
  "index_of n_actions [] k = k"
  "index_of (n # n_actions) (a # profile) k = index_of n_actions profile (k * n + a)"
  by (simp_all add: index_of_def)

lemma index_of_shift:
  "length profile = length n_actions \<Longrightarrow>
   index_of n_actions profile k = k * prod_list n_actions + index_of n_actions profile 0"
proof (induction profile n_actions arbitrary: k rule: list_induct2)
  case (Cons a profile n n_actions)
  from Cons.IH [of "k * n + a"] Cons.IH [of a] show ?case by (simp add: algebra_simps)
qed simp

lemma index_of_less: "valid_profile n_actions profile \<Longrightarrow> index_of n_actions profile 0 < prod_list n_actions"
  unfolding valid_profile_def
proof (induction rule: list_all2_induct)
  case (Cons a profile n n_actions)
  have "(a + 1) * prod_list n_actions \<le> n * prod_list n_actions"
    using Cons.hyps by (intro mult_le_mono1) simp
  moreover have "length profile = length n_actions" using Cons.hyps by (simp add: list_all2_lengthD)
  ultimately show ?case using Cons.IH index_of_shift [of profile n_actions a] by simp
qed simp

lemma split_index: "a * n + x = b * n + y \<Longrightarrow> x < n \<Longrightarrow> y < n \<Longrightarrow> a = b \<and> x = y" for a b x y n :: nat
proof -
  assume eq: "a * n + x = b * n + y" and x: "x < n" and y: "y < n"
  have "(a * n + x) div n = a" "(b * n + y) div n = b" using x y by simp_all
  with eq have "a = b" by simp
  with eq show ?thesis by simp
qed

lemma index_of_inj:
  "valid_profile n_actions p \<Longrightarrow> valid_profile n_actions q \<Longrightarrow>
   index_of n_actions p 0 = index_of n_actions q 0 \<Longrightarrow> p = q"
proof (induction n_actions arbitrary: p q)
  case Nil
  then show ?case by (simp add: valid_profile_def)
next
  case (Cons n n_actions)
  obtain a p' b q' where pq: "p = a # p'" "q = b # q'" "valid_profile n_actions p'" "valid_profile n_actions q'"
    using Cons.prems(1,2) by (auto simp: valid_profile_def list_all2_Cons2)
  have len: "length p' = length n_actions" "length q' = length n_actions"
    using pq by (simp_all add: valid_profile_def list_all2_lengthD)
  have "a * prod_list n_actions + index_of n_actions p' 0 = b * prod_list n_actions + index_of n_actions q' 0"
    using Cons.prems(3) len by (simp add: pq index_of_shift [of p' n_actions a] index_of_shift [of q' n_actions b])
  from split_index [OF this index_of_less [OF pq(3)] index_of_less [OF pq(4)]]
  have "a = b \<and> index_of n_actions p' 0 = index_of n_actions q' 0" .
  with Cons.IH [OF pq(3,4)] show ?case by (simp add: pq)
qed

lemma index_of_onto:
  "k < prod_list n_actions \<Longrightarrow> \<exists>p. valid_profile n_actions p \<and> index_of n_actions p 0 = k"
proof (induction n_actions arbitrary: k)
  case (Cons n n_actions)
  let ?P = "prod_list n_actions"
  have P: "0 < ?P" using Cons.prems by (cases "?P = 0") simp_all
  then have "k mod ?P < ?P" "k div ?P < n"
    using Cons.prems by (simp_all add: less_mult_imp_div_less mult.commute)
  with Cons.IH obtain p where p: "valid_profile n_actions p" "index_of n_actions p 0 = k mod ?P" by blast
  then have "index_of n_actions p (k div ?P) = k"
    using index_of_shift [of p n_actions "k div ?P"] by (simp add: valid_profile_def list_all2_lengthD)
  with p(1) \<open>k div ?P < n\<close> show ?case
    by (intro exI [of _ "(k div ?P) # p"]) (simp add: valid_profile_def)
qed (simp add: valid_profile_def)

lemma profile_index_eq: "profile_index g profile = index_of (mg_n_actions g) profile 0"
  by (simp add: profile_index_def index_of_def)

lemma profile_count_Inr:
  "try_fold (\<lambda>(profiles, wide) count.
       let wide' = saturating_mul_u128 wide count
       in case checked_mul profiles count of
            None \<Rightarrow> Inl (TooLarge wide' (saturating_mul_u128 wide' len))
          | Some next' \<Rightarrow> Inr (next', wide')) (p, p) ns = Inr (profiles, wide) \<Longrightarrow>
   p \<le> usize_max \<Longrightarrow> profiles = p * prod_list ns \<and> wide = profiles"
proof (induction ns arbitrary: p)
  case (Cons n ns)
  from Cons.prems(1) have small: "p * n \<le> usize_max"
    by (auto simp: Let_def checked_mul_def split: if_splits)
  then have "saturating_mul_u128 p n = p * n" by (simp add: saturating_mul_u128_def usize_max_def)
  with Cons.prems(1) small Cons.IH [of "p * n"] show ?case by (simp add: checked_mul_def mult.assoc)
qed simp

lemma matrix_new_Inr:
  assumes "matrix_new finite_f feq n_actions payoffs = Inr g"
  shows "g = \<lparr>mg_n_actions = n_actions, mg_payoffs = payoffs, mg_labels = None,
      mg_symmetric = is_symmetric_matrix feq n_actions payoffs\<rparr>"
    "n_actions \<noteq> []" "0 \<notin> set n_actions" "prod_list n_actions \<le> max_profiles"
    "length payoffs = length n_actions" "\<forall>row \<in> set payoffs. length row = prod_list n_actions"
    "\<forall>row \<in> set payoffs. \<forall>p \<in> set row. finite_f p"
proof -
  obtain profiles wide where pc: "profile_count n_actions = Inr (profiles, wide)"
    using assms by (auto simp: matrix_new_def try_bind_eq_Inr split: if_splits)
  have "profiles = prod_list n_actions \<and> wide = profiles"
    using profile_count_Inr [of "length n_actions" 1 n_actions profiles wide] pc
    by (simp add: profile_count_def usize_max_def)
  then show "g = \<lparr>mg_n_actions = n_actions, mg_payoffs = payoffs, mg_labels = None,
      mg_symmetric = is_symmetric_matrix feq n_actions payoffs\<rparr>"
    "n_actions \<noteq> []" "0 \<notin> set n_actions" "prod_list n_actions \<le> max_profiles"
    "length payoffs = length n_actions" "\<forall>row \<in> set payoffs. length row = prod_list n_actions"
    "\<forall>row \<in> set payoffs. \<forall>p \<in> set row. finite_f p"
    using assms pc by (auto simp: matrix_new_def Let_def list_ex_iff split: if_splits)
qed

text \<open>
  an accepted \<open>MatrixGame\<close> addresses its tensors exactly: the row-major index maps the valid
  profiles one to one onto the entries of every role's tensor, so no payoff of a valid profile
  reads outside it and no entry is unreachable; every such payoff is finite.
\<close>

theorem matrix_tensor_addressed:
  assumes "matrix_new finite_f feq n_actions payoffs = Inr g"
  shows "bij_betw (profile_index g) {p. valid_profile n_actions p} {0..<prod_list n_actions} \<and>
    (\<forall>role < length n_actions. length (mg_payoffs g ! role) = prod_list n_actions \<and>
      (\<forall>p. valid_profile n_actions p \<longrightarrow> finite_f (matrix_payoff g role p)))"
proof -
  note ok = matrix_new_Inr [OF assms]
  have inj: "inj_on (profile_index g) {p. valid_profile n_actions p}"
    using index_of_inj by (auto simp: inj_on_def profile_index_eq ok(1))
  have "profile_index g ` {p. valid_profile n_actions p} = {0..<prod_list n_actions}"
    using index_of_less index_of_onto by (auto simp: profile_index_eq ok(1) image_iff) metis
  moreover have "finite_f (matrix_payoff g role p)" if "role < length n_actions" "valid_profile n_actions p" for role p
  proof -
    have "payoffs ! role \<in> set payoffs" using that(1) ok(5) by simp
    with ok(6,7) index_of_less [OF that(2)] have "finite_f (payoffs ! role ! index_of n_actions p 0)" by simp
    then show ?thesis by (simp add: matrix_payoff_def profile_index_eq ok(1))
  qed
  ultimately show ?thesis using inj ok(5,6) by (simp add: bij_betw_def ok(1))
qed

theorem matrix_tensor_addressed_witness:
  "matrix_new (\<lambda>_. True) (=) [2, 3] [[0::nat, 1, 2, 3, 4, 5], [5, 4, 3, 2, 1, 0]] = Inr
     \<lparr>mg_n_actions = [2, 3], mg_payoffs = [[0, 1, 2, 3, 4, 5], [5, 4, 3, 2, 1, 0]], mg_labels = None,
      mg_symmetric = False\<rparr> \<and>
   inj_on (profile_index \<lparr>mg_n_actions = [2, 3], mg_payoffs = [[0::nat, 1, 2, 3, 4, 5], [5, 4, 3, 2, 1, 0]],
      mg_labels = None, mg_symmetric = False\<rparr>) {p. valid_profile [2, 3] p}"
proof -
  have new: "matrix_new (\<lambda>_. True) (=) [2, 3] [[0::nat, 1, 2, 3, 4, 5], [5, 4, 3, 2, 1, 0]] = Inr
     \<lparr>mg_n_actions = [2, 3], mg_payoffs = [[0, 1, 2, 3, 4, 5], [5, 4, 3, 2, 1, 0]], mg_labels = None,
      mg_symmetric = False\<rparr>"
    by (simp add: matrix_new_def profile_count_def saturating_mul_u128_def checked_mul_def usize_max_def
        max_profiles_def max_payoff_elements_def is_symmetric_matrix_def Let_def)
  then show ?thesis using matrix_tensor_addressed [OF new] by (simp add: bij_betw_def)
qed

subsection \<open>Two-role games\<close>

lemma concat_nth:
  assumes "\<forall>row \<in> set m. length row = n" "i < length m" "j < n"
  shows "concat m ! (i * n + j) = m ! i ! j"
  using assms
proof (induction m arbitrary: i)
  case (Cons row m)
  then show ?case
    by (cases i) (simp_all add: nth_append add.assoc)
qed simp

lemma rectangular_shape_Some:
  "rectangular_shape m = Some (r, c) \<longleftrightarrow> m \<noteq> [] \<and> r = length m \<and> 0 < c \<and> (\<forall>row \<in> set m. length row = c)"
  by (cases m) (auto simp: rectangular_shape_def list_ex_iff)

text \<open>
  \<open>bimatrix\<close> reads back both matrices, and records the game as symmetric exactly when the
  matrices are square and the second is the transpose of the first.
\<close>

theorem bimatrix_reads_matrices:
  assumes "bimatrix finite_f feq a b = Inr g"
  shows "length b = length a \<and>
    (\<forall>i < length a. \<forall>j < length (a ! 0).
      matrix_payoff g 0 [i, j] = a ! i ! j \<and> matrix_payoff g 1 [i, j] = b ! i ! j) \<and>
    (mg_symmetric g \<longleftrightarrow> length (a ! 0) = length a \<and>
      (\<forall>i < length a. \<forall>j < length a. feq (a ! i ! j) (b ! j ! i)))"
proof -
  obtain r c where shape: "rectangular_shape a = Some (r, c)" "rectangular_shape b = Some (r, c)"
    and new: "matrix_new finite_f feq [r, c] [concat a, concat b] = Inr g"
    using assms by (cases "rectangular_shape a") (auto simp: bimatrix_def split: if_splits)
  have a: "\<forall>row \<in> set a. length row = c" "r = length a" "a \<noteq> []" and b: "\<forall>row \<in> set b. length row = c" "r = length b"
    using shape by (auto simp: rectangular_shape_Some)
  have c: "length (a ! 0) = c" using a by simp
  note g = matrix_new_Inr(1) [OF new]
  have pay: "matrix_payoff g 0 [i, j] = a ! i ! j" "matrix_payoff g 1 [i, j] = b ! i ! j" if "i < r" "j < c" for i j
    using concat_nth [OF a(1), of i j] concat_nth [OF b(1), of i j] that a(2) b(2)
    by (simp_all add: g matrix_payoff_def profile_index_def)
  have "mg_symmetric g \<longleftrightarrow> c = r \<and> (\<forall>i < r. \<forall>j < r. feq (a ! i ! j) (b ! j ! i))"
    using concat_nth [OF a(1)] concat_nth [OF b(1)] a(2) b(2)
    by (auto simp: g is_symmetric_matrix_def list_all_iff)
  then show ?thesis using pay a b c by auto
qed

theorem bimatrix_reads_matrices_witness:
  "\<exists>g. bimatrix (\<lambda>_. True) (=) [[3::nat, 0], [5, 1]] [[3, 5], [0, 1]] = Inr g \<and>
    matrix_payoff g 0 [1, 0] = 5 \<and> matrix_payoff g 1 [1, 0] = 0 \<and> mg_symmetric g"
proof -
  obtain g where g: "bimatrix (\<lambda>_. True) (=) [[3::nat, 0], [5, 1]] [[3, 5], [0, 1]] = Inr g"
    by (simp add: bimatrix_def rectangular_shape_def matrix_new_def profile_count_def
        saturating_mul_u128_def checked_mul_def usize_max_def max_profiles_def max_payoff_elements_def Let_def)
  have "\<forall>i < 2. \<forall>j < 2. ([[3::nat, 0], [5, 1]]) ! i ! j = ([[3, 5], [0, 1]]) ! j ! i"
    by (auto simp: less_2_cases_iff)
  with g bimatrix_reads_matrices [OF g] show ?thesis by (auto intro!: exI [of _ g] simp: numeral_2_eq_2)
qed

text \<open>The payoffs of \<open>zero_sum\<close>: \<open>a\<close> for role 0 and its negation for role 1.\<close>

lemma zero_sum_payoffs:
  assumes "zero_sum finite_f feq neg a = Inr g" "i < length a" "j < length (a ! 0)"
  shows "matrix_payoff g 0 [i, j] = a ! i ! j \<and> matrix_payoff g 1 [i, j] = neg (a ! i ! j)"
proof -
  obtain r c where shape: "rectangular_shape a = Some (r, c)"
    and new: "matrix_new finite_f feq [r, c] [concat a, map neg (concat a)] = Inr g"
    using assms(1) by (cases "rectangular_shape a") (auto simp: zero_sum_def Let_def)
  have a: "\<forall>row \<in> set a. length row = c" "r = length a" using shape by (auto simp: rectangular_shape_Some)
  then have c: "length (a ! 0) = c" using assms(2) by (metis gr_implies_not0 length_0_conv neq0_conv nth_mem)
  have "(i + 1) * c \<le> length a * c" using assms(2) by (intro mult_le_mono1) simp
  moreover have "length (concat a) = length a * c"
    using a(1) by (simp add: length_concat sum_list_triv cong: map_cong)
  ultimately have "i * c + j < length (concat a)" using assms(3) c by simp
  then show ?thesis
    using concat_nth [OF a(1) assms(2), of j] assms(3) c
    by (simp add: matrix_new_Inr(1) [OF new] matrix_payoff_def profile_index_def)
qed

text \<open>A game of \<open>n\<close> seats with two actions, for concrete runs: the payoff of an action is ten times its index plus the
  number of others who chose 1.\<close>

definition crowd_game :: "nat \<Rightarrow> (unit, nat) anonymous_game" where
  "crowd_game n =
     \<lparr>sg_n_roles = (\<lambda>_. n), sg_check_action = (\<lambda>_ _ a. if a < 2 then Inr () else Inl (InvalidAction 0 a)),
      nf_payoff = (\<lambda>_ role profile. 10 * profile ! role + count_list (take role profile @ drop (Suc role) profile) 1),
      nf_payoffs_into = default_payoffs_into (\<lambda>_. n)
        (\<lambda>_ role profile. 10 * profile ! role + count_list (take role profile @ drop (Suc role) profile) 1),
      fg_n_actions = (\<lambda>_ _. 2), fg_action_label = (\<lambda>_ _ a. show_nat a), fg_is_symmetric = (\<lambda>_. True),
      ag_payoff_by_counts = (\<lambda>_ a others. 10 * a + others ! 1)\<rparr>"

end
