(* ===== verification/Kernel.thy ===== *)
theory Kernel
  imports Seating Games
begin

section \<open>Payoff kernels (crates/socsim-games/src/outcome)\<close>

text \<open>
  Outcome rules, the accumulator of per-agent payoffs, the pairwise and the counting kernel over an
  arena, and the traversals that play an implicit matching without an arena: the full one and the
  one of the encounters of a single agent.

  A closure that mutates captured variables is a function on an explicit state. \<open>fadd\<close>, \<open>zero\<close> and
  \<open>fdiv\<close> are the operations of \<open>f64\<close> (no law is assumed of them, so equal results are results of
  the same operations in the same order). \<open>as_usize\<close> is the \<open>Any\<close> downcast of an action to
  \<open>usize\<close>. Rows of one encounter that the code indexes together (seats, actions, payoffs) have the
  same length at every call, where the indexing does not panic.
\<close>

subsection \<open>Outcome rules\<close>

record ('g, 'a, 'x, 'n, 'd) outcome_context =
  oc_t :: u64
  oc_game :: 'g
  oc_x :: 'x
  oc_held :: "'a list"
  oc_topology :: "('n, 'd) topology"

definition oc_held_of :: "('g, 'a, 'x, 'n, 'd) outcome_context \<Rightarrow> agent_id \<Rightarrow> 'a option" where
  "oc_held_of ctx agent = get_opt (oc_held ctx) (agent_no agent)"

text \<open>The rule writes into the slice of payoffs it is given.\<close>

record ('c, 'a, 'f) outcome_rule =
  or_name :: string
  or_outcome :: "'c \<Rightarrow> encounter_ref \<Rightarrow> 'a list \<Rightarrow> 'f list \<Rightarrow> unit result \<times> 'f list"

definition normal_form_outcome ::
    "('g, 'a, 'f, 'z) normal_form_game_scheme \<Rightarrow> (('g, 'a, 'x, 'n, 'd) outcome_context, 'a, 'f) outcome_rule" where
  "normal_form_outcome G =
     \<lparr>or_name = ''normal_form'',
      or_outcome = (\<lambda>ctx enc actions payoffs. (Inr (), nf_payoffs_into G (oc_game ctx) actions payoffs))\<rparr>"

subsection \<open>The accumulator\<close>

record 'f payoff_accum =
  acc_payoff :: "'f list"
  acc_n_played :: "nat list"
  acc_played_counts :: "played_counts option"

definition count_actions :: "('a \<Rightarrow> nat option) \<Rightarrow> 'a list \<Rightarrow> 'f payoff_accum \<Rightarrow> unit result \<times> 'f payoff_accum" where
  "count_actions as_usize actions acc =
     (case acc_played_counts acc of
        None \<Rightarrow> (Inr (), acc)
      | Some counts \<Rightarrow>
          (let (r, counts') = for_each (\<lambda>(role, action) counts.
                 case as_usize action of Some a \<Rightarrow> played_increment role a counts | None \<Rightarrow> (Inr (), counts))
                 (List.enumerate 0 actions) counts
           in (r, acc\<lparr>acc_played_counts := Some counts'\<rparr>)))"

text \<open>One credited role: the total first, then the checked count.\<close>

definition credit_seat :: "('f \<Rightarrow> 'f \<Rightarrow> 'f) \<Rightarrow> agent_id \<times> 'f \<Rightarrow> 'f payoff_accum \<Rightarrow> unit result \<times> 'f payoff_accum" where
  "credit_seat fadd seat acc =
     (let (agent, pay) = seat; index = agent_no agent
      in if index \<ge> length (acc_payoff acc)
         then (Inl (Mechanism (''unknown agent '' @ show_nat (agent_no agent))), acc)
         else
           let acc1 = acc\<lparr>acc_payoff := list_update (acc_payoff acc) index (fadd (acc_payoff acc ! index) pay)\<rparr>
           in if index \<ge> length (acc_n_played acc1)
              then (Inl (Mechanism (''unknown agent '' @ show_nat (agent_no agent))), acc1)
              else if acc_n_played acc1 ! index = u32_max
              then (Inl (Mechanism (''play count overflowed for agent '' @ show_nat (agent_no agent))), acc1)
              else (Inr (), acc1\<lparr>acc_n_played := list_update (acc_n_played acc1) index (acc_n_played acc1 ! index + 1)\<rparr>))"

definition credited_roles :: "credit \<Rightarrow> 'b list \<Rightarrow> 'b list" where
  "credited_roles cr rws = (case cr of CreditAll \<Rightarrow> rws | CreditCenter \<Rightarrow> take 1 rws)"

definition accum_apply ::
    "('a \<Rightarrow> nat option) \<Rightarrow> ('f \<Rightarrow> 'f \<Rightarrow> 'f) \<Rightarrow> agent_id list \<Rightarrow> credit \<Rightarrow> 'a list \<Rightarrow> 'f list \<Rightarrow>
     'f payoff_accum \<Rightarrow> unit result \<times> 'f payoff_accum" where
  "accum_apply as_usize fadd seats cr actions payoffs acc =
     (case count_actions as_usize actions acc of
        (Inl e, acc') \<Rightarrow> (Inl e, acc')
      | (Inr _, acc') \<Rightarrow> for_each (credit_seat fadd) (credited_roles cr (zip seats payoffs)) acc')"

subsection \<open>The counting kernel's scratch\<close>

record 'f counting_scratch =
  cs_counts :: "nat list"
  cs_by_action :: "'f list"
  cs_payoffs :: "'f list"

definition scratch_new :: "'f \<Rightarrow> nat \<Rightarrow> 'f counting_scratch" where
  "scratch_new zero n_actions =
     \<lparr>cs_counts = replicate n_actions 0, cs_by_action = replicate n_actions zero, cs_payoffs = []\<rparr>"

definition count_one :: "nat \<Rightarrow> nat list \<Rightarrow> unit result \<times> nat list" where
  "count_one action counts =
     (if action \<ge> length counts
      then (Inl (Mechanism (''counting kernel found invalid action '' @ show_nat action)), counts)
      else (Inr (), list_update counts action (counts ! action + 1)))"

text \<open>One action of the loop: the focal player is taken out of the counts and put back.\<close>

definition pay_action ::
    "('g, 'f, 'z) anonymous_game_scheme \<Rightarrow> 'g \<Rightarrow> nat \<Rightarrow> nat list \<times> 'f list \<Rightarrow> nat list \<times> 'f list" where
  "pay_action G game action st =
     (let (counts, by_action) = st
      in if counts ! action = 0 then st
         else
           let counts1 = list_update counts action (counts ! action - 1);
               by_action1 = list_update by_action action (ag_payoff_by_counts G game action counts1)
           in (list_update counts1 action (counts1 ! action + 1), by_action1))"

definition scratch_compute ::
    "('g, 'f, 'z) anonymous_game_scheme \<Rightarrow> 'f \<Rightarrow> 'g \<Rightarrow> nat list \<Rightarrow> 'f counting_scratch \<Rightarrow>
     unit result \<times> 'f counting_scratch" where
  "scratch_compute G zero game actions s =
     (let n_actions = fg_n_actions G game 0
      in case for_each count_one actions (replicate n_actions 0) of
           (Inl e, counts) \<Rightarrow> (Inl e, s\<lparr>cs_counts := counts\<rparr>)
         | (Inr _, counts) \<Rightarrow>
             let (counts', by_action) = fold (pay_action G game) [0..<n_actions] (counts, replicate n_actions zero)
             in (Inr (), \<lparr>cs_counts = counts', cs_by_action = by_action,
                          cs_payoffs = map (\<lambda>action. by_action ! action) actions\<rparr>))"

subsection \<open>Kernels over an arena\<close>

definition fill_actions :: "'a option list \<Rightarrow> 'a list result" where
  "fill_actions seats =
     try_fold (\<lambda>out action. try_bind (ok_or (Mechanism ''unfilled action seat'') action) (\<lambda>a. Inr (out @ [a]))) [] seats"

text \<open>\<open>&v[start..end]\<close> and \<open>copy_from_slice\<close> on the row of an encounter.\<close>

definition row_of :: "nat \<Rightarrow> nat \<Rightarrow> 'b list \<Rightarrow> 'b list" where
  "row_of n_roles i xs = take n_roles (drop (i * n_roles) xs)"

definition put_row :: "nat \<Rightarrow> nat \<Rightarrow> 'b list \<Rightarrow> 'b list \<Rightarrow> 'b list" where
  "put_row n_roles i row xs = take (i * n_roles) xs @ row @ drop (i * n_roles + n_roles) xs"

definition pairwise_encounter ::
    "('a \<Rightarrow> nat option) \<Rightarrow> ('f \<Rightarrow> 'f \<Rightarrow> 'f) \<Rightarrow> 'f \<Rightarrow> ('c, 'a, 'f) outcome_rule \<Rightarrow> 'c \<Rightarrow> nat \<Rightarrow>
     ('a, 'f) play_arena \<times> 'f payoff_accum \<Rightarrow> unit result \<times> ('a, 'f) play_arena \<times> 'f payoff_accum" where
  "pairwise_encounter as_usize fadd zero outcome context i st =
     (let (ar, acc) = st; n = pa_n_roles ar
      in case fill_actions (row_of n i (pa_actions ar)) of
           Inl e \<Rightarrow> (Inl e, ar, acc)
         | Inr actions \<Rightarrow>
             let cr = pa_credit ar ! i; seats = row_of n i (pa_seats ar);
                 enc = \<lparr>er_id = EncounterId (i mod 2 ^ 32), er_seats = seats, er_credit = cr\<rparr>
             in case or_outcome outcome context enc actions (replicate n zero) of
                  (Inl e, _) \<Rightarrow> (Inl e, ar, acc)
                | (Inr _, payoffs) \<Rightarrow>
                    let (r, acc') = accum_apply as_usize fadd seats cr actions payoffs acc
                    in (r, ar\<lparr>pa_payoffs := put_row n i payoffs (pa_payoffs ar)\<rparr>, acc'))"

definition play_pairwise ::
    "('a \<Rightarrow> nat option) \<Rightarrow> ('f \<Rightarrow> 'f \<Rightarrow> 'f) \<Rightarrow> 'f \<Rightarrow> 'c \<Rightarrow> ('c, 'a, 'f) outcome_rule \<Rightarrow>
     ('a, 'f) play_arena \<times> 'f payoff_accum \<Rightarrow> unit result \<times> ('a, 'f) play_arena \<times> 'f payoff_accum" where
  "play_pairwise as_usize fadd zero context outcome st =
     for_each (pairwise_encounter as_usize fadd zero outcome context) [0..<n_encounters (fst st)] st"

definition counting_encounter ::
    "('f \<Rightarrow> 'f \<Rightarrow> 'f) \<Rightarrow> 'f \<Rightarrow> ('g, 'f, 'z) anonymous_game_scheme \<Rightarrow> 'g \<Rightarrow> nat \<Rightarrow>
     ('f counting_scratch \<times> (nat, 'f) play_arena \<times> 'f payoff_accum) \<Rightarrow>
     unit result \<times> 'f counting_scratch \<times> (nat, 'f) play_arena \<times> 'f payoff_accum" where
  "counting_encounter fadd zero G game i st =
     (let (scratch, ar, acc) = st; n = pa_n_roles ar
      in case fill_actions (row_of n i (pa_actions ar)) of
           Inl e \<Rightarrow> (Inl e, scratch, ar, acc)
         | Inr actions \<Rightarrow>
             case scratch_compute G zero game actions scratch of
               (Inl e, scratch') \<Rightarrow> (Inl e, scratch', ar, acc)
             | (Inr _, scratch') \<Rightarrow>
                 let ar' = ar\<lparr>pa_payoffs := put_row n i (cs_payoffs scratch') (pa_payoffs ar)\<rparr>;
                     (r, acc') = accum_apply Some fadd (row_of n i (pa_seats ar)) (pa_credit ar ! i) actions
                       (cs_payoffs scratch') acc
                 in (r, scratch', ar', acc'))"

definition play_counting ::
    "('f \<Rightarrow> 'f \<Rightarrow> 'f) \<Rightarrow> 'f \<Rightarrow> ('g, 'f, 'z) anonymous_game_scheme \<Rightarrow> 'g \<Rightarrow>
     (nat, 'f) play_arena \<times> 'f payoff_accum \<Rightarrow> unit result \<times> (nat, 'f) play_arena \<times> 'f payoff_accum" where
  "play_counting fadd zero G game st =
     (let (r, _, ar, acc) = for_each (counting_encounter fadd zero G game) [0..<n_encounters (fst st)]
            (scratch_new zero (fg_n_actions G game 0), st)
      in (r, ar, acc))"

subsection \<open>The full traversal of an implicit matching\<close>

text \<open>\<open>emit\<close>: the actions are the held ones; the encounter is visited, then the checked id.\<close>

definition held_actions :: "'a list \<Rightarrow> agent_id list \<Rightarrow> 'a list result" where
  "held_actions held seats =
     try_fold (\<lambda>actions agent.
       try_bind (ok_or (Mechanism (''unknown agent '' @ show_nat (agent_no agent))) (get_opt held (agent_no agent)))
         (\<lambda>a. Inr (actions @ [a]))) [] seats"

definition emit ::
    "'a list \<Rightarrow> (nat \<Rightarrow> agent_id list \<Rightarrow> credit \<Rightarrow> 'a list \<Rightarrow> 's \<Rightarrow> unit result \<times> 's) \<Rightarrow> agent_id list \<times> credit \<Rightarrow>
     nat \<times> 's \<Rightarrow> unit result \<times> nat \<times> 's" where
  "emit held visit enc st =
     (let (seats, cr) = enc; (eid, s) = st
      in case held_actions held seats of
           Inl e \<Rightarrow> (Inl e, eid, s)
         | Inr actions \<Rightarrow>
             case visit eid seats cr actions s of
               (Inl e, s') \<Rightarrow> (Inl e, eid, s')
             | (Inr _, s') \<Rightarrow>
                 if eid = u32_max then (Inl (Mechanism ''encounter count exceeds u32::MAX''), eid, s')
                 else (Inr (), eid + 1, s'))"

text \<open>The encounters the loops of the three patterns emit, in their order.\<close>

definition implicit_encounters ::
    "implicit_pattern \<Rightarrow> ('n, 'd) topology \<Rightarrow> agent_id list \<Rightarrow> (agent_id list \<times> credit) list result" where
  "implicit_encounters pat topo ids =
     (case pat of
        GridCenter include_self \<Rightarrow>
          (case topo of
             GridTopo gt \<Rightarrow>
               Inr (concat (map (\<lambda>index.
                 map (\<lambda>neighbor. ([AgentId index, AgentId neighbor], CreditCenter)) (adj_row (gt_adjacency gt) index) @
                 (if include_self then [([AgentId index, AgentId index], CreditCenter)] else []))
                 [0..<adj_len (gt_adjacency gt)]))
           | _ \<Rightarrow> Inl (Mechanism ''implicit grid matching requires a grid topology''))
      | NetworkEdgesPattern \<Rightarrow>
          (case topo of
             NetworkTopo nt \<Rightarrow> Inr (map (\<lambda>(source, target). ([source, target], CreditAll)) (net_edges nt))
           | _ \<Rightarrow> Inl (Mechanism ''implicit network matching requires a network topology''))
      | WholePopulationPattern \<Rightarrow> Inr [(sort ids, CreditAll)])"

definition for_each_implicit ::
    "implicit_pattern \<Rightarrow> ('n, 'd) topology \<Rightarrow> agent_id list \<Rightarrow> 'a list \<Rightarrow>
     (nat \<Rightarrow> agent_id list \<Rightarrow> credit \<Rightarrow> 'a list \<Rightarrow> 's \<Rightarrow> unit result \<times> 's) \<Rightarrow> 's \<Rightarrow> unit result \<times> 's" where
  "for_each_implicit pat topo ids held visit s =
     (case implicit_encounters pat topo ids of
        Inl e \<Rightarrow> (Inl e, s)
      | Inr encs \<Rightarrow> (let (r, _, s') = for_each (emit held visit) encs (0, s) in (r, s')))"

subsection \<open>The encounters of one agent\<close>

text \<open>The first encounter id of each cell; \<open>None\<close> for the patterns that need none.\<close>

type_synonym local_encounter_ids = "nat list option"

definition next_start :: "bool \<Rightarrow> adjacency \<Rightarrow> nat list \<times> nat \<Rightarrow> nat \<Rightarrow> socsim_error + nat list \<times> nat" where
  "next_start include_self adj st index =
     (let (starts, next') = st
      in try_bind (ok_or (Mechanism ''encounter count exceeds usize::MAX'')
             (checked_add (length (adj_row adj index)) (if include_self then 1 else 0))) (\<lambda>n.
         try_bind (ok_or (Mechanism ''encounter count exceeds u32::MAX'') (u32_try_from n)) (\<lambda>n.
           if next' + n > u32_max then Inl (Mechanism ''encounter count exceeds u32::MAX'')
           else Inr (starts @ [next'], next' + n))))"

definition local_ids_new :: "implicit_pattern \<Rightarrow> ('n, 'd) topology \<Rightarrow> local_encounter_ids result" where
  "local_ids_new pat topo =
     (case pat of
        GridCenter include_self \<Rightarrow>
          (case topo of
             GridTopo gt \<Rightarrow>
               try_bind (try_fold (next_start include_self (gt_adjacency gt)) ([], 0) [0..<adj_len (gt_adjacency gt)])
                 (\<lambda>(starts, _). Inr (Some starts))
           | _ \<Rightarrow> Inl (Mechanism ''implicit grid matching requires a grid topology''))
      | _ \<Rightarrow> Inr None)"

definition grid_start :: "local_encounter_ids \<Rightarrow> nat \<Rightarrow> nat result" where
  "grid_start lids index =
     ok_or (Mechanism (''local encounter id is not initialized for agent '' @ show_nat index))
       (Option.bind lids (\<lambda>starts. get_opt starts index))"

definition local_emit ::
    "'a list \<Rightarrow> (nat \<Rightarrow> agent_id list \<Rightarrow> credit \<Rightarrow> 'a list \<Rightarrow> nat \<Rightarrow> 's \<Rightarrow> unit result \<times> 's) \<Rightarrow> nat \<Rightarrow>
     agent_id list \<Rightarrow> credit \<Rightarrow> nat \<Rightarrow> 's \<Rightarrow> unit result \<times> 's" where
  "local_emit held visit eid seats cr credited_role s =
     (case held_actions held seats of
        Inl e \<Rightarrow> (Inl e, s)
      | Inr actions \<Rightarrow> visit eid seats cr actions credited_role s)"

text \<open>The loop over the neighbours of a cell: the id is advanced after each.\<close>

definition local_neighbor ::
    "'a list \<Rightarrow> (nat \<Rightarrow> agent_id list \<Rightarrow> credit \<Rightarrow> 'a list \<Rightarrow> nat \<Rightarrow> 's \<Rightarrow> unit result \<times> 's) \<Rightarrow> agent_id \<Rightarrow> nat \<Rightarrow>
     nat \<times> 's \<Rightarrow> unit result \<times> nat \<times> 's" where
  "local_neighbor held visit agent neighbor st =
     (let (eid, s) = st
      in case local_emit held visit eid [agent, AgentId neighbor] CreditCenter 0 s of
           (Inl e, s') \<Rightarrow> (Inl e, eid, s')
         | (Inr _, s') \<Rightarrow>
             if eid = u32_max then (Inl (Mechanism ''encounter count exceeds u32::MAX''), eid, s')
             else (Inr (), eid + 1, s'))"

definition local_edge ::
    "'a list \<Rightarrow> (nat \<Rightarrow> agent_id list \<Rightarrow> credit \<Rightarrow> 'a list \<Rightarrow> nat \<Rightarrow> 's \<Rightarrow> unit result \<times> 's) \<Rightarrow> agent_id \<Rightarrow>
     (agent_id \<times> agent_id) list \<Rightarrow> nat \<Rightarrow> 's \<Rightarrow> unit result \<times> 's" where
  "local_edge held visit agent edges edge_index s =
     (case get_opt edges edge_index of
        None \<Rightarrow> (Inl (Mechanism ''incident edge index is out of bounds''), s)
      | Some (source, target) \<Rightarrow>
          let role = (if target = agent then 1 else 0)
          in case u32_try_from edge_index of
               None \<Rightarrow> (Inl (Mechanism ''encounter count exceeds u32::MAX''), s)
             | Some eid \<Rightarrow> local_emit held visit eid [source, target] CreditAll role s)"

definition position_of :: "'b \<Rightarrow> 'b list \<Rightarrow> nat option" where
  "position_of x xs = find (\<lambda>i. xs ! i = x) [0..<length xs]"

definition for_each_local_implicit ::
    "implicit_pattern \<Rightarrow> ('n, 'd) topology \<Rightarrow> agent_id list \<Rightarrow> 'a list \<Rightarrow> local_encounter_ids \<Rightarrow> nat \<Rightarrow>
     (nat \<Rightarrow> agent_id list \<Rightarrow> credit \<Rightarrow> 'a list \<Rightarrow> nat \<Rightarrow> 's \<Rightarrow> unit result \<times> 's) \<Rightarrow> 's \<Rightarrow> unit result \<times> 's" where
  "for_each_local_implicit pat topo ids held lids index visit s =
     (let agent = AgentId index
      in case pat of
        GridCenter include_self \<Rightarrow>
          (case topo of
             GridTopo gt \<Rightarrow>
               if \<not> index < adj_len (gt_adjacency gt)
               then (Inl (Mechanism (''unknown agent '' @ show_nat (agent_no agent))), s)
               else (case grid_start lids index of
                       Inl e \<Rightarrow> (Inl e, s)
                     | Inr eid \<Rightarrow>
                         case for_each (local_neighbor held visit agent) (adj_row (gt_adjacency gt) index) (eid, s) of
                           (Inl e, _, s') \<Rightarrow> (Inl e, s')
                         | (Inr _, eid', s') \<Rightarrow>
                             if include_self then local_emit held visit eid' [agent, agent] CreditCenter 0 s'
                             else (Inr (), s'))
           | _ \<Rightarrow> (Inl (Mechanism ''implicit grid matching requires a grid topology''), s))
      | NetworkEdgesPattern \<Rightarrow>
          (case topo of
             NetworkTopo nt \<Rightarrow> for_each (local_edge held visit agent (net_edges nt)) (incident_edges nt agent) s
           | _ \<Rightarrow> (Inl (Mechanism ''implicit network matching requires a network topology''), s))
      | WholePopulationPattern \<Rightarrow>
          let seats = sort ids
          in case position_of agent seats of
               None \<Rightarrow> (Inl (Mechanism (''unknown agent '' @ show_nat (agent_no agent))), s)
             | Some role \<Rightarrow> local_emit held visit 0 seats CreditAll role s)"

subsection \<open>Kernels without an arena\<close>

datatype payoff_aggregation = AggSum | AggMean

definition pairwise_pays ::
    "'f \<Rightarrow> ('c, 'a, 'f) outcome_rule \<Rightarrow> 'c \<Rightarrow> nat \<Rightarrow> agent_id list \<Rightarrow> credit \<Rightarrow> 'a list \<Rightarrow> unit result \<times> 'f list" where
  "pairwise_pays zero outcome context eid seats cr actions =
     or_outcome outcome context \<lparr>er_id = EncounterId eid, er_seats = seats, er_credit = cr\<rparr> actions
       (replicate (length seats) zero)"

definition play_implicit_pairwise ::
    "('a \<Rightarrow> nat option) \<Rightarrow> ('f \<Rightarrow> 'f \<Rightarrow> 'f) \<Rightarrow> 'f \<Rightarrow> implicit_pattern \<Rightarrow>
     ('g, 'a, 'x, 'n, 'd) outcome_context \<Rightarrow> agent_id list \<Rightarrow>
     (('g, 'a, 'x, 'n, 'd) outcome_context, 'a, 'f) outcome_rule \<Rightarrow> 'f payoff_accum \<Rightarrow> unit result \<times> 'f payoff_accum" where
  "play_implicit_pairwise as_usize fadd zero pat context ids outcome acc =
     for_each_implicit pat (oc_topology context) ids (oc_held context)
       (\<lambda>eid seats cr actions acc.
          case pairwise_pays zero outcome context eid seats cr actions of
            (Inl e, _) \<Rightarrow> (Inl e, acc)
          | (Inr _, payoffs) \<Rightarrow> accum_apply as_usize fadd seats cr actions payoffs acc) acc"

definition play_implicit_counting ::
    "('f \<Rightarrow> 'f \<Rightarrow> 'f) \<Rightarrow> 'f \<Rightarrow> implicit_pattern \<Rightarrow> ('g, 'f, 'z) anonymous_game_scheme \<Rightarrow> 'g \<Rightarrow>
     ('n, 'd) topology \<Rightarrow> agent_id list \<Rightarrow> nat list \<Rightarrow> 'f payoff_accum \<Rightarrow> unit result \<times> 'f payoff_accum" where
  "play_implicit_counting fadd zero pat G game topo ids held acc =
     (let (r, _, acc') = for_each_implicit pat topo ids held
            (\<lambda>eid seats cr actions (scratch, acc).
               case scratch_compute G zero game actions scratch of
                 (Inl e, scratch') \<Rightarrow> (Inl e, scratch', acc)
               | (Inr _, scratch') \<Rightarrow>
                   let (r, acc') = accum_apply Some fadd seats cr actions (cs_payoffs scratch') acc
                   in (r, scratch', acc'))
            (scratch_new zero (fg_n_actions G game 0), acc)
      in (r, acc'))"

text \<open>\<open>total += payoffs[role]\<close> and the checked count of the local closures.\<close>

definition tally_seat :: "('f \<Rightarrow> 'f \<Rightarrow> 'f) \<Rightarrow> nat \<Rightarrow> 'f \<Rightarrow> 'f \<times> nat \<Rightarrow> unit result \<times> 'f \<times> nat" where
  "tally_seat fadd index pay st =
     (let (total, n) = st
      in if n = u32_max
         then (Inl (Mechanism (''play count overflowed for agent '' @ show_nat index)), fadd total pay, n)
         else (Inr (), fadd total pay, n + 1))"

definition tally_result ::
    "('f \<Rightarrow> 'f \<Rightarrow> 'f) \<Rightarrow> (nat \<Rightarrow> 'f) \<Rightarrow> payoff_aggregation \<Rightarrow> unit result \<times> 'f \<times> nat \<Rightarrow> ('f \<times> nat) result" where
  "tally_result fdiv of_u32 aggregation res =
     (let (r, total, n) = res
      in try_bind r (\<lambda>_.
           Inr (if aggregation = AggMean \<and> n \<noteq> 0 then fdiv total (of_u32 n) else total, n)))"

definition local_payoff_pairwise ::
    "('f \<Rightarrow> 'f \<Rightarrow> 'f) \<Rightarrow> 'f \<Rightarrow> ('f \<Rightarrow> 'f \<Rightarrow> 'f) \<Rightarrow> (nat \<Rightarrow> 'f) \<Rightarrow> implicit_pattern \<Rightarrow>
     ('g, 'a, 'x, 'n, 'd) outcome_context \<Rightarrow> agent_id list \<Rightarrow>
     (('g, 'a, 'x, 'n, 'd) outcome_context, 'a, 'f) outcome_rule \<Rightarrow> local_encounter_ids \<Rightarrow> nat \<Rightarrow>
     payoff_aggregation \<Rightarrow> ('f \<times> nat) result" where
  "local_payoff_pairwise fadd zero fdiv of_u32 pat context ids outcome lids index aggregation =
     tally_result fdiv of_u32 aggregation
       (for_each_local_implicit pat (oc_topology context) ids (oc_held context) lids index
         (\<lambda>eid seats cr actions role st.
            case pairwise_pays zero outcome context eid seats cr actions of
              (Inl e, _) \<Rightarrow> (Inl e, st)
            | (Inr _, payoffs) \<Rightarrow> tally_seat fadd index (payoffs ! role) st) (zero, 0))"

definition local_payoff_counting ::
    "('f \<Rightarrow> 'f \<Rightarrow> 'f) \<Rightarrow> 'f \<Rightarrow> ('f \<Rightarrow> 'f \<Rightarrow> 'f) \<Rightarrow> (nat \<Rightarrow> 'f) \<Rightarrow> implicit_pattern \<Rightarrow>
     ('g, 'f, 'z) anonymous_game_scheme \<Rightarrow> 'g \<Rightarrow> ('n, 'd) topology \<Rightarrow> agent_id list \<Rightarrow> nat list \<Rightarrow>
     local_encounter_ids \<Rightarrow> nat \<Rightarrow> payoff_aggregation \<Rightarrow> ('f \<times> nat) result" where
  "local_payoff_counting fadd zero fdiv of_u32 pat G game topo ids held lids index aggregation =
     (let (r, _, st) = for_each_local_implicit pat topo ids held lids index
            (\<lambda>eid seats cr actions role (scratch, st).
               case scratch_compute G zero game actions scratch of
                 (Inl e, scratch') \<Rightarrow> (Inl e, scratch', st)
               | (Inr _, scratch') \<Rightarrow>
                   let (r, st') = tally_seat fadd index (cs_payoffs scratch' ! role) st in (r, scratch', st'))
            (scratch_new zero (fg_n_actions G game 0), zero, 0)
      in tally_result fdiv of_u32 aggregation (r, st))"

text \<open>\<open>payoff.iter_mut().zip(n_played)\<close>: entries past the shorter list are left alone.\<close>

definition aggregate_mean ::
    "('f \<Rightarrow> 'f \<Rightarrow> 'f) \<Rightarrow> (nat \<Rightarrow> 'f) \<Rightarrow> payoff_aggregation \<Rightarrow> 'f list \<Rightarrow> nat list \<Rightarrow> 'f list" where
  "aggregate_mean fdiv of_u32 aggregation payoff n_played =
     (if aggregation = AggMean
      then map (\<lambda>(p, n). if n \<noteq> 0 then fdiv p (of_u32 n) else p) (zip payoff n_played) @ drop (length n_played) payoff
      else payoff)"

end
