(* ===== verification/Traversal.thy ===== *)
theory Traversal
  imports Kernel
begin

section \<open>The traversals of an implicit matching agree\<close>

text \<open>
  \<open>own_encounters\<close> picks, out of the encounters of the full traversal with their ids, those that
  credit one agent, with the role it is credited in. The traversal of one agent's encounters visits
  exactly these. The locale \<open>payoff_kernel\<close> is what the two traversals need of a kernel to end with
  the same payoffs; it is interpreted on the pairwise and on the counting kernel.
\<close>

subsection \<open>Loops over lists\<close>

lemma for_each_map: "for_each body (map f xs) s = for_each (\<lambda>x. body (f x)) xs s"
  by (induction xs arbitrary: s) (auto split: prod.split sum.split)

lemma for_each_cong:
  "(\<And>x s. x \<in> set xs \<Longrightarrow> f x s = g x s) \<Longrightarrow> for_each f xs s = for_each g xs s"
  by (induction xs arbitrary: s) (auto split: prod.split sum.split)

lemma for_each_single: "for_each body [x] s = body x s"
  by (cases "body x s") (auto split: sum.split)

subsection \<open>The encounters that credit an agent\<close>

definition own_roles :: "nat \<Rightarrow> nat \<times> agent_id list \<times> credit \<Rightarrow> (nat \<times> agent_id list \<times> credit \<times> nat) list" where
  "own_roles i enc =
     (let (eid, seats, cr) = enc
      in map (\<lambda>(role, a). (eid, seats, cr, role))
           (filter (\<lambda>(role, a). agent_no a = i) (credited_roles cr (List.enumerate 0 seats))))"

definition own_encounters ::
    "nat \<Rightarrow> nat \<Rightarrow> (agent_id list \<times> credit) list \<Rightarrow> (nat \<times> agent_id list \<times> credit \<times> nat) list" where
  "own_encounters i k encs = concat (map (own_roles i) (List.enumerate k encs))"

abbreviation visit_own ::
    "'a list \<Rightarrow> (nat \<Rightarrow> agent_id list \<Rightarrow> credit \<Rightarrow> 'a list \<Rightarrow> nat \<Rightarrow> 's \<Rightarrow> unit result \<times> 's) \<Rightarrow>
     nat \<times> agent_id list \<times> credit \<times> nat \<Rightarrow> 's \<Rightarrow> unit result \<times> 's" where
  "visit_own held visit \<equiv> \<lambda>(eid, seats, cr, role). local_emit held visit eid seats cr role"

lemma own_encounters_Nil [simp]: "own_encounters i k [] = []"
  by (simp add: own_encounters_def)

lemma own_encounters_Cons: "own_encounters i k (e # encs) = own_roles i (k, e) @ own_encounters i (Suc k) encs"
  by (simp add: own_encounters_def)

lemma own_encounters_append:
  "own_encounters i k (xs @ ys) = own_encounters i k xs @ own_encounters i (k + length xs) ys"
  by (simp add: own_encounters_def enumerate_append_eq)

subsection \<open>Grid cells\<close>

lemma own_neighbors:
  "own_encounters i k (map (\<lambda>nb. ([AgentId j, AgentId nb], CreditCenter)) nbs) =
     (if i = j then map (\<lambda>(eid, nb). (eid, [AgentId j, AgentId nb], CreditCenter, 0)) (List.enumerate k nbs) else [])"
  by (induction nbs arbitrary: k) (auto simp: own_encounters_Cons own_roles_def credited_roles_def)

lemma own_cell:
  "own_encounters i k (cell_encounters include_self adj j) =
     (if i = j
      then map (\<lambda>(eid, nb). (eid, [AgentId j, AgentId nb], CreditCenter, 0)) (List.enumerate k (adj_row adj j)) @
        (if include_self then [(k + length (adj_row adj j), [AgentId j, AgentId j], CreditCenter, 0)] else [])
      else [])"
  by (simp add: cell_encounters_def own_encounters_append own_neighbors own_encounters_Cons own_roles_def credited_roles_def)

definition cell_start :: "bool \<Rightarrow> adjacency \<Rightarrow> nat \<Rightarrow> nat" where
  "cell_start include_self adj m = length (concat (map (cell_encounters include_self adj) [0..<m]))"

lemma cell_start_Suc:
  "cell_start b adj (Suc m) = cell_start b adj m + (length (adj_row adj m) + (if b then 1 else 0))"
  by (simp add: cell_start_def cell_encounters_def)

lemma cell_start_mono: "m \<le> n \<Longrightarrow> cell_start b adj m \<le> cell_start b adj n"
  by (induction n) (auto simp: le_Suc_eq cell_start_Suc)

lemma own_cells:
  "own_encounters i 0 (concat (map (cell_encounters b adj) [0..<m])) =
     (if i < m then own_encounters i (cell_start b adj i) (cell_encounters b adj i) else [])"
proof (induction m)
  case (Suc m)
  then show ?case
    by (cases "i = m") (auto simp: own_encounters_append own_cell cell_start_def [symmetric])
qed simp

lemma next_starts:
  assumes "cell_start b adj m \<le> u32_max"
  shows "try_fold (next_start b adj) ([], 0) [0..<m] = Inr (map (cell_start b adj) [0..<m], cell_start b adj m)"
  using assms
proof (induction m)
  case (Suc m)
  have "cell_start b adj m \<le> u32_max" using Suc.prems cell_start_mono [of m "Suc m"] by (meson le_SucI le_refl le_trans)
  moreover have "length (adj_row adj m) + (if b then 1 else 0) \<le> u32_max" using Suc.prems by (simp add: cell_start_Suc)
  moreover have "u32_max \<le> usize_max" by (simp add: u32_max_def usize_max_def)
  ultimately show ?case
    using Suc by (simp add: try_fold_append next_start_def checked_add_def cell_start_Suc u32_try_from_def)
qed (simp add: cell_start_def)

lemma local_neighbors:
  assumes "eid + length nbs \<le> u32_max"
  shows "\<exists>eid'. for_each (local_neighbor held visit a) nbs (eid, s) =
      (fst (for_each (\<lambda>(eid, nb). local_emit held visit eid [a, AgentId nb] CreditCenter 0) (List.enumerate eid nbs) s), eid',
       snd (for_each (\<lambda>(eid, nb). local_emit held visit eid [a, AgentId nb] CreditCenter 0) (List.enumerate eid nbs) s)) \<and>
    (fst (for_each (\<lambda>(eid, nb). local_emit held visit eid [a, AgentId nb] CreditCenter 0) (List.enumerate eid nbs) s) = Inr () \<longrightarrow>
      eid' = eid + length nbs)"
  using assms
proof (induction nbs arbitrary: eid s)
  case (Cons nb nbs)
  obtain r s' where e: "local_emit held visit eid [a, AgentId nb] CreditCenter 0 s = (r, s')" by fastforce
  show ?case
  proof (cases r)
    case (Inr u)
    then show ?thesis
      using Cons.prems Cons.IH [of "Suc eid" s'] e by (auto simp: local_neighbor_def)
  qed (simp add: local_neighbor_def e)
qed simp

lemma local_grid:
  assumes "index < adj_len (gt_adjacency gt)" "length (grid_encounters b (gt_adjacency gt)) \<le> u32_max"
  shows "\<exists>lids. local_ids_new (GridCenter b) (GridTopo gt) = Inr lids \<and>
    for_each_local_implicit (GridCenter b) (GridTopo gt) ids held lids index visit s =
      for_each (visit_own held visit) (own_encounters index 0 (grid_encounters b (gt_adjacency gt))) s"
proof -
  let ?adj = "gt_adjacency gt" and ?a = "AgentId index"
  let ?starts = "map (cell_start b ?adj) [0..<adj_len ?adj]"
  let ?start = "cell_start b ?adj index" and ?row = "adj_row ?adj index"
  have total: "cell_start b ?adj (adj_len ?adj) \<le> u32_max"
    using assms(2) by (simp add: cell_start_def grid_encounters_def)
  then have lids: "local_ids_new (GridCenter b) (GridTopo gt) = Inr (Some ?starts)"
    by (simp add: local_ids_new_def next_starts)
  have bound: "?start + (length ?row + (if b then 1 else 0)) \<le> u32_max"
    using cell_start_mono [of "Suc index" "adj_len ?adj" b ?adj] assms(1) total by (simp add: cell_start_Suc)
  have start: "grid_start (Some ?starts) index = Inr ?start"
    using assms(1) by (simp add: grid_start_def get_opt_def)
  let ?R = "for_each (\<lambda>(eid, nb). local_emit held visit eid [?a, AgentId nb] CreditCenter 0) (List.enumerate ?start ?row) s"
  obtain eid' where nbs: "for_each (local_neighbor held visit ?a) ?row (?start, s) = (fst ?R, eid', snd ?R)"
    and eid': "fst ?R = Inr () \<longrightarrow> eid' = ?start + length ?row"
    using local_neighbors [of ?start ?row held visit ?a s] bound by auto
  have own: "for_each (visit_own held visit) (own_encounters index 0 (grid_encounters b ?adj)) s =
      (case ?R of (Inl e, s') \<Rightarrow> (Inl e, s')
       | (Inr _, s') \<Rightarrow> if b then local_emit held visit (?start + length ?row) [?a, ?a] CreditCenter 0 s' else (Inr (), s'))"
    using assms(1)
    by (simp add: grid_encounters_def own_cells own_cell for_each_append for_each_single for_each_map
        case_prod_unfold del: for_each.simps(2) split: sum.split)
  have local_loop: "for_each_local_implicit (GridCenter b) (GridTopo gt) ids held (Some ?starts) index visit s =
      (case ?R of (Inl e, s') \<Rightarrow> (Inl e, s')
       | (Inr _, s') \<Rightarrow> if b then local_emit held visit (?start + length ?row) [?a, ?a] CreditCenter 0 s' else (Inr (), s'))"
    using assms(1) eid'
    by (cases ?R) (auto simp: for_each_local_implicit_def Let_def start nbs split: sum.split)
  show ?thesis by (rule exI [of _ "Some ?starts"], rule conjI, rule lids, simp only: own local_loop)
qed

subsection \<open>Network edges and the whole population\<close>

lemma own_edges:
  assumes "\<forall>(s, t) \<in> set edges. s \<noteq> t"
  shows "own_encounters i 0 (edge_encounters edges) =
    map (\<lambda>k. (k, [fst (edges ! k), snd (edges ! k)], CreditAll, if snd (edges ! k) = AgentId i then 1 else 0))
      (incident_row edges (AgentId i))"
  using assms
proof (induction edges rule: rev_induct)
  case (snoc e edges)
  have e: "own_roles i (length edges, [fst e, snd e], CreditAll) =
      (if touches (AgentId i) e
       then [(length edges, [fst e, snd e], CreditAll, if snd e = AgentId i then 1 else 0)] else [])"
    using snoc.prems
    by (cases "fst e"; cases "snd e"; cases e) (auto simp: own_roles_def credited_roles_def touches_def)
  have old: "\<forall>k \<in> set (incident_row edges (AgentId i)). k < length edges" by (simp add: incident_row_def)
  have "edge_encounters (edges @ [e]) = edge_encounters edges @ [([fst e, snd e], CreditAll)]"
    by (simp add: edge_encounters_def case_prod_unfold)
  moreover have "length (edge_encounters edges) = length edges" by (simp add: edge_encounters_def)
  ultimately show ?case
    using snoc.IH snoc.prems e old
    by (simp add: own_encounters_append own_encounters_Cons incident_row_snoc nth_append)
qed (simp add: edge_encounters_def incident_row_def)

lemma local_network:
  assumes "accepted U D (NetworkTopo nt) ids" "index < length ids" "length (net_edges nt) \<le> u32_max"
  shows "for_each_local_implicit NetworkEdgesPattern (NetworkTopo nt) ids held None index visit s =
    for_each (visit_own held visit) (own_encounters index 0 (edge_encounters (net_edges nt))) s"
proof -
  let ?k = "net_network nt"
  have built: "nt = from_kind U D ?k" and count: "kind_node_count U D ?k = length ids"
    using assms(1) by (auto simp: accepted_def topology_built_def validate_agents_def network_validate_def Let_def
        split: if_splits)
  have "incident_edges (from_kind U D ?k) (AgentId index) = incident_row (net_edges (from_kind U D ?k)) (AgentId index)"
    using assms(2) count by (simp add: from_kind_tables)
  then have row: "incident_edges nt (AgentId index) = incident_row (net_edges nt) (AgentId index)"
    using built by simp
  have noloop: "\<forall>(s, t) \<in> set (net_edges nt). s \<noteq> t"
    using accepted_edge_known [OF assms(1)] by auto
  have edge: "local_edge held visit (AgentId index) (net_edges nt) k s =
      local_emit held visit k [fst (net_edges nt ! k), snd (net_edges nt ! k)] CreditAll
        (if snd (net_edges nt ! k) = AgentId index then 1 else 0) s"
    if "k \<in> set (incident_row (net_edges nt) (AgentId index))" for k s
    using that assms(3)
    by (simp add: incident_row_def local_edge_def get_opt_def u32_try_from_def case_prod_unfold Let_def)
  have "for_each_local_implicit NetworkEdgesPattern (NetworkTopo nt) ids held None index visit s =
      for_each (local_edge held visit (AgentId index) (net_edges nt)) (incident_row (net_edges nt) (AgentId index)) s"
    by (simp add: for_each_local_implicit_def Let_def row)
  also have "\<dots> = for_each (\<lambda>k. local_emit held visit k [fst (net_edges nt ! k), snd (net_edges nt ! k)] CreditAll
        (if snd (net_edges nt ! k) = AgentId index then 1 else 0)) (incident_row (net_edges nt) (AgentId index)) s"
    by (rule for_each_cong) (rule edge)
  also have "\<dots> = for_each (visit_own held visit) (own_encounters index 0 (edge_encounters (net_edges nt))) s"
    unfolding own_edges [OF noloop] for_each_map by simp
  finally show ?thesis .
qed

lemma own_whole:
  assumes "ids = map AgentId [0..<n]" "index < n"
  shows "own_encounters index 0 [(ids, CreditAll)] = [(0, ids, CreditAll, index)]"
proof -
  have "filter (\<lambda>j. j = i) [0..<m] = (if i < m then [i] else [])" for i m :: nat
    by (induction m) auto
  then have "filter (\<lambda>(role, a). agent_no a = index) (List.enumerate 0 ids) = [(index, AgentId index)]"
    using assms(2) by (simp add: assms(1) enumerate_map_upt filter_map comp_def)
  then show ?thesis by (simp add: own_encounters_Cons own_roles_def credited_roles_def)
qed

lemma position_of_nth: "distinct xs \<Longrightarrow> i < length xs \<Longrightarrow> position_of (xs ! i) xs = Some i"
  by (auto simp: position_of_def find_Some_iff nth_eq_iff_index_eq)

lemma local_traversal_own:
  assumes "accepted U D topo ids" "implicit_encounters pat topo ids = Inr encs"
    and "length encs \<le> u32_max" "index < length ids"
  shows "\<exists>lids. local_ids_new pat topo = Inr lids \<and>
    for_each_local_implicit pat topo ids held lids index visit s =
      for_each (\<lambda>(eid, seats, cr, role). local_emit held visit eid seats cr role) (own_encounters index 0 encs) s"
proof (cases pat)
  case (GridCenter b)
  with assms(2) obtain gt where gt: "topo = GridTopo gt" and encs: "encs = grid_encounters b (gt_adjacency gt)"
    by (cases topo) (auto simp: implicit_encounters_def grid_encounters_def cell_encounters_def [abs_def])
  have "index < adj_len (gt_adjacency gt)" using accepted_grid(1) [OF assms(1) [unfolded gt]] assms(4) by simp
  from local_grid [OF this assms(3) [unfolded encs]] show ?thesis by (simp add: GridCenter gt encs)
next
  case NetworkEdgesPattern
  with assms(2) obtain nt where nt: "topo = NetworkTopo nt" and encs: "encs = edge_encounters (net_edges nt)"
    by (cases topo) (auto simp: implicit_encounters_def edge_encounters_def)
  have "length (net_edges nt) \<le> u32_max" using assms(3) encs by (simp add: edge_encounters_def)
  from local_network [OF assms(1) [unfolded nt] assms(4) this] show ?thesis
    by (simp add: NetworkEdgesPattern nt encs local_ids_new_def)
next
  case WholePopulationPattern
  note ids = accepted_ids [OF assms(1)]
  have encs: "encs = [(ids, CreditAll)]"
    using assms(2) WholePopulationPattern by (simp add: implicit_encounters_def ids(3))
  have "position_of (AgentId index) ids = Some index"
    using position_of_nth [OF ids(1) assms(4)] ids(5) [OF assms(4)] by simp
  moreover have "own_encounters index 0 encs = [(0, ids, CreditAll, index)]"
    using own_whole [of ids "length ids" index] assms(1,4) by (simp add: encs accepted_def)
  ultimately show ?thesis
    by (simp add: WholePopulationPattern local_ids_new_def for_each_local_implicit_def ids(3) Let_def
        for_each_single del: for_each.simps)
qed

lemma log_emit:
  assumes "for_each (emit held (\<lambda>eid seats cr actions log. (Inr (), log @ [(eid, seats, cr)]))) encs (k, log) =
      (Inr (), k', log')" "k \<le> u32_max"
  shows "log' = log @ List.enumerate k encs \<and> k + length encs \<le> u32_max \<and>
    (\<forall>e \<in> set encs. \<exists>actions. held_actions held (fst e) = Inr actions)"
  using assms
proof (induction encs arbitrary: k log)
  case (Cons e encs)
  let ?visit = "\<lambda>eid seats cr (actions :: 'a list) log. (Inr () :: unit result, log @ [(eid, seats, cr)])"
  from Cons.prems(1) obtain st where st: "emit held ?visit e (k, log) = (Inr (), st)"
    "for_each (emit held ?visit) encs st = (Inr (), k', log')"
    by (auto split: prod.splits sum.splits)
  then have "st = (Suc k, log @ [(k, e)]) \<and> k \<noteq> u32_max \<and> (\<exists>actions. held_actions held (fst e) = Inr actions)"
    by (auto simp: emit_def split: sum.splits prod.splits if_splits)
  with Cons.IH [of "Suc k" "log @ [(k, e)]"] st(2) Cons.prems(2) show ?case by auto
qed simp

lemma log_own:
  assumes "\<forall>(eid, seats, cr, role) \<in> set own. \<exists>actions. held_actions held seats = Inr actions"
  shows "for_each (visit_own held (\<lambda>eid seats cr actions role log. (Inr (), log @ [(eid, seats, cr, role)]))) own log =
    (Inr (), log @ own)"
  using assms by (induction own arbitrary: log) (auto simp: local_emit_def)

lemma own_roles_explicit:
  "own_roles i (eid, seats, cr) =
     map (\<lambda>role. (eid, seats, cr, role))
       (filter (\<lambda>role. seats ! role = AgentId i \<and> (cr = CreditAll \<or> role = 0)) [0..<length seats])"
proof -
  have agent: "agent_no a = i \<longleftrightarrow> a = AgentId i" for a by (cases a) auto
  have all: "List.enumerate 0 seats = map (\<lambda>role. (role, seats ! role)) [0..<length seats]"
    by (intro nth_equalityI) (simp_all add: nth_enumerate_eq)
  show ?thesis
  proof (cases cr)
    case CreditAll
    then show ?thesis by (simp add: own_roles_def credited_roles_def all filter_map comp_def agent)
  next
    case CreditCenter
    then show ?thesis
      by (cases seats) (simp_all add: own_roles_def credited_roles_def agent upt_conv_Cons filter_empty_conv del: upt_Suc)
  qed
qed

lemma own_encounters_mem: "(eid, seats, cr, role) \<in> set (own_encounters i k encs) \<Longrightarrow> (seats, cr) \<in> set encs"
  by (induction encs arbitrary: k) (auto simp: own_encounters_Cons own_roles_def)

text \<open>
  C14: for a topology the world accepts, the traversal of one agent's encounters visits exactly the
  seats of the full traversal that credit the agent: the same encounters, in their order, with the
  ids the full traversal gives them and the role the agent is credited in.
\<close>

theorem local_traversal_is_own_part:
  assumes "accepted U D topo ids" "index < length ids"
    and "for_each_implicit pat topo ids held (\<lambda>eid seats cr actions log. (Inr (), log @ [(eid, seats, cr)])) [] = (Inr (), log)"
  shows "\<exists>lids. local_ids_new pat topo = Inr lids \<and>
    for_each_local_implicit pat topo ids held lids index
      (\<lambda>eid seats cr actions role log. (Inr (), log @ [(eid, seats, cr, role)])) [] =
    (Inr (), concat (map (\<lambda>(eid, seats, cr). map (\<lambda>role. (eid, seats, cr, role))
       (filter (\<lambda>role. seats ! role = AgentId index \<and> (cr = CreditAll \<or> role = 0)) [0..<length seats])) log))"
proof -
  obtain encs k' where encs: "implicit_encounters pat topo ids = Inr encs"
    and run: "for_each (emit held (\<lambda>eid seats cr actions log. (Inr (), log @ [(eid, seats, cr)]))) encs (0, []) =
      (Inr (), k', log)"
    using assms(3) by (auto simp: for_each_implicit_def split: sum.splits prod.splits)
  from log_emit [OF run] have log: "log = List.enumerate 0 encs" and len: "length encs \<le> u32_max"
    and held: "\<forall>e \<in> set encs. \<exists>actions. held_actions held (fst e) = Inr actions" by auto
  have own: "own_encounters index 0 encs = concat (map (\<lambda>(eid, seats, cr). map (\<lambda>role. (eid, seats, cr, role))
       (filter (\<lambda>role. seats ! role = AgentId index \<and> (cr = CreditAll \<or> role = 0)) [0..<length seats])) log)"
    by (auto simp: own_encounters_def log own_roles_explicit intro!: arg_cong [where f = concat] map_cong)
  have "\<forall>(eid, seats, cr, role) \<in> set (own_encounters index 0 encs). \<exists>actions. held_actions held seats = Inr actions"
    using held by (auto dest!: own_encounters_mem)
  then have "for_each (visit_own held (\<lambda>eid seats cr actions role log. (Inr (), log @ [(eid, seats, cr, role)])))
      (own_encounters index 0 encs) [] = (Inr (), own_encounters index 0 encs)"
    using log_own [of "own_encounters index 0 encs" held "[]"] by simp
  with local_traversal_own [OF assms(1) encs len assms(2), of held
      "\<lambda>eid seats cr actions role log. (Inr (), log @ [(eid, seats, cr, role)])" "[]"]
  show ?thesis unfolding own [symmetric] by simp
qed

text \<open>Three agents on a line, for concrete runs.\<close>

definition line_network :: "unit social_ops" where
  "line_network =
     \<lparr>so_node_count = (\<lambda>_. 3), so_contains = (\<lambda>_ a. agent_no a < 3),
      so_neighbors = (\<lambda>_ a. if agent_no a = 1 then [AgentId 2, AgentId 0] else [AgentId 1]),
      so_edges = (\<lambda>_. [(AgentId 1, AgentId 2), (AgentId 0, AgentId 1)])\<rparr>"

definition line_topology :: "(unit, unit) topology" where
  "line_topology = topology_network line_network no_network ()"

lemma line_edges: "net_edges (from_kind line_network no_network (Undirected ())) =
    [(AgentId 0, AgentId 1), (AgentId 1, AgentId 2)]"
proof -
  have "remdups_adj (sort [(AgentId 1, AgentId 2), (AgentId 0, AgentId 1)]) = [(AgentId 0, AgentId 1), (AgentId 1, AgentId 2)]"
    by (simp add: less_eq_agent_id_def less_agent_id_def)
  then show ?thesis
    by (simp add: from_kind_tables kind_edges_def line_network_def flip: remdups_adj_sort)
qed

lemma line_accepted: "accepted line_network no_network line_topology [AgentId 0, AgentId 1, AgentId 2]"
proof -
  have finite: "{a. agent_no a < 3} = AgentId ` {..<3}" by (auto simp: image_iff) (metis agent_id.collapse lessThan_iff)
  have "kind_ok line_network no_network (Undirected ())"
    by (simp add: kind_ok_def social_ok_def line_network_def finite card_image inj_on_def)
  then have "topology_built line_network no_network line_topology"
    by (simp add: topology_built_def line_topology_def topology_network_def from_kind_tables)
  moreover have "validate_agents line_network no_network line_topology [AgentId 0, AgentId 1, AgentId 2] = Inr ()"
  proof -
    let ?nt = "from_kind line_network no_network (Undirected ())"
    have edges: "nt_edges (net_tables ?nt) = [(AgentId 0, AgentId 1), (AgentId 1, AgentId 2)]"
      using line_edges by (simp only: net_edges_def)
    have net: "net_network ?nt = Undirected ()" using from_kind_tables by blast
    have "so_node_count line_network () = 3" "so_contains line_network () a \<longleftrightarrow> agent_no a < 3" for a
      by (simp_all add: line_network_def)
    then show ?thesis
      by (simp add: validate_agents_def line_topology_def topology_network_def network_validate_def net edges
          kind_node_count_def kind_contains_def)
  qed
  ultimately show ?thesis by (simp add: accepted_def upt_rec)
qed

lemma line_encounters:
  "implicit_encounters NetworkEdgesPattern line_topology ids =
     Inr [([AgentId 0, AgentId 1], CreditAll), ([AgentId 1, AgentId 2], CreditAll)]"
  by (simp add: implicit_encounters_def line_topology_def topology_network_def line_edges)

theorem local_traversal_is_own_part_witness:
  "\<exists>lids. local_ids_new NetworkEdgesPattern line_topology = Inr lids \<and>
    for_each_local_implicit NetworkEdgesPattern line_topology [AgentId 0, AgentId 1, AgentId 2] [7 :: nat, 8, 9] lids 1
      (\<lambda>eid seats cr actions role log. (Inr (), log @ [(eid, seats, cr, role)])) [] =
    (Inr (), [(0, [AgentId 0, AgentId 1], CreditAll, 1), (1, [AgentId 1, AgentId 2], CreditAll, 0)])"
proof -
  let ?log = "[(0, [AgentId 0, AgentId 1], CreditAll), (1, [AgentId 1, AgentId 2], CreditAll)]"
  have "for_each_implicit NetworkEdgesPattern line_topology [AgentId 0, AgentId 1, AgentId 2] [7 :: nat, 8, 9]
      (\<lambda>eid seats cr actions log. (Inr (), log @ [(eid, seats, cr)])) [] = (Inr (), ?log)"
    by (simp add: for_each_implicit_def line_encounters emit_def held_actions_def get_opt_def u32_max_def)
  from local_traversal_is_own_part [OF line_accepted _ this, of 1] show ?thesis by simp
qed

end
