(* ===== verification/Payoffs.thy ===== *)
theory Payoffs
  imports Traversal
begin

section \<open>What a kernel pays\<close>

text \<open>
  The effect of a traversal on the per-agent totals: every agent's total is the left-to-right sum of
  the payoffs of the seats that credit it. From it: the recomputation of one agent's payoff agrees
  with the full traversal, and playing an implicit matching agrees with playing its arena.
\<close>

subsection \<open>Credited rows\<close>

definition earned :: "nat \<Rightarrow> (agent_id \<times> 'f) list \<Rightarrow> 'f list" where
  "earned i rws = map snd (filter (\<lambda>(a, p). agent_no a = i) rws)"

definition accum_sized :: "nat \<Rightarrow> 'f payoff_accum \<Rightarrow> bool" where
  "accum_sized n acc \<longleftrightarrow> length (acc_payoff acc) = n \<and> length (acc_n_played acc) = n \<and>
     (\<forall>m \<in> set (acc_n_played acc). m \<le> u32_max)"

definition pays_out ::
    "('f \<Rightarrow> 'f \<Rightarrow> 'f) \<Rightarrow> nat \<Rightarrow> 'f payoff_accum \<Rightarrow> (nat \<Rightarrow> 'f list) \<Rightarrow> 'f payoff_accum \<Rightarrow> bool" where
  "pays_out fadd n acc share acc' \<longleftrightarrow> accum_sized n acc' \<and>
     (\<forall>i < n. acc_payoff acc' ! i = foldl fadd (acc_payoff acc ! i) (share i) \<and>
       acc_n_played acc' ! i = acc_n_played acc ! i + length (share i))"

lemma pays_out_refl: "accum_sized n acc \<Longrightarrow> (\<And>i. share i = []) \<Longrightarrow> pays_out fadd n acc share acc"
  by (simp add: pays_out_def)

lemma pays_out_trans:
  "pays_out fadd n acc f acc1 \<Longrightarrow> pays_out fadd n acc1 g acc2 \<Longrightarrow> (\<And>i. h i = f i @ g i) \<Longrightarrow>
   pays_out fadd n acc h acc2"
  by (simp add: pays_out_def)

lemma credit_seat_Ok:
  assumes "credit_seat fadd (a, p) acc = (Inr (), acc')" "accum_sized n acc"
  shows "pays_out fadd n acc (\<lambda>i. earned i [(a, p)]) acc'"
proof -
  let ?j = "agent_no a"
  have j: "?j < n" "acc_n_played acc ! ?j \<noteq> u32_max"
    and acc': "acc' = acc\<lparr>acc_payoff := list_update (acc_payoff acc) ?j (fadd (acc_payoff acc ! ?j) p),
      acc_n_played := list_update (acc_n_played acc) ?j (acc_n_played acc ! ?j + 1)\<rparr>"
    using assms by (auto simp: credit_seat_def accum_sized_def Let_def split: if_splits)
  have "acc_n_played acc ! ?j + 1 \<le> u32_max"
    using j assms(2) by (force simp: accum_sized_def Suc_le_eq less_le)
  then have "\<forall>m \<in> set (list_update (acc_n_played acc) ?j (acc_n_played acc ! ?j + 1)). m \<le> u32_max"
    using assms(2) set_update_subset_insert by (fastforce simp: accum_sized_def)
  then show ?thesis
    using assms(2) j(1) by (simp add: acc' pays_out_def accum_sized_def earned_def nth_list_update)
qed

lemma credit_seats_Ok:
  "for_each (credit_seat fadd) rws acc = (Inr (), acc') \<Longrightarrow> accum_sized n acc \<Longrightarrow>
   pays_out fadd n acc (\<lambda>i. earned i rws) acc'"
proof (induction rws arbitrary: acc)
  case Nil
  then show ?case by (simp add: pays_out_refl earned_def)
next
  case (Cons rw rws)
  obtain a p where rw: "rw = (a, p)" by fastforce
  from Cons.prems(1) obtain acc1 where acc1: "credit_seat fadd (a, p) acc = (Inr (), acc1)"
    "for_each (credit_seat fadd) rws acc1 = (Inr (), acc')"
    by (auto simp: rw split: prod.splits sum.splits)
  note first = credit_seat_Ok [OF acc1(1) Cons.prems(2)]
  then have "accum_sized n acc1" by (simp add: pays_out_def)
  with Cons.IH [OF acc1(2)] first show ?case
    by (auto simp: rw earned_def elim: pays_out_trans)
qed

lemma count_actions_frame:
  "acc_payoff (snd (count_actions as_usize actions acc)) = acc_payoff acc \<and>
   acc_n_played (snd (count_actions as_usize actions acc)) = acc_n_played acc"
  by (simp add: count_actions_def case_prod_unfold Let_def split: option.split)

lemma accum_apply_Ok:
  assumes "accum_apply as_usize fadd seats cr actions payoffs acc = (Inr (), acc')" "accum_sized n acc"
  shows "pays_out fadd n acc (\<lambda>i. earned i (credited_roles cr (zip seats payoffs))) acc'"
proof -
  obtain acc1 where counted: "count_actions as_usize actions acc = (Inr (), acc1)"
    and rest: "for_each (credit_seat fadd) (credited_roles cr (zip seats payoffs)) acc1 = (Inr (), acc')"
    using assms(1) by (auto simp: accum_apply_def split: prod.splits sum.splits)
  have same: "acc_payoff acc1 = acc_payoff acc" "acc_n_played acc1 = acc_n_played acc"
    using count_actions_frame [of as_usize actions acc] counted by simp_all
  then have "accum_sized n acc1" using assms(2) by (simp add: accum_sized_def)
  from credit_seats_Ok [OF rest this] same show ?thesis by (simp add: pays_out_def)
qed

lemma credited_roles_map: "credited_roles cr (map f xs) = map f (credited_roles cr xs)"
  by (simp add: credited_roles_def take_map split: credit.split)

lemma earned_own_roles:
  assumes "length payoffs = length seats"
  shows "earned i (credited_roles cr (zip seats payoffs)) =
    map (\<lambda>(_, _, _, role). payoffs ! role) (own_roles i (eid, seats, cr))"
proof -
  have "zip seats payoffs = map (\<lambda>(role, a). (a, payoffs ! role)) (List.enumerate 0 seats)"
    using assms by (intro nth_equalityI) (simp_all add: nth_enumerate_eq)
  then show ?thesis
    by (simp add: credited_roles_map earned_def own_roles_def filter_map comp_def case_prod_unfold)
qed

lemma own_roles_role: "(eid', seats', cr', role) \<in> set (own_roles i (eid, seats, cr)) \<Longrightarrow>
    eid' = eid \<and> seats' = seats \<and> cr' = cr \<and> role < length seats"
  by (auto simp: own_roles_def credited_roles_def in_set_enumerate_eq split: credit.splits dest: in_set_takeD)

subsection \<open>Held actions\<close>

lemma held_actions_eq:
  assumes "\<forall>a \<in> set seats. agent_no a < length held"
  shows "held_actions held seats = Inr (map (\<lambda>a. held ! agent_no a) seats)"
proof -
  have "try_fold (\<lambda>actions agent.
       try_bind (ok_or (Mechanism (''unknown agent '' @ show_nat (agent_no agent))) (get_opt held (agent_no agent)))
         (\<lambda>a. Inr (actions @ [a]))) out seats = Inr (out @ map (\<lambda>a. held ! agent_no a) seats)" for out
    using assms by (induction seats arbitrary: out) (simp_all add: get_opt_def)
  then show ?thesis by (simp add: held_actions_def)
qed

lemma held_actions_length: "held_actions held seats = Inr actions \<Longrightarrow> length actions = length seats"
proof -
  have "try_fold (\<lambda>actions agent.
       try_bind (ok_or (Mechanism (''unknown agent '' @ show_nat (agent_no agent))) (get_opt held (agent_no agent)))
         (\<lambda>a. Inr (actions @ [a]))) out seats = Inr actions \<Longrightarrow> length actions = length out + length seats" for out
    by (induction seats arbitrary: out) (auto simp: try_bind_eq_Inr)
  then show "held_actions held seats = Inr actions \<Longrightarrow> length actions = length seats"
    by (fastforce simp: held_actions_def)
qed

subsection \<open>The contract of a kernel\<close>

text \<open>
  \<open>visit\<close> is the closure of the full traversal, \<open>local_visit\<close> the one of the local traversal; \<open>pays\<close>
  is the payoff row both compute for an encounter.
\<close>

locale payoff_kernel =
  fixes ok :: bool
    and as_usize :: "'a \<Rightarrow> nat option"
    and fadd :: "'f \<Rightarrow> 'f \<Rightarrow> 'f"
    and visit :: "nat \<Rightarrow> agent_id list \<Rightarrow> credit \<Rightarrow> 'a list \<Rightarrow> 's \<Rightarrow> unit result \<times> 's"
    and acc_of :: "'s \<Rightarrow> 'f payoff_accum"
    and local_visit :: "nat \<Rightarrow> nat \<Rightarrow> agent_id list \<Rightarrow> credit \<Rightarrow> 'a list \<Rightarrow> nat \<Rightarrow> 't \<Rightarrow> unit result \<times> 't"
    and tally :: "'t \<Rightarrow> 'f \<times> nat"
    and pays :: "nat \<Rightarrow> agent_id list \<Rightarrow> credit \<Rightarrow> 'a list \<Rightarrow> 'f list option"
  assumes visit_pays: "ok \<Longrightarrow> visit eid seats cr actions s = (Inr (), s') \<Longrightarrow> length actions = length seats \<Longrightarrow>
      \<exists>payoffs. pays eid seats cr actions = Some payoffs \<and> length payoffs = length seats \<and>
        accum_apply as_usize fadd seats cr actions payoffs (acc_of s) = (Inr (), acc_of s')"
    and local_pays: "pays eid seats cr actions = Some payoffs \<Longrightarrow> snd (tally t) < u32_max \<Longrightarrow>
      \<exists>t'. local_visit index eid seats cr actions role t = (Inr (), t') \<and>
        tally t' = (fadd (fst (tally t)) (payoffs ! role), snd (tally t) + 1)"
begin

text \<open>The payoff of a credited seat, and whether it is defined.\<close>

definition seat_pay :: "'a list \<Rightarrow> nat \<times> agent_id list \<times> credit \<times> nat \<Rightarrow> 'f option" where
  "seat_pay held own =
     (let (eid, seats, cr, role) = own
      in case held_actions held seats of
           Inl _ \<Rightarrow> None
         | Inr actions \<Rightarrow> map_option (\<lambda>payoffs. payoffs ! role) (pays eid seats cr actions))"

lemma emit_pays:
  assumes "ok" "emit held visit enc (k, s) = (Inr (), k', s')" "accum_sized n (acc_of s)"
  shows "k' = Suc k \<and> k' \<le> u32_max \<or> u32_max < k"
    and "\<exists>share. (\<forall>i. map Some (share i) = map (seat_pay held) (own_roles i (k, enc))) \<and>
      pays_out fadd n (acc_of s) share (acc_of s')"
proof -
  obtain seats cr where enc: "enc = (seats, cr)" by fastforce
  from assms(2) obtain actions where held: "held_actions held seats = Inr actions"
    and visited: "visit k seats cr actions s = (Inr (), s')" and k: "k \<noteq> u32_max" "k' = Suc k"
    by (auto simp: enc emit_def split: sum.splits prod.splits if_splits)
  from k show "k' = Suc k \<and> k' \<le> u32_max \<or> u32_max < k" by auto
  obtain payoffs where pays: "pays k seats cr actions = Some payoffs" "length payoffs = length seats"
    and applied: "accum_apply as_usize fadd seats cr actions payoffs (acc_of s) = (Inr (), acc_of s')"
    using visit_pays [OF assms(1) visited held_actions_length [OF held]] by blast
  let ?share = "\<lambda>i. map (\<lambda>(_, _, _, role). payoffs ! role) (own_roles i (k, enc))"
  have "pays_out fadd n (acc_of s) ?share (acc_of s')"
    using accum_apply_Ok [OF applied assms(3)] by (simp add: enc earned_own_roles [OF pays(2), of _ cr k])
  moreover have "map Some (?share i) = map (seat_pay held) (own_roles i (k, enc))" for i
    by (auto simp: enc seat_pay_def held pays(1) dest!: own_roles_role)
  ultimately show "\<exists>share. (\<forall>i. map Some (share i) = map (seat_pay held) (own_roles i (k, enc))) \<and>
      pays_out fadd n (acc_of s) share (acc_of s')" by (intro exI [of _ ?share] conjI allI)
qed

text \<open>The full traversal pays every agent its own encounters, in their order.\<close>

lemma full_pays:
  assumes "ok"
  shows "for_each (emit held visit) encs (k, s) = (Inr (), k', s') \<Longrightarrow> accum_sized n (acc_of s) \<Longrightarrow> k \<le> u32_max \<Longrightarrow>
    k + length encs \<le> u32_max \<and>
    (\<exists>share. (\<forall>i. map Some (share i) = map (seat_pay held) (own_encounters i k encs)) \<and>
      pays_out fadd n (acc_of s) share (acc_of s'))"
proof (induction encs arbitrary: k s)
  case Nil
  then show ?case by (auto intro!: exI [of _ "\<lambda>_. []"] pays_out_refl)
next
  case (Cons enc encs)
  from Cons.prems(1) obtain k1 s1 where first: "emit held visit enc (k, s) = (Inr (), k1, s1)"
    and rest: "for_each (emit held visit) encs (k1, s1) = (Inr (), k', s')"
    by (auto split: prod.splits sum.splits)
  have k1: "k1 = Suc k" "k1 \<le> u32_max" using emit_pays(1) [OF assms first Cons.prems(2)] Cons.prems(3) by auto
  obtain f where f: "\<And>i. map Some (f i) = map (seat_pay held) (own_roles i (k, enc))"
    and p: "pays_out fadd n (acc_of s) f (acc_of s1)"
    using emit_pays(2) [OF assms first Cons.prems(2)] by blast
  then have "accum_sized n (acc_of s1)" by (simp add: pays_out_def)
  from Cons.IH [OF rest this k1(2)] obtain g where len: "k1 + length encs \<le> u32_max"
    and g: "\<And>i. map Some (g i) = map (seat_pay held) (own_encounters i k1 encs)"
    and q: "pays_out fadd n (acc_of s1) g (acc_of s')" by blast
  have "pays_out fadd n (acc_of s) (\<lambda>i. f i @ g i) (acc_of s')"
    by (rule pays_out_trans [OF p q]) simp
  then show ?case using len k1 f g
    by (intro conjI exI [of _ "\<lambda>i. f i @ g i"]) (simp_all add: own_encounters_Cons)
qed

text \<open>The local traversal adds up the same payoffs.\<close>

lemma local_sums:
  assumes "map Some share = map (seat_pay held) own" "snd (tally t) + length own \<le> u32_max"
  shows "\<exists>t'. for_each (visit_own held (local_visit index)) own t = (Inr (), t') \<and>
    tally t' = (foldl fadd (fst (tally t)) share, snd (tally t) + length own)"
  using assms
proof (induction own arbitrary: share t)
  case (Cons o1 own)
  obtain eid seats cr role where o1: "o1 = (eid, seats, cr, role)" by (metis prod_cases4)
  from Cons.prems(1) obtain p ps where share: "share = p # ps" and p: "seat_pay held o1 = Some p"
    and ps: "map Some ps = map (seat_pay held) own" by (cases share) auto
  from p obtain actions payoffs where held: "held_actions held seats = Inr actions"
    and pay: "pays eid seats cr actions = Some payoffs" "p = payoffs ! role"
    by (auto simp: seat_pay_def o1 split: sum.splits)
  obtain t1 where t1: "local_visit index eid seats cr actions role t = (Inr (), t1)"
    "tally t1 = (fadd (fst (tally t)) (payoffs ! role), snd (tally t) + 1)"
    using local_pays [OF pay(1), of t index role] Cons.prems(2) by auto
  obtain t' where "for_each (visit_own held (local_visit index)) own t1 = (Inr (), t')"
    "tally t' = (foldl fadd (fst (tally t1)) ps, snd (tally t1) + length own)"
    using Cons.IH [OF ps, of t1] Cons.prems(2) t1(2) by auto
  moreover have "local_emit held (local_visit index) eid seats cr role t = (Inr (), t1)"
    by (simp add: local_emit_def held t1(1))
  ultimately show ?case using t1(2) by (intro exI [of _ t']) (simp add: o1 share pay(2))
qed simp

lemma local_matches_full:
  assumes "ok" "accepted U D topo ids" "for_each_implicit pat topo ids held visit s = (Inr (), s')"
    and "acc_payoff (acc_of s) = replicate (length ids) zero" "acc_n_played (acc_of s) = replicate (length ids) 0"
    and "index < length ids" "tally t = (zero, 0)"
  shows "\<exists>lids t'. local_ids_new pat topo = Inr lids \<and>
    for_each_local_implicit pat topo ids held lids index (local_visit index) t = (Inr (), t') \<and>
    tally t' = (acc_payoff (acc_of s') ! index, acc_n_played (acc_of s') ! index) \<and>
    accum_sized (length ids) (acc_of s')"
proof -
  obtain encs k' where encs: "implicit_encounters pat topo ids = Inr encs"
    and run: "for_each (emit held visit) encs (0, s) = (Inr (), k', s')"
    using assms(3) by (auto simp: for_each_implicit_def split: sum.splits prod.splits)
  have "accum_sized (length ids) (acc_of s)" using assms(4,5) by (simp add: accum_sized_def)
  from full_pays [OF assms(1) run this] obtain share where len: "length encs \<le> u32_max"
    and share: "\<And>i. map Some (share i) = map (seat_pay held) (own_encounters i 0 encs)"
    and paid: "pays_out fadd (length ids) (acc_of s) share (acc_of s')" by auto
  have paid': "acc_payoff (acc_of s') ! index = foldl fadd zero (share index)"
    "acc_n_played (acc_of s') ! index = length (share index)" "accum_sized (length ids) (acc_of s')"
    using paid assms(4,5,6) by (simp_all add: pays_out_def)
  have same: "length (share index) = length (own_encounters index 0 encs)"
    using arg_cong [OF share, of length] by simp
  have "length (share index) \<le> u32_max"
    using paid'(2,3) assms(6) by (metis accum_sized_def nth_mem)
  then obtain t' where "for_each (visit_own held (local_visit index)) (own_encounters index 0 encs) t = (Inr (), t')"
    "tally t' = (foldl fadd zero (share index), length (share index))"
    using local_sums [OF share [of index], of t index] assms(7) same by auto
  with local_traversal_own [OF assms(2) encs len assms(6), of held "local_visit index" t] paid'
  show ?thesis by auto
qed

end

subsection \<open>The two kernels\<close>

text \<open>A \<open>&mut [f64]\<close> argument keeps its length.\<close>

definition keeps_slice :: "('c, 'a, 'f) outcome_rule \<Rightarrow> 'c \<Rightarrow> bool" where
  "keeps_slice outcome context \<longleftrightarrow>
     (\<forall>enc actions out. length (snd (or_outcome outcome context enc actions out)) = length out)"

definition pairwise_visit ::
    "('a \<Rightarrow> nat option) \<Rightarrow> ('f \<Rightarrow> 'f \<Rightarrow> 'f) \<Rightarrow> 'f \<Rightarrow> ('c, 'a, 'f) outcome_rule \<Rightarrow> 'c \<Rightarrow>
     nat \<Rightarrow> agent_id list \<Rightarrow> credit \<Rightarrow> 'a list \<Rightarrow> 'f payoff_accum \<Rightarrow> unit result \<times> 'f payoff_accum" where
  "pairwise_visit as_usize fadd zero outcome context eid seats cr actions acc =
     (case pairwise_pays zero outcome context eid seats cr actions of
        (Inl e, _) \<Rightarrow> (Inl e, acc)
      | (Inr _, payoffs) \<Rightarrow> accum_apply as_usize fadd seats cr actions payoffs acc)"

definition pairwise_local ::
    "('f \<Rightarrow> 'f \<Rightarrow> 'f) \<Rightarrow> 'f \<Rightarrow> ('c, 'a, 'f) outcome_rule \<Rightarrow> 'c \<Rightarrow> nat \<Rightarrow>
     nat \<Rightarrow> agent_id list \<Rightarrow> credit \<Rightarrow> 'a list \<Rightarrow> nat \<Rightarrow> 'f \<times> nat \<Rightarrow> unit result \<times> 'f \<times> nat" where
  "pairwise_local fadd zero outcome context index eid seats cr actions role st =
     (case pairwise_pays zero outcome context eid seats cr actions of
        (Inl e, _) \<Rightarrow> (Inl e, st)
      | (Inr _, payoffs) \<Rightarrow> tally_seat fadd index (payoffs ! role) st)"

definition row_result :: "unit result \<times> 'b \<Rightarrow> 'b option" where
  "row_result res = (case res of (Inl _, _) \<Rightarrow> None | (Inr _, rw) \<Rightarrow> Some rw)"

lemma row_result_Some: "row_result res = Some rw \<longleftrightarrow> res = (Inr (), rw)"
  by (cases res) (auto simp: row_result_def split: sum.split)

interpretation pairwise: payoff_kernel
  "keeps_slice outcome ctx" as_usize fadd "pairwise_visit as_usize fadd zero outcome ctx" "\<lambda>acc. acc"
  "pairwise_local fadd zero outcome ctx" "\<lambda>st. st"
  "\<lambda>eid seats cr actions. row_result (pairwise_pays zero outcome ctx eid seats cr actions)"
  for outcome :: "('c, 'a, 'f) outcome_rule" and ctx and as_usize and fadd and zero
proof unfold_locales
  fix eid seats cr and actions :: "'a list" and s s' :: "'f payoff_accum" and role index and payoffs :: "'f list"
    and t :: "'f \<times> nat"
  assume keeps: "keeps_slice outcome ctx"
    and run: "pairwise_visit as_usize fadd zero outcome ctx eid seats cr actions s = (Inr (), s')"
  from run obtain payoffs where pays: "pairwise_pays zero outcome ctx eid seats cr actions = (Inr (), payoffs)"
    and applied: "accum_apply as_usize fadd seats cr actions payoffs s = (Inr (), s')"
    by (auto simp: pairwise_visit_def split: prod.splits sum.splits)
  moreover have "length payoffs = length seats"
    using keeps pays unfolding keeps_slice_def pairwise_pays_def by (metis length_replicate snd_conv)
  ultimately show "\<exists>payoffs. row_result (pairwise_pays zero outcome ctx eid seats cr actions) = Some payoffs \<and>
      length payoffs = length seats \<and> accum_apply as_usize fadd seats cr actions payoffs s = (Inr (), s')"
    by (simp add: row_result_Some)
next
  fix eid seats cr and actions :: "'a list" and role index and payoffs :: "'f list" and t :: "'f \<times> nat"
  assume "row_result (pairwise_pays zero outcome ctx eid seats cr actions) = Some payoffs" "snd t < u32_max"
  then show "\<exists>t'. pairwise_local fadd zero outcome ctx index eid seats cr actions role t = (Inr (), t') \<and>
      t' = (fadd (fst t) (payoffs ! role), snd t + 1)"
    by (simp add: pairwise_local_def row_result_Some tally_seat_def case_prod_unfold Let_def)
qed

text \<open>\<open>compute\<close> clears its buffers, so its payoffs do not depend on what they held.\<close>

definition counting_pays ::
    "('g, 'f, 'z) anonymous_game_scheme \<Rightarrow> 'f \<Rightarrow> 'g \<Rightarrow> nat list \<Rightarrow> 'f list option" where
  "counting_pays G zero game actions =
     map_option cs_payoffs (row_result (scratch_compute G zero game actions (scratch_new zero (fg_n_actions G game 0))))"

lemma scratch_compute_pays:
  "counting_pays G zero game actions =
     (case scratch_compute G zero game actions scratch of (Inl _, _) \<Rightarrow> None | (Inr _, s) \<Rightarrow> Some (cs_payoffs s))"
  by (simp add: counting_pays_def row_result_def scratch_compute_def Let_def split: prod.split sum.split)

lemma scratch_compute_length:
  "scratch_compute G zero game actions scratch = (Inr (), s) \<Longrightarrow> length (cs_payoffs s) = length actions"
  by (auto simp: scratch_compute_def Let_def split: prod.splits sum.splits)

definition counting_visit ::
    "('f \<Rightarrow> 'f \<Rightarrow> 'f) \<Rightarrow> 'f \<Rightarrow> ('g, 'f, 'z) anonymous_game_scheme \<Rightarrow> 'g \<Rightarrow>
     nat \<Rightarrow> agent_id list \<Rightarrow> credit \<Rightarrow> nat list \<Rightarrow> 'f counting_scratch \<times> 'f payoff_accum \<Rightarrow>
     unit result \<times> 'f counting_scratch \<times> 'f payoff_accum" where
  "counting_visit fadd zero G game eid seats cr actions st =
     (let (scratch, acc) = st
      in case scratch_compute G zero game actions scratch of
           (Inl e, scratch') \<Rightarrow> (Inl e, scratch', acc)
         | (Inr _, scratch') \<Rightarrow>
             let (r, acc') = accum_apply Some fadd seats cr actions (cs_payoffs scratch') acc
             in (r, scratch', acc'))"

definition counting_local ::
    "('f \<Rightarrow> 'f \<Rightarrow> 'f) \<Rightarrow> 'f \<Rightarrow> ('g, 'f, 'z) anonymous_game_scheme \<Rightarrow> 'g \<Rightarrow> nat \<Rightarrow>
     nat \<Rightarrow> agent_id list \<Rightarrow> credit \<Rightarrow> nat list \<Rightarrow> nat \<Rightarrow> 'f counting_scratch \<times> 'f \<times> nat \<Rightarrow>
     unit result \<times> 'f counting_scratch \<times> 'f \<times> nat" where
  "counting_local fadd zero G game index eid seats cr actions role st =
     (let (scratch, tl) = st
      in case scratch_compute G zero game actions scratch of
           (Inl e, scratch') \<Rightarrow> (Inl e, scratch', tl)
         | (Inr _, scratch') \<Rightarrow>
             let (r, tl') = tally_seat fadd index (cs_payoffs scratch' ! role) tl in (r, scratch', tl'))"

interpretation counting: payoff_kernel
  True Some fadd "counting_visit fadd zero G game" snd "counting_local fadd zero G game" snd
  "\<lambda>eid seats cr. counting_pays G zero game"
  for G :: "('g, 'f, 'z) anonymous_game_scheme" and game and fadd :: "'f \<Rightarrow> 'f \<Rightarrow> 'f" and zero
proof unfold_locales
  fix eid :: nat and seats cr and actions :: "nat list" and s s' :: "'f counting_scratch \<times> 'f payoff_accum"
  assume run: "counting_visit fadd zero G game eid seats cr actions s = (Inr (), s')"
    and len: "length actions = length seats"
  from run obtain scratch where comp: "scratch_compute G zero game actions (fst s) = (Inr (), scratch)"
    and applied: "accum_apply Some fadd seats cr actions (cs_payoffs scratch) (snd s) = (Inr (), snd s')"
    by (auto simp: counting_visit_def Let_def split: prod.splits sum.splits)
  then show "\<exists>payoffs. counting_pays G zero game actions = Some payoffs \<and> length payoffs = length seats \<and>
      accum_apply Some fadd seats cr actions payoffs (snd s) = (Inr (), snd s')"
    using scratch_compute_length [OF comp] len by (simp add: scratch_compute_pays [of G zero game actions "fst s"])
next
  fix eid :: nat and seats :: "agent_id list" and cr :: credit and actions role index and payoffs :: "'f list"
    and t :: "'f counting_scratch \<times> 'f \<times> nat"
  assume pays: "counting_pays G zero game actions = Some payoffs" and n: "snd (snd t) < u32_max"
  obtain r scratch where comp: "scratch_compute G zero game actions (fst t) = (r, scratch)" by fastforce
  then have "r = Inr ()" "payoffs = cs_payoffs scratch"
    using pays by (auto simp: scratch_compute_pays [of G zero game actions "fst t"] split: sum.splits)
  with comp n show "\<exists>t'. counting_local fadd zero G game index eid seats cr actions role t = (Inr (), t') \<and>
      snd t' = (fadd (fst (snd t)) (payoffs ! role), snd (snd t) + 1)"
    by (cases t) (auto simp: counting_local_def tally_seat_def)
qed

lemma play_implicit_pairwise_eq:
  "play_implicit_pairwise as_usize fadd zero pat ctx ids outcome acc =
     for_each_implicit pat (oc_topology ctx) ids (oc_held ctx) (pairwise_visit as_usize fadd zero outcome ctx) acc"
  by (simp add: play_implicit_pairwise_def pairwise_visit_def [abs_def])

lemma play_implicit_counting_eq:
  "play_implicit_counting fadd zero pat G game topo ids held acc =
     (let (r, _, acc') = for_each_implicit pat topo ids held (counting_visit fadd zero G game)
        (scratch_new zero (fg_n_actions G game 0), acc) in (r, acc'))"
  by (simp add: play_implicit_counting_def counting_visit_def [abs_def] case_prod_unfold Let_def)

lemma local_payoff_pairwise_eq:
  "local_payoff_pairwise fadd zero fdiv of_u32 pat ctx ids outcome lids index aggregation =
     tally_result fdiv of_u32 aggregation (for_each_local_implicit pat (oc_topology ctx) ids (oc_held ctx) lids index
       (pairwise_local fadd zero outcome ctx index) (zero, 0))"
  by (simp add: local_payoff_pairwise_def pairwise_local_def [abs_def])

lemma local_payoff_counting_eq:
  "local_payoff_counting fadd zero fdiv of_u32 pat G game topo ids held lids index aggregation =
     (let (r, _, st) = for_each_local_implicit pat topo ids held lids index
        (counting_local fadd zero G game index) (scratch_new zero (fg_n_actions G game 0), zero, 0)
      in tally_result fdiv of_u32 aggregation (r, st))"
  by (simp add: local_payoff_counting_def counting_local_def [abs_def] case_prod_unfold Let_def)

lemma aggregate_mean_nth:
  "length payoff = length n_played \<Longrightarrow> i < length payoff \<Longrightarrow>
   aggregate_mean fdiv of_u32 aggregation payoff n_played ! i =
     (if aggregation = AggMean \<and> n_played ! i \<noteq> 0 then fdiv (payoff ! i) (of_u32 (n_played ! i)) else payoff ! i)"
  by (simp add: aggregate_mean_def nth_append)

definition fresh_accum :: "'f \<Rightarrow> nat \<Rightarrow> played_counts option \<Rightarrow> 'f payoff_accum" where
  "fresh_accum zero n counts =
     \<lparr>acc_payoff = replicate n zero, acc_n_played = replicate n 0, acc_played_counts = counts\<rparr>"

lemma pairwise_local_full:
  assumes "keeps_slice outcome ctx" "accepted U D (oc_topology ctx) ids" "index < length ids"
    and "play_implicit_pairwise as_usize fadd zero pat ctx ids outcome (fresh_accum zero (length ids) counts) =
      (Inr (), acc)"
  shows "\<exists>lids. local_ids_new pat (oc_topology ctx) = Inr lids \<and>
    local_payoff_pairwise fadd zero fdiv of_u32 pat ctx ids outcome lids index aggregation =
      Inr (aggregate_mean fdiv of_u32 aggregation (acc_payoff acc) (acc_n_played acc) ! index, acc_n_played acc ! index)"
    and "accum_sized (length ids) acc"
proof -
  obtain lids t' where lids: "local_ids_new pat (oc_topology ctx) = Inr lids"
    and run: "for_each_local_implicit pat (oc_topology ctx) ids (oc_held ctx) lids index
        (pairwise_local fadd zero outcome ctx index) (zero, 0) = (Inr (), t')"
    and t': "t' = (acc_payoff acc ! index, acc_n_played acc ! index)" and sized: "accum_sized (length ids) acc"
    using pairwise.local_matches_full [OF assms(1,2) assms(4) [unfolded play_implicit_pairwise_eq] _ _ assms(3),
        of zero "(zero, 0)"] by (auto simp: fresh_accum_def)
  show "accum_sized (length ids) acc" by (rule sized)
  show "\<exists>lids. local_ids_new pat (oc_topology ctx) = Inr lids \<and>
    local_payoff_pairwise fadd zero fdiv of_u32 pat ctx ids outcome lids index aggregation =
      Inr (aggregate_mean fdiv of_u32 aggregation (acc_payoff acc) (acc_n_played acc) ! index, acc_n_played acc ! index)"
    using sized assms(3)
    by (intro exI [of _ lids]) (simp add: lids local_payoff_pairwise_eq run t' tally_result_def accum_sized_def aggregate_mean_nth)
qed

text \<open>
  C5: when the full play of an implicit matching by the pairwise kernel succeeds, recomputing one
  agent's payoff alone succeeds too and returns the same payoff, operation for operation, and the
  same play count, for either aggregation.
\<close>

theorem local_payoff_matches_full:
  assumes "keeps_slice outcome ctx" "accepted U D (oc_topology ctx) ids" "index < length ids"
    and "play_implicit_pairwise as_usize fadd zero pat ctx ids outcome (fresh_accum zero (length ids) counts) =
      (Inr (), acc)"
  shows "\<exists>lids. local_ids_new pat (oc_topology ctx) = Inr lids \<and>
    local_payoff_pairwise fadd zero fdiv of_u32 pat ctx ids outcome lids index aggregation =
      Inr (aggregate_mean fdiv of_u32 aggregation (acc_payoff acc) (acc_n_played acc) ! index, acc_n_played acc ! index)"
  by (rule pairwise_local_full(1) [OF assms])

lemma normal_form_keeps_slice: "keeps_slice (normal_form_outcome (crowd_game n)) ctx"
  by (simp add: keeps_slice_def normal_form_outcome_def crowd_game_def default_payoffs_into_def)

definition line_context :: "(unit, nat, unit, unit, unit) outcome_context" where
  "line_context = \<lparr>oc_t = 1, oc_game = (), oc_x = (), oc_held = [1, 0, 1], oc_topology = line_topology\<rparr>"

theorem local_payoff_matches_full_witness:
  "\<exists>lids. local_ids_new NetworkEdgesPattern line_topology = Inr lids \<and>
    local_payoff_pairwise (+) 0 (div) (\<lambda>n. n) NetworkEdgesPattern line_context [AgentId 0, AgentId 1, AgentId 2]
      (normal_form_outcome (crowd_game 2)) lids 1 AggSum = Inr (2, 2)"
proof -
  let ?ids = "[AgentId 0, AgentId 1, AgentId 2]"
  have full: "play_implicit_pairwise Some (+) 0 NetworkEdgesPattern line_context ?ids (normal_form_outcome (crowd_game 2))
      (fresh_accum 0 (length ?ids) None) =
      (Inr (), \<lparr>acc_payoff = [10, 2, 10], acc_n_played = [1, 2, 1], acc_played_counts = None\<rparr>)"
    by (simp add: play_implicit_pairwise_def for_each_implicit_def line_encounters emit_def held_actions_def
        get_opt_def pairwise_pays_def normal_form_outcome_def crowd_game_def default_payoffs_into_def accum_apply_def
        count_actions_def credited_roles_def credit_seat_def fresh_accum_def u32_max_eq Let_def line_context_def
        numeral_3_eq_3 numeral_2_eq_2)
  have "accepted line_network no_network (oc_topology line_context) ?ids"
    using line_accepted by (simp add: line_context_def)
  from local_payoff_matches_full [OF normal_form_keeps_slice this _ full, of 1 "(div)" "\<lambda>n. n" AggSum]
  show ?thesis by (simp add: aggregate_mean_def line_context_def)
qed

text \<open>the same agreement for the counting kernel of anonymous games.\<close>

theorem local_counting_matches_full:
  assumes "accepted U D topo ids" "index < length ids"
    and "play_implicit_counting fadd zero pat G game topo ids held (fresh_accum zero (length ids) counts) = (Inr (), acc)"
  shows "\<exists>lids. local_ids_new pat topo = Inr lids \<and>
    local_payoff_counting fadd zero fdiv of_u32 pat G game topo ids held lids index aggregation =
      Inr (aggregate_mean fdiv of_u32 aggregation (acc_payoff acc) (acc_n_played acc) ! index, acc_n_played acc ! index)"
proof -
  let ?s0 = "scratch_new zero (fg_n_actions G game 0)"
  obtain scratch where full: "for_each_implicit pat topo ids held (counting_visit fadd zero G game)
      (?s0, fresh_accum zero (length ids) counts) = (Inr (), scratch, acc)"
    using assms(3) by (auto simp: play_implicit_counting_eq Let_def split: prod.splits)
  obtain lids t' where lids: "local_ids_new pat topo = Inr lids"
    and run: "for_each_local_implicit pat topo ids held lids index
        (counting_local fadd zero G game index) (?s0, zero, 0) = (Inr (), t')"
    and t': "snd t' = (acc_payoff acc ! index, acc_n_played acc ! index)" and sized: "accum_sized (length ids) acc"
    using counting.local_matches_full [OF TrueI assms(1) full _ _ assms(2), of zero "(?s0, zero, 0)"]
    by (auto simp: fresh_accum_def)
  show ?thesis
    using sized assms(2)
    by (intro exI [of _ lids], cases t')
      (use t' in \<open>simp add: lids local_payoff_counting_eq run tally_result_def accum_sized_def aggregate_mean_nth\<close>)
qed

theorem local_counting_matches_full_witness:
  "\<exists>lids. local_ids_new NetworkEdgesPattern line_topology = Inr lids \<and>
    local_payoff_counting (+) 0 (div) (\<lambda>n. n) NetworkEdgesPattern (crowd_game 2) () line_topology
      [AgentId 0, AgentId 1, AgentId 2] [1, 0, 1] lids 1 AggMean = Inr (1, 2)"
proof -
  let ?ids = "[AgentId 0, AgentId 1, AgentId 2]"
  have full: "play_implicit_counting (+) 0 NetworkEdgesPattern (crowd_game 2) () line_topology ?ids [1, 0, 1]
      (fresh_accum 0 (length ?ids) None) =
      (Inr (), \<lparr>acc_payoff = [10, 2, 10], acc_n_played = [1, 2, 1], acc_played_counts = None\<rparr>)"
    by (simp add: play_implicit_counting_def for_each_implicit_def line_encounters emit_def held_actions_def
        get_opt_def crowd_game_def scratch_compute_def count_one_def pay_action_def accum_apply_def
        count_actions_def credited_roles_def credit_seat_def fresh_accum_def u32_max_eq Let_def
        numeral_3_eq_3 numeral_2_eq_2)
  from local_counting_matches_full [OF line_accepted _ full, of 1 "(div)" "\<lambda>n. n" AggMean]
  show ?thesis by (simp add: aggregate_mean_def)
qed

end
