(* ===== verification/Kernel_Agreement.thy ===== *)
theory Kernel_Agreement
  imports Payoffs
begin

section \<open>The kernels agree\<close>

text \<open>
  The counting kernel against the definition of an anonymous game, and the play of an implicit
  matching against the play of the arena the matching writes.
\<close>

subsection \<open>The counting kernel\<close>

lemma count_all:
  "\<forall>a \<in> set actions. a < length counts \<Longrightarrow>
   \<exists>counts'. for_each count_one actions counts = (Inr (), counts') \<and> length counts' = length counts \<and>
     (\<forall>a < length counts. counts' ! a = counts ! a + count_list actions a)"
proof (induction actions arbitrary: counts)
  case (Cons a actions)
  let ?c = "list_update counts a (counts ! a + 1)"
  obtain counts' where "for_each count_one actions ?c = (Inr (), counts')" "length counts' = length counts"
    "\<forall>b < length counts. counts' ! b = ?c ! b + count_list actions b"
    using Cons.IH [of ?c] Cons.prems by auto
  moreover have "count_one a counts = (Inr (), ?c)" using Cons.prems by (simp add: count_one_def)
  ultimately show ?case by (auto simp: nth_list_update)
qed simp

text \<open>Each action is paid with one player fewer in its own count; the counts come back unchanged.\<close>

lemma pay_actions:
  assumes "length counts = n" "length by_action = n" "m \<le> n"
  shows "\<exists>by'. fold (pay_action G game) [0..<m] (counts, by_action) = (counts, by') \<and> length by' = n \<and>
    (\<forall>a < n. by' ! a = (if a < m \<and> counts ! a \<noteq> 0
       then ag_payoff_by_counts G game a (list_update counts a (counts ! a - 1)) else by_action ! a))"
  using assms(3)
proof (induction m)
  case (Suc m)
  then obtain by' where IH: "fold (pay_action G game) [0..<m] (counts, by_action) = (counts, by')" "length by' = n"
    "\<forall>a < n. by' ! a = (if a < m \<and> counts ! a \<noteq> 0
       then ag_payoff_by_counts G game a (list_update counts a (counts ! a - 1)) else by_action ! a)" by auto
  let ?by = "if counts ! m = 0 then by'
    else list_update by' m (ag_payoff_by_counts G game m (list_update counts m (counts ! m - 1)))"
  have "pay_action G game m (counts, by') = (counts, ?by)"
    using Suc.prems assms(1) by (auto simp: pay_action_def Let_def list_update_same_conv)
  then have "fold (pay_action G game) [0..<Suc m] (counts, by_action) = (counts, ?by)" using IH(1) by simp
  moreover have "length ?by = n" using IH(2) by simp
  moreover have "\<forall>a < n. ?by ! a = (if a < Suc m \<and> counts ! a \<noteq> 0
       then ag_payoff_by_counts G game a (list_update counts a (counts ! a - 1)) else by_action ! a)"
    using IH(2,3) Suc.prems by (auto simp: nth_list_update less_Suc_eq)
  ultimately show ?case by blast
qed (simp add: assms(2))

lemma counts_without:
  assumes "role < length actions" "\<forall>a \<in> set actions. a < n"
  shows "map (count_list (take role actions @ drop (Suc role) actions)) [0..<n] =
    list_update (map (count_list actions) [0..<n]) (actions ! role) (count_list actions (actions ! role) - 1)"
proof (rule nth_equalityI)
  fix a assume "a < length (map (count_list (take role actions @ drop (Suc role) actions)) [0..<n])"
  moreover have "count_list actions a = count_list (take role actions @ actions ! role # drop (Suc role) actions) a"
    using id_take_nth_drop [OF assms(1)] by simp
  ultimately show "map (count_list (take role actions @ drop (Suc role) actions)) [0..<n] ! a =
      list_update (map (count_list actions) [0..<n]) (actions ! role) (count_list actions (actions ! role) - 1) ! a"
    using assms by (auto simp: nth_list_update)
qed simp

text \<open>
  the counting kernel pays every seat the payoff of its own action against the counts of the
  actions of the other seats, whatever its buffers held before.
\<close>

theorem counting_pays_each_seat:
  assumes "\<forall>a \<in> set actions. a < fg_n_actions G game 0"
  shows "\<exists>s. scratch_compute G zero game actions scratch = (Inr (), s) \<and>
    cs_payoffs s = map (\<lambda>role. ag_payoff_by_counts G game (actions ! role)
      (map (count_list (take role actions @ drop (Suc role) actions)) [0..<fg_n_actions G game 0]))
      [0..<length actions]"
proof -
  let ?n = "fg_n_actions G game 0" and ?counts = "map (count_list actions) [0..<fg_n_actions G game 0]"
  obtain counts where loop: "for_each count_one actions (replicate ?n 0) = (Inr (), counts)"
    and "length counts = ?n" "\<forall>a < ?n. counts ! a = count_list actions a"
    using count_all [of actions "replicate ?n 0"] assms by auto
  then have counts: "counts = ?counts" by (auto intro: nth_equalityI)
  obtain by' where pay: "fold (pay_action G game) [0..<?n] (?counts, replicate ?n zero) = (?counts, by')"
    and by': "\<forall>a < ?n. by' ! a = (if ?counts ! a \<noteq> 0
       then ag_payoff_by_counts G game a (list_update ?counts a (?counts ! a - 1)) else zero)"
    using pay_actions [of ?counts ?n "replicate ?n zero" ?n G game] by auto
  have row: "by' ! (actions ! role) = ag_payoff_by_counts G game (actions ! role)
      (map (count_list (take role actions @ drop (Suc role) actions)) [0..<?n])" if "role < length actions" for role
  proof -
    have "actions ! role \<in> set actions" using that by simp
    moreover from this have "count_list actions (actions ! role) \<noteq> 0" by (simp add: count_list_0_iff)
    ultimately show ?thesis using by' assms counts_without [OF that assms] by simp
  qed
  have "map (\<lambda>action. by' ! action) actions = map (\<lambda>role. ag_payoff_by_counts G game (actions ! role)
      (map (count_list (take role actions @ drop (Suc role) actions)) [0..<?n])) [0..<length actions]"
    using row by (intro nth_equalityI) simp_all
  then show ?thesis
    by (simp add: scratch_compute_def Let_def loop counts pay)
qed

theorem counting_pays_each_seat_witness:
  "\<exists>s. scratch_compute (crowd_game 3) 0 () [1, 0, 1] (scratch_new 0 2) = (Inr (), s) \<and> cs_payoffs s = [11, 2, 11]"
  using counting_pays_each_seat [of "[1, 0, 1]" "crowd_game 3" "()" 0 "scratch_new 0 2"]
  by (simp add: crowd_game_def upt_rec numeral_2_eq_2)

subsection \<open>Implicit and materialized play\<close>

text \<open>The arena of \<open>encs\<close> whose action seats hold the seated agents' held actions.\<close>

definition holds_arena :: "'a list \<Rightarrow> nat \<Rightarrow> (agent_id list \<times> credit) list \<Rightarrow> ('a, 'f) play_arena \<Rightarrow> bool" where
  "holds_arena held n encs ar \<longleftrightarrow>
     pa_n_roles ar = n \<and> pa_seats ar = concat (map fst encs) \<and> pa_credit ar = map snd encs \<and>
     pa_actions ar = map (\<lambda>a. get_opt held (agent_no a)) (pa_seats ar)"

definition seats_known :: "'a list \<Rightarrow> nat \<Rightarrow> (agent_id list \<times> credit) list \<Rightarrow> bool" where
  "seats_known held n encs \<longleftrightarrow>
     (\<forall>e \<in> set encs. length (fst e) = n \<and> (\<forall>a \<in> set (fst e). agent_no a < length held))"

lemma row_of_concat: "i < length rs \<Longrightarrow> \<forall>r \<in> set rs. length r = n \<Longrightarrow> row_of n i (concat rs) = rs ! i"
  using slice_of_concat [of i rs n] by (simp add: row_of_def slice_get_def split: if_splits)

lemma fill_held:
  "\<forall>a \<in> set seats. agent_no a < length held \<Longrightarrow>
   fill_actions (map (\<lambda>a. get_opt held (agent_no a)) seats) = Inr (map (\<lambda>a. held ! agent_no a) seats)"
proof -
  have "\<forall>a \<in> set seats. agent_no a < length held \<Longrightarrow>
      try_fold (\<lambda>out action. try_bind (ok_or (Mechanism ''unfilled action seat'') action) (\<lambda>a. Inr (out @ [a]))) out
        (map (\<lambda>a. get_opt held (agent_no a)) seats) = Inr (out @ map (\<lambda>a. held ! agent_no a) seats)" for out
    by (induction seats arbitrary: out) (simp_all add: get_opt_def)
  then show "\<forall>a \<in> set seats. agent_no a < length held \<Longrightarrow> ?thesis" by (simp add: fill_actions_def)
qed

lemma holds_arena_row:
  assumes "holds_arena held n encs ar" "seats_known held n encs" "i < length encs"
  shows "row_of n i (pa_seats ar) = fst (encs ! i)" "pa_credit ar ! i = snd (encs ! i)"
    "fill_actions (row_of n i (pa_actions ar)) = Inr (map (\<lambda>a. held ! agent_no a) (fst (encs ! i)))"
    "held_actions held (fst (encs ! i)) = Inr (map (\<lambda>a. held ! agent_no a) (fst (encs ! i)))"
proof -
  have known: "\<forall>a \<in> set (fst (encs ! i)). agent_no a < length held" and len: "\<forall>e \<in> set encs. length (fst e) = n"
    using assms(2,3) by (auto simp: seats_known_def)
  show "row_of n i (pa_seats ar) = fst (encs ! i)" "pa_credit ar ! i = snd (encs ! i)"
    using assms(1,3) row_of_concat [of i "map fst encs" n] len by (simp_all add: holds_arena_def)
  have "pa_actions ar = concat (map (\<lambda>e. map (\<lambda>a. get_opt held (agent_no a)) (fst e)) encs)"
    using assms(1) by (simp add: holds_arena_def map_concat comp_def)
  then have "row_of n i (pa_actions ar) = map (\<lambda>a. get_opt held (agent_no a)) (fst (encs ! i))"
    using row_of_concat [of i "map (\<lambda>e. map (\<lambda>a. get_opt held (agent_no a)) (fst e)) encs" n] assms(3) len by simp
  then show "fill_actions (row_of n i (pa_actions ar)) = Inr (map (\<lambda>a. held ! agent_no a) (fst (encs ! i)))"
    using fill_held [OF known] by simp
  show "held_actions held (fst (encs ! i)) = Inr (map (\<lambda>a. held ! agent_no a) (fst (encs ! i)))"
    by (rule held_actions_eq) (rule known)
qed

lemma pairwise_agrees:
  assumes "seats_known held n encs" "length encs \<le> u32_max"
  shows "holds_arena held n encs ar \<Longrightarrow> k \<le> length encs \<Longrightarrow>
    \<exists>ar' k'. for_each (pairwise_encounter as_usize fadd zero outcome ctx) [k..<length encs] (ar, acc) =
        (fst (for_each (emit held (pairwise_visit as_usize fadd zero outcome ctx)) (drop k encs) (k, acc)), ar',
         snd (snd (for_each (emit held (pairwise_visit as_usize fadd zero outcome ctx)) (drop k encs) (k, acc))))"
proof (induction "length encs - k" arbitrary: k ar acc)
  case (Suc m)
  then have k: "k < length encs" by simp
  note rw = holds_arena_row [OF Suc.prems(1) assms(1) k]
  have n: "pa_n_roles ar = n" and len: "length (fst (encs ! k)) = n"
    using Suc.prems(1) assms(1) k by (simp_all add: holds_arena_def seats_known_def)
  have small: "k mod 2 ^ 32 = k" "k \<noteq> u32_max" using k assms(2) by (simp_all add: u32_max_def)
  have upt: "[k..<length encs] = k # [Suc k..<length encs]" "drop k encs = encs ! k # drop (Suc k) encs"
    using k by (simp_all add: upt_conv_Cons Cons_nth_drop_Suc)
  obtain seats cr where e: "encs ! k = (seats, cr)" by fastforce
  let ?acts = "map (\<lambda>a. held ! agent_no a) seats"
  obtain r pays where pays: "pairwise_pays zero outcome ctx k seats cr ?acts = (r, pays)" by fastforce
  obtain r' acc' where app: "accum_apply as_usize fadd seats cr ?acts pays acc = (r', acc')" by fastforce
  let ?ar = "ar\<lparr>pa_payoffs := put_row n k pays (pa_payoffs ar)\<rparr>"
  have out: "or_outcome outcome ctx \<lparr>er_id = EncounterId k, er_seats = seats, er_credit = cr\<rparr> ?acts (replicate n zero) = (r, pays)"
    using pays len by (simp add: pairwise_pays_def e)
  have enc: "pairwise_encounter as_usize fadd zero outcome ctx k (ar, acc) =
      (case r of Inl er \<Rightarrow> (Inl er, ar, acc) | Inr _ \<Rightarrow> (r', ?ar, acc'))"
    using rw n small(1) out app by (simp add: pairwise_encounter_def e Let_def split: sum.split)
  have em: "emit held (pairwise_visit as_usize fadd zero outcome ctx) (seats, cr) (k, acc) =
      (case r of Inl er \<Rightarrow> (Inl er, k, acc) | Inr _ \<Rightarrow> (case r' of Inl er \<Rightarrow> (Inl er, k, acc') | Inr _ \<Rightarrow> (Inr (), Suc k, acc')))"
    using rw(4) small(2) pays app by (simp add: emit_def e pairwise_visit_def split: sum.split)
  show ?case
  proof (cases "\<exists>u v. r = Inr u \<and> r' = Inr v")
    case True
    have "holds_arena held n encs ?ar" using Suc.prems(1) by (simp add: holds_arena_def)
    from Suc.hyps(1) [of "Suc k", OF _ this] Suc.hyps(2) k True show ?thesis by (auto simp: upt e enc em)
  next
    case False
    then show ?thesis by (cases r; cases r') (auto simp: upt e enc em)
  qed
qed simp

text \<open>The matchings that declare an implicit pattern.\<close>

definition implicit_matching ::
    "('g \<Rightarrow> nat) \<Rightarrow> 'f \<Rightarrow> (('g, 'a, 'f, 'x, 'n, 'd) match_context, 'r, ('a, 'f) play_arena) matching \<Rightarrow> bool" where
  "implicit_matching n_roles zero M \<longleftrightarrow>
     M = whole_population_matching n_roles zero \<or> M = network_edges_matching n_roles zero \<or>
     (\<exists>self. M = grid_neighborhood_matching n_roles zero self)"

lemma implicit_matching_encounters:
  fixes c :: "('g, 'a, 'f, 'x, 'n, 'd) match_context"
  assumes "implicit_matching n_roles (zero :: 'f) M" "context_ok U D c" "mt_check M c = Inr ()" "mt_implicit M = Some pat"
    and "length (mc_held c) = length (mc_ids c)"
  shows "\<exists>encs. implicit_encounters pat (mc_topology c) (mc_ids c) = Inr encs \<and>
    seats_known (mc_held c) (n_roles (mc_game c)) encs \<and>
    (length encs \<le> u32_max \<longrightarrow> (\<exists>st' rng'. mt_encounters_into M c st rng (arena_new (n_roles (mc_game c))) =
       (Inr (), st', rng', arena_of zero (n_roles (mc_game c)) encs)))"
proof -
  have known: "seats_known (mc_held c) (n_roles (mc_game c)) encs"
    if "\<And>e. e \<in> set encs \<Longrightarrow> length (fst e) = n_roles (mc_game c) \<and> set (fst e) \<subseteq> set (mc_ids c)" for encs
    using that context_ids(4) [OF assms(2)] assms(5) by (fastforce simp: seats_known_def)
  from assms(1) consider "M = whole_population_matching n_roles zero" | "M = network_edges_matching n_roles zero"
    | self where "M = grid_neighborhood_matching n_roles zero self"
    by (auto simp: implicit_matching_def)
  then show ?thesis
  proof cases
    case 1
    note check = assms(3) [unfolded 1]
    have pat: "pat = WholePopulationPattern" using assms(4) 1 by (simp add: whole_population_matching_def)
    have "seats_known (mc_held c) (n_roles (mc_game c)) [(mc_ids c, CreditAll)]"
      by (rule known, rule whole_population.seats [OF assms(2) check])
    then show ?thesis
      using whole_population.generates [OF assms(2) check TrueI]
      by (simp add: pat 1 implicit_encounters_def context_ids(3) [OF assms(2)])
  next
    case 2
    note check = assms(3) [unfolded 2]
    have pat: "pat = NetworkEdgesPattern" using assms(4) 2 by (simp add: network_edges_matching_def)
    obtain nt where nt: "mc_topology c = NetworkTopo nt"
      using check by (auto simp: network_edges_matching_def edges_check_def split: if_splits topology.splits)
    have encs: "implicit_encounters pat (mc_topology c) (mc_ids c) = Inr (edge_encounters (edge_list_of (mc_topology c)))"
      by (simp add: pat nt implicit_encounters_def edge_encounters_def edge_list_of_def)
    show ?thesis
      using network_edges.generates [OF assms(2) check TrueI] known [OF network_edges.seats [OF assms(2) check]]
      by (simp add: encs 2)
  next
    case 3
    note check = assms(3) [unfolded 3]
    have pat: "pat = GridCenter (gn_include_self self)" using assms(4) 3 by (simp add: grid_neighborhood_matching_def)
    obtain gt where gt: "mc_topology c = GridTopo gt"
      using check by (auto simp: grid_neighborhood_matching_def gn_check_def split: if_splits topology.splits)
    have encs: "implicit_encounters pat (mc_topology c) (mc_ids c) =
        Inr (grid_encounters (gn_include_self self) (adjacency_of (mc_topology c)))"
      by (simp add: pat gt implicit_encounters_def grid_encounters_def cell_encounters_def [abs_def] adjacency_of_def)
    show ?thesis
      using grid_neighborhood.generates [OF assms(2) check TrueI] known [OF grid_neighborhood.seats [OF assms(2) check]]
      by (simp add: encs 3)
  qed
qed

text \<open>
  C3: for every matching with an implicit pattern, generating its encounters into an arena, seating
  the held actions and playing the arena with the pairwise kernel gives the same result, error or
  not, and the same totals, play counts and action counts as the implicit play without an arena.
\<close>

theorem implicit_play_is_materialized_play:
  fixes c :: "('g, 'a, 'f, 'x, 'n, 'd) match_context"
  assumes "implicit_matching n_roles (zero :: 'f) M" "context_ok U D c" "mt_check M c = Inr ()" "mt_implicit M = Some pat"
    and "length (mc_held c) = length (mc_ids c)"
    and "implicit_encounters pat (mc_topology c) (mc_ids c) = Inr encs" "length encs \<le> u32_max"
    and "oc_topology ctx = mc_topology c" "oc_held ctx = mc_held c"
  shows "\<exists>st' rng' ar ar'. mt_encounters_into M c st rng (arena_new (n_roles (mc_game c))) = (Inr (), st', rng', ar) \<and>
    play_pairwise as_usize fadd zero ctx outcome
      (ar\<lparr>pa_actions := map (\<lambda>a. get_opt (mc_held c) (agent_no a)) (pa_seats ar)\<rparr>, acc) =
    (fst (play_implicit_pairwise as_usize fadd zero pat ctx (mc_ids c) outcome acc), ar',
     snd (play_implicit_pairwise as_usize fadd zero pat ctx (mc_ids c) outcome acc))"
proof -
  let ?n = "n_roles (mc_game c)"
  let ?ar = "arena_of zero ?n encs :: ('a, 'f) play_arena" and ?held = "mc_held c"
  let ?full = "?ar\<lparr>pa_actions := map (\<lambda>a. get_opt ?held (agent_no a)) (pa_seats ?ar)\<rparr>"
  obtain st' rng' where gen: "mt_encounters_into M c st rng (arena_new ?n) = (Inr (), st', rng', ?ar)"
    and known: "seats_known ?held ?n encs"
    using implicit_matching_encounters [OF assms(1-5)] assms(6,7) by fastforce
  have "holds_arena ?held ?n encs ?full" by (simp add: holds_arena_def arena_of_def)
  from pairwise_agrees [OF known assms(7) this le0, of as_usize fadd zero outcome ctx acc] obtain ar'
    where "for_each (pairwise_encounter as_usize fadd zero outcome ctx) [0..<length encs] (?full, acc) =
      (fst (for_each (emit ?held (pairwise_visit as_usize fadd zero outcome ctx)) encs (0, acc)), ar',
       snd (snd (for_each (emit ?held (pairwise_visit as_usize fadd zero outcome ctx)) encs (0, acc))))" by auto
  moreover have "n_encounters ?full = length encs" by (simp add: n_encounters_def arena_of_def)
  ultimately show ?thesis
    using gen assms(6,8,9)
    by (intro exI [of _ st'] exI [of _ rng'] exI [of _ ?ar] exI [of _ ar'])
      (simp add: play_pairwise_def play_implicit_pairwise_eq for_each_implicit_def case_prod_unfold Let_def)
qed

definition crowd_context :: "(unit, nat, unit, unit, unit) outcome_context" where
  "crowd_context = \<lparr>oc_t = 1, oc_game = (), oc_x = (), oc_held = [0, 0, 0], oc_topology = NoTopology\<rparr>"

theorem implicit_play_is_materialized_play_witness:
  "\<exists>st' rng' ar ar'. mt_encounters_into (whole_population_matching (\<lambda>_. 3) 0)
      (match_context_of PerStep (idle_world 3)) NoMatchingState () (arena_new 3) = (Inr (), st', rng', ar) \<and>
    play_pairwise Some (+) 0 crowd_context (normal_form_outcome (crowd_game 3))
      (ar\<lparr>pa_actions := map (\<lambda>a. get_opt [0, 0, 0] (agent_no a)) (pa_seats ar)\<rparr>, fresh_accum 0 3 None) =
    (Inr (), ar', \<lparr>acc_payoff = [0, 0, 0], acc_n_played = [1, 1, 1], acc_played_counts = None\<rparr>)"
proof -
  let ?c = "match_context_of PerStep (idle_world 3)"
  let ?ids = "[AgentId 0, AgentId 1, AgentId 2]"
  have c: "mc_ids ?c = ?ids" "mc_held ?c = [0, 0, 0]" "mc_topology ?c = NoTopology"
    by (simp_all add: match_context_of_def idle_world_def upt_rec numeral_3_eq_3)
  have check: "mt_check (whole_population_matching (\<lambda>_. 3) 0) ?c = Inr ()"
    by (simp add: whole_population_matching_def whole_check_def c)
  have imp: "implicit_encounters WholePopulationPattern (mc_topology ?c) (mc_ids ?c) = Inr [(?ids, CreditAll)]"
    by (simp add: implicit_encounters_def c)
  have play: "play_implicit_pairwise Some (+) 0 WholePopulationPattern crowd_context ?ids (normal_form_outcome (crowd_game 3))
      (fresh_accum 0 3 None) = (Inr (), \<lparr>acc_payoff = [0, 0, 0], acc_n_played = [1, 1, 1], acc_played_counts = None\<rparr>)"
    by (simp add: play_implicit_pairwise_def for_each_implicit_def implicit_encounters_def emit_def held_actions_def
        get_opt_def pairwise_pays_def normal_form_outcome_def crowd_game_def default_payoffs_into_def accum_apply_def
        count_actions_def credited_roles_def credit_seat_def fresh_accum_def u32_max_def numeral_3_eq_3 Let_def crowd_context_def)
  show ?thesis
    using implicit_play_is_materialized_play [of "\<lambda>_. 3" 0 "whole_population_matching (\<lambda>_. 3) 0"
        no_network no_network ?c WholePopulationPattern "[(?ids, CreditAll)]" crowd_context NoMatchingState "()" Some "(+)"
        "normal_form_outcome (crowd_game 3)" "fresh_accum 0 3 None"] idle_context_ok [of PerStep 3] check imp play
    by (simp add: c implicit_matching_def whole_population_matching_def u32_max_def crowd_context_def)
qed

end
