(* ===== verification/Play.thy ===== *)
theory Play
  imports Kernel_Agreement
begin

section \<open>The play mechanism (crates/socsim-games/src/mechanism/play.rs)\<close>

text \<open>
  The Interaction phase of a game: the encounters are paid by a kernel runner, the pair histories,
  the step history and the aggregate table are written. \<open>float_ops\<close> are the operations of \<open>f64\<close>
  the mechanism uses.
\<close>

record 'f float_ops =
  fl_zero :: 'f
  fl_nan :: 'f
  fl_add :: "'f \<Rightarrow> 'f \<Rightarrow> 'f"
  fl_div :: "'f \<Rightarrow> 'f \<Rightarrow> 'f"
  fl_of_nat :: "nat \<Rightarrow> 'f"
  fl_finite :: "'f \<Rightarrow> bool"

subsection \<open>Runners\<close>

record ('c, 'a, 'f) kernel_runner =
  kr_materialized :: "'c \<Rightarrow> ('a, 'f) play_arena \<times> 'f payoff_accum \<Rightarrow> unit result \<times> ('a, 'f) play_arena \<times> 'f payoff_accum"
  kr_implicit :: "implicit_pattern \<Rightarrow> 'c \<Rightarrow> agent_id list \<Rightarrow> 'f payoff_accum \<Rightarrow> unit result \<times> 'f payoff_accum"
  kr_local_payoff :: "implicit_pattern \<Rightarrow> 'c \<Rightarrow> agent_id list \<Rightarrow> local_encounter_ids \<Rightarrow> nat \<Rightarrow>
     payoff_aggregation \<Rightarrow> ('f \<times> nat) result option"
  kr_whole_population :: "'c \<Rightarrow> agent_id list \<Rightarrow> payoff_aggregation \<Rightarrow> 'f list \<times> nat list \<Rightarrow>
     (unit result \<times> 'f list \<times> nat list) option"

definition run_whole_population ::
    "'f float_ops \<Rightarrow> (implicit_pattern \<Rightarrow> 'c \<Rightarrow> agent_id list \<Rightarrow> 'f payoff_accum \<Rightarrow> unit result \<times> 'f payoff_accum) \<Rightarrow>
     'c \<Rightarrow> agent_id list \<Rightarrow> payoff_aggregation \<Rightarrow> 'f list \<times> nat list \<Rightarrow> unit result \<times> 'f list \<times> nat list" where
  "run_whole_population F implicit ctx ids aggregation buffers =
     (let (payoff, n_played) = buffers
      in case implicit WholePopulationPattern ctx ids
             \<lparr>acc_payoff = map (\<lambda>_. fl_zero F) payoff, acc_n_played = map (\<lambda>_. 0) n_played, acc_played_counts = None\<rparr> of
           (Inl e, acc) \<Rightarrow> (Inl e, acc_payoff acc, acc_n_played acc)
         | (Inr _, acc) \<Rightarrow>
             (Inr (), aggregate_mean (fl_div F) (fl_of_nat F) aggregation (acc_payoff acc) (acc_n_played acc),
              acc_n_played acc))"

definition pairwise_runner ::
    "('a \<Rightarrow> nat option) \<Rightarrow> 'f float_ops \<Rightarrow> (('g, 'a, 'x, 'n, 'd) outcome_context, 'a, 'f) outcome_rule \<Rightarrow>
     (('g, 'a, 'x, 'n, 'd) outcome_context, 'a, 'f) kernel_runner" where
  "pairwise_runner as_usize F outcome =
     (let implicit = (\<lambda>pat ctx ids. play_implicit_pairwise as_usize (fl_add F) (fl_zero F) pat ctx ids outcome)
      in \<lparr>kr_materialized = (\<lambda>ctx. play_pairwise as_usize (fl_add F) (fl_zero F) ctx outcome),
          kr_implicit = implicit,
          kr_local_payoff = (\<lambda>pat ctx ids lids index aggregation.
            Some (local_payoff_pairwise (fl_add F) (fl_zero F) (fl_div F) (fl_of_nat F) pat ctx ids outcome lids index aggregation)),
          kr_whole_population = (\<lambda>ctx ids aggregation buffers.
            Some (run_whole_population F implicit ctx ids aggregation buffers))\<rparr>)"

definition counting_runner ::
    "'f float_ops \<Rightarrow> ('g, 'f, 'z) anonymous_game_scheme \<Rightarrow> (('g, nat, 'x, 'n, 'd) outcome_context, nat, 'f) kernel_runner" where
  "counting_runner F G =
     (let implicit = (\<lambda>pat ctx ids.
            play_implicit_counting (fl_add F) (fl_zero F) pat G (oc_game ctx) (oc_topology ctx) ids (oc_held ctx))
      in \<lparr>kr_materialized = (\<lambda>ctx. play_counting (fl_add F) (fl_zero F) G (oc_game ctx)),
          kr_implicit = implicit,
          kr_local_payoff = (\<lambda>pat ctx ids lids index aggregation.
            Some (local_payoff_counting (fl_add F) (fl_zero F) (fl_div F) (fl_of_nat F) pat G (oc_game ctx)
              (oc_topology ctx) ids (oc_held ctx) lids index aggregation)),
          kr_whole_population = (\<lambda>ctx ids aggregation buffers.
            Some (run_whole_population F implicit ctx ids aggregation buffers))\<rparr>)"

subsection \<open>Aggregates\<close>

datatype aggregate_reduce = ReduceSum | ReduceMean

datatype aggregate_spec_error = EmptyName | InvalidStart | InvalidCharacter nat | TooLong nat

record aggregate_spec =
  as_name :: string
  as_reduce :: aggregate_reduce

text \<open>A name is its UTF-8 bytes.\<close>

definition max_aggregate_name_len :: nat where
  "max_aggregate_name_len = 49"

definition is_ascii_lowercase :: "char \<Rightarrow> bool" where
  "is_ascii_lowercase c \<longleftrightarrow> 97 \<le> (of_char c :: nat) \<and> (of_char c :: nat) \<le> 122"

definition is_ascii_digit :: "char \<Rightarrow> bool" where
  "is_ascii_digit c \<longleftrightarrow> 48 \<le> (of_char c :: nat) \<and> (of_char c :: nat) \<le> 57"

definition validate_name :: "string \<Rightarrow> aggregate_spec_error + unit" where
  "validate_name name =
     (case name of
        [] \<Rightarrow> Inl EmptyName
      | first # _ \<Rightarrow>
          if length name > max_aggregate_name_len then Inl (TooLong (length name))
          else if \<not> (is_ascii_lowercase first \<or> is_ascii_digit first) then Inl InvalidStart
          else (case find (\<lambda>(_, byte). \<not> (is_ascii_lowercase byte \<or> is_ascii_digit byte \<or>
                       byte = CHR ''_'' \<or> byte = CHR ''-'')) (drop 1 (List.enumerate 0 name)) of
                  Some (index, _) \<Rightarrow> Inl (InvalidCharacter index)
                | None \<Rightarrow> Inr ()))"

definition aggregate_spec_new :: "string \<Rightarrow> aggregate_reduce \<Rightarrow> aggregate_spec_error + aggregate_spec" where
  "aggregate_spec_new name reduce =
     try_bind (validate_name name) (\<lambda>_. Inr \<lparr>as_name = name, as_reduce = reduce\<rparr>)"

record ('g, 'a, 'f) aggregate_collector =
  ac_reductions :: "aggregate_reduce list"
  ac_into :: "'g \<Rightarrow> 'a list \<Rightarrow> 'f list \<Rightarrow> 'f list"

definition add_value :: "'f float_ops \<Rightarrow> nat \<Rightarrow> nat \<times> 'f \<Rightarrow> 'f list \<Rightarrow> unit result \<times> 'f list" where
  "add_value F encounter_count entry sums =
     (let (index, value) = entry
      in if \<not> fl_finite F value
         then (Inl (Mechanism (''non-finite aggregate value at index '' @ show_nat index @ '' for encounter '' @
                show_nat encounter_count)), sums)
         else
           let sums' = list_update sums index (fl_add F (sums ! index) value)
           in if \<not> fl_finite F (sums' ! index)
              then (Inl (Mechanism (''non-finite aggregate value after reduction at index '' @ show_nat index)), sums')
              else (Inr (), sums'))"

definition add_profile ::
    "'f float_ops \<Rightarrow> ('g, 'a, 'f) aggregate_collector \<Rightarrow> 'g \<Rightarrow> 'a list \<Rightarrow> 'f list \<times> nat \<Rightarrow> unit result \<times> 'f list \<times> nat" where
  "add_profile F coll game profile st =
     (let (sums, n) = st;
          values = ac_into coll game profile (replicate (length (ac_reductions coll)) (fl_nan F))
      in case for_each (add_value F n) (List.enumerate 0 values) sums of
           (Inl e, sums') \<Rightarrow> (Inl e, sums', n)
         | (Inr _, sums') \<Rightarrow> (Inr (), sums', n + 1))"

definition collector_record ::
    "'f float_ops \<Rightarrow> ('g, 'a, 'f) aggregate_collector \<Rightarrow> implicit_pattern option \<Rightarrow>
     ('g, 'a, 'f, 's, 'x, 'n, 'd) game_world \<Rightarrow> unit result \<times> ('g, 'a, 'f, 's, 'x, 'n, 'd) game_world" where
  "collector_record F coll implicit w =
     (let start = (replicate (length (ac_reductions coll)) (fl_zero F), 0); plays = gw_plays w;
          (r, sums, n) =
            (case implicit of
               Some pat \<Rightarrow> for_each_implicit pat (gw_topology w) (gw_ids w) (gw_held w)
                 (\<lambda>eid seats cr actions. add_profile F coll (gw_game w) actions) start
             | None \<Rightarrow> for_each (\<lambda>i st.
                 case fill_actions (row_of (pa_n_roles plays) i (pa_actions plays)) of
                   Inl e \<Rightarrow> (Inl e, st)
                 | Inr actions \<Rightarrow> add_profile F coll (gw_game w) actions st) [0..<n_encounters plays] start)
      in case r of
           Inl e \<Rightarrow> (Inl e, w)
         | Inr _ \<Rightarrow>
             let values = map (\<lambda>(reduction, total). case reduction of
                   ReduceSum \<Rightarrow> Some total
                 | ReduceMean \<Rightarrow> if n \<noteq> 0 then Some (fl_div F total (fl_of_nat F n)) else None)
                 (zip (ac_reductions coll) sums)
             in case gw_aggregate w of
                  None \<Rightarrow> (Inl (Mechanism ''aggregate table is not initialized''), w)
                | Some tab \<Rightarrow>
                    (Inr (), w\<lparr>gw_aggregate := Some (aggregate_push
                       \<lparr>ar_t = clk_t (gw_clock w), ar_values = values\<rparr> tab)\<rparr>))"

subsection \<open>The step\<close>

definition outcome_context_of ::
    "('g, 'a, 'f, 's, 'x, 'n, 'd) game_world \<Rightarrow> ('g, 'a, 'x, 'n, 'd) outcome_context" where
  "outcome_context_of w =
     \<lparr>oc_t = clk_t (gw_clock w), oc_game = gw_game w, oc_x = gw_x w, oc_held = gw_held w,
      oc_topology = gw_topology w\<rparr>"

text \<open>\<open>PayoffAccum::new(&mut world.payoff, ...)\<close>: the accumulator borrows three fields of the world.\<close>

definition world_accum :: "('g, 'a, 'f, 's, 'x, 'n, 'd) game_world \<Rightarrow> 'f payoff_accum" where
  "world_accum w =
     \<lparr>acc_payoff = gw_payoff w, acc_n_played = gw_n_played w, acc_played_counts = gw_played_counts w\<rparr>"

definition with_accum ::
    "'f payoff_accum \<Rightarrow> ('g, 'a, 'f, 's, 'x, 'n, 'd) game_world \<Rightarrow> ('g, 'a, 'f, 's, 'x, 'n, 'd) game_world" where
  "with_accum acc w =
     w\<lparr>gw_payoff := acc_payoff acc, gw_n_played := acc_n_played acc, gw_played_counts := acc_played_counts acc\<rparr>"

definition world_mean ::
    "'f float_ops \<Rightarrow> payoff_aggregation \<Rightarrow> ('g, 'a, 'f, 's, 'x, 'n, 'd) game_world \<Rightarrow>
     ('g, 'a, 'f, 's, 'x, 'n, 'd) game_world" where
  "world_mean F aggregation w =
     w\<lparr>gw_payoff := aggregate_mean (fl_div F) (fl_of_nat F) aggregation (gw_payoff w) (gw_n_played w)\<rparr>"

text \<open>The first loop over the slot, and the two that fill its actions.\<close>

definition write_records ::
    "('g, 'a, 'f, 's, 'x, 'n, 'd) game_world \<Rightarrow> ('a, 'f) step_history \<Rightarrow> ('a, 'f) step_history" where
  "write_records w h =
     fold (\<lambda>(i, agent). slot_write i
        \<lparr>sr_action = None, sr_payoff = gw_payoff w ! agent_no agent, sr_n_played = gw_n_played w ! agent_no agent\<rparr>)
       (List.enumerate 0 (gw_ids w)) h"

definition fill_held :: "nat list \<Rightarrow> agent_id \<times> 'a \<Rightarrow> ('a, 'f) step_history \<Rightarrow> ('a, 'f) step_history" where
  "fill_held n_played entry h =
     (let (agent, action) = entry
      in if n_played ! agent_no agent > 0
         then slot_write (agent_no agent) ((slot_get (agent_no agent) h)\<lparr>sr_action := Some action\<rparr>) h
         else h)"

definition fill_seat :: "agent_id \<times> 'a option \<Rightarrow> ('a, 'f) step_history \<Rightarrow> ('a, 'f) step_history" where
  "fill_seat entry h =
     (let (agent, action) = entry; record = slot_get (agent_no agent) h
      in if sr_action record = None
         then slot_write (agent_no agent) (record\<lparr>sr_action := action\<rparr>) h
         else h)"

record ('g, 'a, 'f, 'x, 'n, 'd) play_mechanism =
  pm_runner :: "(('g, 'a, 'x, 'n, 'd) outcome_context, 'a, 'f) kernel_runner"
  pm_aggregation :: payoff_aggregation
  pm_decision_scope :: decision_scope
  pm_implicit :: "implicit_pattern option"
  pm_aggregate :: "('g, 'a, 'f) aggregate_collector option"

definition record_aggregate ::
    "'f float_ops \<Rightarrow> ('g, 'a, 'f) aggregate_collector option \<Rightarrow> implicit_pattern option \<Rightarrow>
     ('g, 'a, 'f, 's, 'x, 'n, 'd) game_world \<Rightarrow> unit result \<times> ('g, 'a, 'f, 's, 'x, 'n, 'd) game_world" where
  "record_aggregate F aggregate pat w =
     (case aggregate of Some coll \<Rightarrow> collector_record F coll pat w | None \<Rightarrow> (Inr (), w))"

definition record_implicit_step ::
    "('g \<Rightarrow> nat) \<Rightarrow> 'f float_ops \<Rightarrow> (('g, 'a, 'x, 'n, 'd) outcome_context, 'a, 'f) kernel_runner \<Rightarrow>
     implicit_pattern \<Rightarrow> payoff_aggregation \<Rightarrow> ('g, 'a, 'f) aggregate_collector option \<Rightarrow>
     ('g, 'a, 'f, 's, 'x, 'n, 'd) game_world \<Rightarrow> unit result \<times> ('g, 'a, 'f, 's, 'x, 'n, 'd) game_world" where
  "record_implicit_step n_roles F runner pat aggregation aggregate w =
     (let w1 = w\<lparr>gw_played_counts := Some (played_new (n_roles (gw_game w)) (Some pat))\<rparr>;
          (r, acc) = kr_implicit runner pat (outcome_context_of w1) (gw_ids w1) (world_accum w1)
      in case r of
           Inl e \<Rightarrow> (Inl e, with_accum acc w1)
         | Inr _ \<Rightarrow>
             let w2 = world_mean F aggregation (with_accum acc w1);
                 h = fold (fill_held (gw_n_played w2)) (zip (gw_ids w2) (gw_held w2))
                       (write_records w2 (gw_step_history w2))
             in record_aggregate F aggregate (Some pat) (w2\<lparr>gw_step_history := slot_commit h\<rparr>))"

definition record_pair ::
    "u64 \<Rightarrow> ('a, 'f) play_arena \<Rightarrow> nat \<Rightarrow> 'a pair_history \<Rightarrow> unit result \<times> 'a pair_history" where
  "record_pair t plays i ph =
     (let start = i * pa_n_roles plays; seats = row_of (pa_n_roles plays) i (pa_seats plays)
      in if length seats \<noteq> 2 then (Inr (), ph)
         else (case (pa_actions plays ! start, pa_actions plays ! (start + 1)) of
             (Some first, Some second) \<Rightarrow> (Inr (), pair_push t (seats ! 0) (seats ! 1) first second ph)
           | _ \<Rightarrow> (Inl (Mechanism ''unfilled action seat''), ph)))"

definition record_pairs ::
    "('g, 'a, 'f, 's, 'x, 'n, 'd) game_world \<Rightarrow> unit result \<times> ('g, 'a, 'f, 's, 'x, 'n, 'd) game_world" where
  "record_pairs w =
     (case gw_pair_history w of
        None \<Rightarrow> (Inr (), w)
      | Some ph \<Rightarrow>
          (let (r, ph') = for_each (record_pair (clk_t (gw_clock w)) (gw_plays w)) [0..<n_encounters (gw_plays w)] ph
           in (r, w\<lparr>gw_pair_history := Some ph'\<rparr>)))"

definition play_apply ::
    "('g \<Rightarrow> nat) \<Rightarrow> 'f float_ops \<Rightarrow> ('g, 'a, 'f, 'x, 'n, 'd) play_mechanism \<Rightarrow>
     ('g, 'a, 'f, 's, 'x, 'n, 'd) game_world \<Rightarrow> unit result \<times> ('g, 'a, 'f, 's, 'x, 'n, 'd) game_world" where
  "play_apply n_roles F self w =
     (case pm_implicit self of
        Some pat \<Rightarrow>
          record_implicit_step n_roles F (pm_runner self) pat (pm_aggregation self) (pm_aggregate self) w
      | None \<Rightarrow>
          (let (r, plays, acc) = kr_materialized (pm_runner self) (outcome_context_of w) (gw_plays w, world_accum w);
               w1 = with_accum acc (w\<lparr>gw_plays := plays\<rparr>)
           in case r of
                Inl e \<Rightarrow> (Inl e, w1)
              | Inr _ \<Rightarrow>
                  (case record_pairs w1 of
                     (Inl e, w2) \<Rightarrow> (Inl e, w2)
                   | (Inr _, w2) \<Rightarrow>
                       let w3 = world_mean F (pm_aggregation self) w2;
                           h1 = write_records w3 (gw_step_history w3);
                           h2 = (if pm_decision_scope self = PerStep
                                 then fold fill_seat (zip (pa_seats (gw_plays w3)) (pa_actions (gw_plays w3))) h1
                                 else h1)
                       in record_aggregate F (pm_aggregate self) None (w3\<lparr>gw_step_history := slot_commit h2\<rparr>))))"

text \<open>The mechanism as the engine calls it: the phase is ignored and the rest of the context kept.\<close>

definition game_play ::
    "('g \<Rightarrow> nat) \<Rightarrow> 'f float_ops \<Rightarrow> ('g, 'a, 'f, 'x, 'n, 'd) play_mechanism \<Rightarrow>
     (('g, 'a, 'f, 'x, 'n, 'd) play_mechanism, ('g, 'a, 'f, 's, 'x, 'n, 'd) game_world, 'r, 'c, 'ty, 'v) mechanism" where
  "game_play n_roles F self =
     \<lparr>mech_name = ''game_play'', mech_phases = [Interaction], mech_self = self,
      mech_apply = (\<lambda>self ph ctx.
        let (r, w) = play_apply n_roles F self (ctx_world ctx) in (r, self, ctx\<lparr>ctx_world := w\<rparr>))\<rparr>"

subsection \<open>What every runner keeps\<close>

text \<open>A runner pays into the accumulator it is given and never changes its size, nor the seating.\<close>

definition accum_sizes :: "'f payoff_accum \<Rightarrow> nat \<times> nat" where
  "accum_sizes acc = (length (acc_payoff acc), length (acc_n_played acc))"

definition seating_of :: "('a, 'f) play_arena \<Rightarrow> nat \<times> agent_id list \<times> credit list \<times> 'a option list" where
  "seating_of ar = (pa_n_roles ar, pa_seats ar, pa_credit ar, pa_actions ar)"

locale payoff_runner =
  fixes runner :: "(('g, 'a, 'x, 'n, 'd) outcome_context, 'a, 'f) kernel_runner"
  assumes materialized_keeps:
      "seating_of (fst (snd (kr_materialized runner ctx (ar, acc)))) = seating_of ar \<and>
       accum_sizes (snd (snd (kr_materialized runner ctx (ar, acc)))) = accum_sizes acc"
    and implicit_keeps: "accum_sizes (snd (kr_implicit runner pat ctx ids acc)) = accum_sizes acc"

lemma accum_apply_sizes [simp]:
  "accum_sizes (snd (accum_apply as_usize fadd seats cr actions payoffs acc)) = accum_sizes acc"
proof -
  have "accum_sizes (snd (for_each (credit_seat fadd) xs acc')) = accum_sizes acc'" for xs acc'
    by (rule for_each_invariant) (auto simp: accum_sizes_def credit_seat_def Let_def)
  moreover have "accum_sizes (snd (count_actions as_usize actions acc)) = accum_sizes acc"
    by (simp add: count_actions_def accum_sizes_def split: option.split prod.split)
  ultimately show ?thesis by (simp add: accum_apply_def split: prod.split sum.split) (metis snd_conv)
qed

lemma for_each_implicit_invariant:
  assumes "I s" and "\<And>eid seats cr actions s. I s \<Longrightarrow> I (snd (visit eid seats cr actions s))"
  shows "I (snd (for_each_implicit pat topo ids held visit s))"
proof -
  have "I (snd (snd (for_each (emit held visit) encs (0, s))))" for encs
  proof (rule for_each_invariant [where I = "\<lambda>st. I (snd st)"])
    fix enc and st :: "nat \<times> 'a"
    assume "I (snd st)"
    then show "I (snd (snd (emit held visit enc st)))"
      using assms(2) [of "snd st" "fst st" "fst enc" "snd enc"]
      by (auto simp: emit_def case_prod_unfold split: sum.split)
  qed (simp add: assms(1))
  with assms(1) show ?thesis
    by (simp add: for_each_implicit_def case_prod_unfold Let_def split: sum.split)
qed

lemma play_pairwise_keeps:
  "seating_of (fst (snd (play_pairwise as_usize fadd zero ctx outcome (ar, acc)))) = seating_of ar \<and>
   accum_sizes (snd (snd (play_pairwise as_usize fadd zero ctx outcome (ar, acc)))) = accum_sizes acc"
  (is "?keeps (snd (play_pairwise as_usize fadd zero ctx outcome (ar, acc)))")
  unfolding play_pairwise_def
proof (rule for_each_invariant)
  fix i st assume "?keeps st"
  then show "?keeps (snd (pairwise_encounter as_usize fadd zero outcome ctx i st))"
    by (auto simp: pairwise_encounter_def seating_of_def case_prod_unfold Let_def split: sum.split)
qed simp

lemma play_counting_keeps:
  "seating_of (fst (snd (play_counting fadd zero G game (ar, acc)))) = seating_of ar \<and>
   accum_sizes (snd (snd (play_counting fadd zero G game (ar, acc)))) = accum_sizes acc" for zero :: 'f
proof -
  let ?keeps = "\<lambda>st :: 'f counting_scratch \<times> (nat, 'f) play_arena \<times> 'f payoff_accum. seating_of (fst (snd st)) = seating_of ar \<and> accum_sizes (snd (snd st)) = accum_sizes acc"
  have "?keeps (snd (for_each (counting_encounter fadd zero G game) is (scratch, ar, acc)))" for "is" scratch
  proof (rule for_each_invariant)
    fix i st assume "?keeps st"
    then show "?keeps (snd (counting_encounter fadd zero G game i st))"
      by (auto simp: counting_encounter_def seating_of_def case_prod_unfold Let_def split: sum.split)
  qed simp
  then show ?thesis by (simp add: play_counting_def case_prod_unfold Let_def)
qed

lemma play_implicit_keeps:
  "accum_sizes (snd (play_implicit_pairwise as_usize fadd zero pat ctx ids outcome acc)) = accum_sizes acc"
  "accum_sizes (snd (play_implicit_counting fadd zero pat G game topo ids held acc)) = accum_sizes acc"
proof -
  show "accum_sizes (snd (play_implicit_pairwise as_usize fadd zero pat ctx ids outcome acc)) = accum_sizes acc"
    unfolding play_implicit_pairwise_def
    by (rule for_each_implicit_invariant) (simp_all split: sum.split prod.split)
  have "accum_sizes (snd (snd (for_each_implicit pat topo ids held
      (\<lambda>eid seats cr actions (scratch, acc). case scratch_compute G zero game actions scratch of
         (Inl e, scratch') \<Rightarrow> (Inl e, scratch', acc)
       | (Inr _, scratch') \<Rightarrow>
           let (r, acc') = accum_apply Some fadd seats cr actions (cs_payoffs scratch') acc in (r, scratch', acc'))
      (scratch, acc)))) = accum_sizes acc" for scratch
    by (rule for_each_implicit_invariant) (auto split: sum.split prod.split simp: case_prod_unfold Let_def)
  then show "accum_sizes (snd (play_implicit_counting fadd zero pat G game topo ids held acc)) = accum_sizes acc"
    by (simp add: play_implicit_counting_def case_prod_unfold Let_def)
qed

interpretation pairwise_paying: payoff_runner "pairwise_runner as_usize F outcome" for as_usize F outcome
  by unfold_locales (simp_all add: pairwise_runner_def Let_def play_pairwise_keeps play_implicit_keeps)

interpretation counting_paying: payoff_runner "counting_runner F G" for F G
  by unfold_locales (simp_all add: counting_runner_def Let_def play_counting_keeps play_implicit_keeps)

subsection \<open>What a step records\<close>

text \<open>
  A world before the play: dense ids, buffers of one entry per agent, a sound step history, and
  seats of known agents (what the match mechanism leaves).
\<close>

definition play_ready :: "('g, 'a, 'f, 's, 'x, 'n, 'd) game_world \<Rightarrow> bool" where
  "play_ready w \<longleftrightarrow>
     gw_ids w = map AgentId [0..<length (gw_ids w)] \<and> length (gw_held w) = length (gw_ids w) \<and>
     length (gw_payoff w) = length (gw_ids w) \<and> length (gw_n_played w) = length (gw_ids w) \<and>
     step_history_ok (gw_step_history w) \<and> sh_n_agents (gw_step_history w) = length (gw_ids w) \<and>
     set (pa_seats (gw_plays w)) \<subseteq> set (gw_ids w)"

text \<open>The first filled seat of an agent.\<close>

definition seat_action :: "('a, 'f) play_arena \<Rightarrow> agent_id \<Rightarrow> 'a option" where
  "seat_action ar agent =
     (case find (\<lambda>(a, x). a = agent \<and> x \<noteq> None) (zip (pa_seats ar) (pa_actions ar)) of
        Some (_, x) \<Rightarrow> x | None \<Rightarrow> None)"

lemma slot_holds_fold:
  assumes "slot_holds h0 f h"
    and "\<And>x f h. x \<in> set xs \<Longrightarrow> slot_holds h0 f h \<Longrightarrow> slot_holds h0 (F x f) (G x h)"
  shows "slot_holds h0 (fold F xs f) (fold G xs h)"
  using assms by (induction xs arbitrary: f h) simp_all

lemma write_records_holds:
  assumes "step_history_ok h" "gw_ids w = map AgentId [0..<sh_n_agents h]"
  shows "slot_holds h (\<lambda>i. \<lparr>sr_action = None, sr_payoff = gw_payoff w ! i, sr_n_played = gw_n_played w ! i\<rparr>)
    (write_records w h)"
proof -
  let ?rec = "\<lambda>i. \<lparr>sr_action = None, sr_payoff = gw_payoff w ! i, sr_n_played = gw_n_played w ! i\<rparr>"
  let ?recs = "map (\<lambda>a. ?rec (agent_no a)) (gw_ids w)"
  have "write_records w h = write_all ?recs h"
    by (simp add: write_records_def enumerate_eq_zip zip_map2 fold_map comp_def case_prod_unfold)
  moreover have "sh_head h < sh_history_len h" using assms(1) by (simp add: step_history_ok_def ring_ok_def)
  ultimately show ?thesis
    using history_row_write_all [of h _ ?recs] write_all_frame [of ?recs h] assms(2)
    by (simp add: slot_holds_def)
qed

lemma fold_fun_upd:
  "distinct (map fst xs) \<Longrightarrow>
   fold (\<lambda>(i, x) f. if P i x then f(i := g x (f i)) else f) xs f j =
     (case map_of xs j of Some x \<Rightarrow> if P j x then g x (f j) else f j | None \<Rightarrow> f j)"
proof (induction xs arbitrary: f)
  case (Cons e xs)
  obtain i x where e: "e = (i, x)" by (cases e)
  have "map_of xs i = None" using Cons.prems e by (simp add: map_of_eq_None_iff)
  then show ?case using Cons by (cases "i = j") (simp_all add: e split: option.split)
qed simp

lemma fill_held_holds:
  fixes held :: "'a list"
  assumes "step_history_ok h0" "slot_holds h0 f h" "length held = sh_n_agents h0"
  shows "\<exists>f'. slot_holds h0 f' (fold (fill_held n_played) (zip (map AgentId [0..<sh_n_agents h0]) held) h) \<and>
    (\<forall>i < sh_n_agents h0. f' i = (if n_played ! i > 0 then (f i)\<lparr>sr_action := Some (held ! i)\<rparr> else f i))"
proof -
  let ?n = "sh_n_agents h0"
  let ?F = "\<lambda>(i, a) f. if n_played ! i > 0 then f(i := (f i)\<lparr>sr_action := Some a\<rparr>) else f"
  have eq: "fold (fill_held n_played) (zip (map AgentId [0..<?n]) held) h =
      fold (\<lambda>(i, a). fill_held n_played (AgentId i, a)) (zip [0..<?n] held) h"
    by (simp add: zip_map1 fold_map comp_def case_prod_unfold)
  have "slot_holds h0 (fold ?F (zip [0..<?n] held) f)
      (fold (\<lambda>(i, a). fill_held n_played (AgentId i, a)) (zip [0..<?n] held) h)"
  proof (rule slot_holds_fold [OF assms(2)])
    fix e f and h :: "('a, 'b) step_history"
    assume "e \<in> set (zip [0..<?n] held)" and holds: "slot_holds h0 f h"
    then obtain i a where e: "e = (i, a)" and i: "i < ?n" by (auto simp: set_zip)
    show "slot_holds h0 (?F e f) ((case e of (i, a) \<Rightarrow> fill_held n_played (AgentId i, a)) h)"
      using holds slot_holds_write [OF assms(1) holds i] slot_holds_get [OF assms(1) holds i]
      by (auto simp: e fill_held_def)
  qed
  moreover have "fold ?F (zip [0..<?n] held) f i = (if n_played ! i > 0 then (f i)\<lparr>sr_action := Some (held ! i)\<rparr> else f i)"
    if i: "i < ?n" for i
  proof -
    have "(i, held ! i) \<in> set (zip [0..<?n] held)"
      using i assms(3) by (force simp: set_zip)
    then have "map_of (zip [0..<?n] held) i = Some (held ! i)"
      using assms(3) by (intro map_of_is_SomeI) simp_all
    then show ?thesis using assms(3) by (subst fold_fun_upd) simp_all
  qed
  ultimately show ?thesis unfolding eq by blast
qed

lemma fill_seat_holds:
  fixes entries :: "(agent_id \<times> 'a option) list"
  assumes "step_history_ok h0" "slot_holds h0 f h" "\<And>i. sr_action (f i) = None"
    and "\<forall>(a, x) \<in> set entries. agent_no a < sh_n_agents h0"
  shows "\<exists>f'. slot_holds h0 f' (fold fill_seat entries h) \<and>
    (\<forall>i. f' i = (f i)\<lparr>sr_action := (case find (\<lambda>(a, x). a = AgentId i \<and> x \<noteq> None) entries of
        Some (_, x) \<Rightarrow> x | None \<Rightarrow> None)\<rparr>)"
proof -
  let ?F = "\<lambda>(a, x) f. if sr_action (f (agent_no a)) = None
    then f(agent_no a := (f (agent_no a))\<lparr>sr_action := x\<rparr>) else f"
  have "slot_holds h0 (fold ?F entries f) (fold fill_seat entries h)"
  proof (rule slot_holds_fold [OF assms(2)])
    fix e f and h :: "('a, 'b) step_history"
    assume "e \<in> set entries" and holds: "slot_holds h0 f h"
    then obtain i x where e: "e = (AgentId i, x)" and i: "i < sh_n_agents h0"
      using assms(4) by (cases e; cases "fst e") auto
    show "slot_holds h0 (?F e f) (fill_seat e h)"
      using holds slot_holds_write [OF assms(1) holds i] slot_holds_get [OF assms(1) holds i]
      by (auto simp: e fill_seat_def Let_def)
  qed
  moreover have "fold ?F entries f i = (if sr_action (f i) = None then (f i)\<lparr>sr_action :=
      (case find (\<lambda>(a, x). a = AgentId i \<and> x \<noteq> None) entries of Some (_, x) \<Rightarrow> x | None \<Rightarrow> None)\<rparr> else f i)" for i
  proof (induction entries arbitrary: f)
    case (Cons e entries)
    obtain j x where "e = (AgentId j, x)" by (cases e; cases "fst e") auto
    then show ?case using Cons.IH by auto
  qed simp
  ultimately show ?thesis using assms(3) by auto
qed

lemma record_aggregate_frame:
  "record_aggregate F aggregate pat w = (r, w') \<Longrightarrow> \<exists>tab. w' = w\<lparr>gw_aggregate := tab\<rparr>"
proof -
  have same: "\<exists>tab. w = w\<lparr>gw_aggregate := tab\<rparr>" by (rule exI [of _ "gw_aggregate w"]) simp
  assume "record_aggregate F aggregate pat w = (r, w')"
  then show ?thesis
    using same by (auto simp: record_aggregate_def collector_record_def case_prod_unfold Let_def
      split: option.splits sum.splits)
qed

lemma record_pairs_frame:
  "record_pairs w = (r, w') \<Longrightarrow> \<exists>ph. w' = w\<lparr>gw_pair_history := ph\<rparr>"
proof -
  have same: "\<exists>ph. w = w\<lparr>gw_pair_history := ph\<rparr>" by (rule exI [of _ "gw_pair_history w"]) simp
  assume "record_pairs w = (r, w')"
  then show ?thesis
    using same by (auto simp: record_pairs_def case_prod_unfold Let_def split: option.splits)
qed

lemma length_aggregate_mean [simp]:
  "length n_played = length payoff \<Longrightarrow> length (aggregate_mean fdiv of_u32 aggregation payoff n_played) = length payoff"
  by (simp add: aggregate_mean_def)

text \<open>The view of an agent after the slot is committed.\<close>

lemma view_after_commit:
  assumes "step_history_ok h0" "slot_holds h0 f h" "i < sh_n_agents h0"
  shows "\<exists>old. map_option hv_iter (history_view (AgentId i) h0) = Some old \<and>
    map_option hv_iter (history_view (AgentId i) (slot_commit h)) = Some (lastn (sh_history_len h0) (old @ [f i]))"
proof -
  have "sh_n_agents (slot_commit h) = sh_n_agents h0"
    using assms(2) by (simp add: slot_holds_def slot_commit_def)
  then show ?thesis
    using history_view_contents [of "AgentId i" h0] history_view_contents [of "AgentId i" "slot_commit h"]
      slot_holds_commit [OF assms] assms(3) by auto
qed

context payoff_runner
begin

lemma materialized_step:
  fixes w w' :: "('g, 'a, 'f, 's, 'x, 'n, 'd) game_world"
  assumes ready: "play_ready w" and "pm_runner self = runner" "pm_implicit self = None"
    and run: "play_apply n_roles F self w = (Inr (), w')" and i: "i < length (gw_ids w)"
  shows "\<exists>old. map_option hv_iter (world_history w (AgentId i)) = Some old \<and>
    map_option hv_iter (world_history w' (AgentId i)) = Some (lastn (sh_history_len (gw_step_history w)) (old @
      [\<lparr>sr_action = (if pm_decision_scope self = PerStep then seat_action (gw_plays w') (AgentId i) else None),
        sr_payoff = gw_payoff w' ! i, sr_n_played = gw_n_played w' ! i\<rparr>])) \<and>
    i < length (gw_payoff w') \<and> i < length (gw_n_played w')"
proof -
  let ?h0 = "gw_step_history w"
  obtain r plays acc where mat: "kr_materialized runner (outcome_context_of w) (gw_plays w, world_accum w) = (r, plays, acc)"
    by (metis prod_cases3)
  have keeps: "seating_of plays = seating_of (gw_plays w)" "accum_sizes acc = accum_sizes (world_accum w)"
    using materialized_keeps [of "outcome_context_of w" "gw_plays w" "world_accum w"] mat by simp_all
  let ?w1 = "with_accum acc (w\<lparr>gw_plays := plays\<rparr>)"
  have "r = Inr ()" using run assms(2,3) mat by (cases r) (simp_all add: play_apply_def Let_def)
  obtain r2 w2 where "record_pairs ?w1 = (r2, w2)" by (metis surj_pair)
  moreover from this have "r2 = Inr ()"
    using run assms(2,3) mat \<open>r = Inr ()\<close> by (cases r2) (simp_all add: play_apply_def Let_def)
  ultimately have pairs: "record_pairs ?w1 = (Inr (), w2)" by simp
  obtain ph where w2: "w2 = ?w1\<lparr>gw_pair_history := ph\<rparr>" using record_pairs_frame [OF pairs] by blast
  let ?w3 = "world_mean F (pm_aggregation self) w2"
  let ?h1 = "write_records ?w3 ?h0"
  let ?h2 = "if pm_decision_scope self = PerStep
    then fold fill_seat (zip (pa_seats plays) (pa_actions plays)) ?h1 else ?h1"
  have w3: "gw_step_history ?w3 = ?h0" "gw_plays ?w3 = plays"
    by (simp_all add: w2 world_mean_def with_accum_def)
  have "record_aggregate F (pm_aggregate self) None (?w3\<lparr>gw_step_history := slot_commit ?h2\<rparr>) = (Inr (), w')"
    using run assms(2,3) mat pairs \<open>r = Inr ()\<close> by (simp add: play_apply_def Let_def w3 cong: if_cong split del: if_split)
  then obtain tab where w': "w' = ?w3\<lparr>gw_step_history := slot_commit ?h2, gw_aggregate := tab\<rparr>"
    using record_aggregate_frame by fastforce
  have ok: "step_history_ok ?h0" and n: "sh_n_agents ?h0 = length (gw_ids w)"
    using ready by (simp_all add: play_ready_def)
  let ?f = "\<lambda>i. \<lparr>sr_action = None, sr_payoff = gw_payoff w' ! i, sr_n_played = gw_n_played w' ! i\<rparr>"
  have "gw_ids ?w3 = map AgentId [0..<sh_n_agents ?h0]"
    using ready by (simp add: play_ready_def w2 world_mean_def with_accum_def)
  from write_records_holds [OF ok this] have written: "slot_holds ?h0 ?f ?h1"
    by (simp add: w' world_mean_def)
  have seats: "\<forall>(a, x) \<in> set (zip (pa_seats plays) (pa_actions plays)). agent_no a < sh_n_agents ?h0"
  proof -
    have "set (pa_seats plays) \<subseteq> set (map AgentId [0..<length (gw_ids w)])"
      using ready keeps(1) unfolding play_ready_def seating_of_def by auto
    then show ?thesis unfolding n by (fastforce dest: set_zip_leftD)
  qed
  have plays': "gw_plays w' = plays" by (simp add: w' w2 world_mean_def with_accum_def)
  obtain f' where "slot_holds ?h0 f' ?h2"
    and f': "f' i = (?f i)\<lparr>sr_action := (if pm_decision_scope self = PerStep then seat_action plays (AgentId i) else None)\<rparr>"
  proof (cases "pm_decision_scope self = PerStep")
    case True
    from fill_seat_holds [OF ok written _ seats] obtain g
      where "slot_holds ?h0 g ?h2" "g i = (?f i)\<lparr>sr_action := seat_action plays (AgentId i)\<rparr>"
      using True by (auto simp: seat_action_def)
    then show ?thesis using that True by simp
  qed (use that written in simp)
  have frame: "gw_step_history w' = slot_commit ?h2" by (simp add: w')
  have sizes: "length (gw_payoff w') = length (gw_ids w)" "length (gw_n_played w') = length (gw_ids w)"
    using keeps(2) ready
    by (simp_all add: w' w2 world_mean_def with_accum_def accum_sizes_def world_accum_def play_ready_def)
  have "f' i = \<lparr>sr_action = (if pm_decision_scope self = PerStep then seat_action (gw_plays w') (AgentId i) else None),
      sr_payoff = gw_payoff w' ! i, sr_n_played = gw_n_played w' ! i\<rparr>"
    unfolding f' plays' by simp
  with view_after_commit [OF ok \<open>slot_holds ?h0 f' ?h2\<close>, of i] i show ?thesis
    unfolding world_history_def frame sizes n by simp
qed

lemma implicit_step:
  fixes w w' :: "('g, 'a, 'f, 's, 'x, 'n, 'd) game_world"
  assumes ready: "play_ready w" and "pm_runner self = runner" "pm_implicit self = Some pat"
    and run: "play_apply n_roles F self w = (Inr (), w')" and i: "i < length (gw_ids w)"
  shows "\<exists>old. map_option hv_iter (world_history w (AgentId i)) = Some old \<and>
    map_option hv_iter (world_history w' (AgentId i)) = Some (lastn (sh_history_len (gw_step_history w)) (old @
      [\<lparr>sr_action = (if gw_n_played w' ! i > 0 then Some (gw_held w ! i) else None),
        sr_payoff = gw_payoff w' ! i, sr_n_played = gw_n_played w' ! i\<rparr>])) \<and>
    i < length (gw_payoff w') \<and> i < length (gw_n_played w')"
proof -
  let ?h0 = "gw_step_history w"
  let ?w1 = "w\<lparr>gw_played_counts := Some (played_new (n_roles (gw_game w)) (Some pat))\<rparr>"
  obtain r acc where imp: "kr_implicit runner pat (outcome_context_of ?w1) (gw_ids w) (world_accum ?w1) = (r, acc)"
    by (metis surj_pair)
  have keeps: "accum_sizes acc = accum_sizes (world_accum ?w1)"
    using implicit_keeps [of pat "outcome_context_of ?w1" "gw_ids w" "world_accum ?w1"] imp by simp
  have r: "r = Inr ()"
    using run assms(2,3) imp by (cases r) (simp_all add: play_apply_def record_implicit_step_def Let_def)
  let ?w2 = "world_mean F (pm_aggregation self) (with_accum acc ?w1)"
  let ?h1 = "write_records ?w2 ?h0"
  let ?h2 = "fold (fill_held (gw_n_played ?w2)) (zip (gw_ids w) (gw_held w)) ?h1"
  have "record_aggregate F (pm_aggregate self) (Some pat) (?w2\<lparr>gw_step_history := slot_commit ?h2\<rparr>) = (Inr (), w')"
    using run assms(2,3) imp r by (simp add: play_apply_def record_implicit_step_def Let_def world_mean_def with_accum_def)
  then obtain tab where w': "w' = ?w2\<lparr>gw_step_history := slot_commit ?h2, gw_aggregate := tab\<rparr>"
    using record_aggregate_frame by fastforce
  have ok: "step_history_ok ?h0" and n: "sh_n_agents ?h0 = length (gw_ids w)" and held: "length (gw_held w) = sh_n_agents ?h0"
    and ids: "gw_ids w = map AgentId [0..<sh_n_agents ?h0]"
    using ready by (simp_all add: play_ready_def)
  let ?f = "\<lambda>i. \<lparr>sr_action = None, sr_payoff = gw_payoff w' ! i, sr_n_played = gw_n_played w' ! i\<rparr>"
  have "gw_ids ?w2 = map AgentId [0..<sh_n_agents ?h0]" using ids by (simp add: world_mean_def with_accum_def)
  from write_records_holds [OF ok this] have written: "slot_holds ?h0 ?f ?h1" by (simp add: w')
  from fill_held_holds [OF ok written held, of "gw_n_played w'"] obtain f' where "slot_holds ?h0 f' ?h2"
    and f': "f' i = (if gw_n_played w' ! i > 0 then (?f i)\<lparr>sr_action := Some (gw_held w ! i)\<rparr> else ?f i)"
    using i n unfolding ids [symmetric] by (auto simp: w')
  have frame: "gw_step_history w' = slot_commit ?h2" by (simp add: w')
  have sizes: "length (gw_payoff w') = length (gw_ids w)" "length (gw_n_played w') = length (gw_ids w)"
    using keeps ready by (simp_all add: w' world_mean_def with_accum_def accum_sizes_def world_accum_def play_ready_def)
  have "f' i = \<lparr>sr_action = (if gw_n_played w' ! i > 0 then Some (gw_held w ! i) else None),
      sr_payoff = gw_payoff w' ! i, sr_n_played = gw_n_played w' ! i\<rparr>"
    unfolding f' by simp
  with view_after_commit [OF ok \<open>slot_holds ?h0 f' ?h2\<close>, of i] i show ?thesis
    unfolding world_history_def frame sizes n by simp
qed

end

text \<open>
  C4: after a successful play step with the pairwise runner, every agent's history view is its old
  one with one record appended (and the oldest dropped when it is full): the payoff and play count
  left in the world, with the action the agent played - the held one when it was credited at least
  once in an implicit play, its first filled seat when decisions are per step, none otherwise.
\<close>

theorem play_step_recorded:
  fixes w w' :: "('g, 'a, 'f, 's, 'x, 'n, 'd) game_world"
  assumes "play_ready w" "pm_runner self = pairwise_runner as_usize F outcome"
    and "play_apply n_roles F self w = (Inr (), w')" "i < length (gw_ids w)"
  shows "\<exists>old. map_option hv_iter (world_history w (AgentId i)) = Some old \<and>
    map_option hv_iter (world_history w' (AgentId i)) = Some (lastn (sh_history_len (gw_step_history w)) (old @
      [\<lparr>sr_action = (case pm_implicit self of
           Some _ \<Rightarrow> if gw_n_played w' ! i > 0 then Some (gw_held w ! i) else None
         | None \<Rightarrow> if pm_decision_scope self = PerStep then seat_action (gw_plays w') (AgentId i) else None),
        sr_payoff = gw_payoff w' ! i, sr_n_played = gw_n_played w' ! i\<rparr>])) \<and>
    i < length (gw_payoff w') \<and> i < length (gw_n_played w')"
proof (cases "pm_implicit self")
  case None
  with pairwise_paying.materialized_step [OF assms(1,2) None assms(3,4)] show ?thesis by simp
next
  case (Some pat)
  with pairwise_paying.implicit_step [OF assms(1,2) Some assms(3,4)] show ?thesis by simp
qed

definition nat_floats :: "nat float_ops" where
  "nat_floats = \<lparr>fl_zero = 0, fl_nan = 0, fl_add = (+), fl_div = (div), fl_of_nat = id, fl_finite = (\<lambda>_. True)\<rparr>"

definition pay_action_rule :: "((unit, nat, unit, unit, unit) outcome_context, nat, nat) outcome_rule" where
  "pay_action_rule = \<lparr>or_name = ''pay_action'', or_outcome = (\<lambda>_ _ actions _. (Inr (), actions))\<rparr>"

definition pair_play :: "(unit, nat, nat, unit, unit, unit) play_mechanism" where
  "pair_play = \<lparr>pm_runner = pairwise_runner Some nat_floats pay_action_rule, pm_aggregation = AggSum,
     pm_decision_scope = PerStep, pm_implicit = None, pm_aggregate = None\<rparr>"

definition pair_world :: "(unit, nat, nat, unit, unit, unit, unit) game_world" where
  "pair_world = (idle_world 2)\<lparr>gw_plays := \<lparr>pa_n_roles = 2, pa_seats = [AgentId 1, AgentId 0],
     pa_credit = [CreditAll], pa_actions = [Some 7, Some 5], pa_payoffs = [0, 0]\<rparr>\<rparr>"

lemma pair_world_fields:
  "gw_ids pair_world = [AgentId 0, AgentId 1]" "gw_payoff pair_world = [0, 0]" "gw_n_played pair_world = [0, 0]"
  "gw_held pair_world = [0, 0]" "gw_step_history pair_world = step_history_new 0 2 1"
  "gw_plays pair_world = \<lparr>pa_n_roles = 2, pa_seats = [AgentId 1, AgentId 0],
     pa_credit = [CreditAll], pa_actions = [Some 7, Some 5], pa_payoffs = [0, 0]\<rparr>"
  "gw_played_counts pair_world = None" "gw_pair_history pair_world = None"
  by (simp_all add: pair_world_def idle_world_def numeral_2_eq_2)

lemma pair_world_ready: "play_ready pair_world"
proof -
  have "step_history_ok (step_history_new (0 :: nat) 2 1)"
    by (rule step_history_new_ok) (simp_all add: usize_max_def)
  moreover have "sh_n_agents (step_history_new (0 :: nat) 2 1) = 2" by (simp add: step_history_new_def Let_def)
  ultimately show ?thesis by (simp add: play_ready_def pair_world_fields numeral_2_eq_2)
qed

lemma pair_play_runs:
  "\<exists>w'. play_apply (\<lambda>_. 2) nat_floats pair_play pair_world = (Inr (), w') \<and>
    gw_payoff w' = [5, 7] \<and> gw_n_played w' = [1, 1] \<and> gw_plays w' = (gw_plays pair_world)\<lparr>pa_payoffs := [7, 5]\<rparr>"
  by (simp add: play_apply_def pair_play_def pairwise_runner_def Let_def play_pairwise_def pair_world_fields
      n_encounters_def pairwise_encounter_def row_of_def fill_actions_def pay_action_rule_def put_row_def
      world_accum_def accum_apply_def count_actions_def credited_roles_def credit_seat_def nat_floats_def
      with_accum_def record_pairs_def world_mean_def aggregate_mean_def record_aggregate_def u32_max_def)

theorem play_step_recorded_witness:
  "\<exists>w'. play_apply (\<lambda>_. 2) nat_floats pair_play pair_world = (Inr (), w') \<and>
    map_option hv_iter (world_history w' (AgentId 1)) = Some [\<lparr>sr_action = Some 7, sr_payoff = 7, sr_n_played = 1\<rparr>]"
proof -
  obtain w' where run: "play_apply (\<lambda>_. 2) nat_floats pair_play pair_world = (Inr (), w')"
    and w': "gw_payoff w' = [5, 7]" "gw_n_played w' = [1, 1]" "gw_plays w' = (gw_plays pair_world)\<lparr>pa_payoffs := [7, 5]\<rparr>"
    using pair_play_runs by blast
  have "pm_runner pair_play = pairwise_runner Some nat_floats pay_action_rule" by (simp add: pair_play_def)
  from play_step_recorded [OF pair_world_ready this run, of 1] show ?thesis
    using run w'
    by (simp add: pair_world_fields world_history_def history_view_def hv_iter_def step_history_new_def Let_def
        seat_action_def pair_play_def lastn_def)
qed

end
