(* ===== verification/Fenwick.thy ===== *)
theory Fenwick
  imports Prelude "HOL-Library.While_Combinator"
begin

section \<open>The Fenwick tree of weighted sampling (crates/socsim-net/src/lib.rs)\<close>

text \<open>
  The generators with preferential attachment draw a node with probability proportional to its
  weight: \<open>FenwickTree\<close> keeps the prefix sums and finds the first prefix above a real number. Its
  weights are \<open>64 word\<close>s, the loops are \<open>while\<close>s over the index and the array, and the index
  arithmetic \<open>i & (!i + 1)\<close>, \<open>i & (i - 1)\<close> is done on words. Overflowing additions wrap, as in a
  build without overflow checks. A float comparison is a parameter: only that it is monotone in the
  integer it rounds is ever used.
\<close>

unbundle bit_operations_syntax

subsection \<open>Model\<close>

record fenwick_tree =
  fw_tree :: "64 word list"
  fw_values :: "64 word list"

definition fenwick_new :: "nat \<Rightarrow> fenwick_tree" where
  "fenwick_new len = \<lparr>fw_tree = replicate (len + 1) 0, fw_values = replicate len 0\<rparr>"

definition low_bit :: "nat \<Rightarrow> nat" where
  "low_bit i = unat ((of_nat i :: 64 word) AND (NOT (of_nat i) + 1))"

definition clear_low_bit :: "nat \<Rightarrow> nat" where
  "clear_low_bit i = unat ((of_nat i :: 64 word) AND (of_nat i - 1))"

definition fenwick_set :: "nat \<Rightarrow> 64 word \<Rightarrow> fenwick_tree \<Rightarrow> fenwick_tree" where
  "fenwick_set index value t =
     (let old = fw_values t ! index;
          (increase, delta) = (if value \<ge> old then (True, value - old) else (False, old - value));
          (_, tree) = while (\<lambda>(i, tree). i < length tree)
            (\<lambda>(i, tree). (i + low_bit i,
               list_update tree i (if increase then tree ! i + delta else tree ! i - delta)))
            (index + 1, fw_tree t)
      in \<lparr>fw_tree = tree, fw_values = list_update (fw_values t) index value\<rparr>)"

definition fenwick_total :: "fenwick_tree \<Rightarrow> 64 word" where
  "fenwick_total t =
     snd (while (\<lambda>(i, total). i > 0) (\<lambda>(i, total). (clear_low_bit i, total + fw_tree t ! i))
       (length (fw_values t), 0))"

text \<open>One turn of the descent: \<open>index\<close>, \<open>prefix\<close> and \<open>step\<close>.\<close>

definition descend ::
    "(64 word \<Rightarrow> 'f) \<Rightarrow> ('f \<Rightarrow> 'f \<Rightarrow> bool) \<Rightarrow> fenwick_tree \<Rightarrow> 'f \<Rightarrow> nat \<times> 64 word \<times> nat \<Rightarrow> nat \<times> 64 word \<times> nat" where
  "descend of_u64 fle t r st =
     (let (index, prefix, step) = st; next = index + step
      in if next \<le> length (fw_values t)
         then let next_prefix = prefix + fw_tree t ! next
              in if fle (of_u64 next_prefix) r then (next, next_prefix, step div 2) else (index, prefix, step div 2)
         else (index, prefix, step div 2))"

definition first_prefix_greater_than ::
    "(64 word \<Rightarrow> 'f) \<Rightarrow> ('f \<Rightarrow> 'f \<Rightarrow> bool) \<Rightarrow> fenwick_tree \<Rightarrow> 'f \<Rightarrow> nat option" where
  "first_prefix_greater_than of_u64 fle t r =
     (let len = length (fw_values t)
      in if len = 0 \<or> fle (of_u64 (fenwick_total t)) r then None
         else
           let step = while (\<lambda>step. step \<le> len div 2) (\<lambda>step. step * 2) 1;
               (index, _, _) = while (\<lambda>(_, _, step). step > 0) (descend of_u64 fle t r) (0, 0, step)
           in if index < len then Some index else None)"

subsection \<open>The lowest bit\<close>

lemma odd_part: "0 < i \<Longrightarrow> \<exists>k m. i = 2 ^ k * (2 * m + 1)" for i :: nat
proof (induction i rule: less_induct)
  case (less i)
  show ?case
  proof (cases "even i")
    case True
    then obtain j where j: "i = 2 * j" by blast
    with less obtain k m where "j = 2 ^ k * (2 * m + 1)" by force
    then have "i = 2 ^ Suc k * (2 * m + 1)" by (simp add: j)
    then show ?thesis by blast
  next
    case False
    then obtain m where "i = 2 * m + 1" by (elim oddE)
    then have "i = 2 ^ 0 * (2 * m + 1)" by simp
    then show ?thesis by blast
  qed
qed

lemma and_minus_int: "(2 ^ k * (2 * m + 1)) AND (- (2 ^ k * (2 * m + 1))) = (2 ^ k :: int)"
proof -
  have neg: "- (2 * m + 1) = 2 * (NOT m) + 1" by (simp add: not_int_def)
  have "(2 * m + 1) AND (2 * (NOT m) + 1) = 1 + 2 * (m AND NOT m)"
    by (simp add: and_rec [of "2 * m + 1"])
  then have "(2 * m + 1) AND (- (2 * m + 1)) = 1" unfolding neg by simp
  then have "push_bit k (2 * m + 1) AND push_bit k (- (2 * m + 1)) = push_bit k 1"
    by (simp flip: push_bit_and)
  then show ?thesis by (simp add: push_bit_eq_mult algebra_simps)
qed

lemma word_and_of_int: "(of_int a :: 64 word) AND of_int b = of_int (a AND b)"
  by transfer simp

lemma low_bit_int: "(of_nat i :: 64 word) AND (NOT (of_nat i) + 1) = of_int (int i AND - int i)"
  using word_and_of_int [of "int i" "- int i"] by (simp flip: minus_eq_not_plus_1)

lemma clear_low_int: "(of_nat i :: 64 word) AND (of_nat i - 1) = of_int (int i - (int i AND - int i))"
proof -
  have "NOT (int i) AND (int i AND - int i) = 0" by (simp add: bit_eq_iff bit_simps)
  then have "int i - (int i AND - int i) = int i AND NOT (int i AND - int i)" by (rule disjunctive_diff_eq_and_not)
  also have "\<dots> = int i AND NOT (- int i)" by (auto simp: bit_eq_iff bit_simps)
  finally have "int i - (int i AND - int i) = int i AND (int i - 1)" by (simp add: decr_eq_not_minus)
  then show ?thesis using word_and_of_int [of "int i" "int i - 1"] by simp
qed

lemma low_bit_decomp:
  assumes "i = 2 ^ k * (2 * m + 1)" "i < 2 ^ 64"
  shows "low_bit i = 2 ^ k" "clear_low_bit i = i - 2 ^ k"
proof -
  have k: "(2::nat) ^ k \<le> i" using assms(1) by simp
  have and_eq: "int i AND - int i = int (2 ^ k)"
    using and_minus_int [of k "int m"] by (simp only: assms(1) of_nat_mult of_nat_power of_nat_add of_nat_numeral of_nat_1)
  have unat_back: "unat (of_int (int j) :: 64 word) = j" if "j \<le> i" for j
    using that assms(2) by (simp add: unat_of_nat)
  show "low_bit i = 2 ^ k" using unat_back [OF k] unfolding low_bit_def low_bit_int and_eq by simp
  have "int i - (int i AND - int i) = int (i - 2 ^ k)" unfolding and_eq using k by simp
  then show "clear_low_bit i = i - 2 ^ k"
    using unat_back [of "i - 2 ^ k"] unfolding clear_low_bit_def clear_low_int by simp
qed

text \<open>What the proofs use of it: the block \<open>(i - low_bit i, i]\<close> of the tree entry \<open>i\<close>.\<close>

lemma low_bit_bounds:
  assumes "0 < i" "i < 2 ^ 64"
  shows "0 < low_bit i" "low_bit i \<le> i" "clear_low_bit i = i - low_bit i"
  using odd_part [OF assms(1)] low_bit_decomp [OF _ assms(2)] by auto

lemma low_bit_of_multiple:
  assumes "2 * 2 ^ k dvd b" "b + 2 ^ k < 2 ^ 64"
  shows "low_bit (b + 2 ^ k) = 2 ^ k"
proof -
  from assms(1) obtain m where "b = 2 * 2 ^ k * m" by blast
  then show ?thesis using assms(2) by (intro low_bit_decomp(1) [of _ _ m]) (simp_all add: algebra_simps)
qed

lemma low_bit_between:
  assumes "0 < i" "i < j" "j < i + low_bit i" "j < 2 ^ 64"
  shows "i \<le> j - low_bit j"
proof -
  obtain k m where i: "i = 2 ^ k * (2 * m + 1)" using odd_part [OF assms(1)] by blast
  have low: "low_bit i = 2 ^ k" using low_bit_decomp(1) [OF i] assms by simp
  obtain l n where j: "j = 2 ^ l * (2 * n + 1)" using odd_part [of j] assms by auto
  have lowj: "low_bit j = 2 ^ l" using low_bit_decomp(1) [OF j assms(4)] .
  have "l < k"
  proof (rule ccontr)
    assume "\<not> l < k"
    then have "(2::nat) ^ k dvd 2 ^ l" by (simp add: le_imp_power_dvd)
    then have "2 ^ k dvd j" by (simp add: j)
    moreover have "2 ^ k dvd i" by (simp add: i)
    ultimately have "2 ^ k dvd j - i" by simp
    with assms(2,3) low show False by (auto dest: dvd_imp_le)
  qed
  have "2 ^ l dvd j - i" using i j \<open>l < k\<close> by (simp add: le_imp_power_dvd dvd_diff_nat)
  with assms(2) have "2 ^ l \<le> j - i" by (intro dvd_imp_le) simp_all
  with lowj assms(2) show ?thesis by simp
qed

lemma low_bit_next:
  assumes "0 < i" "i + low_bit i < 2 ^ 64"
  shows "i + low_bit i - low_bit (i + low_bit i) \<le> i - low_bit i"
proof -
  obtain k m where i: "i = 2 ^ k * (2 * m + 1)" using odd_part [OF assms(1)] by blast
  have low: "low_bit i = 2 ^ k" using low_bit_decomp(1) [OF i] assms by simp
  obtain l n where j: "i + 2 ^ k = 2 ^ l * (2 * n + 1)" using odd_part [of "i + 2 ^ k"] by auto
  have lowj: "low_bit (i + 2 ^ k) = 2 ^ l" using low_bit_decomp(1) [OF j] assms low by simp
  have even: "i + 2 ^ k = 2 ^ Suc k * (m + 1)" by (simp add: i algebra_simps)
  have "k < l"
  proof (rule ccontr)
    assume "\<not> k < l"
    have "2 ^ Suc l dvd (2::nat) ^ Suc k" by (rule le_imp_power_dvd) (use \<open>\<not> k < l\<close> in simp)
    then have "2 ^ l * 2 dvd 2 ^ l * (2 * n + 1)" using even j by (metis dvd_mult2 power_Suc2)
    then have "2 dvd 2 * n + 1" by (subst (asm) nat_mult_dvd_cancel_disj) simp
    then show False by simp
  qed
  then have "(2::nat) ^ Suc k \<le> 2 ^ l" by (intro power_increasing) simp_all
  then show ?thesis using low lowj by simp
qed

subsection \<open>The blocks of the tree\<close>

definition slice_sum :: "64 word list \<Rightarrow> nat \<Rightarrow> nat \<Rightarrow> 64 word" where
  "slice_sum vs a b = (\<Sum>j = a..<b. vs ! j)"

definition blocks_ok :: "64 word list \<Rightarrow> 64 word list \<Rightarrow> bool" where
  "blocks_ok vs tree \<longleftrightarrow> length tree = length vs + 1 \<and>
     (\<forall>i. 0 < i \<and> i \<le> length vs \<longrightarrow> tree ! i = slice_sum vs (i - low_bit i) i)"

definition fenwick_ok :: "fenwick_tree \<Rightarrow> bool" where
  "fenwick_ok t \<longleftrightarrow> blocks_ok (fw_values t) (fw_tree t) \<and> length (fw_values t) < 2 ^ 63"

lemma slice_sum_split: "a \<le> b \<Longrightarrow> b \<le> c \<Longrightarrow> slice_sum vs a b + slice_sum vs b c = slice_sum vs a c"
  by (simp add: slice_sum_def sum.atLeastLessThan_concat)

lemma slice_sum_update:
  assumes "k < length vs"
  shows "slice_sum (list_update vs k v) a b =
    (if a \<le> k \<and> k < b then slice_sum vs a b + (v - vs ! k) else slice_sum vs a b)"
proof (cases "a \<le> k \<and> k < b")
  case True
  then have "{a..<b} = insert k ({a..<b} - {k})" by auto
  then have split: "(\<Sum>j = a..<b. ws ! j) = ws ! k + (\<Sum>j \<in> {a..<b} - {k}. ws ! j)" for ws :: "64 word list"
    by (metis finite_atLeastLessThan finite_Diff insert_Diff_single insert_iff sum.insert_remove)
  have "(\<Sum>j \<in> {a..<b} - {k}. list_update vs k v ! j) = (\<Sum>j \<in> {a..<b} - {k}. vs ! j)"
    by (intro sum.cong) auto
  with True assms show ?thesis
    by (simp add: slice_sum_def split [of vs] split [of "list_update vs k v"])
next
  case False
  then have "(\<Sum>j = a..<b. list_update vs k v ! j) = (\<Sum>j = a..<b. vs ! j)"
    by (intro sum.cong) (auto simp: nth_list_update)
  then show ?thesis unfolding slice_sum_def if_not_P [OF False] .
qed

lemma fenwick_new_ok: "len < 2 ^ 63 \<Longrightarrow> fenwick_ok (fenwick_new len)"
  by (auto simp: fenwick_ok_def blocks_ok_def fenwick_new_def slice_sum_def intro!: sum.neutral [symmetric])

text \<open>The update loop visits the entries whose block holds the index, in increasing order.\<close>

lemma fenwick_set_ok:
  assumes "fenwick_ok t" "index < length (fw_values t)"
  shows "fenwick_ok (fenwick_set index value t) \<and>
    fw_values (fenwick_set index value t) = list_update (fw_values t) index value"
proof -
  let ?vs = "fw_values t" and ?len = "length (fw_values t)"
  let ?vs' = "list_update ?vs index value"
  obtain increase delta where delta: "(if value \<ge> ?vs ! index then (True, value - ?vs ! index)
      else (False, ?vs ! index - value)) = (increase, delta)" by (cases "value \<ge> ?vs ! index") auto
  have add: "(if increase then x + delta else x - delta) = x + (value - ?vs ! index)" for x
    using delta by (auto split: if_splits)
  let ?body = "\<lambda>(i, tree). (i + low_bit i, list_update tree i (if increase then tree ! i + delta else tree ! i - delta))"
  let ?inv = "\<lambda>(i, tree). length tree = ?len + 1 \<and> index < i \<and> i \<le> 2 * ?len \<and> i - low_bit i \<le> index \<and>
    (\<forall>j. 0 < j \<and> j \<le> ?len \<longrightarrow> tree ! j =
       (if j < i then slice_sum ?vs' (j - low_bit j) j else slice_sum ?vs (j - low_bit j) j))"
  have small: "2 * ?len < 2 ^ 64" using assms(1) by (simp add: fenwick_ok_def)
  have "case while (\<lambda>(i, tree). i < length tree) ?body (index + 1, fw_tree t) of (_, tree) \<Rightarrow> blocks_ok ?vs' tree"
  proof (rule while_rule [where P = ?inv and r = "measure (\<lambda>(i, tree). length tree - i)"])
    have "low_bit (index + 1) > 0" using low_bit_bounds(1) [of "index + 1"] assms(2) small by simp
    moreover have "slice_sum ?vs' (j - low_bit j) j = slice_sum ?vs (j - low_bit j) j" if "j < index + 1" for j
      using that assms(2) by (simp add: slice_sum_update)
    ultimately show "?inv (index + 1, fw_tree t)"
      using assms by (auto simp: fenwick_ok_def blocks_ok_def)
  next
    fix st assume inv: "?inv st" and loop: "(\<lambda>(i, tree). i < length tree) st"
    obtain i tree where st: "st = (i, tree)" by (cases st)
    have i: "0 < i" "i \<le> ?len" "i < 2 ^ 64" "index < i" "i - low_bit i \<le> index" and tree: "length tree = ?len + 1"
      and entries: "\<And>j. 0 < j \<Longrightarrow> j \<le> ?len \<Longrightarrow> tree ! j =
        (if j < i then slice_sum ?vs' (j - low_bit j) j else slice_sum ?vs (j - low_bit j) j)"
      using inv loop small by (auto simp: st)
    note low = low_bit_bounds [OF i(1,3)]
    have after: "slice_sum ?vs' (j - low_bit j) j = slice_sum ?vs (j - low_bit j) j"
      if "i < j" "j < i + low_bit i" "j \<le> ?len" for j
      using that low_bit_between [OF i(1), of j] i(4) assms(2) small by (simp add: slice_sum_update)
    have here: "tree ! i + (value - ?vs ! index) = slice_sum ?vs' (i - low_bit i) i"
      using entries [of i] i assms(2) by (simp add: slice_sum_update)
    have next_i: "i + low_bit i \<le> 2 * ?len" using i low(2) by simp
    have "i + low_bit i - low_bit (i + low_bit i) \<le> index"
      using low_bit_next [OF i(1)] next_i i(5) small by simp
    moreover have "list_update tree i (tree ! i + (value - ?vs ! index)) ! j =
        (if j < i + low_bit i then slice_sum ?vs' (j - low_bit j) j else slice_sum ?vs (j - low_bit j) j)"
      if "0 < j" "j \<le> ?len" for j
    proof (cases "j = i")
      case True
      then show ?thesis using here low(1) i(2) tree by simp
    next
      case False
      then show ?thesis using entries [OF that] after [of j] that low(1) by auto
    qed
    ultimately show "?inv (?body st)"
      using tree i next_i by (simp add: st add)
    show "(?body st, st) \<in> measure (\<lambda>(i, tree). length tree - i)"
      using low(1) i tree by (simp add: st)
  next
    fix st assume "?inv st" "\<not> (\<lambda>(i, tree). i < length tree) st"
    then show "case st of (_, tree) \<Rightarrow> blocks_ok ?vs' tree" by (auto simp: blocks_ok_def)
  qed simp
  then show ?thesis
    using assms(1) delta by (auto simp: fenwick_set_def fenwick_ok_def Let_def split: prod.splits)
qed

lemma fenwick_total_sum:
  assumes "fenwick_ok t"
  shows "fenwick_total t = slice_sum (fw_values t) 0 (length (fw_values t))"
proof -
  let ?vs = "fw_values t" and ?len = "length (fw_values t)"
  let ?body = "\<lambda>(i, total). (clear_low_bit i, total + fw_tree t ! i)"
  have "snd (while (\<lambda>(i, total). i > 0) ?body (?len, 0)) = slice_sum ?vs 0 ?len"
  proof (rule while_rule [where P = "\<lambda>(i, total). i \<le> ?len \<and> total = slice_sum ?vs i ?len" and r = "measure fst"])
    fix st assume "(\<lambda>(i, total). i \<le> ?len \<and> total = slice_sum ?vs i ?len) st" "(\<lambda>(i, total). i > 0) st"
    then obtain i where st: "st = (i, slice_sum ?vs i ?len)" and i: "0 < i" "i \<le> ?len" "i < 2 ^ 64"
      using assms by (cases st) (auto simp: fenwick_ok_def)
    note low = low_bit_bounds [OF i(1,3)]
    have "fw_tree t ! i = slice_sum ?vs (i - low_bit i) i"
      using assms i by (simp add: fenwick_ok_def blocks_ok_def)
    then have "slice_sum ?vs i ?len + fw_tree t ! i = slice_sum ?vs (i - low_bit i) ?len"
      using slice_sum_split [of "i - low_bit i" i ?len ?vs] i(2) by (simp add: add.commute)
    then show "(\<lambda>(i, total). i \<le> ?len \<and> total = slice_sum ?vs i ?len) (?body st)"
      using low i(2) by (simp add: st)
    show "(?body st, st) \<in> measure fst" using low i(1) by (simp add: st)
  qed (auto simp: slice_sum_def)
  then show ?thesis by (simp add: fenwick_total_def)
qed

subsection \<open>The descent\<close>

text \<open>Rounding an integer to \<open>f64\<close> is monotone, also when the other side is not a number.\<close>

definition monotone_rounding :: "(64 word \<Rightarrow> 'f) \<Rightarrow> ('f \<Rightarrow> 'f \<Rightarrow> bool) \<Rightarrow> bool" where
  "monotone_rounding of_u64 fle \<longleftrightarrow> (\<forall>x y r. x \<le> y \<longrightarrow> fle (of_u64 y) r \<longrightarrow> fle (of_u64 x) r)"

definition fits_u64 :: "64 word list \<Rightarrow> bool" where
  "fits_u64 vs \<longleftrightarrow> (\<Sum>v \<leftarrow> vs. unat v) < 2 ^ 64"

lemma unat_prefix:
  assumes "fits_u64 vs" "i \<le> length vs"
  shows "unat (slice_sum vs 0 i) = (\<Sum>v \<leftarrow> take i vs. unat v)"
  using assms(2)
proof (induction i)
  case (Suc i)
  have "(\<Sum>v \<leftarrow> take (Suc i) vs. unat v) + (\<Sum>v \<leftarrow> drop (Suc i) vs. unat v) < 2 ^ 64"
    using assms(1) by (simp add: fits_u64_def flip: sum_list_append map_append)
  then have "unat (slice_sum vs 0 i) + unat (vs ! i) < 2 ^ 64"
    using Suc by (simp add: take_Suc_conv_app_nth)
  then have "unat (slice_sum vs 0 i + vs ! i) = unat (slice_sum vs 0 i) + unat (vs ! i)"
    by (subst unat_add_lem [symmetric]) simp
  with Suc show ?case by (simp add: slice_sum_def take_Suc_conv_app_nth)
qed (simp add: slice_sum_def)

lemma prefix_mono:
  assumes "fits_u64 vs" "i \<le> j" "j \<le> length vs"
  shows "slice_sum vs 0 i \<le> slice_sum vs 0 j"
proof -
  obtain d where "j = i + d" using assms(2) le_Suc_ex by blast
  then have "(\<Sum>v \<leftarrow> take i vs. unat v) \<le> (\<Sum>v \<leftarrow> take j vs. unat v)" by (simp add: take_add)
  with assms show ?thesis by (simp add: unat_prefix word_le_nat_alt)
qed

lemma start_step:
  fixes len :: nat
  assumes "0 < len"
  shows "\<exists>k. while (\<lambda>step. step \<le> len div 2) (\<lambda>step. step * 2) 1 = 2 ^ k \<and> 2 ^ k \<le> len \<and> len < 2 * 2 ^ k"
proof (rule while_rule [where P = "\<lambda>step. \<exists>k. step = 2 ^ k \<and> 2 ^ k \<le> len" and r = "measure (\<lambda>step. len - step)"])
  show "\<exists>k. 1 = (2::nat) ^ k \<and> 2 ^ k \<le> len" using assms by (intro exI [of _ 0]) simp
next
  fix step assume "\<exists>k. step = 2 ^ k \<and> 2 ^ k \<le> len" and loop: "step \<le> len div 2"
  then obtain k where k: "step = 2 ^ k" by blast
  show "\<exists>k. step * 2 = 2 ^ k \<and> 2 ^ k \<le> len" using k loop by (intro exI [of _ "Suc k"]) auto
  have "0 < step" using k by simp
  with loop show "(step * 2, step) \<in> measure (\<lambda>step. len - step)" by auto
next
  fix step assume "\<exists>k. step = 2 ^ k \<and> 2 ^ k \<le> len" "\<not> step \<le> len div 2"
  then show "\<exists>k. step = 2 ^ k \<and> 2 ^ k \<le> len \<and> len < 2 * 2 ^ k" by auto
qed simp

text \<open>The descent ends at the last index whose prefix is not above \<open>r\<close>.\<close>

lemma descend_finds:
  fixes t :: fenwick_tree and r :: 'f and of_u64 :: "64 word \<Rightarrow> 'f" and fle :: "'f \<Rightarrow> 'f \<Rightarrow> bool"
  defines "below \<equiv> \<lambda>i. fle (of_u64 (slice_sum (fw_values t) 0 i)) r" and "len \<equiv> length (fw_values t)"
  assumes ok: "fenwick_ok t" and len: "0 < len" and total: "\<not> below len"
    and step: "2 ^ k \<le> len" "len < 2 * 2 ^ k"
  shows "case while (\<lambda>(_, _, step). step > 0) (descend of_u64 fle t r) (0, 0, 2 ^ k) of
    (index, _, _) \<Rightarrow> index < len \<and> (index = 0 \<or> below index) \<and> \<not> below (index + 1)"
proof -
  let ?ps = "slice_sum (fw_values t) 0"
  let ?inv = "\<lambda>(index, prefix, step :: nat). index \<le> len \<and> prefix = ?ps index \<and> (index = 0 \<or> below index) \<and>
    (step = 0 \<and> (len < index + 1 \<or> \<not> below (index + 1)) \<or>
     (\<exists>k. step = 2 ^ k \<and> 2 * 2 ^ k dvd index \<and> (len < index + 2 * 2 ^ k \<or> \<not> below (index + 2 * 2 ^ k))))"
  show ?thesis
  proof (rule while_rule [where P = ?inv and r = "measure (\<lambda>(_, _, step). step)"])
    show "?inv (0, 0, 2 ^ k)" using step by (auto simp: slice_sum_def)
  next
    fix st assume inv: "?inv st" and loop: "(\<lambda>(_, _, step). step > 0) st"
    then obtain index k where st: "st = (index, ?ps index, 2 ^ k)"
      and index: "index \<le> len" "index = 0 \<or> below index" "2 * 2 ^ k dvd index"
        "len < index + 2 * 2 ^ k \<or> \<not> below (index + 2 * 2 ^ k)"
      by (cases st) auto
    have next_step: "(2::nat) ^ k div 2 = 0 \<and> k = 0 \<or> (\<exists>l. k = Suc l \<and> 2 ^ k div 2 = (2::nat) ^ l)"
      by (cases k) auto
    have entry: "?ps index + fw_tree t ! (index + 2 ^ k) = ?ps (index + 2 ^ k)" if "index + 2 ^ k \<le> len"
    proof -
      have "index + 2 ^ k < 2 ^ 64" using that ok by (simp add: fenwick_ok_def len_def)
      then have "low_bit (index + 2 ^ k) = 2 ^ k" by (rule low_bit_of_multiple [OF index(3)])
      then have "fw_tree t ! (index + 2 ^ k) = slice_sum (fw_values t) index (index + 2 ^ k)"
        using ok that by (simp add: fenwick_ok_def blocks_ok_def len_def)
      then show ?thesis by (simp add: slice_sum_split)
    qed
    have half: "2 ^ k dvd index" using index(3) dvd_mult_right by blast
    show "?inv (descend of_u64 fle t r st)"
    proof (cases "index + 2 ^ k \<le> len \<and> below (index + 2 ^ k)")
      case True
      then have "descend of_u64 fle t r st = (index + 2 ^ k, ?ps (index + 2 ^ k), 2 ^ k div 2)"
        using entry by (simp add: st descend_def below_def len_def Let_def)
      with True next_step half index(4) show ?thesis by (auto simp: add.assoc)
    next
      case False
      then have "descend of_u64 fle t r st = (index, ?ps index, 2 ^ k div 2)"
        using entry by (auto simp: st descend_def below_def len_def Let_def)
      with False next_step half index show ?thesis by auto
    qed
    have "2 ^ k div 2 < (2::nat) ^ k" by simp
    then show "(descend of_u64 fle t r st, st) \<in> measure (\<lambda>(_, _, step). step)"
      by (simp add: st descend_def Let_def)
  next
    fix st assume "?inv st" "\<not> (\<lambda>(_, _, step). step > 0) st"
    then show "case st of (index, _, _) \<Rightarrow> index < len \<and> (index = 0 \<or> below index) \<and> \<not> below (index + 1)"
      using total len by (cases st) (auto simp: le_less)
  qed simp
qed

text \<open>A tree whose cells hold \<open>vs\<close> searches like the linear scan of the prefixes.\<close>

lemma search_is_scan:
  assumes "fenwick_ok t" "monotone_rounding of_u64 fle" "fits_u64 (fw_values t)"
  shows "first_prefix_greater_than of_u64 fle t r =
    find (\<lambda>i. \<not> fle (of_u64 (slice_sum (fw_values t) 0 (i + 1))) r) [0..<length (fw_values t)]"
proof -
  let ?vs = "fw_values t" and ?len = "length (fw_values t)"
  let ?below = "\<lambda>i. fle (of_u64 (slice_sum ?vs 0 i)) r"
  have mono: "?below i" if "?below j" "i \<le> j" "j \<le> ?len" for i j
    using that prefix_mono [OF assms(3)] assms(2) by (meson monotone_rounding_def)
  show ?thesis
  proof (cases "?len = 0 \<or> ?below ?len")
    case True
    then have "?below (i + 1)" if "i < ?len" for i using that mono [of ?len "i + 1"] by auto
    then have "find (\<lambda>i. \<not> ?below (i + 1)) [0..<?len] = None" by (auto simp: find_None_iff)
    with True show ?thesis
      by (simp add: first_prefix_greater_than_def fenwick_total_sum [OF assms(1)] Let_def)
  next
    case False
    obtain k where k: "while (\<lambda>step. step \<le> ?len div 2) (\<lambda>step. step * 2) 1 = (2 :: nat) ^ k" "2 ^ k \<le> ?len" "?len < 2 * 2 ^ k"
      using start_step [of ?len] False by blast
    obtain index prefix step where loop: "while (\<lambda>(_, _, step). step > 0) (descend of_u64 fle t r) (0, 0, 2 ^ k) = (index, prefix, step)"
      by (metis prod_cases3)
    have found: "index < ?len" "index = 0 \<or> ?below index" "\<not> ?below (index + 1)"
      using descend_finds [OF assms(1) _ _ k(2,3), of fle of_u64 r] False loop by auto
    have "?below (j + 1)" if "j < index" for j
      using that found(1,2) mono [of index "j + 1"] by auto
    then have "find (\<lambda>i. \<not> ?below (i + 1)) [0..<?len] = Some index"
      using found(1,3) by (auto simp: find_Some_iff intro!: exI [of _ index])
    with False show ?thesis
      using found(1) loop by (simp add: first_prefix_greater_than_def fenwick_total_sum [OF assms(1)] Let_def k(1) [simplified])
  qed
qed

lemma length_fold_update [simp]: "length (fold (\<lambda>(i, v) vs. list_update vs i v) sets vs) = length vs"
  by (induction sets arbitrary: vs) (auto split: prod.splits)

lemma fold_sets:
  assumes "fenwick_ok t" "\<forall>(i, v) \<in> set sets. i < length (fw_values t)"
  shows "fenwick_ok (fold (\<lambda>(i, v). fenwick_set i v) sets t) \<and>
    fw_values (fold (\<lambda>(i, v). fenwick_set i v) sets t) = fold (\<lambda>(i, v) vs. list_update vs i v) sets (fw_values t)"
  using assms
proof (induction sets arbitrary: t)
  case (Cons e sets)
  obtain i v where e: "e = (i, v)" by (cases e)
  from Cons.prems have "fenwick_ok (fenwick_set i v t)" "fw_values (fenwick_set i v t) = list_update (fw_values t) i v"
    using fenwick_set_ok by (simp_all add: e)
  with Cons show ?case by (simp add: e)
qed simp

text \<open>
  C30: after any sequence of weight updates of a new tree, the total is the sum of the weights and the
  search returns exactly the node the linear scan of the prefix sums finds: the first one whose
  prefix is strictly above \<open>r\<close>, and none when the total is not. The weights fit \<open>u64\<close>.
\<close>

theorem fenwick_samples_like_scan:
  fixes len :: nat and sets :: "(nat \<times> 64 word) list"
  defines "t \<equiv> fold (\<lambda>(i, v). fenwick_set i v) sets (fenwick_new len)"
    and "ws \<equiv> fold (\<lambda>(i, v) vs. list_update vs i v) sets (replicate len 0)"
  assumes "len < 2 ^ 63" "\<forall>(i, v) \<in> set sets. i < len" "monotone_rounding of_u64 fle" "fits_u64 ws"
  shows "unat (fenwick_total t) = (\<Sum>v \<leftarrow> ws. unat v) \<and>
    first_prefix_greater_than of_u64 fle t r =
      find (\<lambda>i. \<not> fle (of_u64 (of_nat (\<Sum>v \<leftarrow> take (i + 1) ws. unat v))) r) [0..<len]"
proof -
  have "length (fw_values (fenwick_new len)) = len" "fw_values (fenwick_new len) = replicate len 0"
    by (simp_all add: fenwick_new_def)
  then have t: "fenwick_ok t" "fw_values t = ws"
    using fold_sets [OF fenwick_new_ok [OF assms(3)], of sets] assms(4) by (simp_all add: t_def ws_def)
  have len: "length ws = len" by (simp add: ws_def)
  have prefix: "slice_sum ws 0 i = of_nat (\<Sum>v \<leftarrow> take i ws. unat v)" if "i \<le> len" for i
    using that len by (simp add: unat_prefix [OF assms(6), symmetric])
  have "unat (fenwick_total t) = (\<Sum>v \<leftarrow> ws. unat v)"
    using unat_prefix [OF assms(6), of len] len by (simp add: fenwick_total_sum [OF t(1)] t(2))
  moreover have "find (\<lambda>i. \<not> fle (of_u64 (slice_sum ws 0 (i + 1))) r) [0..<len] =
      find (\<lambda>i. \<not> fle (of_u64 (of_nat (\<Sum>v \<leftarrow> take (i + 1) ws. unat v))) r) [0..<len]"
    by (rule find_cong) (use prefix in auto)
  ultimately show ?thesis using search_is_scan [OF t(1) assms(5)] assms(6) by (simp add: t(2) len)
qed

theorem fenwick_samples_like_scan_witness:
  "unat (fenwick_total (fold (\<lambda>(i, v). fenwick_set i v) [(0, 2), (2, 5), (1, 1), (2, 3)] (fenwick_new 3))) = 6 \<and>
   first_prefix_greater_than unat (\<le>) (fold (\<lambda>(i, v). fenwick_set i v) [(0, 2), (2, 5), (1, 1), (2, 3)] (fenwick_new 3)) 2 = Some 1"
proof -
  have upt: "[0..<3] = [0, 1, 2 :: nat]" by (simp add: upt_rec)
  have "replicate 3 (0 :: 64 word) = [0, 0, 0]" by (simp add: numeral_3_eq_3)
  then have ws: "fold (\<lambda>(i, v) vs. list_update vs i v) [(0, 2), (2, 5), (1, 1), (2, 3)] (replicate 3 0) = [2, 1, 3 :: 64 word]"
    by simp
  have "monotone_rounding (unat :: 64 word \<Rightarrow> nat) (\<le>)" by (auto simp: monotone_rounding_def word_le_nat_alt)
  moreover have "fits_u64 [2, 1, 3]" by (simp add: fits_u64_def)
  ultimately show ?thesis
    using fenwick_samples_like_scan [of 3 "[(0, 2), (2, 5), (1, 1), (2, 3)]" unat "(\<le>)" 2]
    unfolding ws by (simp add: upt)
qed

end
