(* ===== verification/Network.thy ===== *)
theory Network
  imports Core "HOL-Library.Product_Lexorder"
begin

section \<open>Social networks (crates/socsim-net/src/lib.rs)\<close>

text \<open>
  \<open>Network\<close> wraps a \<open>StableGraph\<close> of the petgraph library and an index from agents to node
  slots. petgraph is not part of the repository: its graph is the record \<open>graph_ops\<close> of the
  operations the wrapper calls, and the locale \<open>stable_graph\<close> states what their documentation
  promises, over the view of a graph as its live node slots and live edge slots. \<open>list_graph\<close> is an
  executable graph with these laws, for concrete runs. That the wrapper refines a plain
  labelled graph over agents is shown in \<open>Network_Spec\<close>.
\<close>

subsection \<open>The library's graph\<close>

type_synonym 'e edge_slot = "nat \<times> nat \<times> 'e"

record ('gr, 'e) graph_ops =
  go_directed :: bool
  go_default :: 'gr
  go_add_node :: "agent_id \<Rightarrow> 'gr \<Rightarrow> nat \<times> 'gr"
  go_add_edge :: "nat \<Rightarrow> nat \<Rightarrow> 'e \<Rightarrow> 'gr \<Rightarrow> 'gr"
  go_find_edge :: "'gr \<Rightarrow> nat \<Rightarrow> nat \<Rightarrow> nat option"
  go_weight :: "'gr \<Rightarrow> nat \<Rightarrow> 'e option"
  go_set_weight :: "nat \<Rightarrow> 'e \<Rightarrow> 'gr \<Rightarrow> 'gr"
  go_remove_edge :: "nat \<Rightarrow> 'gr \<Rightarrow> 'gr"
  go_remove_node :: "nat \<Rightarrow> 'gr \<Rightarrow> 'gr"
  go_node :: "'gr \<Rightarrow> nat \<Rightarrow> agent_id"
  go_node_indices :: "'gr \<Rightarrow> nat list"
  go_edge_indices :: "'gr \<Rightarrow> nat list"
  go_endpoints :: "'gr \<Rightarrow> nat \<Rightarrow> (nat \<times> nat) option"
  go_edges :: "'gr \<Rightarrow> nat \<Rightarrow> (nat \<times> 'e) list"
  go_edges_in :: "'gr \<Rightarrow> nat \<Rightarrow> (nat \<times> 'e) list"

text \<open>\<open>edges(n)\<close> as pairs of the other end and the weight; \<open>neighbors\<close> and the counts follow.\<close>

definition go_neighbors :: "('gr, 'e) graph_ops \<Rightarrow> 'gr \<Rightarrow> nat \<Rightarrow> nat list" where
  "go_neighbors G g x = map fst (go_edges G g x)"

definition joins :: "bool \<Rightarrow> nat \<Rightarrow> nat \<Rightarrow> 'e edge_slot \<Rightarrow> bool" where
  "joins directed x y e \<longleftrightarrow> (fst e, fst (snd e)) = (x, y) \<or> \<not> directed \<and> (fst e, fst (snd e)) = (y, x)"

locale stable_graph =
  fixes G :: "('gr, 'e) graph_ops"
    and vn :: "'gr \<Rightarrow> nat \<Rightarrow> agent_id option"
    and ve :: "'gr \<Rightarrow> nat \<Rightarrow> 'e edge_slot option"
    and ok :: "'gr \<Rightarrow> bool"
  assumes default_graph: "ok (go_default G) \<and> vn (go_default G) = Map.empty \<and> ve (go_default G) = Map.empty"
    and add_node: "ok g \<Longrightarrow> go_add_node G a g = (x, g') \<Longrightarrow>
      ok g' \<and> vn g x = None \<and> vn g' = (vn g)(x \<mapsto> a) \<and> ve g' = ve g"
    and add_edge: "ok g \<Longrightarrow> x \<in> dom (vn g) \<Longrightarrow> y \<in> dom (vn g) \<Longrightarrow>
      ok (go_add_edge G x y w g) \<and> vn (go_add_edge G x y w g) = vn g \<and>
      (\<exists>k. ve g k = None \<and> ve (go_add_edge G x y w g) = (ve g)(k \<mapsto> (x, y, w)))"
    and find_edge: "ok g \<Longrightarrow> go_find_edge G g x y = Some k \<Longrightarrow>
      \<exists>e. ve g k = Some e \<and> joins (go_directed G) x y e"
    and find_edge_None: "ok g \<Longrightarrow> go_find_edge G g x y = None \<Longrightarrow> ve g k = Some e \<Longrightarrow> \<not> joins (go_directed G) x y e"
    and weight: "ok g \<Longrightarrow> go_weight G g k = map_option (snd \<circ> snd) (ve g k)"
    and set_weight: "ok g \<Longrightarrow> ve g k = Some (x, y, u) \<Longrightarrow>
      ok (go_set_weight G k w g) \<and> vn (go_set_weight G k w g) = vn g \<and>
      ve (go_set_weight G k w g) = (ve g)(k \<mapsto> (x, y, w))"
    and remove_edge: "ok g \<Longrightarrow> ve g k = Some e \<Longrightarrow>
      ok (go_remove_edge G k g) \<and> vn (go_remove_edge G k g) = vn g \<and> ve (go_remove_edge G k g) = (ve g)(k := None)"
    and remove_node: "ok g \<Longrightarrow> x \<in> dom (vn g) \<Longrightarrow>
      ok (go_remove_node G x g) \<and> vn (go_remove_node G x g) = (vn g)(x := None) \<and>
      ve (go_remove_node G x g) = (\<lambda>k. case ve g k of
        Some (y, z, w) \<Rightarrow> if y = x \<or> z = x then None else Some (y, z, w) | None \<Rightarrow> None)"
    and node: "ok g \<Longrightarrow> vn g x = Some a \<Longrightarrow> go_node G g x = a"
    and node_indices: "ok g \<Longrightarrow> distinct (go_node_indices G g) \<and> set (go_node_indices G g) = dom (vn g)"
    and edge_indices: "ok g \<Longrightarrow> distinct (go_edge_indices G g) \<and> set (go_edge_indices G g) = dom (ve g)"
    and endpoints: "ok g \<Longrightarrow> go_endpoints G g k = map_option (\<lambda>(x, y, w). (x, y)) (ve g k)"
    and live: "ok g \<Longrightarrow> ve g k = Some (x, y, w) \<Longrightarrow> x \<in> dom (vn g) \<and> y \<in> dom (vn g)"
    and edges: "ok g \<Longrightarrow> (y, w) \<in> set (go_edges G g x) \<longleftrightarrow>
      (\<exists>k e. ve g k = Some e \<and> joins (go_directed G) x y e \<and> snd (snd e) = w)"
    and edges_count: "ok g \<Longrightarrow> length (go_edges G g x) =
      card {k. \<exists>e y. ve g k = Some e \<and> joins (go_directed G) x y e}"
    and edges_in: "ok g \<Longrightarrow> (y, w) \<in> set (go_edges_in G g x) \<longleftrightarrow>
      (\<exists>k e. ve g k = Some e \<and> joins (go_directed G) y x e \<and> snd (snd e) = w)"
    and finite_edges: "ok g \<Longrightarrow> finite (dom (ve g))"

subsection \<open>A graph of lists\<close>

text \<open>Vacant slots stay as \<open>None\<close>, so indices stay valid across removals.\<close>

record 'e list_graph =
  lg_nodes :: "agent_id option list"
  lg_edges :: "'e edge_slot option list"

definition lg_slot :: "'b option list \<Rightarrow> nat \<Rightarrow> 'b option" where
  "lg_slot xs i = (if i < length xs then xs ! i else None)"

definition lg_live :: "'b option list \<Rightarrow> nat list" where
  "lg_live xs = filter (\<lambda>i. xs ! i \<noteq> None) [0..<length xs]"

definition lg_other :: "bool \<Rightarrow> nat \<Rightarrow> 'e edge_slot option \<Rightarrow> (nat \<times> 'e) option" where
  "lg_other directed x slot =
     (case slot of
        None \<Rightarrow> None
      | Some (y, z, w) \<Rightarrow> if y = x then Some (z, w) else if \<not> directed \<and> z = x then Some (y, w) else None)"

definition lg_turned :: "'e edge_slot option \<Rightarrow> 'e edge_slot option" where
  "lg_turned slot = map_option (\<lambda>(y, z, w). (z, y, w)) slot"

definition list_graph_ops :: "bool \<Rightarrow> ('e list_graph, 'e) graph_ops" where
  "list_graph_ops directed =
     \<lparr>go_directed = directed,
      go_default = \<lparr>lg_nodes = [], lg_edges = []\<rparr>,
      go_add_node = (\<lambda>a g. (length (lg_nodes g), g\<lparr>lg_nodes := lg_nodes g @ [Some a]\<rparr>)),
      go_add_edge = (\<lambda>x y w g. g\<lparr>lg_edges := lg_edges g @ [Some (x, y, w)]\<rparr>),
      go_find_edge = (\<lambda>g x y. find (\<lambda>k. case lg_edges g ! k of Some e \<Rightarrow> joins directed x y e | None \<Rightarrow> False)
        [0..<length (lg_edges g)]),
      go_weight = (\<lambda>g k. map_option (snd \<circ> snd) (lg_slot (lg_edges g) k)),
      go_set_weight = (\<lambda>k w g. g\<lparr>lg_edges := list_update (lg_edges g) k
        (map_option (\<lambda>(x, y, u). (x, y, w)) (lg_slot (lg_edges g) k))\<rparr>),
      go_remove_edge = (\<lambda>k g. g\<lparr>lg_edges := list_update (lg_edges g) k None\<rparr>),
      go_remove_node = (\<lambda>x g. g\<lparr>lg_nodes := list_update (lg_nodes g) x None,
        lg_edges := map (\<lambda>slot. case slot of
          Some (y, z, w) \<Rightarrow> if y = x \<or> z = x then None else Some (y, z, w) | None \<Rightarrow> None) (lg_edges g)\<rparr>),
      go_node = (\<lambda>g x. the (lg_slot (lg_nodes g) x)),
      go_node_indices = (\<lambda>g. lg_live (lg_nodes g)),
      go_edge_indices = (\<lambda>g. lg_live (lg_edges g)),
      go_endpoints = (\<lambda>g k. map_option (\<lambda>(x, y, w). (x, y)) (lg_slot (lg_edges g) k)),
      go_edges = (\<lambda>g x. List.map_filter (lg_other directed x) (lg_edges g)),
      go_edges_in = (\<lambda>g x. List.map_filter (\<lambda>slot. lg_other directed x (lg_turned slot)) (lg_edges g))\<rparr>"

definition list_graph_ok :: "'e list_graph \<Rightarrow> bool" where
  "list_graph_ok g \<longleftrightarrow> (\<forall>k x y w. lg_slot (lg_edges g) k = Some (x, y, w) \<longrightarrow>
     x \<in> dom (lg_slot (lg_nodes g)) \<and> y \<in> dom (lg_slot (lg_nodes g)))"

lemma list_graph_okI:
  "(\<And>k x y w. lg_slot (lg_edges g) k = Some (x, y, w) \<Longrightarrow>
     x \<in> dom (lg_slot (lg_nodes g)) \<and> y \<in> dom (lg_slot (lg_nodes g))) \<Longrightarrow> list_graph_ok g"
  unfolding list_graph_ok_def by blast

lemma list_graph_okD:
  "list_graph_ok g \<Longrightarrow> lg_slot (lg_edges g) k = Some (x, y, w) \<Longrightarrow>
   x \<in> dom (lg_slot (lg_nodes g)) \<and> y \<in> dom (lg_slot (lg_nodes g))"
  unfolding list_graph_ok_def by blast

lemma lg_slot_append: "lg_slot (xs @ [Some v]) = (lg_slot xs)(length xs \<mapsto> v)"
  by (auto simp: lg_slot_def nth_append)

lemma lg_slot_update: "k < length xs \<Longrightarrow> lg_slot (list_update xs k v) = (lg_slot xs)(k := v)"
  by (auto simp: lg_slot_def)

lemma lg_slot_Some: "lg_slot xs k = Some v \<Longrightarrow> k < length xs"
  by (simp add: lg_slot_def split: if_splits)

lemma lg_live: "distinct (lg_live xs)" "set (lg_live xs) = dom (lg_slot xs)"
  by (auto simp: lg_live_def lg_slot_def dom_def)

lemma lg_other_Some: "lg_other directed x slot = Some (y, w) \<longleftrightarrow>
  (\<exists>e. slot = Some e \<and> joins directed x y e \<and> snd (snd e) = w)"
  by (auto simp: lg_other_def joins_def split: option.split)

lemma length_map_filter: "length (List.map_filter f xs) = card {k. k < length xs \<and> f (xs ! k) \<noteq> None}"
proof (induction xs rule: rev_induct)
  case (snoc x xs)
  have "{k. k < length (xs @ [x]) \<and> f ((xs @ [x]) ! k) \<noteq> None} =
      {k. k < length xs \<and> f (xs ! k) \<noteq> None} \<union> (if f x \<noteq> None then {length xs} else {})"
    by (auto simp: nth_append less_Suc_eq)
  with snoc show ?case by (auto simp: List.map_filter_def)
qed (simp add: List.map_filter_def)

lemma set_map_filter: "y \<in> set (List.map_filter f xs) \<longleftrightarrow> (\<exists>k < length xs. f (xs ! k) = Some y)"
  by (force simp: List.map_filter_def in_set_conv_nth image_iff)

lemma slot_ex: "(\<exists>k < length xs. \<exists>e. xs ! k = Some e \<and> P e) \<longleftrightarrow> (\<exists>k e. lg_slot xs k = Some e \<and> P e)"
  by (auto simp: lg_slot_def)

lemma lg_other_ne: "lg_other directed x slot \<noteq> None \<longleftrightarrow> (\<exists>e y. slot = Some e \<and> joins directed x y e)"
  by (auto simp: lg_other_def joins_def split: option.split)

interpretation list_graph: stable_graph "list_graph_ops directed" "\<lambda>g. lg_slot (lg_nodes g)" "\<lambda>g. lg_slot (lg_edges g)" list_graph_ok
  for directed
proof unfold_locales
  let ?G = "list_graph_ops directed :: ('e list_graph, 'e) graph_ops"
  fix g g' :: "'e list_graph" and a x y k w u z and e :: "'e edge_slot"
  note slot = lg_slot_append lg_slot_update
  show "list_graph_ok (go_default ?G) \<and> lg_slot (lg_nodes (go_default ?G)) = Map.empty \<and>
      lg_slot (lg_edges (go_default ?G)) = Map.empty"
    by (auto simp: list_graph_ops_def list_graph_ok_def lg_slot_def)
  show "(y, w) \<in> set (go_edges ?G g x) \<longleftrightarrow>
      (\<exists>k e. lg_slot (lg_edges g) k = Some e \<and> joins (go_directed ?G) x y e \<and> snd (snd e) = w)"
    by (simp only: list_graph_ops_def graph_ops.simps set_map_filter lg_other_Some slot_ex)
  show "length (go_edges ?G g x) = card {k. \<exists>e y. lg_slot (lg_edges g) k = Some e \<and> joins (go_directed ?G) x y e}"
  proof -
    have "{k. k < length (lg_edges g) \<and> lg_other directed x (lg_edges g ! k) \<noteq> None} =
        {k. \<exists>e y. lg_slot (lg_edges g) k = Some e \<and> joins directed x y e}"
      unfolding lg_other_ne by (auto simp: lg_slot_def split: if_splits)
    then show ?thesis by (simp add: list_graph_ops_def length_map_filter)
  qed
  show "(y, w) \<in> set (go_edges_in ?G g x) \<longleftrightarrow>
      (\<exists>k e. lg_slot (lg_edges g) k = Some e \<and> joins (go_directed ?G) y x e \<and> snd (snd e) = w)"
  proof -
    have "lg_other directed x (lg_turned slot) = Some (y, w) \<longleftrightarrow>
        (\<exists>e. slot = Some e \<and> joins directed y x e \<and> snd (snd e) = w)" for slot
      by (cases slot) (auto simp: lg_other_def lg_turned_def joins_def split: if_splits)
    then show ?thesis by (simp only: list_graph_ops_def graph_ops.simps set_map_filter slot_ex)
  qed
  show "go_find_edge ?G g x y = Some k \<Longrightarrow> \<exists>e. lg_slot (lg_edges g) k = Some e \<and> joins (go_directed ?G) x y e"
    by (auto simp: list_graph_ops_def find_Some_iff lg_slot_def split: option.splits)
  show "go_find_edge ?G g x y = None \<Longrightarrow> lg_slot (lg_edges g) k = Some e \<Longrightarrow> \<not> joins (go_directed ?G) x y e"
    by (cases e) (auto simp: list_graph_ops_def find_None_iff lg_slot_def split: option.splits if_splits)
  show "distinct (go_node_indices ?G g) \<and> set (go_node_indices ?G g) = dom (lg_slot (lg_nodes g))"
    "distinct (go_edge_indices ?G g) \<and> set (go_edge_indices ?G g) = dom (lg_slot (lg_edges g))"
    by (simp_all add: list_graph_ops_def lg_live)
  show "go_endpoints ?G g k = map_option (\<lambda>(x, y, w). (x, y)) (lg_slot (lg_edges g) k)"
    "go_weight ?G g k = map_option (snd \<circ> snd) (lg_slot (lg_edges g) k)"
    by (simp_all add: list_graph_ops_def)
  show "lg_slot (lg_nodes g) x = Some a \<Longrightarrow> go_node ?G g x = a" by (simp add: list_graph_ops_def)
  show "finite (dom (lg_slot (lg_edges g)))"
    by (rule finite_subset [of _ "{..<length (lg_edges g)}"]) (auto dest: lg_slot_Some)
  assume ok: "list_graph_ok g"
  show "lg_slot (lg_edges g) k = Some (x, y, w) \<Longrightarrow> x \<in> dom (lg_slot (lg_nodes g)) \<and> y \<in> dom (lg_slot (lg_nodes g))"
    by (rule list_graph_okD [OF ok])
  let ?nodes = "\<lambda>g :: 'e list_graph. lg_slot (lg_nodes g)" and ?edges = "\<lambda>g :: 'e list_graph. lg_slot (lg_edges g)"
  show "go_add_node ?G a g = (x, g') \<Longrightarrow>
      list_graph_ok g' \<and> ?nodes g x = None \<and> ?nodes g' = (?nodes g)(x \<mapsto> a) \<and> ?edges g' = ?edges g"
  proof -
    assume "go_add_node ?G a g = (x, g')"
    then have "x = length (lg_nodes g)" and views: "?nodes g' = (?nodes g)(x \<mapsto> a)" "?edges g' = ?edges g"
      by (auto simp: list_graph_ops_def slot)
    moreover have "list_graph_ok g'"
      by (rule list_graph_okI) (use list_graph_okD [OF ok] in \<open>simp add: views\<close>)
    ultimately show ?thesis by (simp add: lg_slot_def)
  qed
  show "x \<in> dom (?nodes g) \<Longrightarrow> y \<in> dom (?nodes g) \<Longrightarrow>
      list_graph_ok (go_add_edge ?G x y w g) \<and> ?nodes (go_add_edge ?G x y w g) = ?nodes g \<and>
      (\<exists>k. ?edges g k = None \<and> ?edges (go_add_edge ?G x y w g) = (?edges g)(k \<mapsto> (x, y, w)))"
  proof -
    assume xy: "x \<in> dom (?nodes g)" "y \<in> dom (?nodes g)"
    let ?g = "go_add_edge ?G x y w g" and ?k = "length (lg_edges g)"
    have views: "?nodes ?g = ?nodes g" "?edges ?g = (?edges g)(?k \<mapsto> (x, y, w))"
      by (simp_all add: list_graph_ops_def slot)
    have "list_graph_ok ?g"
    proof (rule list_graph_okI)
      fix j y' z' u assume "?edges ?g j = Some (y', z', u)"
      with xy list_graph_okD [OF ok, of j y' z' u] show "y' \<in> dom (?nodes ?g) \<and> z' \<in> dom (?nodes ?g)"
        unfolding views by (auto split: if_splits)
    qed
    moreover have "?edges g ?k = None" by (simp add: lg_slot_def)
    ultimately show ?thesis using views by blast
  qed
  show "?edges g k = Some (x, y, u) \<Longrightarrow>
      list_graph_ok (go_set_weight ?G k w g) \<and> ?nodes (go_set_weight ?G k w g) = ?nodes g \<and>
      ?edges (go_set_weight ?G k w g) = (?edges g)(k \<mapsto> (x, y, w))"
  proof -
    assume k: "?edges g k = Some (x, y, u)"
    let ?g = "go_set_weight ?G k w g"
    have views: "?nodes ?g = ?nodes g" "?edges ?g = (?edges g)(k \<mapsto> (x, y, w))"
      using k by (simp_all add: list_graph_ops_def lg_slot_update [OF lg_slot_Some])
    have "list_graph_ok ?g"
    proof (rule list_graph_okI)
      fix j y' z' v assume "?edges ?g j = Some (y', z', v)"
      with list_graph_okD [OF ok, of j y' z' v] list_graph_okD [OF ok k]
      show "y' \<in> dom (?nodes ?g) \<and> z' \<in> dom (?nodes ?g)" unfolding views by (auto split: if_splits)
    qed
    with views show ?thesis by blast
  qed
  show "?edges g k = Some e \<Longrightarrow>
      list_graph_ok (go_remove_edge ?G k g) \<and> ?nodes (go_remove_edge ?G k g) = ?nodes g \<and>
      ?edges (go_remove_edge ?G k g) = (?edges g)(k := None)"
  proof -
    assume k: "?edges g k = Some e"
    let ?g = "go_remove_edge ?G k g"
    have views: "?nodes ?g = ?nodes g" "?edges ?g = (?edges g)(k := None)"
      using k by (simp_all add: list_graph_ops_def lg_slot_update [OF lg_slot_Some])
    have "list_graph_ok ?g"
    proof (rule list_graph_okI)
      fix j y' z' v assume "?edges ?g j = Some (y', z', v)"
      with list_graph_okD [OF ok, of j y' z' v] show "y' \<in> dom (?nodes ?g) \<and> z' \<in> dom (?nodes ?g)"
        unfolding views by (auto split: if_splits)
    qed
    with views show ?thesis by blast
  qed
  show "x \<in> dom (?nodes g) \<Longrightarrow>
      list_graph_ok (go_remove_node ?G x g) \<and> ?nodes (go_remove_node ?G x g) = (?nodes g)(x := None) \<and>
      ?edges (go_remove_node ?G x g) = (\<lambda>k. case ?edges g k of
        Some (y, z, w) \<Rightarrow> if y = x \<or> z = x then None else Some (y, z, w) | None \<Rightarrow> None)"
  proof -
    assume x: "x \<in> dom (?nodes g)"
    let ?g = "go_remove_node ?G x g"
    have views: "?nodes ?g = (?nodes g)(x := None)" "?edges ?g = (\<lambda>k. case ?edges g k of
        Some (y, z, w) \<Rightarrow> if y = x \<or> z = x then None else Some (y, z, w) | None \<Rightarrow> None)"
      using x by (auto simp: list_graph_ops_def lg_slot_update [OF lg_slot_Some]) (auto simp: lg_slot_def)
    have "list_graph_ok ?g"
    proof (rule list_graph_okI)
      fix j y' z' v assume "?edges ?g j = Some (y', z', v)"
      with list_graph_okD [OF ok, of j y' z' v] show "y' \<in> dom (?nodes ?g) \<and> z' \<in> dom (?nodes ?g)"
        unfolding views by (auto split: if_splits option.splits)
    qed
    with views show ?thesis by blast
  qed
qed

subsection \<open>The network\<close>

text \<open>\<open>index\<close> is the \<open>HashMap\<close>; the order of its entries is never observed, every use of
  \<open>keys()\<close> sorts them.\<close>

record 'gr network =
  nw_graph :: 'gr
  nw_index :: "(agent_id \<times> nat) list"

definition network_empty :: "('gr, 'e) graph_ops \<Rightarrow> 'gr network" where
  "network_empty G = \<lparr>nw_graph = go_default G, nw_index = []\<rparr>"

definition node_of :: "'gr network \<Rightarrow> agent_id \<Rightarrow> nat option" where
  "node_of net = map_of (nw_index net)"

definition network_add_node :: "('gr, 'e) graph_ops \<Rightarrow> agent_id \<Rightarrow> 'gr network \<Rightarrow> 'gr network" where
  "network_add_node G a net =
     (case node_of net a of
        Some _ \<Rightarrow> net
      | None \<Rightarrow> (let (x, g) = go_add_node G a (nw_graph net)
                in \<lparr>nw_graph = g, nw_index = (a, x) # nw_index net\<rparr>))"

text \<open>\<open>if let (Some(&na), Some(&nb)) = (self.index.get(&a), self.index.get(&b))\<close>.\<close>

definition both_nodes :: "'gr network \<Rightarrow> agent_id \<Rightarrow> agent_id \<Rightarrow> (nat \<times> nat) option" where
  "both_nodes net a b =
     (case (node_of net a, node_of net b) of (Some x, Some y) \<Rightarrow> Some (x, y) | _ \<Rightarrow> None)"

definition add_edge_weighted :: "('gr, 'e) graph_ops \<Rightarrow> agent_id \<Rightarrow> agent_id \<Rightarrow> 'e \<Rightarrow> 'gr network \<Rightarrow> 'gr network" where
  "add_edge_weighted G a b w net =
     (case both_nodes net a b of
        None \<Rightarrow> net
      | Some (x, y) \<Rightarrow>
          (case go_find_edge G (nw_graph net) x y of
             Some k \<Rightarrow> net\<lparr>nw_graph := go_set_weight G k w (nw_graph net)\<rparr>
           | None \<Rightarrow> net\<lparr>nw_graph := go_add_edge G x y w (nw_graph net)\<rparr>))"

definition add_edge :: "('gr, unit) graph_ops \<Rightarrow> agent_id \<Rightarrow> agent_id \<Rightarrow> 'gr network \<Rightarrow> 'gr network" where
  "add_edge G a b net =
     (case both_nodes net a b of
        None \<Rightarrow> net
      | Some (x, y) \<Rightarrow>
          if go_find_edge G (nw_graph net) x y = None
          then net\<lparr>nw_graph := go_add_edge G x y () (nw_graph net)\<rparr> else net)"

definition network_remove_edge :: "('gr, 'e) graph_ops \<Rightarrow> agent_id \<Rightarrow> agent_id \<Rightarrow> 'gr network \<Rightarrow> bool \<times> 'gr network" where
  "network_remove_edge G a b net =
     (case both_nodes net a b of
        None \<Rightarrow> (False, net)
      | Some (x, y) \<Rightarrow>
          (case go_find_edge G (nw_graph net) x y of
             Some k \<Rightarrow> (True, net\<lparr>nw_graph := go_remove_edge G k (nw_graph net)\<rparr>)
           | None \<Rightarrow> (False, net)))"

definition network_remove_node :: "('gr, 'e) graph_ops \<Rightarrow> agent_id \<Rightarrow> 'gr network \<Rightarrow> bool \<times> 'gr network" where
  "network_remove_node G a net =
     (case node_of net a of
        Some x \<Rightarrow> (True, \<lparr>nw_graph = go_remove_node G x (nw_graph net),
                         nw_index = filter (\<lambda>(b, _). b \<noteq> a) (nw_index net)\<rparr>)
      | None \<Rightarrow> (False, net))"

definition edge_weight :: "('gr, 'e) graph_ops \<Rightarrow> agent_id \<Rightarrow> agent_id \<Rightarrow> 'gr network \<Rightarrow> 'e option" where
  "edge_weight G a b net =
     Option.bind (both_nodes net a b) (\<lambda>(x, y).
       Option.bind (go_find_edge G (nw_graph net) x y) (go_weight G (nw_graph net)))"

text \<open>\<open>edge_weight_mut\<close>, as what the caller writes through the reference.\<close>

definition edge_weight_mut :: "('gr, 'e) graph_ops \<Rightarrow> agent_id \<Rightarrow> agent_id \<Rightarrow> ('e \<Rightarrow> 'e) \<Rightarrow> 'gr network \<Rightarrow> 'gr network option" where
  "edge_weight_mut G a b f net =
     Option.bind (both_nodes net a b) (\<lambda>(x, y).
       Option.bind (go_find_edge G (nw_graph net) x y) (\<lambda>k.
         map_option (\<lambda>w. net\<lparr>nw_graph := go_set_weight G k (f w) (nw_graph net)\<rparr>) (go_weight G (nw_graph net) k)))"

definition network_neighbors_into :: "('gr, 'e) graph_ops \<Rightarrow> agent_id \<Rightarrow> agent_id list \<Rightarrow> 'gr network \<Rightarrow> agent_id list" where
  "network_neighbors_into G a out net =
     (let out = [] in case node_of net a of
        Some x \<Rightarrow> out @ map (go_node G (nw_graph net)) (go_neighbors G (nw_graph net) x)
      | None \<Rightarrow> out)"

definition network_neighbors :: "('gr, 'e) graph_ops \<Rightarrow> agent_id \<Rightarrow> 'gr network \<Rightarrow> agent_id list" where
  "network_neighbors G a net = network_neighbors_into G a [] net"

definition network_degree :: "('gr, 'e) graph_ops \<Rightarrow> agent_id \<Rightarrow> 'gr network \<Rightarrow> nat" where
  "network_degree G a net =
     (case node_of net a of Some x \<Rightarrow> length (go_neighbors G (nw_graph net) x) | None \<Rightarrow> 0)"

definition network_contains :: "agent_id \<Rightarrow> 'gr network \<Rightarrow> bool" where
  "network_contains a net \<longleftrightarrow> node_of net a \<noteq> None"

text \<open>The counts of the library's graph are the numbers of its indices.\<close>

definition network_node_count :: "('gr, 'e) graph_ops \<Rightarrow> 'gr network \<Rightarrow> nat" where
  "network_node_count G net = length (go_node_indices G (nw_graph net))"

definition network_edge_count :: "('gr, 'e) graph_ops \<Rightarrow> 'gr network \<Rightarrow> nat" where
  "network_edge_count G net = length (go_edge_indices G (nw_graph net))"

definition canonical_pair :: "bool \<Rightarrow> agent_id \<times> agent_id \<Rightarrow> agent_id \<times> agent_id" where
  "canonical_pair directed ab = (let (a, b) = ab in if \<not> directed \<and> a > b then (b, a) else (a, b))"

definition canonical_endpoints :: "('gr, 'e) graph_ops \<Rightarrow> 'gr network \<Rightarrow> (agent_id \<times> agent_id) list" where
  "canonical_endpoints G net =
     List.map_filter (\<lambda>k. map_option (\<lambda>(x, y).
         canonical_pair (go_directed G) (go_node G (nw_graph net) x, go_node G (nw_graph net) y))
       (go_endpoints G (nw_graph net) k)) (go_edge_indices G (nw_graph net))"

definition network_edges :: "('gr, 'e) graph_ops \<Rightarrow> 'gr network \<Rightarrow> (agent_id \<times> agent_id) list" where
  "network_edges = canonical_endpoints"

text \<open>The directed networks' queries by direction.\<close>

datatype direction = Outgoing | Incoming

definition go_edges_directed :: "('gr, 'e) graph_ops \<Rightarrow> direction \<Rightarrow> 'gr \<Rightarrow> nat \<Rightarrow> (nat \<times> 'e) list" where
  "go_edges_directed G dir = (case dir of Outgoing \<Rightarrow> go_edges G | Incoming \<Rightarrow> go_edges_in G)"

definition neighbors_directed :: "('gr, 'e) graph_ops \<Rightarrow> agent_id \<Rightarrow> direction \<Rightarrow> 'gr network \<Rightarrow> agent_id list" where
  "neighbors_directed G a dir net =
     (case node_of net a of
        Some x \<Rightarrow> map (\<lambda>(y, _). go_node G (nw_graph net) y) (go_edges_directed G dir (nw_graph net) x) | None \<Rightarrow> [])"

definition out_neighbors :: "('gr, 'e) graph_ops \<Rightarrow> agent_id \<Rightarrow> 'gr network \<Rightarrow> agent_id list" where
  "out_neighbors G a net = neighbors_directed G a Outgoing net"

definition in_neighbors :: "('gr, 'e) graph_ops \<Rightarrow> agent_id \<Rightarrow> 'gr network \<Rightarrow> agent_id list" where
  "in_neighbors G a net = neighbors_directed G a Incoming net"

definition out_degree :: "('gr, 'e) graph_ops \<Rightarrow> agent_id \<Rightarrow> 'gr network \<Rightarrow> nat" where
  "out_degree G a net =
     (case node_of net a of Some x \<Rightarrow> length (go_edges_directed G Outgoing (nw_graph net) x) | None \<Rightarrow> 0)"

definition in_degree :: "('gr, 'e) graph_ops \<Rightarrow> agent_id \<Rightarrow> 'gr network \<Rightarrow> nat" where
  "in_degree G a net =
     (case node_of net a of Some x \<Rightarrow> length (go_edges_directed G Incoming (nw_graph net) x) | None \<Rightarrow> 0)"

definition weighted_neighbors_directed ::
    "('gr, 'e) graph_ops \<Rightarrow> agent_id \<Rightarrow> direction \<Rightarrow> 'gr network \<Rightarrow> (agent_id \<times> 'e) list" where
  "weighted_neighbors_directed G a dir net =
     (case node_of net a of
        Some x \<Rightarrow> map (\<lambda>(y, w). (go_node G (nw_graph net) y, w)) (go_edges_directed G dir (nw_graph net) x) | None \<Rightarrow> [])"

definition weighted_neighbors :: "('gr, 'e) graph_ops \<Rightarrow> agent_id \<Rightarrow> 'gr network \<Rightarrow> (agent_id \<times> 'e) list" where
  "weighted_neighbors G a net =
     (case node_of net a of
        Some x \<Rightarrow> map (\<lambda>(y, w). (go_node G (nw_graph net) y, w)) (go_edges G (nw_graph net) x) | None \<Rightarrow> [])"

definition weighted_edges :: "('gr, 'e) graph_ops \<Rightarrow> 'gr network \<Rightarrow> (agent_id \<times> agent_id \<times> 'e) list" where
  "weighted_edges G net =
     List.map_filter (\<lambda>k. Option.bind (go_endpoints G (nw_graph net) k) (\<lambda>(x, y).
         map_option (\<lambda>w.
             let (a, b) = canonical_pair (go_directed G) (go_node G (nw_graph net) x, go_node G (nw_graph net) y)
             in (a, b, w)) (go_weight G (nw_graph net) k)))
       (go_edge_indices G (nw_graph net))"

subsection \<open>The serialised form\<close>

record net_data =
  nd_nodes :: "agent_id list"
  nd_edges :: "(agent_id \<times> agent_id) list"

definition network_serialize :: "('gr, unit) graph_ops \<Rightarrow> 'gr network \<Rightarrow> net_data" where
  "network_serialize G net =
     \<lparr>nd_nodes = sort (map fst (nw_index net)), nd_edges = sort (canonical_endpoints G net)\<rparr>"

definition network_deserialize :: "('gr, unit) graph_ops \<Rightarrow> net_data \<Rightarrow> 'gr network" where
  "network_deserialize G data =
     fold (\<lambda>(a, b). add_edge G a b) (nd_edges data) (fold (network_add_node G) (nd_nodes data) (network_empty G))"

text \<open>The weighted form lists the edges with their weights, in the order of the slots.\<close>

record 'e weighted_net_data =
  wd_nodes :: "agent_id list"
  wd_edges :: "(agent_id \<times> agent_id \<times> 'e) list"

definition to_weighted_json :: "('gr, 'e) graph_ops \<Rightarrow> 'gr network \<Rightarrow> 'e weighted_net_data" where
  "to_weighted_json G net =
     (let g = nw_graph net
      in \<lparr>wd_nodes = sort (map fst (nw_index net)),
          wd_edges = List.map_filter (\<lambda>k. Option.bind (go_endpoints G g k) (\<lambda>(x, y).
              map_option (\<lambda>w. (go_node G g x, go_node G g y, w)) (go_weight G g k))) (go_edge_indices G g)\<rparr>)"

definition from_weighted_json :: "('gr, 'e) graph_ops \<Rightarrow> 'e weighted_net_data \<Rightarrow> 'gr network" where
  "from_weighted_json G data =
     fold (\<lambda>(a, b, w). add_edge_weighted G a b w) (wd_edges data)
       (fold (network_add_node G) (wd_nodes data) (network_empty G))"

definition is_directed :: "('gr, 'e) graph_ops \<Rightarrow> 'gr network \<Rightarrow> bool" where
  "is_directed G net = go_directed G"

definition weighted_out_neighbors :: "('gr, 'e) graph_ops \<Rightarrow> agent_id \<Rightarrow> 'gr network \<Rightarrow> (agent_id \<times> 'e) list" where
  "weighted_out_neighbors G a net = weighted_neighbors_directed G a Outgoing net"

definition weighted_in_neighbors :: "('gr, 'e) graph_ops \<Rightarrow> agent_id \<Rightarrow> 'gr network \<Rightarrow> (agent_id \<times> 'e) list" where
  "weighted_in_neighbors G a net = weighted_neighbors_directed G a Incoming net"

end
