(* ===== verification/Network_Spec.thy ===== *)
theory Network_Spec
  imports Network
begin

section \<open>A network is a labelled graph over agents\<close>

text \<open>
  The abstract state is a set of agents and a set of labelled arcs, symmetric when the network is
  undirected. \<open>net_ok\<close> is the invariant of the wrapper: the index and the live node slots are
  inverse to each other, and no two live edges join the same ordered pair. Every operation keeps it
  and is simulated by \<open>spec_apply\<close>.
\<close>

definition same_ends :: "bool \<Rightarrow> 'v \<Rightarrow> 'v \<Rightarrow> 'v \<Rightarrow> 'v \<Rightarrow> bool" where
  "same_ends directed x y p q \<longleftrightarrow> (p, q) = (x, y) \<or> \<not> directed \<and> (p, q) = (y, x)"

definition drop_arc :: "bool \<Rightarrow> 'v \<Rightarrow> 'v \<Rightarrow> ('v \<times> 'v \<times> 'e) set \<Rightarrow> ('v \<times> 'v \<times> 'e) set" where
  "drop_arc directed x y A = {(p, q, u). (p, q, u) \<in> A \<and> \<not> same_ends directed x y p q}"

definition put_arc :: "bool \<Rightarrow> 'v \<Rightarrow> 'v \<Rightarrow> 'e \<Rightarrow> ('v \<times> 'v \<times> 'e) set \<Rightarrow> ('v \<times> 'v \<times> 'e) set" where
  "put_arc directed x y w A = drop_arc directed x y A \<union> {(p, q, u). same_ends directed x y p q \<and> u = w}"

definition without_node :: "'v \<Rightarrow> ('v \<times> 'v \<times> 'e) set \<Rightarrow> ('v \<times> 'v \<times> 'e) set" where
  "without_node x A = {(p, q, u). (p, q, u) \<in> A \<and> p \<noteq> x \<and> q \<noteq> x}"

datatype 'e net_op =
    AddNode agent_id
  | AddEdge agent_id agent_id 'e
  | RemoveEdge agent_id agent_id
  | RemoveNode agent_id

fun spec_apply :: "bool \<Rightarrow> 'e net_op \<Rightarrow> agent_id set \<times> (agent_id \<times> agent_id \<times> 'e) set \<Rightarrow>
    agent_id set \<times> (agent_id \<times> agent_id \<times> 'e) set" where
  "spec_apply directed (AddNode a) (N, A) = (insert a N, A)"
| "spec_apply directed (AddEdge a b w) (N, A) =
     (N, if a \<in> N \<and> b \<in> N then put_arc directed a b w A else A)"
| "spec_apply directed (RemoveEdge a b) (N, A) = (N, drop_arc directed a b A)"
| "spec_apply directed (RemoveNode a) (N, A) = (N - {a}, without_node a A)"

fun net_apply :: "('gr, 'e) graph_ops \<Rightarrow> 'e net_op \<Rightarrow> 'gr network \<Rightarrow> 'gr network" where
  "net_apply G (AddNode a) net = network_add_node G a net"
| "net_apply G (AddEdge a b w) net = add_edge_weighted G a b w net"
| "net_apply G (RemoveEdge a b) net = snd (network_remove_edge G a b net)"
| "net_apply G (RemoveNode a) net = snd (network_remove_node G a net)"

definition simple_edges :: "bool \<Rightarrow> (nat \<Rightarrow> 'e edge_slot option) \<Rightarrow> bool" where
  "simple_edges directed es \<longleftrightarrow> (\<forall>k k' p q w p' q' w'. es k = Some (p, q, w) \<longrightarrow>
     es k' = Some (p', q', w') \<longrightarrow> same_ends directed p q p' q' \<longrightarrow> k = k')"

definition slot_arcs :: "bool \<Rightarrow> (nat \<Rightarrow> 'e edge_slot option) \<Rightarrow> (nat \<times> nat \<times> 'e) set" where
  "slot_arcs directed es = {(x, y, w). \<exists>k e. es k = Some e \<and> joins directed x y e \<and> snd (snd e) = w}"

definition net_ok ::
    "('gr, 'e) graph_ops \<Rightarrow> ('gr \<Rightarrow> nat \<Rightarrow> agent_id option) \<Rightarrow> ('gr \<Rightarrow> nat \<Rightarrow> 'e edge_slot option) \<Rightarrow>
     ('gr \<Rightarrow> bool) \<Rightarrow> 'gr network \<Rightarrow> bool" where
  "net_ok G vn ve ok net \<longleftrightarrow>
     ok (nw_graph net) \<and> distinct (map fst (nw_index net)) \<and>
     (\<forall>a x. node_of net a = Some x \<longleftrightarrow> vn (nw_graph net) x = Some a) \<and>
     simple_edges (go_directed G) (ve (nw_graph net))"

definition net_nodes :: "'gr network \<Rightarrow> agent_id set" where
  "net_nodes net = dom (node_of net)"

definition net_arcs ::
    "('gr, 'e) graph_ops \<Rightarrow> ('gr \<Rightarrow> nat \<Rightarrow> 'e edge_slot option) \<Rightarrow> 'gr network \<Rightarrow> (agent_id \<times> agent_id \<times> 'e) set" where
  "net_arcs G ve net = {(a, b, w). \<exists>x y. node_of net a = Some x \<and> node_of net b = Some y \<and>
     (x, y, w) \<in> slot_arcs (go_directed G) (ve (nw_graph net))}"

subsection \<open>Edge slots\<close>

lemma joins_slot [simp]: "joins directed x y (p, q, w) \<longleftrightarrow> same_ends directed p q x y"
  by (auto simp: joins_def same_ends_def)

lemma same_ends_refl [simp]: "same_ends directed x y x y"
  by (simp add: same_ends_def)

lemma same_ends_flip: "same_ends directed x y p q \<Longrightarrow> same_ends directed p q x y"
  by (auto simp: same_ends_def)

lemma same_ends_trans: "same_ends directed x y p q \<Longrightarrow> same_ends directed p q r s \<Longrightarrow> same_ends directed x y r s"
  by (auto simp: same_ends_def)

lemma slot_arcs_iff: "(x, y, w) \<in> slot_arcs directed es \<longleftrightarrow> (\<exists>k p q. es k = Some (p, q, w) \<and> same_ends directed p q x y)"
  by (auto simp: slot_arcs_def)

lemma simple_edgesD:
  "simple_edges directed es \<Longrightarrow> es k = Some (p, q, w) \<Longrightarrow> es k' = Some (p', q', w') \<Longrightarrow>
   same_ends directed p q p' q' \<Longrightarrow> k = k'"
  unfolding simple_edges_def by blast

lemma simple_edges_mono:
  assumes "simple_edges directed es" "\<And>k e. es' k = Some e \<Longrightarrow> es k = Some e"
  shows "simple_edges directed es'"
  unfolding simple_edges_def using assms(2) simple_edgesD [OF assms(1)] by blast

text \<open>Writing the one slot whose ends join \<open>x\<close> and \<open>y\<close>, vacant or not.\<close>

lemma slot_arcs_put:
  assumes only: "\<And>j p q u. es j = Some (p, q, u) \<Longrightarrow> same_ends directed p q x y \<Longrightarrow> j = k"
    and old: "\<And>p q u. es k = Some (p, q, u) \<Longrightarrow> same_ends directed p q x y"
    and ends: "same_ends directed x' y' x y"
  shows "slot_arcs directed (es(k \<mapsto> (x', y', w))) = put_arc directed x y w (slot_arcs directed es)"
proof -
  have "(p, q, u) \<in> slot_arcs directed (es(k \<mapsto> (x', y', w))) \<longleftrightarrow>
      (p, q, u) \<in> put_arc directed x y w (slot_arcs directed es)" for p q u
  proof (cases "same_ends directed x y p q")
    case True
    have "\<nexists>j r s. j \<noteq> k \<and> es j = Some (r, s, u) \<and> same_ends directed r s p q"
      using only same_ends_trans [OF _ same_ends_flip [OF True]] by blast
    then have "(p, q, u) \<in> slot_arcs directed (es(k \<mapsto> (x', y', w))) \<longleftrightarrow> u = w"
      using same_ends_trans [OF ends True] by (auto simp: slot_arcs_iff)
    then show ?thesis using True by (simp add: put_arc_def drop_arc_def)
  next
    case False
    then have "\<not> same_ends directed x' y' p q" using same_ends_trans [OF same_ends_flip [OF ends]] by blast
    moreover have "\<nexists>r s. es k = Some (r, s, u) \<and> same_ends directed r s p q"
      using False old same_ends_trans same_ends_flip by metis
    ultimately have "(p, q, u) \<in> slot_arcs directed (es(k \<mapsto> (x', y', w))) \<longleftrightarrow> (p, q, u) \<in> slot_arcs directed es"
      by (simp add: slot_arcs_iff) (metis option.inject prod.inject)
    then show ?thesis using False by (simp add: put_arc_def drop_arc_def)
  qed
  then show ?thesis by auto
qed

lemma simple_edges_put:
  assumes "simple_edges directed es"
    and only: "\<And>j p q u. es j = Some (p, q, u) \<Longrightarrow> same_ends directed p q x y \<Longrightarrow> j = k"
    and ends: "same_ends directed x' y' x y"
  shows "simple_edges directed (es(k \<mapsto> (x', y', w)))"
proof -
  have other: "j = k" if "es j = Some (p, q, u)" "same_ends directed p q x' y'" for j p q u
    using only [OF that(1) same_ends_trans [OF that(2) ends]] .
  show ?thesis
    unfolding simple_edges_def
  proof (intro allI impI)
    fix i j p q u r s v
    assume i: "(es(k \<mapsto> (x', y', w))) i = Some (p, q, u)" and j: "(es(k \<mapsto> (x', y', w))) j = Some (r, s, v)"
      and same: "same_ends directed p q r s"
    consider "i = k" "j = k" | "i = k" "j \<noteq> k" | "i \<noteq> k" "j = k" | "i \<noteq> k" "j \<noteq> k" by blast
    then show "i = j"
    proof cases
      case 2
      then show ?thesis using i j other [of j r s v] same_ends_flip [OF same] by simp
    next
      case 3
      then show ?thesis using i j other [of i p q u] same by simp
    next
      case 4
      then show ?thesis using i j simple_edgesD [OF assms(1) _ _ same] by simp
    qed simp
  qed
qed

lemma slot_arcs_drop:
  assumes "simple_edges directed es" "es k = Some (p, q, w)" "same_ends directed p q x y"
  shows "slot_arcs directed (es(k := None)) = drop_arc directed x y (slot_arcs directed es)"
proof -
  have "(\<exists>j r s. (es(k := None)) j = Some (r, s, u) \<and> same_ends directed r s a b) \<longleftrightarrow>
      (\<exists>j r s. es j = Some (r, s, u) \<and> same_ends directed r s a b) \<and> \<not> same_ends directed x y a b" for a b u
  proof -
    have "j = k \<longleftrightarrow> same_ends directed x y a b" if "es j = Some (r, s, u)" "same_ends directed r s a b" for j r s
      using that assms simple_edgesD [OF assms(1) that(1) assms(2)] same_ends_trans same_ends_flip
      by (metis option.inject prod.inject)
    then show ?thesis by (simp; blast)
  qed
  then have "(a, b, u) \<in> slot_arcs directed (es(k := None)) \<longleftrightarrow> (a, b, u) \<in> drop_arc directed x y (slot_arcs directed es)"
    for a b u by (simp only: slot_arcs_iff drop_arc_def mem_Collect_eq case_prod_conv)
  then show ?thesis by auto
qed

subsection \<open>From slots to agents\<close>

definition agent_arcs :: "(agent_id \<Rightarrow> nat option) \<Rightarrow> (nat \<times> nat \<times> 'e) set \<Rightarrow> (agent_id \<times> agent_id \<times> 'e) set" where
  "agent_arcs idx S = {(a, b, w). \<exists>x y. idx a = Some x \<and> idx b = Some y \<and> (x, y, w) \<in> S}"

definition one_slot_each :: "(agent_id \<Rightarrow> nat option) \<Rightarrow> bool" where
  "one_slot_each idx \<longleftrightarrow> (\<forall>a b x. idx a = Some x \<longrightarrow> idx b = Some x \<longrightarrow> a = b)"

lemma net_arcs_slots: "net_arcs G ve net = agent_arcs (node_of net) (slot_arcs (go_directed G) (ve (nw_graph net)))"
  by (simp add: net_arcs_def agent_arcs_def)

lemma agent_arcs_iff:
  "idx a = Some x \<Longrightarrow> idx b = Some y \<Longrightarrow> (a, b, w) \<in> agent_arcs idx S \<longleftrightarrow> (x, y, w) \<in> S"
  by (simp add: agent_arcs_def)

lemma same_ends_slots:
  "one_slot_each idx \<Longrightarrow> idx a = Some x \<Longrightarrow> idx b = Some y \<Longrightarrow> idx c = Some p \<Longrightarrow> idx d = Some q \<Longrightarrow>
   same_ends directed x y p q \<longleftrightarrow> same_ends directed a b c d"
  unfolding same_ends_def one_slot_each_def by (metis option.inject prod.inject)

lemma agent_arcs_drop:
  assumes "one_slot_each idx" "idx a = Some x" "idx b = Some y"
  shows "agent_arcs idx (drop_arc directed x y S) = drop_arc directed a b (agent_arcs idx S)"
  using same_ends_slots [OF assms] by (auto simp: agent_arcs_def drop_arc_def)

lemma agent_arcs_Un: "agent_arcs idx (A \<union> B) = agent_arcs idx A \<union> agent_arcs idx B"
  by (auto simp: agent_arcs_def)

lemma agent_arcs_put:
  assumes "one_slot_each idx" "idx a = Some x" "idx b = Some y"
  shows "agent_arcs idx (put_arc directed x y w S) = put_arc directed a b w (agent_arcs idx S)"
proof -
  have "agent_arcs idx {(p, q, u). same_ends directed x y p q \<and> u = w} = {(p, q, u). same_ends directed a b p q \<and> u = w}"
    using same_ends_slots [OF assms] assms(2,3) by (auto simp: agent_arcs_def) (auto simp: same_ends_def)
  then show ?thesis by (simp add: put_arc_def agent_arcs_Un agent_arcs_drop [OF assms])
qed

lemma both_nodes_Some: "both_nodes net a b = Some (x, y) \<longleftrightarrow> node_of net a = Some x \<and> node_of net b = Some y"
  by (simp add: both_nodes_def split: option.split)

lemma both_nodes_None: "both_nodes net a b = None \<longleftrightarrow> a \<notin> net_nodes net \<or> b \<notin> net_nodes net"
  by (auto simp: both_nodes_def net_nodes_def split: option.splits)

lemma net_okD:
  assumes "net_ok G vn ve ok net"
  shows "ok (nw_graph net)" "node_of net a = Some x \<longleftrightarrow> vn (nw_graph net) x = Some a"
    "one_slot_each (node_of net)" "simple_edges (go_directed G) (ve (nw_graph net))" "distinct (map fst (nw_index net))"
  using assms by (auto simp: net_ok_def one_slot_each_def)

context stable_graph
begin

lemma find_edge_Some:
  assumes "ok g" "simple_edges (go_directed G) (ve g)"
  shows "go_find_edge G g x y = Some k \<longleftrightarrow> (\<exists>p q w. ve g k = Some (p, q, w) \<and> same_ends (go_directed G) p q x y)"
proof
  assume "go_find_edge G g x y = Some k"
  then obtain e where "ve g k = Some e" "joins (go_directed G) x y e" using find_edge [OF assms(1)] by blast
  then show "\<exists>p q w. ve g k = Some (p, q, w) \<and> same_ends (go_directed G) p q x y"
    by (cases e) (auto intro: same_ends_flip)
next
  assume "\<exists>p q w. ve g k = Some (p, q, w) \<and> same_ends (go_directed G) p q x y"
  then obtain p q w where k: "ve g k = Some (p, q, w)" "same_ends (go_directed G) p q x y" by blast
  show "go_find_edge G g x y = Some k"
  proof (cases "go_find_edge G g x y")
    case None
    from find_edge_None [OF assms(1) this k(1)] k(2) same_ends_flip show ?thesis by fastforce
  next
    case (Some j)
    then obtain e where e: "ve g j = Some e" "joins (go_directed G) x y e" using find_edge [OF assms(1)] by blast
    obtain r s u where "e = (r, s, u)" by (cases e)
    with e have j: "ve g j = Some (r, s, u)" "same_ends (go_directed G) r s x y" by (auto intro: same_ends_flip)
    have "j = k" using simple_edgesD [OF assms(2) j(1) k(1) same_ends_trans [OF j(2) same_ends_flip [OF k(2)]]] .
    with Some show ?thesis by simp
  qed
qed

lemma add_edge_weighted_refines:
  assumes "net_ok G vn ve ok net"
  shows "net_ok G vn ve ok (add_edge_weighted G a b w net) \<and>
    (net_nodes (add_edge_weighted G a b w net), net_arcs G ve (add_edge_weighted G a b w net)) =
      spec_apply (go_directed G) (AddEdge a b w) (net_nodes net, net_arcs G ve net)"
proof (cases "both_nodes net a b")
  case None
  then show ?thesis using assms both_nodes_None [of net a b] by (auto simp: add_edge_weighted_def)
next
  case (Some xy)
  obtain x y where xy: "node_of net a = Some x" "node_of net b = Some y" "xy = (x, y)"
    using Some by (cases xy) (simp add: both_nodes_Some)
  let ?g = "nw_graph net" and ?d = "go_directed G"
  note ok = net_okD [OF assms]
  have found: "go_find_edge G ?g x y = Some k \<longleftrightarrow> (\<exists>p q w. ve ?g k = Some (p, q, w) \<and> same_ends ?d p q x y)" for k
    by (rule find_edge_Some [OF ok(1,4)])
  obtain g' k x' y' where step: "add_edge_weighted G a b w net = net\<lparr>nw_graph := g'\<rparr>" "ok g'" "vn g' = vn ?g"
      "ve g' = (ve ?g)(k \<mapsto> (x', y', w))" "same_ends ?d x' y' x y"
    and slot: "\<And>j p q u. ve ?g j = Some (p, q, u) \<Longrightarrow> same_ends ?d p q x y \<Longrightarrow> j = k"
      "\<And>p q u. ve ?g k = Some (p, q, u) \<Longrightarrow> same_ends ?d p q x y"
  proof (cases "go_find_edge G ?g x y")
    case None
    then have "\<not> same_ends ?d p q x y" if "ve ?g j = Some (p, q, u)" for j p q u using found that by auto
    moreover obtain k where "ve ?g k = None" "ve (go_add_edge G x y w ?g) = (ve ?g)(k \<mapsto> (x, y, w))"
        "ok (go_add_edge G x y w ?g)" "vn (go_add_edge G x y w ?g) = vn ?g"
      using add_edge [OF ok(1), of x y w] ok(2) xy by blast
    ultimately show ?thesis
      using that [of "go_add_edge G x y w ?g" k x y] None Some xy(3) by (simp add: add_edge_weighted_def)
  next
    case (Some k)
    then obtain p q u where k: "ve ?g k = Some (p, q, u)" "same_ends ?d p q x y" using found by auto
    have only: "j = k" if "ve ?g j = Some (r, s, v)" "same_ends ?d r s x y" for j r s v
      using simple_edgesD [OF ok(4) that(1) k(1) same_ends_trans [OF that(2) same_ends_flip [OF k(2)]]] .
    have step: "add_edge_weighted G a b w net = net\<lparr>nw_graph := go_set_weight G k w ?g\<rparr>"
      using Some \<open>both_nodes net a b = Some xy\<close> xy(3) by (simp add: add_edge_weighted_def)
    show ?thesis
      by (rule that [OF step _ _ _ k(2) only]) (use set_weight [OF ok(1) k(1), of w] k in auto)
  qed
  have arcs: "slot_arcs ?d (ve g') = put_arc ?d x y w (slot_arcs ?d (ve ?g))"
    unfolding step(4) using slot step(5) by (rule slot_arcs_put)
  have simple: "simple_edges ?d (ve g')"
    unfolding step(4) using ok(4) slot(1) step(5) by (rule simple_edges_put)
  have node: "node_of (net\<lparr>nw_graph := g'\<rparr>) = node_of net" by (rule ext) (simp add: node_of_def)
  have "net_ok G vn ve ok (net\<lparr>nw_graph := g'\<rparr>)"
    using assms step(2,3) simple by (simp add: net_ok_def node)
  moreover have "net_arcs G ve (net\<lparr>nw_graph := g'\<rparr>) = put_arc ?d a b w (net_arcs G ve net)"
    by (simp add: net_arcs_slots node arcs agent_arcs_put [OF ok(3) xy(1,2)])
  moreover have "net_nodes (net\<lparr>nw_graph := g'\<rparr>) = net_nodes net" "a \<in> net_nodes net" "b \<in> net_nodes net"
    using xy by (auto simp: net_nodes_def node)
  ultimately show ?thesis unfolding step(1) by simp
qed

lemma network_add_node_refines:
  assumes "net_ok G vn ve ok net"
  shows "net_ok G vn ve ok (network_add_node G a net) \<and>
    (net_nodes (network_add_node G a net), net_arcs G ve (network_add_node G a net)) =
      spec_apply (go_directed G) (AddNode a) (net_nodes net, net_arcs G ve net)"
proof (cases "node_of net a")
  case (Some x)
  then show ?thesis using assms by (auto simp: network_add_node_def net_nodes_def)
next
  case None
  obtain x g' where add: "go_add_node G a (nw_graph net) = (x, g')" by (metis surj_pair)
  note ok = net_okD [OF assms]
  have g': "ok g'" "vn (nw_graph net) x = None" "vn g' = (vn (nw_graph net))(x \<mapsto> a)" "ve g' = ve (nw_graph net)"
    using add_node [OF ok(1) add] by simp_all
  let ?net = "network_add_node G a net"
  have net: "nw_graph ?net = g'" "nw_index ?net = (a, x) # nw_index net"
    using None add by (simp_all add: network_add_node_def)
  have node: "node_of ?net = (node_of net)(a \<mapsto> x)" by (rule ext) (simp add: node_of_def net)
  have fresh: "node_of net b \<noteq> Some x" for b using ok(2) [of b x] g'(2) by simp
  have "distinct (map fst (nw_index ?net))"
    using ok(5) None by (simp add: net node_of_def map_of_eq_None_iff)
  moreover have "node_of ?net b = Some y \<longleftrightarrow> vn g' y = Some b" for b y
    using ok(2) [of b y] None fresh g'(2,3) ok(2) [of a y] by (auto simp: node)
  ultimately have "net_ok G vn ve ok ?net"
    using ok(4) g'(1,4) by (simp add: net_ok_def net)
  moreover have "net_arcs G ve ?net = net_arcs G ve net"
  proof -
    have "p \<noteq> x \<and> q \<noteq> x" if "(p, q, w) \<in> slot_arcs (go_directed G) (ve (nw_graph net))" for p q w
      using that live [OF ok(1)] g'(2) by (auto simp: slot_arcs_iff same_ends_def)
    then have "(x, q, w) \<notin> slot_arcs (go_directed G) (ve (nw_graph net))"
      "(q, x, w) \<notin> slot_arcs (go_directed G) (ve (nw_graph net))" for q w by blast+
    then show ?thesis
      using None by (auto simp: net_arcs_slots agent_arcs_def net(1) node g'(4) split: if_splits)
  qed
  ultimately show ?thesis by (simp add: net_nodes_def node)
qed

lemma network_remove_edge_refines:
  assumes "net_ok G vn ve ok net"
  shows "net_ok G vn ve ok (snd (network_remove_edge G a b net)) \<and>
    (net_nodes (snd (network_remove_edge G a b net)), net_arcs G ve (snd (network_remove_edge G a b net))) =
      spec_apply (go_directed G) (RemoveEdge a b) (net_nodes net, net_arcs G ve net)"
proof (cases "both_nodes net a b")
  case None
  have "net_arcs G ve net = drop_arc (go_directed G) a b (net_arcs G ve net)"
    using None both_nodes_None [of net a b]
    by (auto simp: net_arcs_slots agent_arcs_def drop_arc_def same_ends_def net_nodes_def)
  then show ?thesis using None assms by (simp add: network_remove_edge_def)
next
  case (Some xy)
  obtain x y where xy: "node_of net a = Some x" "node_of net b = Some y" "xy = (x, y)"
    using Some by (cases xy) (simp add: both_nodes_Some)
  let ?g = "nw_graph net" and ?d = "go_directed G"
  note ok = net_okD [OF assms]
  have found: "go_find_edge G ?g x y = Some k \<longleftrightarrow> (\<exists>p q w. ve ?g k = Some (p, q, w) \<and> same_ends ?d p q x y)" for k
    by (rule find_edge_Some [OF ok(1,4)])
  show ?thesis
  proof (cases "go_find_edge G ?g x y")
    case none: None
    have "slot_arcs ?d (ve ?g) = drop_arc ?d x y (slot_arcs ?d (ve ?g))"
    proof -
      have "\<not> same_ends ?d x y p q" if "(p, q, u) \<in> slot_arcs ?d (ve ?g)" for p q u
        using that none found same_ends_trans same_ends_flip unfolding slot_arcs_iff by (metis option.discI)
      then show ?thesis by (auto simp: drop_arc_def)
    qed
    then have "net_arcs G ve net = drop_arc ?d a b (net_arcs G ve net)"
      using agent_arcs_drop [OF ok(3) xy(1,2)] by (metis net_arcs_slots)
    then show ?thesis using assms none Some xy(3) by (simp add: network_remove_edge_def)
  next
    case (Some k)
    then obtain p q w where k: "ve ?g k = Some (p, q, w)" "same_ends ?d p q x y" using found by auto
    let ?net = "net\<lparr>nw_graph := go_remove_edge G k ?g\<rparr>"
    have step: "snd (network_remove_edge G a b net) = ?net"
      using Some \<open>both_nodes net a b = Some xy\<close> xy(3) by (simp add: network_remove_edge_def)
    note rm = remove_edge [OF ok(1) k(1)]
    have node: "node_of ?net = node_of net" by (rule ext) (simp add: node_of_def)
    have "simple_edges ?d (ve (go_remove_edge G k ?g))"
      by (rule simple_edges_mono [OF ok(4)]) (use rm in \<open>auto split: if_splits\<close>)
    then have "net_ok G vn ve ok ?net" using assms rm by (simp add: net_ok_def node)
    moreover have "net_arcs G ve ?net = drop_arc ?d a b (net_arcs G ve net)"
      using rm slot_arcs_drop [OF ok(4) k] by (simp add: net_arcs_slots node agent_arcs_drop [OF ok(3) xy(1,2)])
    ultimately show ?thesis unfolding step by (simp add: net_nodes_def node)
  qed
qed

lemma network_remove_node_refines:
  assumes "net_ok G vn ve ok net"
  shows "net_ok G vn ve ok (snd (network_remove_node G a net)) \<and>
    (net_nodes (snd (network_remove_node G a net)), net_arcs G ve (snd (network_remove_node G a net))) =
      spec_apply (go_directed G) (RemoveNode a) (net_nodes net, net_arcs G ve net)"
proof (cases "node_of net a")
  case None
  then have "without_node a (net_arcs G ve net) = net_arcs G ve net"
    by (auto simp: without_node_def net_arcs_slots agent_arcs_def)
  then show ?thesis using None assms by (auto simp: network_remove_node_def net_nodes_def)
next
  case (Some x)
  let ?g = "nw_graph net" and ?net = "snd (network_remove_node G a net)" and ?d = "go_directed G"
  note ok = net_okD [OF assms]
  have "x \<in> dom (vn ?g)" using Some ok(2) by auto
  note rm = remove_node [OF ok(1) this]
  have net: "nw_graph ?net = go_remove_node G x ?g" "nw_index ?net = filter (\<lambda>(b, _). b \<noteq> a) (nw_index net)"
    using Some by (simp_all add: network_remove_node_def)
  have node: "node_of ?net = (node_of net)(a := None)"
  proof -
    have "map_of (filter (\<lambda>(b, _). b \<noteq> a) xs) = (map_of xs)(a := None)" for xs :: "(agent_id \<times> nat) list"
      by (induction xs) auto
    then show ?thesis by (simp add: node_of_def [abs_def] net)
  qed
  have other: "node_of net b = Some x \<longleftrightarrow> b = a" for b using ok(3) Some by (auto simp: one_slot_each_def)
  have "node_of ?net b = Some y \<longleftrightarrow> vn (go_remove_node G x ?g) y = Some b" for b y
    using ok(2) [of b y] other [of b] Some rm by (auto simp: node)
  moreover have "distinct (map fst (nw_index ?net))" using ok(5) by (simp add: net distinct_map_filter)
  moreover have "simple_edges ?d (ve (go_remove_node G x ?g))"
    by (rule simple_edges_mono [OF ok(4)]) (use rm in \<open>auto split: if_splits option.splits prod.splits\<close>)
  ultimately have "net_ok G vn ve ok ?net" using rm by (simp add: net_ok_def net(1))
  moreover have "net_arcs G ve ?net = without_node a (net_arcs G ve net)"
  proof -
    have "ve (go_remove_node G x ?g) k = Some (p, q, u) \<longleftrightarrow> ve ?g k = Some (p, q, u) \<and> p \<noteq> x \<and> q \<noteq> x" for k p q u
      using rm by (auto split: option.split)
    then have "(p, q, u) \<in> slot_arcs ?d (ve (go_remove_node G x ?g)) \<longleftrightarrow>
        (p, q, u) \<in> slot_arcs ?d (ve ?g) \<and> p \<noteq> x \<and> q \<noteq> x" for p q u
      by (simp add: slot_arcs_iff same_ends_def) blast
    then show ?thesis
      using other by (auto simp: net_arcs_slots agent_arcs_def without_node_def net(1) node split: if_splits)
  qed
  ultimately show ?thesis by (auto simp: net_nodes_def node)
qed

lemma empty_refines: "net_ok G vn ve ok (network_empty G) \<and> net_nodes (network_empty G) = {} \<and> net_arcs G ve (network_empty G) = {}"
  using default_graph
  by (simp add: network_empty_def net_ok_def node_of_def simple_edges_def net_nodes_def net_arcs_def)

lemma net_apply_refines:
  assumes "net_ok G vn ve ok net"
  shows "net_ok G vn ve ok (net_apply G op net) \<and>
    (net_nodes (net_apply G op net), net_arcs G ve (net_apply G op net)) =
      spec_apply (go_directed G) op (net_nodes net, net_arcs G ve net)"
  using network_add_node_refines [OF assms] add_edge_weighted_refines [OF assms]
    network_remove_edge_refines [OF assms] network_remove_node_refines [OF assms]
  by (cases op) simp_all

lemma net_applies_refine:
  assumes "net_ok G vn ve ok net"
  shows "net_ok G vn ve ok (fold (net_apply G) ops net) \<and>
    (net_nodes (fold (net_apply G) ops net), net_arcs G ve (fold (net_apply G) ops net)) =
      fold (spec_apply (go_directed G)) ops (net_nodes net, net_arcs G ve net)"
  using assms
proof (induction ops arbitrary: net)
  case (Cons op ops)
  from net_apply_refines [OF Cons.prems, of op] Cons.IH [of "net_apply G op net"] show ?case by simp
qed simp

subsection \<open>What the queries return\<close>

lemma edge_weight_arcs:
  assumes "net_ok G vn ve ok net"
  shows "edge_weight G a b net = Some w \<longleftrightarrow> (a, b, w) \<in> net_arcs G ve net"
proof -
  note ok = net_okD [OF assms]
  have "edge_weight G a b net = Some w \<longleftrightarrow>
      (\<exists>x y k. node_of net a = Some x \<and> node_of net b = Some y \<and> go_find_edge G (nw_graph net) x y = Some k \<and>
        go_weight G (nw_graph net) k = Some w)"
    by (auto simp: edge_weight_def bind_eq_Some_conv both_nodes_Some)
  also have "\<dots> \<longleftrightarrow> (a, b, w) \<in> net_arcs G ve net"
    unfolding find_edge_Some [OF ok(1,4)] weight [OF ok(1)]
    by (fastforce simp: net_arcs_slots agent_arcs_def slot_arcs_iff)
  finally show ?thesis .
qed

lemma go_edges_arcs:
  "ok g \<Longrightarrow> (y, w) \<in> set (go_edges G g x) \<longleftrightarrow> (x, y, w) \<in> slot_arcs (go_directed G) (ve g)"
  using edges by (simp add: slot_arcs_def)

lemma slot_arc_agents:
  assumes "net_ok G vn ve ok net" "(x, y, w) \<in> slot_arcs (go_directed G) (ve (nw_graph net))"
  shows "\<exists>b. vn (nw_graph net) y = Some b \<and> node_of net b = Some y"
proof -
  note ok = net_okD [OF assms(1)]
  from assms(2) obtain k p q where "ve (nw_graph net) k = Some (p, q, w)" "same_ends (go_directed G) p q x y"
    by (auto simp: slot_arcs_iff)
  then have "y \<in> dom (vn (nw_graph net))" using live [OF ok(1), of k p q w] unfolding same_ends_def by blast
  then show ?thesis using ok(2) by auto
qed

lemma weighted_neighbors_arcs:
  assumes "net_ok G vn ve ok net"
  shows "set (weighted_neighbors G a net) = {(b, w). (a, b, w) \<in> net_arcs G ve net}"
proof (cases "node_of net a")
  case None
  then show ?thesis by (auto simp: weighted_neighbors_def net_arcs_slots agent_arcs_def)
next
  case (Some x)
  note ok = net_okD [OF assms]
  have "(b, w) \<in> set (weighted_neighbors G a net) \<longleftrightarrow> (a, b, w) \<in> net_arcs G ve net" for b w
  proof
    assume "(b, w) \<in> set (weighted_neighbors G a net)"
    then obtain y where y: "(x, y, w) \<in> slot_arcs (go_directed G) (ve (nw_graph net))" "b = go_node G (nw_graph net) y"
      using Some by (auto simp: weighted_neighbors_def go_edges_arcs [OF ok(1)])
    then show "(a, b, w) \<in> net_arcs G ve net"
      using slot_arc_agents [OF assms y(1)] Some node [OF ok(1)] by (auto simp: net_arcs_slots agent_arcs_def)
  next
    assume "(a, b, w) \<in> net_arcs G ve net"
    then obtain y where "node_of net b = Some y" "(y, w) \<in> set (go_edges G (nw_graph net) x)"
      using Some by (auto simp: net_arcs_slots agent_arcs_def go_edges_arcs [OF ok(1)])
    moreover from this have "go_node G (nw_graph net) y = b" using ok(2) node [OF ok(1)] by auto
    ultimately show "(b, w) \<in> set (weighted_neighbors G a net)"
      using Some by (force simp: weighted_neighbors_def)
  qed
  then show ?thesis by auto
qed

lemma network_neighbors_weighted: "network_neighbors G a net = map fst (weighted_neighbors G a net)"
  by (auto simp: network_neighbors_def network_neighbors_into_def weighted_neighbors_def go_neighbors_def
      split: option.split)

lemma network_neighbors_arcs:
  assumes "net_ok G vn ve ok net"
  shows "set (network_neighbors G a net) = {b. \<exists>w. (a, b, w) \<in> net_arcs G ve net}"
  by (auto simp: network_neighbors_weighted weighted_neighbors_arcs [OF assms] image_iff)

lemma degree_arcs:
  assumes "net_ok G vn ve ok net"
  shows "network_degree G a net = card {b. \<exists>w. (a, b, w) \<in> net_arcs G ve net}"
proof (cases "node_of net a")
  case None
  then show ?thesis by (simp add: network_degree_def net_arcs_slots agent_arcs_def)
next
  case (Some x)
  note ok = net_okD [OF assms]
  let ?es = "ve (nw_graph net)" and ?d = "go_directed G"
  let ?K = "{k. \<exists>e y. ?es k = Some e \<and> joins ?d x y e}" and ?B = "{b. \<exists>w. (a, b, w) \<in> net_arcs G ve net}"
  let ?far = "\<lambda>k. case ?es k of Some (p, q, w) \<Rightarrow> go_node G (nw_graph net) (if p = x then q else p)"
  have K: "k \<in> ?K \<longleftrightarrow> (\<exists>p q w y. ?es k = Some (p, q, w) \<and> same_ends ?d p q x y)" for k
    by (force intro: same_ends_flip)
  have far: "\<exists>b. node_of net b = Some y \<and> ?far k = b \<and> (a, b, w) \<in> net_arcs G ve net"
    if "?es k = Some (p, q, w)" "same_ends ?d p q x y" for k p q w y
  proof -
    have arc: "(x, y, w) \<in> slot_arcs ?d ?es" using that by (auto simp: slot_arcs_iff)
    obtain b where b: "vn (nw_graph net) y = Some b" "node_of net b = Some y" using slot_arc_agents [OF assms arc] by blast
    have "(if p = x then q else p) = y" using that(2) by (auto simp: same_ends_def)
    then have "?far k = b" using that(1) node [OF ok(1) b(1)] by simp
    then show ?thesis using b(2) arc Some by (auto simp: net_arcs_slots agent_arcs_def)
  qed
  have "inj_on ?far ?K"
  proof (rule inj_onI)
    fix k k' assume "k \<in> ?K" "k' \<in> ?K" and eq: "?far k = ?far k'"
    then obtain p q w y p' q' w' y' where k: "?es k = Some (p, q, w)" "same_ends ?d p q x y"
      and k': "?es k' = Some (p', q', w')" "same_ends ?d p' q' x y'" unfolding K by blast
    obtain b b' where "node_of net b = Some y" "?far k = b" "node_of net b' = Some y'" "?far k' = b'"
      using far [OF k] far [OF k'] by blast
    with eq have "y = y'" by simp
    then have "same_ends ?d p q p' q'" using same_ends_trans [OF k(2)] same_ends_flip [OF k'(2)] by simp
    then show "k = k'" using simple_edgesD [OF ok(4) k(1) k'(1)] by simp
  qed
  moreover have "?far ` ?K = ?B"
  proof
    show "?far ` ?K \<subseteq> ?B"
    proof
      fix b assume "b \<in> ?far ` ?K"
      then obtain k where "b = ?far k" "k \<in> ?K" by blast
      then show "b \<in> ?B" unfolding K using far by blast
    qed
    show "?B \<subseteq> ?far ` ?K"
    proof
      fix b assume "b \<in> ?B"
      then obtain k p q w y where k: "?es k = Some (p, q, w)" "same_ends ?d p q x y" and y: "node_of net b = Some y"
        using Some by (auto simp: net_arcs_slots agent_arcs_def slot_arcs_iff)
      obtain b' where "node_of net b' = Some y" "?far k = b'" using far [OF k] by blast
      then have "?far k = b" using y ok(3) by (auto simp: one_slot_each_def)
      moreover have "k \<in> ?K" unfolding K using k by blast
      ultimately show "b \<in> ?far ` ?K" by blast
    qed
  qed
  ultimately have "card ?K = card ?B" using card_image by fastforce
  then show ?thesis
    using Some edges_count [OF ok(1), of x] by (simp add: network_degree_def go_neighbors_def)
qed

lemma node_count_nodes:
  assumes "net_ok G vn ve ok net"
  shows "network_node_count G net = card (net_nodes net)"
proof -
  note ok = net_okD [OF assms]
  have "inj_on (\<lambda>a. the (node_of net a)) (net_nodes net)"
    using ok(3) by (auto simp: inj_on_def net_nodes_def one_slot_each_def)
  moreover have "(\<lambda>a. the (node_of net a)) ` net_nodes net = dom (vn (nw_graph net))"
    using ok(2) by (force simp: net_nodes_def image_iff)
  ultimately have "card (dom (vn (nw_graph net))) = card (net_nodes net)" using card_image by fastforce
  then show ?thesis
    using node_indices [OF ok(1)] distinct_card [of "go_node_indices G (nw_graph net)"]
    by (simp add: network_node_count_def)
qed

lemma edges_arcs:
  assumes "net_ok G vn ve ok net"
  shows "(a, b) \<in> set (network_edges G net) \<longleftrightarrow>
    (\<exists>w. (a, b, w) \<in> net_arcs G ve net) \<and> (go_directed G \<or> a \<le> b)"
proof -
  note ok = net_okD [OF assms]
  let ?g = "nw_graph net" and ?d = "go_directed G"
  have arc: "(a, b) \<in> set (network_edges G net) \<longleftrightarrow>
      (\<exists>k p q w c d. ve ?g k = Some (p, q, w) \<and> node_of net c = Some p \<and> node_of net d = Some q \<and>
         (a, b) = canonical_pair ?d (c, d))" (is "?l \<longleftrightarrow> ?r")
  proof
    assume ?l
    then obtain k p q w where k: "ve ?g k = Some (p, q, w)"
      and ab: "(a, b) = canonical_pair ?d (go_node G ?g p, go_node G ?g q)"
      using edge_indices [OF ok(1)] endpoints [OF ok(1)]
      by (auto simp: network_edges_def canonical_endpoints_def List.map_filter_def)
    obtain c d where "vn ?g p = Some c" "vn ?g q = Some d" using live [OF ok(1) k] by blast
    then show ?r using k ab node [OF ok(1)] ok(2) by metis
  next
    assume ?r
    then obtain k p q w c d where k: "ve ?g k = Some (p, q, w)" "node_of net c = Some p" "node_of net d = Some q"
      and ab: "(a, b) = canonical_pair ?d (c, d)" by blast
    then have "go_node G ?g p = c" "go_node G ?g q = d" "k \<in> set (go_edge_indices G ?g)"
      using node [OF ok(1)] ok(2) edge_indices [OF ok(1)] by auto
    then show ?l
      using k ab endpoints [OF ok(1)]
      by (force simp: network_edges_def canonical_endpoints_def List.map_filter_def image_iff)
  qed
  show ?thesis
  proof
    assume "(a, b) \<in> set (network_edges G net)"
    then obtain k p q w c d where k: "ve ?g k = Some (p, q, w)" "node_of net c = Some p" "node_of net d = Some q"
      and ab: "(a, b) = canonical_pair ?d (c, d)" unfolding arc by blast
    have "(p, q, w) \<in> slot_arcs ?d (ve ?g)" "\<not> ?d \<Longrightarrow> (q, p, w) \<in> slot_arcs ?d (ve ?g)"
      using k(1) by (auto simp: slot_arcs_iff same_ends_def)
    with k ab show "(\<exists>w. (a, b, w) \<in> net_arcs G ve net) \<and> (?d \<or> a \<le> b)"
      by (auto simp: net_arcs_slots agent_arcs_def canonical_pair_def split: if_splits)
  next
    assume "(\<exists>w. (a, b, w) \<in> net_arcs G ve net) \<and> (?d \<or> a \<le> b)"
    then obtain x y k p q w where ends: "node_of net a = Some x" "node_of net b = Some y"
        "ve ?g k = Some (p, q, w)" "same_ends ?d p q x y" and ord: "?d \<or> a \<le> b"
      by (auto simp: net_arcs_slots agent_arcs_def slot_arcs_iff)
    show "(a, b) \<in> set (network_edges G net)"
    proof (cases "(p, q) = (x, y)")
      case True
      then have "(a, b) = canonical_pair ?d (a, b)" using ord by (auto simp: canonical_pair_def)
      then show ?thesis unfolding arc using ends True by blast
    next
      case False
      then have "(p, q) = (y, x)" "\<not> ?d" using ends(4) by (auto simp: same_ends_def)
      then have "(a, b) = canonical_pair ?d (b, a)" using ord by (auto simp: canonical_pair_def)
      then show ?thesis unfolding arc using ends \<open>(p, q) = (y, x)\<close> by blast
    qed
  qed
qed

lemma arcs_symmetric:
  "\<not> go_directed G \<Longrightarrow> (a, b, w) \<in> net_arcs G ve net \<Longrightarrow> (b, a, w) \<in> net_arcs G ve net"
proof -
  have "(y, x, w) \<in> slot_arcs False es" if "(x, y, w) \<in> slot_arcs False es" for x y es
    using that unfolding slot_arcs_iff same_ends_def by blast
  moreover assume "\<not> go_directed G" "(a, b, w) \<in> net_arcs G ve net"
  ultimately show ?thesis by (auto simp: net_arcs_slots agent_arcs_def)
qed

end

subsection \<open>The refinement\<close>

lemma network_queries:
  assumes "stable_graph G vn ve ok"
    and "(N, A) = fold (spec_apply (go_directed G)) ops ({}, {})"
    and "net = fold (net_apply G) ops (network_empty G)"
  shows "network_contains a net = (a \<in> N)"
    "edge_weight G a b net = Some w \<longleftrightarrow> (a, b, w) \<in> A"
    "set (network_neighbors G a net) = {b. \<exists>w. (a, b, w) \<in> A}"
    "network_degree G a net = card {b. \<exists>w. (a, b, w) \<in> A}"
    "network_node_count G net = card N"
    "(a, b) \<in> set (network_edges G net) \<longleftrightarrow> (\<exists>w. (a, b, w) \<in> A) \<and> (go_directed G \<or> a \<le> b)"
proof -
  note graph = assms(1)
  note empty = stable_graph.empty_refines [OF graph]
  have "net_ok G vn ve ok net \<and> (net_nodes net, net_arcs G ve net) = (N, A)"
    using stable_graph.net_applies_refine [OF graph conjunct1 [OF empty], of ops]
    by (simp only: assms(2,3) empty)
  then have ok: "net_ok G vn ve ok net" and NA: "N = net_nodes net" "A = net_arcs G ve net" by simp_all
  show "network_contains a net = (a \<in> N)" by (auto simp: NA network_contains_def net_nodes_def)
  show "edge_weight G a b net = Some w \<longleftrightarrow> (a, b, w) \<in> A"
    unfolding NA by (rule stable_graph.edge_weight_arcs [OF graph ok])
  show "set (network_neighbors G a net) = {b. \<exists>w. (a, b, w) \<in> A}"
    unfolding NA by (rule stable_graph.network_neighbors_arcs [OF graph ok])
  show "network_degree G a net = card {b. \<exists>w. (a, b, w) \<in> A}"
    unfolding NA by (rule stable_graph.degree_arcs [OF graph ok])
  show "network_node_count G net = card N" unfolding NA by (rule stable_graph.node_count_nodes [OF graph ok])
  show "(a, b) \<in> set (network_edges G net) \<longleftrightarrow> (\<exists>w. (a, b, w) \<in> A) \<and> (go_directed G \<or> a \<le> b)"
    unfolding NA by (rule stable_graph.edges_arcs [OF graph ok])
qed

text \<open>
  C15: after any sequence of node and edge insertions and removals from the empty network, every
  query answers as the plain graph does: membership, the payload of an edge, the neighbours and
  the degree of an agent, the number of nodes, and the exported edges.
\<close>

theorem network_refines_graph:
  assumes "stable_graph G vn ve ok"
    and "(N, A) = fold (spec_apply (go_directed G)) ops ({}, {})"
    and "net = fold (net_apply G) ops (network_empty G)"
  shows "network_contains a net = (a \<in> N) \<and>
    (edge_weight G a b net = Some w \<longleftrightarrow> (a, b, w) \<in> A) \<and>
    set (network_neighbors G a net) = {b. \<exists>w. (a, b, w) \<in> A} \<and>
    network_degree G a net = card {b. \<exists>w. (a, b, w) \<in> A} \<and>
    network_node_count G net = card N \<and>
    ((a, b) \<in> set (network_edges G net) \<longleftrightarrow> (\<exists>w. (a, b, w) \<in> A) \<and> (go_directed G \<or> a \<le> b))"
  by (intro conjI network_queries [OF assms])

definition sample_ops :: "nat net_op list" where
  "sample_ops = [AddNode (AgentId 1), AddNode (AgentId 2), AddNode (AgentId 3), AddEdge (AgentId 1) (AgentId 2) 5,
     AddEdge (AgentId 3) (AgentId 1) 7, AddEdge (AgentId 2) (AgentId 1) 9, RemoveNode (AgentId 3)]"

theorem network_refines_graph_witness:
  "edge_weight (list_graph_ops False) (AgentId 1) (AgentId 2)
     (fold (net_apply (list_graph_ops False)) sample_ops (network_empty (list_graph_ops False))) = Some 9 \<and>
   \<not> network_contains (AgentId 3) (fold (net_apply (list_graph_ops False)) sample_ops (network_empty (list_graph_ops False)))"
proof -
  let ?G = "list_graph_ops False :: (nat list_graph, nat) graph_ops"
  obtain N A where NA: "fold (spec_apply (go_directed ?G)) sample_ops ({}, {}) = (N, A)" by (metis surj_pair)
  have d: "go_directed ?G = False" by (simp add: list_graph_ops_def)
  have "AgentId 3 \<notin> N" "(AgentId 1, AgentId 2, 9) \<in> A"
    using NA unfolding d sample_ops_def
    by (auto simp: put_arc_def drop_arc_def without_node_def same_ends_def)
  with network_refines_graph [OF list_graph.stable_graph_axioms NA [symmetric] refl, of "AgentId 3" "AgentId 2" 9]
    network_refines_graph [OF list_graph.stable_graph_axioms NA [symmetric] refl, of "AgentId 1" "AgentId 2" 9]
  show ?thesis by simp
qed

subsection \<open>Serialisation\<close>

lemma put_arc_unit:
  "(a, b, ()) \<in> A \<Longrightarrow> (\<not> directed \<Longrightarrow> (b, a, ()) \<in> A) \<Longrightarrow> put_arc directed a b () A = A"
  by (auto simp: put_arc_def drop_arc_def same_ends_def)

lemma add_edge_refines:
  fixes G :: "('gr, unit) graph_ops"
  assumes graph: "stable_graph G vn ve ok" and ok: "net_ok G vn ve ok net"
  shows "net_ok G vn ve ok (add_edge G a b net) \<and> (net_nodes (add_edge G a b net), net_arcs G ve (add_edge G a b net)) =
    spec_apply (go_directed G) (AddEdge a b ()) (net_nodes net, net_arcs G ve net)"
proof (cases "\<exists>x y k. both_nodes net a b = Some (x, y) \<and> go_find_edge G (nw_graph net) x y = Some k")
  case False
  then have "add_edge G a b net = add_edge_weighted G a b () net"
    by (auto simp: add_edge_def add_edge_weighted_def split: option.split)
  then show ?thesis using stable_graph.add_edge_weighted_refines [OF graph ok] by simp
next
  case True
  then obtain x y k where k: "both_nodes net a b = Some (x, y)" "go_find_edge G (nw_graph net) x y = Some k" by blast
  then have same: "add_edge G a b net = net" by (simp add: add_edge_def)
  obtain e where e: "ve (nw_graph net) k = Some e"
    using stable_graph.find_edge [OF graph net_okD(1) [OF ok] k(2)] by blast
  have "edge_weight G a b net = Some ()"
    using k e stable_graph.weight [OF graph net_okD(1) [OF ok], of k] by (simp add: edge_weight_def)
  then have "(a, b, ()) \<in> net_arcs G ve net" using stable_graph.edge_weight_arcs [OF graph ok] by simp
  then have "put_arc (go_directed G) a b () (net_arcs G ve net) = net_arcs G ve net"
    using stable_graph.arcs_symmetric [OF graph] by (intro put_arc_unit)
  then show ?thesis using ok by (simp add: same)
qed

lemma add_nodes_refine:
  assumes graph: "stable_graph G vn ve ok" and ok: "net_ok G vn ve ok net"
  shows "net_ok G vn ve ok (fold (network_add_node G) ids net) \<and>
    net_nodes (fold (network_add_node G) ids net) = net_nodes net \<union> set ids \<and>
    net_arcs G ve (fold (network_add_node G) ids net) = net_arcs G ve net"
  using ok
proof (induction ids arbitrary: net)
  case (Cons a ids)
  from stable_graph.network_add_node_refines [OF graph Cons.prems, of a]
  have "net_ok G vn ve ok (network_add_node G a net)" "net_nodes (network_add_node G a net) = insert a (net_nodes net)"
    "net_arcs G ve (network_add_node G a net) = net_arcs G ve net" by simp_all
  with Cons.IH [OF this(1)] show ?case by auto
qed simp

lemma add_edges_refine:
  fixes G :: "('gr, unit) graph_ops"
  assumes graph: "stable_graph G vn ve ok" and ok: "net_ok G vn ve ok net"
    and "\<forall>(a, b) \<in> set es. a \<in> net_nodes net \<and> b \<in> net_nodes net"
  shows "net_ok G vn ve ok (fold (\<lambda>(a, b). add_edge G a b) es net) \<and>
    net_nodes (fold (\<lambda>(a, b). add_edge G a b) es net) = net_nodes net \<and>
    net_arcs G ve (fold (\<lambda>(a, b). add_edge G a b) es net) =
      net_arcs G ve net \<union> {(c, d, ()) |c d. \<exists>(a, b) \<in> set es. same_ends (go_directed G) a b c d}"
  using ok assms(3)
proof (induction es arbitrary: net)
  case (Cons e es)
  obtain a b where e: "e = (a, b)" by (cases e)
  from Cons.prems(2) have ab: "a \<in> net_nodes net" "b \<in> net_nodes net" by (simp_all add: e)
  from add_edge_refines [OF graph Cons.prems(1), of a b] ab
  have step: "net_ok G vn ve ok (add_edge G a b net)" "net_nodes (add_edge G a b net) = net_nodes net"
    "net_arcs G ve (add_edge G a b net) = put_arc (go_directed G) a b () (net_arcs G ve net)" by simp_all
  have put: "put_arc (go_directed G) a b () A = A \<union> {(c, d, ()) |c d. same_ends (go_directed G) a b c d}" for A
    by (auto simp: put_arc_def drop_arc_def)
  from Cons.IH [OF step(1)] Cons.prems(2) show ?case
    by (auto simp: e step(2,3) put)
qed simp

text \<open>
  C37: a network rebuilt from its serialised form is sound and has the same agents and arcs.
\<close>

theorem network_serde_roundtrip:
  fixes G :: "('gr, unit) graph_ops"
  assumes "stable_graph G vn ve ok" "net_ok G vn ve ok net"
  shows "net_ok G vn ve ok (network_deserialize G (network_serialize G net)) \<and>
    net_nodes (network_deserialize G (network_serialize G net)) = net_nodes net \<and>
    net_arcs G ve (network_deserialize G (network_serialize G net)) = net_arcs G ve net"
proof -
  let ?ids = "sort (map fst (nw_index net))" and ?es = "sort (canonical_endpoints G net)" and ?d = "go_directed G"
  let ?base = "fold (network_add_node G) ?ids (network_empty G)"
  have base: "net_ok G vn ve ok ?base" "net_nodes ?base = net_nodes net" "net_arcs G ve ?base = {}"
    using add_nodes_refine [OF assms(1), of "network_empty G" ?ids] stable_graph.empty_refines [OF assms(1)]
    by (auto simp: net_nodes_def node_of_def dom_map_of_conv_image_fst)
  have es: "(a, b) \<in> set ?es \<longleftrightarrow> (a, b, ()) \<in> net_arcs G ve net \<and> (?d \<or> a \<le> b)" for a b
    using stable_graph.edges_arcs [OF assms, of a b] by (simp add: network_edges_def)
  have ends: "\<forall>(a, b) \<in> set ?es. a \<in> net_nodes ?base \<and> b \<in> net_nodes ?base"
    using es by (auto simp: base(2)) (auto simp: net_arcs_def net_nodes_def)
  note sym = stable_graph.arcs_symmetric [OF assms(1), of _ _ "()" net]
  have "(\<exists>(a, b) \<in> set ?es. same_ends ?d a b c d) \<longleftrightarrow> (c, d, ()) \<in> net_arcs G ve net" for c d
  proof
    assume "\<exists>(a, b) \<in> set ?es. same_ends ?d a b c d"
    then obtain a b where "(a, b) \<in> set ?es" "same_ends ?d a b c d" by blast
    then show "(c, d, ()) \<in> net_arcs G ve net" using sym [of a b] unfolding es same_ends_def by blast
  next
    assume arc: "(c, d, ()) \<in> net_arcs G ve net"
    consider "?d \<or> c \<le> d" | "\<not> ?d" "d \<le> c" by fastforce
    then show "\<exists>(a, b) \<in> set ?es. same_ends ?d a b c d"
    proof cases
      case 1
      then have "(c, d) \<in> set ?es" using arc es by blast
      then show ?thesis by (intro bexI [of _ "(c, d)"]) simp_all
    next
      case 2
      then have "(d, c) \<in> set ?es" using sym [OF 2(1) arc] es by blast
      then show ?thesis using 2(1) by (intro bexI [of _ "(d, c)"]) (simp_all add: same_ends_def)
    qed
  qed
  then have "{(c, d, ()) |c d. \<exists>(a, b) \<in> set ?es. same_ends ?d a b c d} = net_arcs G ve net"
    by (auto simp del: set_sort)
  with add_edges_refine [OF assms(1) base(1) ends] show ?thesis
    by (simp add: network_deserialize_def network_serialize_def base)
qed

definition follow_ops :: "unit net_op list" where
  "follow_ops = [AddNode (AgentId 1), AddNode (AgentId 2), AddEdge (AgentId 2) (AgentId 1) ()]"

definition follow_network :: "unit list_graph network" where
  "follow_network = fold (net_apply (list_graph_ops True)) follow_ops (network_empty (list_graph_ops True))"

lemmas follow_network_refines =
  list_graph.net_applies_refine [OF conjunct1 [OF list_graph.empty_refines], of True follow_ops, folded follow_network_def]

theorem network_serde_roundtrip_witness:
  "net_arcs (list_graph_ops True) (\<lambda>g. lg_slot (lg_edges g))
     (network_deserialize (list_graph_ops True) (network_serialize (list_graph_ops True) follow_network)) =
   {(AgentId 2, AgentId 1, ())}"
proof -
  let ?G = "list_graph_ops True :: (unit list_graph, unit) graph_ops"
  note ok = conjunct1 [OF follow_network_refines]
  have d: "go_directed ?G = True" by (simp add: list_graph_ops_def)
  have "net_arcs ?G (\<lambda>g. lg_slot (lg_edges g)) follow_network = {(AgentId 2, AgentId 1, ())}"
    using conjunct2 [OF follow_network_refines]
    by (auto simp: list_graph.empty_refines follow_ops_def d put_arc_def drop_arc_def same_ends_def)
  with network_serde_roundtrip [OF list_graph.stable_graph_axioms ok] show ?thesis by simp
qed

end
