(* ===== verification/Network_Search.thy ===== *)
theory Network_Search
  imports Network_Spec "HOL-Library.While_Combinator"
begin

section \<open>Searches of a network (crates/socsim-net/src/lib.rs)\<close>

text \<open>
  The breadth-first searches: the nodes reachable over allowed edges, the components of the
  undirected view, the distances. They share one loop, over the entries seen so far (the
  \<open>HashSet\<close> or \<open>HashMap\<close>, here in the order of insertion, which no caller observes) and a queue;
  \<open>bfs_loop_reaches\<close> is its correctness and termination. The local queries on neighbourhoods follow.
\<close>

subsection \<open>The loop\<close>

text \<open>\<open>if let Vacant(e) = seen.entry(v) { e.insert(l); queue.push_back(v) }\<close>.\<close>

definition discover :: "'l \<Rightarrow> 'v \<Rightarrow> ('v \<times> 'l) list \<times> 'v list \<Rightarrow> ('v \<times> 'l) list \<times> 'v list" where
  "discover l v st =
     (let (seen, queue) = st
      in if map_of seen v = None then (seen @ [(v, l)], queue @ [v]) else (seen, queue))"

definition bfs_turn :: "('v \<Rightarrow> 'v list) \<Rightarrow> ('l \<Rightarrow> 'l) \<Rightarrow> ('v \<times> 'l) list \<times> 'v list \<Rightarrow> ('v \<times> 'l) list \<times> 'v list" where
  "bfs_turn succ nxt st =
     (case st of
        (seen, []) \<Rightarrow> (seen, [])
      | (seen, cur # queue) \<Rightarrow> fold (discover (nxt (the (map_of seen cur)))) (succ cur) (seen, queue))"

definition bfs_loop :: "('v \<Rightarrow> 'v list) \<Rightarrow> ('l \<Rightarrow> 'l) \<Rightarrow> ('v \<times> 'l) list \<Rightarrow> 'v list \<Rightarrow> ('v \<times> 'l) list" where
  "bfs_loop succ nxt seen queue =
     fst (while (\<lambda>(_, queue). queue \<noteq> []) (bfs_turn succ nxt) (seen, queue))"

subsection \<open>Reachability\<close>

text \<open>\<open>visited\<close> is a set: entries without a value. A disallowed edge is skipped.\<close>

definition reachable_from :: "('gr, 'e) graph_ops \<Rightarrow> agent_id \<Rightarrow> ('e \<Rightarrow> bool) \<Rightarrow> 'gr network \<Rightarrow> agent_id list" where
  "reachable_from G seed edge_allowed net =
     (case node_of net seed of
        None \<Rightarrow> []
      | Some start \<Rightarrow>
          let visited = bfs_loop
                (\<lambda>cur. map fst (filter (\<lambda>(_, w). edge_allowed w) (go_edges G (nw_graph net) cur))) (\<lambda>_. ())
                [(start, ())] [start]
          in sort (map (\<lambda>(x, _). go_node G (nw_graph net) x) visited))"

subsection \<open>Components and distances\<close>

definition undirected_view :: "('gr, 'e) graph_ops \<Rightarrow> 'gr network \<Rightarrow> agent_id \<Rightarrow> agent_id list" where
  "undirected_view G net a = neighbors_directed G a Outgoing net @ neighbors_directed G a Incoming net"

definition label_from ::
    "('gr, 'e) graph_ops \<Rightarrow> 'gr network \<Rightarrow> agent_id \<Rightarrow> (agent_id \<times> nat) list \<times> nat \<Rightarrow> (agent_id \<times> nat) list \<times> nat" where
  "label_from G net start st =
     (let (cm, next) = st
      in if map_of cm start \<noteq> None then (cm, next)
         else (bfs_loop (undirected_view G net) (\<lambda>_. next) (cm @ [(start, next)]) [start], next + 1))"

definition component_membership :: "('gr, 'e) graph_ops \<Rightarrow> 'gr network \<Rightarrow> (agent_id \<times> nat) list" where
  "component_membership G net = fst (fold (label_from G net) (sort (map fst (nw_index net))) ([], 0))"

definition connected_components :: "('gr, 'e) graph_ops \<Rightarrow> 'gr network \<Rightarrow> nat" where
  "connected_components G net =
     (if network_node_count G net = 0 then 0
      else length (remdups_adj (sort (map snd (component_membership G net)))))"

text \<open>The counts per label; \<open>values().max()\<close> of an empty map is \<open>None\<close>, then 0.\<close>

definition largest_component_size :: "('gr, 'e) graph_ops \<Rightarrow> 'gr network \<Rightarrow> nat" where
  "largest_component_size G net =
     (let labels = map snd (component_membership G net)
      in fold max (map (count_list labels) labels) 0)"

definition bfs_distances :: "('gr, 'e) graph_ops \<Rightarrow> 'gr network \<Rightarrow> nat \<Rightarrow> (nat \<times> nat) list" where
  "bfs_distances G net start =
     bfs_loop (go_neighbors G (nw_graph net)) Suc [(start, 0)] [start]"

subsection \<open>Degrees and neighbourhoods\<close>

definition degree_sequence :: "('gr, 'e) graph_ops \<Rightarrow> 'gr network \<Rightarrow> nat list" where
  "degree_sequence G net =
     rev (sort (map (\<lambda>a. network_degree G a net) (sort (map fst (nw_index net)))))"

definition degree_distribution :: "('gr, 'e) graph_ops \<Rightarrow> 'gr network \<Rightarrow> nat list" where
  "degree_distribution G net =
     (let degs = degree_sequence G net; top = (case degs of [] \<Rightarrow> 0 | d # _ \<Rightarrow> d)
      in if network_node_count G net = 0 then []
         else fold (\<lambda>d hist. list_update hist d (hist ! d + 1)) degs (replicate (top + 1) 0))"

definition undirected_neighbor_indices :: "('gr, 'e) graph_ops \<Rightarrow> 'gr network \<Rightarrow> nat \<Rightarrow> nat list" where
  "undirected_neighbor_indices G net x =
     (if go_directed G
      then filter (\<lambda>y. y \<noteq> x) (remdups_adj (sort
             (map fst (go_edges_directed G Outgoing (nw_graph net) x) @
              map fst (go_edges_directed G Incoming (nw_graph net) x))))
      else remdups_adj (sort (go_neighbors G (nw_graph net) x)))"

definition undirected_adjacent :: "('gr, 'e) graph_ops \<Rightarrow> 'gr network \<Rightarrow> nat \<Rightarrow> nat \<Rightarrow> bool" where
  "undirected_adjacent G net x y \<longleftrightarrow>
     go_find_edge G (nw_graph net) x y \<noteq> None \<or> go_find_edge G (nw_graph net) y x \<noteq> None"

text \<open>\<open>links as f64 / possible as f64\<close> is a parameter of two counts.\<close>

definition clustering_coefficient ::
    "(nat \<Rightarrow> nat \<Rightarrow> 'f) \<Rightarrow> ('gr, 'e) graph_ops \<Rightarrow> agent_id \<Rightarrow> 'gr network \<Rightarrow> 'f option" where
  "clustering_coefficient ratio G a net =
     Option.bind (node_of net a) (\<lambda>x.
       let neighbours = undirected_neighbor_indices G net x; k = length neighbours
       in if k < 2 then None
          else
            let links = length (filter (\<lambda>(i, j). undirected_adjacent G net (neighbours ! i) (neighbours ! j))
                  (concat (map (\<lambda>i. map (Pair i) [i + 1..<k]) [0..<k])))
            in Some (ratio links (k * (k - 1) div 2)))"

definition is_local_bridge :: "('gr, 'e) graph_ops \<Rightarrow> agent_id \<Rightarrow> agent_id \<Rightarrow> 'gr network \<Rightarrow> bool" where
  "is_local_bridge G a b net =
     (case both_nodes net a b of
        None \<Rightarrow> False
      | Some (x, y) \<Rightarrow>
          undirected_adjacent G net x y \<and>
          (let an = undirected_neighbor_indices G net x; bn = undirected_neighbor_indices G net y
           in list_all (\<lambda>z. z = y \<or> z \<notin> set bn) an))"

definition local_bridges :: "('gr, 'e) graph_ops \<Rightarrow> 'gr network \<Rightarrow> (agent_id \<times> agent_id) list" where
  "local_bridges G net = remdups_adj (sort (filter (\<lambda>(a, b). is_local_bridge G a b net) (network_edges G net)))"

text \<open>The averages: a quotient of two counts, and of a float sum and a count.\<close>

definition path_sums :: "('gr, 'e) graph_ops \<Rightarrow> 'gr network \<Rightarrow> nat \<Rightarrow> nat \<times> nat \<Rightarrow> nat \<times> nat" where
  "path_sums G net s acc =
     fold (\<lambda>(x, d) (tot, pairs). if x \<noteq> s then (tot + d, pairs + 1) else (tot, pairs)) (bfs_distances G net s) acc"

definition average_path_length :: "(nat \<Rightarrow> nat \<Rightarrow> 'f) \<Rightarrow> ('gr, 'e) graph_ops \<Rightarrow> 'gr network \<Rightarrow> 'f option" where
  "average_path_length ratio G net =
     (if network_node_count G net < 2 then None
      else
        let (tot, pairs) = fold (path_sums G net) (go_node_indices G (nw_graph net)) (0, 0)
        in if pairs = 0 then None else Some (ratio tot pairs))"

definition average_clustering_coefficient ::
    "(nat \<Rightarrow> nat \<Rightarrow> 'f) \<Rightarrow> 'f \<Rightarrow> ('f \<Rightarrow> 'f \<Rightarrow> 'f) \<Rightarrow> ('f \<Rightarrow> nat \<Rightarrow> 'f) \<Rightarrow> ('gr, 'e) graph_ops \<Rightarrow> 'gr network \<Rightarrow> 'f option" where
  "average_clustering_coefficient ratio zero add div_count G net =
     (let cs = List.map_filter (\<lambda>a. clustering_coefficient ratio G a net) (sort (map fst (nw_index net)));
          (sum, n) = fold (\<lambda>c (sum, n). (add sum c, n + 1)) cs (zero, 0 :: nat)
      in if n = 0 then None else Some (div_count sum n))"

subsection \<open>The loop terminates and sees what is reachable\<close>

definition succ_rel :: "('v \<Rightarrow> 'v list) \<Rightarrow> ('v \<times> 'v) set" where
  "succ_rel succ = {(u, v). v \<in> set (succ u)}"

abbreviation keys :: "('v \<times> 'l) list \<Rightarrow> 'v set" where
  "keys xs \<equiv> fst ` set xs"

lemma map_of_keys: "map_of xs v = None \<longleftrightarrow> v \<notin> keys xs"
  by (simp add: map_of_eq_None_iff)

text \<open>What a turn adds: a list of new vertices, each once, all with the label.\<close>

lemma discover_all:
  assumes "distinct (map fst seen)"
  shows "\<exists>new. fold (discover l) vs (seen, queue) = (seen @ map (\<lambda>v. (v, l)) new, queue @ new) \<and>
    distinct (map fst (seen @ map (\<lambda>v. (v, l)) new)) \<and> set new = set vs - keys seen"
  using assms
proof (induction vs arbitrary: seen queue)
  case (Cons v vs)
  show ?case
  proof (cases "v \<in> keys seen")
    case True
    then have "discover l v (seen, queue) = (seen, queue)" by (simp add: discover_def map_of_keys)
    with Cons.IH [OF Cons.prems, of queue] True show ?thesis by auto
  next
    case False
    then have turn: "discover l v (seen, queue) = (seen @ [(v, l)], queue @ [v])" by (simp add: discover_def map_of_keys)
    have "distinct (map fst (seen @ [(v, l)]))" using Cons.prems False by (auto simp: image_iff)
    from Cons.IH [OF this, of "queue @ [v]"] obtain new where
      "fold (discover l) vs (seen @ [(v, l)], queue @ [v]) = (seen @ map (\<lambda>v. (v, l)) (v # new), queue @ v # new)"
      "distinct (map fst (seen @ map (\<lambda>v. (v, l)) (v # new)))" "set new = set vs - keys (seen @ [(v, l)])" by auto
    then show ?thesis using turn False by (intro exI [of _ "v # new"]) auto
  qed
qed auto

lemma card_newly_seen:
  assumes "finite U" "M \<subseteq> U" "M \<inter> S = {}"
  shows "card (U - (S \<union> M)) + card M = card (U - S)"
proof -
  have "U - (S \<union> M) = (U - S) - M" "M \<subseteq> U - S" using assms(2,3) by blast+
  then show ?thesis using assms(1) by (simp add: card_Diff_subset finite_subset [OF assms(2)] card_mono)
qed

lemma bfs_loop_reaches:
  fixes succ :: "'v \<Rightarrow> 'v list"
  assumes fin: "finite ((succ_rel succ)\<^sup>* `` {start})"
    and closed: "\<forall>u \<in> keys old. set (succ u) \<subseteq> keys old" and "start \<notin> keys old" "distinct (map fst old)"
    and label: "L l" "\<And>l. L l \<Longrightarrow> L (nxt l)"
  shows "\<exists>new. bfs_loop succ nxt (old @ [(start, l)]) [start] = old @ new \<and>
    distinct (map fst (old @ new)) \<and> keys new \<union> keys old = (succ_rel succ)\<^sup>* `` {start} \<union> keys old \<and>
    start \<in> keys new \<and> (\<forall>(v, l) \<in> set new. L l)"
proof -
  let ?R = "succ_rel succ" and ?U = "(succ_rel succ)\<^sup>* `` {start} \<union> keys old"
  let ?inv = "\<lambda>(seen, queue). \<exists>new. seen = old @ new \<and> distinct (map fst seen) \<and> start \<in> keys new \<and>
    keys seen \<subseteq> ?U \<and> set queue \<subseteq> keys new \<and> (\<forall>u \<in> keys seen - set queue. set (succ u) \<subseteq> keys seen) \<and>
    (\<forall>(v, l) \<in> set new. L l)"
  let ?measure = "\<lambda>(seen, queue). 2 * card (?U - keys seen) + length queue"
  have finU: "finite ?U" using fin by simp
  have "?inv (while (\<lambda>(_, queue). queue \<noteq> []) (bfs_turn succ nxt) (old @ [(start, l)], [start])) \<and>
      snd (while (\<lambda>(_, queue). queue \<noteq> []) (bfs_turn succ nxt) (old @ [(start, l)], [start])) = []"
  proof (rule while_rule [where P = ?inv and r = "measure ?measure"])
    show "?inv (old @ [(start, l)], [start])" using assms by (auto simp: image_iff)
  next
    fix st assume inv: "?inv st" and loop: "(\<lambda>(_, queue). queue \<noteq> []) st"
    then obtain seen cur queue where st: "st = (seen, cur # queue)" by (cases st) (auto simp: neq_Nil_conv)
    from inv obtain new where seen: "seen = old @ new" "distinct (map fst seen)" "start \<in> keys new" "keys seen \<subseteq> ?U"
      and "set (cur # queue) \<subseteq> keys new"
      and done_: "\<forall>u \<in> keys seen - set (cur # queue). set (succ u) \<subseteq> keys seen" and labels: "\<forall>(v, l) \<in> set new. L l"
      unfolding st prod.case by blast
    then have queue: "cur \<in> keys new" "set queue \<subseteq> keys new" by simp_all
    let ?l = "nxt (the (map_of seen cur))"
    have "L ?l"
    proof -
      obtain k where k: "(cur, k) \<in> set new" using queue(1) by auto
      then have "map_of seen cur = Some k" using seen(1,2) by (intro map_of_is_SomeI) auto
      then show ?thesis using k labels label(2) by auto
    qed
    obtain more where turn: "bfs_turn succ nxt st = (seen @ map (\<lambda>v. (v, ?l)) more, queue @ more)"
      and more: "distinct (map fst (seen @ map (\<lambda>v. (v, ?l)) more))" "set more = set (succ cur) - keys seen"
      using discover_all [OF seen(2), of ?l "succ cur" queue] by (auto simp: st bfs_turn_def)
    have keys': "keys (seen @ map (\<lambda>v. (v, ?l)) more) = keys seen \<union> set more"
      by (simp add: image_Un image_image)
    have "cur \<in> ?U" using queue(1) seen(1,4) by auto
    then have sub: "set more \<subseteq> ?U"
      using more(2) closed by (auto simp: succ_rel_def intro: rtrancl_into_rtrancl)
    let ?new = "new @ map (\<lambda>v. (v, ?l)) more"
    have new: "keys ?new = keys new \<union> set more" by (simp add: image_Un image_image)
    have "\<forall>u \<in> keys seen \<union> set more - set (queue @ more). set (succ u) \<subseteq> keys seen \<union> set more"
    proof
      fix u assume u: "u \<in> keys seen \<union> set more - set (queue @ more)"
      show "set (succ u) \<subseteq> keys seen \<union> set more"
      proof (cases "u = cur")
        case True
        then show ?thesis using more(2) by blast
      next
        case False
        then have "u \<in> keys seen - set (cur # queue)" using u by auto
        then show ?thesis using done_ by blast
      qed
    qed
    moreover have "set (queue @ more) \<subseteq> keys ?new" using queue(2) unfolding new by auto
    moreover have "\<forall>(v, l) \<in> set ?new. L l" using labels \<open>L ?l\<close> by auto
    moreover have "start \<in> keys ?new" using seen(3) unfolding new by blast
    moreover have "keys seen \<union> set more \<subseteq> ?U" using seen(4) sub by blast
    moreover have "seen @ map (\<lambda>v. (v, ?l)) more = old @ ?new" using seen(1) by simp
    ultimately show "?inv (bfs_turn succ nxt st)"
      unfolding turn prod.case keys' using more(1) by blast
    show "(bfs_turn succ nxt st, st) \<in> measure ?measure"
    proof -
      have "distinct more" using more(1) by (simp add: comp_def)
      have "card (?U - (keys seen \<union> set more)) + card (set more) = card (?U - keys seen)"
        by (rule card_newly_seen [OF finU sub]) (use more(2) in blast)
      then show ?thesis
        using distinct_card [OF \<open>distinct more\<close>] unfolding turn unfolding st in_measure prod.case keys' by simp
    qed
  next
    fix st assume "?inv st" "\<not> (\<lambda>(_, queue). queue \<noteq> []) st"
    then show "?inv st \<and> snd st = []" by (auto split: prod.splits)
  qed simp
  moreover define final where "final = while (\<lambda>(_, queue). queue \<noteq> []) (bfs_turn succ nxt) (old @ [(start, l)], [start])"
  ultimately have "?inv final" "snd final = []" by simp_all
  moreover obtain seen queue where "final = (seen, queue)" by (cases final)
  ultimately have inv: "?inv (seen, [])" and res: "bfs_loop succ nxt (old @ [(start, l)]) [start] = seen"
    using final_def by (simp_all add: bfs_loop_def)
  from inv obtain new where new: "seen = old @ new" "distinct (map fst seen)" "start \<in> keys new" "keys seen \<subseteq> ?U"
    "\<forall>u \<in> keys seen - set []. set (succ u) \<subseteq> keys seen" "\<forall>(v, l) \<in> set new. L l"
    unfolding prod.case by blast
  have "v \<in> keys seen" if "(start, v) \<in> ?R\<^sup>*" for v
    using that by (induction rule: rtrancl_induct) (use new(1,3,5) in \<open>auto simp: succ_rel_def\<close>)
  then show ?thesis using res new by (intro exI [of _ new]) auto
qed

subsection \<open>Reachability over allowed edges\<close>

definition allowed_arcs :: "('e \<Rightarrow> bool) \<Rightarrow> ('v \<times> 'v \<times> 'e) set \<Rightarrow> ('v \<times> 'v) set" where
  "allowed_arcs edge_allowed A = {(a, b). \<exists>w. (a, b, w) \<in> A \<and> edge_allowed w}"

context stable_graph
begin

lemma finite_reach:
  assumes "ok g" "x \<in> dom (vn g)" "\<And>u v. v \<in> set (succ u) \<Longrightarrow> v \<in> dom (vn g)"
  shows "finite ((succ_rel succ)\<^sup>* `` {x})"
proof (rule finite_subset)
  show "finite (dom (vn g))" using node_indices [OF assms(1)] by (metis List.finite_set)
  have "v \<in> dom (vn g)" if "(x, v) \<in> (succ_rel succ)\<^sup>*" for v
    using that assms(2) by (induction rule: rtrancl_induct) (auto simp: succ_rel_def dest!: assms(3))
  then show "(succ_rel succ)\<^sup>* `` {x} \<subseteq> dom (vn g)" by blast
qed

lemma slot_reach_agents:
  assumes "net_ok G vn ve ok net" "node_of net a = Some x"
  shows "(x, y) \<in> (allowed_arcs P (slot_arcs (go_directed G) (ve (nw_graph net))))\<^sup>* \<longleftrightarrow>
    (\<exists>b. node_of net b = Some y \<and> (a, b) \<in> (allowed_arcs P (net_arcs G ve net))\<^sup>*)"
proof
  assume "(x, y) \<in> (allowed_arcs P (slot_arcs (go_directed G) (ve (nw_graph net))))\<^sup>*"
  then show "\<exists>b. node_of net b = Some y \<and> (a, b) \<in> (allowed_arcs P (net_arcs G ve net))\<^sup>*"
  proof (induction rule: rtrancl_induct)
    case base
    then show ?case using assms(2) by blast
  next
    case (step y z)
    obtain b where b: "node_of net b = Some y" "(a, b) \<in> (allowed_arcs P (net_arcs G ve net))\<^sup>*" using step.IH by blast
    obtain w where w: "(y, z, w) \<in> slot_arcs (go_directed G) (ve (nw_graph net))" "P w"
      using step.hyps(2) by (auto simp: allowed_arcs_def)
    obtain c where c: "node_of net c = Some z" using slot_arc_agents [OF assms(1) w(1)] by blast
    have "(b, c) \<in> allowed_arcs P (net_arcs G ve net)"
      using w b(1) c by (auto simp: allowed_arcs_def net_arcs_slots agent_arcs_def)
    with b(2) c show ?case by (meson rtrancl.rtrancl_into_rtrancl)
  qed
next
  assume "\<exists>b. node_of net b = Some y \<and> (a, b) \<in> (allowed_arcs P (net_arcs G ve net))\<^sup>*"
  then obtain b where "(a, b) \<in> (allowed_arcs P (net_arcs G ve net))\<^sup>*" "node_of net b = Some y" by blast
  then show "(x, y) \<in> (allowed_arcs P (slot_arcs (go_directed G) (ve (nw_graph net))))\<^sup>*"
  proof (induction arbitrary: y rule: rtrancl_induct)
    case base
    then show ?case using assms(2) by simp
  next
    case (step b c)
    then obtain w u v where "node_of net b = Some u" "node_of net c = Some v"
      "(u, v, w) \<in> slot_arcs (go_directed G) (ve (nw_graph net))" "P w"
      by (auto simp: allowed_arcs_def net_arcs_slots agent_arcs_def)
    then have "(u, y) \<in> allowed_arcs P (slot_arcs (go_directed G) (ve (nw_graph net)))"
      using step.prems by (auto simp: allowed_arcs_def)
    with step.IH [OF \<open>node_of net b = Some u\<close>] show ?case by (rule rtrancl_into_rtrancl)
  qed
qed

lemma reachable_from_arcs:
  assumes ok_net: "net_ok G vn ve ok net"
  shows "reachable_from G seed edge_allowed net =
    (if seed \<in> net_nodes net then sorted_list_of_set {b. (seed, b) \<in> (allowed_arcs edge_allowed (net_arcs G ve net))\<^sup>*} else [])"
proof (cases "node_of net seed")
  case None
  then show ?thesis by (auto simp: reachable_from_def net_nodes_def)
next
  case (Some start)
  note ok = net_okD [OF ok_net]
  let ?g = "nw_graph net" and ?S = "slot_arcs (go_directed G) (ve (nw_graph net))"
  let ?succ = "\<lambda>cur. map fst (filter (\<lambda>(_, w). edge_allowed w) (go_edges G ?g cur))"
  have mem: "v \<in> set (?succ u) \<longleftrightarrow> (\<exists>w. (u, v, w) \<in> ?S \<and> edge_allowed w)" for u v
    unfolding go_edges_arcs [OF ok(1), symmetric] by (force simp: image_iff)
  have rel: "succ_rel ?succ = allowed_arcs edge_allowed ?S"
    unfolding succ_rel_def allowed_arcs_def mem ..
  have live_succ: "v \<in> dom (vn ?g)" if "v \<in> set (?succ u)" for u v
    using that slot_arc_agents [OF ok_net] unfolding mem by blast
  have "start \<in> dom (vn ?g)" using Some ok(2) by auto
  from finite_reach [OF ok(1) this live_succ] have fin: "finite ((succ_rel ?succ)\<^sup>* `` {start})" .
  obtain new where new: "bfs_loop ?succ (\<lambda>_. ()) [(start, ())] [start] = new" "distinct (map fst new)"
      "keys new = (succ_rel ?succ)\<^sup>* `` {start}"
    using bfs_loop_reaches [OF fin, of "[]" "\<lambda>_. True" "()" "\<lambda>_. ()"] by auto
  have agent: "node_of net (go_node G ?g x) = Some x" if "x \<in> keys new" for x
    using that slot_reach_agents [OF ok_net Some, of x edge_allowed] ok(2) node [OF ok(1)] by (auto simp: new(3) rel)
  have "inj_on (go_node G ?g) (keys new)" by (rule inj_on_inverseI [of _ "\<lambda>a. the (node_of net a)"]) (simp add: agent)
  then have "distinct (map (go_node G ?g) (map fst new))"
    using new(2) unfolding distinct_map [of "go_node G ?g"] by simp
  then have dist: "distinct (map (\<lambda>(x, _). go_node G ?g x) new)" by (simp add: case_prod_unfold comp_def)
  have "go_node G ?g ` keys new = {b. (seed, b) \<in> (allowed_arcs edge_allowed (net_arcs G ve net))\<^sup>*}"
  proof (intro set_eqI iffI)
    fix b assume "b \<in> go_node G ?g ` keys new"
    then obtain x where x: "b = go_node G ?g x" "x \<in> keys new" by blast
    then show "b \<in> {b. (seed, b) \<in> (allowed_arcs edge_allowed (net_arcs G ve net))\<^sup>*}"
      using slot_reach_agents [OF ok_net Some, of x edge_allowed] agent [OF x(2)] ok(3)
      by (auto simp: new(3) rel one_slot_each_def)
  next
    fix b assume b: "b \<in> {b. (seed, b) \<in> (allowed_arcs edge_allowed (net_arcs G ve net))\<^sup>*}"
    then have "(seed, b) \<in> (allowed_arcs edge_allowed (net_arcs G ve net))\<^sup>*" by simp
    then have "b \<in> net_nodes net"
      by (cases rule: rtranclE) (use Some in \<open>auto simp: allowed_arcs_def net_nodes_def net_arcs_slots agent_arcs_def\<close>)
    then obtain y where y: "node_of net b = Some y" by (auto simp: net_nodes_def)
    then have "y \<in> keys new" using b slot_reach_agents [OF ok_net Some, of y edge_allowed] by (auto simp: new(3) rel)
    moreover have "go_node G ?g y = b" using y ok(2) node [OF ok(1)] by blast
    ultimately show "b \<in> go_node G ?g ` keys new" by blast
  qed
  then have "set (map (\<lambda>(x, _). go_node G ?g x) new) = {b. (seed, b) \<in> (allowed_arcs edge_allowed (net_arcs G ve net))\<^sup>*}"
    by (simp add: case_prod_unfold image_image)
  then have "sort (map (\<lambda>(x, _). go_node G ?g x) new) =
      sorted_list_of_set {b. (seed, b) \<in> (allowed_arcs edge_allowed (net_arcs G ve net))\<^sup>*}"
    using sorted_list_of_set_sort_remdups [of "map (\<lambda>(x, _). go_node G ?g x) new"] dist
    by (simp add: distinct_remdups_id)
  then show ?thesis using Some by (simp add: reachable_from_def new(1) net_nodes_def domIff)
qed

lemma go_edges_in_arcs:
  "ok g \<Longrightarrow> (y, w) \<in> set (go_edges_in G g x) \<longleftrightarrow> (y, x, w) \<in> slot_arcs (go_directed G) (ve g)"
  using edges_in by (simp add: slot_arcs_def)

lemma slot_arc_source:
  assumes "net_ok G vn ve ok net" "(x, y, w) \<in> slot_arcs (go_directed G) (ve (nw_graph net))"
  shows "\<exists>a. vn (nw_graph net) x = Some a \<and> node_of net a = Some x"
proof -
  note ok = net_okD [OF assms(1)]
  from assms(2) obtain k p q where k: "ve (nw_graph net) k = Some (p, q, w)" "same_ends (go_directed G) p q x y"
    by (auto simp: slot_arcs_iff)
  then have "x \<in> dom (vn (nw_graph net))" using live [OF ok(1) k(1)] unfolding same_ends_def by blast
  then show ?thesis using ok(2) by auto
qed

lemma undirected_view_arcs:
  assumes ok_net: "net_ok G vn ve ok net"
  shows "b \<in> set (undirected_view G net a) \<longleftrightarrow> (\<exists>w. (a, b, w) \<in> net_arcs G ve net \<or> (b, a, w) \<in> net_arcs G ve net)"
proof (cases "node_of net a")
  case None
  then show ?thesis by (auto simp: undirected_view_def neighbors_directed_def net_arcs_slots agent_arcs_def)
next
  case (Some x)
  note ok = net_okD [OF ok_net]
  let ?g = "nw_graph net" and ?S = "slot_arcs (go_directed G) (ve (nw_graph net))"
  have agent: "node_of net (go_node G ?g y) = Some y" if "(x, y, w) \<in> ?S \<or> (y, x, w) \<in> ?S" for y w
    using that slot_arc_agents [OF ok_net, of x y w] slot_arc_source [OF ok_net, of y x w] node [OF ok(1)] ok(2) by auto
  have back_node: "go_node G ?g y = b" if "node_of net b = Some y" for b y using that ok(2) node [OF ok(1)] by blast
  have "b \<in> set (undirected_view G net a) \<longleftrightarrow>
      (\<exists>y w. ((y, w) \<in> set (go_edges G ?g x) \<or> (y, w) \<in> set (go_edges_in G ?g x)) \<and> b = go_node G ?g y)"
    using Some by (fastforce simp: undirected_view_def neighbors_directed_def go_edges_directed_def)
  also have "\<dots> \<longleftrightarrow> (\<exists>y w. ((x, y, w) \<in> ?S \<or> (y, x, w) \<in> ?S) \<and> b = go_node G ?g y)"
    by (simp only: go_edges_arcs [OF ok(1)] go_edges_in_arcs [OF ok(1)])
  also have "\<dots> \<longleftrightarrow> (\<exists>y w. ((x, y, w) \<in> ?S \<or> (y, x, w) \<in> ?S) \<and> node_of net b = Some y)"
    using agent back_node by metis
  also have "\<dots> \<longleftrightarrow> (\<exists>w. (a, b, w) \<in> net_arcs G ve net \<or> (b, a, w) \<in> net_arcs G ve net)"
    using Some by (auto simp: net_arcs_slots agent_arcs_def)
  finally show ?thesis .
qed

end

subsection \<open>Components\<close>

definition linked :: "(agent_id \<times> agent_id \<times> 'e) set \<Rightarrow> (agent_id \<times> agent_id) set" where
  "linked A = {(a, b). \<exists>w. (a, b, w) \<in> A \<or> (b, a, w) \<in> A}"

definition is_root :: "(agent_id \<times> agent_id \<times> 'e) set \<Rightarrow> agent_id \<Rightarrow> bool" where
  "is_root A a \<longleftrightarrow> (\<forall>b. (a, b) \<in> (linked A)\<^sup>* \<longrightarrow> a \<le> b)"

lemma linked_sym: "(a, b) \<in> (linked A)\<^sup>* \<Longrightarrow> (b, a) \<in> (linked A)\<^sup>*"
proof -
  have "sym (linked A)" by (auto simp: linked_def sym_def)
  then show "(a, b) \<in> (linked A)\<^sup>* \<Longrightarrow> (b, a) \<in> (linked A)\<^sup>*" using sym_rtrancl symD by metis
qed

lemma net_arcs_nodes: "(a, b, w) \<in> net_arcs G ve net \<Longrightarrow> a \<in> net_nodes net \<and> b \<in> net_nodes net"
  by (auto simp: net_arcs_def net_nodes_def)

lemma linked_nodes:
  "(a, b) \<in> (linked (net_arcs G ve net))\<^sup>* \<Longrightarrow> a \<in> net_nodes net \<Longrightarrow> b \<in> net_nodes net"
  by (induction rule: rtrancl_induct) (auto simp: linked_def dest: net_arcs_nodes)

text \<open>What the labelling has done after the agents \<open>pre\<close>.\<close>

definition labelled :: "(agent_id \<times> agent_id \<times> 'e) set \<Rightarrow> agent_id list \<Rightarrow> (agent_id \<times> nat) list \<times> nat \<Rightarrow> bool" where
  "labelled A pre st \<longleftrightarrow>
     distinct (map fst (fst st)) \<and> keys (fst st) = (linked A)\<^sup>* `` set pre \<and> snd st = length (filter (is_root A) pre) \<and>
     (\<forall>(a, l) \<in> set (fst st). l < snd st \<and> (filter (is_root A) pre ! l, a) \<in> (linked A)\<^sup>*)"

context stable_graph
begin

lemma label_from_labels:
  assumes ok: "net_ok G vn ve ok net" and A: "A = net_arcs G ve net"
    and lab: "labelled A pre st" and order: "sorted (pre @ a # post)" "distinct (pre @ a # post)"
    and all: "set (pre @ a # post) = net_nodes net"
  shows "labelled A (pre @ [a]) (label_from G net a st)"
proof -
  obtain cm nx where st: "st = (cm, nx)" by (cases st)
  let ?C = "(linked A)\<^sup>*"
  have cm: "distinct (map fst cm)" "keys cm = ?C `` set pre" "nx = length (filter (is_root A) pre)"
    "\<forall>(b, l) \<in> set cm. l < nx \<and> (filter (is_root A) pre ! l, b) \<in> ?C"
    using lab unfolding labelled_def st fst_conv snd_conv by blast+
  show ?thesis
  proof (cases "a \<in> keys cm")
    case True
    then obtain p where p: "p \<in> set pre" "(p, a) \<in> ?C" using cm(2) by blast
    then have "p < a" using order by (auto simp: sorted_append less_le)
    then have "\<not> is_root A a" using linked_sym [OF p(2)] by (auto simp: is_root_def)
    moreover have "?C `` {a} \<subseteq> ?C `` set pre" using p by (blast intro: rtrancl_trans)
    moreover have "label_from G net a st = st" using True map_of_keys [of cm a] by (simp add: st label_from_def)
    ultimately show ?thesis using cm by (auto simp: labelled_def st)
  next
    case False
    have root: "is_root A a"
      unfolding is_root_def
    proof (intro allI impI)
      fix b assume b: "(a, b) \<in> ?C"
      then have "b \<in> set (pre @ a # post)" using linked_nodes [of a b G ve net] all A by auto
      moreover have "b \<notin> set pre" using False linked_sym [OF b] cm(2) by blast
      ultimately show "a \<le> b" using order(1) by (auto simp: sorted_append)
    qed
    have rel: "succ_rel (undirected_view G net) = linked A"
      unfolding succ_rel_def linked_def undirected_view_arcs [OF ok] A ..
    have "finite (net_nodes net)" by (simp add: net_nodes_def node_of_def finite_dom_map_of)
    moreover have "?C `` {a} \<subseteq> net_nodes net" using linked_nodes [of a _ G ve net] all A by auto
    ultimately have fin: "finite (?C `` {a})" by (rule rev_finite_subset)
    have closed: "\<forall>u \<in> keys cm. set (undirected_view G net u) \<subseteq> keys cm"
    proof
      fix u assume "u \<in> keys cm"
      moreover have "v \<in> set (undirected_view G net u) \<Longrightarrow> (u, v) \<in> linked A" for v
        using rel by (auto simp: succ_rel_def)
      ultimately show "set (undirected_view G net u) \<subseteq> keys cm"
        unfolding cm(2) by (blast intro: rtrancl_into_rtrancl)
    qed
    from bfs_loop_reaches [OF fin [folded rel] closed False cm(1), of "\<lambda>l. l = nx" nx "\<lambda>_. nx", unfolded rel]
    obtain new where new: "bfs_loop (undirected_view G net) (\<lambda>_. nx) (cm @ [(a, nx)]) [a] = cm @ new"
      "distinct (map fst (cm @ new))" "keys new \<union> keys cm = ?C `` {a} \<union> keys cm" "\<forall>(v, l) \<in> set new. l = nx"
      by blast
    have step: "label_from G net a st = (cm @ new, nx + 1)"
      using False new(1) map_of_keys [of cm a] by (simp add: st label_from_def)
    have roots: "filter (is_root A) (pre @ [a]) = filter (is_root A) pre @ [a]" using root by simp
    have "keys new \<inter> keys cm = {}" using new(2) by auto
    then have linked_new: "(a, v) \<in> ?C" if "(v, l) \<in> set new" for v l
    proof -
      have "v \<in> keys new" using that by force
      then have "v \<in> ?C `` {a}" using new(3) \<open>keys new \<inter> keys cm = {}\<close> by blast
      then show ?thesis by simp
    qed
    have "\<forall>(b, l) \<in> set (cm @ new). l < nx + 1 \<and> ((filter (is_root A) pre @ [a]) ! l, b) \<in> ?C"
    proof (intro ballI, clarify)
      fix b l assume "(b, l) \<in> set (cm @ new)"
      then consider "(b, l) \<in> set cm" | "(b, l) \<in> set new" by auto
      then show "l < nx + 1 \<and> ((filter (is_root A) pre @ [a]) ! l, b) \<in> ?C"
      proof cases
        case 1
        then have "l < nx" "(filter (is_root A) pre ! l, b) \<in> ?C" using cm(4) by auto
        then show ?thesis using cm(3) by (simp add: nth_append)
      next
        case 2
        then have "l = nx" using new(4) by auto
        then show ?thesis using linked_new [OF 2] cm(3) by simp
      qed
    qed
    moreover have "keys (cm @ new) = ?C `` set (pre @ [a])"
    proof -
      have "keys (cm @ new) = keys new \<union> keys cm" by (simp add: image_Un Un_commute)
      also have "\<dots> = ?C `` {a} \<union> ?C `` set pre" using new(3) cm(2) by simp
      finally show ?thesis by auto
    qed
    ultimately show ?thesis using new(2) cm(3) unfolding labelled_def step roots by simp
  qed
qed

lemma membership_labelled:
  assumes ok: "net_ok G vn ve ok net"
  defines "ids \<equiv> sort (map fst (nw_index net))"
  shows "labelled (net_arcs G ve net) ids (fold (label_from G net) ids ([], 0))"
    and "set ids = net_nodes net" "sorted ids" "distinct ids"
proof -
  show all: "set ids = net_nodes net"
    by (simp add: ids_def net_nodes_def node_of_def dom_map_of_conv_image_fst)
  show order: "sorted ids" "distinct ids" using net_okD(5) [OF ok] by (simp_all add: ids_def)
  have "labelled (net_arcs G ve net) pre (fold (label_from G net) pre ([], 0))" if "ids = pre @ post" for pre post
    using that
  proof (induction pre arbitrary: post rule: rev_induct)
    case Nil
    then show ?case by (simp add: labelled_def)
  next
    case (snoc a pre)
    then have "ids = pre @ a # post" by simp
    with label_from_labels [OF ok refl snoc.IH [OF this], of a post] order all show ?case by simp
  qed
  from this [of ids "[]"] show "labelled (net_arcs G ve net) ids (fold (label_from G net) ids ([], 0))" by simp
qed

end

lemma follow_network_graph:
  "net_nodes follow_network = {AgentId 1, AgentId 2}"
  "net_arcs (list_graph_ops True) (\<lambda>g. lg_slot (lg_edges g)) follow_network = {(AgentId 2, AgentId 1, ())}"
proof -
  have "go_directed (list_graph_ops True :: (unit list_graph, unit) graph_ops) = True" by (simp add: list_graph_ops_def)
  then show "net_nodes follow_network = {AgentId 1, AgentId 2}"
    "net_arcs (list_graph_ops True) (\<lambda>g. lg_slot (lg_edges g)) follow_network = {(AgentId 2, AgentId 1, ())}"
    using conjunct2 [OF follow_network_refines]
    by (auto simp: list_graph.empty_refines follow_ops_def put_arc_def drop_arc_def same_ends_def)
qed

text \<open>
  C28: a search returns, in increasing order and each once, exactly the agents reachable from the
  seed over arcs whose payload is allowed - the seed among them - and nothing for an unknown seed.
\<close>

theorem reachable_from_correct:
  assumes "stable_graph G vn ve ok" "net_ok G vn ve ok net"
  shows "reachable_from G seed edge_allowed net =
    (if network_contains seed net
     then sorted_list_of_set {b. (seed, b) \<in> {(a, b). \<exists>w. (a, b, w) \<in> net_arcs G ve net \<and> edge_allowed w}\<^sup>*} else [])"
  using stable_graph.reachable_from_arcs [OF assms, of seed edge_allowed]
  by (auto simp: allowed_arcs_def network_contains_def net_nodes_def)

theorem reachable_from_correct_witness:
  "reachable_from (list_graph_ops True) (AgentId 2) (\<lambda>_. True) follow_network = [AgentId 1, AgentId 2] \<and>
   reachable_from (list_graph_ops True) (AgentId 1) (\<lambda>_. True) follow_network = [AgentId 1]"
proof -
  let ?G = "list_graph_ops True :: (unit list_graph, unit) graph_ops"
  let ?ve = "\<lambda>g :: unit list_graph. lg_slot (lg_edges g)"
  note ok = conjunct1 [OF follow_network_refines]
  note nodes = follow_network_graph(1) and arcs = follow_network_graph(2)
  have rel: "{(a, b). \<exists>w. (a, b, w) \<in> net_arcs ?G ?ve follow_network \<and> True} = {(AgentId 2, AgentId 1)}"
    by (auto simp: arcs)
  have "(x, b) \<in> {(AgentId 2, AgentId 1)}\<^sup>* \<longleftrightarrow> b = x \<or> x = AgentId 2 \<and> b = AgentId 1" for x b
    by (auto elim: rtranclE converse_rtranclE)
  then have reach: "{b. (AgentId 2, b) \<in> {(AgentId 2, AgentId 1)}\<^sup>*} = {AgentId 1, AgentId 2}"
    "{b. (AgentId 1, b) \<in> {(AgentId 2, AgentId 1)}\<^sup>*} = {AgentId 1}" by auto
  have "network_contains (AgentId 1) follow_network" "network_contains (AgentId 2) follow_network"
    using nodes by (auto simp: network_contains_def net_nodes_def)
  then show ?thesis
    using reachable_from_correct [OF list_graph.stable_graph_axioms ok, of "AgentId 2" "\<lambda>_. True"]
      reachable_from_correct [OF list_graph.stable_graph_axioms ok, of "AgentId 1" "\<lambda>_. True"]
    unfolding rel reach by simp
qed

lemma root_unique:
  assumes "is_root A x" "is_root A y" "(x, a) \<in> (linked A)\<^sup>*" "(y, a) \<in> (linked A)\<^sup>*"
  shows "x = y"
proof -
  have "(x, y) \<in> (linked A)\<^sup>*" using assms(3) linked_sym [OF assms(4)] by (rule rtrancl_trans)
  moreover from this have "(y, x) \<in> (linked A)\<^sup>*" by (rule linked_sym)
  ultimately have "x \<le> y" "y \<le> x" using assms(1,2) by (auto simp: is_root_def)
  then show ?thesis by simp
qed

text \<open>
  C18: every agent is labelled with the index, among the least members of the components in
  increasing order, of the one its own component has - so two agents share a label exactly when
  some undirected path joins them, and the labels are the numbers below the number of components.
\<close>

theorem components_are_classes:
  fixes net :: "'gr network" and G :: "('gr, 'e) graph_ops"
  defines "comps \<equiv> component_membership G net"
  assumes "stable_graph G vn ve ok" "net_ok G vn ve ok net"
    and "A = net_arcs G ve net" "roots = filter (is_root A) (sort (map fst (nw_index net)))"
  shows "distinct (map fst comps) \<and> fst ` set comps = {a. network_contains a net} \<and>
    (\<forall>(a, l) \<in> set comps. l < length roots \<and> (roots ! l, a) \<in> (linked A)\<^sup>*) \<and>
    connected_components G net = length roots"
proof -
  let ?ids = "sort (map fst (nw_index net))"
  note lab = stable_graph.membership_labelled [OF assms(2,3), folded assms(4)]
  have nodes: "(linked A)\<^sup>* `` set ?ids = net_nodes net"
    unfolding lab(2) using linked_nodes [of _ _ G ve net] by (auto simp: assms(4))
  have comps: "distinct (map fst comps)" "keys comps = net_nodes net"
    "\<forall>(a, l) \<in> set comps. l < length roots \<and> (roots ! l, a) \<in> (linked A)\<^sup>*"
    using lab(1) nodes unfolding labelled_def comps_def component_membership_def assms(5) by auto
  have root: "is_root A (roots ! i)" "roots ! i \<in> net_nodes net" if "i < length roots" for i
    using that nth_mem [OF that] lab(2) unfolding assms(5) by simp_all
  have "distinct roots" using lab(4) unfolding assms(5) by simp
  have "snd ` set comps = {..<length roots}"
  proof
    show "snd ` set comps \<subseteq> {..<length roots}" using comps(3) by auto
    show "{..<length roots} \<subseteq> snd ` set comps"
    proof
      fix i assume "i \<in> {..<length roots}"
      then have i: "i < length roots" by simp
      then have "roots ! i \<in> keys comps" using root comps(2) by simp
      then obtain l where l: "(roots ! i, l) \<in> set comps" by auto
      then have "l < length roots" "(roots ! l, roots ! i) \<in> (linked A)\<^sup>*" using comps(3) by auto
      then have "roots ! l = roots ! i" using root_unique [OF root(1) root(1) _ rtrancl_refl] i by blast
      then have "l = i" using \<open>distinct roots\<close> \<open>l < length roots\<close> i by (simp add: nth_eq_iff_index_eq)
      then show "i \<in> snd ` set comps" using l by force
    qed
  qed
  then have "length (remdups_adj (sort (map snd comps))) = length roots"
    using distinct_card [of "remdups_adj (sort (map snd comps))"] distinct_remdups_adj_if_sorted [of "sort (map snd comps)"]
    by simp
  moreover have "roots = []" if "network_node_count G net = 0"
  proof -
    have "finite (net_nodes net)" by (simp add: net_nodes_def node_of_def finite_dom_map_of)
    then have "net_nodes net = {}" using that stable_graph.node_count_nodes [OF assms(2,3)] by simp
    then show ?thesis using lab(2) unfolding assms(5) by (metis filter.simps(1) set_empty)
  qed
  ultimately have "connected_components G net = length roots"
    by (auto simp: connected_components_def comps_def)
  then show ?thesis using comps by (auto simp: network_contains_def net_nodes_def)
qed

theorem components_are_classes_witness:
  "connected_components (list_graph_ops True) follow_network = 1"
proof -
  let ?G = "list_graph_ops True :: (unit list_graph, unit) graph_ops"
  let ?ve = "\<lambda>g :: unit list_graph. lg_slot (lg_edges g)" and ?ids = "sort (map fst (nw_index follow_network))"
  note ok = conjunct1 [OF follow_network_refines]
  let ?A = "net_arcs ?G ?ve follow_network"
  have ids: "?ids = [AgentId 1, AgentId 2]"
    by (rule sorted_distinct_set_unique)
      (use list_graph.membership_labelled(2-4) [OF ok] follow_network_graph(1) in auto)
  have link: "(AgentId 2, AgentId 1) \<in> (linked ?A)\<^sup>*" by (auto simp: linked_def follow_network_graph(2))
  then have "\<not> is_root ?A (AgentId 2)" by (auto simp: is_root_def)
  moreover have "is_root ?A (AgentId 1)"
    using linked_nodes [of "AgentId 1" _ ?G ?ve follow_network] follow_network_graph(1) by (fastforce simp: is_root_def)
  ultimately have "filter (is_root ?A) ?ids = [AgentId 1]" unfolding ids by simp
  then show ?thesis
    using components_are_classes [OF list_graph.stable_graph_axioms ok refl refl] by simp
qed

end
