(* ===== verification/Network_Gen.thy ===== *)
theory Network_Gen
  imports Network_Search Fenwick
begin

section \<open>Random network generators (crates/socsim-net/src/lib.rs)\<close>

text \<open>
  The random numbers (\<open>rand\<close> over \<open>SimRng\<close>) and the operations of \<open>f64\<close> are parameters. A loop
  that gives up after a number of tries is a recursion on the tries left.
\<close>

record ('f, 'r) gen_ops =
  gn_f64 :: "'r \<Rightarrow> 'f \<times> 'r"
  gn_bool :: "'r \<Rightarrow> bool \<times> 'r"
  gn_range :: "nat \<Rightarrow> 'r \<Rightarrow> nat \<times> 'r"
  gn_clamp01 :: "'f \<Rightarrow> 'f"
  gn_less :: "'f \<Rightarrow> 'f \<Rightarrow> bool"
  gn_le :: "'f \<Rightarrow> 'f \<Rightarrow> bool"
  gn_mul :: "'f \<Rightarrow> 'f \<Rightarrow> 'f"
  gn_of_u64 :: "64 word \<Rightarrow> 'f"

definition add_nodes :: "('gr, 'e) graph_ops \<Rightarrow> agent_id list \<Rightarrow> 'gr network \<Rightarrow> 'gr network" where
  "add_nodes G ids net = fold (network_add_node G) ids net"

text \<open>\<open>for i in 0..n { for j in (i + 1)..n { ... } }\<close>, and over the ordered pairs.\<close>

definition upper_pairs :: "nat \<Rightarrow> (nat \<times> nat) list" where
  "upper_pairs n = concat (map (\<lambda>i. map (Pair i) [i + 1..<n]) [0..<n])"

definition ordered_pairs :: "nat \<Rightarrow> (nat \<times> nat) list" where
  "ordered_pairs n = filter (\<lambda>(i, j). i \<noteq> j) (concat (map (\<lambda>i. map (Pair i) [0..<n]) [0..<n]))"

subsection \<open>Erdos-Renyi\<close>

definition maybe_edge ::
    "('gr, unit) graph_ops \<Rightarrow> ('f, 'r) gen_ops \<Rightarrow> agent_id list \<Rightarrow> 'f \<Rightarrow> nat \<times> nat \<Rightarrow> 'gr network \<times> 'r \<Rightarrow> 'gr network \<times> 'r" where
  "maybe_edge G R ids p ij st =
     (let (i, j) = ij; (net, rng) = st; (u, rng') = gn_f64 R rng
      in (if gn_less R u p then add_edge G (ids ! i) (ids ! j) net else net, rng'))"

definition erdos_renyi ::
    "('gr, unit) graph_ops \<Rightarrow> ('f, 'r) gen_ops \<Rightarrow> agent_id list \<Rightarrow> 'f \<Rightarrow> 'r \<Rightarrow> 'gr network \<times> 'r" where
  "erdos_renyi G R ids p rng =
     fold (maybe_edge G R ids (gn_clamp01 R p)) (upper_pairs (length ids)) (add_nodes G ids (network_empty G), rng)"

definition erdos_renyi_directed ::
    "('gr, unit) graph_ops \<Rightarrow> ('f, 'r) gen_ops \<Rightarrow> agent_id list \<Rightarrow> 'f \<Rightarrow> 'r \<Rightarrow> 'gr network \<times> 'r" where
  "erdos_renyi_directed G R ids p rng =
     fold (maybe_edge G R ids (gn_clamp01 R p)) (ordered_pairs (length ids)) (add_nodes G ids (network_empty G), rng)"

subsection \<open>Watts-Strogatz\<close>

text \<open>\<open>net.index[&id]\<close> panics when the agent is missing, which no agent of \<open>ids\<close> is.\<close>

definition index_of :: "'gr network \<Rightarrow> agent_id \<Rightarrow> nat" where
  "index_of net a = the (node_of net a)"

definition ring_pairs :: "nat \<Rightarrow> nat \<Rightarrow> (nat \<times> nat) list" where
  "ring_pairs n half_k = concat (map (\<lambda>i. map (\<lambda>d. (i, (i + d) mod n)) [1..<Suc half_k]) [0..<n])"

definition ring_edge :: "('gr, unit) graph_ops \<Rightarrow> agent_id list \<Rightarrow> nat \<times> nat \<Rightarrow> 'gr network \<Rightarrow> 'gr network" where
  "ring_edge G ids ij net =
     (let (i, j) = ij
      in if go_find_edge G (nw_graph net) (index_of net (ids ! i)) (index_of net (ids ! j)) = None
         then add_edge G (ids ! i) (ids ! j) net else net)"

fun rewire_tries ::
    "('gr, unit) graph_ops \<Rightarrow> ('f, 'r) gen_ops \<Rightarrow> agent_id list \<Rightarrow> nat \<Rightarrow> nat \<Rightarrow> nat \<Rightarrow> 'gr network \<times> 'r \<Rightarrow> 'gr network \<times> 'r" where
  "rewire_tries G R ids i e 0 st = st"
| "rewire_tries G R ids i e (Suc tries) (net, rng) =
     (let (k_new, rng') = gn_range R (length ids) rng
      in if k_new = i then rewire_tries G R ids i e tries (net, rng')
         else
           let ni = index_of net (ids ! i); nk = index_of net (ids ! k_new)
           in if go_find_edge G (nw_graph net) ni nk = None
              then (net\<lparr>nw_graph := go_add_edge G ni nk () (go_remove_edge G e (nw_graph net))\<rparr>, rng')
              else rewire_tries G R ids i e tries (net, rng'))"

text \<open>\<open>tries > 2 * n as u32 + 10\<close> ends the loop; the limit is \<open>u32\<close> arithmetic.\<close>

definition rewire_limit :: "nat \<Rightarrow> nat" where
  "rewire_limit n = (2 * n + 10) mod 2 ^ 32"

definition rewire_edge ::
    "('gr, unit) graph_ops \<Rightarrow> ('f, 'r) gen_ops \<Rightarrow> agent_id list \<Rightarrow> 'f \<Rightarrow> nat \<times> nat \<Rightarrow> 'gr network \<times> 'r \<Rightarrow> 'gr network \<times> 'r" where
  "rewire_edge G R ids beta ij st =
     (let (i, j) = ij; (net, rng) = st; (u, rng') = gn_f64 R rng
      in if gn_less R u beta
         then (case go_find_edge G (nw_graph net) (index_of net (ids ! i)) (index_of net (ids ! j)) of
                 Some e \<Rightarrow> rewire_tries G R ids i e (rewire_limit (length ids)) (net, rng')
               | None \<Rightarrow> (net, rng'))
         else (net, rng'))"

definition half_degree :: "nat \<Rightarrow> nat \<Rightarrow> nat" where
  "half_degree n k = max (min k (n - 1) div 2) 1"

definition watts_strogatz ::
    "('gr, unit) graph_ops \<Rightarrow> ('f, 'r) gen_ops \<Rightarrow> agent_id list \<Rightarrow> nat \<Rightarrow> 'f \<Rightarrow> 'r \<Rightarrow> 'gr network \<times> 'r" where
  "watts_strogatz G R ids k beta rng =
     (let n = length ids; half_k = half_degree n k;
          net = fold (ring_edge G ids) (ring_pairs n half_k) (add_nodes G ids (network_empty G))
      in fold (rewire_edge G R ids (gn_clamp01 R beta)) (ring_pairs n half_k) (net, rng))"

subsection \<open>Barabasi-Albert\<close>

text \<open>The weight of a node is a count of its edges plus one: all of them, or the incoming ones.\<close>

definition weigh ::
    "('gr \<Rightarrow> nat \<Rightarrow> nat) \<Rightarrow> 'gr network \<Rightarrow> nat \<Rightarrow> fenwick_tree \<Rightarrow> fenwick_tree" where
  "weigh deg net x weights = fenwick_set x (of_nat (deg (nw_graph net) x + 1)) weights"

fun choose_targets ::
    "('gr, unit) graph_ops \<Rightarrow> ('f, 'r) gen_ops \<Rightarrow> 'gr network \<Rightarrow> nat \<Rightarrow> fenwick_tree \<Rightarrow> 'f \<Rightarrow> nat \<Rightarrow> nat \<Rightarrow> nat list \<times> 'r \<Rightarrow>
     nat list \<times> 'r" where
  "choose_targets G R net ni weights tot wanted 0 (chosen, rng) = (chosen, rng)"
| "choose_targets G R net ni weights tot wanted (Suc attempts) (chosen, rng) =
     (if length chosen < wanted
      then
        let (u, rng') = gn_f64 R rng
        in case first_prefix_greater_than (gn_of_u64 R) (gn_le R) weights (gn_mul R u tot) of
             Some target \<Rightarrow>
               if target \<notin> set chosen \<and> go_find_edge G (nw_graph net) ni target = None
               then choose_targets G R net ni weights tot wanted attempts (chosen @ [target], rng')
               else choose_targets G R net ni weights tot wanted attempts (chosen, rng')
           | None \<Rightarrow> choose_targets G R net ni weights tot wanted attempts (chosen, rng')
      else (chosen, rng))"

definition attempt_limit :: "nat \<Rightarrow> nat" where
  "attempt_limit m = (10 * m + 100) mod 2 ^ 32"

definition attach_node ::
    "('gr, unit) graph_ops \<Rightarrow> ('f, 'r) gen_ops \<Rightarrow> ('gr \<Rightarrow> nat \<Rightarrow> nat) \<Rightarrow> nat \<Rightarrow> agent_id \<Rightarrow>
     'gr network \<times> fenwick_tree \<times> 'r \<Rightarrow> 'gr network \<times> fenwick_tree \<times> 'r" where
  "attach_node G R deg m new_id st =
     (let (net0, weights0, rng0) = st;
          net1 = network_add_node G new_id net0; ni = index_of net1 new_id;
          existing_len = network_node_count G net1 - 1;
          weights1 = fenwick_set ni 0 weights0;
          tot = gn_of_u64 R (fenwick_total weights1);
          (chosen, rng1) = choose_targets G R net1 ni weights1 tot (min m existing_len) (attempt_limit m) ([], rng0);
          net2 = net1\<lparr>nw_graph := fold (\<lambda>target. go_add_edge G ni target ()) chosen (nw_graph net1)\<rparr>;
          weights2 = fold (weigh deg net2) chosen weights1
      in (net2, weigh deg net2 ni weights2, rng1))"

definition clamp_m :: "nat \<Rightarrow> nat \<Rightarrow> nat" where
  "clamp_m n m = min (max m 1) (max (n - 1) 1)"

definition grow_by_attachment ::
    "('gr, unit) graph_ops \<Rightarrow> ('f, 'r) gen_ops \<Rightarrow> ('gr \<Rightarrow> nat \<Rightarrow> nat) \<Rightarrow> (nat \<times> nat \<Rightarrow> 'gr network \<Rightarrow> 'gr network) \<Rightarrow>
     agent_id list \<Rightarrow> nat \<Rightarrow> 'r \<Rightarrow> 'gr network \<times> 'r" where
  "grow_by_attachment G R deg link ids m0 rng =
     (let n = length ids; m = clamp_m n m0
      in if n = 0 then (network_empty G, rng)
         else
           let seed_n = min (m + 1) n;
               net = fold link (upper_pairs seed_n) (add_nodes G (take seed_n ids) (network_empty G));
               weights = fold (weigh deg net) (go_node_indices G (nw_graph net)) (fenwick_new n);
               (net', _, rng') = fold (attach_node G R deg m) (drop seed_n ids) (net, weights, rng)
           in (net', rng'))"

definition barabasi_albert ::
    "('gr, unit) graph_ops \<Rightarrow> ('f, 'r) gen_ops \<Rightarrow> agent_id list \<Rightarrow> nat \<Rightarrow> 'r \<Rightarrow> 'gr network \<times> 'r" where
  "barabasi_albert G R ids m rng =
     grow_by_attachment G R (\<lambda>g x. length (go_edges G g x))
       (\<lambda>(i, j). add_edge G (ids ! i) (ids ! j)) ids m rng"

definition barabasi_albert_directed ::
    "('gr, unit) graph_ops \<Rightarrow> ('f, 'r) gen_ops \<Rightarrow> agent_id list \<Rightarrow> nat \<Rightarrow> 'r \<Rightarrow> 'gr network \<times> 'r" where
  "barabasi_albert_directed G R ids m rng =
     grow_by_attachment G R (\<lambda>g x. length (go_edges_in G g x))
       (\<lambda>(i, j) net. add_edge G (ids ! j) (ids ! i) (add_edge G (ids ! i) (ids ! j) net)) ids m rng"

subsection \<open>Directing an undirected network\<close>

definition direct_edge ::
    "('gr2, unit) graph_ops \<Rightarrow> ('f, 'r) gen_ops \<Rightarrow> 'f \<Rightarrow> agent_id \<times> agent_id \<Rightarrow> 'gr2 network \<times> 'r \<Rightarrow> 'gr2 network \<times> 'r" where
  "direct_edge D R p ab st =
     (let (a, b) = ab; (net, rng) = st; (u, rng') = gn_f64 R rng
      in if gn_less R u p then (add_edge D b a (add_edge D a b net), rng')
         else
           let (forward, rng'') = gn_bool R rng'
           in (if forward then add_edge D a b net else add_edge D b a net, rng''))"

definition to_directed ::
    "('gr, unit) graph_ops \<Rightarrow> ('gr2, unit) graph_ops \<Rightarrow> ('f, 'r) gen_ops \<Rightarrow> 'f \<Rightarrow> 'gr network \<Rightarrow> 'r \<Rightarrow> 'gr2 network \<times> 'r" where
  "to_directed G D R p_mutual self rng =
     fold (direct_edge D R (gn_clamp01 R p_mutual)) (sort (network_edges G self))
       (add_nodes D (sort (map fst (nw_index self))) (network_empty D), rng)"

subsection \<open>Edges come and go one at a time\<close>

context stable_graph
begin

lemma edge_count_card: "ok (nw_graph net) \<Longrightarrow> network_edge_count G net = card (dom (ve (nw_graph net)))"
  using edge_indices [of "nw_graph net"] distinct_card [of "go_edge_indices G (nw_graph net)"]
  by (simp add: network_edge_count_def)

lemma count_added:
  assumes "ok g" "x \<in> dom (vn g)" "y \<in> dom (vn g)"
  shows "card (dom (ve (go_add_edge G x y w g))) = Suc (card (dom (ve g)))"
proof -
  obtain k where "ve g k = None" "ve (go_add_edge G x y w g) = (ve g)(k \<mapsto> (x, y, w))"
    using add_edge [OF assms] by blast
  then show ?thesis using finite_edges [OF assms(1)] by (simp add: domIff)
qed

lemma count_removed:
  assumes "ok g" "ve g k = Some e"
  shows "Suc (card (dom (ve (go_remove_edge G k g)))) = card (dom (ve g))"
proof -
  have "dom (ve (go_remove_edge G k g)) = dom (ve g) - {k}" "k \<in> dom (ve g)"
    using remove_edge [OF assms] assms(2) by auto
  then show ?thesis using finite_edges [OF assms(1)] card_Suc_Diff1 [of "dom (ve g)" k] by simp
qed

lemma find_edge_arcs:
  assumes "net_ok G vn ve ok net" "node_of net a = Some x" "node_of net b = Some y"
  shows "go_find_edge G (nw_graph net) x y = None \<longleftrightarrow> (\<nexists>w. (a, b, w) \<in> net_arcs G ve net)"
proof -
  have "(a, b, w) \<in> net_arcs G ve net \<longleftrightarrow>
      (\<exists>k. go_find_edge G (nw_graph net) x y = Some k \<and> (\<exists>p q. ve (nw_graph net) k = Some (p, q, w)))" for w
    unfolding net_arcs_slots agent_arcs_iff [OF assms(2,3)] slot_arcs_iff find_edge_Some [OF net_okD(1,4) [OF assms(1)]]
    by (metis option.inject prod.inject)
  moreover have "\<exists>p q w. ve (nw_graph net) k = Some (p, q, w)" if "go_find_edge G (nw_graph net) x y = Some k" for k
    using that find_edge_Some [OF net_okD(1,4) [OF assms(1)]] by blast
  ultimately show ?thesis by (cases "go_find_edge G (nw_graph net) x y") auto
qed

end

text \<open>Adding an absent edge between two agents, and moving one end of a present edge.\<close>

lemma add_absent_edge:
  fixes G :: "('gr, unit) graph_ops"
  assumes graph: "stable_graph G vn ve ok" and ok: "net_ok G vn ve ok net"
    and ab: "a \<in> net_nodes net" "b \<in> net_nodes net" "(a, b, ()) \<notin> net_arcs G ve net"
  shows "network_edge_count G (add_edge G a b net) = Suc (network_edge_count G net)"
proof -
  obtain x y where xy: "node_of net a = Some x" "node_of net b = Some y" using ab by (auto simp: net_nodes_def)
  have none: "go_find_edge G (nw_graph net) x y = None"
    using stable_graph.find_edge_arcs [OF graph ok xy] ab(3) by (metis (full_types) old.unit.exhaust)
  then have net': "add_edge G a b net = net\<lparr>nw_graph := go_add_edge G x y () (nw_graph net)\<rparr>"
    using xy by (simp add: add_edge_def both_nodes_def)
  have dom: "x \<in> dom (vn (nw_graph net))" "y \<in> dom (vn (nw_graph net))" using xy net_okD(2) [OF ok] by blast+
  have "ok (nw_graph (add_edge G a b net))" using add_edge_refines [OF graph ok, of a b] net_okD(1) by blast
  then show ?thesis
    using stable_graph.count_added [OF graph net_okD(1) [OF ok] dom, of "()"]
      stable_graph.edge_count_card [OF graph] net_okD(1) [OF ok] by (simp add: net')
qed

end
