(* ===== verification/Small_World.thy ===== *)
theory Small_World
  imports Network_Gen
begin

section \<open>The Watts-Strogatz network is simple and keeps the edges of its ring\<close>

text \<open>
  The ring inserts pairwise different unordered pairs, so it has one edge per pair; a rewiring moves
  one end of a present edge to an agent that is not yet joined, so the number of edges stays.
\<close>

definition ring_state ::
    "('gr, unit) graph_ops \<Rightarrow> ('gr \<Rightarrow> nat \<Rightarrow> agent_id option) \<Rightarrow> ('gr \<Rightarrow> nat \<Rightarrow> unit edge_slot option) \<Rightarrow>
     ('gr \<Rightarrow> bool) \<Rightarrow> agent_id list \<Rightarrow> nat \<Rightarrow> 'gr network \<Rightarrow> bool" where
  "ring_state G vn ve ok ids c net \<longleftrightarrow>
     net_ok G vn ve ok net \<and> net_nodes net = set ids \<and> (\<forall>a. (a, a, ()) \<notin> net_arcs G ve net) \<and>
     network_edge_count G net = c"

subsection \<open>The ring\<close>

lemma ring_pairs_iff: "(i, j) \<in> set (ring_pairs n h) \<longleftrightarrow> i < n \<and> (\<exists>d \<in> {1..h}. j = (i + d) mod n)"
proof -
  have "set (ring_pairs n h) = (\<Union>i \<in> {..<n}. (\<lambda>d. (i, (i + d) mod n)) ` {1..h})"
    by (simp add: ring_pairs_def atLeastLessThanSuc_atLeastAtMost lessThan_atLeast0 del: upt_Suc)
  then show ?thesis by auto
qed

lemma length_ring_pairs: "length (ring_pairs n h) = n * h"
proof -
  have "length (concat (map (\<lambda>i. map (\<lambda>d. (i, (i + d) mod n)) [1..<Suc h]) xs)) = length xs * h" for xs
    by (induction xs) simp_all
  then show ?thesis by (simp add: ring_pairs_def)
qed

lemma ring_step_apart:
  fixes n :: nat
  assumes "i < n" "1 \<le> d" "d \<le> h" "2 * h < n"
  shows "(i + d) mod n < n" "(i + d) mod n \<noteq> i"
proof -
  show "(i + d) mod n < n" using assms by simp
  have "(i + d) mod n \<noteq> i mod n"
  proof
    assume "(i + d) mod n = i mod n"
    then have "(i + d - i) mod n = 0" by (simp add: mod_eq_dvd_iff_nat)
    then show False using assms by simp
  qed
  then show "(i + d) mod n \<noteq> i" using assms by simp
qed

lemma ring_step_inj:
  fixes n :: nat
  assumes "i < n" "d \<in> {1..h}" "d' \<in> {1..h}" "2 * h < n" "(i + d) mod n = (i + d') mod n"
  shows "d = d'"
proof -
  have same: "a = b" if "a \<le> b" "b \<le> h" "(i + a) mod n = (i + b) mod n" for a b
  proof -
    have "n dvd i + b - (i + a)" using that mod_eq_dvd_iff_nat [of "i + a" "i + b" n] by simp
    then have "n dvd b - a" by simp
    with that assms(4) dvd_imp_le [of n "b - a"] show ?thesis by (cases "a = b") simp_all
  qed
  have "d \<le> h" "d' \<le> h" using assms(2,3) by simp_all
  then show ?thesis using same [OF _ _ assms(5)] same [OF _ _ assms(5) [symmetric]] nat_le_linear [of d d'] by blast
qed

lemma ring_step_not_back:
  fixes n :: nat
  assumes "i < n" "d \<in> {1..h}" "d' \<in> {1..h}" "2 * h < n"
  shows "((i + d) mod n + d') mod n \<noteq> i"
proof
  assume "((i + d) mod n + d') mod n = i"
  then have "(i + (d + d')) mod n = i mod n" using assms(1) by (metis add.assoc mod_add_left_eq mod_mod_trivial)
  then have "(i + (d + d') - i) mod n = 0" by (simp add: mod_eq_dvd_iff_nat)
  then show False using assms by simp
qed

lemma ring_pairs_apart:
  assumes "2 * h < n" "(i, j) \<in> set (ring_pairs n h)"
  shows "i < n \<and> j < n \<and> i \<noteq> j"
proof -
  obtain d where d: "i < n" "d \<in> {1..h}" "j = (i + d) mod n" using assms(2) ring_pairs_iff by blast
  then show ?thesis using ring_step_apart [of i n d h] assms(1) by auto
qed

lemma ring_pairs_simple:
  assumes "2 * h < n" "(i, j) \<in> set (ring_pairs n h)" "(p, q) \<in> set (ring_pairs n h)" "same_ends False i j p q"
  shows "(i, j) = (p, q)"
proof (rule ccontr)
  assume "(i, j) \<noteq> (p, q)"
  then have "p = j" "q = i" using assms(4) by (auto simp: same_ends_def)
  obtain d where d: "i < n" "d \<in> {1..h}" "j = (i + d) mod n" using assms(2) ring_pairs_iff by blast
  obtain d' where d': "d' \<in> {1..h}" "q = (p + d') mod n" using assms(3) ring_pairs_iff by blast
  from ring_step_not_back [OF d(1,2) d'(1) assms(1)] show False
    using d'(2) unfolding \<open>p = j\<close> \<open>q = i\<close> d(3) by metis
qed

lemma distinct_ring_pairs:
  assumes "2 * h < n"
  shows "distinct (ring_pairs n h)"
proof -
  have "distinct (concat (map (\<lambda>i. map (\<lambda>d. (i, (i + d) mod n)) [1..<Suc h]) xs))"
    if "distinct xs" "set xs \<subseteq> {..<n}" for xs
    using that
  proof (induction xs)
    case (Cons i xs)
    have "inj_on (\<lambda>d. (i, (i + d) mod n)) {1..h}"
      using ring_step_inj [of i n] Cons.prems(2) assms by (intro inj_onI) auto
    then have "distinct (map (\<lambda>d. (i, (i + d) mod n)) [1..<Suc h])"
      by (simp add: distinct_map atLeastLessThanSuc_atLeastAtMost del: upt_Suc)
    then show ?case using Cons by (auto simp del: upt_Suc)
  qed simp
  then show ?thesis by (simp add: ring_pairs_def lessThan_atLeast0)
qed

subsection \<open>Inserting the ring\<close>

lemma index_of_node: "a \<in> net_nodes net \<Longrightarrow> node_of net a = Some (index_of net a)"
  by (auto simp: net_nodes_def index_of_def)

lemma ring_edge_adds:
  assumes "ids ! i \<in> net_nodes net" "ids ! j \<in> net_nodes net"
  shows "ring_edge G ids (i, j) net = add_edge G (ids ! i) (ids ! j) net"
  using index_of_node [OF assms(1)] index_of_node [OF assms(2)]
  by (simp add: ring_edge_def add_edge_def both_nodes_def)

lemma add_edges_count:
  fixes G :: "('gr, unit) graph_ops"
  assumes graph: "stable_graph G vn ve ok" and ok: "net_ok G vn ve ok net"
    and "\<forall>(a, b) \<in> set es. a \<in> net_nodes net \<and> b \<in> net_nodes net \<and> (a, b, ()) \<notin> net_arcs G ve net"
    and "distinct es"
    and "\<forall>(a, b) \<in> set es. \<forall>(c, d) \<in> set es. same_ends (go_directed G) a b c d \<longrightarrow> (a, b) = (c, d)"
  shows "network_edge_count G (fold (\<lambda>(a, b). add_edge G a b) es net) = network_edge_count G net + length es"
  using ok assms(3-)
proof (induction es arbitrary: net)
  case (Cons e es)
  obtain a b where e: "e = (a, b)" by (cases e)
  from Cons.prems(2) have ab: "a \<in> net_nodes net" "b \<in> net_nodes net" "(a, b, ()) \<notin> net_arcs G ve net"
    by (simp_all add: e)
  from add_edge_refines [OF graph Cons.prems(1), of a b] ab
  have step: "net_ok G vn ve ok (add_edge G a b net)" "net_nodes (add_edge G a b net) = net_nodes net"
    "net_arcs G ve (add_edge G a b net) = put_arc (go_directed G) a b () (net_arcs G ve net)" by simp_all
  have "\<not> same_ends (go_directed G) a b c d" if "(c, d) \<in> set es" for c d
    using Cons.prems(3,4) that by (auto simp: e)
  then have "\<forall>(c, d) \<in> set es. c \<in> net_nodes (add_edge G a b net) \<and> d \<in> net_nodes (add_edge G a b net) \<and>
      (c, d, ()) \<notin> net_arcs G ve (add_edge G a b net)"
    using Cons.prems(2) by (auto simp: step(2,3) put_arc_def drop_arc_def)
  moreover have "\<forall>(a, b) \<in> set es. \<forall>(c, d) \<in> set es. same_ends (go_directed G) a b c d \<longrightarrow> (a, b) = (c, d)"
    using Cons.prems(4) by auto
  ultimately show ?case
    using Cons.IH [OF step(1)] Cons.prems(3) add_absent_edge [OF graph Cons.prems(1) ab] by (simp add: e)
qed simp

lemma ring_state_ring:
  fixes G :: "('gr, unit) graph_ops"
  assumes graph: "stable_graph G vn ve ok" and und: "\<not> go_directed G" and ids: "distinct ids"
    and h: "2 * h < length ids"
  shows "ring_state G vn ve ok ids (length ids * h)
    (fold (ring_edge G ids) (ring_pairs (length ids) h) (add_nodes G ids (network_empty G)))"
proof -
  let ?base = "add_nodes G ids (network_empty G)" and ?ps = "ring_pairs (length ids) h"
  let ?es = "map (\<lambda>(i, j). (ids ! i, ids ! j)) ?ps"
  have base: "net_ok G vn ve ok ?base" "net_nodes ?base = set ids" "net_arcs G ve ?base = {}"
    using add_nodes_refine [OF graph, of "network_empty G" ids] stable_graph.empty_refines [OF graph]
    by (simp_all add: add_nodes_def)
  have "network_edge_count G ?base = card (dom (ve (nw_graph ?base)))"
    by (rule stable_graph.edge_count_card [OF graph net_okD(1) [OF base(1)]])
  also have "dom (ve (nw_graph ?base)) = {}"
  proof -
    have False if "ve (nw_graph ?base) k = Some (x, y, w)" for k x y w
    proof -
      have "x \<in> dom (vn (nw_graph ?base))" "y \<in> dom (vn (nw_graph ?base))"
        using stable_graph.live [OF graph net_okD(1) [OF base(1)] that] by blast+
      then obtain a b where "node_of ?base a = Some x" "node_of ?base b = Some y"
        using net_okD(2) [OF base(1)] by blast
      then have "(a, b, w) \<in> net_arcs G ve ?base"
        unfolding net_arcs_slots agent_arcs_iff [OF \<open>node_of ?base a = Some x\<close> \<open>node_of ?base b = Some y\<close>] slot_arcs_iff
        using that same_ends_refl [of "go_directed G" x y] by blast
      then show False by (simp add: base(3))
    qed
    then show ?thesis by (metis dom_eq_empty_conv ext not_None_eq prod_cases3)
  qed
  finally have zero: "network_edge_count G ?base = 0" by simp
  have nth: "ids ! i = ids ! j \<longleftrightarrow> i = j" if "i < length ids" "j < length ids" for i j
    using that nth_eq_iff_index_eq [OF ids] by blast
  note apart = ring_pairs_apart [OF h]
  have ends: "\<forall>(a, b) \<in> set ?es. a \<in> net_nodes ?base \<and> b \<in> net_nodes ?base"
    using apart by (auto simp: base(2))
  have fold: "fold (ring_edge G ids) ps net = fold (\<lambda>(a, b). add_edge G a b) (map (\<lambda>(i, j). (ids ! i, ids ! j)) ps) net"
    if "net_ok G vn ve ok net" "net_nodes net = set ids" "\<forall>(i, j) \<in> set ps. i < length ids \<and> j < length ids" for ps net
    using that
  proof (induction ps arbitrary: net)
    case (Cons p ps)
    obtain i j where p: "p = (i, j)" by (cases p)
    have "ids ! i \<in> net_nodes net" "ids ! j \<in> net_nodes net" using Cons.prems(2,3) by (simp_all add: p)
    from ring_edge_adds [OF this, of G] add_edge_refines [OF graph Cons.prems(1), of "ids ! i" "ids ! j"] Cons
    show ?case by (simp add: p)
  qed simp
  have "inj_on (\<lambda>(i, j). (ids ! i, ids ! j)) (set ?ps)"
    using apart nth by (intro inj_onI) auto
  then have dist: "distinct ?es" using distinct_ring_pairs [OF h] by (simp add: distinct_map)
  have simple: "\<forall>(a, b) \<in> set ?es. \<forall>(c, d) \<in> set ?es. same_ends (go_directed G) a b c d \<longrightarrow> (a, b) = (c, d)"
  proof -
    have "same_ends False i j p q" if "(i, j) \<in> set ?ps" "(p, q) \<in> set ?ps"
      "same_ends False (ids ! i) (ids ! j) (ids ! p) (ids ! q)" for i j p q
      using that apart [OF that(1)] apart [OF that(2)] nth by (auto simp: same_ends_def)
    then show ?thesis using ring_pairs_simple [OF h] und by fastforce
  qed
  have count: "network_edge_count G (fold (\<lambda>(a, b). add_edge G a b) ?es ?base) = length ?es"
    using add_edges_count [OF graph base(1) _ dist simple] ends zero by (simp add: base(3) split_beta)
  have loops: "\<forall>(a, b) \<in> set ?es. a \<noteq> b" using apart nth by auto
  have same: "fold (ring_edge G ids) ?ps ?base = fold (\<lambda>(a, b). add_edge G a b) ?es ?base"
    by (rule fold [OF base(1,2)]) (use apart in auto)
  have "(a, a, ()) \<notin> {(c, d, ()) |c d. \<exists>(a, b) \<in> set ?es. same_ends (go_directed G) a b c d}" for a
    using loops by (fastforce simp: same_ends_def)
  then show ?thesis
    using add_edges_refine [OF graph base(1) ends] count
    unfolding same ring_state_def by (simp add: base(2,3) length_ring_pairs)
qed

subsection \<open>Rewiring\<close>

lemma rewire_tries_moves:
  assumes range: "\<And>n r. 0 < n \<Longrightarrow> fst (gn_range R n r) < n" and "ids \<noteq> []"
  shows "fst (rewire_tries G R ids i e tries (net, rng)) = net \<or>
    (\<exists>c < length ids. c \<noteq> i \<and> go_find_edge G (nw_graph net) (index_of net (ids ! i)) (index_of net (ids ! c)) = None \<and>
      fst (rewire_tries G R ids i e tries (net, rng)) =
        net\<lparr>nw_graph := go_add_edge G (index_of net (ids ! i)) (index_of net (ids ! c)) () (go_remove_edge G e (nw_graph net))\<rparr>)"
proof (induction tries arbitrary: rng)
  case (Suc tries)
  obtain c rng' where draw: "gn_range R (length ids) rng = (c, rng')" by (cases "gn_range R (length ids) rng")
  then have c: "c < length ids" using range [of "length ids" rng] assms(2) by simp
  let ?free = "go_find_edge G (nw_graph net) (index_of net (ids ! i)) (index_of net (ids ! c)) = None"
  show ?case
  proof (cases "c \<noteq> i \<and> ?free")
    case True
    with c show ?thesis by (auto simp: draw Let_def)
  next
    case False
    then have "rewire_tries G R ids i e (Suc tries) (net, rng) = rewire_tries G R ids i e tries (net, rng')"
      by (auto simp: draw Let_def)
    then show ?thesis using Suc.IH by simp
  qed
qed simp

lemma ring_state_move:
  fixes G :: "('gr, unit) graph_ops"
  assumes graph: "stable_graph G vn ve ok" and st: "ring_state G vn ve ok ids m net"
    and a: "a \<in> set ids" and b: "b \<in> set ids" and c: "c \<in> set ids" and ne: "c \<noteq> a"
    and e: "go_find_edge G (nw_graph net) (index_of net a) (index_of net b) = Some e"
    and free: "go_find_edge G (nw_graph net) (index_of net a) (index_of net c) = None"
  shows "ring_state G vn ve ok ids m
    (net\<lparr>nw_graph := go_add_edge G (index_of net a) (index_of net c) () (go_remove_edge G e (nw_graph net))\<rparr>)"
proof -
  note net = st [unfolded ring_state_def]
  have ok: "net_ok G vn ve ok net" using net by blast
  have node: "node_of net a = Some (index_of net a)" "node_of net b = Some (index_of net b)"
    "node_of net c = Some (index_of net c)"
    using net a b c index_of_node by blast+
  define cut where "cut = snd (network_remove_edge G a b net)"
  have cut: "cut = net\<lparr>nw_graph := go_remove_edge G e (nw_graph net)\<rparr>"
    by (simp add: cut_def network_remove_edge_def both_nodes_def node(1,2) e)
  have cut_node: "node_of cut = node_of net" by (rule ext) (simp add: cut node_of_def)
  from stable_graph.network_remove_edge_refines [OF graph ok, of a b]
  have cut_ok: "net_ok G vn ve ok cut" "net_nodes cut = set ids"
    "net_arcs G ve cut = drop_arc (go_directed G) a b (net_arcs G ve net)"
    using net by (simp_all add: cut_def)
  have absent: "(a, c, ()) \<notin> net_arcs G ve cut"
    using stable_graph.find_edge_arcs [OF graph ok node(1,3)] free by (auto simp: cut_ok(3) drop_arc_def)
  have none: "go_find_edge G (nw_graph cut) (index_of net a) (index_of net c) = None"
    using stable_graph.find_edge_arcs [OF graph cut_ok(1), of a _ c] node absent by (simp add: cut_node)
  have moved: "net\<lparr>nw_graph := go_add_edge G (index_of net a) (index_of net c) () (go_remove_edge G e (nw_graph net))\<rparr> =
      add_edge G a c cut"
    using none by (simp add: add_edge_def both_nodes_def cut_node node(1,3)) (simp add: cut)
  obtain slot where "ve (nw_graph net) e = Some slot"
    using stable_graph.find_edge [OF graph net_okD(1) [OF ok] e] by blast
  from stable_graph.count_removed [OF graph net_okD(1) [OF ok] this]
  have "Suc (network_edge_count G cut) = m"
    using stable_graph.edge_count_card [OF graph] net_okD(1) [OF cut_ok(1)] net_okD(1) [OF ok] net by (simp add: cut)
  moreover have "network_edge_count G (add_edge G a c cut) = Suc (network_edge_count G cut)"
    by (rule add_absent_edge [OF graph cut_ok(1) _ _ absent]) (simp_all add: cut_ok(2) a c)
  moreover have "(d, d, ()) \<notin> net_arcs G ve (add_edge G a c cut)" for d
    using add_edge_refines [OF graph cut_ok(1), of a c] net ne
    by (auto simp: cut_ok put_arc_def drop_arc_def same_ends_def a c)
  ultimately show ?thesis
    using add_edge_refines [OF graph cut_ok(1), of a c] cut_ok(2) unfolding moved ring_state_def by simp
qed

lemma ring_state_rewire:
  fixes G :: "('gr, unit) graph_ops"
  assumes graph: "stable_graph G vn ve ok" and range: "\<And>n r. 0 < n \<Longrightarrow> fst (gn_range R n r) < n"
    and ids: "distinct ids" and ps: "\<forall>(i, j) \<in> set ps. i < length ids \<and> j < length ids"
    and st: "ring_state G vn ve ok ids m (fst s)"
  shows "ring_state G vn ve ok ids m (fst (fold (rewire_edge G R ids beta) ps s))"
  using ps st
proof (induction ps arbitrary: s)
  case (Cons p ps)
  obtain i j where p: "p = (i, j)" by (cases p)
  obtain net rng where s: "s = (net, rng)" by (cases s)
  obtain u rng' where u: "gn_f64 R rng = (u, rng')" by (cases "gn_f64 R rng")
  have ij: "i < length ids" "j < length ids" using Cons.prems(1) by (simp_all add: p)
  have st: "ring_state G vn ve ok ids m net" using Cons.prems(2) by (simp add: s)
  have "ring_state G vn ve ok ids m (fst (rewire_edge G R ids beta (i, j) (net, rng)))"
  proof (cases "gn_less R u beta \<and> (\<exists>e. go_find_edge G (nw_graph net) (index_of net (ids ! i)) (index_of net (ids ! j)) = Some e)")
    case False
    then show ?thesis using st by (auto simp: rewire_edge_def u split: option.split)
  next
    case True
    then obtain e where e: "go_find_edge G (nw_graph net) (index_of net (ids ! i)) (index_of net (ids ! j)) = Some e" by blast
    have step: "rewire_edge G R ids beta (i, j) (net, rng) = rewire_tries G R ids i e (rewire_limit (length ids)) (net, rng')"
      using True e by (simp add: rewire_edge_def u)
    have ne: "ids \<noteq> []" using ij by auto
    show ?thesis
      using rewire_tries_moves [OF range ne, of G i e "rewire_limit (length ids)" net rng']
        ring_state_move [OF graph st _ _ _ _ e] st ij nth_eq_iff_index_eq [OF ids] nth_mem
      unfolding step by metis
  qed
  then show ?case using Cons by (simp add: p s)
qed simp

lemma half_degree_fits:
  assumes "3 \<le> n"
  shows "2 * half_degree n k < n"
proof -
  have "2 * (min k (n - 1) div 2) < n" using assms by linarith
  then show ?thesis using assms by (simp add: half_degree_def max_def)
qed

text \<open>
  C19: the Watts-Strogatz network on three or more distinct agents is sound, has exactly these
  agents, joins no agent to itself, and has as many edges as its ring, half a degree per agent,
  whatever the probability of rewiring and whatever the generator draws.
\<close>

theorem watts_strogatz_sound:
  fixes G :: "('gr, unit) graph_ops" and R :: "('f, 'r) gen_ops" and k :: nat and beta :: 'f and rng :: 'r
    and ids :: "agent_id list"
  assumes "stable_graph G vn ve ok" "\<not> go_directed G" "\<And>n r. 0 < n \<Longrightarrow> fst (gn_range R n r) < n"
    and "distinct ids" "3 \<le> length ids"
  defines "net \<equiv> fst (watts_strogatz G R ids k beta rng)"
  shows "net_ok G vn ve ok net \<and> net_nodes net = set ids \<and> (\<forall>a. (a, a, ()) \<notin> net_arcs G ve net) \<and>
    network_edge_count G net = length ids * half_degree (length ids) k"
proof -
  let ?h = "half_degree (length ids) k"
  note h = half_degree_fits [OF assms(5), of k]
  have "\<forall>(i, j) \<in> set (ring_pairs (length ids) ?h). i < length ids \<and> j < length ids"
    using ring_pairs_apart [OF h] by auto
  from ring_state_rewire [OF assms(1,3,4) this, where s = "(_, rng)"] ring_state_ring [OF assms(1,2,4) h]
  show ?thesis unfolding net_def watts_strogatz_def Let_def ring_state_def by simp
qed

definition cycling_gen :: "(nat, nat) gen_ops" where
  "cycling_gen =
     \<lparr>gn_f64 = (\<lambda>r. (r mod 2, Suc r)), gn_bool = (\<lambda>r. (even r, Suc r)), gn_range = (\<lambda>n r. (r mod n, Suc r)),
      gn_clamp01 = min 1, gn_less = (<), gn_le = (\<le>), gn_mul = (*), gn_of_u64 = unat\<rparr>"

theorem watts_strogatz_sound_witness:
  "network_edge_count (list_graph_ops False)
     (fst (watts_strogatz (list_graph_ops False) cycling_gen (map AgentId [0, 1, 2, 3, 4, 5, 6]) 4 1 0)) = 14"
proof -
  have "\<not> go_directed (list_graph_ops False :: (unit list_graph, unit) graph_ops)" by (simp add: list_graph_ops_def)
  moreover have "\<And>n r. 0 < n \<Longrightarrow> fst (gn_range cycling_gen n r) < n" by (simp add: cycling_gen_def)
  ultimately show ?thesis
    using watts_strogatz_sound [OF list_graph.stable_graph_axioms, of False cycling_gen "map AgentId [0, 1, 2, 3, 4, 5, 6]" 4 1 0]
    by (simp add: half_degree_def)
qed

text \<open>
  Below three agents the ring closes on itself: one agent gets an edge to itself. A mean degree of
  zero still gives a ring.
\<close>

lemma lone_agent_joined_to_itself:
  "network_edges (list_graph_ops False) (fst (watts_strogatz (list_graph_ops False) cycling_gen [AgentId 0] 4 0 0)) =
   [(AgentId 0, AgentId 0)]"
  by code_simp

lemma mean_degree_zero_gives_ring: "half_degree n 0 = 1"
  by (simp add: half_degree_def)

end
