(* ===== verification/Profiles.thy ===== *)
theory Profiles
  imports Prelude
begin

section \<open>Enumerating action profiles\<close>

text \<open>
  The exhaustive loops over the profiles of a finite game share one odometer: the last position that
  can still grow is increased, the positions after it start again, and the loop ends when none can
  (\<open>advance_profile\<close> of crates/socsim-games/src/solve/mod.rs, the same code inline in
  \<open>validate_positive_payoffs\<close> and \<open>strictly_dominates\<close>). \<open>odometer_loop_product\<close> is its correctness
  and termination: the body runs once on every profile, in lexicographic order.
\<close>

fun odometer_step :: "(nat \<Rightarrow> nat) \<Rightarrow> nat \<Rightarrow> nat list \<Rightarrow> nat list option" where
  "odometer_step n_actions 0 profile = None"
| "odometer_step n_actions (Suc pos) profile =
     (let profile' = list_update profile pos (profile ! pos + 1)
      in if profile' ! pos < n_actions pos then Some profile'
         else odometer_step n_actions pos (list_update profile' pos 0))"

text \<open>\<open>loop { body?; if !advance { break } }\<close>.\<close>

partial_function (option) odometer_loop ::
    "(nat \<Rightarrow> nat) \<Rightarrow> nat \<Rightarrow> ('s \<Rightarrow> nat list \<Rightarrow> 'e + 's) \<Rightarrow> nat list \<Rightarrow> 's \<Rightarrow> ('e + 's) option" where
  "odometer_loop n_actions n body profile s =
     (case body s profile of
        Inl e \<Rightarrow> Some (Inl e)
      | Inr s' \<Rightarrow> (case odometer_step n_actions n profile of
                     None \<Rightarrow> Some (Inr s')
                   | Some profile' \<Rightarrow> odometer_loop n_actions n body profile' s'))"

definition all_profiles :: "(nat \<Rightarrow> nat) \<Rightarrow> nat \<Rightarrow> nat list list" where
  "all_profiles n_actions n = product_lists (map (\<lambda>i. [0..<max 1 (n_actions i)]) [0..<n])"

lemma all_profiles_Suc:
  "all_profiles f (Suc n) = concat (map (\<lambda>x. map ((#) x) (all_profiles (\<lambda>i. f (Suc i)) n)) [0..<max 1 (f 0)])"
proof -
  have "map (\<lambda>i. [0..<max 1 (f i)]) [0..<Suc n] = [0..<max 1 (f 0)] # map (\<lambda>i. [0..<max 1 (f (Suc i))]) [0..<n]"
    by (simp add: upt_conv_Cons map_Suc_upt [symmetric] comp_def del: upt_Suc)
  then show ?thesis by (simp add: all_profiles_def)
qed

lemma all_profiles_0 [simp]: "all_profiles f 0 = [[]]"
  by (simp add: all_profiles_def)

lemma set_all_profiles:
  "p \<in> set (all_profiles f n) \<longleftrightarrow> length p = n \<and> (\<forall>i < n. p ! i < max 1 (f i))"
  by (auto simp: all_profiles_def product_lists_set list_all2_conv_all_nth)

lemma distinct_all_profiles: "distinct (all_profiles f n)"
  unfolding all_profiles_def by (rule distinct_product_lists) auto

lemma all_profiles_nonempty [simp]: "all_profiles f n \<noteq> []"
proof -
  have "replicate n 0 \<in> set (all_profiles f n)" by (simp add: set_all_profiles less_max_iff_disj)
  then show ?thesis by auto
qed

lemma all_profiles_head: "hd (all_profiles f n) = replicate n 0"
proof (induction n arbitrary: f)
  case (Suc n)
  have "[0..<max 1 (f 0)] = 0 # [1..<max 1 (f 0)]" by (simp add: upt_rec)
  then show ?case using Suc [of "\<lambda>i. f (Suc i)"] by (simp add: all_profiles_Suc hd_append hd_map)
qed simp

subsection \<open>The odometer walks through the product\<close>

lemma odometer_Cons:
  "odometer_step f (Suc k) (x # p) =
     (case odometer_step (\<lambda>i. f (Suc i)) k p of
        Some p' \<Rightarrow> Some (x # p')
      | None \<Rightarrow> if x + 1 < f 0 then Some ((x + 1) # replicate (min k (length p)) 0 @ drop k p) else None)"
proof (induction k arbitrary: p)
  case (Suc k)
  have "replicate (min k (length p)) 0 @ drop k (p[k := 0]) = replicate (min (Suc k) (length p)) 0 @ drop (Suc k) p"
  proof (cases "k < length p")
    case True
    then have "drop k (p[k := 0]) = 0 # drop (Suc k) p"
      by (metis Cons_nth_drop_Suc drop_update_cancel length_list_update lessI nth_list_update_eq)
    then show ?thesis using True by (simp add: min_def replicate_append_same flip: replicate_Suc)
  qed (simp add: list_update_beyond min_def)
  then show ?case using Suc by (simp add: Let_def split: option.split)
qed simp

lemma odometer_length: "odometer_step f k p = Some p' \<Longrightarrow> length p' = length p"
  by (induction f k p rule: odometer_step.induct) (auto simp: Let_def split: if_splits)

declare odometer_step.simps(2) [simp del]

text \<open>A list of profiles each followed by the next one, the last by none.\<close>

definition successive :: "(nat \<Rightarrow> nat) \<Rightarrow> nat \<Rightarrow> nat list list \<Rightarrow> bool" where
  "successive f k ps \<longleftrightarrow> (\<forall>i. i + 1 < length ps \<longrightarrow> odometer_step f k (ps ! i) = Some (ps ! (i + 1))) \<and>
     (ps \<noteq> [] \<longrightarrow> odometer_step f k (last ps) = None)"

lemma successive_Cons:
  "successive f k (p # ps) \<longleftrightarrow>
     odometer_step f k p = (case ps of [] \<Rightarrow> None | p' # _ \<Rightarrow> Some p') \<and> successive f k ps"
  by (cases ps) (auto simp: successive_def nth_Cons split: nat.splits)

lemma successive_block:
  assumes "successive (\<lambda>i. f (Suc i)) k ps" "\<forall>p \<in> set ps. length p = k" "ps \<noteq> []"
    and "successive f (Suc k) rest"
    and "x + 1 < f 0 \<Longrightarrow> rest \<noteq> [] \<and> hd rest = (x + 1) # replicate k 0" "\<not> x + 1 < f 0 \<Longrightarrow> rest = []"
  shows "successive f (Suc k) (map ((#) x) ps @ rest)"
  using assms(1-3)
proof (induction ps)
  case (Cons p ps)
  have len: "length p = k" using Cons.prems(2) by simp
  show ?case
  proof (cases ps)
    case Nil
    then have "odometer_step (\<lambda>i. f (Suc i)) k p = None" using Cons.prems(1) by (simp add: successive_Cons)
    then show ?thesis using assms(4-6) len Nil by (cases rest; cases "x + 1 < f 0") (auto simp: successive_Cons odometer_Cons)
  next
    case (Cons p' ps')
    then have "odometer_step (\<lambda>i. f (Suc i)) k p = Some p'" "successive f (Suc k) (map ((#) x) ps @ rest)"
      using Cons.prems Cons.IH by (simp_all add: successive_Cons)
    then show ?thesis using Cons by (simp add: successive_Cons odometer_Cons)
  qed
qed simp

lemma successive_blocks:
  assumes "successive (\<lambda>i. f (Suc i)) k ps" "\<forall>p \<in> set ps. length p = k" "ps \<noteq> []" "hd ps = replicate k 0"
    and "\<And>x. x + 1 < f 0 \<longleftrightarrow> x + 1 < m"
  shows "successive f (Suc k) (concat (map (\<lambda>x. map ((#) x) ps) [x..<m])) \<and>
    (x < m \<longrightarrow> concat (map (\<lambda>x. map ((#) x) ps) [x..<m]) \<noteq> [] \<and>
      hd (concat (map (\<lambda>x. map ((#) x) ps) [x..<m])) = x # replicate k 0)"
proof (induction "m - x" arbitrary: x)
  case 0
  then show ?case by (simp add: successive_def)
next
  case (Suc d)
  then have x: "x < m" by simp
  then have cons: "[x..<m] = x # [x + 1..<m]" by (simp add: upt_conv_Cons)
  have IH: "successive f (Suc k) (concat (map (\<lambda>x. map ((#) x) ps) [x + 1..<m])) \<and>
    (x + 1 < m \<longrightarrow> concat (map (\<lambda>x. map ((#) x) ps) [x + 1..<m]) \<noteq> [] \<and>
      hd (concat (map (\<lambda>x. map ((#) x) ps) [x + 1..<m])) = (x + 1) # replicate k 0)"
    by (rule Suc.hyps(1)) (use Suc.hyps(2) in simp)
  have "successive f (Suc k) (map ((#) x) ps @ concat (map (\<lambda>x. map ((#) x) ps) [x + 1..<m]))"
    by (rule successive_block [OF assms(1-3)]) (use IH assms(5) in simp_all)
  then show ?case using assms(3,4) by (simp add: cons hd_append hd_map)
qed

lemma successive_all_profiles: "successive f n (all_profiles f n)"
proof (induction n arbitrary: f)
  case (Suc n)
  have "x + 1 < f 0 \<longleftrightarrow> x + 1 < max 1 (f 0)" for x by (simp add: less_max_iff_disj)
  from successive_blocks [where f = f, OF Suc [of "\<lambda>i. f (Suc i)"] _ all_profiles_nonempty all_profiles_head this, of 0]
  show ?case by (simp add: all_profiles_Suc set_all_profiles)
qed (simp add: successive_def)

lemma odometer_loop_successive:
  "successive f k ps \<Longrightarrow> ps \<noteq> [] \<Longrightarrow> odometer_loop f k body (hd ps) s = Some (try_fold body s ps)"
proof (induction ps arbitrary: s)
  case (Cons p ps)
  have next_p: "odometer_step f k p = (case ps of [] \<Rightarrow> None | p' # _ \<Rightarrow> Some p')" and "successive f k ps"
    using Cons.prems(1) by (simp_all add: successive_Cons)
  show ?case
  proof (cases "body s p")
    case (Inl e)
    then show ?thesis by (subst odometer_loop.simps) simp
  next
    case (Inr s')
    then show ?thesis
      using next_p Cons.IH [OF \<open>successive f k ps\<close>] by (subst odometer_loop.simps) (auto split: list.split)
  qed
qed simp

lemma odometer_loop_product:
  "odometer_loop f n body (replicate n 0) s = Some (try_fold body s (all_profiles f n))"
  using odometer_loop_successive [OF successive_all_profiles all_profiles_nonempty, where body = body and s = s]
  by (simp add: all_profiles_head)

end
