(* ===== verification/Learners.thy ===== *)
theory Learners
  imports Games Play Profiles
begin

section \<open>Learning primitives (crates/socsim-games/src/learn)\<close>

text \<open>
  Sampling and tie-breaking, fictitious play, Roth-Erev reinforcement and logit choice, over the
  float operations \<open>calc_ops\<close> and the draws \<open>draw_ops\<close> of the generator. The three searches for a
  best action in the code (two of fictitious play, one of the myopic rule) are one loop, \<open>scan_best\<close>.
  \<open>float_order\<close> states what \<open>f64\<close> promises of its comparisons on finite values.
\<close>

record 'f calc_ops = "'f float_ops" +
  fl_one :: 'f
  fl_sub :: "'f \<Rightarrow> 'f \<Rightarrow> 'f"
  fl_mul :: "'f \<Rightarrow> 'f \<Rightarrow> 'f"
  fl_eq :: "'f \<Rightarrow> 'f \<Rightarrow> bool"
  fl_less :: "'f \<Rightarrow> 'f \<Rightarrow> bool"
  fl_max :: "'f \<Rightarrow> 'f \<Rightarrow> 'f"
  fl_neg_inf :: 'f
  fl_exp :: "'f \<Rightarrow> 'f"

record ('f, 'r) draw_ops =
  dr_f64 :: "'r \<Rightarrow> 'f \<times> 'r"
  dr_range :: "nat \<Rightarrow> 'r \<Rightarrow> nat \<times> 'r"

definition fl_le :: "('f, 'z) calc_ops_scheme \<Rightarrow> 'f \<Rightarrow> 'f \<Rightarrow> bool" where
  "fl_le F x y \<longleftrightarrow> fl_less F x y \<or> fl_eq F x y"

datatype 'f learn_error =
    LearnUnsupportedRoleCount nat nat
  | LearnInvalidRole nat nat
  | LearnInvalidActionCount nat nat nat
  | LearnLengthMismatch string nat nat
  | LearnInvalidInitialCount nat 'f
  | LearnInvalidParameter string 'f
  | LearnNonPositivePayoff nat "nat list" 'f
  | LearnInvalidRealizedPayoff 'f
  | LearnInvalidAction nat nat
  | LearnInvalidCooperationAction nat
  | LearnInvalidProbability nat 'f
  | LearnEmptyProbabilityMass
  | LearnCountOverflow
  | LearnNonFiniteCalculation

datatype tie_break = LowestIndex | TieRandom

subsection \<open>Sampling and ties\<close>

definition check_probability ::
    "('f, 'z) calc_ops_scheme \<Rightarrow> nat option \<Rightarrow> nat \<times> 'f \<Rightarrow> 'f learn_error + nat option" where
  "check_probability F last_positive iv =
     (let (index, value) = iv
      in if \<not> fl_finite F value \<or> fl_less F value (fl_zero F) then Inl (LearnInvalidProbability index value)
         else Inr (if fl_less F (fl_zero F) value then Some index else last_positive))"

fun first_cumulative :: "('f, 'z) calc_ops_scheme \<Rightarrow> 'f \<Rightarrow> 'f \<Rightarrow> (nat \<times> 'f) list \<Rightarrow> nat option" where
  "first_cumulative F draw cumulative [] = None"
| "first_cumulative F draw cumulative ((index, value) # ivs) =
     (let cumulative' = fl_add F cumulative value
      in if fl_less F draw cumulative' then Some index else first_cumulative F draw cumulative' ivs)"

definition sample_probabilities ::
    "('f, 'z) calc_ops_scheme \<Rightarrow> ('f, 'r) draw_ops \<Rightarrow> 'f list \<Rightarrow> 'r \<Rightarrow> ('f learn_error + nat) \<times> 'r" where
  "sample_probabilities F R probabilities rng =
     (case try_fold (check_probability F) None (List.enumerate 0 probabilities) of
        Inl e \<Rightarrow> (Inl e, rng)
      | Inr None \<Rightarrow> (Inl LearnEmptyProbabilityMass, rng)
      | Inr (Some last_positive) \<Rightarrow>
          (let (draw, rng') = dr_f64 R rng
           in (Inr (case first_cumulative F draw (fl_zero F) (List.enumerate 0 probabilities) of
                      Some index \<Rightarrow> index | None \<Rightarrow> last_positive), rng')))"

definition resolve_tie ::
    "('f, 'r) draw_ops \<Rightarrow> nat list \<Rightarrow> tie_break \<Rightarrow> 'r \<Rightarrow> ('f learn_error + nat) \<times> 'r" where
  "resolve_tie R candidates policy rng =
     (case candidates of
        [] \<Rightarrow> (Inl LearnEmptyProbabilityMass, rng)
      | first # _ \<Rightarrow>
          if length candidates = 1 \<or> policy = LowestIndex then (Inr first, rng)
          else let (i, rng') = dr_range R (length candidates) rng in (Inr (candidates ! i), rng'))"

text \<open>
  \<open>for action in 0..n { let value = ...; if value > best_value { ... } else if value == best_value { ... } }\<close>.
\<close>

definition scan_action ::
    "('f, 'z) calc_ops_scheme \<Rightarrow> (nat \<Rightarrow> 'f) \<Rightarrow> 'f \<times> nat list \<Rightarrow> nat \<Rightarrow> 'f learn_error + 'f \<times> nat list" where
  "scan_action F value best action =
     (let (best_value, best_actions) = best; v = value action
      in if \<not> fl_finite F v then Inl LearnNonFiniteCalculation
         else Inr (if fl_less F best_value v then (v, [action])
                   else if fl_eq F v best_value then (best_value, best_actions @ [action])
                   else (best_value, best_actions)))"

definition scan_best :: "('f, 'z) calc_ops_scheme \<Rightarrow> (nat \<Rightarrow> 'f) \<Rightarrow> nat \<Rightarrow> 'f learn_error + nat list" where
  "scan_best F value n =
     try_bind (try_fold (scan_action F value) (fl_neg_inf F, []) [0..<n]) (\<lambda>(_, best_actions). Inr best_actions)"

subsection \<open>Two-player games\<close>

definition validate_two_player :: "('g, 'f, 'y) finite_game_scheme \<Rightarrow> 'g \<Rightarrow> 'f learn_error + unit" where
  "validate_two_player G game =
     (if sg_n_roles G game \<noteq> 2 then Inl (LearnUnsupportedRoleCount 2 (sg_n_roles G game)) else Inr ())"

definition opponent_role :: "('g, 'f, 'y) finite_game_scheme \<Rightarrow> 'g \<Rightarrow> nat \<Rightarrow> 'f learn_error + nat" where
  "opponent_role G game role =
     try_bind (validate_two_player G game) (\<lambda>_.
       if role \<ge> 2 then Inl (LearnInvalidRole role 2) else Inr (1 - role))"

definition payoff_against :: "('g, 'f, 'y) finite_game_scheme \<Rightarrow> 'g \<Rightarrow> nat \<Rightarrow> nat \<Rightarrow> nat \<Rightarrow> 'f" where
  "payoff_against G game role own_action opponent_action =
     nf_payoff G game role (if role = 0 then [own_action, opponent_action] else [opponent_action, own_action])"

subsection \<open>Fictitious play\<close>

record 'f fictitious_belief =
  fb_counts :: "'f list"
  fb_empirical :: "nat list"
  fb_tie :: tie_break

definition fictitious_new ::
    "('f, 'z) calc_ops_scheme \<Rightarrow> ('g, 'f, 'y) finite_game_scheme \<Rightarrow> 'g \<Rightarrow> nat \<Rightarrow> 'f list \<Rightarrow> tie_break \<Rightarrow>
     'f learn_error + 'f fictitious_belief" where
  "fictitious_new F G game role initial_counts tie =
     try_bind (opponent_role G game role) (\<lambda>opponent.
       let expected = fg_n_actions G game opponent
       in if length initial_counts \<noteq> expected
          then Inl (LearnLengthMismatch ''initial counts'' expected (length initial_counts))
          else case find (\<lambda>(index, value). \<not> fl_finite F value \<or> fl_less F value (fl_zero F))
                 (List.enumerate 0 initial_counts) of
                 Some (index, value) \<Rightarrow> Inl (LearnInvalidInitialCount index value)
               | None \<Rightarrow> Inr \<lparr>fb_counts = initial_counts, fb_empirical = replicate expected 0, fb_tie = tie\<rparr>)"

definition fictitious_with_defaults ::
    "('f, 'z) calc_ops_scheme \<Rightarrow> ('g, 'f, 'y) finite_game_scheme \<Rightarrow> 'g \<Rightarrow> nat \<Rightarrow> 'f learn_error + 'f fictitious_belief" where
  "fictitious_with_defaults F G game role =
     try_bind (opponent_role G game role) (\<lambda>opponent.
       fictitious_new F G game role (replicate (fg_n_actions G game opponent) (fl_zero F)) LowestIndex)"

definition belief_value ::
    "('f, 'z) calc_ops_scheme \<Rightarrow> ('g, 'f, 'y) finite_game_scheme \<Rightarrow> 'g \<Rightarrow> nat \<Rightarrow> 'f list \<Rightarrow> nat \<Rightarrow> 'f" where
  "belief_value F G game role counts action =
     fold (\<lambda>(opponent_action, c) value.
         if fl_eq F c (fl_zero F) then value
         else fl_add F value (fl_mul F c (payoff_against G game role action opponent_action)))
       (List.enumerate 0 counts) (fl_zero F)"

definition best_actions ::
    "('f, 'z) calc_ops_scheme \<Rightarrow> ('g, 'f, 'y) finite_game_scheme \<Rightarrow> 'g \<Rightarrow> nat \<Rightarrow> 'f fictitious_belief \<Rightarrow>
     'f learn_error + nat list" where
  "best_actions F G game role self =
     try_bind (opponent_role G game role) (\<lambda>opponent.
       let expected = fg_n_actions G game opponent
       in if length (fb_counts self) \<noteq> expected
          then Inl (LearnLengthMismatch ''belief counts'' expected (length (fb_counts self)))
          else scan_best F (belief_value F G game role (fb_counts self)) (fg_n_actions G game role))"

definition best_response ::
    "('f, 'z) calc_ops_scheme \<Rightarrow> ('f, 'r) draw_ops \<Rightarrow> ('g, 'f, 'y) finite_game_scheme \<Rightarrow> 'g \<Rightarrow> nat \<Rightarrow> 'f fictitious_belief \<Rightarrow> 'r \<Rightarrow>
     ('f learn_error + nat) \<times> 'r" where
  "best_response F R G game role self rng =
     (case best_actions F G game role self of
        Inl e \<Rightarrow> (Inl e, rng) | Inr acts \<Rightarrow> resolve_tie R acts (fb_tie self) rng)"

definition best_responses ::
    "('f, 'z) calc_ops_scheme \<Rightarrow> ('g, 'f, 'y) finite_game_scheme \<Rightarrow> 'g \<Rightarrow> nat \<Rightarrow> 'f fictitious_belief \<Rightarrow>
     'f learn_error + nat list" where
  "best_responses F G game role self =
     try_bind (best_actions F G game role self) (\<lambda>acts.
       if acts = [] then Inl LearnEmptyProbabilityMass else Inr acts)"

text \<open>The counts are \<open>u64\<close>: \<open>checked_add(1)\<close>.\<close>

definition checked_inc_u64 :: "nat \<Rightarrow> nat option" where
  "checked_inc_u64 n = (if n + 1 \<le> u64_max then Some (n + 1) else None)"

definition belief_observe ::
    "('f, 'z) calc_ops_scheme \<Rightarrow> nat \<Rightarrow> 'f fictitious_belief \<Rightarrow> ('f learn_error + unit) \<times> 'f fictitious_belief" where
  "belief_observe F opponent_action self =
     (if opponent_action \<ge> length (fb_counts self)
      then (Inl (LearnInvalidAction opponent_action (length (fb_counts self))), self)
      else case checked_inc_u64 (fb_empirical self ! opponent_action) of
             None \<Rightarrow> (Inl LearnCountOverflow, self)
           | Some next_empirical \<Rightarrow>
               let next_count = fl_add F (fb_counts self ! opponent_action) (fl_one F)
               in if \<not> fl_finite F next_count then (Inl LearnCountOverflow, self)
                  else (Inr (), self\<lparr>fb_counts := list_update (fb_counts self) opponent_action next_count,
                                     fb_empirical := list_update (fb_empirical self) opponent_action next_empirical\<rparr>))"

definition simultaneous_step ::
    "('f, 'z) calc_ops_scheme \<Rightarrow> ('f, 'r) draw_ops \<Rightarrow> ('g, 'f, 'y) finite_game_scheme \<Rightarrow> 'g \<Rightarrow>
     'f fictitious_belief \<times> 'f fictitious_belief \<times> 'r \<Rightarrow>
     ('f learn_error + nat \<times> nat) \<times> 'f fictitious_belief \<times> 'f fictitious_belief \<times> 'r" where
  "simultaneous_step F R G game st =
     (let (role_zero, role_one, rng) = st
      in case best_response F R G game 0 role_zero rng of
           (Inl e, rng') \<Rightarrow> (Inl e, role_zero, role_one, rng')
         | (Inr action_zero, rng') \<Rightarrow>
             (case best_response F R G game 1 role_one rng' of
                (Inl e, rng'') \<Rightarrow> (Inl e, role_zero, role_one, rng'')
              | (Inr action_one, rng'') \<Rightarrow>
                  (case belief_observe F action_one role_zero of
                     (Inl e, role_zero') \<Rightarrow> (Inl e, role_zero', role_one, rng'')
                   | (Inr _, role_zero') \<Rightarrow>
                       (case belief_observe F action_zero role_one of
                          (Inl e, role_one') \<Rightarrow> (Inl e, role_zero', role_one', rng'')
                        | (Inr _, role_one') \<Rightarrow> (Inr (action_zero, action_one), role_zero', role_one', rng'')))))"

subsection \<open>Roth-Erev\<close>

record 'f roth_erev_state =
  re_propensities :: "'f list"
  re_phi :: 'f
  re_epsilon :: 'f

definition validate_parameter ::
    "('f, 'z) calc_ops_scheme \<Rightarrow> string \<Rightarrow> 'f \<Rightarrow> ('f \<Rightarrow> bool) \<Rightarrow> 'f learn_error + unit" where
  "validate_parameter F parameter value predicate =
     (if \<not> fl_finite F value \<or> \<not> predicate value then Inl (LearnInvalidParameter parameter value) else Inr ())"

definition validate_role :: "('g, 'f, 'y) finite_game_scheme \<Rightarrow> 'g \<Rightarrow> nat \<Rightarrow> 'f learn_error + unit" where
  "validate_role G game role =
     (if role \<ge> sg_n_roles G game then Inl (LearnInvalidRole role (sg_n_roles G game)) else Inr ())"

definition positive_at ::
    "('f, 'z) calc_ops_scheme \<Rightarrow> ('g, 'f, 'y) finite_game_scheme \<Rightarrow> 'g \<Rightarrow> nat list \<Rightarrow> 'f learn_error + unit" where
  "positive_at F G game profile =
     (case find (\<lambda>role. let p = nf_payoff G game role profile in \<not> fl_finite F p \<or> fl_le F p (fl_zero F))
             [0..<sg_n_roles G game] of
        Some role \<Rightarrow> Inl (LearnNonPositivePayoff role profile (nf_payoff G game role profile))
      | None \<Rightarrow> Inr ())"

definition validate_positive_payoffs ::
    "('f, 'z) calc_ops_scheme \<Rightarrow> ('g, 'f, 'y) finite_game_scheme \<Rightarrow> 'g \<Rightarrow> ('f learn_error + unit) option" where
  "validate_positive_payoffs F G game =
     odometer_loop (fg_n_actions G game) (sg_n_roles G game) (\<lambda>_ profile. positive_at F G game profile)
       (replicate (sg_n_roles G game) 0) ()"

definition roth_erev_new ::
    "('f, 'z) calc_ops_scheme \<Rightarrow> ('g, 'f, 'y) finite_game_scheme \<Rightarrow> 'g \<Rightarrow> nat \<Rightarrow> 'f \<Rightarrow> 'f \<Rightarrow> 'f \<Rightarrow>
     ('f learn_error + 'f roth_erev_state) option" where
  "roth_erev_new F G game role initial_propensity phi epsilon =
     (let unit_interval = (\<lambda>value. fl_le F (fl_zero F) value \<and> fl_less F value (fl_one F));
          checks =
            try_bind (validate_parameter F ''initial_propensity'' initial_propensity (fl_less F (fl_zero F))) (\<lambda>_.
            try_bind (validate_parameter F ''phi'' phi unit_interval) (\<lambda>_.
            try_bind (validate_parameter F ''epsilon'' epsilon unit_interval) (\<lambda>_.
              validate_role G game role)))
      in case checks of
           Inl e \<Rightarrow> Some (Inl e)
         | Inr _ \<Rightarrow> map_option (\<lambda>positive. try_bind positive (\<lambda>_.
             Inr \<lparr>re_propensities = replicate (fg_n_actions G game role) initial_propensity, re_phi = phi, re_epsilon = epsilon\<rparr>))
             (validate_positive_payoffs F G game))"

definition roth_erev_probabilities :: "('f, 'z) calc_ops_scheme \<Rightarrow> 'f roth_erev_state \<Rightarrow> 'f learn_error + 'f list" where
  "roth_erev_probabilities F self =
     (let maximum = fold (\<lambda>value acc. fl_max F acc value) (re_propensities self) (fl_neg_inf F)
      in if \<not> fl_finite F maximum \<or> fl_le F maximum (fl_zero F) then Inl LearnEmptyProbabilityMass
         else
           let scaled = map (\<lambda>value. fl_div F value maximum) (re_propensities self);
               tot = fold (\<lambda>x acc. fl_add F acc x) scaled (fl_zero F)
           in if \<not> fl_finite F tot \<or> fl_le F tot (fl_zero F) then Inl LearnEmptyProbabilityMass
              else Inr (map (\<lambda>value. fl_div F value tot) scaled))"

definition roth_erev_choose ::
    "('f, 'z) calc_ops_scheme \<Rightarrow> ('f, 'r) draw_ops \<Rightarrow> 'f roth_erev_state \<Rightarrow> 'r \<Rightarrow> ('f learn_error + nat) \<times> 'r" where
  "roth_erev_choose F R self rng =
     (case roth_erev_probabilities F self of
        Inl e \<Rightarrow> (Inl e, rng) | Inr ps \<Rightarrow> sample_probabilities F R ps rng)"

definition experience ::
    "('f, 'z) calc_ops_scheme \<Rightarrow> 'f roth_erev_state \<Rightarrow> nat \<Rightarrow> 'f \<Rightarrow> nat \<Rightarrow> 'f" where
  "experience F self chosen_action payoff action =
     (let n_actions = length (re_propensities self)
      in if n_actions = 1 then payoff
         else if action = chosen_action then fl_mul F (fl_sub F (fl_one F) (re_epsilon self)) payoff
         else fl_div F (fl_mul F (re_epsilon self) payoff) (fl_of_nat F (n_actions - 1)))"

definition reinforce ::
    "('f, 'z) calc_ops_scheme \<Rightarrow> 'f roth_erev_state \<Rightarrow> nat \<Rightarrow> 'f \<Rightarrow> 'f list \<Rightarrow> nat \<times> 'f \<Rightarrow> 'f learn_error + 'f list" where
  "reinforce F self chosen_action payoff next' ap =
     (let (action, propensity) = ap;
          value = fl_add F (fl_mul F (fl_sub F (fl_one F) (re_phi self)) propensity)
            (experience F self chosen_action payoff action)
      in if \<not> fl_finite F value \<or> fl_le F value (fl_zero F) then Inl LearnNonFiniteCalculation
         else Inr (next' @ [value]))"

definition roth_erev_update ::
    "('f, 'z) calc_ops_scheme \<Rightarrow> nat \<Rightarrow> 'f \<Rightarrow> 'f roth_erev_state \<Rightarrow> ('f learn_error + unit) \<times> 'f roth_erev_state" where
  "roth_erev_update F chosen_action payoff self =
     (let n_actions = length (re_propensities self)
      in if chosen_action \<ge> n_actions then (Inl (LearnInvalidAction chosen_action n_actions), self)
         else if \<not> fl_finite F payoff \<or> fl_le F payoff (fl_zero F) then (Inl (LearnInvalidRealizedPayoff payoff), self)
         else case try_fold (reinforce F self chosen_action payoff) [] (List.enumerate 0 (re_propensities self)) of
                Inl e \<Rightarrow> (Inl e, self)
              | Inr next' \<Rightarrow> (Inr (), self\<lparr>re_propensities := next'\<rparr>))"

definition update_from_profile ::
    "('f, 'z) calc_ops_scheme \<Rightarrow> ('g, 'f, 'y) finite_game_scheme \<Rightarrow> 'g \<Rightarrow> nat \<Rightarrow> nat list \<Rightarrow> 'f roth_erev_state \<Rightarrow>
     ('f learn_error + unit) \<times> 'f roth_erev_state" where
  "update_from_profile F G game role profile self =
     (case validate_role G game role of
        Inl e \<Rightarrow> (Inl e, self)
      | Inr _ \<Rightarrow>
          if length profile \<noteq> sg_n_roles G game
          then (Inl (LearnLengthMismatch ''action profile'' (sg_n_roles G game) (length profile)), self)
          else case find (\<lambda>(profile_role, action). action \<ge> fg_n_actions G game profile_role) (List.enumerate 0 profile) of
                 Some (profile_role, action) \<Rightarrow> (Inl (LearnInvalidAction action (fg_n_actions G game profile_role)), self)
               | None \<Rightarrow> roth_erev_update F (profile ! role) (nf_payoff G game role profile) self)"

subsection \<open>Logit choice\<close>

datatype estimate_mode = LastOpponent | EmpiricalFrequency

record 'f logit_state =
  ls_empirical :: "nat list"
  ls_last :: "nat option"
  ls_lambda :: 'f
  ls_mode :: estimate_mode

definition logit_new ::
    "('f, 'z) calc_ops_scheme \<Rightarrow> ('g, 'f, 'y) finite_game_scheme \<Rightarrow> 'g \<Rightarrow> nat \<Rightarrow> 'f \<Rightarrow> estimate_mode \<Rightarrow>
     'f learn_error + 'f logit_state" where
  "logit_new F G game role lam mode =
     (if \<not> fl_finite F lam \<or> fl_less F lam (fl_zero F) then Inl (LearnInvalidParameter ''lambda'' lam)
      else try_bind (opponent_role G game role) (\<lambda>opponent.
        Inr \<lparr>ls_empirical = replicate (fg_n_actions G game opponent) 0, ls_last = None, ls_lambda = lam, ls_mode = mode\<rparr>))"

definition logit_observe :: "nat \<Rightarrow> 'f logit_state \<Rightarrow> ('f learn_error + unit) \<times> 'f logit_state" where
  "logit_observe opponent_action self =
     (if opponent_action \<ge> length (ls_empirical self)
      then (Inl (LearnInvalidAction opponent_action (length (ls_empirical self))), self)
      else case checked_inc_u64 (ls_empirical self ! opponent_action) of
             None \<Rightarrow> (Inl LearnCountOverflow, self)
           | Some next' \<Rightarrow> (Inr (), self\<lparr>ls_empirical := list_update (ls_empirical self) opponent_action next',
                                      ls_last := Some opponent_action\<rparr>))"

definition sum_counts :: "nat list \<Rightarrow> 'f learn_error + nat" where
  "sum_counts counts =
     try_fold (\<lambda>sum c. if sum + c \<le> u64_max then Inr (sum + c) else Inl LearnCountOverflow) 0 counts"

definition frequency_estimate ::
    "('f, 'z) calc_ops_scheme \<Rightarrow> ('g, 'f, 'y) finite_game_scheme \<Rightarrow> 'g \<Rightarrow> nat \<Rightarrow> nat list \<Rightarrow> nat \<Rightarrow> nat \<Rightarrow> 'f" where
  "frequency_estimate F G game role counts tot action =
     fl_div F (fold (\<lambda>(opponent_action, c) acc.
         fl_add F acc (fl_mul F (fl_of_nat F c) (payoff_against G game role action opponent_action)))
       (List.enumerate 0 counts) (fl_zero F)) (fl_of_nat F tot)"

definition expected_payoffs ::
    "('f, 'z) calc_ops_scheme \<Rightarrow> ('g, 'f, 'y) finite_game_scheme \<Rightarrow> 'g \<Rightarrow> nat \<Rightarrow> 'f logit_state \<Rightarrow> 'f learn_error + 'f list" where
  "expected_payoffs F G game role self =
     try_bind (opponent_role G game role) (\<lambda>opponent.
       let expected = fg_n_actions G game opponent; zeros = replicate (fg_n_actions G game role) (fl_zero F)
       in if length (ls_empirical self) \<noteq> expected
          then Inl (LearnLengthMismatch ''empirical counts'' expected (length (ls_empirical self)))
          else try_bind
            (case ls_mode self of
               LastOpponent \<Rightarrow> Inr (case ls_last self of
                   Some opponent_action \<Rightarrow> map (\<lambda>action. payoff_against G game role action opponent_action) [0..<fg_n_actions G game role]
                 | None \<Rightarrow> zeros)
             | EmpiricalFrequency \<Rightarrow> try_bind (sum_counts (ls_empirical self)) (\<lambda>tot.
                 Inr (if tot > 0
                      then map (frequency_estimate F G game role (ls_empirical self) tot) [0..<fg_n_actions G game role]
                      else zeros)))
            (\<lambda>estimates. if list_ex (\<lambda>value. \<not> fl_finite F value) estimates then Inl LearnNonFiniteCalculation
                          else Inr estimates))"

definition logit_probabilities ::
    "('f, 'z) calc_ops_scheme \<Rightarrow> ('g, 'f, 'y) finite_game_scheme \<Rightarrow> 'g \<Rightarrow> nat \<Rightarrow> 'f logit_state \<Rightarrow> 'f learn_error + 'f list" where
  "logit_probabilities F G game role self =
     try_bind (expected_payoffs F G game role self) (\<lambda>estimates.
       if estimates = [] then Inl LearnEmptyProbabilityMass
       else if fl_eq F (ls_lambda self) (fl_zero F)
       then Inr (replicate (length estimates) (fl_div F (fl_one F) (fl_of_nat F (length estimates))))
       else
         let maximum = fold (\<lambda>value acc. fl_max F acc value) estimates (fl_neg_inf F);
             weights = map (\<lambda>estimate. fl_exp F (fl_mul F (ls_lambda self) (fl_sub F estimate maximum))) estimates;
             tot = fold (\<lambda>x acc. fl_add F acc x) weights (fl_zero F)
         in if \<not> fl_finite F tot \<or> fl_le F tot (fl_zero F) then Inl LearnEmptyProbabilityMass
            else Inr (map (\<lambda>weight. fl_div F weight tot) weights))"

definition logit_choose ::
    "('f, 'z) calc_ops_scheme \<Rightarrow> ('f, 'r) draw_ops \<Rightarrow> ('g, 'f, 'y) finite_game_scheme \<Rightarrow> 'g \<Rightarrow> nat \<Rightarrow> 'f logit_state \<Rightarrow> 'r \<Rightarrow>
     ('f learn_error + nat) \<times> 'r" where
  "logit_choose F R G game role self rng =
     (case logit_probabilities F G game role self of
        Inl e \<Rightarrow> (Inl e, rng) | Inr ps \<Rightarrow> sample_probabilities F R ps rng)"

end
