(* ===== verification/Automata.thy ===== *)
theory Automata
  imports Learners
begin

section \<open>Repeated-game automata (crates/socsim-games/src/learn/automaton.rs)\<close>

text \<open>
  The six automata with their memory, and what they play: \<open>strategy\<close> gives each kind's action as a
  function of the whole past. The memory of the code - the last pair of actions and the trigger
  bit - is enough for it.
\<close>

datatype 'f automaton_kind = AllC | AllD | Grim | Wsls | Tft | Gtft 'f

record 'f automaton_state =
  at_kind :: "'f automaton_kind"
  at_coop :: nat
  at_grim_triggered :: bool
  at_own_last :: "nat option"
  at_opponent_last :: "nat option"

definition generosity_ok :: "('f, 'z) calc_ops_scheme \<Rightarrow> 'f \<Rightarrow> bool" where
  "generosity_ok F g \<longleftrightarrow> fl_finite F g \<and> fl_le F (fl_zero F) g \<and> fl_le F g (fl_one F)"

definition automaton_new ::
    "('f, 'z) calc_ops_scheme \<Rightarrow> 'f automaton_kind \<Rightarrow> nat \<Rightarrow> 'f learn_error + 'f automaton_state" where
  "automaton_new F kind coop =
     (if coop \<ge> 2 then Inl (LearnInvalidCooperationAction coop)
      else
        let state = \<lparr>at_kind = kind, at_coop = coop, at_grim_triggered = False, at_own_last = None, at_opponent_last = None\<rparr>
        in case kind of
             Gtft g \<Rightarrow> if generosity_ok F g then Inr state else Inl (LearnInvalidParameter ''generosity'' g)
           | _ \<Rightarrow> Inr state)"

definition wsls_action :: "nat \<Rightarrow> nat option \<Rightarrow> nat option \<Rightarrow> nat" where
  "wsls_action coop own_last opponent_last =
     (case (own_last, opponent_last) of
        (Some own, Some opponent) \<Rightarrow>
          if opponent = coop then own else if own = coop then 1 - coop else coop
      | _ \<Rightarrow> coop)"

definition pure_two :: "('f, 'z) calc_ops_scheme \<Rightarrow> nat \<Rightarrow> 'f learn_error + 'f list" where
  "pure_two F action =
     (if action \<ge> 2 then Inl (LearnInvalidAction action 2)
      else Inr (list_update (replicate 2 (fl_zero F)) action (fl_one F)))"

definition generous_mix :: "('f, 'z) calc_ops_scheme \<Rightarrow> nat \<Rightarrow> 'f \<Rightarrow> 'f list" where
  "generous_mix F coop g =
     list_update (list_update (replicate 2 (fl_zero F)) coop g) (1 - coop) (fl_sub F (fl_one F) g)"

definition next_action_probabilities ::
    "('f, 'z) calc_ops_scheme \<Rightarrow> 'f automaton_state \<Rightarrow> 'f learn_error + 'f list" where
  "next_action_probabilities F self =
     (let coop = at_coop self; defect = 1 - coop
      in if coop \<ge> 2 then Inl (LearnInvalidCooperationAction coop)
         else case at_kind self of
           AllC \<Rightarrow> pure_two F coop
         | AllD \<Rightarrow> pure_two F defect
         | Grim \<Rightarrow> pure_two F (if at_grim_triggered self then defect else coop)
         | Wsls \<Rightarrow> pure_two F (wsls_action coop (at_own_last self) (at_opponent_last self))
         | Tft \<Rightarrow> pure_two F (case at_opponent_last self of Some a \<Rightarrow> a | None \<Rightarrow> coop)
         | Gtft g \<Rightarrow>
             if \<not> generosity_ok F g then Inl (LearnInvalidParameter ''generosity'' g)
             else (case at_opponent_last self of
                     None \<Rightarrow> pure_two F coop
                   | Some action \<Rightarrow> if action = coop then pure_two F coop else Inr (generous_mix F coop g)))"

definition next_action ::
    "('f, 'z) calc_ops_scheme \<Rightarrow> ('f, 'r) draw_ops \<Rightarrow> 'f automaton_state \<Rightarrow> 'r \<Rightarrow> ('f learn_error + nat) \<times> 'r" where
  "next_action F R self rng =
     (let coop = at_coop self; defect = 1 - coop
      in case at_kind self of
           AllC \<Rightarrow> (Inr coop, rng)
         | AllD \<Rightarrow> (Inr defect, rng)
         | Grim \<Rightarrow> (Inr (if at_grim_triggered self then defect else coop), rng)
         | Wsls \<Rightarrow> (Inr (wsls_action coop (at_own_last self) (at_opponent_last self)), rng)
         | Tft \<Rightarrow> (Inr (case at_opponent_last self of Some a \<Rightarrow> a | None \<Rightarrow> coop), rng)
         | Gtft g \<Rightarrow>
             (case at_opponent_last self of
                None \<Rightarrow> (Inr coop, rng)
              | Some action \<Rightarrow>
                  if action = coop then (Inr coop, rng)
                  else if fl_eq F g (fl_zero F) then (Inr defect, rng)
                  else if fl_eq F g (fl_one F) then (Inr coop, rng)
                  else sample_probabilities F R (generous_mix F coop g) rng))"

definition automaton_observe :: "nat \<Rightarrow> nat \<Rightarrow> 'f automaton_state \<Rightarrow> ('f learn_error + unit) \<times> 'f automaton_state" where
  "automaton_observe own_action opponent_action self =
     (case find (\<lambda>action. action \<ge> 2) [own_action, opponent_action] of
        Some action \<Rightarrow> (Inl (LearnInvalidAction action 2), self)
      | None \<Rightarrow> (Inr (), self\<lparr>at_grim_triggered := opponent_action \<noteq> at_coop self \<or> at_grim_triggered self,
                            at_own_last := Some own_action, at_opponent_last := Some opponent_action\<rparr>))"

definition validate_two_action_game :: "('g, 'f, 'y) finite_game_scheme \<Rightarrow> 'g \<Rightarrow> 'f learn_error + unit" where
  "validate_two_action_game G game =
     (case find (\<lambda>role. fg_n_actions G game role \<noteq> 2) [0..<sg_n_roles G game] of
        Some role \<Rightarrow> Inl (LearnInvalidActionCount role 2 (fg_n_actions G game role))
      | None \<Rightarrow> Inr ())"

subsection \<open>Strategies over the whole past\<close>

text \<open>The past is the list of (own, opponent) pairs, oldest first; the result is the mixed strategy's
  support: \<open>None\<close> where generous tit-for-tat randomises.\<close>

definition strategy :: "('f, 'z) calc_ops_scheme \<Rightarrow> 'f automaton_kind \<Rightarrow> nat \<Rightarrow> (nat \<times> nat) list \<Rightarrow> nat option" where
  "strategy F kind coop past =
     (let defect = 1 - coop
      in case kind of
           AllC \<Rightarrow> Some coop
         | AllD \<Rightarrow> Some defect
         | Grim \<Rightarrow> Some (if \<exists>(own, opponent) \<in> set past. opponent \<noteq> coop then defect else coop)
         | Wsls \<Rightarrow> Some (if past = [] then coop
             else if snd (last past) = coop then fst (last past)
             else if fst (last past) = coop then defect else coop)
         | Tft \<Rightarrow> Some (if past = [] then coop else snd (last past))
         | Gtft g \<Rightarrow>
             if past = [] \<or> snd (last past) = coop then Some coop
             else if fl_eq F g (fl_zero F) then Some defect
             else if fl_eq F g (fl_one F) then Some coop else None)"

definition remember :: "(nat \<times> nat) list \<Rightarrow> 'f automaton_state \<Rightarrow> 'f automaton_state" where
  "remember past self = fold (\<lambda>(own, opponent) st. snd (automaton_observe own opponent st)) past self"

lemma remember_memory:
  assumes "\<forall>(own, opponent) \<in> set past. own < 2 \<and> opponent < 2"
  shows "remember past \<lparr>at_kind = kind, at_coop = coop, at_grim_triggered = False, at_own_last = None, at_opponent_last = None\<rparr> =
    \<lparr>at_kind = kind, at_coop = coop, at_grim_triggered = (\<exists>(own, opponent) \<in> set past. opponent \<noteq> coop),
     at_own_last = (if past = [] then None else Some (fst (last past))),
     at_opponent_last = (if past = [] then None else Some (snd (last past)))\<rparr>"
  using assms
proof (induction past rule: rev_induct)
  case (snoc p past)
  obtain own opponent where p: "p = (own, opponent)" by (cases p)
  have "own < 2" "opponent < 2" using snoc.prems by (simp_all add: p)
  moreover have "find (\<lambda>action. action \<ge> 2) [own, opponent] = None" using calculation by simp
  ultimately show ?case using snoc by (auto simp: p remember_def automaton_observe_def)
qed (simp add: remember_def)

lemma automaton_new_Inr:
  "automaton_new F kind coop = Inr self \<longleftrightarrow> coop < 2 \<and> (\<forall>g. kind = Gtft g \<longrightarrow> generosity_ok F g) \<and>
     self = \<lparr>at_kind = kind, at_coop = coop, at_grim_triggered = False, at_own_last = None, at_opponent_last = None\<rparr>"
  by (auto simp: automaton_new_def Let_def split: automaton_kind.split)

text \<open>
  C22: after any past of legal action pairs an automaton plays its strategy of the whole past: always
  the same, the trigger of Grim, win-stay lose-shift, tit-for-tat; where generous tit-for-tat
  randomises it reports its generosity on cooperation, and wherever the action is determined no
  randomness is used and the reported probabilities are those of that action.
\<close>

theorem automaton_plays_strategy:
  assumes "automaton_new F kind coop = Inr fresh" "\<forall>(own, opponent) \<in> set past. own < 2 \<and> opponent < 2"
  defines "self \<equiv> remember past fresh"
  shows "case strategy F kind coop past of
      Some action \<Rightarrow> action < 2 \<and> next_action F R self rng = (Inr action, rng) \<and>
        ((\<forall>g. kind \<noteq> Gtft g) \<or> past = [] \<or> snd (last past) = coop \<longrightarrow> next_action_probabilities F self = pure_two F action)
    | None \<Rightarrow> \<exists>g. kind = Gtft g \<and> next_action_probabilities F self = Inr (generous_mix F coop g) \<and>
        next_action F R self rng = sample_probabilities F R (generous_mix F coop g) rng"
proof -
  have coop: "coop < 2" "\<forall>g. kind = Gtft g \<longrightarrow> generosity_ok F g" using assms(1) by (simp_all add: automaton_new_Inr)
  have self: "self = \<lparr>at_kind = kind, at_coop = coop, at_grim_triggered = (\<exists>(own, opponent) \<in> set past. opponent \<noteq> coop),
     at_own_last = (if past = [] then None else Some (fst (last past))),
     at_opponent_last = (if past = [] then None else Some (snd (last past)))\<rparr>"
    using assms(1) unfolding self_def automaton_new_Inr by (simp only: remember_memory [OF assms(2)])
  have last: "past \<noteq> [] \<Longrightarrow> fst (last past) < 2 \<and> snd (last past) < 2"
    using assms(2) last_in_set [of past] by fastforce
  show ?thesis
    using coop last
    by (cases kind)
      (auto simp: self strategy_def next_action_def next_action_probabilities_def wsls_action_def Let_def split: if_splits)
qed

text \<open>Floats as integers, exact and without infinities below \<open>-1000\<close>.\<close>

definition int_calc :: "int calc_ops" where
  "int_calc = \<lparr>fl_zero = 0, fl_nan = - 2000, fl_add = (+), fl_div = (\<lambda>x y. x div y), fl_of_nat = int,
     fl_finite = (\<lambda>x. - 1000 < x), fl_one = 1, fl_sub = (-), fl_mul = (*), fl_eq = (=), fl_less = (<),
     fl_max = max, fl_neg_inf = - 1000, fl_exp = (\<lambda>x. x)\<rparr>"

theorem automaton_plays_strategy_witness:
  "\<forall>(R :: (int, nat) draw_ops) rng. next_action int_calc R (remember [(0, 0), (0, 1), (1, 0)]
     \<lparr>at_kind = Grim, at_coop = 0, at_grim_triggered = False, at_own_last = None, at_opponent_last = None\<rparr>) rng =
   (Inr 1, rng)"
proof (intro allI)
  fix R :: "(int, nat) draw_ops" and rng
  show "next_action int_calc R (remember [(0, 0), (0, 1), (1, 0)]
     \<lparr>at_kind = Grim, at_coop = 0, at_grim_triggered = False, at_own_last = None, at_opponent_last = None\<rparr>) rng = (Inr 1, rng)"
    using automaton_plays_strategy [of int_calc Grim 0 _ "[(0, 0), (0, 1), (1, 0)]" R rng]
    by (simp add: automaton_new_Inr strategy_def)
qed

end
