(* ===== verification/Learning.thy ===== *)
theory Learning
  imports Automata Complex_Main
begin

section \<open>What the learning primitives choose\<close>

text \<open>
  \<open>reads_as F val\<close> is what the standard of \<open>f64\<close> promises of its comparisons: finite floats are
  ordered as the reals they denote, above minus infinity. \<open>zero_neutral\<close> says that adding a zero
  changes no comparison. The first result is about the common search loop, the others about
  sampling, fictitious play and Roth-Erev.
\<close>

definition reads_as :: "('f, 'z) calc_ops_scheme \<Rightarrow> ('f \<Rightarrow> real) \<Rightarrow> bool" where
  "reads_as F val \<longleftrightarrow>
     (\<forall>x y. fl_finite F x \<longrightarrow> fl_finite F y \<longrightarrow> (fl_less F x y \<longleftrightarrow> val x < val y) \<and> (fl_eq F x y \<longleftrightarrow> val x = val y)) \<and>
     (\<forall>x. fl_finite F x \<longrightarrow> fl_less F (fl_neg_inf F) x) \<and>
     fl_finite F (fl_zero F) \<and> val (fl_zero F) = 0"

lemma reads_asD:
  assumes "reads_as F val"
  shows "fl_finite F x \<Longrightarrow> fl_finite F y \<Longrightarrow> fl_less F x y \<longleftrightarrow> val x < val y"
    "fl_finite F x \<Longrightarrow> fl_finite F y \<Longrightarrow> fl_eq F x y \<longleftrightarrow> val x = val y"
    "fl_finite F x \<Longrightarrow> fl_less F (fl_neg_inf F) x" "fl_finite F (fl_zero F)" "val (fl_zero F) = 0"
  using assms unfolding reads_as_def by blast+

subsection \<open>The search for a best action\<close>

definition maximisers :: "(nat \<Rightarrow> real) \<Rightarrow> nat \<Rightarrow> nat list" where
  "maximisers u n = filter (\<lambda>a. \<forall>b < n. u b \<le> u a) [0..<n]"

lemma maximisers_nonempty: "0 < n \<Longrightarrow> maximisers u n \<noteq> []"
proof -
  assume "0 < n"
  then have "Max (u ` {..<n}) \<in> u ` {..<n}" by (intro Max_in) auto
  then obtain a where "a < n" "u a = Max (u ` {..<n})" by auto
  then have "\<forall>b < n. u b \<le> u a" by simp
  then show ?thesis using \<open>a < n\<close> by (auto simp: maximisers_def filter_empty_conv)
qed

lemma maximisers_Suc:
  assumes "m < n" "\<forall>b < n. u b \<le> u m"
  shows "maximisers u (Suc n) =
    (if u m < u n then [n] else if u n = u m then maximisers u n @ [n] else maximisers u n)"
proof -
  have old: "(\<forall>b < Suc n. u b \<le> u a) \<longleftrightarrow> (\<forall>b < n. u b \<le> u a) \<and> u n \<le> u a" for a
    by (auto simp: less_Suc_eq)
  have top: "(\<forall>b < n. u b \<le> u a) \<longleftrightarrow> u m \<le> u a" for a using assms order.trans by blast
  have "maximisers u (Suc n) = filter (\<lambda>a. u m \<le> u a \<and> u n \<le> u a) [0..<n] @ (if u m \<le> u n then [n] else [])"
    unfolding maximisers_def old top by simp
  moreover have "maximisers u n = filter (\<lambda>a. u m \<le> u a) [0..<n]" unfolding maximisers_def top ..
  moreover have "filter (\<lambda>a. u m \<le> u a \<and> u n \<le> u a) [0..<n] = []" if "u m < u n"
    using that assms(2) by (force simp: filter_empty_conv)
  moreover have "filter (\<lambda>a. u m \<le> u a \<and> u n \<le> u a) [0..<n] = filter (\<lambda>a. u m \<le> u a) [0..<n]" if "u n \<le> u m"
    by (rule filter_cong) (use that in auto)
  ultimately show ?thesis by auto
qed

lemma scan_action_fold:
  assumes R: "reads_as F val"
  shows "case try_fold (scan_action F value) (fl_neg_inf F, []) [0..<n] of
      Inl e \<Rightarrow> e = LearnNonFiniteCalculation \<and> (\<exists>a < n. \<not> fl_finite F (value a))
    | Inr (best, acts) \<Rightarrow> (\<forall>a < n. fl_finite F (value a)) \<and> acts = maximisers (val \<circ> value) n \<and>
        (if n = 0 then best = fl_neg_inf F else fl_finite F best \<and> (\<forall>a \<in> set acts. val best = val (value a)))"
proof (induction n)
  case (Suc n)
  let ?u = "val \<circ> value"
  show ?case
  proof (cases "try_fold (scan_action F value) (fl_neg_inf F, []) [0..<n]")
    case (Inl e)
    then show ?thesis using Suc.IH by (auto simp: try_fold_append less_Suc_eq)
  next
    case (Inr st)
    obtain best acts where st: "st = (best, acts)" by (cases st)
    have IH: "\<forall>a < n. fl_finite F (value a)" "acts = maximisers ?u n"
      "if n = 0 then best = fl_neg_inf F else fl_finite F best \<and> (\<forall>a \<in> set acts. val best = ?u a)"
      using Suc.IH by (simp_all add: Inr st)
    have split: "try_fold (scan_action F value) (fl_neg_inf F, []) [0..<Suc n] = scan_action F value (best, acts) n"
      using Inr by (simp add: try_fold_append st try_bind_def split: sum.split)
    show ?thesis
    proof (cases "fl_finite F (value n)")
      case False
      then show ?thesis unfolding split by (auto simp: scan_action_def Let_def)
    next
      case fin: True
      then have all: "\<forall>a < Suc n. fl_finite F (value a)" using IH(1) less_Suc_eq by auto
      show ?thesis
      proof (cases "n = 0")
        case True
        then show ?thesis
          unfolding split using IH fin reads_asD(3) [OF R fin]
          by (auto simp: scan_action_def maximisers_def Let_def)
      next
        case False
        then obtain m where m: "m \<in> set acts" using maximisers_nonempty [of n ?u] IH(2) by (metis gr0I last_in_set)
        then have best: "fl_finite F best" "val best = ?u m" "\<forall>b < n. ?u b \<le> ?u m" "m < n"
          using IH(2,3) False by (auto simp: maximisers_def)
        have cmp: "fl_less F best (value n) \<longleftrightarrow> ?u m < ?u n" "fl_eq F (value n) best \<longleftrightarrow> ?u n = ?u m"
          using reads_asD(1,2) [OF R] best(1,2) fin by simp_all
        note max = maximisers_Suc [where u = ?u, OF best(4,3)]
        show ?thesis
          unfolding split using all IH(2,3) False cmp max best(1,2) fin
          by (auto simp: scan_action_def Let_def)
      qed
    qed
  qed
qed (simp add: maximisers_def)

lemma scan_best_maximisers:
  assumes "reads_as F val"
  shows "scan_best F value n =
    (if \<forall>a < n. fl_finite F (value a) then Inr (maximisers (val \<circ> value) n) else Inl LearnNonFiniteCalculation)"
  using scan_action_fold [OF assms, of n "value"]
  by (auto simp: scan_best_def try_bind_def split: sum.splits)

subsection \<open>Sampling\<close>

definition zero_neutral :: "('f, 'z) calc_ops_scheme \<Rightarrow> bool" where
  "zero_neutral F \<longleftrightarrow> (\<forall>c d z. fl_finite F z \<longrightarrow> \<not> fl_less F z (fl_zero F) \<longrightarrow> \<not> fl_less F (fl_zero F) z \<longrightarrow>
     fl_less F d (fl_add F c z) \<longrightarrow> fl_less F d c)"

definition mass_ok :: "('f, 'z) calc_ops_scheme \<Rightarrow> 'f list \<Rightarrow> bool" where
  "mass_ok F ps \<longleftrightarrow> (\<forall>p \<in> set ps. fl_finite F p \<and> \<not> fl_less F p (fl_zero F))"

lemma check_probability_pair:
  "check_probability F last_positive (i, p) =
     (if \<not> fl_finite F p \<or> fl_less F p (fl_zero F) then Inl (LearnInvalidProbability i p)
      else Inr (if fl_less F (fl_zero F) p then Some i else last_positive))"
  by (simp add: check_probability_def)

lemma check_probabilities:
  "case try_fold (check_probability F) None (List.enumerate 0 ps) of
     Inl e \<Rightarrow> \<not> mass_ok F ps
   | Inr None \<Rightarrow> mass_ok F ps \<and> (\<forall>p \<in> set ps. \<not> fl_less F (fl_zero F) p)
   | Inr (Some i) \<Rightarrow> mass_ok F ps \<and> i < length ps \<and> fl_less F (fl_zero F) (ps ! i)"
proof (induction ps rule: rev_induct)
  case (snoc p ps)
  have enum: "List.enumerate 0 (ps @ [p]) = List.enumerate 0 ps @ [(length ps, p)]"
    by (simp add: enumerate_append_eq)
  obtain res where res: "try_fold (check_probability F) None (List.enumerate 0 ps) = res" by blast
  show ?case
    using snoc.IH unfolding enum try_fold_append res
    by (cases res) (auto simp: mass_ok_def check_probability_pair nth_append split: option.splits)
qed (simp add: mass_ok_def)

lemma first_cumulative_positive:
  assumes "zero_neutral F" "first_cumulative F draw c ivs = Some i" "\<not> fl_less F draw c"
    and "\<forall>(i, v) \<in> set ivs. fl_finite F v \<and> \<not> fl_less F v (fl_zero F)"
  shows "\<exists>v. (i, v) \<in> set ivs \<and> fl_less F (fl_zero F) v"
  using assms(2-)
proof (induction ivs arbitrary: c)
  case (Cons iv ivs)
  obtain k v where iv: "iv = (k, v)" by (cases iv)
  show ?case
  proof (cases "fl_less F draw (fl_add F c v)")
    case True
    then have "fl_less F (fl_zero F) v"
      using assms(1) Cons.prems(2,3) unfolding zero_neutral_def iv by fastforce
    then show ?thesis using True Cons.prems(1) by (auto simp: iv)
  next
    case False
    then show ?thesis using Cons.IH [of "fl_add F c v"] Cons.prems by (auto simp: iv)
  qed
qed simp

text \<open>
  sampling draws once and returns an index whose probability is positive, whatever the rounding
  of the cumulative sums; it fails, without drawing, exactly when an entry is invalid or no entry is
  positive.
\<close>

theorem sample_probabilities_positive:
  assumes "zero_neutral F" "\<And>r. \<not> fl_less F (fst (dr_f64 R r)) (fl_zero F)"
  shows "case sample_probabilities F R ps rng of
      (Inr i, rng') \<Rightarrow> mass_ok F ps \<and> i < length ps \<and> fl_less F (fl_zero F) (ps ! i) \<and> rng' = snd (dr_f64 R rng)
    | (Inl e, rng') \<Rightarrow> rng' = rng \<and> (\<not> mass_ok F ps \<or> (\<forall>p \<in> set ps. \<not> fl_less F (fl_zero F) p))"
proof -
  consider e where "try_fold (check_probability F) None (List.enumerate 0 ps) = Inl e"
    | "try_fold (check_probability F) None (List.enumerate 0 ps) = Inr None"
    | k where "try_fold (check_probability F) None (List.enumerate 0 ps) = Inr (Some k)"
    by (metis option.exhaust sum.exhaust)
  then show ?thesis
  proof cases
    case (3 k)
    obtain draw rng' where draw: "dr_f64 R rng = (draw, rng')" by (cases "dr_f64 R rng")
    have ok: "mass_ok F ps" "k < length ps" "fl_less F (fl_zero F) (ps ! k)"
      using check_probabilities [of F ps] by (simp_all add: 3)
    have "i < length ps \<and> fl_less F (fl_zero F) (ps ! i)"
      if "first_cumulative F draw (fl_zero F) (List.enumerate 0 ps) = Some i" for i
    proof -
      have "\<forall>(i, v) \<in> set (List.enumerate 0 ps). fl_finite F v \<and> \<not> fl_less F v (fl_zero F)"
        using ok(1) by (auto simp: mass_ok_def in_set_enumerate_eq)
      then show ?thesis
        using first_cumulative_positive [OF assms(1) that] assms(2) [of rng]
        by (auto simp: draw in_set_enumerate_eq)
    qed
    then show ?thesis using 3 ok by (simp add: sample_probabilities_def draw split: option.split)
  qed (use check_probabilities [of F ps] in \<open>auto simp: sample_probabilities_def\<close>)
qed

definition cycling_draws :: "(int, nat) draw_ops" where
  "cycling_draws = \<lparr>dr_f64 = (\<lambda>r. (int (r mod 4), Suc r)), dr_range = (\<lambda>n r. (r mod n, Suc r))\<rparr>"

theorem sample_probabilities_positive_witness:
  "case sample_probabilities int_calc cycling_draws [0, 3, 0, 1] 3 of (Inr i, rng') \<Rightarrow> [0, 3, 0, 1 :: int] ! i > 0 | _ \<Rightarrow> False"
proof -
  have "zero_neutral int_calc" by (simp add: zero_neutral_def int_calc_def)
  moreover have "\<not> fl_less int_calc (fst (dr_f64 cycling_draws r)) (fl_zero int_calc)" for r
    by (simp add: int_calc_def cycling_draws_def)
  moreover have "sample_probabilities int_calc cycling_draws [0, 3, 0, 1] 3 = (Inr 3, 4)" by code_simp
  ultimately show ?thesis
    using sample_probabilities_positive [of int_calc cycling_draws 3 "[0, 3, 0, 1]"] by (simp add: int_calc_def)
qed

subsection \<open>Fictitious play\<close>

abbreviation best_replies ::
    "('f, 'z) calc_ops_scheme \<Rightarrow> ('f \<Rightarrow> real) \<Rightarrow> ('g, 'f, 'y) finite_game_scheme \<Rightarrow> 'g \<Rightarrow> nat \<Rightarrow> 'f fictitious_belief \<Rightarrow> nat list" where
  "best_replies F val G game role belief \<equiv>
     maximisers (val \<circ> belief_value F G game role (fb_counts belief)) (fg_n_actions G game role)"

lemma resolve_tie_Inr:
  assumes "resolve_tie R candidates tie rng = (Inr a, rng')" "\<And>n r. 0 < n \<Longrightarrow> fst (dr_range R n r) < n"
  shows "a \<in> set candidates \<and> (tie = LowestIndex \<longrightarrow> a = hd candidates \<and> rng' = rng)"
proof (cases candidates)
  case (Cons c cs)
  then show ?thesis
    using assms(1) assms(2) [of "length candidates" rng]
    by (auto simp: resolve_tie_def split: if_splits prod.splits) (metis fst_conv length_Cons nth_mem set_ConsD)
qed (use assms(1) in \<open>simp add: resolve_tie_def\<close>)

lemma best_response_Inr:
  assumes "reads_as F val" "best_response F R G game role belief rng = (Inr a, rng')"
    and "\<And>n r. 0 < n \<Longrightarrow> fst (dr_range R n r) < n"
  shows "a \<in> set (best_replies F val G game role belief) \<and>
    (fb_tie belief = LowestIndex \<longrightarrow> a = hd (best_replies F val G game role belief) \<and> rng' = rng)"
proof -
  obtain acts where acts: "best_actions F G game role belief = Inr acts"
    using assms(2) by (cases "best_actions F G game role belief") (simp_all add: best_response_def)
  then have "acts = best_replies F val G game role belief"
    by (auto simp: best_actions_def scan_best_maximisers [OF assms(1)] try_simps Let_def split: if_splits)
  then show ?thesis using resolve_tie_Inr [OF _ assms(3)] assms(2) acts by (simp add: best_response_def)
qed

lemma belief_observe_Inr:
  assumes "belief_observe F a belief = (Inr (), belief')"
  shows "a < length (fb_counts belief) \<and> fb_tie belief' = fb_tie belief \<and>
    fb_counts belief' = list_update (fb_counts belief) a (fl_add F (fb_counts belief ! a) (fl_one F)) \<and>
    fb_empirical belief' = list_update (fb_empirical belief) a (fb_empirical belief ! a + 1)"
  using assms by (auto simp: belief_observe_def checked_inc_u64_def Let_def split: if_splits option.splits)

text \<open>
  C27: a step of fictitious play is simultaneous: each player's action maximises its payoff against
  the counts of the step before - the lowest such action, without a draw, under that tie rule - and
  only then does each player count the other's action.
\<close>

theorem simultaneous_step_best_replies:
  assumes "reads_as F val" "\<And>n r. 0 < n \<Longrightarrow> fst (dr_range R n r) < n"
    and "simultaneous_step F R G game (zero0, one0, rng) = (Inr (a, b), zero1, one1, rng')"
  shows "a \<in> set (best_replies F val G game 0 zero0) \<and> b \<in> set (best_replies F val G game 1 one0) \<and>
    (fb_tie zero0 = LowestIndex \<longrightarrow> a = hd (best_replies F val G game 0 zero0)) \<and>
    (fb_tie one0 = LowestIndex \<longrightarrow> b = hd (best_replies F val G game 1 one0)) \<and>
    fb_empirical zero1 = list_update (fb_empirical zero0) b (fb_empirical zero0 ! b + 1) \<and>
    fb_empirical one1 = list_update (fb_empirical one0) a (fb_empirical one0 ! a + 1) \<and>
    fb_counts zero1 = list_update (fb_counts zero0) b (fl_add F (fb_counts zero0 ! b) (fl_one F)) \<and>
    fb_counts one1 = list_update (fb_counts one0) a (fl_add F (fb_counts one0 ! a) (fl_one F))"
proof -
  obtain r1 where r1: "best_response F R G game 0 zero0 rng = (Inr a, r1)"
    and r2: "best_response F R G game 1 one0 r1 = (Inr b, rng')"
    and "belief_observe F b zero0 = (Inr (), zero1)" "belief_observe F a one0 = (Inr (), one1)"
    using assms(3) by (auto simp: simultaneous_step_def split: prod.splits sum.splits)
  then show ?thesis
    using best_response_Inr [OF assms(1) r1 assms(2)] best_response_Inr [OF assms(1) r2 assms(2)]
      belief_observe_Inr by blast
qed

text \<open>Matching pennies, with payoffs 1 and 2.\<close>

definition pennies :: "(unit, int) finite_game" where
  "pennies =
     \<lparr>sg_n_roles = (\<lambda>_. 2), sg_check_action = (\<lambda>_ role a. if a < 2 then Inr () else Inl (InvalidAction role a)),
      nf_payoff = (\<lambda>_ role p. if (p ! 0 = p ! 1) = (role = 0) then 2 else 1), nf_payoffs_into = (\<lambda>_ _ out. out),
      fg_n_actions = (\<lambda>_ _. 2), fg_action_label = (\<lambda>_ _ _. []), fg_is_symmetric = (\<lambda>_. False)\<rparr>"

lemma int_calc_reads: "reads_as int_calc real_of_int"
  by (simp add: reads_as_def int_calc_def)

theorem simultaneous_step_best_replies_witness:
  "snd (simultaneous_step int_calc cycling_draws pennies ()
     (\<lparr>fb_counts = [2, 1], fb_empirical = [2, 1], fb_tie = LowestIndex\<rparr>,
      \<lparr>fb_counts = [1, 1], fb_empirical = [1, 1], fb_tie = LowestIndex\<rparr>, 0)) =
   (\<lparr>fb_counts = [3, 1], fb_empirical = [3, 1], fb_tie = LowestIndex\<rparr>,
    \<lparr>fb_counts = [2, 1], fb_empirical = [2, 1], fb_tie = LowestIndex\<rparr>, 0) \<and>
   0 \<in> set (best_replies int_calc real_of_int pennies () 0 \<lparr>fb_counts = [2, 1], fb_empirical = [2, 1], fb_tie = LowestIndex\<rparr>)"
proof -
  have two: "[0..<2] = [0, Suc 0]" by (simp add: numeral_2_eq_2)
  have step: "simultaneous_step int_calc cycling_draws pennies ()
     (\<lparr>fb_counts = [2, 1], fb_empirical = [2, 1], fb_tie = LowestIndex\<rparr>,
      \<lparr>fb_counts = [1, 1], fb_empirical = [1, 1], fb_tie = LowestIndex\<rparr>, 0) =
    (Inr (0, 0), \<lparr>fb_counts = [3, 1], fb_empirical = [3, 1], fb_tie = LowestIndex\<rparr>,
     \<lparr>fb_counts = [2, 1], fb_empirical = [2, 1], fb_tie = LowestIndex\<rparr>, 0)"
    by (simp add: simultaneous_step_def best_response_def best_actions_def opponent_role_def validate_two_player_def
        scan_best_def scan_action_def belief_value_def payoff_against_def resolve_tie_def belief_observe_def
        checked_inc_u64_def u64_max_def int_calc_def pennies_def two)
  have "fst (dr_range cycling_draws n r) < n" if "0 < n" for n r using that by (simp add: cycling_draws_def)
  from simultaneous_step_best_replies [OF int_calc_reads this step] step show ?thesis by simp
qed

subsection \<open>Roth-Erev\<close>

lemma try_fold_unit:
  fixes f :: "'a \<Rightarrow> 'e + unit"
  shows "try_fold (\<lambda>_. f) () xs = (case find (\<lambda>x. isl (f x)) xs of Some x \<Rightarrow> f x | None \<Rightarrow> Inr ())"
  by (induction xs) (auto simp: try_bind_def split: sum.split)

text \<open>
  the validation of a Roth-Erev game always ends, and it accepts exactly the games in which every
  role has a finite positive payoff at every profile of valid actions; otherwise it names a profile
  and a role whose payoff is not.
\<close>

theorem validate_positive_payoffs_decides:
  fixes F :: "('f, 'z) calc_ops_scheme" and G :: "('g, 'f, 'y) finite_game_scheme" and game :: 'g
  assumes "\<And>role. role < sg_n_roles G game \<Longrightarrow> 0 < fg_n_actions G game role"
  defines "valid \<equiv> \<lambda>p. length p = sg_n_roles G game \<and> (\<forall>role < sg_n_roles G game. p ! role < fg_n_actions G game role)"
    and "positive \<equiv> \<lambda>x. fl_finite F x \<and> \<not> fl_le F x (fl_zero F)"
  shows "case validate_positive_payoffs F G game of
      None \<Rightarrow> False
    | Some (Inr _) \<Rightarrow> \<forall>p. valid p \<longrightarrow> (\<forall>role < sg_n_roles G game. positive (nf_payoff G game role p))
    | Some (Inl e) \<Rightarrow> \<exists>role p. e = LearnNonPositivePayoff role p (nf_payoff G game role p) \<and> valid p \<and>
        role < sg_n_roles G game \<and> \<not> positive (nf_payoff G game role p)"
proof -
  let ?n = "sg_n_roles G game" and ?f = "fg_n_actions G game"
  have valid: "valid p \<longleftrightarrow> p \<in> set (all_profiles ?f ?n)" for p
    unfolding set_all_profiles valid_def using assms(1) by (auto simp: max_def)
  have at: "positive_at F G game p = Inr () \<longleftrightarrow> (\<forall>role < ?n. positive (nf_payoff G game role p))" for p
  proof (cases "find (\<lambda>role. let x = nf_payoff G game role p in \<not> fl_finite F x \<or> fl_le F x (fl_zero F)) [0..<?n]")
    case None
    then have "positive_at F G game p = Inr ()" by (simp only: positive_at_def option.case)
    then show ?thesis using None by (auto simp: positive_def Let_def find_None_iff)
  next
    case (Some role)
    then have "role < ?n \<and> \<not> positive (nf_payoff G game role p)" by (auto simp: find_Some_iff positive_def Let_def)
    then show ?thesis using Some by (auto simp: positive_at_def)
  qed
  have at_Inl: "\<exists>role < ?n. e = LearnNonPositivePayoff role p (nf_payoff G game role p) \<and> \<not> positive (nf_payoff G game role p)"
    if "positive_at F G game p = Inl e" for e p
    using that by (auto simp: positive_at_def positive_def Let_def find_Some_iff split: option.splits)
  have "validate_positive_payoffs F G game = Some (case find (\<lambda>p. isl (positive_at F G game p)) (all_profiles ?f ?n) of
      Some p \<Rightarrow> positive_at F G game p | None \<Rightarrow> Inr ())"
    by (simp add: validate_positive_payoffs_def odometer_loop_product try_fold_unit)
  then show ?thesis
  proof (cases "find (\<lambda>p. isl (positive_at F G game p)) (all_profiles ?f ?n)")
    case None
    then have "\<forall>p \<in> set (all_profiles ?f ?n). positive_at F G game p = Inr ()"
      by (auto simp: find_None_iff isl_def) (metis old.unit.exhaust sum.exhaust)
    then show ?thesis using None at valid \<open>validate_positive_payoffs F G game = _\<close> by simp
  next
    case (Some p)
    then have "p \<in> set (all_profiles ?f ?n)" "isl (positive_at F G game p)" by (auto simp: find_Some_iff)
    then show ?thesis
      using Some at_Inl [of p] valid \<open>validate_positive_payoffs F G game = _\<close> by (auto simp: isl_def)
  qed
qed

theorem validate_positive_payoffs_decides_witness:
  "validate_positive_payoffs int_calc pennies () = Some (Inr ()) \<and> 0 < nf_payoff pennies () 1 [1, 0]"
proof -
  have n: "sg_n_roles pennies () = 2" "fg_n_actions pennies () role = 2" for role by (simp_all add: pennies_def)
  have res: "validate_positive_payoffs int_calc pennies () = Some (Inr ())"
    unfolding validate_positive_payoffs_def n odometer_loop_product by code_simp
  have pos: "\<And>role. role < sg_n_roles pennies () \<Longrightarrow> 0 < fg_n_actions pennies () role" by (simp add: n)
  have "\<forall>p. length p = 2 \<and> (\<forall>role < 2. p ! role < 2) \<longrightarrow>
      (\<forall>role < 2. fl_finite int_calc (nf_payoff pennies () role p) \<and>
        \<not> fl_le int_calc (nf_payoff pennies () role p) (fl_zero int_calc))"
    using validate_positive_payoffs_decides [where F = int_calc, OF pos] res by (simp add: n)
  then have "\<not> fl_le int_calc (nf_payoff pennies () 1 [1, 0]) (fl_zero int_calc)"
    by (auto simp: less_2_cases_iff dest: spec [of _ "[1, 0]"])
  then show ?thesis using res by (simp add: int_calc_def fl_le_def)
qed

end
