(* ===== verification/Mixed.thy ===== *)
theory Mixed
  imports Learning
begin

section \<open>Mixed strategies (crates/socsim-games/src/mixed.rs)\<close>

text \<open>
  Validated probability vectors, and the expected payoffs and regrets of a profile of them. \<open>f64\<close>'s
  iterator \<open>sum\<close> and \<open>product\<close>, \<open>abs\<close>, and the constant \<open>1e-9\<close> join the float operations.
\<close>

record 'f mixed_ops = "'f calc_ops" +
  fl_sum :: "'f list \<Rightarrow> 'f"
  fl_product :: "'f list \<Rightarrow> 'f"
  fl_abs :: "'f \<Rightarrow> 'f"
  fl_dist_tol :: 'f

datatype mixed_error =
    NotADistribution
  | MixedDimension nat nat nat
  | MixedRoleCount nat nat

datatype 'f mixed_strategy = MixedStrategy (ms_probs: "'f list")

definition mixed_new :: "('f, 'z) mixed_ops_scheme \<Rightarrow> 'f list \<Rightarrow> mixed_error + 'f mixed_strategy" where
  "mixed_new F probs =
     (if probs = [] \<or> list_ex (\<lambda>prob. \<not> fl_finite F prob \<or> fl_less F prob (fl_zero F)) probs \<or>
         fl_less F (fl_dist_tol F) (fl_abs F (fl_sub F (fl_sum F probs) (fl_one F)))
      then Inl NotADistribution else Inr (MixedStrategy probs))"

definition mixed_uniform :: "('f, 'z) mixed_ops_scheme \<Rightarrow> nat \<Rightarrow> mixed_error + 'f mixed_strategy" where
  "mixed_uniform F n =
     (if n = 0 then Inl NotADistribution
      else mixed_new F (replicate n (fl_div F (fl_one F) (fl_of_nat F n))))"

definition mixed_pure :: "('f, 'z) mixed_ops_scheme \<Rightarrow> nat \<Rightarrow> nat \<Rightarrow> mixed_error + 'f mixed_strategy" where
  "mixed_pure F n action =
     (if n = 0 \<or> action \<ge> n then Inl NotADistribution
      else Inr (MixedStrategy (list_update (replicate n (fl_zero F)) action (fl_one F))))"

definition mixed_len :: "'f mixed_strategy \<Rightarrow> nat" where
  "mixed_len self = length (ms_probs self)"

definition mixed_is_empty :: "'f mixed_strategy \<Rightarrow> bool" where
  "mixed_is_empty self \<longleftrightarrow> ms_probs self = []"

definition validate_profile ::
    "('g, 'f, 'y) finite_game_scheme \<Rightarrow> 'g \<Rightarrow> 'f mixed_strategy list \<Rightarrow> mixed_error + unit" where
  "validate_profile G game strategies =
     (let expected_roles = sg_n_roles G game
      in if expected_roles = 0 \<or> length strategies \<noteq> expected_roles
         then Inl (MixedRoleCount expected_roles (length strategies))
         else try_fold (\<lambda>_ (role, mixed).
             let expected = fg_n_actions G game role
             in if mixed_len mixed \<noteq> expected then Inl (MixedDimension role expected (mixed_len mixed)) else Inr ())
           () (List.enumerate 0 strategies))"

definition profile_probability ::
    "('f, 'z) mixed_ops_scheme \<Rightarrow> nat \<Rightarrow> 'f mixed_strategy list \<Rightarrow> nat list \<Rightarrow> 'f" where
  "profile_probability F role strategies profile =
     fl_product F (map (\<lambda>(index, action). ms_probs (strategies ! index) ! action)
       (filter (\<lambda>(index, _). index \<noteq> role) (List.enumerate 0 profile)))"

definition add_profile_payoff ::
    "('f, 'z) mixed_ops_scheme \<Rightarrow> ('g, 'f, 'y) finite_game_scheme \<Rightarrow> 'g \<Rightarrow> nat \<Rightarrow> 'f mixed_strategy list \<Rightarrow>
     'f list \<Rightarrow> nat list \<Rightarrow> mixed_error + 'f list" where
  "add_profile_payoff F G game role strategies result profile =
     (let probability = profile_probability F role strategies profile; action = profile ! role
      in Inr (if \<not> fl_eq F probability (fl_zero F)
              then list_update result action (fl_add F (result ! action) (fl_mul F probability (nf_payoff G game role profile)))
              else result))"

definition action_payoffs_validated ::
    "('f, 'z) mixed_ops_scheme \<Rightarrow> ('g, 'f, 'y) finite_game_scheme \<Rightarrow> 'g \<Rightarrow> nat \<Rightarrow> 'f mixed_strategy list \<Rightarrow>
     (mixed_error + 'f list) option" where
  "action_payoffs_validated F G game role strategies =
     odometer_loop ((!) (map (fg_n_actions G game) [0..<sg_n_roles G game])) (sg_n_roles G game)
       (add_profile_payoff F G game role strategies) (replicate (sg_n_roles G game) 0)
       (replicate (fg_n_actions G game role) (fl_zero F))"

definition action_payoffs ::
    "('f, 'z) mixed_ops_scheme \<Rightarrow> ('g, 'f, 'y) finite_game_scheme \<Rightarrow> 'g \<Rightarrow> nat \<Rightarrow> 'f mixed_strategy list \<Rightarrow>
     (mixed_error + 'f list) option" where
  "action_payoffs F G game role strategies =
     (case validate_profile G game strategies of
        Inl e \<Rightarrow> Some (Inl e)
      | Inr _ \<Rightarrow> if role \<ge> sg_n_roles G game then Some (Inl (MixedRoleCount (sg_n_roles G game) (min (role + 1) usize_max)))
                 else action_payoffs_validated F G game role strategies)"

definition weighted_payoff :: "('f, 'z) mixed_ops_scheme \<Rightarrow> 'f list \<Rightarrow> 'f mixed_strategy \<Rightarrow> 'f" where
  "weighted_payoff F action_values mixed =
     fl_sum F (map (\<lambda>(payoff, probability). fl_mul F payoff probability) (zip action_values (ms_probs mixed)))"

definition expected_payoff ::
    "('f, 'z) mixed_ops_scheme \<Rightarrow> ('g, 'f, 'y) finite_game_scheme \<Rightarrow> 'g \<Rightarrow> nat \<Rightarrow> 'f mixed_strategy list \<Rightarrow>
     (mixed_error + 'f) option" where
  "expected_payoff F G game role strategies =
     map_option (\<lambda>res. try_bind res (\<lambda>action_values. Inr (weighted_payoff F action_values (strategies ! role))))
       (action_payoffs F G game role strategies)"

definition role_regret ::
    "('f, 'z) mixed_ops_scheme \<Rightarrow> ('g, 'f, 'y) finite_game_scheme \<Rightarrow> 'g \<Rightarrow> 'f mixed_strategy list \<Rightarrow> nat \<Rightarrow>
     (mixed_error + 'f) option" where
  "role_regret F G game strategies role =
     map_option (\<lambda>res. try_bind res (\<lambda>action_values.
         let expected = weighted_payoff F action_values (strategies ! role);
             best = fold (\<lambda>value best. fl_max F best value) action_values (fl_neg_inf F)
         in Inr (fl_sub F best expected)))
       (action_payoffs_validated F G game role strategies)"

primrec regret_list ::
    "('f, 'z) mixed_ops_scheme \<Rightarrow> ('g, 'f, 'y) finite_game_scheme \<Rightarrow> 'g \<Rightarrow> 'f mixed_strategy list \<Rightarrow> nat list \<Rightarrow>
     'f list \<Rightarrow> (mixed_error + 'f list) option" where
  "regret_list F G game strategies [] result = Some (Inr result)"
| "regret_list F G game strategies (role # roles) result =
     Option.bind (role_regret F G game strategies role) (\<lambda>res. case res of
       Inl e \<Rightarrow> Some (Inl e) | Inr x \<Rightarrow> regret_list F G game strategies roles (result @ [x]))"

definition regrets ::
    "('f, 'z) mixed_ops_scheme \<Rightarrow> ('g, 'f, 'y) finite_game_scheme \<Rightarrow> 'g \<Rightarrow> 'f mixed_strategy list \<Rightarrow>
     (mixed_error + 'f list) option" where
  "regrets F G game strategies =
     (case validate_profile G game strategies of
        Inl e \<Rightarrow> Some (Inl e)
      | Inr _ \<Rightarrow> regret_list F G game strategies [0..<sg_n_roles G game] [])"

definition regret ::
    "('f, 'z) mixed_ops_scheme \<Rightarrow> ('g, 'f, 'y) finite_game_scheme \<Rightarrow> 'g \<Rightarrow> 'f mixed_strategy list \<Rightarrow>
     (mixed_error + 'f) option" where
  "regret F G game strategies =
     map_option (\<lambda>res. try_bind res (\<lambda>values.
         case values of [] \<Rightarrow> Inl (MixedRoleCount 1 0)
         | x # xs \<Rightarrow> Inr (fold (\<lambda>value best. fl_max F best value) xs x)))
       (regrets F G game strategies)"

end
