(* ===== verification/Solvers.thy ===== *)
theory Solvers
  imports Mixed
begin

section \<open>Pure equilibria and dominance (crates/socsim-games/src/solve)\<close>

text \<open>
  The combinatorial solvers: the inspection of a game with its payoff-scaled tolerance, the
  enumeration of pure Nash equilibria, and iterated elimination of strictly dominated actions. Their
  loops over profiles are \<open>odometer_loop\<close>.
\<close>

record 'f solve_ops = "'f mixed_ops" +
  fl_inf :: 'f
  fl_min :: "'f \<Rightarrow> 'f \<Rightarrow> 'f"
  fl_tiny :: 'f

datatype lp_failure =
    Infeasible
  | Unbounded
  | Interrupted
  | NotOptimal
  | LpInternal string

datatype 'f solve_error =
    SolveTooLarge nat
  | UnsupportedRoles nat
  | EmptyActions nat
  | NonFinitePayoff
  | NotZeroSum
  | InvalidLabel nat nat
  | MaxPivots nat
  | SolveLp lp_failure
  | VerificationFailed 'f 'f
  | NotConverged 'f nat
  | InvalidOptions string
  | SolveMixed mixed_error
  | NoBestResponse nat
  | InvalidGame string

record 'f game_info =
  gi_counts :: "nat list"
  gi_tolerance :: 'f

text \<open>\<open>checked_mul(..).unwrap_or(u128::MAX)\<close> saturates.\<close>

definition inspect_counts :: "('g, 'f, 'y) finite_game_scheme \<Rightarrow> 'g \<Rightarrow> 'f solve_error + nat list \<times> nat" where
  "inspect_counts G game =
     try_fold (\<lambda>(counts, profiles) role.
         let n = fg_n_actions G game role
         in if n = 0 then Inl (EmptyActions role) else Inr (counts @ [n], saturating_mul_u128 profiles n))
       ([], 1) [0..<sg_n_roles G game]"

definition payoff_range ::
    "('f, 'z) solve_ops_scheme \<Rightarrow> ('g, 'f, 'y) finite_game_scheme \<Rightarrow> 'g \<Rightarrow> 'f \<times> 'f \<Rightarrow> nat list \<Rightarrow> 'f solve_error + 'f \<times> 'f" where
  "payoff_range F G game acc profile =
     try_fold (\<lambda>(minimum, maximum) role.
         let payoff = nf_payoff G game role profile
         in if \<not> fl_finite F payoff then Inl NonFinitePayoff
            else Inr (fl_min F minimum payoff, fl_max F maximum payoff))
       acc [0..<sg_n_roles G game]"

definition scaled_tolerance :: "('f, 'z) solve_ops_scheme \<Rightarrow> 'f \<Rightarrow> 'f \<Rightarrow> 'f" where
  "scaled_tolerance F minimum maximum =
     (let range' = fl_sub F maximum minimum
      in if fl_finite F range' then fl_mul F (fl_tiny F) (fl_max F range' (fl_one F))
         else fl_max F (fl_sub F (fl_mul F maximum (fl_tiny F)) (fl_mul F minimum (fl_tiny F))) (fl_tiny F))"

definition inspect_game ::
    "('f, 'z) solve_ops_scheme \<Rightarrow> ('g, 'f, 'y) finite_game_scheme \<Rightarrow> 'g \<Rightarrow> ('f solve_error + 'f game_info) option" where
  "inspect_game F G game =
     (let n_roles = sg_n_roles G game
      in if n_roles = 0 then Some (Inl (UnsupportedRoles n_roles))
         else case inspect_counts G game of
           Inl e \<Rightarrow> Some (Inl e)
         | Inr (counts, profiles) \<Rightarrow>
             if profiles > max_profiles then Some (Inl (SolveTooLarge profiles))
             else map_option (\<lambda>res. try_bind res (\<lambda>(minimum, maximum).
                 Inr \<lparr>gi_counts = counts, gi_tolerance = scaled_tolerance F minimum maximum\<rparr>))
               (odometer_loop ((!) counts) n_roles (payoff_range F G game) (replicate n_roles 0)
                 (fl_inf F, fl_neg_inf F)))"

definition tolerance ::
    "('f, 'z) solve_ops_scheme \<Rightarrow> ('g, 'f, 'y) finite_game_scheme \<Rightarrow> 'g \<Rightarrow> ('f solve_error + 'f) option" where
  "tolerance F G game = map_option (\<lambda>res. try_bind res (\<lambda>info. Inr (gi_tolerance info))) (inspect_game F G game)"

text \<open>\<open>advance_profile\<close>: whether there is a next profile, and the profile it leaves.\<close>

definition advance_profile :: "nat list \<Rightarrow> nat list \<Rightarrow> bool \<times> nat list" where
  "advance_profile counts profile =
     (case odometer_step ((!) counts) (length profile) profile of
        Some profile' \<Rightarrow> (True, profile') | None \<Rightarrow> (False, map (\<lambda>_. 0) profile))"

subsection \<open>Pure Nash equilibria\<close>

record 'f pure_equilibrium =
  pe_profile :: "nat list"
  pe_payoffs :: "'f list"
  pe_regret :: 'f

definition role_best ::
    "('f, 'z) solve_ops_scheme \<Rightarrow> ('g, 'f, 'y) finite_game_scheme \<Rightarrow> 'g \<Rightarrow> nat list \<Rightarrow> nat list \<Rightarrow> nat \<Rightarrow> 'f" where
  "role_best F G game counts profile role =
     fold (\<lambda>action best. fl_max F best (nf_payoff G game role (list_update profile role action)))
       [0..<counts ! role] (nf_payoff G game role profile)"

definition profile_regret ::
    "('f, 'z) solve_ops_scheme \<Rightarrow> ('g, 'f, 'y) finite_game_scheme \<Rightarrow> 'g \<Rightarrow> nat list \<Rightarrow> nat list \<Rightarrow> 'f" where
  "profile_regret F G game counts profile =
     fold (\<lambda>role maximum_regret. fl_max F maximum_regret
         (fl_sub F (role_best F G game counts profile role) (nf_payoff G game role profile)))
       [0..<sg_n_roles G game] (fl_zero F)"

definition pure_nash_visit ::
    "('f, 'z) solve_ops_scheme \<Rightarrow> ('g, 'f, 'y) finite_game_scheme \<Rightarrow> 'g \<Rightarrow> 'f game_info \<Rightarrow>
     'f pure_equilibrium list \<Rightarrow> nat list \<Rightarrow> 'f solve_error + 'f pure_equilibrium list" where
  "pure_nash_visit F G game info result profile =
     (let payoffs = map (\<lambda>role. nf_payoff G game role profile) [0..<sg_n_roles G game];
          maximum_regret = profile_regret F G game (gi_counts info) profile
      in Inr (if fl_le F maximum_regret (gi_tolerance info)
              then result @ [\<lparr>pe_profile = profile, pe_payoffs = payoffs, pe_regret = maximum_regret\<rparr>] else result))"

definition pure_nash ::
    "('f, 'z) solve_ops_scheme \<Rightarrow> ('g, 'f, 'y) finite_game_scheme \<Rightarrow> 'g \<Rightarrow> ('f solve_error + 'f pure_equilibrium list) option" where
  "pure_nash F G game =
     Option.bind (inspect_game F G game) (\<lambda>res.
       case res of
         Inl e \<Rightarrow> Some (Inl e)
       | Inr info \<Rightarrow> odometer_loop ((!) (gi_counts info)) (sg_n_roles G game) (pure_nash_visit F G game info)
           (replicate (sg_n_roles G game) 0) [])"

subsection \<open>Iterated strict dominance\<close>

record elimination =
  el_round :: nat
  el_role :: nat
  el_action :: nat

text \<open>The profile in which the opponents play their surviving actions at the given indices.\<close>

definition opponent_profile :: "nat \<Rightarrow> nat list list \<Rightarrow> nat list \<Rightarrow> nat list \<Rightarrow> nat list" where
  "opponent_profile n_roles surviving opponents indices =
     fold (\<lambda>(pos, opponent) profile. list_update profile opponent (surviving ! opponent ! (indices ! pos)))
       (List.enumerate 0 opponents) (replicate n_roles 0)"

text \<open>\<open>return false\<close> leaves the loop; running off the end returns true.\<close>

definition strictly_dominates ::
    "('f, 'z) solve_ops_scheme \<Rightarrow> ('g, 'f, 'y) finite_game_scheme \<Rightarrow> 'g \<Rightarrow> nat \<Rightarrow> nat \<Rightarrow> nat \<Rightarrow> nat list list \<Rightarrow> 'f \<Rightarrow> bool option" where
  "strictly_dominates F G game role better worse surviving tol =
     (let opponents = filter (\<lambda>candidate. candidate \<noteq> role) [0..<sg_n_roles G game];
          visit = (\<lambda>_ indices.
            let profile = opponent_profile (sg_n_roles G game) surviving opponents indices;
                better_payoff = nf_payoff G game role (list_update profile role better);
                worse_payoff = nf_payoff G game role (list_update profile role worse)
            in if fl_le F (fl_sub F better_payoff worse_payoff) tol then Inl () else Inr ())
      in map_option (\<lambda>res. \<not> isl res)
           (odometer_loop (\<lambda>pos. length (surviving ! (opponents ! pos))) (length opponents) visit
             (replicate (length opponents) 0) ()))"

definition dominated ::
    "('f, 'z) solve_ops_scheme \<Rightarrow> ('g, 'f, 'y) finite_game_scheme \<Rightarrow> 'g \<Rightarrow> 'f \<Rightarrow> nat list list \<Rightarrow> nat \<Rightarrow> nat \<Rightarrow> bool" where
  "dominated F G game tol surviving role action =
     list_ex (\<lambda>alternative. alternative \<noteq> action \<and>
       strictly_dominates F G game role alternative action surviving tol = Some True) (surviving ! role)"

definition dominance_round ::
    "('f, 'z) solve_ops_scheme \<Rightarrow> ('g, 'f, 'y) finite_game_scheme \<Rightarrow> 'g \<Rightarrow> 'f \<Rightarrow> nat list list \<Rightarrow> (nat \<times> nat) list" where
  "dominance_round F G game tol surviving =
     concat (map (\<lambda>role. map (Pair role) (filter (dominated F G game tol surviving role) (surviving ! role)))
       [0..<sg_n_roles G game])"

definition retain_actions :: "(nat \<times> nat) list \<Rightarrow> nat list list \<Rightarrow> nat list list" where
  "retain_actions remove surviving =
     fold (\<lambda>(role, action) surviving. list_update surviving role (filter (\<lambda>candidate. candidate \<noteq> action) (surviving ! role)))
       remove surviving"

partial_function (option) dominance_loop ::
    "('f, 'z) solve_ops_scheme \<Rightarrow> ('g, 'f, 'y) finite_game_scheme \<Rightarrow> 'g \<Rightarrow> 'f \<Rightarrow> nat \<Rightarrow> nat list list \<Rightarrow> elimination list \<Rightarrow>
     (nat list list \<times> elimination list) option" where
  "dominance_loop F G game tol rnd surviving eliminated =
     (let remove = dominance_round F G game tol surviving
      in if remove = [] then Some (surviving, eliminated)
         else dominance_loop F G game tol (rnd + 1) (retain_actions remove surviving)
           (eliminated @ map (\<lambda>(role, action). \<lparr>el_round = rnd, el_role = role, el_action = action\<rparr>) remove))"

definition iterated_strict_dominance ::
    "('f, 'z) solve_ops_scheme \<Rightarrow> ('g, 'f, 'y) finite_game_scheme \<Rightarrow> 'g \<Rightarrow>
     ('f solve_error + nat list list \<times> elimination list) option" where
  "iterated_strict_dominance F G game =
     Option.bind (inspect_game F G game) (\<lambda>res.
       case res of
         Inl e \<Rightarrow> Some (Inl e)
       | Inr info \<Rightarrow> map_option Inr (dominance_loop F G game (gi_tolerance info) 1
           (map (\<lambda>count. [0..<count]) (gi_counts info)) []))"

end
