(* ===== verification/Nash.thy ===== *)
theory Nash
  imports Solvers
begin

section \<open>Pure equilibria are enumerated exactly\<close>

text \<open>
  \<open>float_laws F num key\<close> is what \<open>f64\<close> promises of the operations the solver uses: values that are
  not NaN (\<open>num\<close>) are ordered by \<open>key\<close>, infinities included; \<open>max\<close> and \<open>min\<close> pick by that order;
  subtracting the same finite number is monotone under rounding, and \<open>x - x\<close> is zero.
\<close>

definition float_laws :: "('f, 'z) solve_ops_scheme \<Rightarrow> ('f \<Rightarrow> bool) \<Rightarrow> ('f \<Rightarrow> real) \<Rightarrow> bool" where
  "float_laws F num key \<longleftrightarrow>
     (\<forall>x. fl_finite F x \<longrightarrow> num x) \<and>
     (\<forall>x y. num x \<longrightarrow> num y \<longrightarrow> (fl_less F x y \<longleftrightarrow> key x < key y) \<and> (fl_eq F x y \<longleftrightarrow> key x = key y) \<and>
        num (fl_max F x y) \<and> key (fl_max F x y) = max (key x) (key y)) \<and>
     (\<forall>x y. fl_finite F x \<longrightarrow> fl_finite F y \<longrightarrow> fl_finite F (fl_max F x y) \<and> fl_finite F (fl_min F x y) \<and>
        num (fl_sub F x y) \<and> num (fl_mul F x y)) \<and>
     (\<forall>x. fl_finite F x \<longrightarrow> fl_finite F (fl_max F (fl_neg_inf F) x) \<and> fl_finite F (fl_min F (fl_inf F) x) \<and>
        fl_finite F (fl_mul F x (fl_tiny F)) \<and> key (fl_sub F x x) = key (fl_zero F)) \<and>
     (\<forall>x y c. fl_finite F x \<longrightarrow> fl_finite F y \<longrightarrow> fl_finite F c \<longrightarrow> key x \<le> key y \<longrightarrow>
        key (fl_sub F x c) \<le> key (fl_sub F y c)) \<and>
     fl_finite F (fl_zero F) \<and> fl_finite F (fl_one F) \<and> fl_finite F (fl_tiny F) \<and>
     key (fl_zero F) \<le> key (fl_tiny F) \<and> key (fl_zero F) \<le> key (fl_one F) \<and>
     (\<forall>x. fl_finite F x \<longrightarrow> key (fl_zero F) \<le> key x \<longrightarrow> key (fl_zero F) \<le> key (fl_mul F (fl_tiny F) x))"

lemma float_lawsD:
  assumes "float_laws F num key"
  shows "fl_finite F x \<Longrightarrow> num x"
    "num x \<Longrightarrow> num y \<Longrightarrow> fl_less F x y \<longleftrightarrow> key x < key y"
    "num x \<Longrightarrow> num y \<Longrightarrow> fl_eq F x y \<longleftrightarrow> key x = key y"
    "num x \<Longrightarrow> num y \<Longrightarrow> num (fl_max F x y)"
    "num x \<Longrightarrow> num y \<Longrightarrow> key (fl_max F x y) = max (key x) (key y)"
    "fl_finite F x \<Longrightarrow> fl_finite F y \<Longrightarrow> fl_finite F (fl_max F x y)"
    "fl_finite F x \<Longrightarrow> fl_finite F y \<Longrightarrow> fl_finite F (fl_min F x y)"
    "fl_finite F x \<Longrightarrow> fl_finite F y \<Longrightarrow> num (fl_sub F x y)"
    "fl_finite F x \<Longrightarrow> fl_finite F y \<Longrightarrow> num (fl_mul F x y)"
    "fl_finite F x \<Longrightarrow> fl_finite F (fl_max F (fl_neg_inf F) x)"
    "fl_finite F x \<Longrightarrow> fl_finite F (fl_min F (fl_inf F) x)"
    "fl_finite F x \<Longrightarrow> fl_finite F (fl_mul F x (fl_tiny F))"
    "fl_finite F x \<Longrightarrow> key (fl_sub F x x) = key (fl_zero F)"
    "fl_finite F x \<Longrightarrow> fl_finite F y \<Longrightarrow> fl_finite F c \<Longrightarrow> key x \<le> key y \<Longrightarrow>
      key (fl_sub F x c) \<le> key (fl_sub F y c)"
    "fl_finite F (fl_zero F)" "fl_finite F (fl_one F)" "fl_finite F (fl_tiny F)"
    "key (fl_zero F) \<le> key (fl_tiny F)" "key (fl_zero F) \<le> key (fl_one F)"
    "fl_finite F x \<Longrightarrow> key (fl_zero F) \<le> key x \<Longrightarrow> key (fl_zero F) \<le> key (fl_mul F (fl_tiny F) x)"
  using assms by (simp_all add: float_laws_def)

lemma fl_le_key: "float_laws F num key \<Longrightarrow> num x \<Longrightarrow> num y \<Longrightarrow> fl_le F x y \<longleftrightarrow> key x \<le> key y"
  by (auto simp: fl_le_def float_lawsD(2,3))

lemma fold_max_key:
  assumes "float_laws F num key" "num x" "\<forall>a \<in> set as. num (f a)"
  shows "num (fold (\<lambda>a best. fl_max F best (f a)) as x) \<and>
    key (fold (\<lambda>a best. fl_max F best (f a)) as x) = Max (insert (key x) ((\<lambda>a. key (f a)) ` set as))"
  using assms(2,3)
proof (induction as arbitrary: x)
  case (Cons a as)
  have "num (fl_max F x (f a))" "key (fl_max F x (f a)) = max (key x) (key (f a))"
    using float_lawsD(4,5) [OF assms(1)] Cons.prems by simp_all
  moreover have "Max (insert (max u v) S) = Max (insert u (insert v S))" if "finite S" for u v :: real and S
    using that by (cases "S = {}") (simp_all add: max.assoc)
  ultimately show ?case using Cons.IH [of "fl_max F x (f a)"] Cons.prems(2) by simp
qed simp

lemma fold_max_finite:
  assumes "float_laws F num key" "fl_finite F x" "\<forall>a \<in> set as. fl_finite F (f a)"
  shows "fl_finite F (fold (\<lambda>a best. fl_max F best (f a)) as x)"
  using assms(2,3) by (induction as arbitrary: x) (simp_all add: float_lawsD(6) [OF assms(1)])

subsection \<open>The inspection\<close>

lemma inspect_counts_fold:
  "try_fold (\<lambda>(counts, profiles) role.
       let n = fg_n_actions G game role
       in if n = 0 then Inl (EmptyActions role) else Inr (counts @ [n], saturating_mul_u128 profiles n))
     (counts, profiles) roles =
   (case find (\<lambda>role. fg_n_actions G game role = 0) roles of
      Some role \<Rightarrow> Inl (EmptyActions role)
    | None \<Rightarrow> Inr (counts @ map (fg_n_actions G game) roles,
        fold (\<lambda>role profiles. saturating_mul_u128 profiles (fg_n_actions G game role)) roles profiles))"
  by (induction roles arbitrary: counts profiles) (auto simp: Let_def split: option.split)

lemma saturating_product:
  assumes "\<forall>n \<in> set ns. 0 < n" "profiles \<le> 2 ^ 128 - 1"
  shows "fold (\<lambda>n profiles. saturating_mul_u128 profiles n) ns profiles = min (profiles * prod_list ns) (2 ^ 128 - 1)"
  using assms
proof (induction ns arbitrary: profiles)
  case (Cons n ns)
  let ?m = "2 ^ 128 - 1 :: nat"
  have "min (min (profiles * n) ?m * prod_list ns) ?m = min (profiles * n * prod_list ns) ?m"
  proof (cases "profiles * n \<le> ?m")
    case False
    have "1 \<le> prod_list ns" using Cons.prems(1) by (induction ns) auto
    then have "?m \<le> ?m * prod_list ns" "?m \<le> profiles * n * prod_list ns"
      using False by (simp_all add: order.trans [OF _ mult_le_mono2 [of 1 "prod_list ns"]])
    then show ?thesis using False by (simp add: min_def)
  qed (simp add: min_def)
  moreover have "saturating_mul_u128 profiles n \<le> ?m" by (simp add: saturating_mul_u128_def)
  ultimately show ?case
    using Cons by (simp add: saturating_mul_u128_def mult.assoc)
qed (simp add: min_def)

lemma inspect_counts_Inr:
  assumes "\<forall>role < sg_n_roles G game. 0 < fg_n_actions G game role"
  shows "inspect_counts G game =
    Inr (map (fg_n_actions G game) [0..<sg_n_roles G game],
         min (prod_list (map (fg_n_actions G game) [0..<sg_n_roles G game])) (2 ^ 128 - 1))"
proof -
  let ?roles = "[0..<sg_n_roles G game]"
  have "find (\<lambda>role. fg_n_actions G game role = 0) ?roles = None"
    using assms by (auto simp: find_None_iff)
  moreover have "fold (\<lambda>role profiles. saturating_mul_u128 profiles (fg_n_actions G game role)) ?roles 1 =
      fold (\<lambda>n profiles. saturating_mul_u128 profiles n) (map (fg_n_actions G game) ?roles) 1"
    by (simp add: fold_map comp_def)
  ultimately show ?thesis
    using saturating_product [of "map (fg_n_actions G game) ?roles" 1] assms
    by (simp add: inspect_counts_def inspect_counts_fold)
qed

lemma payoff_range_finite:
  assumes "float_laws F num key" "\<forall>role < sg_n_roles G game. fl_finite F (nf_payoff G game role p)" "0 < sg_n_roles G game"
    and "acc = (fl_inf F, fl_neg_inf F) \<or> fl_finite F (fst acc) \<and> fl_finite F (snd acc)"
  shows "\<exists>acc'. payoff_range F G game acc p = Inr acc' \<and> fl_finite F (fst acc') \<and> fl_finite F (snd acc')"
proof -
  have "\<exists>acc'. try_fold (\<lambda>(minimum, maximum) role.
         let payoff = nf_payoff G game role p
         in if \<not> fl_finite F payoff then Inl NonFinitePayoff
            else Inr (fl_min F minimum payoff, fl_max F maximum payoff)) acc roles = Inr acc' \<and>
      (roles \<noteq> [] \<or> fl_finite F (fst acc) \<and> fl_finite F (snd acc) \<longrightarrow> fl_finite F (fst acc') \<and> fl_finite F (snd acc'))"
    if "\<forall>role \<in> set roles. fl_finite F (nf_payoff G game role p)" for roles
    using that assms(4)
  proof (induction roles arbitrary: acc)
    case (Cons role roles)
    obtain mn mx where acc: "acc = (mn, mx)" by (cases acc)
    let ?x = "nf_payoff G game role p"
    have "fl_finite F (fl_min F mn ?x)" "fl_finite F (fl_max F mx ?x)"
      using Cons.prems float_lawsD(6,7,10,11) [OF assms(1)] by (auto simp: acc)
    then show ?case using Cons.IH [of "(fl_min F mn ?x, fl_max F mx ?x)"] Cons.prems(1) by (auto simp: acc Let_def)
  qed auto
  from this [of "[0..<sg_n_roles G game]"] assms(2,3) show ?thesis by (simp add: payoff_range_def)
qed

definition accepted_game :: "('f, 'z) solve_ops_scheme \<Rightarrow> ('g, 'f, 'y) finite_game_scheme \<Rightarrow> 'g \<Rightarrow> bool" where
  "accepted_game F G game \<longleftrightarrow>
     0 < sg_n_roles G game \<and> (\<forall>role < sg_n_roles G game. 0 < fg_n_actions G game role) \<and>
     prod_list (map (fg_n_actions G game) [0..<sg_n_roles G game]) \<le> max_profiles \<and>
     (\<forall>p \<in> set (all_profiles (fg_n_actions G game) (sg_n_roles G game)). \<forall>role < sg_n_roles G game.
        fl_finite F (nf_payoff G game role p))"

lemma scaled_tolerance_num:
  assumes laws: "float_laws F num key" and "fl_finite F mn" "fl_finite F mx"
  shows "num (scaled_tolerance F mn mx) \<and> key (fl_zero F) \<le> key (scaled_tolerance F mn mx)"
proof (cases "fl_finite F (fl_sub F mx mn)")
  case True
  let ?m = "fl_max F (fl_sub F mx mn) (fl_one F)"
  have "key ?m = max (key (fl_sub F mx mn)) (key (fl_one F))"
    by (rule float_lawsD(5) [OF laws]) (simp_all add: float_lawsD(1,16) [OF laws] True)
  then have "fl_finite F ?m" "key (fl_zero F) \<le> key ?m"
    using float_lawsD(6,16,19) [OF laws] True by (simp_all add: le_max_iff_disj)
  then show ?thesis using True float_lawsD(9,17,20) [OF laws] by (simp add: scaled_tolerance_def Let_def)
next
  case False
  let ?s = "fl_sub F (fl_mul F mx (fl_tiny F)) (fl_mul F mn (fl_tiny F))"
  have "num ?s" "num (fl_tiny F)" using float_lawsD(1,8,12,17) [OF laws] assms(2,3) by simp_all
  then show ?thesis
    using False float_lawsD(4,5,18) [OF laws] by (simp add: scaled_tolerance_def Let_def le_max_iff_disj)
qed

lemma profiles_of_counts: "all_profiles ((!) (map f [0..<n])) n = all_profiles f n"
  unfolding all_profiles_def by (rule arg_cong [where f = product_lists], rule map_cong) simp_all

lemma inspect_game_accepts:
  assumes laws: "float_laws F num key" and ok: "accepted_game F G game"
  shows "\<exists>info. inspect_game F G game = Some (Inr info) \<and>
    gi_counts info = map (fg_n_actions G game) [0..<sg_n_roles G game] \<and> num (gi_tolerance info) \<and>
    key (fl_zero F) \<le> key (gi_tolerance info)"
proof -
  let ?n = "sg_n_roles G game" and ?f = "fg_n_actions G game"
  note ok = ok [unfolded accepted_game_def]
  have counts: "(!) (map ?f [0..<?n]) i = ?f i" if "i < ?n" for i using that by simp
  have "\<exists>acc'. try_fold (payoff_range F G game) acc ps = Inr acc' \<and>
      (ps \<noteq> [] \<longrightarrow> fl_finite F (fst acc') \<and> fl_finite F (snd acc'))"
    if "set ps \<subseteq> set (all_profiles ?f ?n)"
      "acc = (fl_inf F, fl_neg_inf F) \<or> fl_finite F (fst acc) \<and> fl_finite F (snd acc)" for ps acc
    using that
  proof (induction ps arbitrary: acc)
    case (Cons p ps)
    then have fin: "\<forall>role < ?n. fl_finite F (nf_payoff G game role p)" using ok by simp
    have npos: "0 < ?n" using ok by simp
    obtain acc' where
      acc': "payoff_range F G game acc p = Inr acc'" "fl_finite F (fst acc')" "fl_finite F (snd acc')"
      using payoff_range_finite [OF laws fin npos Cons.prems(2)] by (elim exE conjE)
    show ?case using Cons.IH [of acc'] Cons.prems(1) acc' by (cases ps) auto
  qed simp
  from this [OF subset_refl, of "(fl_inf F, fl_neg_inf F)"] obtain mn mx where
    range: "try_fold (payoff_range F G game) (fl_inf F, fl_neg_inf F) (all_profiles ?f ?n) = Inr (mn, mx)"
      "fl_finite F mn" "fl_finite F mx" by auto
  have "num (scaled_tolerance F mn mx) \<and> key (fl_zero F) \<le> key (scaled_tolerance F mn mx)"
    by (rule scaled_tolerance_num [OF laws range(2,3)])
  moreover have "inspect_game F G game = Some (Inr \<lparr>gi_counts = map ?f [0..<?n], gi_tolerance = scaled_tolerance F mn mx\<rparr>)"
    using ok range inspect_counts_Inr [of G game]
    by (simp add: inspect_game_def odometer_loop_product profiles_of_counts)
  ultimately show ?thesis by simp
qed

subsection \<open>The enumeration\<close>

lemma role_best_key:
  assumes laws: "float_laws F num key" and fin: "\<forall>a < counts ! role. fl_finite F (nf_payoff G game role (list_update p role a))"
    and here: "fl_finite F (nf_payoff G game role p)" "p ! role < counts ! role"
  shows "fl_finite F (role_best F G game counts p role)"
    and "key (role_best F G game counts p role) =
      Max ((\<lambda>a. key (nf_payoff G game role (list_update p role a))) ` {0..<counts ! role})"
proof -
  let ?pay = "\<lambda>a. nf_payoff G game role (list_update p role a)"
  show "fl_finite F (role_best F G game counts p role)"
    unfolding role_best_def by (rule fold_max_finite [OF laws here(1)]) (use fin in simp)
  have "key (role_best F G game counts p role) =
      Max (insert (key (nf_payoff G game role p)) ((\<lambda>a. key (?pay a)) ` set [0..<counts ! role]))"
    unfolding role_best_def
    by (rule conjunct2 [OF fold_max_key [OF laws]]) (use fin here float_lawsD(1) [OF laws] in auto)
  moreover have "key (nf_payoff G game role p) \<in> (\<lambda>a. key (?pay a)) ` {0..<counts ! role}"
    using here(2) by (auto intro!: image_eqI [where x = "p ! role"])
  ultimately show "key (role_best F G game counts p role) = Max ((\<lambda>a. key (?pay a)) ` {0..<counts ! role})"
    by (simp add: insert_absorb)
qed

lemma sub_max_key:
  assumes laws: "float_laws F num key" and "fl_finite F best" "fl_finite F c" "finite A" "A \<noteq> {}"
    and "\<forall>a \<in> A. fl_finite F (f a)" "key best = Max ((\<lambda>a. key (f a)) ` A)"
  shows "key (fl_sub F best c) \<le> t \<longleftrightarrow> (\<forall>a \<in> A. key (fl_sub F (f a) c) \<le> t)"
proof
  assume le: "key (fl_sub F best c) \<le> t"
  show "\<forall>a \<in> A. key (fl_sub F (f a) c) \<le> t"
  proof
    fix a assume "a \<in> A"
    then have "key (f a) \<le> key best" using assms(4,7) by simp
    then have "key (fl_sub F (f a) c) \<le> key (fl_sub F best c)"
      using assms(2,3,6) \<open>a \<in> A\<close> by (intro float_lawsD(14) [OF laws]) auto
    then show "key (fl_sub F (f a) c) \<le> t" using le by simp
  qed
next
  assume all: "\<forall>a \<in> A. key (fl_sub F (f a) c) \<le> t"
  have "Max ((\<lambda>a. key (f a)) ` A) \<in> (\<lambda>a. key (f a)) ` A" using assms(4,5) by (intro Max_in) auto
  then obtain a where a: "a \<in> A" "key best = key (f a)" using assms(7) by auto
  then have "key (fl_sub F best c) \<le> key (fl_sub F (f a) c)"
    using assms(2,3,6) by (intro float_lawsD(14) [OF laws]) auto
  then show "key (fl_sub F best c) \<le> t" using all a(1) by (meson order.trans)
qed

text \<open>No role gains more than \<open>tol\<close> by deviating from \<open>p\<close> alone.\<close>

definition no_profitable_deviation ::
    "('f, 'z) solve_ops_scheme \<Rightarrow> ('g, 'f, 'y) finite_game_scheme \<Rightarrow> 'g \<Rightarrow> 'f \<Rightarrow> nat list \<Rightarrow> bool" where
  "no_profitable_deviation F G game tol p \<longleftrightarrow>
     (\<forall>role < sg_n_roles G game. \<forall>a < fg_n_actions G game role.
        fl_le F (fl_sub F (nf_payoff G game role (list_update p role a)) (nf_payoff G game role p)) tol)"

lemma profile_update:
  assumes "p \<in> set (all_profiles f n)" "role < n" "a < f role" "\<forall>role < n. 0 < f role"
  shows "list_update p role a \<in> set (all_profiles f n)" "p ! role < f role" "length p = n"
proof -
  have max: "max 1 (f i) = f i" if "i < n" for i using assms(4) that by (auto simp: max_def)
  then show "p ! role < f role" "length p = n" using assms(1,2) by (auto simp: set_all_profiles)
  have "list_update p role a ! i < max 1 (f i)" if "i < n" for i
    using assms that max by (cases "i = role") (auto simp: set_all_profiles)
  then show "list_update p role a \<in> set (all_profiles f n)"
    using assms(1) by (simp add: set_all_profiles)
qed

lemma regret_within:
  fixes F :: "('f, 'z) solve_ops_scheme" and G :: "('g, 'f, 'y) finite_game_scheme" and game :: 'g
  defines "n \<equiv> sg_n_roles G game" and "f \<equiv> fg_n_actions G game"
  assumes laws: "float_laws F num key" and ok: "accepted_game F G game" and p: "p \<in> set (all_profiles f n)"
    and tol: "num tol"
  shows "fl_le F (profile_regret F G game (map f [0..<n]) p) tol \<longleftrightarrow> no_profitable_deviation F G game tol p"
proof -
  let ?pay = "\<lambda>role a. nf_payoff G game role (list_update p role a)"
  let ?c = "\<lambda>role. nf_payoff G game role p" and ?best = "role_best F G game (map f [0..<n]) p"
  note ok' = ok [unfolded accepted_game_def, folded n_def f_def]
  have fin: "fl_finite F (?c role)" "\<forall>a < f role. fl_finite F (?pay role a)" "p ! role < f role" if "role < n" for role
    using ok' p that profile_update [OF p that] by auto
  have best: "fl_finite F (?best role)" "key (?best role) = Max ((\<lambda>a. key (?pay role a)) ` {0..<f role})"
    if "role < n" for role
    using role_best_key [OF laws, of "map f [0..<n]" role G game p] fin [OF that] that by simp_all
  have gap: "key (fl_sub F (?best role) (?c role)) \<le> key tol \<longleftrightarrow>
      (\<forall>a < f role. key (fl_sub F (?pay role a) (?c role)) \<le> key tol)" if "role < n" for role
  proof -
    have "{0..<f role} \<noteq> {}" using fin(3) [OF that] by simp
    from sub_max_key [OF laws best(1) [OF that] fin(1) [OF that] finite_atLeastLessThan this, of "?pay role" "key tol"]
    show ?thesis using best(2) [OF that] fin(2) [OF that] by (simp add: Ball_def)
  qed
  have nums: "num (fl_zero F)" "\<forall>role \<in> set [0..<n]. num (fl_sub F (?best role) (?c role))"
    using float_lawsD(1,8,15) [OF laws] best(1) fin(1) by simp_all
  let ?R = "profile_regret F G game (map f [0..<n]) p"
  have R: "num ?R" "key ?R = Max (insert (key (fl_zero F)) ((\<lambda>role. key (fl_sub F (?best role) (?c role))) ` set [0..<n]))"
    unfolding profile_regret_def n_def [symmetric] using fold_max_key [OF laws nums] by simp_all
  have "fl_le F ?R tol \<longleftrightarrow> key (fl_zero F) \<le> key tol \<and> (\<forall>role < n. key (fl_sub F (?best role) (?c role)) \<le> key tol)"
    using R tol by (auto simp: fl_le_key [OF laws])
  also have "\<dots> \<longleftrightarrow> key (fl_zero F) \<le> key tol \<and> (\<forall>role < n. \<forall>a < f role. key (fl_sub F (?pay role a) (?c role)) \<le> key tol)"
    using gap by simp
  also have "\<dots> \<longleftrightarrow> (\<forall>role < n. \<forall>a < f role. key (fl_sub F (?pay role a) (?c role)) \<le> key tol)"
  proof -
    have "0 < n" using ok' by simp
    moreover have "?pay 0 (p ! 0) = ?c 0" by simp
    moreover have "key (fl_sub F (?c 0) (?c 0)) = key (fl_zero F)" using fin(1) [OF \<open>0 < n\<close>] float_lawsD(13) [OF laws] by blast
    ultimately show ?thesis using fin(3) [of 0] by metis
  qed
  also have "\<dots> \<longleftrightarrow> no_profitable_deviation F G game tol p"
    unfolding no_profitable_deviation_def n_def [symmetric] f_def [symmetric]
    using fin tol float_lawsD(8) [OF laws] by (simp add: fl_le_key [OF laws])
  finally show ?thesis .
qed

lemma pure_nash_fold:
  "try_fold (pure_nash_visit F G game info) res ps =
   Inr (res @ map (\<lambda>p. \<lparr>pe_profile = p, pe_payoffs = map (\<lambda>role. nf_payoff G game role p) [0..<sg_n_roles G game],
       pe_regret = profile_regret F G game (gi_counts info) p\<rparr>)
     (filter (\<lambda>p. fl_le F (profile_regret F G game (gi_counts info) p) (gi_tolerance info)) ps))"
  by (induction ps arbitrary: res) (simp_all add: pure_nash_visit_def Let_def)

lemma pure_nash_listed:
  assumes "float_laws F num key" "accepted_game F G game" "inspect_game F G game = Some (Inr info)"
  shows "\<exists>equilibria. pure_nash F G game = Some (Inr equilibria) \<and>
    map pe_profile equilibria = filter (no_profitable_deviation F G game (gi_tolerance info))
      (all_profiles (fg_n_actions G game) (sg_n_roles G game)) \<and>
    (\<forall>e \<in> set equilibria. pe_payoffs e = map (\<lambda>role. nf_payoff G game role (pe_profile e)) [0..<sg_n_roles G game])"
proof -
  let ?n = "sg_n_roles G game" and ?f = "fg_n_actions G game"
  have info: "gi_counts info = map ?f [0..<?n]" "num (gi_tolerance info)"
    using inspect_game_accepts [OF assms(1,2)] assms(3) by auto
  have "filter (\<lambda>p. fl_le F (profile_regret F G game (gi_counts info) p) (gi_tolerance info)) (all_profiles ?f ?n) =
      filter (no_profitable_deviation F G game (gi_tolerance info)) (all_profiles ?f ?n)"
    by (rule filter_cong [OF refl]) (simp add: regret_within [OF assms(1,2) _ info(2)] info(1))
  then show ?thesis
    by (auto simp: pure_nash_def assms(3) info(1) odometer_loop_product profiles_of_counts pure_nash_fold comp_def)
qed

text \<open>
  C23: the equilibrium search returns, and what it lists are exactly the profiles, in lexicographic
  order, at which no role gains more than the game's tolerance by deviating alone, each with the
  payoffs it earns there.
\<close>

theorem pure_nash_exact:
  assumes "float_laws F num key" "accepted_game F G game"
  shows "\<exists>tol equilibria. tolerance F G game = Some (Inr tol) \<and> pure_nash F G game = Some (Inr equilibria) \<and>
    map pe_profile equilibria = filter (no_profitable_deviation F G game tol)
      (all_profiles (fg_n_actions G game) (sg_n_roles G game)) \<and>
    (\<forall>e \<in> set equilibria. pe_payoffs e = map (\<lambda>role. nf_payoff G game role (pe_profile e)) [0..<sg_n_roles G game])"
proof -
  obtain info where "inspect_game F G game = Some (Inr info)" using inspect_game_accepts [OF assms] by auto
  then show ?thesis using pure_nash_listed [OF assms] by (simp add: tolerance_def)
qed

definition int_solve :: "int solve_ops" where
  "int_solve = \<lparr>fl_zero = 0, fl_nan = - 2000, fl_add = (+), fl_div = (\<lambda>x y. x div y), fl_of_nat = int,
     fl_finite = (\<lambda>x. - 1000 < x \<and> x < 1000), fl_one = 1, fl_sub = (-), fl_mul = (*), fl_eq = (=), fl_less = (<),
     fl_max = max, fl_neg_inf = - 1000, fl_exp = (\<lambda>x. x),
     fl_sum = sum_list, fl_product = prod_list, fl_abs = abs, fl_dist_tol = 0, fl_inf = 1000, fl_min = min, fl_tiny = 0\<rparr>"

lemma int_solve_laws: "float_laws int_solve (\<lambda>_. True) real_of_int"
  by (simp add: float_laws_def int_solve_def max_def min_def)

definition prisoners :: "(unit, int) finite_game" where
  "prisoners =
     \<lparr>sg_n_roles = (\<lambda>_. 2), sg_check_action = (\<lambda>_ role a. if a < 2 then Inr () else Inl (InvalidAction role a)),
      nf_payoff = (\<lambda>_ role p. let own = p ! role; other = p ! (1 - role)
        in if own = 0 then (if other = 0 then 3 else 0) else if other = 0 then 5 else 1),
      nf_payoffs_into = (\<lambda>_ _ out. out),
      fg_n_actions = (\<lambda>_ _. 2), fg_action_label = (\<lambda>_ _ _. []), fg_is_symmetric = (\<lambda>_. True)\<rparr>"

lemma prisoners_sizes: "sg_n_roles prisoners () = 2" "fg_n_actions prisoners () = (\<lambda>_. 2)"
  by (simp_all add: prisoners_def)

lemma prisoners_profiles: "all_profiles (\<lambda>_. 2) 2 = [[0, 0], [0, 1], [1, 0], [1, 1]]"
  by code_simp

lemma prisoners_accepted: "accepted_game int_solve prisoners ()"
  by (auto simp: accepted_game_def prisoners_sizes prisoners_profiles prisoners_def int_solve_def Let_def
      max_profiles_def numeral_2_eq_2)

lemma prisoners_counts: "inspect_counts prisoners () = Inr ([2, 2], 4)"
proof -
  have two: "[0..<2] = [0, Suc 0]" by (simp add: numeral_2_eq_2)
  show ?thesis using inspect_counts_Inr [of prisoners "()"] by (simp add: prisoners_sizes two)
qed

lemma prisoners_tolerance: "tolerance int_solve prisoners () = Some (Inr 0)"
proof -
  have profiles: "all_profiles ((!) [2, 2]) 2 = [[0, 0], [0, 1], [1, 0], [1, 1]]" by code_simp
  have two: "[0..<2] = [0, Suc 0]" by (simp add: numeral_2_eq_2)
  have "payoff_range int_solve prisoners () (mn, mx) p = Inr (min (min mn (nf_payoff prisoners () 0 p)) (nf_payoff prisoners () 1 p),
      max (max mx (nf_payoff prisoners () 0 p)) (nf_payoff prisoners () 1 p))" for mn mx p
    by (simp add: payoff_range_def prisoners_sizes two) (simp add: prisoners_def int_solve_def Let_def)
  then have "try_fold (payoff_range int_solve prisoners ()) (1000, - 1000) [[0, 0], [0, 1], [1, 0], [1, 1]] = Inr (0, 5)"
    by (simp add: prisoners_def Let_def)
  then show ?thesis
    by (simp add: tolerance_def inspect_game_def prisoners_counts prisoners_sizes max_profiles_def odometer_loop_product profiles)
      (simp add: int_solve_def scaled_tolerance_def)
qed

theorem pure_nash_exact_witness:
  "\<exists>equilibria. pure_nash int_solve prisoners () = Some (Inr equilibria) \<and> map pe_profile equilibria = [[1, 1]]"
proof -
  have "filter (no_profitable_deviation int_solve prisoners () 0) [[0, 0], [0, 1], [1, 0], [1, 1]] = [[1, 1]]"
    by (simp add: no_profitable_deviation_def prisoners_sizes All_less_Suc numeral_2_eq_2)
      (simp add: prisoners_def int_solve_def fl_le_def)
  then show ?thesis
    using pure_nash_exact [OF int_solve_laws prisoners_accepted] by (auto simp only: prisoners_tolerance prisoners_sizes prisoners_profiles option.inject sum.inject)
qed

end
