(* ===== verification/Dominance.thy ===== *)
theory Dominance
  imports Nash
begin

section \<open>Iterated strict dominance ends at a fixed point that keeps every equilibrium\<close>

text \<open>
  \<open>beats q\<close> is the comparison \<open>strictly_dominates\<close> makes at one profile; the routine answers whether it
  holds at every choice of surviving actions of the other roles.
\<close>

abbreviation opponents_survive :: "nat \<Rightarrow> nat list list \<Rightarrow> nat \<Rightarrow> nat list \<Rightarrow> bool" where
  "opponents_survive n surviving role q \<equiv> length q = n \<and> (\<forall>i < n. i \<noteq> role \<longrightarrow> q ! i \<in> set (surviving ! i))"

definition beats ::
    "('f, 'z) solve_ops_scheme \<Rightarrow> ('g, 'f, 'y) finite_game_scheme \<Rightarrow> 'g \<Rightarrow> 'f \<Rightarrow> nat \<Rightarrow> nat list \<Rightarrow> nat \<Rightarrow> nat \<Rightarrow> bool" where
  "beats F G game tol role q better worse \<longleftrightarrow>
     \<not> fl_le F (fl_sub F (nf_payoff G game role (list_update q role better)) (nf_payoff G game role (list_update q role worse))) tol"

lemma within_not_beats:
  "fl_le F (fl_sub F (nf_payoff G game role (list_update q role better)) (nf_payoff G game role (list_update q role worse))) tol \<longleftrightarrow>
     \<not> beats F G game tol role q better worse"
  by (simp add: beats_def)

lemma fold_update_nth:
  assumes "distinct (map snd ps)" "i < length xs"
  shows "fold (\<lambda>(pos, opp) xs. list_update xs opp (g pos opp)) ps xs ! i =
    (case map_of (map (\<lambda>(pos, opp). (opp, pos)) ps) i of Some pos \<Rightarrow> g pos i | None \<Rightarrow> xs ! i)"
  using assms
proof (induction ps arbitrary: xs)
  case (Cons a ps)
  obtain pos opp where a: "a = (pos, opp)" by (cases a)
  have "map_of (map (\<lambda>(pos, opp). (opp, pos)) ps) opp = None"
    using Cons.prems(1) by (force simp: a map_of_eq_None_iff)
  then show ?case using Cons by (cases "i = opp") (auto simp: a split: option.split)
qed simp

lemma length_fold_assign: "length (fold (\<lambda>(pos, opp) xs. list_update xs opp (g pos opp)) ps xs) = length xs"
  by (induction ps arbitrary: xs) auto

lemma opponent_profile_nth:
  assumes "distinct opponents" "set opponents \<subseteq> {..<n}" "i < n"
  shows "opponent_profile n surviving opponents indices ! i =
    (if i \<in> set opponents then surviving ! i ! (indices ! (THE pos. pos < length opponents \<and> opponents ! pos = i)) else 0)"
proof -
  let ?ps = "List.enumerate 0 opponents"
  have "map_of (map (\<lambda>(pos, opp). (opp, pos)) ?ps) i =
      (if i \<in> set opponents then Some (THE pos. pos < length opponents \<and> opponents ! pos = i) else None)"
  proof (cases "i \<in> set opponents")
    case True
    then obtain pos where pos: "pos < length opponents" "opponents ! pos = i" by (auto simp: in_set_conv_nth)
    have the: "(THE pos. pos < length opponents \<and> opponents ! pos = i) = pos"
      using pos assms(1) by (intro the_equality) (auto simp: nth_eq_iff_index_eq)
    have "distinct (map fst (map (\<lambda>(pos, opp). (opp, pos)) ?ps))"
      using assms(1) by (simp add: comp_def case_prod_beta enumerate_eq_zip)
    moreover have "(i, pos) \<in> set (map (\<lambda>(pos, opp). (opp, pos)) ?ps)"
      using pos by (force simp: in_set_enumerate_eq)
    ultimately show ?thesis using True the by (simp add: map_of_eq_Some_iff)
  next
    case False
    then show ?thesis by (auto simp: map_of_eq_None_iff in_set_enumerate_eq)
  qed
  moreover have "map snd ?ps = opponents" by (simp add: enumerate_eq_zip)
  ultimately show ?thesis
    unfolding opponent_profile_def by (subst fold_update_nth) (simp_all add: assms)
qed

lemma strictly_dominates_beats:
  fixes G :: "('g, 'f, 'y) finite_game_scheme" and game :: 'g
  defines "n \<equiv> sg_n_roles G game"
  assumes "length surviving = n" "\<forall>i < n. surviving ! i \<noteq> []"
  shows "strictly_dominates F G game role better worse surviving tol =
    Some (\<forall>q. opponents_survive n surviving role q \<longrightarrow> beats F G game tol role q better worse)"
proof -
  let ?opps = "filter (\<lambda>candidate. candidate \<noteq> role) [0..<n]"
  let ?prof = "opponent_profile n surviving ?opps"
  let ?f = "\<lambda>pos. length (surviving ! (?opps ! pos))"
  have the: "(THE pos. pos < length ?opps \<and> ?opps ! pos = i) < length ?opps \<and>
      ?opps ! (THE pos. pos < length ?opps \<and> ?opps ! pos = i) = i" if "i < n" "i \<noteq> role" for i
  proof (rule theI')
    have "i \<in> set ?opps" using that by simp
    then obtain pos where "pos < length ?opps" "?opps ! pos = i" by (auto simp only: in_set_conv_nth)
    then show "\<exists>!pos. pos < length ?opps \<and> ?opps ! pos = i"
      by (metis distinct_filter distinct_upt nth_eq_iff_index_eq)
  qed
  have nth: "?prof idx ! i = surviving ! i ! (idx ! (THE pos. pos < length ?opps \<and> ?opps ! pos = i))"
    if "i < n" "i \<noteq> role" for i idx
    using that by (subst opponent_profile_nth) auto
  have len: "length (?prof idx) = n" for idx by (simp add: opponent_profile_def length_fold_assign)
  have f_pos: "0 < ?f pos" if "pos < length ?opps" for pos
    using assms(3) that nth_mem [OF that] by auto
  have "(\<exists>idx \<in> set (all_profiles ?f (length ?opps)). \<not> beats F G game tol role (?prof idx) better worse) \<longleftrightarrow>
      (\<exists>q. opponents_survive n surviving role q \<and> \<not> beats F G game tol role q better worse)"
  proof
    assume "\<exists>idx \<in> set (all_profiles ?f (length ?opps)). \<not> beats F G game tol role (?prof idx) better worse"
    then obtain idx where idx: "idx \<in> set (all_profiles ?f (length ?opps))" "\<not> beats F G game tol role (?prof idx) better worse" by blast
    have "?prof idx ! i \<in> set (surviving ! i)" if "i < n" "i \<noteq> role" for i
    proof -
      define pos where "pos = (THE pos. pos < length ?opps \<and> ?opps ! pos = i)"
      have pos: "pos < length ?opps" "?opps ! pos = i" using the [OF that] by (simp_all add: pos_def)
      then have "idx ! pos < max 1 (?f pos)" using idx(1) unfolding set_all_profiles by blast
      moreover have "max 1 (?f pos) = ?f pos" using f_pos [OF pos(1)] by (intro max_absorb2) linarith
      ultimately have "idx ! pos < length (surviving ! i)" by (simp only: pos(2))
      then show ?thesis by (simp add: nth [OF that] pos_def [symmetric])
    qed
    then show "\<exists>q. opponents_survive n surviving role q \<and> \<not> beats F G game tol role q better worse"
      using idx(2) len by (intro exI [of _ "?prof idx"]) simp
  next
    assume "\<exists>q. opponents_survive n surviving role q \<and> \<not> beats F G game tol role q better worse"
    then obtain q where q: "opponents_survive n surviving role q" "\<not> beats F G game tol role q better worse" by blast
    define pick where "pick i = (SOME k. k < length (surviving ! i) \<and> surviving ! i ! k = q ! i)" for i
    have at: "pick i < length (surviving ! i) \<and> surviving ! i ! pick i = q ! i" if "i < n" "i \<noteq> role" for i
      unfolding pick_def by (rule someI_ex) (use q(1) that in \<open>auto simp: in_set_conv_nth\<close>)
    let ?idx = "map pick ?opps"
    have mem: "?opps ! pos < n \<and> ?opps ! pos \<noteq> role" if "pos < length ?opps" for pos
      using nth_mem [OF that] by simp
    have "?idx \<in> set (all_profiles ?f (length ?opps))"
      using at mem by (fastforce simp: set_all_profiles less_max_iff_disj)
    moreover have "list_update (?prof ?idx) role x = list_update q role x" for x
    proof (rule nth_equalityI)
      fix i assume "i < length (list_update (?prof ?idx) role x)"
      then have "i < n" by (simp add: len)
      show "list_update (?prof ?idx) role x ! i = list_update q role x ! i"
      proof (cases "i = role")
        case False
        then show ?thesis using the [OF \<open>i < n\<close> False] at [OF \<open>i < n\<close> False] nth [OF \<open>i < n\<close> False] by simp
      qed (use \<open>i < n\<close> q(1) len in simp)
    qed (use q(1) len in simp)
    ultimately show "\<exists>idx \<in> set (all_profiles ?f (length ?opps)). \<not> beats F G game tol role (?prof idx) better worse"
      using q(2) by (intro bexI [of _ ?idx]) (simp_all add: beats_def)
  qed
  then have "(find (\<lambda>idx. \<not> beats F G game tol role (?prof idx) better worse) (all_profiles ?f (length ?opps)) = None) \<longleftrightarrow>
      (\<forall>q. opponents_survive n surviving role q \<longrightarrow> beats F G game tol role q better worse)"
    by (auto simp: find_None_iff)
  moreover have "try_fold (\<lambda>_ idx. if \<not> beats F G game tol role (?prof idx) better worse then Inl () else Inr ()) () ps =
      (if find (\<lambda>idx. \<not> beats F G game tol role (?prof idx) better worse) ps = None then Inr () else Inl ())" for ps
    by (induction ps) auto
  ultimately show ?thesis
    by (simp add: strictly_dominates_def odometer_loop_product Let_def n_def [symmetric] within_not_beats)
qed

subsection \<open>The loop\<close>

lemma nth_retain_actions:
  "i < length surviving \<Longrightarrow> retain_actions remove surviving ! i = filter (\<lambda>a. (i, a) \<notin> set remove) (surviving ! i)"
proof (induction remove arbitrary: surviving)
  case (Cons r remove)
  obtain role action where r: "r = (role, action)" by (cases r)
  have "filter (\<lambda>a. (i, a) \<notin> set remove) (filter (\<lambda>candidate. candidate \<noteq> action) xs) =
      filter (\<lambda>a. (i, a) \<noteq> (i, action) \<and> (i, a) \<notin> set remove) xs" for xs
    by (simp add: filter_filter)
  then show ?case using Cons by (cases "i = role") (auto simp: r retain_actions_def)
qed (simp add: retain_actions_def)

lemma length_retain_actions: "length (retain_actions remove surviving) = length surviving"
  unfolding retain_actions_def by (induction remove arbitrary: surviving) auto

lemma set_dominance_round:
  "(role, a) \<in> set (dominance_round F G game tol surviving) \<longleftrightarrow>
     role < sg_n_roles G game \<and> a \<in> set (surviving ! role) \<and> dominated F G game tol surviving role a"
  by (auto simp: dominance_round_def)

definition survivors_ok :: "('g, 'f, 'y) finite_game_scheme \<Rightarrow> 'g \<Rightarrow> nat list list \<Rightarrow> bool" where
  "survivors_ok G game surviving \<longleftrightarrow> length surviving = sg_n_roles G game \<and>
     (\<forall>i < sg_n_roles G game. surviving ! i \<noteq> [] \<and> sorted_wrt (<) (surviving ! i) \<and>
        set (surviving ! i) \<subseteq> {..<fg_n_actions G game i})"

lemma dominated_iff:
  assumes "survivors_ok G game surviving"
  shows "dominated F G game tol surviving role a \<longleftrightarrow>
    (\<exists>b \<in> set (surviving ! role). b \<noteq> a \<and>
      (\<forall>q. opponents_survive (sg_n_roles G game) surviving role q \<longrightarrow> beats F G game tol role q b a))"
  using assms by (auto simp: dominated_def survivors_ok_def strictly_dominates_beats list_ex_iff)

lemma best_survivor_undominated:
  fixes surviving :: "nat list list"
  assumes laws: "float_laws F num key" and ok: "accepted_game F G game" and surv: "survivors_ok G game surviving"
    and tol: "num tol" "key (fl_zero F) \<le> key tol" and role: "role < sg_n_roles G game"
  shows "\<exists>a \<in> set (surviving ! role). \<not> dominated F G game tol surviving role a"
proof -
  let ?n = "sg_n_roles G game" and ?q = "map hd surviving"
  let ?pay = "\<lambda>a. nf_payoff G game role (list_update ?q role a)"
  note surv' = surv [unfolded survivors_ok_def]
  have q: "opponents_survive ?n surviving role ?q" using surv' by simp
  have "?q ! i < fg_n_actions G game i" if "i < ?n" for i
  proof -
    have "?q ! i \<in> set (surviving ! i)" using surv' that by simp
    then show ?thesis using surv' that by blast
  qed
  then have "list_update ?q role a \<in> set (all_profiles (fg_n_actions G game) ?n)" if "a \<in> set (surviving ! role)" for a
    using that surv' role by (auto simp: set_all_profiles nth_list_update less_max_iff_disj subset_iff)
  then have fin: "fl_finite F (?pay a)" if "a \<in> set (surviving ! role)" for a
    using ok that role by (simp add: accepted_game_def)
  obtain a where a: "a \<in> set (surviving ! role)" "\<forall>b \<in> set (surviving ! role). key (?pay b) \<le> key (?pay a)"
  proof -
    have "Max ((\<lambda>a. key (?pay a)) ` set (surviving ! role)) \<in> (\<lambda>a. key (?pay a)) ` set (surviving ! role)"
      using surv' role by (intro Max_in) auto
    then obtain a where "a \<in> set (surviving ! role)" "Max ((\<lambda>a. key (?pay a)) ` set (surviving ! role)) = key (?pay a)" by auto
    moreover have "key (?pay b) \<le> Max ((\<lambda>a. key (?pay a)) ` set (surviving ! role))" if "b \<in> set (surviving ! role)" for b
      using that by simp
    ultimately show ?thesis using that by metis
  qed
  have "\<not> beats F G game tol role ?q b a" if "b \<in> set (surviving ! role)" for b
  proof -
    have "key (fl_sub F (?pay b) (?pay a)) \<le> key (fl_sub F (?pay a) (?pay a))"
      using a fin that by (intro float_lawsD(14) [OF laws]) auto
    also have "\<dots> \<le> key tol" using float_lawsD(13) [OF laws fin [OF a(1)]] tol(2) by simp
    finally show ?thesis
      using tol(1) float_lawsD(8) [OF laws fin [OF that] fin [OF a(1)]] by (simp add: beats_def fl_le_key [OF laws])
  qed
  then show ?thesis using a(1) q dominated_iff [OF surv] by blast
qed

lemma survivors_ok_retain:
  assumes "float_laws F num key" "accepted_game F G game" "survivors_ok G game surviving" "num tol" "key (fl_zero F) \<le> key tol"
  shows "survivors_ok G game (retain_actions (dominance_round F G game tol surviving) surviving)"
proof -
  let ?new = "retain_actions (dominance_round F G game tol surviving) surviving"
  note surv' = assms(3) [unfolded survivors_ok_def]
  have nth: "?new ! i = filter (\<lambda>a. (i, a) \<notin> set (dominance_round F G game tol surviving)) (surviving ! i)"
    if "i < sg_n_roles G game" for i using nth_retain_actions surv' that by metis
  have "?new ! i \<noteq> []" if "i < sg_n_roles G game" for i
    using best_survivor_undominated [OF assms that] by (auto simp: nth [OF that] filter_empty_conv set_dominance_round)
  then show ?thesis
    using surv' nth by (auto simp: survivors_ok_def length_retain_actions sorted_wrt_filter)
qed

lemma retain_shrinks:
  assumes "length surviving = sg_n_roles G game" "dominance_round F G game tol surviving \<noteq> []"
  shows "sum_list (map length (retain_actions (dominance_round F G game tol surviving) surviving)) < sum_list (map length surviving)"
proof -
  let ?rm = "dominance_round F G game tol surviving" and ?n = "sg_n_roles G game"
  let ?new = "retain_actions ?rm surviving"
  obtain role a where "(role, a) \<in> set ?rm" using assms(2) by (cases ?rm) auto
  then have role: "role < ?n" "a \<in> set (surviving ! role)" "(role, a) \<in> set ?rm" by (simp_all add: set_dominance_round)
  have nth: "?new ! i = filter (\<lambda>a. (i, a) \<notin> set ?rm) (surviving ! i)" if "i < ?n" for i
    using nth_retain_actions assms(1) that by metis
  have "(\<Sum>i = 0..<?n. length (?new ! i)) < (\<Sum>i = 0..<?n. length (surviving ! i))"
  proof (rule sum_strict_mono_ex1)
    show "\<exists>i \<in> {0..<?n}. length (?new ! i) < length (surviving ! i)"
      using role by (intro bexI [of _ role]) (auto simp: nth intro!: length_filter_less)
  qed (auto simp: nth)
  then show ?thesis
    by (simp add: sum_list_sum_nth assms(1) length_retain_actions)
qed

text \<open>What a run of the loop from \<open>surviving\<close> hands back, with \<open>new\<close> the eliminations it adds.\<close>

definition eliminates_to ::
    "('f, 'z) solve_ops_scheme \<Rightarrow> ('g, 'f, 'y) finite_game_scheme \<Rightarrow> 'g \<Rightarrow> 'f \<Rightarrow> nat list list \<Rightarrow> nat list list \<Rightarrow> elimination list \<Rightarrow> bool" where
  "eliminates_to F G game tol surviving final new \<longleftrightarrow>
     survivors_ok G game final \<and> dominance_round F G game tol final = [] \<and>
     (\<forall>role < sg_n_roles G game. set (final ! role) \<subseteq> set (surviving ! role)) \<and>
     (\<forall>e \<in> set new. el_role e < sg_n_roles G game) \<and>
     (\<forall>role < sg_n_roles G game. {el_action e | e. e \<in> set new \<and> el_role e = role} = set (surviving ! role) - set (final ! role)) \<and>
     (\<forall>p. length p = sg_n_roles G game \<longrightarrow> no_profitable_deviation F G game tol p \<longrightarrow>
        (\<forall>role < sg_n_roles G game. p ! role \<in> set (surviving ! role)) \<longrightarrow>
        (\<forall>role < sg_n_roles G game. p ! role \<in> set (final ! role)))"

lemma equilibrium_not_dominated:
  assumes "survivors_ok G game surviving" "length p = sg_n_roles G game" "no_profitable_deviation F G game tol p"
    and "\<forall>role < sg_n_roles G game. p ! role \<in> set (surviving ! role)" "role < sg_n_roles G game"
  shows "\<not> dominated F G game tol surviving role (p ! role)"
proof
  assume "dominated F G game tol surviving role (p ! role)"
  then obtain b where "b \<in> set (surviving ! role)" "beats F G game tol role p b (p ! role)"
    using assms(2,4) dominated_iff [OF assms(1)] by blast
  moreover have "b < fg_n_actions G game role"
    using \<open>b \<in> set (surviving ! role)\<close> assms(1,5) by (auto simp: survivors_ok_def)
  ultimately show False using assms(3,5) by (simp add: beats_def no_profitable_deviation_def)
qed

lemma dominance_loop_ends:
  assumes "float_laws F num key" "accepted_game F G game" "num tol" "key (fl_zero F) \<le> key tol" "survivors_ok G game surviving"
  shows "\<exists>final new. dominance_loop F G game tol rnd surviving eliminated = Some (final, eliminated @ new) \<and>
    eliminates_to F G game tol surviving final new"
  using assms(5)
proof (induction "sum_list (map length surviving)" arbitrary: surviving rnd eliminated rule: less_induct)
  case less
  let ?rm = "dominance_round F G game tol surviving" and ?n = "sg_n_roles G game"
  show ?case
  proof (cases "?rm = []")
    case True
    then show ?thesis using less.prems by (subst dominance_loop.simps) (simp add: eliminates_to_def)
  next
    case False
    let ?next = "retain_actions ?rm surviving"
    let ?gone = "map (\<lambda>(role, action). \<lparr>el_round = rnd, el_role = role, el_action = action\<rparr>) ?rm"
    have len: "length surviving = ?n" using less.prems by (simp add: survivors_ok_def)
    have ok: "survivors_ok G game ?next" by (rule survivors_ok_retain [OF assms(1,2) less.prems assms(3,4)])
    obtain final new where res:
        "dominance_loop F G game tol (rnd + 1) ?next (eliminated @ ?gone) = Some (final, (eliminated @ ?gone) @ new)"
      and to: "eliminates_to F G game tol ?next final new"
      using less.hyps [OF retain_shrinks [OF len False] ok] by blast
    note to' = to [unfolded eliminates_to_def]
    have nth: "set (?next ! i) = set (surviving ! i) - {a. (i, a) \<in> set ?rm}" if "i < ?n" for i
      using nth_retain_actions [of i surviving ?rm] that len by auto
    have gone: "{el_action e | e. e \<in> set ?gone \<and> el_role e = role} = {a. (role, a) \<in> set ?rm}" for role
      by force
    have keep: "\<forall>role < ?n. p ! role \<in> set (?next ! role)"
      if "length p = ?n" "no_profitable_deviation F G game tol p" "\<forall>role < ?n. p ! role \<in> set (surviving ! role)" for p
      using equilibrium_not_dominated [OF less.prems that] that(3) nth by (auto simp: set_dominance_round)
    have split: "{el_action e | e. e \<in> set (?gone @ new) \<and> el_role e = role} =
        {el_action e | e. e \<in> set ?gone \<and> el_role e = role} \<union> {el_action e | e. e \<in> set new \<and> el_role e = role}" for role
      by auto
    have "eliminates_to F G game tol surviving final (?gone @ new)"
      unfolding eliminates_to_def
    proof (intro conjI allI impI ballI)
      fix role assume role: "role < ?n"
      have sub: "set (final ! role) \<subseteq> set (?next ! role)" using to' role by simp
      then show "set (final ! role) \<subseteq> set (surviving ! role)" using nth [OF role] by blast
      have rest: "{el_action e | e. e \<in> set new \<and> el_role e = role} = set (?next ! role) - set (final ! role)" using to' role by simp
      have "{a. (role, a) \<in> set ?rm} \<subseteq> set (surviving ! role)" by (auto simp: set_dominance_round)
      then show "{el_action e | e. e \<in> set (?gone @ new) \<and> el_role e = role} = set (surviving ! role) - set (final ! role)"
        unfolding split gone rest using sub nth [OF role] by auto
    next
      fix e assume "e \<in> set (?gone @ new)"
      then show "el_role e < ?n" using to' by (auto simp: set_dominance_round)
    next
      fix p role assume p: "length p = ?n" "no_profitable_deviation F G game tol p"
        "\<forall>role < ?n. p ! role \<in> set (surviving ! role)" "role < ?n"
      have "\<forall>role < ?n. p ! role \<in> set (final ! role)"
        using to' keep [OF p(1-3)] p(1,2) by (elim conjE) (erule allE [of _ p], simp)
      then show "p ! role \<in> set (final ! role)" using p(4) by simp
    qed (use to' in simp_all)
    then show ?thesis using res False by (subst dominance_loop.simps) (simp add: Let_def)
  qed
qed

text \<open>
  C24: the elimination always comes to an end: at its end every role keeps at least one action, no
  surviving action is strictly dominated within the survivors, every action either survives or is
  recorded as eliminated and never both, and every action an equilibrium of \<open>pure_nash\<close> plays survives.
\<close>

theorem iterated_dominance_sound:
  assumes "float_laws F num key" "accepted_game F G game"
  shows "\<exists>tol equilibria surviving eliminated.
    tolerance F G game = Some (Inr tol) \<and> pure_nash F G game = Some (Inr equilibria) \<and>
    iterated_strict_dominance F G game = Some (Inr (surviving, eliminated)) \<and>
    dominance_round F G game tol surviving = [] \<and>
    (\<forall>role < sg_n_roles G game. surviving ! role \<noteq> [] \<and>
       {el_action e | e. e \<in> set eliminated \<and> el_role e = role} = {..<fg_n_actions G game role} - set (surviving ! role) \<and>
       set (surviving ! role) \<subseteq> {..<fg_n_actions G game role} \<and>
       (\<forall>e \<in> set equilibria. pe_profile e ! role \<in> set (surviving ! role)))"
proof -
  let ?n = "sg_n_roles G game" and ?f = "fg_n_actions G game"
  let ?all = "map (\<lambda>count. [0..<count]) (map ?f [0..<?n])"
  obtain info where info: "inspect_game F G game = Some (Inr info)" "gi_counts info = map ?f [0..<?n]"
      "num (gi_tolerance info)" "key (fl_zero F) \<le> key (gi_tolerance info)"
    using inspect_game_accepts [OF assms] by auto
  have start: "survivors_ok G game ?all"
    using assms(2) by (simp add: survivors_ok_def accepted_game_def atLeast0LessThan)
  obtain final new where loop: "dominance_loop F G game (gi_tolerance info) 1 ?all [] = Some (final, new)"
      and to: "eliminates_to F G game (gi_tolerance info) ?all final new"
    using dominance_loop_ends [OF assms info(3,4) start, of 1 "[]"] by auto
  note to' = to [unfolded eliminates_to_def] and final = conjunct1 [OF to [unfolded eliminates_to_def], unfolded survivors_ok_def]
  obtain equilibria where eq: "pure_nash F G game = Some (Inr equilibria)"
      and map_eq: "map pe_profile equilibria = filter (no_profitable_deviation F G game (gi_tolerance info)) (all_profiles ?f ?n)"
    using pure_nash_listed [OF assms info(1)] by blast
  have kept: "pe_profile e ! role \<in> set (final ! role)" if "e \<in> set equilibria" "role < ?n" for e role
  proof -
    have "pe_profile e \<in> set (map pe_profile equilibria)" using that(1) by simp
    then have p: "no_profitable_deviation F G game (gi_tolerance info) (pe_profile e)" "pe_profile e \<in> set (all_profiles ?f ?n)"
      unfolding map_eq by simp_all
    have pos: "\<forall>role < ?n. 0 < ?f role" using assms(2) by (simp add: accepted_game_def)
    have "\<forall>role < ?n. pe_profile e ! role \<in> set (?all ! role)" "length (pe_profile e) = ?n"
      using profile_update(2,3) [OF p(2) _ _ pos, of _ 0] pos p(2) by (simp_all add: set_all_profiles)
    then show ?thesis using to' p(1) that(2) by (elim conjE) (erule allE [of _ "pe_profile e"], simp)
  qed
  have parts: "{el_action e | e. e \<in> set new \<and> el_role e = role} = {..<?f role} - set (final ! role)" if "role < ?n" for role
    using to' that by (simp add: atLeast0LessThan)
  show ?thesis
    using to' final loop eq kept parts info by (simp add: tolerance_def iterated_strict_dominance_def comp_def)
qed

theorem iterated_dominance_sound_witness:
  "\<exists>surviving eliminated. iterated_strict_dominance int_solve prisoners () = Some (Inr (surviving, eliminated)) \<and>
     dominance_round int_solve prisoners () 0 surviving = [] \<and> surviving ! 0 \<noteq> [] \<and> surviving ! 1 \<noteq> []"
  using iterated_dominance_sound [OF int_solve_laws prisoners_accepted]
  by (auto simp: prisoners_tolerance prisoners_sizes)

end
