(* ===== verification/Anonymous.thy ===== *)
theory Anonymous
  imports Dominance
begin

section \<open>Count equilibria of anonymous games (crates/socsim-games/src/solve/anonymous.rs)\<close>

text \<open>
  \<open>pure_nash_counts\<close> walks through the count profiles of an anonymous game with
  \<open>advance_composition\<close>. The size guard \<open>composition_count\<close> is a binomial coefficient in \<open>u128\<close>; the walk
  visits every count vector once, in lexicographic order.
\<close>

record count_profile =
  cp_counts :: "nat list"

definition first_composition :: "nat \<Rightarrow> nat \<Rightarrow> nat list" where
  "first_composition tot parts = list_update (replicate parts 0) (parts - 1) tot"

definition advance_composition :: "nat list \<Rightarrow> nat list option" where
  "advance_composition counts =
     (case find (\<lambda>index. counts ! index > 0) (rev [1..<length counts]) of
        None \<Rightarrow> None
      | Some index \<Rightarrow>
          let amount = counts ! index;
              counts = list_update counts index 0;
              counts = list_update counts (index - 1) (counts ! (index - 1) + 1);
              last = length counts - 1
          in Some (list_update counts last (counts ! last + (amount - 1))))"

definition count_step :: "nat \<Rightarrow> nat \<Rightarrow> nat option \<Rightarrow> nat option" where
  "count_step low i acc = Option.bind acc (\<lambda>result.
     let product = result * (low + i) in if product < 2 ^ 128 then Some (product div i) else None)"

definition composition_count :: "nat \<Rightarrow> nat \<Rightarrow> nat" where
  "composition_count tot parts =
     (let least = min (parts - 1) tot; top = tot + parts - 1
      in case fold (count_step (top - least)) [1..<least + 1] (Some 1) of
           None \<Rightarrow> 2 ^ 128 - 1 | Some result \<Rightarrow> result)"

partial_function (option) composition_loop ::
    "('s \<Rightarrow> nat list \<Rightarrow> 'e + 's) \<Rightarrow> nat list \<Rightarrow> 's \<Rightarrow> ('e + 's) option" where
  "composition_loop body counts s =
     (case body s counts of
        Inl e \<Rightarrow> Some (Inl e)
      | Inr s' \<Rightarrow> (case advance_composition counts of
                     None \<Rightarrow> Some (Inr s') | Some counts' \<Rightarrow> composition_loop body counts' s'))"

definition anonymous_range ::
    "('f, 'z) solve_ops_scheme \<Rightarrow> ('g, 'f, 'y) anonymous_game_scheme \<Rightarrow> 'g \<Rightarrow> nat \<Rightarrow> 'f \<times> 'f \<Rightarrow> nat list \<Rightarrow> 'f solve_error + 'f \<times> 'f" where
  "anonymous_range F G game n_actions acc counts_others =
     try_fold (\<lambda>(minimum, maximum) action.
         let payoff = ag_payoff_by_counts G game action counts_others
         in if \<not> fl_finite F payoff then Inl NonFinitePayoff
            else Inr (fl_min F minimum payoff, fl_max F maximum payoff))
       acc [0..<n_actions]"

definition anonymous_tolerance ::
    "('f, 'z) solve_ops_scheme \<Rightarrow> ('g, 'f, 'y) anonymous_game_scheme \<Rightarrow> 'g \<Rightarrow> nat \<Rightarrow> nat \<Rightarrow> ('f solve_error + 'f) option" where
  "anonymous_tolerance F G game n_players n_actions =
     map_option (\<lambda>res. try_bind res (\<lambda>(minimum, maximum). Inr (scaled_tolerance F minimum maximum)))
       (composition_loop (anonymous_range F G game n_actions) (first_composition (n_players - 1) n_actions)
         (fl_inf F, fl_neg_inf F))"

text \<open>\<open>return Ok(false)\<close> leaves both loops.\<close>

primrec nash_deviations ::
    "('f, 'z) solve_ops_scheme \<Rightarrow> ('g, 'f, 'y) anonymous_game_scheme \<Rightarrow> 'g \<Rightarrow> 'f \<Rightarrow> 'f \<Rightarrow> nat list \<Rightarrow> nat list \<Rightarrow> 'f solve_error + bool" where
  "nash_deviations F G game tol incumbent counts_others [] = Inr True"
| "nash_deviations F G game tol incumbent counts_others (deviation # deviations) =
     (let deviating = ag_payoff_by_counts G game deviation counts_others
      in if \<not> fl_finite F deviating then Inl NonFinitePayoff
         else if fl_less F incumbent (fl_sub F deviating tol) then Inr False
         else nash_deviations F G game tol incumbent counts_others deviations)"

primrec nash_actions ::
    "('f, 'z) solve_ops_scheme \<Rightarrow> ('g, 'f, 'y) anonymous_game_scheme \<Rightarrow> 'g \<Rightarrow> 'f \<Rightarrow> nat list \<Rightarrow> nat list \<Rightarrow> 'f solve_error + bool" where
  "nash_actions F G game tol counts [] = Inr True"
| "nash_actions F G game tol counts (action # actions) =
     (if counts ! action = 0 then nash_actions F G game tol counts actions
      else let counts_others = list_update counts action (counts ! action - 1);
               incumbent = ag_payoff_by_counts G game action counts_others
           in if \<not> fl_finite F incumbent then Inl NonFinitePayoff
              else try_bind (nash_deviations F G game tol incumbent counts_others [0..<length counts])
                (\<lambda>nash. if nash then nash_actions F G game tol counts actions else Inr False))"

definition is_nash ::
    "('f, 'z) solve_ops_scheme \<Rightarrow> ('g, 'f, 'y) anonymous_game_scheme \<Rightarrow> 'g \<Rightarrow> nat list \<Rightarrow> 'f \<Rightarrow> 'f solve_error + bool" where
  "is_nash F G game counts tol = nash_actions F G game tol counts [0..<length counts]"

definition check_anonymous_roles :: "('g, 'f, 'y) anonymous_game_scheme \<Rightarrow> 'g \<Rightarrow> nat \<Rightarrow> nat \<Rightarrow> 'f solve_error + unit" where
  "check_anonymous_roles G game n_players n_actions =
     try_fold (\<lambda>_ role.
         let role_actions = fg_n_actions G game role
         in if role_actions = 0 then Inl (EmptyActions role)
            else if role_actions \<noteq> n_actions then
              Inl (InvalidOptions ''anonymous games require the same action count for every role'')
            else Inr ())
       () [1..<n_players]"

definition count_visit ::
    "('f, 'z) solve_ops_scheme \<Rightarrow> ('g, 'f, 'y) anonymous_game_scheme \<Rightarrow> 'g \<Rightarrow> 'f \<Rightarrow> count_profile list \<Rightarrow> nat list \<Rightarrow>
     'f solve_error + count_profile list" where
  "count_visit F G game tol equilibria counts =
     try_bind (is_nash F G game counts tol) (\<lambda>nash.
       Inr (if nash then equilibria @ [\<lparr>cp_counts = counts\<rparr>] else equilibria))"

definition pure_nash_counts ::
    "('f, 'z) solve_ops_scheme \<Rightarrow> ('g, 'f, 'y) anonymous_game_scheme \<Rightarrow> 'g \<Rightarrow> ('f solve_error + count_profile list) option" where
  "pure_nash_counts F G game =
     (let n_players = sg_n_roles G game
      in if n_players = 0 then Some (Inl (UnsupportedRoles 0))
         else let n_actions = fg_n_actions G game 0
           in if n_actions = 0 then Some (Inl (EmptyActions 0))
              else case check_anonymous_roles G game n_players n_actions of
                Inl e \<Rightarrow> Some (Inl e)
              | Inr _ \<Rightarrow>
                  let profiles = composition_count n_players n_actions
                  in if profiles > max_profiles then Some (Inl (SolveTooLarge profiles))
                     else Option.bind (anonymous_tolerance F G game n_players n_actions) (\<lambda>res.
                       case res of
                         Inl e \<Rightarrow> Some (Inl e)
                       | Inr tol \<Rightarrow> composition_loop (count_visit F G game tol)
                           (first_composition n_players n_actions) []))"

subsection \<open>All count vectors, in lexicographic order\<close>

fun compositions :: "nat \<Rightarrow> nat \<Rightarrow> nat list list" where
  "compositions t 0 = []"
| "compositions t (Suc 0) = [[t]]"
| "compositions t (Suc (Suc k)) = concat (map (\<lambda>c. map ((#) c) (compositions (t - c) (Suc k))) [0..<Suc t])"

lemma set_compositions: "cs \<in> set (compositions t (Suc k)) \<longleftrightarrow> length cs = Suc k \<and> sum_list cs = t"
proof (induction k arbitrary: cs t)
  case (Suc k)
  show ?case by (cases cs) (auto simp: Suc image_iff simp del: upt_Suc)
qed (auto simp: length_Suc_conv)

lemma length_compositions: "length (compositions t (Suc k)) = (t + k) choose k"
proof (induction k arbitrary: t)
  case (Suc k)
  have "length (compositions t (Suc (Suc k))) = (\<Sum>c\<leftarrow>[0..<Suc t]. (t - c + k) choose k)"
    by (simp add: length_concat comp_def Suc del: upt_Suc)
  also have "\<dots> = (\<Sum>c = 0..t. (t - c + k) choose k)"
    by (simp add: sum_list_distinct_conv_sum_set atLeastLessThanSuc_atLeastAtMost del: upt_Suc)
  also have "\<dots> = (\<Sum>c = 0..t. (c + k) choose k)"
    by (subst sum.atLeastAtMost_rev) simp
  also have "\<dots> = (\<Sum>c = 0..t. (k + c) choose c)"
    by (intro sum.cong refl) (metis add.commute binomial_symmetric diff_add_inverse le_add1)
  also have "\<dots> = Suc (k + t) choose t" using sum_choose_lower [of k t] by (simp add: atMost_atLeast0)
  finally show ?case by (metis add.commute add_Suc add_Suc_right binomial_symmetric diff_add_inverse le_add1)
qed simp

lemma compositions_nonempty: "compositions t (Suc k) \<noteq> []"
  using length_compositions [of t k] by (metis le_add2 length_0_conv less_numeral_extra(3) zero_less_binomial)

lemma distinct_compositions: "distinct (compositions t k)"
proof (induction t k rule: compositions.induct)
  case (3 t k)
  have "inj_on (\<lambda>c. map ((#) c) (compositions (t - c) (Suc k))) {0..<Suc t}"
  proof (rule inj_onI)
    fix x y assume "map ((#) x) (compositions (t - x) (Suc k)) = map ((#) y) (compositions (t - y) (Suc k))"
    then have "hd (hd (map ((#) x) (compositions (t - x) (Suc k)))) = hd (hd (map ((#) y) (compositions (t - y) (Suc k))))" by simp
    then show "x = y" by (simp only: hd_map compositions_nonempty not_False_eq_True) simp
  qed
  then show ?case
    using 3 by (auto simp: distinct_map intro!: distinct_concat inj_onI simp del: upt_Suc)
qed simp_all

subsection \<open>The walk\<close>

lemma first_composition_Suc: "first_composition t (Suc k) = replicate k 0 @ [t]"
  by (induction k) (simp_all add: first_composition_def flip: replicate_append_same)

lemma find_rev_upt_shift:
  "find P (rev [Suc m..<Suc n]) = map_option Suc (find (\<lambda>i. P (Suc i)) (rev [m..<n]))"
proof -
  have "rev [Suc m..<Suc n] = map Suc (rev [m..<n])" by (simp only: map_Suc_upt rev_map [symmetric])
  moreover have "find P (map Suc xs) = map_option Suc (find (\<lambda>i. P (Suc i)) xs)" for xs by (induction xs) auto
  ultimately show ?thesis by simp
qed

lemma rev_upt_first: "m < n \<Longrightarrow> rev [m..<n] = rev [Suc m..<n] @ [m]"
  by (simp add: upt_conv_Cons)

lemma find_append': "find P (xs @ ys) = (case find P xs of None \<Rightarrow> find P ys | Some x \<Rightarrow> Some x)"
  by (induction xs) auto

lemma advance_Cons:
  assumes "cs \<noteq> []"
  shows "advance_composition (c # cs) =
    (case advance_composition cs of
       Some cs' \<Rightarrow> Some (c # cs')
     | None \<Rightarrow> if hd cs = 0 then None else Some (Suc c # list_update (list_update cs 0 0) (length cs - 1)
         (list_update cs 0 0 ! (length cs - 1) + (hd cs - 1))))"
proof -
  have "1 < Suc (length cs)" using assms by simp
  from rev_upt_first [OF this] have "find (\<lambda>i. (c # cs) ! i > 0) (rev [1..<Suc (length cs)]) =
      (case find (\<lambda>i. cs ! i > 0) (rev [1..<length cs]) of None \<Rightarrow> if cs ! 0 > 0 then Some 1 else None | Some i \<Rightarrow> Some (Suc i))"
    by (simp only: find_append' find_rev_upt_shift) (simp split: option.split)
  moreover have "cs ! 0 = hd cs" using assms by (simp add: hd_conv_nth)
  moreover have "0 < i \<and> i < length cs" if "find (\<lambda>i. cs ! i > 0) (rev [1..<length cs]) = Some i" for i
    using that by (auto simp: find_Some_iff rev_nth)
  ultimately show ?thesis
    using assms
    by (cases "find (\<lambda>i. cs ! i > 0) (rev [1..<length cs])")
      (auto simp: advance_composition_def Let_def list_update_append nth_Cons split: nat.splits)
qed

lemma advance_None:
  assumes "advance_composition cs = None" "cs \<in> set (compositions r (Suc k))"
  shows "cs = r # replicate k 0"
proof -
  have len: "length cs = Suc k" "sum_list cs = r" using assms(2) by (simp_all add: set_compositions)
  then obtain c cs' where cs: "cs = c # cs'" "length cs' = k" by (auto simp: length_Suc_conv)
  have zero: "cs ! i = 0" if "0 < i" "i < Suc k" for i
  proof -
    have "find (\<lambda>index. cs ! index > 0) (rev [1..<length cs]) = None"
      using assms(1) by (auto simp: advance_composition_def Let_def split: option.splits)
    then show ?thesis using that len(1) unfolding find_None_iff by (auto simp del: upt_Suc)
  qed
  have "cs' ! i = 0" if "i < k" for i using zero [of "Suc i"] that cs by simp
  then have "cs' = replicate k 0" using cs(2) by (intro nth_equalityI) simp_all
  then show ?thesis using cs(1) len(2) by (simp add: sum_list_replicate)
qed

lemma advance_block:
  assumes "cs \<in> set (compositions r (Suc k))"
  shows "advance_composition (c # cs) =
    (case advance_composition cs of
       Some cs' \<Rightarrow> Some (c # cs')
     | None \<Rightarrow> if r = 0 then None else Some (Suc c # first_composition (r - 1) (Suc k)))"
proof -
  have ne: "cs \<noteq> []" using assms by (auto simp: set_compositions)
  show ?thesis
  proof (cases "advance_composition cs")
    case None
    from advance_None [OF this assms] have cs: "cs = r # replicate k 0" .
    then have "list_update cs 0 0 = replicate (Suc k) 0" by simp
    then have "advance_composition (c # cs) =
        (if r = 0 then None else Some (Suc c # list_update (replicate (Suc k) 0) k (replicate (Suc k) 0 ! k + (r - 1))))"
      using advance_Cons [OF ne, of c] None cs by (simp only: option.case) (simp del: replicate.simps)
    then show ?thesis using None by (simp add: first_composition_def nth_replicate del: replicate.simps)
  qed (simp add: advance_Cons [OF ne])
qed

fun walks :: "nat list list \<Rightarrow> bool" where
  "walks [] = True"
| "walks (p # ps) \<longleftrightarrow> advance_composition p = (case ps of [] \<Rightarrow> None | q # _ \<Rightarrow> Some q) \<and> walks ps"

lemma walks_block:
  assumes "walks ps" "ps \<noteq> []" "set ps \<subseteq> set (compositions r (Suc k))" "walks rest"
    and "if r = 0 then rest = [] else rest \<noteq> [] \<and> hd rest = Suc c # first_composition (r - 1) (Suc k)"
  shows "walks (map ((#) c) ps @ rest)"
  using assms(1-3)
proof (induction ps)
  case (Cons p ps)
  then show ?case
    using assms(4,5) advance_block [of p r k c]
    by (cases ps; cases rest) (auto split: if_splits)
qed simp

lemma walks_compositions: "walks (compositions t (Suc k)) \<and> hd (compositions t (Suc k)) = first_composition t (Suc k)"
proof (induction k arbitrary: t)
  case 0
  then show ?case by (simp add: advance_composition_def first_composition_def)
next
  case (Suc k)
  note outer = Suc.IH
  let ?block = "\<lambda>c. map ((#) c) (compositions (t - c) (Suc k))"
  have "c \<le> t \<Longrightarrow> walks (concat (map ?block [c..<Suc t])) \<and> concat (map ?block [c..<Suc t]) \<noteq> [] \<and>
      hd (concat (map ?block [c..<Suc t])) = c # first_composition (t - c) (Suc k)" for c
  proof (induction "t - c" arbitrary: c)
    case 0
    then have upt: "[c..<Suc t] = [c]" by simp
    have "walks (?block c @ [])"
      by (rule walks_block [where r = "t - c"]) (use 0 outer compositions_nonempty in auto)
    then show ?case using outer [of "t - c"] compositions_nonempty [of "t - c" k] unfolding upt by (simp add: hd_map)
  next
    case (Suc d)
    then have c: "c < t" by simp
    then have upt: "[c..<Suc t] = c # [Suc c..<Suc t]" by (intro upt_conv_Cons) simp
    have IH: "walks (concat (map ?block [Suc c..<Suc t])) \<and> concat (map ?block [Suc c..<Suc t]) \<noteq> [] \<and>
        hd (concat (map ?block [Suc c..<Suc t])) = Suc c # first_composition (t - Suc c) (Suc k)"
      by (rule Suc.hyps(1)) (use Suc.hyps(2) c in simp_all)
    have "walks (?block c @ concat (map ?block [Suc c..<Suc t]))"
      by (rule walks_block [where r = "t - c"]) (use IH outer compositions_nonempty c in auto)
    then show ?case
      using outer [of "t - c"] compositions_nonempty [of "t - c" k] unfolding upt by (simp add: hd_map hd_append)
  qed
  from this [of 0] show ?case by (simp add: first_composition_Suc flip: replicate_Suc)
qed

lemma composition_loop_walks:
  "walks ps \<Longrightarrow> ps \<noteq> [] \<Longrightarrow> composition_loop body (hd ps) s = Some (try_fold body s ps)"
proof (induction ps arbitrary: s)
  case (Cons p ps)
  show ?case
  proof (cases "body s p")
    case (Inl e)
    then show ?thesis by (subst composition_loop.simps) simp
  next
    case (Inr s')
    then show ?thesis using Cons by (subst composition_loop.simps) (auto split: list.split)
  qed
qed simp

lemma composition_loop_all:
  "composition_loop body (first_composition t (Suc k)) s = Some (try_fold body s (compositions t (Suc k)))"
  using composition_loop_walks [of "compositions t (Suc k)" body s] walks_compositions compositions_nonempty by metis

subsection \<open>The size guard\<close>

lemma count_step_Some [simp]:
  "count_step m i (Some r) = (if r * (m + i) < 2 ^ 128 then Some (r * (m + i) div i) else None)"
  by (simp add: count_step_def Let_def)

lemma count_step_eq:
  "count_step m i (Some r) = Some s \<longleftrightarrow> r * (m + i) < 2 ^ 128 \<and> s = r * (m + i) div i"
  "count_step m i (Some r) = None \<longleftrightarrow> 2 ^ 128 \<le> r * (m + i)"
  by (auto simp only: count_step_Some not_less split: if_splits)

lemma count_step_None [simp]: "count_step m i None = None"
  by (simp add: count_step_def)

lemma fold_upt_Suc: "fold f [1..<Suc (Suc n)] x = f (Suc n) (fold f [1..<Suc n] x)"
  by simp

lemma count_step_binomial:
  assumes "0 < i" "count_step m i (Some ((m + (i - 1)) choose (i - 1))) = Some r"
  shows "r = (m + i) choose i"
proof -
  obtain j where i: "i = Suc j" using assms(1) by (cases i) auto
  have eq: "((m + j) choose j) * (m + Suc j) = ((m + Suc j) choose Suc j) * Suc j"
    using Suc_times_binomial_eq [of "m + j" j] by (simp only: add_Suc_right mult.commute)
  have "r = ((m + j) choose j) * (m + Suc j) div Suc j"
    using assms(2) unfolding i count_step_eq(1) by (simp only: diff_Suc_1)
  then show ?thesis unfolding eq i by (simp only: nonzero_mult_div_cancel_right)
qed

lemma count_steps:
  "fold (count_step m) [1..<Suc n] (Some 1) = Some r \<Longrightarrow> r = (m + n) choose n"
proof (induction n arbitrary: r)
  case (Suc n)
  from Suc.prems obtain r' where r': "fold (count_step m) [1..<Suc n] (Some 1) = Some r'"
    unfolding fold_upt_Suc by (cases "fold (count_step m) [1..<Suc n] (Some 1)") (simp_all only: count_step_None option.distinct)
  then have "count_step m (Suc n) (Some r') = Some r" using Suc.prems unfolding fold_upt_Suc by (simp only:)
  then show ?case using count_step_binomial [of "Suc n" m r] Suc.IH [OF r'] by simp
qed simp

lemma binomial_ge_top: "0 < i \<Longrightarrow> i \<le> m \<Longrightarrow> i \<le> (m + i) choose i"
proof (induction i)
  case (Suc i)
  have "(m + Suc i) choose Suc i = ((m + i) choose i) + ((m + i) choose Suc i)" by simp
  moreover have "0 < (m + i) choose Suc i" using Suc.prems by (intro zero_less_binomial) simp
  moreover have "i \<le> (m + i) choose i" using Suc by (cases "i = 0") auto
  ultimately show ?case by linarith
qed simp

lemma binomial_grows: "i \<le> n \<Longrightarrow> (m + i) choose i \<le> (m + n) choose n"
proof (induction n)
  case (Suc n)
  have "(m + n) choose n \<le> (m + Suc n) choose Suc n" by simp
  then show ?case using Suc by (cases "i = Suc n") auto
qed simp

lemma count_steps_None:
  assumes "fold (count_step m) [1..<Suc n] (Some 1) = None" "n \<le> m"
  shows "2 ^ 64 \<le> (m + n) choose n"
  using assms
proof (induction n)
  case (Suc n)
  show ?case
  proof (cases "fold (count_step m) [1..<Suc n] (Some 1)")
    case None
    then show ?thesis using Suc binomial_grows [of n "Suc n" m] by simp
  next
    case (Some r)
    let ?c = "(m + Suc n) choose Suc n"
    have "count_step m (Suc n) (Some r) = None" using Suc.prems(1) Some unfolding fold_upt_Suc by (simp only:)
    moreover have "r = (m + n) choose n" by (rule count_steps [OF Some])
    ultimately have "2 ^ 128 \<le> ((m + n) choose n) * (m + Suc n)"
      unfolding count_step_eq(2) by (simp only:)
    also have "\<dots> = ?c * Suc n" using Suc_times_binomial_eq [of "m + n" n] by (simp only: add_Suc_right mult.commute)
    also have "\<dots> \<le> ?c * ?c" using binomial_ge_top [of "Suc n" m] Suc.prems(2) by (intro mult_le_mono) simp_all
    finally have "(2 ^ 64) ^ 2 \<le> ?c ^ 2" by (simp add: power2_eq_square)
    then show ?thesis using power2_le_imp_le by blast
  qed
qed simp

lemma composition_count_binomial:
  "composition_count t (Suc k) = (t + k) choose k \<or>
   composition_count t (Suc k) = 2 ^ 128 - 1 \<and> 2 ^ 64 \<le> (t + k) choose k"
proof -
  let ?c = "min k t"
  have eq: "(t + k) choose k = (t + k - ?c + ?c) choose ?c"
  proof (cases "k \<le> t")
    case False
    then have "(t + k) choose k = (t + k) choose t" using binomial_symmetric [of k "t + k"] by simp
    then show ?thesis using False by (simp add: min_def add.commute)
  qed (simp add: min_def)
  have le: "?c \<le> t + k - ?c" by simp
  show ?thesis
  proof (cases "fold (count_step (t + k - ?c)) [1..<Suc ?c] (Some 1)")
    case None
    then show ?thesis using count_steps_None [OF None le] eq by (simp add: composition_count_def Let_def del: upt_Suc)
  next
    case (Some r)
    then show ?thesis using count_steps [OF Some] eq by (simp add: composition_count_def Let_def del: upt_Suc)
  qed
qed

lemma composition_count_guard:
  "composition_count t (Suc k) > max_profiles \<longleftrightarrow> length (compositions t (Suc k)) > max_profiles"
  using composition_count_binomial [of t k] by (auto simp: length_compositions max_profiles_def)

subsection \<open>What the search returns\<close>

text \<open>No player using an action the count vector contains gains more than \<open>tol\<close> by another action.\<close>

definition counts_stable ::
    "('f, 'z) solve_ops_scheme \<Rightarrow> ('g, 'f, 'y) anonymous_game_scheme \<Rightarrow> 'g \<Rightarrow> 'f \<Rightarrow> nat list \<Rightarrow> bool" where
  "counts_stable F G game tol counts \<longleftrightarrow>
     (\<forall>a < length counts. 0 < counts ! a \<longrightarrow>
        (let others = list_update counts a (counts ! a - 1)
         in \<forall>d < length counts. \<not> fl_less F (ag_payoff_by_counts G game a others) (fl_sub F (ag_payoff_by_counts G game d others) tol)))"

abbreviation finite_payoffs_at where
  "finite_payoffs_at F G game k others \<equiv> \<forall>a < k. fl_finite F (ag_payoff_by_counts G game a others)"

lemma nash_deviations_Inr:
  assumes "\<forall>d \<in> set ds. fl_finite F (ag_payoff_by_counts G game d others)"
  shows "nash_deviations F G game tol incumbent others ds =
    Inr (\<forall>d \<in> set ds. \<not> fl_less F incumbent (fl_sub F (ag_payoff_by_counts G game d others) tol))"
  using assms by (induction ds) (auto simp: Let_def)

lemma is_nash_Inr:
  assumes "\<forall>a < length counts. 0 < counts ! a \<longrightarrow>
      finite_payoffs_at F G game (length counts) (list_update counts a (counts ! a - 1))"
  shows "is_nash F G game counts tol = Inr (counts_stable F G game tol counts)"
proof -
  have "nash_actions F G game tol counts as = Inr (\<forall>a \<in> set as. 0 < counts ! a \<longrightarrow>
      (\<forall>d < length counts. \<not> fl_less F (ag_payoff_by_counts G game a (list_update counts a (counts ! a - 1)))
        (fl_sub F (ag_payoff_by_counts G game d (list_update counts a (counts ! a - 1))) tol)))"
    if "set as \<subseteq> {..<length counts}" for as
    using that
  proof (induction as)
    case (Cons a as)
    show ?case
    proof (cases "counts ! a = 0")
      case False
      then have "finite_payoffs_at F G game (length counts) (list_update counts a (counts ! a - 1))"
        using assms Cons.prems by simp
      then show ?thesis
        using False Cons by (auto simp: Let_def nash_deviations_Inr)
    qed (use Cons in simp)
  qed simp
  from this [of "[0..<length counts]"] show ?thesis
    by (simp add: is_nash_def counts_stable_def Let_def Ball_def atLeast0LessThan)
qed

lemma anonymous_range_at:
  fixes F :: "('f, 'z) solve_ops_scheme"
  shows
  "case anonymous_range F G game k acc others of
     Inl e \<Rightarrow> e = NonFinitePayoff \<and> \<not> finite_payoffs_at F G game k others
   | Inr _ \<Rightarrow> finite_payoffs_at F G game k others"
proof -
  have "case try_fold (\<lambda>(minimum, maximum) action.
         let payoff = ag_payoff_by_counts G game action others
         in if \<not> fl_finite F payoff then Inl (NonFinitePayoff :: 'f solve_error)
            else Inr (fl_min F minimum payoff, fl_max F maximum payoff)) acc as of
      Inl e \<Rightarrow> e = NonFinitePayoff \<and> \<not> (\<forall>a \<in> set as. fl_finite F (ag_payoff_by_counts G game a others))
    | Inr _ \<Rightarrow> \<forall>a \<in> set as. fl_finite F (ag_payoff_by_counts G game a others)" for as
  proof (induction as arbitrary: acc)
    case (Cons a as)
    obtain mn mx where acc: "acc = (mn, mx)" by (cases acc)
    let ?x = "ag_payoff_by_counts G game a others"
    show ?case
      using Cons.IH [of "(fl_min F mn ?x, fl_max F mx ?x)"]
      by (cases "fl_finite F ?x") (simp_all add: acc Let_def split: sum.splits)
  qed simp
  from this [of "[0..<k]"] show ?thesis by (auto simp: anonymous_range_def split: sum.splits)
qed

lemma anonymous_ranges_at:
  "case try_fold (anonymous_range F G game k) acc os of
     Inl e \<Rightarrow> e = NonFinitePayoff \<and> (\<exists>others \<in> set os. \<not> finite_payoffs_at F G game k others)
   | Inr _ \<Rightarrow> \<forall>others \<in> set os. finite_payoffs_at F G game k others"
proof (induction os arbitrary: acc)
  case (Cons others os)
  note at = anonymous_range_at [where F = F and G = G and game = game and k = k and acc = acc and others = others]
  show ?case
  proof (cases "anonymous_range F G game k acc others")
    case (Inr acc')
    then show ?thesis using at Cons.IH [of acc'] by (cases "try_fold (anonymous_range F G game k) acc' os") auto
  qed (use at in simp)
qed simp

lemma one_fewer:
  assumes "counts \<in> set (compositions (Suc n) (Suc k))" "a < Suc k" "0 < counts ! a"
  shows "list_update counts a (counts ! a - 1) \<in> set (compositions n (Suc k))"
proof -
  have "length counts = Suc k" "sum_list counts = Suc n" using assms(1) by (simp_all add: set_compositions)
  then have "sum_list (list_update counts a (counts ! a - 1)) + counts ! a = Suc n + (counts ! a - 1)"
    using assms(2) by (simp add: sum_list_update elem_le_sum_list)
  then show ?thesis using assms(3) \<open>length counts = Suc k\<close> by (simp add: set_compositions)
qed

lemma count_visits:
  assumes "\<forall>counts \<in> set cs. is_nash F G game counts tol = Inr (P counts)"
  shows "try_fold (count_visit F G game tol) res cs = Inr (res @ map count_profile.make (filter P cs))"
  using assms by (induction cs arbitrary: res) (auto simp: count_visit_def count_profile.make_def)

text \<open>
  C25: the search for count equilibria always returns; it is refused as too large exactly when there are
  more than a million count vectors, it fails only on a payoff that is not finite, and otherwise it
  lists, in lexicographic order, exactly the stable ones among all vectors of the players' number.
\<close>

theorem pure_nash_counts_exact:
  fixes F :: "('f, 'z) solve_ops_scheme" and G :: "('g, 'f, 'y) anonymous_game_scheme" and game :: 'g
  assumes "sg_n_roles G game = Suc n" "\<forall>role \<le> n. fg_n_actions G game role = Suc k"
  shows "case pure_nash_counts F G game of
      None \<Rightarrow> False
    | Some (Inl (SolveTooLarge _)) \<Rightarrow> ((Suc n + k) choose k) > max_profiles
    | Some (Inl e) \<Rightarrow> ((Suc n + k) choose k) \<le> max_profiles \<and> e = NonFinitePayoff \<and>
        (\<exists>others. length others = Suc k \<and> sum_list others = n \<and> \<not> finite_payoffs_at F G game (Suc k) others)
    | Some (Inr equilibria) \<Rightarrow> ((Suc n + k) choose k) \<le> max_profiles \<and>
        (\<exists>tol. anonymous_tolerance F G game (Suc n) (Suc k) = Some (Inr tol) \<and>
           map cp_counts equilibria = filter (counts_stable F G game tol) (compositions (Suc n) (Suc k)))"
proof -
  have check: "check_anonymous_roles G game (Suc n) (Suc k) = Inr ()"
  proof -
    have "try_fold (\<lambda>_ role. let role_actions = fg_n_actions G game role
         in if role_actions = 0 then Inl (EmptyActions role)
            else if role_actions \<noteq> Suc k then
              Inl (InvalidOptions ''anonymous games require the same action count for every role'')
            else Inr ()) () roles = Inr ()" if "\<forall>role \<in> set roles. fg_n_actions G game role = Suc k" for roles
      using that by (induction roles) auto
    from this [of "[1..<Suc n]"] have "try_fold (\<lambda>_ role. let role_actions = fg_n_actions G game role
         in if role_actions = 0 then Inl (EmptyActions role)
            else if role_actions \<noteq> Suc k then
              Inl (InvalidOptions ''anonymous games require the same action count for every role'')
            else Inr ()) () [1..<Suc n] = Inr ()" using assms(2) by auto
    then show ?thesis unfolding check_anonymous_roles_def .
  qed
  show ?thesis
  proof (cases "composition_count (Suc n) (Suc k) > max_profiles")
    case True
    then show ?thesis
      using check composition_count_guard [of "Suc n" k] assms
      by (simp add: pure_nash_counts_def length_compositions Let_def)
  next
    case False
    then have small: "(Suc n + k) choose k \<le> max_profiles"
      using composition_count_guard [of "Suc n" k] by (simp add: length_compositions)
    let ?range = "try_fold (anonymous_range F G game (Suc k)) (fl_inf F, fl_neg_inf F) (compositions n (Suc k))"
    have tol: "anonymous_tolerance F G game (Suc n) (Suc k) =
        Some (try_bind ?range (\<lambda>(minimum, maximum). Inr (scaled_tolerance F minimum maximum)))"
      by (simp add: anonymous_tolerance_def composition_loop_all)
    have run: "pure_nash_counts F G game = Option.bind (anonymous_tolerance F G game (Suc n) (Suc k)) (\<lambda>res. case res of
        Inl e \<Rightarrow> Some (Inl e) | Inr tol \<Rightarrow> Some (try_fold (count_visit F G game tol) [] (compositions (Suc n) (Suc k))))"
      using False check assms by (simp add: pure_nash_counts_def composition_loop_all Let_def)
    show ?thesis
    proof (cases ?range)
      case (Inl e)
      then have "e = NonFinitePayoff" "\<exists>others \<in> set (compositions n (Suc k)). \<not> finite_payoffs_at F G game (Suc k) others"
        using anonymous_ranges_at [where F = F and G = G and game = game and k = "Suc k"
            and acc = "(fl_inf F, fl_neg_inf F)" and os = "compositions n (Suc k)"] by simp_all
      then show ?thesis using Inl run tol small by (auto simp: set_compositions)
    next
      case (Inr mm)
      obtain mn mx where mm: "mm = (mn, mx)" by (cases mm)
      have fin: "\<forall>others \<in> set (compositions n (Suc k)). finite_payoffs_at F G game (Suc k) others"
        using anonymous_ranges_at [where F = F and G = G and game = game and k = "Suc k"
            and acc = "(fl_inf F, fl_neg_inf F)" and os = "compositions n (Suc k)"] Inr by simp
      have "\<forall>counts \<in> set (compositions (Suc n) (Suc k)). is_nash F G game counts t = Inr (counts_stable F G game t counts)" for t
      proof
        fix counts assume c: "counts \<in> set (compositions (Suc n) (Suc k))"
        then have "length counts = Suc k" by (simp add: set_compositions)
        then show "is_nash F G game counts t = Inr (counts_stable F G game t counts)"
          using fin one_fewer [OF c] by (intro is_nash_Inr) metis
      qed
      note visits = count_visits [OF this]
      have "map cp_counts (map count_profile.make xs) = xs" for xs by (induction xs) (simp_all add: count_profile.make_def)
      then show ?thesis using run tol small Inr mm visits by simp
    qed
  qed
qed

definition meeting :: "(unit, int) anonymous_game" where
  "meeting =
     \<lparr>sg_n_roles = (\<lambda>_. 2), sg_check_action = (\<lambda>_ role a. if a < 2 then Inr () else Inl (InvalidAction role a)),
      nf_payoff = (\<lambda>_ role p. if p ! 0 = p ! 1 then 1 else 0), nf_payoffs_into = (\<lambda>_ _ out. out),
      fg_n_actions = (\<lambda>_ _. 2), fg_action_label = (\<lambda>_ _ _. []), fg_is_symmetric = (\<lambda>_. True),
      ag_payoff_by_counts = (\<lambda>_ a others. int (others ! a))\<rparr>"

lemma meeting_sizes: "sg_n_roles meeting () = Suc 1" "fg_n_actions meeting () role = Suc 1"
  by (simp_all add: meeting_def)

lemma meeting_tolerance: "anonymous_tolerance int_solve meeting () (Suc 1) (Suc 1) = Some (Inr 0)"
proof -
  have "try_fold (anonymous_range int_solve meeting () (Suc 1)) (fl_inf int_solve, fl_neg_inf int_solve) (compositions 1 (Suc 1)) =
      Inr (0, 1)"
    by (simp add: anonymous_range_def meeting_def int_solve_def)
  moreover have "scaled_tolerance int_solve 0 1 = 0" by (simp add: scaled_tolerance_def int_solve_def)
  ultimately show ?thesis unfolding anonymous_tolerance_def diff_Suc_1 composition_loop_all by simp
qed

theorem pure_nash_counts_exact_witness:
  "\<exists>equilibria. pure_nash_counts int_solve meeting () = Some (Inr equilibria) \<and> map cp_counts equilibria = [[0, 2], [2, 0]]"
proof -
  have stable: "filter (counts_stable int_solve meeting () 0) (compositions (Suc 1) (Suc 1)) = [[0, 2], [2, 0]]"
    by (simp add: counts_stable_def All_less_Suc meeting_def int_solve_def Let_def numeral_2_eq_2)
  have finite: "fl_finite int_solve (ag_payoff_by_counts meeting () a others)" if "sum_list others = 1" "length others = 2" "a < 2" for a others
  proof -
    have "others ! a \<le> sum_list others" using that by (intro elem_le_sum_list) simp
    then show ?thesis using that(1) by (simp add: meeting_def int_solve_def)
  qed
  have tol: "anonymous_tolerance int_solve meeting () (Suc (Suc 0)) (Suc (Suc 0)) = Some (Inr 0)"
    using meeting_tolerance by simp
  have "(Suc 1 + 1) choose 1 \<le> max_profiles" by (simp add: max_profiles_def)
  with pure_nash_counts_exact [OF meeting_sizes(1), of 1 int_solve] meeting_sizes(2) finite stable show ?thesis
    by (auto simp: tol numeral_2_eq_2 split: option.splits sum.splits solve_error.splits)
qed

end
