(* ===== verification/Mixed_Agreement.thy ===== *)
theory Mixed_Agreement
  imports Anonymous
begin

section \<open>The mixed regret of a pure profile agrees with the enumeration of equilibria\<close>

text \<open>
  \<open>mixed_laws\<close> is what \<open>f64\<close> promises of sums and products in which all but one term is zero and all
  factors are zero or one: they are exact.
\<close>

definition mixed_laws :: "('f, 'z) mixed_ops_scheme \<Rightarrow> ('f \<Rightarrow> bool) \<Rightarrow> ('f \<Rightarrow> real) \<Rightarrow> bool" where
  "mixed_laws F num key \<longleftrightarrow>
     (\<forall>x c c'. fl_finite F x \<longrightarrow> fl_finite F c \<longrightarrow> fl_finite F c' \<longrightarrow> key c = key c' \<longrightarrow> key (fl_sub F x c) = key (fl_sub F x c')) \<and>
     (\<forall>xs. set xs \<subseteq> {fl_zero F, fl_one F} \<longrightarrow> fl_product F xs = (if fl_zero F \<in> set xs then fl_zero F else fl_one F)) \<and>
     (\<forall>x. fl_finite F x \<longrightarrow> fl_mul F (fl_one F) x = x \<and> fl_mul F x (fl_one F) = x \<and>
        fl_finite F (fl_add F (fl_zero F) x) \<and> key (fl_add F (fl_zero F) x) = key x \<and>
        fl_finite F (fl_mul F x (fl_zero F)) \<and> key (fl_mul F x (fl_zero F)) = key (fl_zero F) \<and>
        key (fl_neg_inf F) \<le> key x) \<and>
     (\<forall>xs i. i < length xs \<longrightarrow> (\<forall>x \<in> set xs. fl_finite F x) \<longrightarrow> (\<forall>j < length xs. j \<noteq> i \<longrightarrow> key (xs ! j) = key (fl_zero F)) \<longrightarrow>
        fl_finite F (fl_sum F xs) \<and> key (fl_sum F xs) = key (xs ! i)) \<and>
     num (fl_neg_inf F) \<and> fl_eq F (fl_zero F) (fl_zero F) \<and> \<not> fl_eq F (fl_one F) (fl_zero F)"

lemma mixed_lawsD:
  assumes "mixed_laws F num key"
  shows "fl_finite F x \<Longrightarrow> fl_finite F c \<Longrightarrow> fl_finite F c' \<Longrightarrow> key c = key c' \<Longrightarrow> key (fl_sub F x c) = key (fl_sub F x c')"
    "set xs \<subseteq> {fl_zero F, fl_one F} \<Longrightarrow> fl_product F xs = (if fl_zero F \<in> set xs then fl_zero F else fl_one F)"
    "fl_finite F x \<Longrightarrow> fl_mul F (fl_one F) x = x"
    "fl_finite F x \<Longrightarrow> fl_mul F x (fl_one F) = x"
    "fl_finite F x \<Longrightarrow> fl_finite F (fl_add F (fl_zero F) x)"
    "fl_finite F x \<Longrightarrow> key (fl_add F (fl_zero F) x) = key x"
    "fl_finite F x \<Longrightarrow> fl_finite F (fl_mul F x (fl_zero F))"
    "fl_finite F x \<Longrightarrow> key (fl_mul F x (fl_zero F)) = key (fl_zero F)"
    "fl_finite F x \<Longrightarrow> key (fl_neg_inf F) \<le> key x"
    "i < length xs \<Longrightarrow> (\<And>x. x \<in> set xs \<Longrightarrow> fl_finite F x) \<Longrightarrow> (\<And>j. j < length xs \<Longrightarrow> j \<noteq> i \<Longrightarrow> key (xs ! j) = key (fl_zero F)) \<Longrightarrow>
        fl_finite F (fl_sum F xs) \<and> key (fl_sum F xs) = key (xs ! i)"
    "num (fl_neg_inf F)" "fl_eq F (fl_zero F) (fl_zero F)" "\<not> fl_eq F (fl_one F) (fl_zero F)"
  using assms unfolding mixed_laws_def by blast+

definition pure_strategies :: "('f, 'z) mixed_ops_scheme \<Rightarrow> (nat \<Rightarrow> nat) \<Rightarrow> nat list \<Rightarrow> 'f mixed_strategy list" where
  "pure_strategies F f p =
     map (\<lambda>role. MixedStrategy (list_update (replicate (f role) (fl_zero F)) (p ! role) (fl_one F))) [0..<length p]"

lemma pure_strategies_mixed_pure:
  assumes "role < length p" "p ! role < f role"
  shows "mixed_pure F (f role) (p ! role) = Inr (pure_strategies F f p ! role)"
  using assms by (simp add: mixed_pure_def pure_strategies_def)

lemma validate_pure:
  fixes F :: "('f, 'z) mixed_ops_scheme"
  assumes "length p = sg_n_roles G game" "0 < sg_n_roles G game"
  shows "validate_profile G game (pure_strategies F (fg_n_actions G game) p) = Inr ()"
proof -
  have check: "try_fold (\<lambda>_ (role, mixed). let expected = fg_n_actions G game role
         in if mixed_len mixed \<noteq> expected then Inl (MixedDimension role expected (mixed_len mixed)) else Inr ()) () xs = Inr ()"
    if "\<forall>(role, mixed) \<in> set xs. mixed_len mixed = fg_n_actions G game role" for xs :: "(nat \<times> 'f mixed_strategy) list"
    using that by (induction xs) auto
  have "\<forall>(role, mixed) \<in> set (List.enumerate 0 (pure_strategies F (fg_n_actions G game) p)).
      mixed_len mixed = fg_n_actions G game role"
    by (auto simp: in_set_enumerate_eq pure_strategies_def mixed_len_def)
  from check [OF this] show ?thesis
    using assms by (simp add: validate_profile_def) (simp add: pure_strategies_def)
qed

lemma pure_probability:
  assumes laws: "mixed_laws F num key" and p: "length p = n" "length q = n"
    and bound: "\<forall>i < n. p ! i < f i" "\<forall>i < n. q ! i < f i"
  shows "profile_probability F role (pure_strategies F f p) q =
    (if \<forall>i < n. i \<noteq> role \<longrightarrow> q ! i = p ! i then fl_one F else fl_zero F)"
proof -
  let ?factors = "map (\<lambda>(index, action). ms_probs (pure_strategies F f p ! index) ! action)
    (filter (\<lambda>(index, _). index \<noteq> role) (List.enumerate 0 q))"
  have at: "ms_probs (pure_strategies F f p ! i) ! (q ! i) = (if q ! i = p ! i then fl_one F else fl_zero F)" if "i < n" for i
    using that p bound by (simp add: pure_strategies_def nth_list_update)
  have factors: "set ?factors = (\<lambda>i. if q ! i = p ! i then fl_one F else fl_zero F) ` {i. i < n \<and> i \<noteq> role}"
  proof -
    have "set ?factors = (\<lambda>i. ms_probs (pure_strategies F f p ! i) ! (q ! i)) ` {i. i < n \<and> i \<noteq> role}"
      using p by (force simp: in_set_enumerate_eq image_iff)
    also have "\<dots> = (\<lambda>i. if q ! i = p ! i then fl_one F else fl_zero F) ` {i. i < n \<and> i \<noteq> role}"
      by (rule image_cong [OF refl]) (use at in simp)
    finally show ?thesis .
  qed
  have "fl_zero F \<noteq> fl_one F" using mixed_lawsD(12,13) [OF laws] by metis
  then have "fl_zero F \<in> set ?factors \<longleftrightarrow> \<not> (\<forall>i < n. i \<noteq> role \<longrightarrow> q ! i = p ! i)"
    unfolding factors by (auto simp: image_iff split: if_splits)
  moreover have "set ?factors \<subseteq> {fl_zero F, fl_one F}" unfolding factors by auto
  ultimately show ?thesis unfolding profile_probability_def mixed_lawsD(2) [OF laws \<open>set ?factors \<subseteq> _\<close>] by auto
qed

lemma add_pure_payoffs:
  assumes laws: "mixed_laws F num key" and p: "length p = n" "\<forall>i < n. p ! i < f i" and role: "role < n"
    and qs: "distinct qs" "\<forall>q \<in> set qs. length q = n \<and> (\<forall>i < n. q ! i < f i) \<and> fl_finite F (nf_payoff G game role q)"
    and res: "length res = f role"
  shows "try_fold (add_profile_payoff F G game role (pure_strategies F f p)) res qs =
    Inr (map (\<lambda>a. if list_update p role a \<in> set qs
        then fl_add F (res ! a) (nf_payoff G game role (list_update p role a)) else res ! a) [0..<f role])"
  using qs res
proof (induction qs arbitrary: res)
  case Nil
  then show ?case by (simp add: list_eq_iff_nth_eq)
next
  case (Cons q qs)
  have q: "length q = n" "\<forall>i < n. q ! i < f i" "fl_finite F (nf_payoff G game role q)" using Cons.prems(2) by auto
  define res' where "res' = (if \<forall>i < n. i \<noteq> role \<longrightarrow> q ! i = p ! i
      then list_update res (q ! role) (fl_add F (res ! (q ! role)) (nf_payoff G game role q)) else res)"
  have step: "add_profile_payoff F G game role (pure_strategies F f p) res q = Inr res'"
    using pure_probability [OF laws p(1) q(1) p(2) q(2), of role] mixed_lawsD(3,12,13) [OF laws] q(3)
    by (auto simp: add_profile_payoff_def res'_def Let_def)
  have same: "q = list_update p role a \<longleftrightarrow> (\<forall>i < n. i \<noteq> role \<longrightarrow> q ! i = p ! i) \<and> a = q ! role" for a
    using p(1) q(1) role by (auto simp: list_eq_iff_nth_eq nth_list_update)
  have "length res' = f role" using Cons.prems(3) by (simp add: res'_def)
  then have rest: "try_fold (add_profile_payoff F G game role (pure_strategies F f p)) res' qs =
    Inr (map (\<lambda>a. if list_update p role a \<in> set qs
        then fl_add F (res' ! a) (nf_payoff G game role (list_update p role a)) else res' ! a) [0..<f role])"
    using Cons.prems by (intro Cons.IH) auto
  have "(if list_update p role a \<in> set qs then fl_add F (res' ! a) (nf_payoff G game role (list_update p role a)) else res' ! a) =
      (if list_update p role a \<in> set (q # qs) then fl_add F (res ! a) (nf_payoff G game role (list_update p role a)) else res ! a)"
    if "a < f role" for a
  proof (cases "q = list_update p role a")
    case True
    then have "res' ! a = fl_add F (res ! a) (nf_payoff G game role (list_update p role a))"
      using same [of a] that Cons.prems(3) by (simp add: res'_def)
    moreover have "list_update p role a \<notin> set qs" using True Cons.prems(1) by simp
    ultimately show ?thesis using True by simp
  next
    case False
    then have "res' ! a = res ! a" using same [of a] by (auto simp: res'_def nth_list_update)
    then show ?thesis using False by auto
  qed
  then show ?case by (simp add: step rest cong: map_cong)
qed

lemma pure_action_payoffs:
  fixes F :: "('f, 'z) solve_ops_scheme" and G :: "('g, 'f, 'y) finite_game_scheme" and game :: 'g
  defines "n \<equiv> sg_n_roles G game" and "f \<equiv> fg_n_actions G game"
  assumes laws: "mixed_laws F num key" and ok: "accepted_game F G game"
    and p: "p \<in> set (all_profiles f n)" and role: "role < n"
  shows "action_payoffs_validated F G game role (pure_strategies F f p) =
    Some (Inr (map (\<lambda>a. fl_add F (fl_zero F) (nf_payoff G game role (list_update p role a))) [0..<f role]))"
proof -
  note ok' = ok [unfolded accepted_game_def, folded n_def f_def]
  have pos: "\<forall>role < n. 0 < f role" using ok' by simp
  have mem: "q \<in> set (all_profiles f n) \<longleftrightarrow> length q = n \<and> (\<forall>i < n. q ! i < f i)" for q
    using pos by (auto simp: set_all_profiles max_def)
  have "\<forall>q \<in> set (all_profiles f n). length q = n \<and> (\<forall>i < n. q ! i < f i) \<and> fl_finite F (nf_payoff G game role q)"
    using ok' mem role by auto
  from add_pure_payoffs [OF laws _ _ role distinct_all_profiles this, of p] p mem
  have "try_fold (add_profile_payoff F G game role (pure_strategies F f p)) (replicate (f role) (fl_zero F)) (all_profiles f n) =
    Inr (map (\<lambda>a. if list_update p role a \<in> set (all_profiles f n)
      then fl_add F (replicate (f role) (fl_zero F) ! a) (nf_payoff G game role (list_update p role a))
      else replicate (f role) (fl_zero F) ! a) [0..<f role])" by simp
  also have "\<dots> = Inr (map (\<lambda>a. fl_add F (fl_zero F) (nf_payoff G game role (list_update p role a))) [0..<f role])"
    using profile_update(1) [OF p role _ pos] by simp
  finally show ?thesis
    by (simp add: action_payoffs_validated_def odometer_loop_product profiles_of_counts n_def [symmetric] f_def [symmetric])
qed

lemma pure_role_regret:
  fixes F :: "('f, 'z) solve_ops_scheme" and G :: "('g, 'f, 'y) finite_game_scheme" and game :: 'g
  defines "n \<equiv> sg_n_roles G game" and "f \<equiv> fg_n_actions G game"
  assumes laws: "float_laws F num key" "mixed_laws F num key" and ok: "accepted_game F G game"
    and p: "p \<in> set (all_profiles f n)" and role: "role < n"
  shows "\<exists>r. role_regret F G game (pure_strategies F f p) role = Some (Inr r) \<and> num r \<and>
    (\<forall>t. key r \<le> t \<longleftrightarrow> (\<forall>a < f role. key (fl_sub F (nf_payoff G game role (list_update p role a)) (nf_payoff G game role p)) \<le> t))"
proof -
  note ok' = ok [unfolded accepted_game_def, folded n_def f_def]
  have pos: "\<forall>role < n. 0 < f role" using ok' by simp
  let ?pay = "\<lambda>a. nf_payoff G game role (list_update p role a)"
  let ?v = "\<lambda>a. fl_add F (fl_zero F) (?pay a)" and ?o = "p ! role"
  let ?vals = "map ?v [0..<f role]" and ?s = "pure_strategies F f p ! role"
  note upd = profile_update [OF p role _ pos]
  have own: "?o < f role" "length p = n" using upd(2,3) [of 0] pos role by auto
  have fin: "fl_finite F (?pay a)" "fl_finite F (?v a)" "key (?v a) = key (?pay a)" if "a < f role" for a
    using ok' upd(1) [OF that] role mixed_lawsD(5,6) [OF laws(2)] by auto
  have probs: "ms_probs ?s = list_update (replicate (f role) (fl_zero F)) ?o (fl_one F)"
    using own role by (simp add: pure_strategies_def)
  define terms where "terms = map (\<lambda>(payoff, probability). fl_mul F payoff probability) (zip ?vals (ms_probs ?s))"
  have trm: "terms ! a = (if a = ?o then ?v a else fl_mul F (?v a) (fl_zero F))" "length terms = f role" if "a < f role" for a
    using that own(1) mixed_lawsD(4) [OF laws(2) fin(2) [OF that]] by (auto simp: terms_def probs nth_list_update)
  have terms_fin: "fl_finite F x" if "x \<in> set terms" for x
    using that trm own(1) fin(2) fin(2) [OF own(1)] mixed_lawsD(7) [OF laws(2)] by (auto simp: in_set_conv_nth)
  have "key (terms ! j) = key (fl_zero F)" if "j < length terms" "j \<noteq> ?o" for j
    using that trm [of j] trm(2) [OF own(1)] mixed_lawsD(8) [OF laws(2) fin(2)] by simp
  then have exp: "fl_finite F (fl_sum F terms)" "key (fl_sum F terms) = key (nf_payoff G game role p)"
    using mixed_lawsD(10) [OF laws(2), of ?o terms] terms_fin trm [OF own(1)] own(1) fin(3) [OF own(1)] by simp_all
  let ?best = "fold (\<lambda>value best. fl_max F best value) ?vals (fl_neg_inf F)"
  have cons: "[0..<f role] = 0 # [1..<f role]" using pos role by (simp add: upt_conv_Cons)
  have "fl_finite F (fold (\<lambda>a best. fl_max F best (?v a)) [1..<f role] (fl_max F (fl_neg_inf F) (?v 0)))"
    using fin pos role float_lawsD(10) [OF laws(1)] by (intro fold_max_finite [OF laws(1)]) auto
  then have best_fin: "fl_finite F ?best" unfolding fold_map comp_def cons by simp
  have "key ?best = Max (insert (key (fl_neg_inf F)) ((\<lambda>a. key (?v a)) ` set [0..<f role]))"
    unfolding fold_map comp_def
    by (rule conjunct2 [OF fold_max_key [OF laws(1) mixed_lawsD(11) [OF laws(2)]]]) (use fin float_lawsD(1) [OF laws(1)] in auto)
  also have "\<dots> = Max ((\<lambda>a. key (?pay a)) ` {0..<f role})"
  proof -
    have img: "(\<lambda>a. key (?v a)) ` set [0..<f role] = (\<lambda>a. key (?pay a)) ` {0..<f role}" using fin(3) by (auto intro!: image_cong)
    have "key (fl_neg_inf F) \<le> key (?pay ?o)" using mixed_lawsD(9) [OF laws(2)] fin(1) [OF own(1)] by blast
    also have "\<dots> \<le> Max ((\<lambda>a. key (?pay a)) ` {0..<f role})" using own(1) by (intro Max_ge imageI) auto
    finally show ?thesis unfolding img using own(1) by (subst Max_insert) (auto simp: max_def)
  qed
  finally have best: "key ?best = Max ((\<lambda>a. key (?pay a)) ` {0..<f role})" .
  have here: "fl_finite F (nf_payoff G game role p)" using fin(1) [OF own(1)] by simp
  have "key (fl_sub F ?best (fl_sum F terms)) = key (fl_sub F ?best (nf_payoff G game role p))"
    by (rule mixed_lawsD(1) [OF laws(2) best_fin exp(1) here exp(2)])
  moreover have "num (fl_sub F ?best (fl_sum F terms))" by (rule float_lawsD(8) [OF laws(1) best_fin exp(1)])
  moreover have "key (fl_sub F ?best (nf_payoff G game role p)) \<le> t \<longleftrightarrow>
      (\<forall>a \<in> {0..<f role}. key (fl_sub F (?pay a) (nf_payoff G game role p)) \<le> t)" for t
    by (rule sub_max_key [OF laws(1) best_fin here]) (use fin(1) best own(1) in auto)
  ultimately show ?thesis
    using pure_action_payoffs [OF laws(2) ok p [unfolded n_def f_def] role [unfolded n_def]]
    by (simp add: role_regret_def weighted_payoff_def f_def [symmetric] terms_def Ball_def)
qed

lemma fold_max_le:
  assumes "float_laws F num key" "num x" "\<forall>v \<in> set vs. num v"
  shows "num (fold (\<lambda>v best. fl_max F best v) vs x)"
    and "key (fold (\<lambda>v best. fl_max F best v) vs x) \<le> t \<longleftrightarrow> (\<forall>v \<in> set (x # vs). key v \<le> t)"
  using fold_max_key [OF assms(1,2), of vs "\<lambda>v. v"] assms(3) by simp_all

lemma pure_regret_list:
  assumes "\<And>role. role \<in> set roles \<Longrightarrow> role_regret F G game strategies role = Some (Inr (r role))"
  shows "regret_list F G game strategies roles result = Some (Inr (result @ map r roles))"
  using assms by (induction roles arbitrary: result) simp_all

text \<open>The regret of a pure profile is below a bound exactly when every gain from a deviation is.\<close>

lemma pure_regret_bound:
  assumes "float_laws F num key" "mixed_laws F num key" "accepted_game F G game" "p \<in> set (all_profiles (fg_n_actions G game) (sg_n_roles G game))"
  shows "\<exists>r. regret F G game (pure_strategies F (fg_n_actions G game) p) = Some (Inr r) \<and>
    (\<forall>t. num t \<longrightarrow> (fl_le F r t \<longleftrightarrow> (\<forall>role < sg_n_roles G game. \<forall>a < fg_n_actions G game role.
      key (fl_sub F (nf_payoff G game role (list_update p role a)) (nf_payoff G game role p)) \<le> key t)))"
proof -
  let ?n = "sg_n_roles G game" and ?f = "fg_n_actions G game"
  let ?gain = "\<lambda>role a. fl_sub F (nf_payoff G game role (list_update p role a)) (nf_payoff G game role p)"
  have n: "0 < ?n" and len: "length p = ?n" using assms(3,4) by (simp_all add: accepted_game_def set_all_profiles)
  have "\<forall>role. \<exists>r. role < ?n \<longrightarrow> role_regret F G game (pure_strategies F ?f p) role = Some (Inr r) \<and> num r \<and>
      (\<forall>t. key r \<le> t \<longleftrightarrow> (\<forall>a < ?f role. key (?gain role a) \<le> t))"
    using pure_role_regret [OF assms] by blast
  then obtain r where r: "\<And>role. role < ?n \<Longrightarrow> role_regret F G game (pure_strategies F ?f p) role = Some (Inr (r role))"
      "\<And>role. role < ?n \<Longrightarrow> num (r role)"
      "\<And>role t. role < ?n \<Longrightarrow> key (r role) \<le> t \<longleftrightarrow> (\<forall>a < ?f role. key (?gain role a) \<le> t)"
    unfolding choice_iff by blast
  have cons: "map r [0..<?n] = r 0 # map r [1..<?n]" using n by (simp add: upt_conv_Cons)
  let ?r = "fold (\<lambda>v best. fl_max F best v) (map r [1..<?n]) (r 0)"
  have "regrets F G game (pure_strategies F ?f p) = Some (Inr (map r [0..<?n]))"
    using pure_regret_list [of "[0..<?n]" F G game "pure_strategies F ?f p" r "[]"] r(1) validate_pure [OF len n, of F]
    by (simp add: regrets_def)
  then have run: "regret F G game (pure_strategies F ?f p) = Some (Inr ?r)" unfolding cons by (simp add: regret_def)
  have nums: "num (r 0)" "\<forall>v \<in> set (map r [1..<?n]). num v" using r(2) n by auto
  have "fl_le F ?r t \<longleftrightarrow> (\<forall>v \<in> set (map r [0..<?n]). key v \<le> key t)" if "num t" for t
    unfolding cons using fold_max_le [OF assms(1) nums] that by (simp only: fl_le_key [OF assms(1)])
  with run r(3) show ?thesis by auto
qed

text \<open>
  C26: the two routines for regret agree: the mixed-strategy regret of the profile of pure strategies
  that plays \<open>p\<close> is within the game's tolerance exactly when \<open>pure_nash\<close> lists \<open>p\<close>.
\<close>

theorem mixed_regret_of_pure:
  assumes "float_laws F num key" "mixed_laws F num key" "accepted_game F G game"
    and "length p = sg_n_roles G game" "\<forall>role < sg_n_roles G game. p ! role < fg_n_actions G game role"
  shows "\<exists>tol equilibria r. tolerance F G game = Some (Inr tol) \<and> pure_nash F G game = Some (Inr equilibria) \<and>
    regret F G game (pure_strategies F (fg_n_actions G game) p) = Some (Inr r) \<and>
    (fl_le F r tol \<longleftrightarrow> p \<in> pe_profile ` set equilibria)"
proof -
  let ?n = "sg_n_roles G game" and ?f = "fg_n_actions G game"
  have pos: "\<forall>role < ?n. 0 < ?f role" using assms(3) by (simp add: accepted_game_def)
  have p: "p \<in> set (all_profiles ?f ?n)" using assms(4,5) by (simp add: set_all_profiles less_max_iff_disj)
  obtain info where info: "inspect_game F G game = Some (Inr info)" "num (gi_tolerance info)"
    using inspect_game_accepts [OF assms(1,3)] by auto
  obtain equilibria where eq: "pure_nash F G game = Some (Inr equilibria)"
      "map pe_profile equilibria = filter (no_profitable_deviation F G game (gi_tolerance info)) (all_profiles ?f ?n)"
    using pure_nash_listed [OF assms(1,3) info(1)] by blast
  from pure_regret_bound [OF assms(1-3) p] obtain r where r: "regret F G game (pure_strategies F ?f p) = Some (Inr r)"
    "fl_le F r (gi_tolerance info) \<longleftrightarrow> (\<forall>role < ?n. \<forall>a < ?f role.
      key (fl_sub F (nf_payoff G game role (list_update p role a)) (nf_payoff G game role p)) \<le> key (gi_tolerance info))"
    using info(2) by blast
  have "num (fl_sub F (nf_payoff G game role (list_update p role a)) (nf_payoff G game role p))" if "role < ?n" "a < ?f role" for role a
    using float_lawsD(8) [OF assms(1)] profile_update(1) [OF p that pos] p assms(3) that(1)
    by (auto simp: accepted_game_def)
  with r(2) info(2) have "fl_le F r (gi_tolerance info) \<longleftrightarrow> no_profitable_deviation F G game (gi_tolerance info) p"
    by (simp add: no_profitable_deviation_def fl_le_key [OF assms(1)])
  also have "\<dots> \<longleftrightarrow> p \<in> set (map pe_profile equilibria)" using p by (simp add: eq(2))
  finally show ?thesis using info(1) eq(1) r(1) by (simp add: tolerance_def)
qed

lemma int_solve_mixed: "mixed_laws int_solve (\<lambda>_. True) real_of_int"
proof -
  have prod: "prod_list xs = (if 0 \<in> set xs then 0 else 1)" if "set xs \<subseteq> {0, 1}" for xs :: "int list"
    using that by (induction xs) auto
  have sum: "sum_list xs = xs ! i" if "i < length xs" "\<forall>j < length xs. j \<noteq> i \<longrightarrow> xs ! j = 0" for xs :: "int list" and i
    using that by (simp add: sum_list_sum_nth sum.remove [of _ i])
  show ?thesis
    unfolding mixed_laws_def
    by (intro conjI allI impI) (simp_all add: int_solve_def prod sum)
qed

theorem mixed_regret_of_pure_witness:
  "\<exists>tol r. tolerance int_solve prisoners () = Some (Inr tol) \<and>
     regret int_solve prisoners () (pure_strategies int_solve (fg_n_actions prisoners ()) [1, 1]) = Some (Inr r)"
proof -
  have "\<forall>role < sg_n_roles prisoners (). [1, 1] ! role < fg_n_actions prisoners () role"
    by (simp add: prisoners_sizes less_2_cases_iff)
  from mixed_regret_of_pure [OF int_solve_laws int_solve_mixed prisoners_accepted _ this] show ?thesis
    by (auto simp: prisoners_sizes)
qed

end
