(* ===== verification/Views.thy ===== *)
theory Views
  imports Play
begin

section \<open>What a rule is shown (crates/socsim-games/src/view.rs)\<close>

text \<open>
  The contexts handed to a decision rule and to its learning callbacks, and their accessors. A
  borrowed field of the Rust context is the value it borrows; an accessor that answers only for the
  current opponents tests that here too. \<open>view\<close> applies the experiment's \<open>view_for\<close>, a parameter.
\<close>

datatype decision_unit = UnitStep | UnitAgentRole nat | UnitEncounter encounter_id

record ('g, 'a, 'f, 'x) decision_context =
  dc_t :: u64
  dc_me :: agent_id
  dc_unit :: decision_unit
  dc_role :: "nat option"
  dc_encounter :: "encounter_ref option"
  dc_opponents :: "agent_id list"
  dc_ids :: "agent_id list"
  dc_game :: 'g
  dc_held :: "'a list"
  dc_history :: "('a, 'f) step_history"
  dc_pair_history :: "'a pair_history option"
  dc_aggregate :: "'f aggregate_table option"
  dc_x :: 'x

definition dc_scope :: "('g, 'a, 'f, 'x) decision_context \<Rightarrow> decision_scope" where
  "dc_scope ctx = (case dc_unit ctx of
     UnitStep \<Rightarrow> PerStep | UnitAgentRole _ \<Rightarrow> PerAgentRole | UnitEncounter _ \<Rightarrow> PerEncounter)"

text \<open>\<open>expect\<close> panics on \<open>None\<close>: the model returns the option itself.\<close>

definition dc_my_history :: "('g, 'a, 'f, 'x) decision_context \<Rightarrow> ('a, 'f) step_record history_view option" where
  "dc_my_history ctx = history_view (dc_me ctx) (dc_history ctx)"

definition dc_opponent_history ::
    "('g, 'a, 'f, 'x) decision_context \<Rightarrow> agent_id \<Rightarrow> ('a, 'f) step_record history_view option" where
  "dc_opponent_history ctx opponent =
     (if opponent \<in> set (dc_opponents ctx) then history_view opponent (dc_history ctx) else None)"

definition dc_my_held :: "('g, 'a, 'f, 'x) decision_context \<Rightarrow> 'a option" where
  "dc_my_held ctx = get_opt (dc_held ctx) (agent_no (dc_me ctx))"

definition dc_peer_held :: "('g, 'a, 'f, 'x) decision_context \<Rightarrow> agent_id \<Rightarrow> 'a option" where
  "dc_peer_held ctx peer =
     (if peer \<in> set (dc_opponents ctx) then get_opt (dc_held ctx) (agent_no peer) else None)"

definition dc_pair_view :: "('g, 'a, 'f, 'x) decision_context \<Rightarrow> agent_id \<Rightarrow> 'a pair_view option" where
  "dc_pair_view ctx other =
     (if other \<in> set (dc_opponents ctx)
      then map_option (\<lambda>history. pair_view (dc_me ctx) other history) (dc_pair_history ctx) else None)"

text \<open>The public aggregates: a view is the table it reads.\<close>

definition av_names :: "'f aggregate_table \<Rightarrow> string list" where
  "av_names tab = at_names tab"

definition av_len :: "'f aggregate_table \<Rightarrow> nat" where
  "av_len tab = at_filled tab"

definition av_column :: "'f aggregate_table \<Rightarrow> string \<Rightarrow> 'f option list option" where
  "av_column tab name =
     map_option (\<lambda>index. map (\<lambda>row. ar_values row ! index) (aggregate_iter tab))
       (find (\<lambda>i. at_names tab ! i = name) [0..<length (at_names tab)])"

record ('g, 'a, 'f, 'x) learn_context =
  lc_t :: u64
  lc_me :: agent_id
  lc_scope :: decision_scope
  lc_record :: "('a, 'f) step_record"
  lc_ids :: "agent_id list"
  lc_game :: 'g
  lc_held :: "'a list"
  lc_history :: "('a, 'f) step_history"
  lc_plays :: "('a, 'f) play_arena"
  lc_x :: 'x

record ('a, 'f) encounter_outcome =
  eo_id :: encounter_id
  eo_role :: nat
  eo_seats :: "agent_id list"
  eo_actions :: "'a option list"
  eo_payoffs :: "'f list"
  eo_credit :: credit

definition lc_my_history :: "('g, 'a, 'f, 'x) learn_context \<Rightarrow> ('a, 'f) step_record history_view option" where
  "lc_my_history ctx = history_view (lc_me ctx) (lc_history ctx)"

definition outcome_of :: "('a, 'f) play_arena \<Rightarrow> agent_id \<Rightarrow> nat \<Rightarrow> ('a, 'f) encounter_outcome option" where
  "outcome_of plays me i =
     (let n = pa_n_roles plays; seats = row_of n i (pa_seats plays)
      in map_option (\<lambda>role.
           \<lparr>eo_id = EncounterId (i mod 2 ^ 32), eo_role = role, eo_seats = seats,
            eo_actions = row_of n i (pa_actions plays), eo_payoffs = row_of n i (pa_payoffs plays),
            eo_credit = pa_credit plays ! i\<rparr>)
         (find (\<lambda>role. seats ! role = me) [0..<length seats]))"

definition lc_outcomes :: "('g, 'a, 'f, 'x) learn_context \<Rightarrow> ('a, 'f) encounter_outcome list" where
  "lc_outcomes ctx = List.map_filter (outcome_of (lc_plays ctx) (lc_me ctx)) [0..<n_encounters (lc_plays ctx)]"

text \<open>The unrestricted view: the world's fields, and no filter by opponents.\<close>

record ('a, 'f, 'x) omniscient_context =
  oc_ids :: "agent_id list"
  oc_held :: "'a list"
  oc_history :: "('a, 'f) step_history"
  oc_pair_history :: "'a pair_history option"
  oc_x :: 'x

definition dc_omniscient :: "('g, 'a, 'f, 'x) decision_context \<Rightarrow> ('a, 'f, 'x) omniscient_context" where
  "dc_omniscient ctx =
     \<lparr>oc_ids = dc_ids ctx, oc_held = dc_held ctx, oc_history = dc_history ctx,
      oc_pair_history = dc_pair_history ctx, oc_x = dc_x ctx\<rparr>"

definition lc_omniscient :: "('g, 'a, 'f, 'x) learn_context \<Rightarrow> ('a, 'f, 'x) omniscient_context" where
  "lc_omniscient ctx =
     \<lparr>oc_ids = lc_ids ctx, oc_held = lc_held ctx, oc_history = lc_history ctx,
      oc_pair_history = None, oc_x = lc_x ctx\<rparr>"

definition oc_agent_held :: "('a, 'f, 'x) omniscient_context \<Rightarrow> agent_id \<Rightarrow> 'a option" where
  "oc_agent_held ctx agent = get_opt (oc_held ctx) (agent_no agent)"

definition oc_agent_history ::
    "('a, 'f, 'x) omniscient_context \<Rightarrow> agent_id \<Rightarrow> ('a, 'f) step_record history_view option" where
  "oc_agent_history ctx agent = history_view agent (oc_history ctx)"

definition oc_pair_view :: "('a, 'f, 'x) omniscient_context \<Rightarrow> agent_id \<Rightarrow> agent_id \<Rightarrow> 'a pair_view option" where
  "oc_pair_view ctx a b =
     (if a \<in> set (oc_ids ctx) \<and> b \<in> set (oc_ids ctx)
      then map_option (pair_view a b) (oc_pair_history ctx) else None)"

lemma outcome_of_Some:
  assumes "outcome_of plays me i = Some o'"
  shows "eo_role o' < length (eo_seats o') \<and> eo_seats o' ! eo_role o' = me \<and>
    eo_seats o' = row_of (pa_n_roles plays) i (pa_seats plays) \<and>
    eo_actions o' = row_of (pa_n_roles plays) i (pa_actions plays) \<and>
    eo_payoffs o' = row_of (pa_n_roles plays) i (pa_payoffs plays)"
  using assms by (auto simp: outcome_of_def Let_def find_Some_iff)

end
