(* ===== verification/Rules.thy ===== *)
theory Rules
  imports Views Mixed
begin

section \<open>Decision rules (crates/socsim-games/src/rule, src/world/state.rs)\<close>

text \<open>
  The trait of decision rules, the built-in policy states with their slots, and the rules: fixed,
  random, tit for tat, mixed, myopic best response, fictitious play, logit choice, Roth-Erev and
  automata. A rule mutates its policy state and the generator also when it fails, so \<open>decide\<close> returns
  both beside the result.
\<close>

datatype rule_error =
    MissingSlot string
  | UnknownKind string
  | DuplicateKind string
  | RuleInvalidAction string
  | Unsupported string
  | Backend string
  | AmbiguousRole nat
  | NonFiniteGradient nat
  | RuleBestResponse string

definition show_rule_error :: "rule_error \<Rightarrow> string" where
  "show_rule_error e =
     (case e of
        MissingSlot s \<Rightarrow> ''policy state does not contain slot '' @ s
      | UnknownKind s \<Rightarrow> ''unknown rule kind '' @ s
      | DuplicateKind s \<Rightarrow> ''duplicate rule kind: '' @ s
      | RuleInvalidAction s \<Rightarrow> ''rule returned an invalid action: '' @ s
      | Unsupported s \<Rightarrow> ''rule cannot be used with this game: '' @ s
      | Backend s \<Rightarrow> ''LLM backend error: '' @ s
      | AmbiguousRole agent \<Rightarrow> ''agent '' @ show_nat agent @ '' holds more than one role in a per-step decision''
      | NonFiniteGradient d \<Rightarrow> ''component '' @ show_nat d @ '' of the payoff gradient is not finite''
      | RuleBestResponse s \<Rightarrow> ''best response unavailable: '' @ s)"

definition show_action_error :: "action_error \<Rightarrow> string" where
  "show_action_error e =
     (case e of
        InvalidRole role \<Rightarrow> ''role '' @ show_nat role @ '' is out of range''
      | InvalidAction role action \<Rightarrow> ''action '' @ show_nat action @ '' is invalid for role '' @ show_nat role
      | DimensionMismatch role expected actual \<Rightarrow>
          ''action for role '' @ show_nat role @ '' has '' @ show_nat actual @ '' components, expected '' @ show_nat expected
      | NonFiniteComponent role d \<Rightarrow>
          ''component '' @ show_nat d @ '' of the action for role '' @ show_nat role @ '' is not finite''
      | OutOfBounds role d \<Rightarrow>
          ''component '' @ show_nat d @ '' of the action for role '' @ show_nat role @ '' is outside its bounds'')"

record rule_init_context =
  ri_agent :: agent_id
  ri_kind :: rule_kind_id
  ri_generation :: nat
  ri_seed :: u64

record ('g, 'a, 'f, 's, 'x, 'r) decision_rule =
  dr_name :: string
  dr_init_state :: "rule_init_context \<Rightarrow> 'g \<Rightarrow> rule_error + 's"
  dr_decide :: "'s \<Rightarrow> ('g, 'a, 'f, 'x) decision_context \<Rightarrow> 'r \<Rightarrow> (rule_error + 'a) \<times> 's \<times> 'r"
  dr_learn_step :: "'s \<Rightarrow> ('g, 'a, 'f, 'x) learn_context \<Rightarrow> (rule_error + unit) \<times> 's"
  dr_learn_encounter :: "'s \<Rightarrow> ('a, 'f) encounter_outcome \<Rightarrow> ('g, 'a, 'f, 'x) learn_context \<Rightarrow> (rule_error + unit) \<times> 's"
  dr_needs_encounter_learning :: bool
  dr_needs_pair_history :: bool
  dr_mixed :: "'s \<Rightarrow> nat \<Rightarrow> 'g \<Rightarrow> 'f list option"

text \<open>The default callbacks.\<close>

definition no_learn_step :: "'s \<Rightarrow> ('g, 'a, 'f, 'x) learn_context \<Rightarrow> (rule_error + unit) \<times> 's" where
  "no_learn_step st ctx = (Inr (), st)"

definition no_learn_encounter ::
    "'s \<Rightarrow> ('a, 'f) encounter_outcome \<Rightarrow> ('g, 'a, 'f, 'x) learn_context \<Rightarrow> (rule_error + unit) \<times> 's" where
  "no_learn_encounter st outcome ctx = (Inr (), st)"

definition pure_strategy :: "('f, 'z) calc_ops_scheme \<Rightarrow> nat \<Rightarrow> nat \<Rightarrow> 'f list option" where
  "pure_strategy F n_actions action =
     (if action \<ge> n_actions then None else Some (list_update (replicate n_actions (fl_zero F)) action (fl_one F)))"

subsection \<open>Policy states and their slots\<close>

text \<open>\<open>slot_mut\<close> is a lens: \<open>sl_put\<close> writes through the reference \<open>slot_mut\<close> would return.\<close>

record ('t, 's) slot_ops =
  sl_slot :: "'s \<Rightarrow> 't option"
  sl_put :: "'t \<Rightarrow> 's \<Rightarrow> 's"
  sl_from :: "'t \<Rightarrow> 's"

datatype stateless = Stateless

record tft_state =
  tft_last_opponent :: "nat option"

record 'f continuous_state =
  cs_last :: "'f list option"

record 't opponent_state =
  os_global :: 't
  os_by_opponent :: "(agent_id \<times> 't) list"

definition opponent_state_new :: "'t \<Rightarrow> 't opponent_state" where
  "opponent_state_new global = \<lparr>os_global = global, os_by_opponent = []\<rparr>"

datatype 'f builtin_policy_state =
    BpStateless stateless
  | BpTitForTat tft_state
  | BpBelief "'f fictitious_belief opponent_state"
  | BpPropensity "'f roth_erev_state opponent_state"
  | BpEstimate "'f logit_state opponent_state"
  | BpAutomaton "'f automaton_state opponent_state"
  | BpContinuous "'f continuous_state"

definition stateless_slot :: "(stateless, 'f builtin_policy_state) slot_ops" where
  "stateless_slot =
     \<lparr>sl_slot = (\<lambda>s. case s of BpStateless v \<Rightarrow> Some v | _ \<Rightarrow> None),
      sl_put = (\<lambda>v s. case s of BpStateless _ \<Rightarrow> BpStateless v | _ \<Rightarrow> s), sl_from = BpStateless\<rparr>"

definition tft_slot :: "(tft_state, 'f builtin_policy_state) slot_ops" where
  "tft_slot =
     \<lparr>sl_slot = (\<lambda>s. case s of BpTitForTat v \<Rightarrow> Some v | _ \<Rightarrow> None),
      sl_put = (\<lambda>v s. case s of BpTitForTat _ \<Rightarrow> BpTitForTat v | _ \<Rightarrow> s), sl_from = BpTitForTat\<rparr>"

definition belief_slot :: "('f fictitious_belief opponent_state, 'f builtin_policy_state) slot_ops" where
  "belief_slot =
     \<lparr>sl_slot = (\<lambda>s. case s of BpBelief v \<Rightarrow> Some v | _ \<Rightarrow> None),
      sl_put = (\<lambda>v s. case s of BpBelief _ \<Rightarrow> BpBelief v | _ \<Rightarrow> s), sl_from = BpBelief\<rparr>"

definition propensity_slot :: "('f roth_erev_state opponent_state, 'f builtin_policy_state) slot_ops" where
  "propensity_slot =
     \<lparr>sl_slot = (\<lambda>s. case s of BpPropensity v \<Rightarrow> Some v | _ \<Rightarrow> None),
      sl_put = (\<lambda>v s. case s of BpPropensity _ \<Rightarrow> BpPropensity v | _ \<Rightarrow> s), sl_from = BpPropensity\<rparr>"

definition estimate_slot :: "('f logit_state opponent_state, 'f builtin_policy_state) slot_ops" where
  "estimate_slot =
     \<lparr>sl_slot = (\<lambda>s. case s of BpEstimate v \<Rightarrow> Some v | _ \<Rightarrow> None),
      sl_put = (\<lambda>v s. case s of BpEstimate _ \<Rightarrow> BpEstimate v | _ \<Rightarrow> s), sl_from = BpEstimate\<rparr>"

definition automaton_slot :: "('f automaton_state opponent_state, 'f builtin_policy_state) slot_ops" where
  "automaton_slot =
     \<lparr>sl_slot = (\<lambda>s. case s of BpAutomaton v \<Rightarrow> Some v | _ \<Rightarrow> None),
      sl_put = (\<lambda>v s. case s of BpAutomaton _ \<Rightarrow> BpAutomaton v | _ \<Rightarrow> s), sl_from = BpAutomaton\<rparr>"

definition continuous_slot :: "('f continuous_state, 'f builtin_policy_state) slot_ops" where
  "continuous_slot =
     \<lparr>sl_slot = (\<lambda>s. case s of BpContinuous v \<Rightarrow> Some v | _ \<Rightarrow> None),
      sl_put = (\<lambda>v s. case s of BpContinuous _ \<Rightarrow> BpContinuous v | _ \<Rightarrow> s), sl_from = BpContinuous\<rparr>"

text \<open>The contract the trait \<open>Slot\<close> documents, and that every built-in slot keeps.\<close>

locale slot_contract =
  fixes slot :: "'s \<Rightarrow> 't option" and put :: "'t \<Rightarrow> 's \<Rightarrow> 's" and wrap_state :: "'t \<Rightarrow> 's"
  assumes slot_wrap: "slot (wrap_state v) = Some v"
    and slot_put: "slot s \<noteq> None \<Longrightarrow> slot (put v s) = Some v"
    and put_slot: "slot s = Some v \<Longrightarrow> put v s = s"
    and put_put: "put v (put u s) = put v s"
begin

lemma put_wrap: "put v (wrap_state u) = put v (put w (wrap_state u))"
  by (simp add: put_put)

lemma slot_put_wrap [simp]: "slot (put v (wrap_state u)) = Some v"
  by (simp add: slot_put slot_wrap)

end

interpretation stateless: slot_contract "sl_slot stateless_slot" "sl_put stateless_slot" "sl_from stateless_slot"
  by unfold_locales (auto simp: stateless_slot_def split: builtin_policy_state.splits)

interpretation tft: slot_contract "sl_slot tft_slot" "sl_put tft_slot" "sl_from tft_slot"
  by unfold_locales (auto simp: tft_slot_def split: builtin_policy_state.splits)

interpretation belief: slot_contract "sl_slot belief_slot" "sl_put belief_slot" "sl_from belief_slot"
  by unfold_locales (auto simp: belief_slot_def split: builtin_policy_state.splits)

interpretation propensity: slot_contract "sl_slot propensity_slot" "sl_put propensity_slot" "sl_from propensity_slot"
  by unfold_locales (auto simp: propensity_slot_def split: builtin_policy_state.splits)

interpretation estimate: slot_contract "sl_slot estimate_slot" "sl_put estimate_slot" "sl_from estimate_slot"
  by unfold_locales (auto simp: estimate_slot_def split: builtin_policy_state.splits)

interpretation automaton: slot_contract "sl_slot automaton_slot" "sl_put automaton_slot" "sl_from automaton_slot"
  by unfold_locales (auto simp: automaton_slot_def split: builtin_policy_state.splits)

interpretation continuous: slot_contract "sl_slot continuous_slot" "sl_put continuous_slot" "sl_from continuous_slot"
  by unfold_locales (auto simp: continuous_slot_def split: builtin_policy_state.splits)

subsection \<open>The built-in rules (src/rule/builtin.rs)\<close>

definition fixed_init ::
    "('g, 'a, 'y) stage_game_scheme \<Rightarrow> (stateless, 's) slot_ops \<Rightarrow> 'a \<Rightarrow> rule_init_context \<Rightarrow> 'g \<Rightarrow> rule_error + 's" where
  "fixed_init G S action ctx game =
     try_bind (try_fold (\<lambda>_ role. map_err (\<lambda>e. RuleInvalidAction (show_action_error e)) (sg_check_action G game role action))
         () [0..<sg_n_roles G game])
       (\<lambda>_. Inr (sl_from S Stateless))"

definition with_stateless ::
    "(stateless, 's) slot_ops \<Rightarrow> 's \<Rightarrow> ((rule_error + 'a) \<times> 'r) \<Rightarrow> 'r \<Rightarrow> (rule_error + 'a) \<times> 's \<times> 'r" where
  "with_stateless S st outcome rng =
     (case sl_slot S st of
        None \<Rightarrow> (Inl (MissingSlot ''Stateless''), st, rng)
      | Some _ \<Rightarrow> (fst outcome, st, snd outcome))"

definition fixed_rule ::
    "('g, 'a, 'y) stage_game_scheme \<Rightarrow> (stateless, 's) slot_ops \<Rightarrow> 'a \<Rightarrow> ('g, 'a, 'f, 's, 'x, 'r) decision_rule" where
  "fixed_rule G S action =
     \<lparr>dr_name = ''fixed'', dr_init_state = fixed_init G S action,
      dr_decide = (\<lambda>st ctx rng. with_stateless S st (Inr action, rng) rng),
      dr_learn_step = no_learn_step, dr_learn_encounter = no_learn_encounter,
      dr_needs_encounter_learning = False, dr_needs_pair_history = False, dr_mixed = (\<lambda>_ _ _. None)\<rparr>"

definition uniform_decide ::
    "('g, 'f, 'y) finite_game_scheme \<Rightarrow> ('f, 'r) draw_ops \<Rightarrow> ('g, nat, 'f, 'x) decision_context \<Rightarrow> 'r \<Rightarrow> (rule_error + nat) \<times> 'r" where
  "uniform_decide G R ctx rng =
     (case dc_role ctx of
        None \<Rightarrow> (Inl (Unsupported ''UniformRandom requires an assigned role''), rng)
      | Some role \<Rightarrow>
          let n_actions = fg_n_actions G (dc_game ctx) role
          in if n_actions = 0 then (Inl (Unsupported (''role '' @ show_nat role @ '' has no available actions'')), rng)
             else let (action, rng) = dr_range R n_actions rng in (Inr action, rng))"

definition uniform_mixed ::
    "('f, 'z) calc_ops_scheme \<Rightarrow> ('g, 'f, 'y) finite_game_scheme \<Rightarrow> (stateless, 's) slot_ops \<Rightarrow> 's \<Rightarrow> nat \<Rightarrow> 'g \<Rightarrow> 'f list option" where
  "uniform_mixed F G S st role game =
     Option.bind (sl_slot S st) (\<lambda>_.
       let n_actions = fg_n_actions G game role
       in if role \<ge> sg_n_roles G game \<or> n_actions = 0 then None
          else Some (replicate n_actions (fl_div F (fl_one F) (fl_of_nat F n_actions))))"

definition uniform_rule ::
    "('f, 'z) calc_ops_scheme \<Rightarrow> ('g, 'f, 'y) finite_game_scheme \<Rightarrow> ('f, 'r) draw_ops \<Rightarrow> (stateless, 's) slot_ops \<Rightarrow>
     ('g, nat, 'f, 's, 'x, 'r) decision_rule" where
  "uniform_rule F G R S =
     \<lparr>dr_name = ''uniform_random'', dr_init_state = (\<lambda>_ _. Inr (sl_from S Stateless)),
      dr_decide = (\<lambda>st ctx rng. with_stateless S st (uniform_decide G R ctx rng) rng),
      dr_learn_step = no_learn_step, dr_learn_encounter = no_learn_encounter,
      dr_needs_encounter_learning = False, dr_needs_pair_history = False, dr_mixed = uniform_mixed F G S\<rparr>"

definition tft_init ::
    "('g, 'f, 'y) finite_game_scheme \<Rightarrow> (tft_state, 's) slot_ops \<Rightarrow> nat \<Rightarrow> rule_init_context \<Rightarrow> 'g \<Rightarrow> rule_error + 's" where
  "tft_init G S cooperate ctx game =
     (let n_roles = sg_n_roles G game
      in if n_roles \<noteq> 2 then Inl (Unsupported (''TitForTat requires exactly two roles, got '' @ show_nat n_roles))
         else try_bind (try_fold (\<lambda>_ role.
             let n_actions = fg_n_actions G game role
             in if n_actions \<noteq> 2
                then Inl (Unsupported (''TitForTat requires two actions for role '' @ show_nat role @ '', got '' @ show_nat n_actions))
                else if isl (sg_check_action G game role cooperate)
                then Inl (Unsupported (''TitForTat cooperation action '' @ show_nat cooperate @ '' is invalid for role '' @ show_nat role))
                else Inr ()) () [0..<n_roles])
           (\<lambda>_. Inr (sl_from S \<lparr>tft_last_opponent = None\<rparr>)))"

definition tft_decide ::
    "(tft_state, 's) slot_ops \<Rightarrow> nat \<Rightarrow> 's \<Rightarrow> ('g, nat, 'f, 'x) decision_context \<Rightarrow> 'r \<Rightarrow> (rule_error + nat) \<times> 's \<times> 'r" where
  "tft_decide S cooperate st ctx rng =
     (case sl_slot S st of
        None \<Rightarrow> (Inl (MissingSlot ''TftState''), st, rng)
      | Some tft \<Rightarrow> (Inr (case tft_last_opponent tft of Some action \<Rightarrow> action | None \<Rightarrow> cooperate), st, rng))"

text \<open>A loop whose body may fail and keeps the state it has reached.\<close>

fun try_each :: "('x \<Rightarrow> 's \<Rightarrow> ('e + unit) \<times> 's) \<Rightarrow> 'x list \<Rightarrow> 's \<Rightarrow> ('e + unit) \<times> 's" where
  "try_each body [] s = (Inr (), s)"
| "try_each body (x # xs) s =
     (case body x s of (Inl e, s') \<Rightarrow> (Inl e, s') | (Inr _, s') \<Rightarrow> try_each body xs s')"

definition tft_observe :: "(nat, 'f) encounter_outcome \<Rightarrow> tft_state \<Rightarrow> (rule_error + unit) \<times> tft_state" where
  "tft_observe outcome tft =
     (if eo_role outcome > 1
      then (Inl (Unsupported (''TitForTat requires a two-role encounter, got role '' @ show_nat (eo_role outcome))), tft)
      else case Option.bind (get_opt (eo_actions outcome) (1 - eo_role outcome)) (\<lambda>a. a) of
             None \<Rightarrow> (Inl (RuleInvalidAction ''TitForTat observed an unfilled opponent action''), tft)
           | Some action \<Rightarrow> (Inr (), tft\<lparr>tft_last_opponent := Some action\<rparr>))"

definition tft_learn_step ::
    "(tft_state, 's) slot_ops \<Rightarrow> 's \<Rightarrow> ('g, nat, 'f, 'x) learn_context \<Rightarrow> (rule_error + unit) \<times> 's" where
  "tft_learn_step S st ctx =
     (case sl_slot S st of
        None \<Rightarrow> (Inl (MissingSlot ''TftState''), st)
      | Some tft \<Rightarrow> (let (r, tft') = try_each tft_observe (lc_outcomes ctx) tft in (r, sl_put S tft' st)))"

definition tft_mixed ::
    "('f, 'z) calc_ops_scheme \<Rightarrow> ('g, 'f, 'y) finite_game_scheme \<Rightarrow> (tft_state, 's) slot_ops \<Rightarrow> nat \<Rightarrow> 's \<Rightarrow> nat \<Rightarrow> 'g \<Rightarrow> 'f list option" where
  "tft_mixed F G S cooperate st role game =
     Option.bind (sl_slot S st) (\<lambda>tft.
       if role \<ge> sg_n_roles G game then None
       else pure_strategy F (fg_n_actions G game role)
         (case tft_last_opponent tft of Some action \<Rightarrow> action | None \<Rightarrow> cooperate))"

definition tft_rule ::
    "('f, 'z) calc_ops_scheme \<Rightarrow> ('g, 'f, 'y) finite_game_scheme \<Rightarrow> (tft_state, 's) slot_ops \<Rightarrow> nat \<Rightarrow>
     ('g, nat, 'f, 's, 'x, 'r) decision_rule" where
  "tft_rule F G S cooperate =
     \<lparr>dr_name = ''tit_for_tat'', dr_init_state = tft_init G S cooperate, dr_decide = tft_decide S cooperate,
      dr_learn_step = tft_learn_step S, dr_learn_encounter = no_learn_encounter,
      dr_needs_encounter_learning = False, dr_needs_pair_history = False, dr_mixed = tft_mixed F G S cooperate\<rparr>"

end
