(* ===== verification/Learning_Rules.thy ===== *)
theory Learning_Rules
  imports Rules
begin

section \<open>Learning rules (crates/socsim-games/src/rule/learning.rs)\<close>

text \<open>
  The rules that wrap the learning primitives. Four of them keep one learned state for the step and
  role scopes and one per opponent for the encounter scope; their callbacks are the same code over a
  different primitive, and \<open>keyed_decide\<close>, \<open>keyed_learn_step\<close> and \<open>keyed_learn_encounter\<close> are that code.
\<close>

record 'f rule_ops = "'f mixed_ops" +
  fl_show :: "'f \<Rightarrow> string"
  fl_prob_tol :: 'f

definition show_nats :: "nat list \<Rightarrow> string" where
  "show_nats xs = ''['' @ concat (List.map_filter (\<lambda>(i, x). Some ((if i = 0 then '''' else '', '') @ show_nat x))
     (List.enumerate 0 xs)) @ '']''"

definition show_learn_error :: "('f \<Rightarrow> string) \<Rightarrow> 'f learn_error \<Rightarrow> string" where
  "show_learn_error sh e =
     (case e of
        LearnUnsupportedRoleCount expected actual \<Rightarrow>
          ''learning rule requires '' @ show_nat expected @ '' roles, but the game has '' @ show_nat actual
      | LearnInvalidRole role n_roles \<Rightarrow>
          ''role '' @ show_nat role @ '' is out of range for a game with '' @ show_nat n_roles @ '' roles''
      | LearnInvalidActionCount role expected actual \<Rightarrow>
          ''role '' @ show_nat role @ '' must have '' @ show_nat expected @ '' actions, but has '' @ show_nat actual
      | LearnLengthMismatch what expected actual \<Rightarrow>
          what @ '' has length '' @ show_nat actual @ '', expected '' @ show_nat expected
      | LearnInvalidInitialCount index x \<Rightarrow>
          ''initial count at index '' @ show_nat index @ '' must be finite and non-negative, got '' @ sh x
      | LearnInvalidParameter parameter x \<Rightarrow> ''parameter '' @ parameter @ '' has invalid value '' @ sh x
      | LearnNonPositivePayoff role profile x \<Rightarrow>
          ''game payoff must be strictly positive at role '' @ show_nat role @ '', profile '' @ show_nats profile @ ''; got '' @ sh x
      | LearnInvalidRealizedPayoff x \<Rightarrow> ''realized payoff must be finite and strictly positive, got '' @ sh x
      | LearnInvalidAction action n_actions \<Rightarrow>
          ''action '' @ show_nat action @ '' is out of range for '' @ show_nat n_actions @ '' actions''
      | LearnInvalidCooperationAction coop \<Rightarrow> ''cooperation action must be 0 or 1, got '' @ show_nat coop
      | LearnInvalidProbability index x \<Rightarrow>
          ''probability at index '' @ show_nat index @ '' must be finite and non-negative, got '' @ sh x
      | LearnEmptyProbabilityMass \<Rightarrow> ''probability vector is empty or has no positive mass''
      | LearnCountOverflow \<Rightarrow> ''a learned count overflowed''
      | LearnNonFiniteCalculation \<Rightarrow> ''a payoff calculation produced a non-finite value'')"

definition unsupported :: "('f, 'z) rule_ops_scheme \<Rightarrow> 'f learn_error \<Rightarrow> rule_error" where
  "unsupported F e = Unsupported (show_learn_error (fl_show F) e)"

definition assigned_role :: "('g, 'a, 'f, 'x) decision_context \<Rightarrow> string \<Rightarrow> rule_error + nat" where
  "assigned_role ctx rule = ok_or (Unsupported (rule @ '' requires an assigned role'')) (dc_role ctx)"

text \<open>The entry of the opponent and the entries with it: inserted, in key order, when it was missing.\<close>

definition get_or_try_insert ::
    "(agent_id \<times> 't) list \<Rightarrow> agent_id \<Rightarrow> (unit \<Rightarrow> 'e + 't) \<Rightarrow> 'e + (agent_id \<times> 't) list \<times> nat" where
  "get_or_try_insert entries opponent init =
     (case binary_search (map fst entries) opponent of
        Inr index \<Rightarrow> Inr (entries, index)
      | Inl index \<Rightarrow> try_bind (init ()) (\<lambda>x. Inr (list_insert index (opponent, x) entries, index)))"

definition decision_opponent :: "('g, 'a, 'f, 'x) decision_context \<Rightarrow> string \<Rightarrow> rule_error + agent_id" where
  "decision_opponent ctx rule =
     (case dc_opponents ctx of
        [] \<Rightarrow> Inl (Unsupported (rule @ '' requires an opponent'')) | opponent # _ \<Rightarrow> Inr opponent)"

definition outcome_opponent :: "('a, 'f) encounter_outcome \<Rightarrow> string \<Rightarrow> rule_error + nat \<times> agent_id" where
  "outcome_opponent outcome rule =
     ok_or (Unsupported (rule @ '' requires an opponent''))
       (find (\<lambda>(role, _). role \<noteq> eo_role outcome) (List.enumerate 0 (eo_seats outcome)))"

definition outcome_action :: "(nat, 'f) encounter_outcome \<Rightarrow> nat \<Rightarrow> rule_error + nat" where
  "outcome_action outcome role =
     ok_or (RuleInvalidAction (''encounter role '' @ show_nat role @ '' has no realized action''))
       (Option.bind (get_opt (eo_actions outcome) role) (\<lambda>a. a))"

subsection \<open>A fixed mixed strategy\<close>

definition mixed_init ::
    "('f, 'z) rule_ops_scheme \<Rightarrow> ('g, 'f, 'y) finite_game_scheme \<Rightarrow> (stateless, 's) slot_ops \<Rightarrow> 'f list \<Rightarrow>
     rule_init_context \<Rightarrow> 'g \<Rightarrow> rule_error + 's" where
  "mixed_init F G S probabilities ctx game =
     (case find (\<lambda>(_, x). \<not> fl_finite F x \<or> fl_less F x (fl_zero F)) (List.enumerate 0 probabilities) of
        Some (index, x) \<Rightarrow> Inl (unsupported F (LearnInvalidProbability index x))
      | None \<Rightarrow>
          let tot = fl_sum F probabilities
          in if \<not> fl_finite F tot \<or> fl_less F (fl_prob_tol F) (fl_abs F (fl_sub F tot (fl_one F)))
             then Inl (Unsupported (''mixed probabilities must sum to one within '' @ fl_show F (fl_prob_tol F) @ '', got '' @ fl_show F tot))
             else case find (\<lambda>role. length probabilities \<noteq> fg_n_actions G game role) [0..<sg_n_roles G game] of
                    Some role \<Rightarrow> Inl (unsupported F (LearnLengthMismatch ''mixed probabilities'' (fg_n_actions G game role)
                      (length probabilities)))
                  | None \<Rightarrow> Inr (sl_from S Stateless))"

definition mixed_decide ::
    "('f, 'z) rule_ops_scheme \<Rightarrow> ('f, 'r) draw_ops \<Rightarrow> 'f list \<Rightarrow> 'r \<Rightarrow> (rule_error + nat) \<times> 'r" where
  "mixed_decide F R probabilities rng =
     (let (r, rng) = sample_probabilities F R probabilities rng in (map_err (unsupported F) r, rng))"

definition mixed_report ::
    "('g, 'f, 'y) finite_game_scheme \<Rightarrow> (stateless, 's) slot_ops \<Rightarrow> 'f list \<Rightarrow> 's \<Rightarrow> nat \<Rightarrow> 'g \<Rightarrow> 'f list option" where
  "mixed_report G S probabilities st role game =
     Option.bind (sl_slot S st) (\<lambda>_.
       if role \<ge> sg_n_roles G game \<or> length probabilities \<noteq> fg_n_actions G game role then None else Some probabilities)"

definition mixed_rule ::
    "('f, 'z) rule_ops_scheme \<Rightarrow> ('g, 'f, 'y) finite_game_scheme \<Rightarrow> ('f, 'r) draw_ops \<Rightarrow> (stateless, 's) slot_ops \<Rightarrow>
     'f list \<Rightarrow> ('g, nat, 'f, 's, 'x, 'r) decision_rule" where
  "mixed_rule F G R S q =
     \<lparr>dr_name = ''mixed'', dr_init_state = mixed_init F G S q,
      dr_decide = (\<lambda>st ctx rng. with_stateless S st (mixed_decide F R q rng) rng),
      dr_learn_step = no_learn_step, dr_learn_encounter = no_learn_encounter,
      dr_needs_encounter_learning = False, dr_needs_pair_history = False, dr_mixed = mixed_report G S q\<rparr>"

subsection \<open>Myopic best response\<close>

record myopic =
  my_tie :: tie_break
  my_first :: nat

definition last_action :: "('g, nat, 'f, 'x) decision_context \<Rightarrow> agent_id \<Rightarrow> nat option" where
  "last_action ctx opponent =
     Option.bind (dc_opponent_history ctx opponent) (\<lambda>history. Option.bind (peer_last history) (\<lambda>a. a))"

text \<open>Fills the slots of the other roles in role order; \<open>?\<close> leaves with \<open>None\<close>.\<close>

primrec fill_profile ::
    "('g, nat, 'f, 'x) decision_context \<Rightarrow> nat \<Rightarrow> (nat \<times> agent_id) list \<Rightarrow> nat list \<Rightarrow> nat list option" where
  "fill_profile ctx role [] profile = Some profile"
| "fill_profile ctx role (ro # rest) profile =
     (if fst ro = role then fill_profile ctx role rest profile
      else Option.bind (last_action ctx (snd ro)) (\<lambda>a. fill_profile ctx role rest (list_update profile (fst ro) a)))"

definition previous_step_profile ::
    "('g, 'f, 'y) finite_game_scheme \<Rightarrow> 'g \<Rightarrow> ('g, nat, 'f, 'x) decision_context \<Rightarrow> nat \<Rightarrow> nat list option" where
  "previous_step_profile G game ctx role =
     (let n = sg_n_roles G game; blank = replicate n 0
      in case dc_encounter ctx of
           Some enc \<Rightarrow>
             if length (er_seats enc) \<noteq> n then None
             else fill_profile ctx role (List.enumerate 0 (er_seats enc)) blank
         | None \<Rightarrow>
             if length (dc_opponents ctx) \<noteq> n - 1 then None
             else let others = filter (\<lambda>other_role. other_role \<noteq> role) [0..<n]
                  in if length (dc_opponents ctx) < length others then None
                     else fill_profile ctx role (zip others (dc_opponents ctx)) blank)"

definition pair_opponent_action :: "('g, nat, 'f, 'x) decision_context \<Rightarrow> agent_id \<Rightarrow> nat option" where
  "pair_opponent_action ctx opponent =
     Option.bind (dc_pair_view ctx opponent) (\<lambda>view.
       if pair_view_iter view = [] then None else Some (snd (snd (last (pair_view_iter view)))))"

definition scanned_reply ::
    "('f, 'z) rule_ops_scheme \<Rightarrow> ('f, 'r) draw_ops \<Rightarrow> myopic \<Rightarrow> (nat \<Rightarrow> 'f) \<Rightarrow> nat \<Rightarrow> 'r \<Rightarrow> (rule_error + nat) \<times> 'r" where
  "scanned_reply F R self payoff n_actions rng =
     (case scan_best F payoff n_actions of
        Inl e \<Rightarrow> (Inl (unsupported F e), rng)
      | Inr best \<Rightarrow> let (r, rng) = resolve_tie R best (my_tie self) rng in (map_err (unsupported F) r, rng))"

definition best_response_to_opponent_actions ::
    "('f, 'z) rule_ops_scheme \<Rightarrow> ('f, 'r) draw_ops \<Rightarrow> ('g, 'f, 'y) finite_game_scheme \<Rightarrow> myopic \<Rightarrow> 'g \<Rightarrow> nat \<Rightarrow> nat list \<Rightarrow> 'r \<Rightarrow>
     (rule_error + nat) \<times> 'r" where
  "best_response_to_opponent_actions F R G self game role opponent_actions rng =
     scanned_reply F R self
       (\<lambda>action. fl_sum F (map (\<lambda>opponent_action.
          nf_payoff G game role (if role = 0 then [action, opponent_action] else [opponent_action, action])) opponent_actions))
       (fg_n_actions G game role) rng"

definition myopic_init ::
    "('g, 'f, 'y) finite_game_scheme \<Rightarrow> (stateless, 's) slot_ops \<Rightarrow> myopic \<Rightarrow> rule_init_context \<Rightarrow> 'g \<Rightarrow> rule_error + 's" where
  "myopic_init G S self ctx game =
     (case find (\<lambda>role. my_first self \<ge> fg_n_actions G game role) [0..<sg_n_roles G game] of
        Some role \<Rightarrow> Inl (Unsupported (''initial action '' @ show_nat (my_first self) @ '' is invalid for role '' @ show_nat role))
      | None \<Rightarrow> Inr (sl_from S Stateless))"

definition show_scope :: "decision_scope \<Rightarrow> string" where
  "show_scope scope = (case scope of
     PerStep \<Rightarrow> ''PerStep'' | PerAgentRole \<Rightarrow> ''PerAgentRole'' | PerEncounter \<Rightarrow> ''PerEncounter'')"

definition observed_opponents :: "('g, nat, 'f, 'x) decision_context \<Rightarrow> rule_error + nat list" where
  "observed_opponents ctx =
     (case dc_scope ctx of
        PerEncounter \<Rightarrow>
          (case dc_opponents ctx of
             [opponent] \<Rightarrow> Inr (case pair_opponent_action ctx opponent of Some a \<Rightarrow> [a] | None \<Rightarrow> [])
           | _ \<Rightarrow> Inl (Unsupported ''MyopicBestResponse requires exactly one opponent per encounter''))
      | _ \<Rightarrow> Inr (List.map_filter (pair_opponent_action ctx) (dc_opponents ctx)))"

definition myopic_decide ::
    "('f, 'z) rule_ops_scheme \<Rightarrow> ('f, 'r) draw_ops \<Rightarrow> ('g, 'f, 'y) finite_game_scheme \<Rightarrow> myopic \<Rightarrow>
     ('g, nat, 'f, 'x) decision_context \<Rightarrow> 'r \<Rightarrow> (rule_error + nat) \<times> 'r" where
  "myopic_decide F R G self ctx rng =
     (case assigned_role ctx ''MyopicBestResponse'' of
        Inl e \<Rightarrow> (Inl e, rng)
      | Inr role \<Rightarrow>
          let game = dc_game ctx
          in if dc_scope ctx = PerStep
             then case previous_step_profile G game ctx role of
                    None \<Rightarrow> (Inr (my_first self), rng)
                  | Some profile \<Rightarrow>
                      scanned_reply F R self (\<lambda>action. nf_payoff G game role (list_update profile role action))
                        (fg_n_actions G game role) rng
             else if sg_n_roles G game \<noteq> 2
             then (Inl (Unsupported (''MyopicBestResponse requires exactly two roles for '' @ show_scope (dc_scope ctx) @ '' decisions'')), rng)
             else case observed_opponents ctx of
                    Inl e \<Rightarrow> (Inl e, rng)
                  | Inr opponent_actions \<Rightarrow>
                      if opponent_actions = [] then (Inr (my_first self), rng)
                      else best_response_to_opponent_actions F R G self game role opponent_actions rng)"

definition myopic_rule ::
    "('f, 'z) rule_ops_scheme \<Rightarrow> ('g, 'f, 'y) finite_game_scheme \<Rightarrow> ('f, 'r) draw_ops \<Rightarrow> (stateless, 's) slot_ops \<Rightarrow>
     myopic \<Rightarrow> ('g, nat, 'f, 's, 'x, 'r) decision_rule" where
  "myopic_rule F G R S self =
     \<lparr>dr_name = ''myopic_best_response'', dr_init_state = myopic_init G S self,
      dr_decide = (\<lambda>st ctx rng. with_stateless S st (myopic_decide F R G self ctx rng) rng),
      dr_learn_step = no_learn_step, dr_learn_encounter = no_learn_encounter,
      dr_needs_encounter_learning = False, dr_needs_pair_history = True, dr_mixed = (\<lambda>_ _ _. None)\<rparr>"

subsection \<open>One learned state per opponent\<close>

text \<open>
  \<open>initial\<close> makes a fresh state for a role, \<open>act\<close> chooses an action from a state and \<open>observe\<close> feeds an
  outcome into it. A state handed out by reference is written back through the slot, also on failure.
\<close>

definition keyed_decide ::
    "('t opponent_state, 's) slot_ops \<Rightarrow> string \<Rightarrow> string \<Rightarrow> ('g \<Rightarrow> nat \<Rightarrow> rule_error + 't) \<Rightarrow>
     ('g \<Rightarrow> nat \<Rightarrow> 't \<Rightarrow> 'r \<Rightarrow> (rule_error + nat) \<times> 'r) \<Rightarrow>
     's \<Rightarrow> ('g, nat, 'f, 'x) decision_context \<Rightarrow> 'r \<Rightarrow> (rule_error + nat) \<times> 's \<times> 'r" where
  "keyed_decide S rule slot_name initial act st ctx rng =
     (case assigned_role ctx rule of
        Inl e \<Rightarrow> (Inl e, st, rng)
      | Inr role \<Rightarrow>
          (case sl_slot S st of
             None \<Rightarrow> (Inl (MissingSlot slot_name), st, rng)
           | Some state \<Rightarrow>
               if dc_scope ctx = PerEncounter
               then (case try_bind (decision_opponent ctx rule) (\<lambda>opponent.
                        get_or_try_insert (os_by_opponent state) opponent (\<lambda>_. initial (dc_game ctx) role)) of
                       Inl e \<Rightarrow> (Inl e, st, rng)
                     | Inr (entries, index) \<Rightarrow>
                         (let (r, rng) = act (dc_game ctx) role (snd (entries ! index)) rng
                          in (r, sl_put S (state\<lparr>os_by_opponent := entries\<rparr>) st, rng)))
               else (let (r, rng) = act (dc_game ctx) role (os_global state) rng in (r, st, rng))))"

definition keyed_learn_step ::
    "('t opponent_state, 's) slot_ops \<Rightarrow> string \<Rightarrow> ((nat, 'f) encounter_outcome \<Rightarrow> 't \<Rightarrow> (rule_error + unit) \<times> 't) \<Rightarrow>
     's \<Rightarrow> ('g, nat, 'f, 'x) learn_context \<Rightarrow> (rule_error + unit) \<times> 's" where
  "keyed_learn_step S slot_name observe st ctx =
     (if lc_scope ctx = PerEncounter then (Inr (), st)
      else case sl_slot S st of
             None \<Rightarrow> (Inl (MissingSlot slot_name), st)
           | Some state \<Rightarrow>
               (let (r, global) = try_each observe (lc_outcomes ctx) (os_global state)
                in (r, sl_put S (state\<lparr>os_global := global\<rparr>) st)))"

definition keyed_learn_encounter ::
    "('t opponent_state, 's) slot_ops \<Rightarrow> string \<Rightarrow> string \<Rightarrow> ('g \<Rightarrow> nat \<Rightarrow> rule_error + 't) \<Rightarrow>
     ((nat, 'f) encounter_outcome \<Rightarrow> 't \<Rightarrow> (rule_error + unit) \<times> 't) \<Rightarrow>
     's \<Rightarrow> (nat, 'f) encounter_outcome \<Rightarrow> ('g, nat, 'f, 'x) learn_context \<Rightarrow> (rule_error + unit) \<times> 's" where
  "keyed_learn_encounter S rule slot_name initial observe st outcome ctx =
     (if lc_scope ctx \<noteq> PerEncounter then (Inr (), st)
      else case outcome_opponent outcome rule of
             Inl e \<Rightarrow> (Inl e, st)
           | Inr (_, opponent) \<Rightarrow>
               (case sl_slot S st of
                  None \<Rightarrow> (Inl (MissingSlot slot_name), st)
                | Some state \<Rightarrow>
                    (case get_or_try_insert (os_by_opponent state) opponent (\<lambda>_. initial (lc_game ctx) (eo_role outcome)) of
                       Inl e \<Rightarrow> (Inl e, st)
                     | Inr (entries, index) \<Rightarrow>
                         (let (r, x) = observe outcome (snd (entries ! index))
                          in (r, sl_put S (state\<lparr>os_by_opponent := list_update entries index (fst (entries ! index), x)\<rparr>) st)))))"

subsection \<open>Fictitious play\<close>

record 'f fictitious_play =
  fp_initial :: "'f list option"
  fp_tie :: tie_break

definition fictitious_initial ::
    "('f, 'z) rule_ops_scheme \<Rightarrow> ('g, 'f, 'y) finite_game_scheme \<Rightarrow> 'f fictitious_play \<Rightarrow> 'g \<Rightarrow> nat \<Rightarrow> rule_error + 'f fictitious_belief" where
  "fictitious_initial F G self game role =
     (if role \<ge> 2 then Inl (unsupported F (LearnInvalidRole role (sg_n_roles G game)))
      else let counts = (case fp_initial self of Some counts \<Rightarrow> counts
                         | None \<Rightarrow> replicate (fg_n_actions G game (1 - role)) (fl_zero F))
           in map_err (unsupported F) (fictitious_new F G game role counts (fp_tie self)))"

definition fictitious_observe ::
    "('f, 'z) rule_ops_scheme \<Rightarrow> (nat, 'f) encounter_outcome \<Rightarrow> 'f fictitious_belief \<Rightarrow> (rule_error + unit) \<times> 'f fictitious_belief" where
  "fictitious_observe F outcome belief =
     (if eo_role outcome > 1 then (Inl (Unsupported ''FictitiousPlay requires two roles''), belief)
      else case outcome_action outcome (1 - eo_role outcome) of
             Inl e \<Rightarrow> (Inl e, belief)
           | Inr action \<Rightarrow> (let (r, belief) = belief_observe F action belief in (map_err (unsupported F) r, belief)))"

definition fictitious_act ::
    "('f, 'z) rule_ops_scheme \<Rightarrow> ('f, 'r) draw_ops \<Rightarrow> ('g, 'f, 'y) finite_game_scheme \<Rightarrow> 'g \<Rightarrow> nat \<Rightarrow> 'f fictitious_belief \<Rightarrow> 'r \<Rightarrow>
     (rule_error + nat) \<times> 'r" where
  "fictitious_act F R G game role belief rng =
     (let (r, rng) = best_response F R G game role belief rng in (map_err (unsupported F) r, rng))"

definition fictitious_init ::
    "('f, 'z) rule_ops_scheme \<Rightarrow> ('g, 'f, 'y) finite_game_scheme \<Rightarrow> ('f fictitious_belief opponent_state, 's) slot_ops \<Rightarrow>
     'f fictitious_play \<Rightarrow> rule_init_context \<Rightarrow> 'g \<Rightarrow> rule_error + 's" where
  "fictitious_init F G S self ctx game =
     (if sg_n_roles G game \<noteq> 2 then Inl (unsupported F (LearnUnsupportedRoleCount 2 (sg_n_roles G game)))
      else try_bind (fictitious_initial F G self game 0) (\<lambda>global.
             try_bind (fictitious_initial F G self game 1) (\<lambda>_. Inr (sl_from S (opponent_state_new global)))))"

definition fictitious_mixed ::
    "('f, 'z) rule_ops_scheme \<Rightarrow> ('g, 'f, 'y) finite_game_scheme \<Rightarrow> ('f fictitious_belief opponent_state, 's) slot_ops \<Rightarrow>
     's \<Rightarrow> nat \<Rightarrow> 'g \<Rightarrow> 'f list option" where
  "fictitious_mixed F G S st role game =
     Option.bind (sl_slot S st) (\<lambda>state.
       if role \<ge> sg_n_roles G game then None
       else case best_responses F G game role (os_global state) of
              Inl _ \<Rightarrow> None
            | Inr best \<Rightarrow>
                (case fb_tie (os_global state) of
                   LowestIndex \<Rightarrow> (case best of [] \<Rightarrow> None | first # _ \<Rightarrow> pure_strategy F (fg_n_actions G game role) first)
                 | TieRandom \<Rightarrow>
                     let probability = fl_div F (fl_one F) (fl_of_nat F (length best)); n = fg_n_actions G game role
                     in if list_ex (\<lambda>action. action \<ge> n) best then None
                        else Some (fold (\<lambda>action ps. list_update ps action probability) best (replicate n (fl_zero F)))))"

definition fictitious_rule ::
    "('f, 'z) rule_ops_scheme \<Rightarrow> ('g, 'f, 'y) finite_game_scheme \<Rightarrow> ('f, 'r) draw_ops \<Rightarrow>
     ('f fictitious_belief opponent_state, 's) slot_ops \<Rightarrow> 'f fictitious_play \<Rightarrow> ('g, nat, 'f, 's, 'x, 'r) decision_rule" where
  "fictitious_rule F G R S self =
     \<lparr>dr_name = ''fictitious_play'', dr_init_state = fictitious_init F G S self,
      dr_decide = keyed_decide S ''FictitiousPlay'' ''BeliefState'' (fictitious_initial F G self) (fictitious_act F R G),
      dr_learn_step = keyed_learn_step S ''BeliefState'' (fictitious_observe F),
      dr_learn_encounter = keyed_learn_encounter S ''FictitiousPlay'' ''BeliefState'' (fictitious_initial F G self) (fictitious_observe F),
      dr_needs_encounter_learning = True, dr_needs_pair_history = False, dr_mixed = fictitious_mixed F G S\<rparr>"

subsection \<open>Logit choice\<close>

record 'f logit_choice =
  lo_lambda :: 'f
  lo_estimate :: estimate_mode

definition logit_initial ::
    "('f, 'z) rule_ops_scheme \<Rightarrow> ('g, 'f, 'y) finite_game_scheme \<Rightarrow> 'f logit_choice \<Rightarrow> 'g \<Rightarrow> nat \<Rightarrow> rule_error + 'f logit_state" where
  "logit_initial F G self game role = map_err (unsupported F) (logit_new F G game role (lo_lambda self) (lo_estimate self))"

definition logit_rule_observe ::
    "('f, 'z) rule_ops_scheme \<Rightarrow> (nat, 'f) encounter_outcome \<Rightarrow> 'f logit_state \<Rightarrow> (rule_error + unit) \<times> 'f logit_state" where
  "logit_rule_observe F outcome estimate =
     (if eo_role outcome > 1 then (Inl (Unsupported ''LogitChoice requires two roles''), estimate)
      else case outcome_action outcome (1 - eo_role outcome) of
             Inl e \<Rightarrow> (Inl e, estimate)
           | Inr action \<Rightarrow> (let (r, estimate) = logit_observe action estimate in (map_err (unsupported F) r, estimate)))"

definition logit_act ::
    "('f, 'z) rule_ops_scheme \<Rightarrow> ('f, 'r) draw_ops \<Rightarrow> ('g, 'f, 'y) finite_game_scheme \<Rightarrow> 'g \<Rightarrow> nat \<Rightarrow> 'f logit_state \<Rightarrow> 'r \<Rightarrow>
     (rule_error + nat) \<times> 'r" where
  "logit_act F R G game role estimate rng =
     (let (r, rng) = logit_choose F R G game role estimate rng in (map_err (unsupported F) r, rng))"

text \<open>The state of role 0, after the states of every role could be made.\<close>

definition keyed_init ::
    "('g, 'f, 'y) finite_game_scheme \<Rightarrow> ('t opponent_state, 's) slot_ops \<Rightarrow> ('g \<Rightarrow> nat \<Rightarrow> rule_error + 't) \<Rightarrow>
     rule_init_context \<Rightarrow> 'g \<Rightarrow> rule_error + 's" where
  "keyed_init G S initial ctx game =
     try_bind (initial game 0) (\<lambda>global.
       try_bind (try_fold (\<lambda>_ role. try_bind (initial game role) (\<lambda>_. Inr ())) () [1..<sg_n_roles G game])
         (\<lambda>_. Inr (sl_from S (opponent_state_new global))))"

definition logit_mixed ::
    "('f, 'z) rule_ops_scheme \<Rightarrow> ('g, 'f, 'y) finite_game_scheme \<Rightarrow> ('f logit_state opponent_state, 's) slot_ops \<Rightarrow>
     's \<Rightarrow> nat \<Rightarrow> 'g \<Rightarrow> 'f list option" where
  "logit_mixed F G S st role game =
     Option.bind (sl_slot S st) (\<lambda>state.
       if role \<ge> sg_n_roles G game then None
       else case logit_probabilities F G game role (os_global state) of
              Inl _ \<Rightarrow> None
            | Inr ps \<Rightarrow> if length ps = fg_n_actions G game role then Some ps else None)"

definition logit_rule ::
    "('f, 'z) rule_ops_scheme \<Rightarrow> ('g, 'f, 'y) finite_game_scheme \<Rightarrow> ('f, 'r) draw_ops \<Rightarrow>
     ('f logit_state opponent_state, 's) slot_ops \<Rightarrow> 'f logit_choice \<Rightarrow> ('g, nat, 'f, 's, 'x, 'r) decision_rule" where
  "logit_rule F G R S self =
     \<lparr>dr_name = ''logit'', dr_init_state = keyed_init G S (logit_initial F G self),
      dr_decide = keyed_decide S ''LogitChoice'' ''EstimateState'' (logit_initial F G self) (logit_act F R G),
      dr_learn_step = keyed_learn_step S ''EstimateState'' (logit_rule_observe F),
      dr_learn_encounter = keyed_learn_encounter S ''LogitChoice'' ''EstimateState'' (logit_initial F G self) (logit_rule_observe F),
      dr_needs_encounter_learning = True, dr_needs_pair_history = False, dr_mixed = logit_mixed F G S\<rparr>"

subsection \<open>Roth-Erev reinforcement\<close>

record 'f roth_erev =
  rr_phi :: 'f
  rr_epsilon :: 'f
  rr_initial_propensity :: 'f

text \<open>\<open>roth_erev_new\<close> always returns (its loop over the profiles ends), so \<open>the\<close> has a value.\<close>

definition roth_initial ::
    "('f, 'z) rule_ops_scheme \<Rightarrow> ('g, 'f, 'y) finite_game_scheme \<Rightarrow> 'f roth_erev \<Rightarrow> 'g \<Rightarrow> nat \<Rightarrow> rule_error + 'f roth_erev_state" where
  "roth_initial F G self game role =
     map_err (unsupported F) (the (roth_erev_new F G game role (rr_initial_propensity self) (rr_phi self) (rr_epsilon self)))"

lemma roth_erev_new_returns: "roth_erev_new F G game role ip phi eps \<noteq> None"
  by (auto simp: roth_erev_new_def validate_positive_payoffs_def odometer_loop_product Let_def split: sum.split)

definition roth_observe ::
    "('f, 'z) rule_ops_scheme \<Rightarrow> (nat, 'f) encounter_outcome \<Rightarrow> 'f roth_erev_state \<Rightarrow> (rule_error + unit) \<times> 'f roth_erev_state" where
  "roth_observe F outcome propensity =
     (case outcome_action outcome (eo_role outcome) of
        Inl e \<Rightarrow> (Inl e, propensity)
      | Inr own_action \<Rightarrow>
          (case get_opt (eo_payoffs outcome) (eo_role outcome) of
             None \<Rightarrow> (Inl (Unsupported (''encounter has no realized payoff for role '' @ show_nat (eo_role outcome))), propensity)
           | Some payoff \<Rightarrow>
               (let (r, propensity) = roth_erev_update F own_action payoff propensity
                in (map_err (unsupported F) r, propensity))))"

definition roth_act ::
    "('f, 'z) rule_ops_scheme \<Rightarrow> ('f, 'r) draw_ops \<Rightarrow> 'g \<Rightarrow> nat \<Rightarrow> 'f roth_erev_state \<Rightarrow> 'r \<Rightarrow> (rule_error + nat) \<times> 'r" where
  "roth_act F R game role propensity rng =
     (let (r, rng) = roth_erev_choose F R propensity rng in (map_err (unsupported F) r, rng))"

definition roth_mixed ::
    "('f, 'z) rule_ops_scheme \<Rightarrow> ('g, 'f, 'y) finite_game_scheme \<Rightarrow> ('f roth_erev_state opponent_state, 's) slot_ops \<Rightarrow>
     's \<Rightarrow> nat \<Rightarrow> 'g \<Rightarrow> 'f list option" where
  "roth_mixed F G S st role game =
     Option.bind (sl_slot S st) (\<lambda>state.
       if role \<ge> sg_n_roles G game \<or> length (re_propensities (os_global state)) \<noteq> fg_n_actions G game role then None
       else case roth_erev_probabilities F (os_global state) of Inl _ \<Rightarrow> None | Inr ps \<Rightarrow> Some ps)"

definition roth_rule ::
    "('f, 'z) rule_ops_scheme \<Rightarrow> ('g, 'f, 'y) finite_game_scheme \<Rightarrow> ('f, 'r) draw_ops \<Rightarrow>
     ('f roth_erev_state opponent_state, 's) slot_ops \<Rightarrow> 'f roth_erev \<Rightarrow> ('g, nat, 'f, 's, 'x, 'r) decision_rule" where
  "roth_rule F G R S self =
     \<lparr>dr_name = ''roth_erev'', dr_init_state = keyed_init G S (roth_initial F G self),
      dr_decide = keyed_decide S ''RothErev'' ''PropensityState'' (roth_initial F G self) (roth_act F R),
      dr_learn_step = keyed_learn_step S ''PropensityState'' (roth_observe F),
      dr_learn_encounter = keyed_learn_encounter S ''RothErev'' ''PropensityState'' (roth_initial F G self) (roth_observe F),
      dr_needs_encounter_learning = True, dr_needs_pair_history = False, dr_mixed = roth_mixed F G S\<rparr>"

subsection \<open>Automata\<close>

record 'f automaton_rule_config =
  au_kind :: "'f automaton_kind"
  au_coop :: nat

definition automaton_initial ::
    "('f, 'z) rule_ops_scheme \<Rightarrow> 'f automaton_rule_config \<Rightarrow> 'g \<Rightarrow> nat \<Rightarrow> rule_error + 'f automaton_state" where
  "automaton_initial F self game role = map_err (unsupported F) (automaton_new F (au_kind self) (au_coop self))"

definition automaton_rule_observe ::
    "('f, 'z) rule_ops_scheme \<Rightarrow> (nat, 'f) encounter_outcome \<Rightarrow> 'f automaton_state \<Rightarrow> (rule_error + unit) \<times> 'f automaton_state" where
  "automaton_rule_observe F outcome automaton =
     (case try_bind (outcome_opponent outcome ''Automaton'') (\<lambda>(opponent_role, _).
           try_bind (outcome_action outcome (eo_role outcome)) (\<lambda>own_action.
           try_bind (outcome_action outcome opponent_role) (\<lambda>opponent_action. Inr (own_action, opponent_action)))) of
        Inl e \<Rightarrow> (Inl e, automaton)
      | Inr (own_action, opponent_action) \<Rightarrow>
          (let (r, automaton) = automaton_observe own_action opponent_action automaton in (map_err (unsupported F) r, automaton)))"

definition automaton_act ::
    "('f, 'z) rule_ops_scheme \<Rightarrow> ('f, 'r) draw_ops \<Rightarrow> 'g \<Rightarrow> nat \<Rightarrow> 'f automaton_state \<Rightarrow> 'r \<Rightarrow> (rule_error + nat) \<times> 'r" where
  "automaton_act F R game role automaton rng =
     (let (r, rng) = next_action F R automaton rng in (map_err (unsupported F) r, rng))"

definition automaton_init ::
    "('f, 'z) rule_ops_scheme \<Rightarrow> ('g, 'f, 'y) finite_game_scheme \<Rightarrow> ('f automaton_state opponent_state, 's) slot_ops \<Rightarrow>
     'f automaton_rule_config \<Rightarrow> rule_init_context \<Rightarrow> 'g \<Rightarrow> rule_error + 's" where
  "automaton_init F G S self ctx game =
     try_bind (map_err (unsupported F) (validate_two_action_game G game)) (\<lambda>_.
       try_bind (automaton_initial F self game 0) (\<lambda>global. Inr (sl_from S (opponent_state_new global))))"

definition automaton_mixed ::
    "('f, 'z) rule_ops_scheme \<Rightarrow> ('g, 'f, 'y) finite_game_scheme \<Rightarrow> ('f automaton_state opponent_state, 's) slot_ops \<Rightarrow>
     's \<Rightarrow> nat \<Rightarrow> 'g \<Rightarrow> 'f list option" where
  "automaton_mixed F G S st role game =
     Option.bind (sl_slot S st) (\<lambda>state.
       if role \<ge> sg_n_roles G game \<or> fg_n_actions G game role \<noteq> 2 then None
       else case next_action_probabilities F (os_global state) of Inl _ \<Rightarrow> None | Inr ps \<Rightarrow> Some ps)"

definition automaton_rule ::
    "('f, 'z) rule_ops_scheme \<Rightarrow> ('g, 'f, 'y) finite_game_scheme \<Rightarrow> ('f, 'r) draw_ops \<Rightarrow>
     ('f automaton_state opponent_state, 's) slot_ops \<Rightarrow> 'f automaton_rule_config \<Rightarrow> ('g, nat, 'f, 's, 'x, 'r) decision_rule" where
  "automaton_rule F G R S self =
     \<lparr>dr_name = ''automaton'', dr_init_state = automaton_init F G S self,
      dr_decide = keyed_decide S ''Automaton'' ''AutomatonPolicyState'' (automaton_initial F self) (automaton_act F R),
      dr_learn_step = keyed_learn_step S ''AutomatonPolicyState'' (automaton_rule_observe F),
      dr_learn_encounter = keyed_learn_encounter S ''Automaton'' ''AutomatonPolicyState'' (automaton_initial F self) (automaton_rule_observe F),
      dr_needs_encounter_learning = True, dr_needs_pair_history = False, dr_mixed = automaton_mixed F G S\<rparr>"

end
