(* ===== verification/Decide.thy ===== *)
theory Decide
  imports Learning_Rules
begin

section \<open>The decision driver (crates/socsim-games/src/mechanism/decide.rs, src/rule/book.rs)\<close>

text \<open>
  \<open>RuleDriver\<close> fills the seats of the arena in the Decision phase, from the held actions and from the
  rules, and runs the learning callbacks in the Reward phase. A rule book is a finite map from kind
  names, kept as an association list in name order like the \<open>BTreeMap\<close>.
\<close>

datatype 'a on_invalid_action = Stop | Fallback "string \<rightharpoonup> 'a"

type_synonym ('g, 'a, 'f, 's, 'x, 'r) rule_book = "(string \<times> ('g, 'a, 'f, 's, 'x, 'r) decision_rule) list"

definition rule_get_optional :: "('g, 'a, 'f, 's, 'x, 'r) rule_book \<Rightarrow> string \<Rightarrow> ('g, 'a, 'f, 's, 'x, 'r) decision_rule option" where
  "rule_get_optional rules kind = map_of rules kind"

definition show_kinds :: "string list \<Rightarrow> string" where
  "show_kinds kinds =
     (if kinds = [] then ''<none>''
      else concat (map (\<lambda>(i, k). (if i = 0 then '''' else '', '') @ k) (List.enumerate 0 kinds)))"

text \<open>\<open>{kind:?}\<close> quotes and escapes the name: \<open>quote\<close> is that rendering.\<close>

definition unknown_kind :: "(string \<Rightarrow> string) \<Rightarrow> string \<Rightarrow> string list \<Rightarrow> rule_error" where
  "unknown_kind quote kind registered = UnknownKind (quote kind @ ''; registered kinds: '' @ show_kinds registered)"

definition rule_get ::
    "(string \<Rightarrow> string) \<Rightarrow> ('g, 'a, 'f, 's, 'x, 'r) rule_book \<Rightarrow> string \<Rightarrow> rule_error + ('g, 'a, 'f, 's, 'x, 'r) decision_rule" where
  "rule_get quote rules kind = ok_or (unknown_kind quote kind (map fst rules)) (map_of rules kind)"

definition string_less :: "string \<Rightarrow> string \<Rightarrow> bool" where
  "string_less a b \<longleftrightarrow> (map (of_char :: char \<Rightarrow> nat) a, map of_char b) \<in> lexord {(x, y). x < y}"

definition rule_register ::
    "string \<Rightarrow> ('g, 'a, 'f, 's, 'x, 'r) decision_rule \<Rightarrow> ('g, 'a, 'f, 's, 'x, 'r) rule_book \<Rightarrow>
     rule_error + ('g, 'a, 'f, 's, 'x, 'r) rule_book" where
  "rule_register kind rule rules =
     (if map_of rules kind \<noteq> None then Inl (DuplicateKind kind)
      else Inr (takeWhile (\<lambda>(k, _). string_less k kind) rules @ (kind, rule) # dropWhile (\<lambda>(k, _). string_less k kind) rules))"

definition rule_add ::
    "('g, 'a, 'f, 's, 'x, 'r) decision_rule \<Rightarrow> ('g, 'a, 'f, 's, 'x, 'r) rule_book \<Rightarrow>
     rule_error + ('g, 'a, 'f, 's, 'x, 'r) rule_book" where
  "rule_add rule rules = rule_register (dr_name rule) rule rules"

record ('g, 'a, 'f, 's, 'x, 'r) rule_driver =
  rd_rules :: "('g, 'a, 'f, 's, 'x, 'r) rule_book"
  rd_on_invalid :: "'a on_invalid_action"
  rd_scope :: decision_scope
  rd_report_mixed :: bool
  rd_multi_role :: bool
  rd_marks :: "u64 list"
  rd_generation :: "32 word"

definition rule_driver_new ::
    "('g, 'a, 'f, 's, 'x, 'r) rule_book \<Rightarrow> 'a on_invalid_action \<Rightarrow> decision_scope \<Rightarrow> bool \<Rightarrow> bool \<Rightarrow>
     ('g, 'a, 'f, 's, 'x, 'r) rule_driver" where
  "rule_driver_new rules on_invalid scope with_mixed multi =
     \<lparr>rd_rules = rules, rd_on_invalid = on_invalid, rd_scope = scope, rd_report_mixed = with_mixed,
      rd_multi_role = multi, rd_marks = [], rd_generation = 0\<rparr>"

definition mechanism_error :: "rule_error \<Rightarrow> socsim_error" where
  "mechanism_error e = Mechanism (show_rule_error e)"

text \<open>What the driver calls outside the model: the recorder, and the JSON value of the event.\<close>

record ('a, 'c, 'f, 'j) event_ops =
  ev_recorder :: "('c, 'f, 'j) recorder_ops"
  ev_invalid_action :: "agent_id \<Rightarrow> string \<Rightarrow> nat \<Rightarrow> 'a \<Rightarrow> 'j"

definition validate_action ::
    "('g, 'a, 'y) stage_game_scheme \<Rightarrow> ('a, 'c, 'f, 'j) event_ops \<Rightarrow> 'a on_invalid_action \<Rightarrow>
     u64 \<Rightarrow> agent_id \<Rightarrow> nat \<Rightarrow> string \<Rightarrow> 'a \<Rightarrow> 'g \<Rightarrow> 'c \<Rightarrow> 'a result \<times> 'c" where
  "validate_action G E on_invalid t agent role kind action game recorder =
     (case sg_check_action G game role action of
        Inr _ \<Rightarrow> (Inr action, recorder)
      | Inl error \<Rightarrow>
          (case on_invalid of
             Stop \<Rightarrow> (Inl (mechanism_error (RuleInvalidAction (show_action_error error))), recorder)
           | Fallback fallbacks \<Rightarrow>
               (case fallbacks kind of
                  None \<Rightarrow> (Inl (mechanism_error (Unsupported (''missing fallback action for rule kind '' @ kind))), recorder)
                | Some replacement \<Rightarrow>
                    (case sg_check_action G game role replacement of
                       Inl fallback_error \<Rightarrow>
                         (Inl (mechanism_error (RuleInvalidAction (show_action_error fallback_error))), recorder)
                     | Inr _ \<Rightarrow>
                         (Inr replacement,
                          record_event (ev_recorder E) recorder t ''game.invalid_action''
                            (ev_invalid_action E agent kind role action))))))"

subsection \<open>Held agents\<close>

text \<open>
  One generation of marks per call: a mark is the generation in its upper half and the role in its
  lower half, so marks of earlier calls need no clearing until the generation wraps to 0.
\<close>

definition next_generation ::
    "nat \<Rightarrow> ('g, 'a, 'f, 's, 'x, 'r) rule_driver \<Rightarrow> ('g, 'a, 'f, 's, 'x, 'r) rule_driver" where
  "next_generation n_ids self =
     (let marks = (if length (rd_marks self) < n_ids then rd_marks self @ replicate (n_ids - length (rd_marks self)) 0
                   else rd_marks self);
          generation = rd_generation self + 1
      in if generation = 0 then self\<lparr>rd_marks := replicate (length marks) 0, rd_generation := 1\<rparr>
         else self\<lparr>rd_marks := marks, rd_generation := generation\<rparr>)"

definition mark_generation :: "u64 \<Rightarrow> 32 word" where
  "mark_generation mark = ucast (drop_bit 32 mark)"

definition mark_role :: "u64 \<Rightarrow> 32 word" where
  "mark_role mark = ucast mark"

definition make_mark :: "32 word \<Rightarrow> 32 word \<Rightarrow> u64" where
  "make_mark generation role = (push_bit 32 (ucast generation) OR ucast role)"

record ('g, 'a, 'f, 's, 'x, 'r) seat_scan =
  ss_driver :: "('g, 'a, 'f, 's, 'x, 'r) rule_driver"
  ss_started :: bool
  ss_actions :: "'a option list"
  ss_active :: "(agent_id \<rightharpoonup> nat list) option"

definition claim_role ::
    "nat \<Rightarrow> agent_id \<Rightarrow> nat \<Rightarrow> ('g, 'a, 'f, 's, 'x, 'r) seat_scan \<Rightarrow> unit result \<times> ('g, 'a, 'f, 's, 'x, 'r) seat_scan" where
  "claim_role n_ids agent role scan =
     (let scan = (if ss_started scan then scan
                  else scan\<lparr>ss_driver := next_generation n_ids (ss_driver scan), ss_started := True\<rparr>);
          self = ss_driver scan
      in case u32_try_from role of
           None \<Rightarrow> (Inl (Mechanism ''role index exceeds u32::MAX''), scan)
         | Some role \<Rightarrow>
             let mark = rd_marks self ! agent_no agent
             in if mark_generation mark = rd_generation self
                then if mark_role mark \<noteq> of_nat role
                     then (Inl (mechanism_error (AmbiguousRole (agent_no agent))), scan)
                     else (Inr (), scan)
                else (Inr (), scan\<lparr>ss_driver := self\<lparr>rd_marks :=
                        list_update (rd_marks self) (agent_no agent) (make_mark (rd_generation self) (of_nat role))\<rparr>\<rparr>))"

definition scan_seat ::
    "('g, 'a, 'y) stage_game_scheme \<Rightarrow> ('g, 'a, 'f, 's, 'x, 'n, 'd) game_world \<Rightarrow> nat \<times> agent_id \<Rightarrow>
     ('g, 'a, 'f, 's, 'x, 'r) seat_scan \<Rightarrow> unit result \<times> ('g, 'a, 'f, 's, 'x, 'r) seat_scan" where
  "scan_seat G w seat scan =
     (let (seat_index, agent) = seat; self = ss_driver scan; role = seat_index mod pa_n_roles (gw_plays w);
          action = gw_held w ! agent_no agent
      in case get_opt (pt_slot (gw_policies w)) (agent_no agent) of
           None \<Rightarrow> (Inl (Mechanism (''unknown agent '' @ show_nat (agent_no agent))), scan)
         | Some state_slot \<Rightarrow>
             if state_slot = HELD
             then (case (if rd_scope self = PerStep \<and> \<not> rd_multi_role self
                         then claim_role (length (gw_ids w)) agent role scan else (Inr (), scan)) of
                     (Inl e, scan) \<Rightarrow> (Inl e, scan)
                   | (Inr _, scan) \<Rightarrow>
                       (case (if rd_scope self = PerStep \<and> rd_multi_role self
                              then sg_check_action G (gw_game w) role action else Inr ()) of
                          Inl error \<Rightarrow> (Inl (mechanism_error (RuleInvalidAction (show_action_error error))), scan)
                        | Inr _ \<Rightarrow> (Inr (), scan\<lparr>ss_actions := list_update (ss_actions scan) seat_index (Some action)\<rparr>)))
             else (let active = (case ss_active scan of Some m \<Rightarrow> m | None \<Rightarrow> Map.empty);
                       seats = (case active agent of Some xs \<Rightarrow> xs | None \<Rightarrow> [])
                   in (Inr (), scan\<lparr>ss_active := Some (active(agent \<mapsto> seats @ [seat_index]))\<rparr>)))"

subsection \<open>Active agents\<close>

type_synonym ('g, 'a, 'f, 's, 'x, 'n, 'd, 'r, 'c, 'ty, 'v) decide_context =
  "(('g, 'a, 'f, 's, 'x, 'n, 'd) game_world, 'r, 'c, 'ty, 'v) step_context"

definition decision_context_of ::
    "('g, 'a, 'f, 's, 'x, 'n, 'd) game_world \<Rightarrow> agent_id \<Rightarrow> decision_unit \<Rightarrow> nat \<Rightarrow> encounter_ref option \<Rightarrow> agent_id list \<Rightarrow>
     ('g, 'a, 'f, 'x) decision_context" where
  "decision_context_of w agent unit role enc opponents =
     \<lparr>dc_t = clk_t (gw_clock w), dc_me = agent, dc_unit = unit, dc_role = Some role, dc_encounter = enc,
      dc_opponents = opponents, dc_ids = gw_ids w, dc_game = gw_game w, dc_held = gw_held w,
      dc_history = gw_step_history w, dc_pair_history = gw_pair_history w, dc_aggregate = gw_aggregate w, dc_x = gw_x w\<rparr>"

definition run_rule ::
    "('g, 'a, 'f, 's, 'x, 'r) decision_rule \<Rightarrow> nat \<Rightarrow> agent_id \<Rightarrow> decision_unit \<Rightarrow> nat \<Rightarrow> encounter_ref option \<Rightarrow> agent_id list \<Rightarrow>
     ('g, 'a, 'f, 's, 'x, 'n, 'd, 'r, 'c, 'ty, 'v) decide_context \<Rightarrow>
     'a result \<times> ('g, 'a, 'f, 's, 'x, 'n, 'd, 'r, 'c, 'ty, 'v) decide_context" where
  "run_rule rule state_index agent unit role enc opponents ctx =
     (let w = ctx_world ctx; pt = gw_policies w;
          (r, st, rng) = dr_decide rule (pt_states pt ! state_index)
            (decision_context_of w agent unit role enc opponents) (ctx_rng ctx)
      in (map_err mechanism_error r,
          ctx\<lparr>ctx_world := w\<lparr>gw_policies := pt\<lparr>pt_states := list_update (pt_states pt) state_index st\<rparr>\<rparr>, ctx_rng := rng\<rparr>))"

definition validate_in ::
    "('g, 'a, 'y) stage_game_scheme \<Rightarrow> ('a, 'c, 'f, 'j) event_ops \<Rightarrow> ('g, 'a, 'f, 's, 'x, 'r) rule_driver \<Rightarrow>
     agent_id \<Rightarrow> string \<Rightarrow> nat \<Rightarrow> 'a \<Rightarrow> ('g, 'a, 'f, 's, 'x, 'n, 'd, 'r, 'c, 'ty, 'v) decide_context \<Rightarrow>
     'a result \<times> ('g, 'a, 'f, 's, 'x, 'n, 'd, 'r, 'c, 'ty, 'v) decide_context" where
  "validate_in G E self agent kind role action ctx =
     (let (r, rc) = validate_action G E (rd_on_invalid self) (clk_t (gw_clock (ctx_world ctx))) agent role kind action
            (gw_game (ctx_world ctx)) (ctx_recorder ctx)
      in (r, ctx\<lparr>ctx_recorder := rc\<rparr>))"

text \<open>The action passes through the check of every seat the agent holds, a replacement included.\<close>

primrec validate_seats ::
    "('g, 'a, 'y) stage_game_scheme \<Rightarrow> ('a, 'c, 'f, 'j) event_ops \<Rightarrow> ('g, 'a, 'f, 's, 'x, 'r) rule_driver \<Rightarrow>
     agent_id \<Rightarrow> string \<Rightarrow> nat list \<Rightarrow> 'a \<Rightarrow> ('g, 'a, 'f, 's, 'x, 'n, 'd, 'r, 'c, 'ty, 'v) decide_context \<Rightarrow>
     'a result \<times> ('g, 'a, 'f, 's, 'x, 'n, 'd, 'r, 'c, 'ty, 'v) decide_context" where
  "validate_seats G E self agent kind [] action ctx = (Inr action, ctx)"
| "validate_seats G E self agent kind (seat # seats) action ctx =
     (case validate_in G E self agent kind (seat mod pa_n_roles (gw_plays (ctx_world ctx))) action ctx of
        (Inl e, ctx) \<Rightarrow> (Inl e, ctx)
      | (Inr action, ctx) \<Rightarrow> validate_seats G E self agent kind seats action ctx)"

definition write_seats ::
    "nat list \<Rightarrow> 'a \<Rightarrow> ('g, 'a, 'f, 's, 'x, 'n, 'd) game_world \<Rightarrow> ('g, 'a, 'f, 's, 'x, 'n, 'd) game_world" where
  "write_seats seats action w =
     w\<lparr>gw_plays := (gw_plays w)\<lparr>pa_actions := fold (\<lambda>seat acts. list_update acts seat (Some action)) seats (pa_actions (gw_plays w))\<rparr>\<rparr>"

text \<open>The other agents of the encounters of the given seats, in identifier order, as a \<open>BTreeSet\<close> lists them.\<close>

definition opponent_set :: "('a, 'f) play_arena \<Rightarrow> agent_id \<Rightarrow> nat list \<Rightarrow> agent_id list" where
  "opponent_set plays agent seats =
     sorted_list_of_set (set (filter (\<lambda>seat. seat \<noteq> agent)
       (concat (map (\<lambda>own. row_of (pa_n_roles plays) (own div pa_n_roles plays) (pa_seats plays)) seats))))"

definition decide_per_step ::
    "('g, 'a, 'y) stage_game_scheme \<Rightarrow> ('a, 'c, 'f, 'j) event_ops \<Rightarrow> ('g, 'a, 'f, 's, 'x, 'r) rule_driver \<Rightarrow>
     ('g, 'a, 'f, 's, 'x, 'r) decision_rule \<Rightarrow> string \<Rightarrow> nat \<Rightarrow> agent_id \<Rightarrow> nat list \<Rightarrow>
     ('g, 'a, 'f, 's, 'x, 'n, 'd, 'r, 'c, 'ty, 'v) decide_context \<Rightarrow>
     unit result \<times> ('g, 'a, 'f, 's, 'x, 'n, 'd, 'r, 'c, 'ty, 'v) decide_context" where
  "decide_per_step G E self rule kind state_index agent seats ctx =
     (let plays = gw_plays (ctx_world ctx); n = pa_n_roles plays; seat = last seats; role = seat mod n;
          opponents = (if rd_multi_role self then opponent_set plays agent seats
                       else filter (\<lambda>other. other \<noteq> agent) (row_of n (seat div n) (pa_seats plays)))
      in case run_rule rule state_index agent UnitStep role (encounter plays (EncounterId (seat div n mod 2 ^ 32))) opponents ctx of
           (Inl e, ctx) \<Rightarrow> (Inl e, ctx)
         | (Inr action, ctx) \<Rightarrow>
             (case validate_seats G E self agent kind (if rd_multi_role self then seats else [seat]) action ctx of
                (Inl e, ctx) \<Rightarrow> (Inl e, ctx)
              | (Inr action, ctx) \<Rightarrow>
                  (let w = ctx_world ctx
                   in (Inr (), ctx\<lparr>ctx_world := write_seats seats action
                         (w\<lparr>gw_held := list_update (gw_held w) (agent_no agent) action\<rparr>)\<rparr>))))"

definition decide_role ::
    "('g, 'a, 'y) stage_game_scheme \<Rightarrow> ('a, 'c, 'f, 'j) event_ops \<Rightarrow> ('g, 'a, 'f, 's, 'x, 'r) rule_driver \<Rightarrow>
     ('g, 'a, 'f, 's, 'x, 'r) decision_rule \<Rightarrow> string \<Rightarrow> nat \<Rightarrow> agent_id \<Rightarrow> nat list \<Rightarrow> nat \<Rightarrow>
     ('g, 'a, 'f, 's, 'x, 'n, 'd, 'r, 'c, 'ty, 'v) decide_context \<Rightarrow>
     unit result \<times> ('g, 'a, 'f, 's, 'x, 'n, 'd, 'r, 'c, 'ty, 'v) decide_context" where
  "decide_role G E self rule kind state_index agent seats role ctx =
     (let plays = gw_plays (ctx_world ctx); role_seats = filter (\<lambda>seat. seat mod pa_n_roles plays = role) seats
      in case run_rule rule state_index agent (UnitAgentRole role) role None (opponent_set plays agent role_seats) ctx of
           (Inl e, ctx) \<Rightarrow> (Inl e, ctx)
         | (Inr action, ctx) \<Rightarrow>
             (case validate_in G E self agent kind role action ctx of
                (Inl e, ctx) \<Rightarrow> (Inl e, ctx)
              | (Inr action, ctx) \<Rightarrow> (Inr (), ctx\<lparr>ctx_world := write_seats role_seats action (ctx_world ctx)\<rparr>)))"

definition decide_encounter ::
    "('g, 'a, 'y) stage_game_scheme \<Rightarrow> ('a, 'c, 'f, 'j) event_ops \<Rightarrow> ('g, 'a, 'f, 's, 'x, 'r) rule_driver \<Rightarrow>
     ('g, 'a, 'f, 's, 'x, 'r) decision_rule \<Rightarrow> string \<Rightarrow> nat \<Rightarrow> agent_id \<Rightarrow> nat \<Rightarrow>
     ('g, 'a, 'f, 's, 'x, 'n, 'd, 'r, 'c, 'ty, 'v) decide_context \<Rightarrow>
     unit result \<times> ('g, 'a, 'f, 's, 'x, 'n, 'd, 'r, 'c, 'ty, 'v) decide_context" where
  "decide_encounter G E self rule kind state_index agent seat ctx =
     (let plays = gw_plays (ctx_world ctx); n = pa_n_roles plays; role = seat mod n; eid = EncounterId (seat div n mod 2 ^ 32);
          opponents = map snd (filter (\<lambda>(other_role, _). other_role \<noteq> role)
            (List.enumerate 0 (row_of n (seat div n) (pa_seats plays))))
      in case run_rule rule state_index agent (UnitEncounter eid) role (encounter plays eid) opponents ctx of
           (Inl e, ctx) \<Rightarrow> (Inl e, ctx)
         | (Inr action, ctx) \<Rightarrow>
             (case validate_in G E self agent kind role action ctx of
                (Inl e, ctx) \<Rightarrow> (Inl e, ctx)
              | (Inr action, ctx) \<Rightarrow> (Inr (), ctx\<lparr>ctx_world := write_seats [seat] action (ctx_world ctx)\<rparr>)))"

definition decide_agent ::
    "('g, 'a, 'y) stage_game_scheme \<Rightarrow> ('a, 'c, 'f, 'j) event_ops \<Rightarrow> ('g, 'a, 'f, 's, 'x, 'r) rule_driver \<Rightarrow>
     (agent_id \<rightharpoonup> nat list) \<Rightarrow> agent_id \<Rightarrow> ('g, 'a, 'f, 's, 'x, 'n, 'd, 'r, 'c, 'ty, 'v) decide_context \<Rightarrow>
     unit result \<times> ('g, 'a, 'f, 's, 'x, 'n, 'd, 'r, 'c, 'ty, 'v) decide_context" where
  "decide_agent G E self active agent ctx =
     (let w = ctx_world ctx; pt = gw_policies w; n = pa_n_roles (gw_plays w)
      in case active agent of
           None \<Rightarrow> (Inr (), ctx)
         | Some seats \<Rightarrow>
             (case get_opt (pt_slot pt) (agent_no agent) of
                None \<Rightarrow> (Inl (Mechanism (''unknown agent '' @ show_nat (agent_no agent))), ctx)
              | Some state_index \<Rightarrow>
                  let kind = pt_kinds pt ! kind_no (pt_kind_of pt ! state_index)
                  in (case rule_get_optional (rd_rules self) kind of
                        None \<Rightarrow> (Inr (), ctx)
                      | Some rule \<Rightarrow>
                          if rd_scope self = PerStep \<and> \<not> rd_multi_role self \<and> card (set (map (\<lambda>seat. seat mod n) seats)) > 1
                          then (Inl (mechanism_error (AmbiguousRole (agent_no agent))), ctx)
                          else case rd_scope self of
                                 PerStep \<Rightarrow> decide_per_step G E self rule kind state_index agent seats ctx
                               | PerAgentRole \<Rightarrow> for_each (decide_role G E self rule kind state_index agent seats)
                                   (sorted_list_of_set (set (map (\<lambda>seat. seat mod n) seats))) ctx
                               | PerEncounter \<Rightarrow> for_each (decide_encounter G E self rule kind state_index agent) seats ctx)))"

definition driver_decide ::
    "('g, 'a, 'y) stage_game_scheme \<Rightarrow> ('a, 'c, 'f, 'j) event_ops \<Rightarrow> ('g, 'a, 'f, 's, 'x, 'r) rule_driver \<Rightarrow>
     ('g, 'a, 'f, 's, 'x, 'n, 'd, 'r, 'c, 'ty, 'v) decide_context \<Rightarrow>
     unit result \<times> ('g, 'a, 'f, 's, 'x, 'r) rule_driver \<times> ('g, 'a, 'f, 's, 'x, 'n, 'd, 'r, 'c, 'ty, 'v) decide_context" where
  "driver_decide G E self ctx =
     (let w = ctx_world ctx;
          (r, scan) = for_each (scan_seat G w) (List.enumerate 0 (pa_seats (gw_plays w)))
            \<lparr>ss_driver = self, ss_started = False, ss_actions = pa_actions (gw_plays w), ss_active = None\<rparr>;
          ctx = ctx\<lparr>ctx_world := w\<lparr>gw_plays := (gw_plays w)\<lparr>pa_actions := ss_actions scan\<rparr>\<rparr>\<rparr>
      in case r of
           Inl e \<Rightarrow> (Inl e, ss_driver scan, ctx)
         | Inr _ \<Rightarrow>
             (case ss_active scan of
                None \<Rightarrow> (Inr (), ss_driver scan, ctx)
              | Some active \<Rightarrow>
                  (let (r, ctx) = for_each (decide_agent G E (ss_driver scan) active) (ctx_agent_order ctx) ctx
                   in (r, ss_driver scan, ctx))))"

subsection \<open>Learning\<close>

text \<open>A driver's rule for an agent with its own policy, with the index of the agent's state.\<close>

definition native_rule ::
    "('g, 'a, 'f, 's, 'x, 'r) rule_driver \<Rightarrow> 's policy_table \<Rightarrow> agent_id \<Rightarrow> (nat \<times> ('g, 'a, 'f, 's, 'x, 'r) decision_rule) option" where
  "native_rule self pt agent =
     (let state_slot = pt_slot pt ! agent_no agent
      in if state_slot = HELD then None
         else map_option (Pair state_slot)
           (rule_get_optional (rd_rules self) (pt_kinds pt ! kind_no (pt_kind_of pt ! state_slot))))"

definition learn_context_of ::
    "('g, 'a, 'f, 's, 'x, 'n, 'd) game_world \<Rightarrow> decision_scope \<Rightarrow> agent_id \<Rightarrow> ('a, 'f) step_record \<Rightarrow> ('g, 'a, 'f, 'x) learn_context" where
  "learn_context_of w scope agent record =
     \<lparr>lc_t = clk_t (gw_clock w), lc_me = agent, lc_scope = scope, lc_record = record, lc_ids = gw_ids w,
      lc_game = gw_game w, lc_held = gw_held w, lc_history = gw_step_history w, lc_plays = gw_plays w, lc_x = gw_x w\<rparr>"

definition learn_state ::
    "('g, 'a, 'f, 's, 'x, 'r) decision_rule \<Rightarrow> ('g, 'a, 'f, 'x) learn_context \<Rightarrow> 's \<Rightarrow> (rule_error + unit) \<times> 's" where
  "learn_state rule lc st =
     (case (if dr_needs_encounter_learning rule
            then try_each (\<lambda>outcome st. dr_learn_encounter rule st outcome lc) (lc_outcomes lc) st else (Inr (), st)) of
        (Inl e, st) \<Rightarrow> (Inl e, st)
      | (Inr _, st) \<Rightarrow> dr_learn_step rule st lc)"

definition learn_agent ::
    "('g, 'a, 'f, 's, 'x, 'r) rule_driver \<Rightarrow> agent_id \<Rightarrow> ('g, 'a, 'f, 's, 'x, 'n, 'd) game_world \<Rightarrow>
     unit result \<times> ('g, 'a, 'f, 's, 'x, 'n, 'd) game_world" where
  "learn_agent self agent w =
     (case native_rule self (gw_policies w) agent of
        None \<Rightarrow> (Inr (), w)
      | Some (state_slot, rule) \<Rightarrow>
          (case Option.bind (history_view agent (gw_step_history w)) hv_last of
             None \<Rightarrow> (Inl (Mechanism (''missing current step record for agent '' @ show_nat (agent_no agent))), w)
           | Some record \<Rightarrow>
               (let pt = gw_policies w;
                    (r, st) = learn_state rule (learn_context_of w (rd_scope self) agent record) (pt_states pt ! state_slot)
                in (map_err mechanism_error r,
                    w\<lparr>gw_policies := pt\<lparr>pt_states := list_update (pt_states pt) state_slot st\<rparr>\<rparr>))))"

definition report_role ::
    "'f float_ops \<Rightarrow> ('g, 'a, 'f, 's, 'x, 'n, 'd) game_world \<Rightarrow> ('g, 'a, 'f, 's, 'x, 'r) decision_rule \<Rightarrow> 's \<Rightarrow> agent_id \<Rightarrow> nat \<Rightarrow>
     'f policy_reports \<Rightarrow> unit result \<times> 'f policy_reports" where
  "report_role F w rule st agent role reports =
     (let mixed = Option.bind (dr_mixed rule st role (gw_game w)) (\<lambda>ps. if list_all (fl_finite F) ps then Some ps else None);
          (ok, reports) = reports_set (agent_no agent) role mixed reports
      in if ok then (Inr (), reports)
         else (Inl (Mechanism (''mixed-strategy report index is invalid for agent '' @ show_nat (agent_no agent) @
           '' role '' @ show_nat role)), reports))"

definition report_agent ::
    "'f float_ops \<Rightarrow> ('g \<Rightarrow> nat) \<Rightarrow> ('g, 'a, 'f, 's, 'x, 'r) rule_driver \<Rightarrow> ('g, 'a, 'f, 's, 'x, 'n, 'd) game_world \<Rightarrow> agent_id \<Rightarrow>
     'f policy_reports \<Rightarrow> unit result \<times> 'f policy_reports" where
  "report_agent F n_roles self w agent reports =
     (case native_rule self (gw_policies w) agent of
        None \<Rightarrow> (Inr (), reports)
      | Some (state_slot, rule) \<Rightarrow>
          for_each (report_role F w rule (pt_states (gw_policies w) ! state_slot) agent) [0..<n_roles (gw_game w)] reports)"

definition driver_learn ::
    "'f float_ops \<Rightarrow> ('g \<Rightarrow> nat) \<Rightarrow> ('g, 'a, 'f, 's, 'x, 'r) rule_driver \<Rightarrow> ('g, 'a, 'f, 's, 'x, 'n, 'd) game_world \<Rightarrow>
     unit result \<times> ('g, 'a, 'f, 's, 'x, 'n, 'd) game_world" where
  "driver_learn F n_roles self w =
     (case for_each (learn_agent self) (sort (gw_ids w)) w of
        (Inl e, w) \<Rightarrow> (Inl e, w)
      | (Inr _, w) \<Rightarrow>
          if \<not> rd_report_mixed self then (Inr (), w)
          else (case gw_reports w of
                  None \<Rightarrow> (Inl (Mechanism ''mixed-strategy reporting is enabled but the report table is missing''), w)
                | Some reports \<Rightarrow>
                    (let (r, reports) = for_each (report_agent F n_roles self w) (sort (gw_ids w))
                           (reports_reset (clk_t (gw_clock w)) reports)
                     in (r, w\<lparr>gw_reports := Some reports\<rparr>))))"

definition game_decide ::
    "'f float_ops \<Rightarrow> ('g, 'a, 'y) stage_game_scheme \<Rightarrow> ('a, 'c, 'f, 'j) event_ops \<Rightarrow> ('g, 'a, 'f, 's, 'x, 'r) rule_driver \<Rightarrow>
     (('g, 'a, 'f, 's, 'x, 'r) rule_driver, ('g, 'a, 'f, 's, 'x, 'n, 'd) game_world, 'r, 'c, 'ty, 'v) mechanism" where
  "game_decide F G E self =
     \<lparr>mech_name = ''game_decide'', mech_phases = [Decision, Reward], mech_self = self,
      mech_apply = (\<lambda>self ph ctx.
        case ph of
          Decision \<Rightarrow> driver_decide G E self ctx
        | Reward \<Rightarrow> (let (r, w) = driver_learn F (sg_n_roles G) self (ctx_world ctx) in (r, self, ctx\<lparr>ctx_world := w\<rparr>))
        | _ \<Rightarrow> (Inr (), self, ctx))\<rparr>"

end
