(* ===== verification/Decide_Facts.thy ===== *)
theory Decide_Facts
  imports Decide
begin

section \<open>What the Decision phase leaves in the seats\<close>

text \<open>
  The scan of the seats by the driver, one seat, role and agent at a time: each turn keeps the board and
  fills seats of its own agent only, with actions the role's check accepts.
\<close>

text \<open>\<open>board w\<close> is what the driver never changes; the actions in the seats are what it fills.\<close>

definition board where
  "board w = (gw_game w, gw_ids w, pa_n_roles (gw_plays w), pa_seats (gw_plays w), pa_credit (gw_plays w),
     pa_payoffs (gw_plays w), length (pa_actions (gw_plays w)), pt_slot (gw_policies w), pt_kinds (gw_policies w),
     pt_kind_of (gw_policies w), length (gw_held w), gw_clock w)"

lemma boardD:
  assumes "board w = board v"
  shows "gw_game w = gw_game v" "gw_ids w = gw_ids v" "pa_n_roles (gw_plays w) = pa_n_roles (gw_plays v)"
    "pa_seats (gw_plays w) = pa_seats (gw_plays v)" "length (pa_actions (gw_plays w)) = length (pa_actions (gw_plays v))"
    "pt_slot (gw_policies w) = pt_slot (gw_policies v)" "pt_kinds (gw_policies w) = pt_kinds (gw_policies v)"
    "pt_kind_of (gw_policies w) = pt_kind_of (gw_policies v)" "gw_clock w = gw_clock v"
    "pa_credit (gw_plays w) = pa_credit (gw_plays v)" "pa_payoffs (gw_plays w) = pa_payoffs (gw_plays v)"
  using assms by (simp_all add: board_def)

lemma for_each_success:
  assumes "for_each body xs s = (Inr (), s')" "I s"
    and "\<And>x s s'. x \<in> set xs \<Longrightarrow> I s \<Longrightarrow> body x s = (Inr (), s') \<Longrightarrow> I s' \<and> P x s' \<and> (\<forall>y. P y s \<longrightarrow> P y s')"
  shows "I s' \<and> (\<forall>x \<in> set xs. P x s')"
proof -
  have "I s' \<and> (\<forall>x \<in> set xs. P x s') \<and> (\<forall>y. P y s \<longrightarrow> P y s')"
    using assms
  proof (induction xs arbitrary: s)
    case (Cons x xs)
    obtain s1 where s1: "body x s = (Inr (), s1)" "for_each body xs s1 = (Inr (), s')"
      using Cons.prems(1) by (auto split: prod.splits sum.splits)
    have "I s1 \<and> P x s1 \<and> (\<forall>y. P y s \<longrightarrow> P y s1)" using Cons.prems(3) [of x s s1] Cons.prems(2) s1(1) by simp
    moreover have "I s' \<and> (\<forall>x \<in> set xs. P x s') \<and> (\<forall>y. P y s1 \<longrightarrow> P y s')"
      using Cons.prems(3) \<open>I s1 \<and> _\<close> by (intro Cons.IH [OF s1(2)]) auto
    ultimately show ?case by auto
  qed simp
  then show ?thesis by blast
qed

subsection \<open>The scan of the seats\<close>

definition is_held :: "('g, 'a, 'f, 's, 'x, 'n, 'd) game_world \<Rightarrow> agent_id \<Rightarrow> bool" where
  "is_held w agent \<longleftrightarrow> get_opt (pt_slot (gw_policies w)) (agent_no agent) = Some HELD"

definition active_seats :: "('g, 'a, 'f, 's, 'x, 'n, 'd) game_world \<Rightarrow> (nat \<times> agent_id) list \<Rightarrow> agent_id \<Rightarrow> nat list" where
  "active_seats w seats agent = map fst (filter (\<lambda>(_, other). other = agent \<and> \<not> is_held w agent) seats)"

abbreviation active_of :: "('g, 'a, 'f, 's, 'x, 'r) seat_scan \<Rightarrow> agent_id \<rightharpoonup> nat list" where
  "active_of scan \<equiv> (case ss_active scan of None \<Rightarrow> Map.empty | Some m \<Rightarrow> m)"

text \<open>The fields the marks of a call leave alone.\<close>

definition driver_config where
  "driver_config self = (rd_rules self, rd_on_invalid self, rd_scope self, rd_report_mixed self, rd_multi_role self)"

lemma driver_configD:
  assumes "driver_config d = driver_config self"
  shows "rd_rules d = rd_rules self" "rd_on_invalid d = rd_on_invalid self" "rd_scope d = rd_scope self"
    "rd_report_mixed d = rd_report_mixed self" "rd_multi_role d = rd_multi_role self"
  using assms by (simp_all add: driver_config_def)

definition scan_agrees where
  "scan_agrees w self done scan \<longleftrightarrow>
     driver_config (ss_driver scan) = driver_config self \<and>
     length (ss_actions scan) = length (pa_actions (gw_plays w)) \<and>
     (\<forall>i < length (ss_actions scan). ss_actions scan ! i =
        (case map_of done i of Some agent \<Rightarrow> if is_held w agent then Some (gw_held w ! agent_no agent) else pa_actions (gw_plays w) ! i
         | None \<Rightarrow> pa_actions (gw_plays w) ! i)) \<and>
     active_of scan = (\<lambda>agent. if active_seats w done agent = [] then None else Some (active_seats w done agent))"

lemma claim_role_frame:
  assumes "claim_role n agent role scan = (r, scan')"
  shows "ss_actions scan' = ss_actions scan \<and> ss_active scan' = ss_active scan \<and>
    driver_config (ss_driver scan') = driver_config (ss_driver scan)"
  using assms by (auto simp: driver_config_def claim_role_def next_generation_def Let_def split: option.splits if_splits)

lemma scan_seat_agrees:
  assumes "scan_agrees w self done scan" "scan_seat G w (i, agent) scan = (Inr (), scan')" "i \<notin> fst ` set done"
  shows "scan_agrees w self (done @ [(i, agent)]) scan'"
proof -
  obtain slot where slot: "get_opt (pt_slot (gw_policies w)) (agent_no agent) = Some slot"
    using assms(2) by (auto simp: scan_seat_def Let_def split: option.splits)
  have active: "active_seats w (done @ [(i, agent)]) a = active_seats w done a @ (if a = agent \<and> \<not> is_held w agent then [i] else [])" for a
    by (simp add: active_seats_def)
  have fresh: "map_of done i = None" using assms(3) by (simp add: map_of_eq_None_iff)
  have look: "map_of (done @ [(i, agent)]) j = (if j = i then Some agent else map_of done j)" for j
    using fresh by (auto simp: map_add_def split: option.split)
  show ?thesis
  proof (cases "slot = HELD")
    case True
    then have held: "is_held w agent" using slot by (simp add: is_held_def)
    obtain scan1 where scan': "scan' = scan1\<lparr>ss_actions := list_update (ss_actions scan1) i (Some (gw_held w ! agent_no agent))\<rparr>"
      and scan1: "ss_actions scan1 = ss_actions scan" "ss_active scan1 = ss_active scan"
        "driver_config (ss_driver scan1) = driver_config (ss_driver scan)"
      using assms(2) True slot
      by (auto simp: scan_seat_def Let_def split: prod.splits sum.splits if_splits dest!: claim_role_frame)
    have acts: "ss_actions scan' = list_update (ss_actions scan) i (Some (gw_held w ! agent_no agent))"
      and rest: "ss_active scan' = ss_active scan" "driver_config (ss_driver scan') = driver_config (ss_driver scan)"
      by (simp_all add: scan' scan1)
    have "active_seats w (done @ [(i, agent)]) = active_seats w done" using held by (simp add: fun_eq_iff active)
    then show ?thesis
      using assms(1) held unfolding scan_agrees_def look acts rest
      by (auto simp: nth_list_update)
  next
    case False
    then have held: "\<not> is_held w agent" using slot by (simp add: is_held_def)
    have scan': "scan' = scan\<lparr>ss_active := Some ((active_of scan)
        (agent \<mapsto> (case active_of scan agent of Some xs \<Rightarrow> xs | None \<Rightarrow> []) @ [i]))\<rparr>"
      using assms(2) False slot by (simp add: scan_seat_def Let_def split: option.splits)
    have act: "active_of scan = (\<lambda>agent. if active_seats w done agent = [] then None else Some (active_seats w done agent))"
      using assms(1) by (simp add: scan_agrees_def)
    then have "active_of scan' = (\<lambda>a. if active_seats w (done @ [(i, agent)]) a = [] then None
        else Some (active_seats w (done @ [(i, agent)]) a))"
      using held unfolding scan' active by (auto simp: fun_eq_iff)
    then show ?thesis
      using assms(1) held fresh unfolding scan_agrees_def look by (simp add: scan')
  qed
qed

lemma scan_seats_agree:
  assumes "for_each (scan_seat G w) seats scan = (Inr (), scan')" "scan_agrees w self done scan" "distinct (map fst (done @ seats))"
  shows "scan_agrees w self (done @ seats) scan'"
  using assms
proof (induction seats arbitrary: scan "done")
  case (Cons s seats)
  obtain i agent where s: "s = (i, agent)" by (cases s)
  obtain scan1 where "scan_seat G w s scan = (Inr (), scan1)" "for_each (scan_seat G w) seats scan1 = (Inr (), scan')"
    using Cons.prems(1) by (auto split: prod.splits sum.splits)
  moreover from this have "scan_agrees w self (done @ [s]) scan1"
    using Cons.prems(2,3) scan_seat_agrees by (auto simp: s)
  ultimately show ?case using Cons.IH [of scan1 "done @ [s]"] Cons.prems(3) by simp
qed simp

subsection \<open>The decisions\<close>

text \<open>Assembly accepts only fallback actions that every role accepts.\<close>

definition fallbacks_fit :: "('g, 'a, 'y) stage_game_scheme \<Rightarrow> 'a on_invalid_action \<Rightarrow> 'g \<Rightarrow> bool" where
  "fallbacks_fit G on_invalid game \<longleftrightarrow>
     (\<forall>fallbacks kind action role. on_invalid = Fallback fallbacks \<longrightarrow> fallbacks kind = Some action \<longrightarrow>
        role < sg_n_roles G game \<longrightarrow> sg_check_action G game role action = Inr ())"

lemma validate_in_accepts:
  assumes "validate_in G E self agent kind role action ctx = (Inr action', ctx')"
  shows "board (ctx_world ctx') = board (ctx_world ctx) \<and> ctx_world ctx' = ctx_world ctx \<and>
    sg_check_action G (gw_game (ctx_world ctx)) role action' = Inr () \<and>
    (action' = action \<or> (\<exists>fallbacks. rd_on_invalid self = Fallback fallbacks \<and> fallbacks kind = Some action'))"
  using assms by (auto simp: validate_in_def validate_action_def Let_def split: sum.splits on_invalid_action.splits option.splits)

lemma validate_seats_accepts:
  assumes "validate_seats G E self agent kind seats action ctx = (Inr action', ctx')"
    and "fallbacks_fit G (rd_on_invalid self) (gw_game (ctx_world ctx))"
    and "\<forall>seat. seat mod pa_n_roles (gw_plays (ctx_world ctx)) < sg_n_roles G (gw_game (ctx_world ctx))"
  shows "ctx_world ctx' = ctx_world ctx \<and>
    (\<forall>seat \<in> set seats. sg_check_action G (gw_game (ctx_world ctx)) (seat mod pa_n_roles (gw_plays (ctx_world ctx))) action' = Inr ()) \<and>
    (action' = action \<or> (\<forall>role < sg_n_roles G (gw_game (ctx_world ctx)). sg_check_action G (gw_game (ctx_world ctx)) role action' = Inr ()))"
  using assms
proof (induction seats arbitrary: action ctx)
  case (Cons seat seats)
  let ?w = "ctx_world ctx"
  obtain action1 ctx1 where first: "validate_in G E self agent kind (seat mod pa_n_roles (gw_plays ?w)) action ctx = (Inr action1, ctx1)"
      and rest: "validate_seats G E self agent kind seats action1 ctx1 = (Inr action', ctx')"
    using Cons.prems(1) by (auto split: prod.splits sum.splits)
  note acc = validate_in_accepts [OF first]
  then have w: "ctx_world ctx1 = ?w" by simp
  have all: "action1 = action \<or> (\<forall>role < sg_n_roles G (gw_game ?w). sg_check_action G (gw_game ?w) role action1 = Inr ())"
    using acc Cons.prems(2) by (auto simp: fallbacks_fit_def)
  have IH: "ctx_world ctx' = ?w \<and>
    (\<forall>seat \<in> set seats. sg_check_action G (gw_game ?w) (seat mod pa_n_roles (gw_plays ?w)) action' = Inr ()) \<and>
    (action' = action1 \<or> (\<forall>role < sg_n_roles G (gw_game ?w). sg_check_action G (gw_game ?w) role action' = Inr ()))"
    using Cons.IH [OF rest] Cons.prems(2,3) unfolding w by blast
  then show ?case using acc all Cons.prems(3) by auto
qed simp

lemma run_rule_frame:
  assumes "run_rule rule k agent unit role enc opponents ctx = (r, ctx')"
  shows "board (ctx_world ctx') = board (ctx_world ctx) \<and> gw_plays (ctx_world ctx') = gw_plays (ctx_world ctx) \<and>
    gw_held (ctx_world ctx') = gw_held (ctx_world ctx)"
  using assms by (auto simp: run_rule_def board_def Let_def split: prod.splits)

lemma write_seats_frame:
  "board (write_seats seats action w) = board w \<and> gw_held (write_seats seats action w) = gw_held w"
proof -
  have "length (fold (\<lambda>seat acts. list_update acts seat (Some action)) seats acts) = length acts" for acts
    by (induction seats arbitrary: acts) auto
  then show ?thesis by (simp add: write_seats_def board_def)
qed

lemma write_seats_nth:
  "pa_actions (gw_plays (write_seats seats action w)) ! i =
    (if i \<in> set seats \<and> i < length (pa_actions (gw_plays w)) then Some action else pa_actions (gw_plays w) ! i)"
proof -
  have "fold (\<lambda>seat acts. list_update acts seat (Some action)) seats acts ! i =
      (if i \<in> set seats \<and> i < length acts then Some action else acts ! i)" for acts
  proof (induction seats arbitrary: acts)
    case (Cons seat seats)
    then show ?case by (cases "seat < length acts"; cases "seat = i") (auto simp: nth_list_update list_update_beyond)
  qed simp
  then show ?thesis by (simp add: write_seats_def)
qed

text \<open>
  What one agent's turn does: it fills the agent's seats with accepted actions and leaves the other seats
  and the other agents' held actions.
\<close>

definition seat_ok where
  "seat_ok G w i \<longleftrightarrow> (\<exists>action. pa_actions (gw_plays w) ! i = Some action \<and>
     sg_check_action G (gw_game w) (i mod pa_n_roles (gw_plays w)) action = Inr ())"

definition filled_from where
  "filled_from G w0 agent seats w \<longleftrightarrow> board w = board w0 \<and>
     (\<forall>i. i \<notin> set seats \<longrightarrow> pa_actions (gw_plays w) ! i = pa_actions (gw_plays w0) ! i) \<and>
     (\<forall>i \<in> set seats. i < length (pa_actions (gw_plays w0)) \<longrightarrow>
        seat_ok G w i \<or> pa_actions (gw_plays w) ! i = pa_actions (gw_plays w0) ! i) \<and>
     (\<forall>k. k \<noteq> agent_no agent \<longrightarrow> gw_held w ! k = gw_held w0 ! k)"

lemma filled_from_refl: "filled_from G w agent seats w"
  by (simp add: filled_from_def)

lemma filled_from_trans:
  assumes "filled_from G w0 agent seats w1" "filled_from G w1 agent seats w2"
  shows "filled_from G w0 agent seats w2"
  unfolding filled_from_def
proof (intro conjI allI ballI impI)
  fix i assume i: "i \<in> set seats" "i < length (pa_actions (gw_plays w0))"
  have "length (pa_actions (gw_plays w1)) = length (pa_actions (gw_plays w0))"
    using assms(1) boardD(5) by (auto simp: filled_from_def)
  then have "seat_ok G w2 i \<or> pa_actions (gw_plays w2) ! i = pa_actions (gw_plays w1) ! i"
    using assms(2) i by (simp add: filled_from_def)
  moreover have "seat_ok G w1 i \<or> pa_actions (gw_plays w1) ! i = pa_actions (gw_plays w0) ! i"
    using assms(1) i by (simp add: filled_from_def)
  moreover have "seat_ok G w2 i" if "seat_ok G w1 i" "pa_actions (gw_plays w2) ! i = pa_actions (gw_plays w1) ! i"
    using that boardD(1,3) [of w2 w1] assms(2) by (auto simp: seat_ok_def filled_from_def)
  ultimately show "seat_ok G w2 i \<or> pa_actions (gw_plays w2) ! i = pa_actions (gw_plays w0) ! i" by auto
qed (use assms in \<open>auto simp: filled_from_def\<close>)

lemma write_seats_filled:
  assumes "\<forall>i \<in> set seats'. sg_check_action G (gw_game w) (i mod pa_n_roles (gw_plays w)) action = Inr ()" "set seats' \<subseteq> set seats"
  shows "filled_from G w agent seats (write_seats seats' action w) \<and>
    (\<forall>i \<in> set seats'. i < length (pa_actions (gw_plays w)) \<longrightarrow> seat_ok G (write_seats seats' action w) i)"
proof -
  note b = boardD(1,3) [OF conjunct1 [OF write_seats_frame, of seats' action w]]
  have "seat_ok G (write_seats seats' action w) i" if "i \<in> set seats'" "i < length (pa_actions (gw_plays w))" for i
    using that assms(1) by (simp add: seat_ok_def write_seats_nth b)
  then show ?thesis using assms(2) by (auto simp: filled_from_def write_seats_frame write_seats_nth)
qed

lemma filled_from_same:
  assumes "board w1 = board w" "gw_plays w1 = gw_plays w" "gw_held w1 = gw_held w" "filled_from G w1 agent seats w2"
  shows "filled_from G w agent seats w2"
  using assms by (simp add: filled_from_def)

lemma decide_per_step_fills:
  fixes ctx
  defines "w \<equiv> ctx_world ctx"
  assumes run: "decide_per_step G E self rule kind k agent seats ctx = (Inr (), ctx')"
    and fit: "fallbacks_fit G (rd_on_invalid self) (gw_game w)"
    and roles: "0 < pa_n_roles (gw_plays w)" "pa_n_roles (gw_plays w) = sg_n_roles G (gw_game w)"
    and single: "rd_multi_role self \<or> card (set (map (\<lambda>seat. seat mod pa_n_roles (gw_plays w)) seats)) \<le> 1"
    and seats: "seats \<noteq> []"
  shows "filled_from G w agent seats (ctx_world ctx') \<and>
    (\<forall>i \<in> set seats. i < length (pa_actions (gw_plays w)) \<longrightarrow> seat_ok G (ctx_world ctx') i)"
proof -
  let ?n = "pa_n_roles (gw_plays w)"
  let ?checked = "if rd_multi_role self then seats else [last seats]"
  define opponents where "opponents = (if rd_multi_role self then opponent_set (gw_plays w) agent seats
    else filter (\<lambda>other. other \<noteq> agent) (row_of ?n (last seats div ?n) (pa_seats (gw_plays w))))"
  define enc where "enc = encounter (gw_plays w) (EncounterId (last seats div ?n mod 2 ^ 32))"
  note run' = run [unfolded decide_per_step_def Let_def, folded w_def, folded opponents_def enc_def]
  obtain action ctx1 where rule: "run_rule rule k agent UnitStep (last seats mod ?n) enc opponents ctx = (Inr action, ctx1)"
    using run' by (cases "run_rule rule k agent UnitStep (last seats mod ?n) enc opponents ctx") (auto split: sum.splits)
  note run'' = run' [unfolded rule prod.case sum.case]
  obtain action' ctx2 where valid: "validate_seats G E self agent kind ?checked action ctx1 = (Inr action', ctx2)"
    using run'' by (cases "validate_seats G E self agent kind ?checked action ctx1") (auto split: sum.splits)
  have ctx': "ctx_world ctx' = write_seats seats action' ((ctx_world ctx2)\<lparr>gw_held := list_update (gw_held (ctx_world ctx2)) (agent_no agent) action'\<rparr>)"
    using run'' [unfolded valid prod.case sum.case] by auto
  note frame = run_rule_frame [OF rule]
  then have b1: "board (ctx_world ctx1) = board w" "gw_plays (ctx_world ctx1) = gw_plays w" "gw_held (ctx_world ctx1) = gw_held w"
    by (simp_all add: w_def)
  then have game: "gw_game (ctx_world ctx1) = gw_game w" by (simp add: board_def)
  have acc: "ctx_world ctx2 = ctx_world ctx1" "\<forall>seat \<in> set ?checked. sg_check_action G (gw_game w) (seat mod ?n) action' = Inr ()"
    using validate_seats_accepts [OF valid] fit roles by (simp_all add: game b1(2))
  have all: "sg_check_action G (gw_game w) (i mod ?n) action' = Inr ()" if "i \<in> set seats" for i
  proof (cases "rd_multi_role self")
    case False
    have "card ((\<lambda>seat. seat mod ?n) ` set seats) \<le> Suc 0" using single False by simp
    then have "\<forall>x \<in> (\<lambda>seat. seat mod ?n) ` set seats. \<forall>y \<in> (\<lambda>seat. seat mod ?n) ` set seats. x = y"
      by (rule iffD1 [OF card_le_Suc0_iff_eq, rotated]) (rule finite_imageI, rule finite_set)
    moreover have "last seats \<in> set seats" using seats by simp
    ultimately have "i mod ?n = last seats mod ?n" using that by blast
    then show ?thesis using acc(2) False by simp
  qed (use acc(2) that in simp)
  define v where "v = (ctx_world ctx1)\<lparr>gw_held := list_update (gw_held (ctx_world ctx1)) (agent_no agent) action'\<rparr>"
  have v: "board v = board w" "gw_plays v = gw_plays w" "gw_game v = gw_game w"
    using b1 game by (simp_all add: v_def board_def)
  have "filled_from G w agent seats v" using v b1 by (auto simp: filled_from_def v_def)
  moreover have "filled_from G v agent seats (ctx_world ctx') \<and>
      (\<forall>i \<in> set seats. i < length (pa_actions (gw_plays v)) \<longrightarrow> seat_ok G (ctx_world ctx') i)"
    using write_seats_filled [of seats G v action' seats agent] all by (simp add: ctx' acc(1) v_def [symmetric] v)
  ultimately show ?thesis using filled_from_trans v(2) by metis
qed

lemma decide_group_fills:
  fixes ctx
  defines "w \<equiv> ctx_world ctx"
  assumes run: "run_rule rule k agent unit role enc opponents ctx = (Inr action, ctx1)"
    and valid: "validate_in G E self agent kind role action ctx1 = (Inr action', ctx2)"
    and ctx': "ctx_world ctx' = write_seats seats' action' (ctx_world ctx2)"
    and role: "\<forall>i \<in> set seats'. i mod pa_n_roles (gw_plays w) = role" and sub: "set seats' \<subseteq> set seats"
  shows "filled_from G w agent seats (ctx_world ctx') \<and>
    (\<forall>i \<in> set seats'. i < length (pa_actions (gw_plays w)) \<longrightarrow> seat_ok G (ctx_world ctx') i)"
proof -
  note frame = run_rule_frame [OF run]
  have b1: "board (ctx_world ctx1) = board w" "gw_plays (ctx_world ctx1) = gw_plays w" "gw_held (ctx_world ctx1) = gw_held w"
    using frame by (simp_all add: w_def)
  then have game: "gw_game (ctx_world ctx1) = gw_game w" by (simp add: board_def)
  have acc: "ctx_world ctx2 = ctx_world ctx1" "sg_check_action G (gw_game w) role action' = Inr ()"
    using validate_in_accepts [OF valid] by (simp_all add: game)
  have "filled_from G (ctx_world ctx1) agent seats (ctx_world ctx') \<and>
      (\<forall>i \<in> set seats'. i < length (pa_actions (gw_plays (ctx_world ctx1))) \<longrightarrow> seat_ok G (ctx_world ctx') i)"
    using write_seats_filled [of seats' G "ctx_world ctx1" action' seats agent] role sub acc by (simp add: ctx' game b1(2))
  then show ?thesis using filled_from_same [OF b1, of G agent seats "ctx_world ctx'"] by (simp add: b1(2))
qed

lemma decide_role_fills:
  assumes "decide_role G E self rule kind k agent seats role ctx = (Inr (), ctx')"
  shows "filled_from G (ctx_world ctx) agent seats (ctx_world ctx') \<and>
    (\<forall>i \<in> set seats. i mod pa_n_roles (gw_plays (ctx_world ctx)) = role \<longrightarrow> i < length (pa_actions (gw_plays (ctx_world ctx))) \<longrightarrow>
       seat_ok G (ctx_world ctx') i)"
proof -
  let ?seats = "filter (\<lambda>seat. seat mod pa_n_roles (gw_plays (ctx_world ctx)) = role) seats"
  obtain action ctx1 action' ctx2 opponents enc unit where
      rule: "run_rule rule k agent unit role enc opponents ctx = (Inr action, ctx1)"
      and valid: "validate_in G E self agent kind role action ctx1 = (Inr action', ctx2)"
      and ctx': "ctx_world ctx' = write_seats ?seats action' (ctx_world ctx2)"
    using assms by (auto simp: decide_role_def Let_def split: prod.splits sum.splits)
  show ?thesis using decide_group_fills [OF rule valid ctx', of seats] by simp
qed

lemma decide_encounter_fills:
  assumes "decide_encounter G E self rule kind k agent seat ctx = (Inr (), ctx')" "seat \<in> set seats"
  shows "filled_from G (ctx_world ctx) agent seats (ctx_world ctx') \<and>
    (seat < length (pa_actions (gw_plays (ctx_world ctx))) \<longrightarrow> seat_ok G (ctx_world ctx') seat)"
proof -
  obtain action ctx1 action' ctx2 opponents enc unit where
      rule: "run_rule rule k agent unit (seat mod pa_n_roles (gw_plays (ctx_world ctx))) enc opponents ctx = (Inr action, ctx1)"
      and valid: "validate_in G E self agent kind (seat mod pa_n_roles (gw_plays (ctx_world ctx))) action ctx1 = (Inr action', ctx2)"
      and ctx': "ctx_world ctx' = write_seats [seat] action' (ctx_world ctx2)"
    using assms(1) by (auto simp: decide_encounter_def Let_def split: prod.splits sum.splits)
  show ?thesis using decide_group_fills [OF rule valid ctx', of seats] assms(2) by simp
qed

lemma seat_ok_persists:
  assumes "filled_from G w agent seats w'" "seat_ok G w i" "i < length (pa_actions (gw_plays w))"
  shows "seat_ok G w' i"
proof -
  have "seat_ok G w' i \<or> pa_actions (gw_plays w') ! i = pa_actions (gw_plays w) ! i"
    using assms(1,3) by (cases "i \<in> set seats") (simp_all add: filled_from_def)
  then show ?thesis using assms(1,2) boardD(1,3) [of w' w] by (auto simp: seat_ok_def filled_from_def)
qed

lemma native_rule_board:
  assumes "board w = board v"
  shows "native_rule self (gw_policies w) agent = native_rule self (gw_policies v) agent"
  unfolding native_rule_def boardD(6-8) [OF assms] ..

lemma decide_loop_fills:
  assumes run: "for_each body xs ctx = (Inr (), ctx')"
    and step: "\<And>x s s'. x \<in> set xs \<Longrightarrow> board (ctx_world s) = board (ctx_world ctx) \<Longrightarrow> body x s = (Inr (), s') \<Longrightarrow>
      filled_from G (ctx_world s) agent seats (ctx_world s') \<and> (\<forall>i \<in> Q x. i < length (pa_actions (gw_plays (ctx_world s))) \<longrightarrow> seat_ok G (ctx_world s') i)"
  shows "filled_from G (ctx_world ctx) agent seats (ctx_world ctx') \<and>
    (\<forall>x \<in> set xs. \<forall>i \<in> Q x. i < length (pa_actions (gw_plays (ctx_world ctx))) \<longrightarrow> seat_ok G (ctx_world ctx') i)"
proof -
  let ?len = "length (pa_actions (gw_plays (ctx_world ctx)))"
  let ?I = "\<lambda>s. filled_from G (ctx_world ctx) agent seats (ctx_world s)"
  let ?P = "\<lambda>x s. \<forall>i \<in> Q x. i < ?len \<longrightarrow> seat_ok G (ctx_world s) i"
  have "?I s' \<and> ?P x s' \<and> (\<forall>y. ?P y s \<longrightarrow> ?P y s')" if x: "x \<in> set xs" "?I s" "body x s = (Inr (), s')" for x s s'
  proof -
    have b: "board (ctx_world s) = board (ctx_world ctx)" using x(2) by (simp add: filled_from_def)
    note st = step [OF x(1) b x(3)]
    have "length (pa_actions (gw_plays (ctx_world s))) = ?len" using boardD(5) [OF b] .
    then show ?thesis
      using st filled_from_trans [OF x(2)] seat_ok_persists [OF conjunct1 [OF st]] by auto
  qed
  from for_each_success [where I = ?I and P = ?P, OF run filled_from_refl this] show ?thesis by blast
qed

lemma decide_agent_fills:
  fixes ctx
  defines "w \<equiv> ctx_world ctx"
  assumes run: "decide_agent G E self active agent ctx = (Inr (), ctx')" and act: "active agent = Some seats" "seats \<noteq> []"
    and fit: "fallbacks_fit G (rd_on_invalid self) (gw_game w)"
    and roles: "0 < pa_n_roles (gw_plays w)" "pa_n_roles (gw_plays w) = sg_n_roles G (gw_game w)"
    and slot: "get_opt (pt_slot (gw_policies w)) (agent_no agent) = Some k" "k \<noteq> HELD"
  shows "if native_rule self (gw_policies w) agent = None then ctx' = ctx
    else filled_from G w agent seats (ctx_world ctx') \<and>
      (\<forall>i \<in> set seats. i < length (pa_actions (gw_plays w)) \<longrightarrow> seat_ok G (ctx_world ctx') i)"
proof -
  let ?n = "pa_n_roles (gw_plays w)"
  define kind where "kind = pt_kinds (gw_policies w) ! kind_no (pt_kind_of (gw_policies w) ! k)"
  have "pt_slot (gw_policies w) ! agent_no agent = k" using slot(1) by (simp add: get_opt_def split: if_splits)
  then have native: "native_rule self (gw_policies w) agent = map_option (Pair k) (rule_get_optional (rd_rules self) kind)"
    using slot(2) by (simp add: native_rule_def kind_def Let_def)
  note run' = run [unfolded decide_agent_def Let_def act(1) w_def [symmetric] slot(1) kind_def [symmetric] option.case]
  show ?thesis
  proof (cases "rule_get_optional (rd_rules self) kind")
    case None
    then show ?thesis using run' native by simp
  next
    case (Some rule)
    have single: "\<not> (rd_scope self = PerStep \<and> \<not> rd_multi_role self \<and> 1 < card (set (map (\<lambda>seat. seat mod ?n) seats)))"
      using run' [unfolded Some option.case] by (auto split: if_splits)
    note body = run' [unfolded Some option.case if_not_P [OF single]]
    have "filled_from G w agent seats (ctx_world ctx') \<and>
      (\<forall>i \<in> set seats. i < length (pa_actions (gw_plays w)) \<longrightarrow> seat_ok G (ctx_world ctx') i)"
    proof (cases "rd_scope self")
      case PerStep
      then have "decide_per_step G E self rule kind k agent seats ctx = (Inr (), ctx')" using body by simp
      moreover have "rd_multi_role self \<or> card (set (map (\<lambda>seat. seat mod ?n) seats)) \<le> 1"
        using single PerStep by (simp add: not_less)
      ultimately show ?thesis
        unfolding w_def using decide_per_step_fills [of G E self rule kind k agent seats ctx ctx'] fit roles act(2)
        by (simp add: w_def)
    next
      case PerAgentRole
      define role_list where "role_list = sorted_list_of_set (set (map (\<lambda>seat. seat mod ?n) seats))"
      have loop: "for_each (decide_role G E self rule kind k agent seats) role_list ctx = (Inr (), ctx')"
        using body PerAgentRole by (simp add: role_list_def)
      have "filled_from G (ctx_world ctx) agent seats (ctx_world ctx') \<and>
        (\<forall>role \<in> set role_list. \<forall>i \<in> {i \<in> set seats. i mod ?n = role}. i < length (pa_actions (gw_plays (ctx_world ctx))) \<longrightarrow>
           seat_ok G (ctx_world ctx') i)"
      proof (rule decide_loop_fills [OF loop])
        fix role s s' assume "board (ctx_world s) = board (ctx_world ctx)" "decide_role G E self rule kind k agent seats role s = (Inr (), s')"
        then show "filled_from G (ctx_world s) agent seats (ctx_world s') \<and>
          (\<forall>i \<in> {i \<in> set seats. i mod ?n = role}. i < length (pa_actions (gw_plays (ctx_world s))) \<longrightarrow> seat_ok G (ctx_world s') i)"
          using decide_role_fills [of G E self rule kind k agent seats role s s'] boardD(3) [of "ctx_world s" w] by (simp add: w_def)
      qed
      moreover have "set role_list = (\<lambda>seat. seat mod ?n) ` set seats" by (simp add: role_list_def)
      ultimately show ?thesis unfolding w_def by blast
    next
      case PerEncounter
      then have loop: "for_each (decide_encounter G E self rule kind k agent) seats ctx = (Inr (), ctx')" using body by simp
      have "filled_from G (ctx_world ctx) agent seats (ctx_world ctx') \<and>
        (\<forall>seat \<in> set seats. \<forall>i \<in> {seat}. i < length (pa_actions (gw_plays (ctx_world ctx))) \<longrightarrow> seat_ok G (ctx_world ctx') i)"
        by (rule decide_loop_fills [OF loop]) (use decide_encounter_fills in blast)
      then show ?thesis by (simp add: w_def)
    qed
    then show ?thesis using native Some by simp
  qed
qed

end
