(* ===== verification/Decide_Result.thy ===== *)
theory Decide_Result
  imports Decide_Facts
begin

section \<open>The result of a Decision phase\<close>

text \<open>
  The scan of the seats and the turns of the agents together: which seats a call of the driver fills,
  with what, and what it leaves alone.
\<close>

lemma native_rule_config:
  assumes "driver_config d = driver_config self"
  shows "native_rule d pt agent = native_rule self pt agent"
  unfolding native_rule_def driver_configD(1) [OF assms] ..

lemma active_seats_enumerate:
  "i \<in> set (active_seats w (List.enumerate 0 xs) a) \<longleftrightarrow> i < length xs \<and> xs ! i = a \<and> \<not> is_held w a"
  by (force simp: active_seats_def in_set_enumerate_eq image_iff)

lemma map_of_enumerate: "map_of (List.enumerate 0 xs) i = (if i < length xs then Some (xs ! i) else None)"
proof (cases "i < length xs")
  case True
  have "distinct (map fst (List.enumerate 0 xs))" by simp
  moreover have "(i, xs ! i) \<in> set (List.enumerate 0 xs)" using True by (simp add: in_set_enumerate_eq)
  ultimately show ?thesis using True map_of_is_SomeI by simp
next
  case False
  then show ?thesis by (auto simp: map_of_eq_None_iff enumerate_eq_zip dest: set_zip_leftD)
qed

lemma filled_from_other:
  assumes "filled_from G w agent seats w'" "i \<notin> set seats"
  shows "pa_actions (gw_plays w') ! i = pa_actions (gw_plays w) ! i"
  using assms by (simp add: filled_from_def)

lemma decide_turn:
  assumes run: "decide_agent G E d (\<lambda>agent. if active_seats w (List.enumerate 0 seats) agent = [] then None
      else Some (active_seats w (List.enumerate 0 seats) agent)) x s = (Inr (), s')"
    and x: "x \<in> set order" and b: "board (ctx_world s) = board w"
    and config: "driver_config d = driver_config self"
    and fit: "fallbacks_fit G (rd_on_invalid self) (gw_game w)"
    and roles: "0 < pa_n_roles (gw_plays w)" "pa_n_roles (gw_plays w) = sg_n_roles G (gw_game w)"
    and len: "length (pa_actions (gw_plays w)) = length seats"
    and kept: "\<forall>i < length seats. is_held w (seats ! i) \<or> seats ! i \<notin> set order \<or> native_rule self (gw_policies w) (seats ! i) = None \<longrightarrow>
        pa_actions (gw_plays (ctx_world s)) ! i = acts ! i"
  shows "(board (ctx_world s') = board w \<and>
     (\<forall>i < length seats. is_held w (seats ! i) \<or> seats ! i \<notin> set order \<or> native_rule self (gw_policies w) (seats ! i) = None \<longrightarrow>
        pa_actions (gw_plays (ctx_world s')) ! i = acts ! i)) \<and>
     (\<forall>i < length seats. seats ! i = x \<and> \<not> is_held w x \<and> native_rule self (gw_policies w) x \<noteq> None \<longrightarrow> seat_ok G (ctx_world s') i) \<and>
     (\<forall>i < length seats. seat_ok G (ctx_world s) i \<longrightarrow> seat_ok G (ctx_world s') i)"
proof (cases "active_seats w (List.enumerate 0 seats) x = []")
  case True
  have "\<forall>i < length seats. seats ! i = x \<longrightarrow> is_held w x"
    using active_seats_enumerate [of _ w seats x] True by auto
  moreover have "s' = s" using run True by (simp add: decide_agent_def Let_def)
  ultimately show ?thesis using b kept by blast
next
  case False
  let ?own = "active_seats w (List.enumerate 0 seats) x"
  note own = active_seats_enumerate [of _ w seats x]
  have "\<not> is_held w x" using False own by (metis last_in_set)
  note eqs = boardD [OF b]
  obtain k where k: "get_opt (pt_slot (gw_policies (ctx_world s))) (agent_no x) = Some k"
    using run False by (auto simp: decide_agent_def Let_def split: option.splits)
  then have "k \<noteq> HELD" using \<open>\<not> is_held w x\<close> by (simp add: is_held_def eqs(6))
  have nat: "native_rule d (gw_policies (ctx_world s)) x = native_rule self (gw_policies w) x"
    using native_rule_config [OF config] native_rule_board [OF b] by metis
  have turn: "if native_rule self (gw_policies w) x = None then s' = s
      else filled_from G (ctx_world s) x ?own (ctx_world s') \<and> (\<forall>i \<in> set ?own. i < length (pa_actions (gw_plays (ctx_world s))) \<longrightarrow> seat_ok G (ctx_world s') i)"
    using decide_agent_fills [OF run, of ?own k] False k \<open>k \<noteq> HELD\<close> fit roles eqs(1,3) driver_configD(2) [OF config]
    by (simp add: nat)
  show ?thesis
  proof (cases "native_rule self (gw_policies w) x = None")
    case True
    then show ?thesis using turn b kept by auto
  next
    case native: False
    then have filled: "filled_from G (ctx_world s) x ?own (ctx_world s')"
      and ok: "\<forall>i \<in> set ?own. i < length seats \<longrightarrow> seat_ok G (ctx_world s') i"
      using turn len eqs(5) by simp_all
    have "board (ctx_world s') = board w" using filled b by (simp add: filled_from_def)
    moreover have "pa_actions (gw_plays (ctx_world s')) ! i = acts ! i"
      if "i < length seats" "is_held w (seats ! i) \<or> seats ! i \<notin> set order \<or> native_rule self (gw_policies w) (seats ! i) = None" for i
    proof -
      have "\<not> (seats ! i = x \<and> \<not> is_held w (seats ! i))" using that(2) x native by metis
      then have "i \<notin> set ?own" using own [of i] by metis
      from filled_from_other [OF filled this] show ?thesis using kept that by metis
    qed
    moreover have "seat_ok G (ctx_world s') i" if "i < length seats" "seats ! i = x" for i
    proof -
      have "i \<in> set ?own" using own [of i] that \<open>\<not> is_held w x\<close> by simp
      with ok that(1) show ?thesis by blast
    qed
    moreover have "seat_ok G (ctx_world s') i" if "i < length seats" "seat_ok G (ctx_world s) i" for i
      using seat_ok_persists [OF filled that(2)] that(1) len eqs(5) by simp
    ultimately show ?thesis by (intro conjI allI impI) simp_all
  qed
qed

lemma decide_order_fills:
  assumes run: "for_each (decide_agent G E d (\<lambda>agent. if active_seats w (List.enumerate 0 seats) agent = [] then None
      else Some (active_seats w (List.enumerate 0 seats) agent))) order s = (Inr (), s')"
    and b: "board (ctx_world s) = board w" and acts: "pa_actions (gw_plays (ctx_world s)) = acts"
    and config: "driver_config d = driver_config self"
    and fit: "fallbacks_fit G (rd_on_invalid self) (gw_game w)"
    and roles: "0 < pa_n_roles (gw_plays w)" "pa_n_roles (gw_plays w) = sg_n_roles G (gw_game w)"
    and len: "length (pa_actions (gw_plays w)) = length seats"
  shows "board (ctx_world s') = board w \<and>
     (\<forall>i < length seats. if \<not> is_held w (seats ! i) \<and> seats ! i \<in> set order \<and> native_rule self (gw_policies w) (seats ! i) \<noteq> None
        then seat_ok G (ctx_world s') i else pa_actions (gw_plays (ctx_world s')) ! i = acts ! i)"
proof -
  let ?I = "\<lambda>s. board (ctx_world s) = board w \<and>
     (\<forall>i < length seats. is_held w (seats ! i) \<or> seats ! i \<notin> set order \<or> native_rule self (gw_policies w) (seats ! i) = None \<longrightarrow>
        pa_actions (gw_plays (ctx_world s)) ! i = acts ! i)"
  let ?P = "\<lambda>x s. \<forall>i < length seats. seats ! i = x \<and> \<not> is_held w x \<and> native_rule self (gw_policies w) x \<noteq> None \<longrightarrow> seat_ok G (ctx_world s) i"
  have "?I s' \<and> (\<forall>x \<in> set order. ?P x s')"
  proof (rule for_each_success [where I = ?I and P = ?P, OF run])
    fix x s s'
    assume x: "x \<in> set order" and I: "?I s"
      and step: "decide_agent G E d (\<lambda>agent. if active_seats w (List.enumerate 0 seats) agent = [] then None
        else Some (active_seats w (List.enumerate 0 seats) agent)) x s = (Inr (), s')"
    from decide_turn [OF step x conjunct1 [OF I] config fit roles len conjunct2 [OF I]]
    show "?I s' \<and> ?P x s' \<and> (\<forall>y. ?P y s \<longrightarrow> ?P y s')" by blast
  qed (use b acts in simp)
  then show ?thesis by auto
qed

text \<open>
  C6: A Decision phase that succeeds changes nothing of the encounters, the credits, the payoffs, the
  policy slots or the clock, and settles every seat by its agent: the held action for an agent without a
  policy of its own, an action its role's check accepts for an agent whose kind has a rule in this
  driver and that is in the step's order, and the action already there for every other agent, whatever
  the scope, the fallbacks and the rules do.
\<close>

lemma decide_fills_seats:
  fixes ctx
  defines "w \<equiv> ctx_world ctx"
  assumes run: "driver_decide G E self ctx = (Inr (), self', ctx')"
    and fit: "fallbacks_fit G (rd_on_invalid self) (gw_game w)"
    and roles: "0 < pa_n_roles (gw_plays w)" "pa_n_roles (gw_plays w) = sg_n_roles G (gw_game w)"
    and len: "length (pa_actions (gw_plays w)) = length (pa_seats (gw_plays w))"
    and i: "i < length (pa_seats (gw_plays w))"
  shows "board (ctx_world ctx') = board w \<and>
    (let agent = pa_seats (gw_plays w) ! i; actions = pa_actions (gw_plays (ctx_world ctx'))
     in if is_held w agent then actions ! i = Some (gw_held w ! agent_no agent)
        else if agent \<in> set (ctx_agent_order ctx) \<and> native_rule self (gw_policies w) agent \<noteq> None then seat_ok G (ctx_world ctx') i
        else actions ! i = pa_actions (gw_plays w) ! i)"
proof -
  let ?seats = "pa_seats (gw_plays w)"
  let ?first = "\<lparr>ss_driver = self, ss_started = False, ss_actions = pa_actions (gw_plays w), ss_active = None\<rparr>"
  obtain r scan where scan: "for_each (scan_seat G w) (List.enumerate 0 ?seats) ?first = (r, scan)"
    by (cases "for_each (scan_seat G w) (List.enumerate 0 ?seats) ?first")
  note run' = run [unfolded driver_decide_def Let_def w_def [symmetric] scan prod.case]
  have r: "r = Inr ()" using run' by (cases r) auto
  let ?ctx = "ctx\<lparr>ctx_world := w\<lparr>gw_plays := (gw_plays w)\<lparr>pa_actions := ss_actions scan\<rparr>\<rparr>\<rparr>"
  have "scan_agrees w self [] ?first" by (simp add: scan_agrees_def active_seats_def fun_eq_iff)
  then have agrees: "scan_agrees w self (List.enumerate 0 ?seats) scan"
    using scan_seats_agree [OF scan [unfolded r], of self "[]"] by simp
  then have b: "board (ctx_world ?ctx) = board w" by (simp add: board_def scan_agrees_def)
  have config: "driver_config (ss_driver scan) = driver_config self" using agrees by (simp add: scan_agrees_def)
  have acts: "ss_actions scan ! i = (if is_held w (?seats ! i) then Some (gw_held w ! agent_no (?seats ! i)) else pa_actions (gw_plays w) ! i)"
    using agrees i len by (simp add: scan_agrees_def map_of_enumerate)
  have active: "active_of scan = (\<lambda>agent. if active_seats w (List.enumerate 0 ?seats) agent = [] then None
      else Some (active_seats w (List.enumerate 0 ?seats) agent))" using agrees by (simp add: scan_agrees_def)
  show ?thesis
  proof (cases "ss_active scan")
    case None
    then have "\<forall>agent. active_seats w (List.enumerate 0 ?seats) agent = []"
      using active by (simp add: fun_eq_iff split: if_splits)
    then have "is_held w (?seats ! i)" using active_seats_enumerate [of i w ?seats "?seats ! i"] i by auto
    then show ?thesis using run' None b acts by (auto simp: r Let_def)
  next
    case (Some m)
    then have "for_each (decide_agent G E (ss_driver scan) (\<lambda>agent. if active_seats w (List.enumerate 0 ?seats) agent = [] then None
        else Some (active_seats w (List.enumerate 0 ?seats) agent))) (ctx_agent_order ctx) ?ctx = (Inr (), ctx')"
      using run' [unfolded r sum.case Some option.case] active by (simp split: prod.splits)
    from decide_order_fills [OF this b _ config fit roles len, of "ss_actions scan"] i acts
    show ?thesis by (auto simp: Let_def split: if_splits)
  qed
qed

definition two_action_game :: "(unit, nat) stage_game" where
  "two_action_game = \<lparr>sg_n_roles = (\<lambda>_. 2),
     sg_check_action = (\<lambda>_ role action. if action < 2 then Inr () else Inl (InvalidAction role action))\<rparr>"

definition stray_rule :: "(unit, nat, nat, unit, unit, unit) decision_rule" where
  "stray_rule = \<lparr>dr_name = ''stray'', dr_init_state = (\<lambda>_ _. Inr ()), dr_decide = (\<lambda>st _ rng. (Inr 9, st, rng)),
     dr_learn_step = no_learn_step, dr_learn_encounter = no_learn_encounter, dr_needs_encounter_learning = False,
     dr_needs_pair_history = False, dr_mixed = (\<lambda>_ _ _. None)\<rparr>"

definition stray_driver :: "(unit, nat, nat, unit, unit, unit) rule_driver" where
  "stray_driver = rule_driver_new [(''stray'', stray_rule)] (Fallback [''stray'' \<mapsto> 1]) PerEncounter False False"

definition stray_context :: "(unit, nat, nat, unit, unit, unit, unit, unit, unit, unit, unit) decide_context" where
  "stray_context =
     \<lparr>ctx_world = (idle_world 2)\<lparr>gw_policies := policy_new [''stray''] [0, HELD] [RuleKindId 0] [()],
        gw_plays := \<lparr>pa_n_roles = 2, pa_seats = [AgentId 1, AgentId 0], pa_credit = [CreditAll],
          pa_actions = [None, None], pa_payoffs = [0, 0]\<rparr>\<rparr>,
      ctx_clock = clock_new 10, ctx_rng = (), ctx_recorder = (), ctx_agent_order = [AgentId 0, AgentId 1],
      ctx_scratch = \<lparr>bb_map = Map.empty\<rparr>, ctx_stop = False\<rparr>"

definition quiet_events :: "(nat, unit, nat, unit) event_ops" where
  "quiet_events = \<lparr>ev_recorder = null_recorder, ev_invalid_action = (\<lambda>_ _ _ _. ())\<rparr>"

lemma idle_world_2:
  "gw_ids (idle_world 2) = [AgentId 0, AgentId 1]" "gw_held (idle_world 2) = [0, 0]"
  by (simp_all add: idle_world_def numeral_2_eq_2)

lemma stray_run:
  "\<exists>self' ctx'. driver_decide two_action_game quiet_events stray_driver stray_context = (Inr (), self', ctx') \<and>
     pa_actions (gw_plays (ctx_world ctx')) = [Some 0, Some 1]"
  by (simp add: driver_decide_def stray_driver_def stray_context_def rule_driver_new_def policy_new_def scan_seat_def Let_def
      idle_world_2 HELD_def u32_max_def get_opt_def decide_agent_def rule_get_optional_def
      decide_encounter_def run_rule_def stray_rule_def validate_in_def validate_action_def two_action_game_def
      write_seats_def quiet_events_def null_recorder_def)

theorem decide_fills_seats_witness:
  "\<exists>self' ctx'. driver_decide two_action_game quiet_events stray_driver stray_context = (Inr (), self', ctx') \<and>
     seat_ok two_action_game (ctx_world ctx') 1"
proof -
  obtain self' ctx' where run: "driver_decide two_action_game quiet_events stray_driver stray_context = (Inr (), self', ctx')"
    using stray_run by blast
  have "fallbacks_fit two_action_game (rd_on_invalid stray_driver) (gw_game (ctx_world stray_context))"
    by (auto simp: fallbacks_fit_def stray_driver_def rule_driver_new_def two_action_game_def split: if_splits)
  from decide_fills_seats [OF run this, of 1] show ?thesis
    using run by (simp add: stray_context_def two_action_game_def is_held_def get_opt_def policy_new_def HELD_def u32_max_def
        native_rule_def Let_def rule_get_optional_def stray_driver_def rule_driver_new_def)
qed

end
