(* ===== verification/Memory.thy ===== *)
theory Memory
  imports Decide Learning
begin

section \<open>What the learning rules remember of each opponent\<close>

text \<open>
  Under encounter-wise decisions a learning rule keeps one learned state per opponent in a sorted
  vector. The vector refines a map from agents, and what it holds for one agent is what that agent's
  own encounters alone would have taught.
\<close>

subsection \<open>The sorted vector as a map\<close>

definition memory_ok :: "(agent_id \<times> 't) list \<Rightarrow> bool" where
  "memory_ok entries \<longleftrightarrow> sorted_wrt (<) (map fst entries)"

lemma memory_ok_distinct: "memory_ok entries \<Longrightarrow> distinct (map fst entries)"
  by (simp add: memory_ok_def sorted_wrt_less_distinct)

lemma list_insert_map: "map f (list_insert i x xs) = list_insert i (f x) (map f xs)"
  by (simp add: list_insert_def take_map drop_map)

lemma map_of_list_insert:
  assumes "k \<notin> fst ` set xs"
  shows "map_of (list_insert i (k, v) xs) = (map_of xs)(k \<mapsto> v)"
proof -
  have "k \<notin> dom (map_of (take i xs))" using assms by (auto simp: dom_map_of_conv_image_fst dest: in_set_takeD)
  then have "map_of (list_insert i (k, v) xs) = (map_of (drop i xs) ++ map_of (take i xs))(k \<mapsto> v)"
    by (simp add: list_insert_def map_add_upd_left)
  also have "map_of (drop i xs) ++ map_of (take i xs) = map_of (take i xs @ drop i xs)" by (simp only: map_of_append)
  finally show ?thesis by (simp only: append_take_drop_id)
qed

lemma get_or_try_insert_spec:
  assumes "memory_ok entries" "get_or_try_insert entries opponent init = Inr (entries', i)"
  shows "memory_ok entries' \<and> i < length entries' \<and> fst (entries' ! i) = opponent \<and>
    (case map_of entries opponent of Some x \<Rightarrow> Inr x | None \<Rightarrow> init ()) = Inr (snd (entries' ! i)) \<and>
    map_of entries' = (map_of entries)(opponent \<mapsto> snd (entries' ! i))"
proof (cases "binary_search (map fst entries) opponent")
  case (Inl at_index)
  obtain x where x: "init () = Inr x" "entries' = list_insert at_index (opponent, x) entries" "i = at_index"
    using assms(2) unfolding get_or_try_insert_def Inl sum.case try_bind_eq_Inr by auto
  note missing = binary_search_missing [OF assms(1) [unfolded memory_ok_def] Inl]
  have le: "at_index \<le> length entries" and new: "opponent \<notin> fst ` set entries" using missing by auto
  have ok: "memory_ok entries'" using missing by (simp add: memory_ok_def x(2) list_insert_map)
  have e: "entries' ! i = (opponent, x)" "i < length entries'"
    using le by (simp_all add: x list_insert_def nth_append)
  have "map_of entries opponent = None" using new by (simp add: map_of_eq_None_iff)
  then show ?thesis using ok e x(1) map_of_list_insert [OF new, of at_index x] by (simp add: x(2))
next
  case (Inr at_index)
  note found = binary_search_found [OF Inr]
  have e: "entries' = entries" "i = at_index" using assms(2) Inr by (simp_all add: get_or_try_insert_def)
  have "entries ! i = (opponent, snd (entries ! i))" "i < length entries"
    using found by (auto simp: e prod_eq_iff)
  then have "(opponent, snd (entries ! i)) \<in> set entries" by (metis nth_mem)
  then have "map_of entries opponent = Some (snd (entries ! i))"
    by (rule map_of_is_SomeI [OF memory_ok_distinct [OF assms(1)]])
  then show ?thesis using found assms(1) by (auto simp: e fun_upd_triv)
qed

lemma map_of_list_update:
  assumes "distinct (map fst xs)" "i < length xs"
  shows "map_of (list_update xs i (fst (xs ! i), v)) = (map_of xs)(fst (xs ! i) \<mapsto> v)"
  using assms
proof (induction xs arbitrary: i)
  case (Cons x xs)
  show ?case
  proof (cases i)
    case (Suc j)
    then have "xs ! j \<in> set xs" "fst x \<notin> fst ` set xs" using Cons.prems by auto
    then have "fst (xs ! j) \<noteq> fst x" by (metis image_eqI)
    then show ?thesis using Cons.IH [of j] Cons.prems Suc by (cases x) (auto simp: fun_eq_iff)
  qed (cases x; auto simp: fun_eq_iff)
qed simp

lemma memory_update:
  assumes "memory_ok entries" "i < length entries" "fst (entries ! i) = opponent"
  shows "memory_ok (list_update entries i (opponent, x)) \<and>
    map_of (list_update entries i (opponent, x)) = (map_of entries)(opponent \<mapsto> x)"
proof -
  have "map fst (list_update entries i (opponent, x)) = map fst entries"
    using assms(2,3) by (metis fst_conv list_update_id map_update nth_map)
  then show ?thesis
    using assms map_of_list_update [OF memory_ok_distinct [OF assms(1)] assms(2), of x] by (simp add: memory_ok_def)
qed

subsection \<open>One opponent's encounters\<close>

text \<open>What an opponent's own encounters teach, starting from a state or from none.\<close>

fun recall ::
    "(nat \<Rightarrow> rule_error + 't) \<Rightarrow> ((nat, 'f) encounter_outcome \<Rightarrow> 't \<Rightarrow> (rule_error + unit) \<times> 't) \<Rightarrow>
     (nat, 'f) encounter_outcome list \<Rightarrow> 't option \<Rightarrow> rule_error + 't option" where
  "recall initial observe [] memory = Inr memory"
| "recall initial observe (outcome # outcomes) memory =
     (case (case memory of Some x \<Rightarrow> Inr x | None \<Rightarrow> initial (eo_role outcome)) of
        Inl e \<Rightarrow> Inl e
      | Inr x \<Rightarrow>
          (case observe outcome x of
             (Inl e, _) \<Rightarrow> Inl e
           | (Inr _, x') \<Rightarrow> recall initial observe outcomes (Some x')))"

definition meets :: "string \<Rightarrow> agent_id \<Rightarrow> (nat, 'f) encounter_outcome \<Rightarrow> bool" where
  "meets rule opponent outcome \<longleftrightarrow>
     (case outcome_opponent outcome rule of Inr (_, other) \<Rightarrow> other = opponent | Inl _ \<Rightarrow> False)"

lemma keyed_encounter:
  assumes contract: "slot_contract (sl_slot S) (sl_put S) (sl_from S)"
    and run: "keyed_learn_encounter S rule slot_name initial observe st outcome lc = (Inr (), st1)"
    and lc: "lc_scope lc = PerEncounter" and st: "sl_slot S st = Some state" and ok: "memory_ok (os_by_opponent state)"
  shows "\<exists>opponent state1 x x'. meets rule opponent outcome \<and> sl_slot S st1 = Some state1 \<and> os_global state1 = os_global state \<and>
    memory_ok (os_by_opponent state1) \<and> observe outcome x = (Inr (), x') \<and>
    (case map_of (os_by_opponent state) opponent of Some x \<Rightarrow> Inr x | None \<Rightarrow> initial (lc_game lc) (eo_role outcome)) = Inr x \<and>
    map_of (os_by_opponent state1) = (map_of (os_by_opponent state))(opponent \<mapsto> x')"
proof -
  note run' = run [unfolded keyed_learn_encounter_def]
  obtain r opponent where opp: "outcome_opponent outcome rule = Inr (r, opponent)"
    using run' lc by (cases "outcome_opponent outcome rule") auto
  obtain entries i where ins: "get_or_try_insert (os_by_opponent state) opponent (\<lambda>_. initial (lc_game lc) (eo_role outcome)) = Inr (entries, i)"
    using run' lc opp st
    by (cases "get_or_try_insert (os_by_opponent state) opponent (\<lambda>_. initial (lc_game lc) (eo_role outcome))") auto
  obtain r' x' where obs: "observe outcome (snd (entries ! i)) = (r', x')"
    by (cases "observe outcome (snd (entries ! i))")
  note spec = get_or_try_insert_spec [OF ok ins]
  let ?state1 = "state\<lparr>os_by_opponent := list_update entries i (opponent, x')\<rparr>"
  have "r' = Inr ()" "st1 = sl_put S ?state1 st"
    using run' lc opp st ins obs spec by (simp_all add: Let_def)
  moreover have "sl_slot S (sl_put S ?state1 st) = Some ?state1"
    by (rule slot_contract.slot_put [OF contract]) (simp add: st)
  moreover have "meets rule opponent outcome" by (simp add: meets_def opp)
  ultimately show ?thesis using spec obs memory_update [of entries i opponent x'] by (intro exI [of _ opponent] exI) auto
qed

lemma keyed_encounters:
  assumes contract: "slot_contract (sl_slot S) (sl_put S) (sl_from S)"
    and run: "try_each (\<lambda>outcome st. keyed_learn_encounter S rule slot_name initial observe st outcome lc) outcomes st = (Inr (), st')"
    and lc: "lc_scope lc = PerEncounter" and st: "sl_slot S st = Some state" and ok: "memory_ok (os_by_opponent state)"
  shows "\<exists>state'. sl_slot S st' = Some state' \<and> os_global state' = os_global state \<and> memory_ok (os_by_opponent state') \<and>
    (\<forall>opponent. recall (initial (lc_game lc)) observe (filter (meets rule opponent) outcomes) (map_of (os_by_opponent state) opponent) =
       Inr (map_of (os_by_opponent state') opponent))"
  using run st ok
proof (induction outcomes arbitrary: st state)
  case (Cons outcome outcomes)
  obtain st1 where first: "keyed_learn_encounter S rule slot_name initial observe st outcome lc = (Inr (), st1)"
      and rest: "try_each (\<lambda>outcome st. keyed_learn_encounter S rule slot_name initial observe st outcome lc) outcomes st1 = (Inr (), st')"
    using Cons.prems(1) by (auto split: prod.splits sum.splits)
  obtain opponent state1 x x' where one: "meets rule opponent outcome" "sl_slot S st1 = Some state1"
      "os_global state1 = os_global state" "memory_ok (os_by_opponent state1)" "observe outcome x = (Inr (), x')"
      "(case map_of (os_by_opponent state) opponent of Some x \<Rightarrow> Inr x | None \<Rightarrow> initial (lc_game lc) (eo_role outcome)) = Inr x"
      "map_of (os_by_opponent state1) = (map_of (os_by_opponent state))(opponent \<mapsto> x')"
    using keyed_encounter [OF contract first lc Cons.prems(2,3)] by blast
  have only: "meets rule other outcome \<longleftrightarrow> other = opponent" for other
    using one(1) by (auto simp: meets_def split: sum.splits)
  obtain state' where state': "sl_slot S st' = Some state'" "os_global state' = os_global state1" "memory_ok (os_by_opponent state')"
      "\<forall>opponent. recall (initial (lc_game lc)) observe (filter (meets rule opponent) outcomes) (map_of (os_by_opponent state1) opponent) =
         Inr (map_of (os_by_opponent state') opponent)"
    using Cons.IH [OF rest one(2,4)] by blast
  show ?case
  proof (intro exI [of _ state'] conjI allI)
    fix other
    show "recall (initial (lc_game lc)) observe (filter (meets rule other) (outcome # outcomes)) (map_of (os_by_opponent state) other) =
       Inr (map_of (os_by_opponent state') other)"
      using state'(4) [rule_format, of other] one(5,6) by (cases "other = opponent") (simp_all add: only one(7))
  qed (use state' one(3) in simp_all)
qed simp

text \<open>
  C8: After encounter-wise fictitious play an agent's belief about each opponent is what that opponent's
  encounters alone, in their order, would have taught, starting from the belief it had or from a fresh
  one for the role of their first encounter: the sorted vector behaves as a map from opponents, the
  shared belief is untouched and no encounter leaks into another opponent's belief.
\<close>

theorem beliefs_kept_apart:
  assumes "learn_state (fictitious_rule F G R belief_slot self) lc (BpBelief state) = (Inr (), st')"
    and "lc_scope lc = PerEncounter" "memory_ok (os_by_opponent state)"
  shows "\<exists>state'. st' = BpBelief state' \<and> os_global state' = os_global state \<and> memory_ok (os_by_opponent state') \<and>
    (\<forall>opponent. recall (fictitious_initial F G self (lc_game lc)) (fictitious_observe F)
         (filter (meets ''FictitiousPlay'' opponent) (lc_outcomes lc)) (map_of (os_by_opponent state) opponent) =
       Inr (map_of (os_by_opponent state') opponent))"
proof -
  let ?learn = "\<lambda>outcome st. keyed_learn_encounter belief_slot ''FictitiousPlay'' ''BeliefState''
    (fictitious_initial F G self) (fictitious_observe F) st outcome lc"
  have "try_each ?learn (lc_outcomes lc) (BpBelief state) = (Inr (), st')"
    using assms(1,2) by (auto simp: learn_state_def fictitious_rule_def keyed_learn_step_def split: prod.splits sum.splits)
  from keyed_encounters [OF belief.slot_contract_axioms this assms(2) _ assms(3)] show ?thesis
    by (auto simp: belief_slot_def split: builtin_policy_state.splits)
qed

definition int_rules :: "int rule_ops" where
  "int_rules = \<lparr>fl_zero = 0, fl_nan = - 2000, fl_add = (+), fl_div = (div), fl_of_nat = int,
     fl_finite = (\<lambda>x. - 1000 < x), fl_one = 1, fl_sub = (-), fl_mul = (*), fl_eq = (=), fl_less = (<),
     fl_max = max, fl_neg_inf = - 1000, fl_exp = (\<lambda>x. x), fl_sum = sum_list, fl_product = prod_list,
     fl_abs = abs, fl_dist_tol = 0, fl_show = (\<lambda>_. []), fl_prob_tol = 0\<rparr>"

definition pennies_step :: "(unit, nat, int, unit) learn_context" where
  "pennies_step = \<lparr>lc_t = 1, lc_me = AgentId 0, lc_scope = PerEncounter,
     lc_record = \<lparr>sr_action = None, sr_payoff = 0, sr_n_played = 2\<rparr>, lc_ids = map AgentId [0..<3], lc_game = (),
     lc_held = [0, 0, 0], lc_history = step_history_new 0 3 1,
     lc_plays = \<lparr>pa_n_roles = 2, pa_seats = [AgentId 0, AgentId 1, AgentId 2, AgentId 0], pa_credit = [CreditAll, CreditAll],
       pa_actions = [Some 0, Some 1, Some 0, Some 1], pa_payoffs = [0, 0, 0, 0]\<rparr>, lc_x = ()\<rparr>"

definition plain_fictitious :: "int fictitious_play" where
  "plain_fictitious = \<lparr>fp_initial = None, fp_tie = LowestIndex\<rparr>"

definition fresh_belief :: "int fictitious_belief" where
  "fresh_belief = \<lparr>fb_counts = [0, 0], fb_empirical = [0, 0], fb_tie = LowestIndex\<rparr>"

lemma pennies_outcomes:
  "lc_outcomes pennies_step =
     [\<lparr>eo_id = EncounterId 0, eo_role = 0, eo_seats = [AgentId 0, AgentId 1], eo_actions = [Some 0, Some 1],
       eo_payoffs = [0, 0], eo_credit = CreditAll\<rparr>,
      \<lparr>eo_id = EncounterId 1, eo_role = 1, eo_seats = [AgentId 2, AgentId 0], eo_actions = [Some 0, Some 1],
       eo_payoffs = [0, 0], eo_credit = CreditAll\<rparr>]"
  by (simp add: lc_outcomes_def pennies_step_def n_encounters_def outcome_of_def row_of_def Let_def upt_rec
      List.map_filter_simps)

lemma pennies_learnt:
  "\<exists>st'. learn_state (fictitious_rule int_rules pennies cycling_draws belief_slot plain_fictitious) pennies_step
     (BpBelief (opponent_state_new fresh_belief)) = (Inr (), st')"
proof -
  have "lc_scope pennies_step = PerEncounter" "lc_game pennies_step = ()" by (simp_all add: pennies_step_def)
  moreover have "checked_inc_u64 0 = Some 1" by (simp add: checked_inc_u64_def u64_max_def)
  ultimately show ?thesis
    by (simp add: learn_state_def fictitious_rule_def pennies_outcomes keyed_learn_encounter_def outcome_opponent_def
        belief_slot_def opponent_state_new_def get_or_try_insert_def binary_search_def fictitious_initial_def
        plain_fictitious_def pennies_def fictitious_new_def opponent_role_def validate_two_player_def int_rules_def
        fictitious_observe_def outcome_action_def get_opt_def belief_observe_def
        list_insert_def keyed_learn_step_def fresh_belief_def numeral_2_eq_2)
qed

theorem beliefs_kept_apart_witness:
  "\<exists>state'. learn_state (fictitious_rule int_rules pennies cycling_draws belief_slot plain_fictitious) pennies_step
       (BpBelief (opponent_state_new fresh_belief)) = (Inr (), BpBelief state') \<and>
     recall (fictitious_initial int_rules pennies plain_fictitious ()) (fictitious_observe int_rules)
       (filter (meets ''FictitiousPlay'' (AgentId 2)) (lc_outcomes pennies_step)) None =
     Inr (map_of (os_by_opponent state') (AgentId 2))"
proof -
  obtain st' where run: "learn_state (fictitious_rule int_rules pennies cycling_draws belief_slot plain_fictitious) pennies_step
     (BpBelief (opponent_state_new fresh_belief)) = (Inr (), st')" using pennies_learnt by blast
  have "lc_scope pennies_step = PerEncounter" "lc_game pennies_step = ()" by (simp_all add: pennies_step_def)
  moreover have "memory_ok (os_by_opponent (opponent_state_new fresh_belief))" by (simp add: memory_ok_def opponent_state_new_def)
  ultimately obtain state' where "st' = BpBelief state'"
      "\<forall>opponent. recall (fictitious_initial int_rules pennies plain_fictitious ()) (fictitious_observe int_rules)
         (filter (meets ''FictitiousPlay'' opponent) (lc_outcomes pennies_step))
         (map_of (os_by_opponent (opponent_state_new fresh_belief)) opponent) = Inr (map_of (os_by_opponent state') opponent)"
    using beliefs_kept_apart [OF run] by metis
  then show ?thesis using run by (auto simp: opponent_state_new_def)
qed

end
