(* ===== verification/Typed_Rules.thy ===== *)
theory Typed_Rules
  imports Memory
begin

section \<open>Built-in rules play valid actions\<close>

text \<open>
  A typing discipline for the policy states: in a game with \<open>k\<close> actions for every role, the states of
  the built-in rules only ever mention actions below \<open>k\<close>, and so do the decisions made from them.
\<close>

subsection \<open>The learning primitives stay in range\<close>

lemma first_cumulative_index: "first_cumulative F draw c ivs = Some i \<Longrightarrow> i \<in> fst ` set ivs"
  by (induction F draw c ivs rule: first_cumulative.induct) (auto simp: Let_def split: if_splits)

lemma check_probability_index:
  "try_fold (check_probability F) last_positive ivs = Inr (Some i) \<Longrightarrow> last_positive = Some i \<or> i \<in> fst ` set ivs"
proof (induction ivs arbitrary: last_positive)
  case (Cons iv ivs)
  obtain next_positive where first: "check_probability F last_positive iv = Inr next_positive"
    and rest: "try_fold (check_probability F) next_positive ivs = Inr (Some i)"
    using Cons.prems by (auto simp: try_bind_eq_Inr)
  have "next_positive = last_positive \<or> next_positive = Some (fst iv)"
    using first by (auto simp: check_probability_def Let_def split: prod.splits if_splits)
  then show ?case using Cons.IH [OF rest] by auto
qed simp

lemma sample_probabilities_index:
  assumes "sample_probabilities F R ps rng = (Inr i, rng')"
  shows "i < length ps"
proof -
  have "i \<in> fst ` set (List.enumerate 0 ps)"
    using assms by (auto simp: sample_probabilities_def split: sum.splits option.splits prod.splits
        dest: check_probability_index first_cumulative_index)
  then show ?thesis by (auto simp: enumerate_eq_zip dest: set_zip_leftD)
qed

lemma scan_action_fold_subset:
  "try_fold (scan_action F value) (best, acts) xs = Inr (best', acts') \<Longrightarrow> set acts' \<subseteq> set acts \<union> set xs"
proof (induction xs arbitrary: best acts)
  case (Cons x xs)
  obtain best1 acts1 where first: "scan_action F value (best, acts) x = Inr (best1, acts1)"
    and rest: "try_fold (scan_action F value) (best1, acts1) xs = Inr (best', acts')"
    using Cons.prems by (auto simp: try_bind_eq_Inr)
  have "set acts1 \<subseteq> insert x (set acts)"
    using first by (auto simp: scan_action_def Let_def split: if_splits)
  then show ?case using Cons.IH [OF rest] by auto
qed simp

lemma scan_best_range: "scan_best F value n = Inr acts \<Longrightarrow> set acts \<subseteq> {..<n}"
  by (fastforce simp: scan_best_def try_bind_eq_Inr dest: scan_action_fold_subset)

lemma reinforce_length:
  "try_fold (reinforce F self chosen payoff) acc aps = Inr next' \<Longrightarrow> length next' = length acc + length aps"
proof (induction aps arbitrary: acc)
  case (Cons ap aps)
  obtain acc1 where first: "reinforce F self chosen payoff acc ap = Inr acc1"
    and rest: "try_fold (reinforce F self chosen payoff) acc1 aps = Inr next'"
    using Cons.prems by (auto simp: try_bind_eq_Inr)
  have "length acc1 = Suc (length acc)" using first by (auto simp: reinforce_def Let_def split: prod.splits if_splits)
  then show ?case using Cons.IH [OF rest] by simp
qed simp

lemma roth_erev_update_length: "length (re_propensities (snd (roth_erev_update F a payoff self))) = length (re_propensities self)"
  by (auto simp: roth_erev_update_def Let_def dest: reinforce_length split: sum.splits)

lemma roth_erev_choose_range: "roth_erev_choose F R self rng = (Inr a, rng') \<Longrightarrow> a < length (re_propensities self)"
  by (auto simp: roth_erev_choose_def roth_erev_probabilities_def Let_def dest!: sample_probabilities_index
      split: sum.splits if_splits)

lemma logit_choose_range: "logit_choose F R G game role self rng = (Inr a, rng') \<Longrightarrow> a < fg_n_actions G game role"
  by (auto simp: logit_choose_def logit_probabilities_def expected_payoffs_def Let_def try_bind_eq_Inr
      dest!: sample_probabilities_index split: sum.splits if_splits estimate_mode.splits option.splits)

lemma best_response_range:
  assumes "\<And>n r. 0 < n \<Longrightarrow> fst (dr_range R n r) < n" "best_response F R G game role self rng = (Inr a, rng')"
  shows "a < fg_n_actions G game role"
proof -
  obtain acts where "best_actions F G game role self = Inr acts" "resolve_tie R acts (fb_tie self) rng = (Inr a, rng')"
    using assms(2) by (auto simp: best_response_def split: sum.splits)
  moreover have "set acts \<subseteq> {..<fg_n_actions G game role}"
    using calculation(1) by (auto simp: best_actions_def try_bind_eq_Inr Let_def split: if_splits dest!: scan_best_range)
  moreover have "a \<in> set acts" using resolve_tie_Inr [OF calculation(2) assms(1)] by simp
  ultimately show ?thesis by auto
qed

definition automaton_typed :: "'f automaton_state \<Rightarrow> bool" where
  "automaton_typed self \<longleftrightarrow> at_coop self < 2 \<and> (\<forall>a. at_own_last self = Some a \<or> at_opponent_last self = Some a \<longrightarrow> a < 2)"

lemma automaton_new_typed: "automaton_new F kind coop = Inr self \<Longrightarrow> automaton_typed self"
  by (auto simp: automaton_new_def automaton_typed_def Let_def split: automaton_kind.splits if_splits)

lemma automaton_observe_typed: "automaton_typed self \<Longrightarrow> automaton_typed (snd (automaton_observe own other self))"
  by (auto simp: automaton_observe_def automaton_typed_def)

lemma next_action_range:
  assumes "automaton_typed self" "next_action F R self rng = (Inr a, rng')"
  shows "a < 2"
proof -
  have "length (generous_mix F coop g) = 2" for coop g by (simp add: generous_mix_def)
  then show ?thesis
    using assms sample_probabilities_index [of F R _ rng a rng']
    by (auto simp: next_action_def automaton_typed_def wsls_action_def Let_def less_2_cases_iff
        split: automaton_kind.splits option.splits if_splits) (metis less_2_cases_iff)+
qed


subsection \<open>Typed policy states\<close>

definition memory_all :: "('t \<Rightarrow> bool) \<Rightarrow> 't opponent_state \<Rightarrow> bool" where
  "memory_all P m \<longleftrightarrow> P (os_global m) \<and> (\<forall>x \<in> snd ` set (os_by_opponent m). P x)"

definition state_typed :: "nat \<Rightarrow> 'f builtin_policy_state \<Rightarrow> bool" where
  "state_typed k st =
     (case st of
        BpTitForTat tft \<Rightarrow> (\<forall>a. tft_last_opponent tft = Some a \<longrightarrow> a < k)
      | BpPropensity m \<Rightarrow> memory_all (\<lambda>self. length (re_propensities self) = k) m
      | BpAutomaton m \<Rightarrow> memory_all automaton_typed m
      | _ \<Rightarrow> True)"

text \<open>A game with the actions below \<open>k\<close> for every role, and plays that stay below \<open>k\<close>.\<close>

definition uniform_actions :: "('g, 'f, 'y) finite_game_scheme \<Rightarrow> 'g \<Rightarrow> nat \<Rightarrow> bool" where
  "uniform_actions G game k \<longleftrightarrow>
     (\<forall>role < sg_n_roles G game. fg_n_actions G game role = k \<and> (\<forall>a. sg_check_action G game role a = Inr () \<longleftrightarrow> a < k))"

definition plays_typed :: "nat \<Rightarrow> (nat, 'f) play_arena \<Rightarrow> bool" where
  "plays_typed k plays \<longleftrightarrow> (\<forall>a. Some a \<in> set (pa_actions plays) \<longrightarrow> a < k)"

definition well_behaved ::
    "('g, 'f, 'y) finite_game_scheme \<Rightarrow> 'g \<Rightarrow> nat \<Rightarrow> ('g, nat, 'f, 'f builtin_policy_state, 'x, 'r) decision_rule \<Rightarrow> bool" where
  "well_behaved G game k rule \<longleftrightarrow>
     (\<forall>init st0. dr_init_state rule init game = Inr st0 \<longrightarrow> state_typed k st0 \<and>
       (\<forall>st ctx role rng. state_typed k st \<longrightarrow> dc_game ctx = game \<longrightarrow> dc_role ctx = Some role \<longrightarrow> role < sg_n_roles G game \<longrightarrow>
          (case dr_decide rule st ctx rng of (r, st', rng') \<Rightarrow> state_typed k st' \<and> (\<forall>a. r = Inr a \<longrightarrow> a < k))) \<and>
       (\<forall>st lc. state_typed k st \<longrightarrow> lc_game lc = game \<longrightarrow> plays_typed k (lc_plays lc) \<longrightarrow> state_typed k (snd (learn_state rule lc st))))"

lemma try_fold_units:
  assumes "try_fold (\<lambda>_ x. f x) () xs = Inr ()" "x \<in> set xs"
  shows "f x = Inr ()"
  using assms by (induction xs) (auto simp: try_bind_eq_Inr)

lemma map_err_Inr [simp]: "map_err f r = Inr a \<longleftrightarrow> r = Inr a"
  by (cases r) (simp_all add: map_err_def)

lemma well_behavedI:
  fixes rule :: "('g, nat, 'f, 'f builtin_policy_state, 'x, 'r) decision_rule"
  assumes "\<And>init st0. dr_init_state rule init game = Inr st0 \<Longrightarrow> state_typed k st0"
    and "\<And>init st0 st ctx role rng r st' rng'. dr_init_state rule init game = Inr st0 \<Longrightarrow> state_typed k st \<Longrightarrow> dc_game ctx = game \<Longrightarrow>
      dc_role ctx = Some role \<Longrightarrow> role < sg_n_roles G game \<Longrightarrow> dr_decide rule st ctx rng = (r, st', rng') \<Longrightarrow>
      state_typed k st' \<and> (\<forall>a. r = Inr a \<longrightarrow> a < k)"
    and "\<And>init st0 st lc. dr_init_state rule init game = Inr st0 \<Longrightarrow> state_typed k st \<Longrightarrow> lc_game lc = game \<Longrightarrow>
      plays_typed k (lc_plays lc) \<Longrightarrow> state_typed k (snd (learn_state rule lc st))"
  shows "well_behaved G game k rule"
  unfolding well_behaved_def
proof (intro allI impI conjI)
  fix init st0 and st :: "'f builtin_policy_state" and ctx :: "('g, nat, 'f, 'x) decision_context" and role rng
  assume "dr_init_state rule init game = Inr st0" "state_typed k st" "dc_game ctx = game" "dc_role ctx = Some role" "role < sg_n_roles G game"
  then show "case dr_decide rule st ctx rng of (r, st', rng') \<Rightarrow> state_typed k st' \<and> (\<forall>a. r = Inr a \<longrightarrow> a < k)"
    using assms(2) by (cases "dr_decide rule st ctx rng") blast
qed (use assms in blast)+

lemma stateless_well_behaved:
  assumes init: "\<And>init st0. dr_init_state rule init game = Inr st0 \<Longrightarrow> state_typed k st0"
    and acts: "\<And>init st0 ctx role rng a rng'. dr_init_state rule init game = Inr st0 \<Longrightarrow> dc_game ctx = game \<Longrightarrow> dc_role ctx = Some role \<Longrightarrow>
      role < sg_n_roles G game \<Longrightarrow> choose_action ctx rng = (Inr a, rng') \<Longrightarrow> a < k"
    and "dr_decide rule = (\<lambda>st ctx rng. with_stateless S st (choose_action ctx rng) rng)"
    and "dr_learn_step rule = no_learn_step" "\<not> dr_needs_encounter_learning rule"
  shows "well_behaved G game k rule"
proof (rule well_behavedI)
  fix init st0 st ctx role rng r st' rng'
  assume "dr_init_state rule init game = Inr st0" "state_typed k st" "dc_game ctx = game" "dc_role ctx = Some role"
    "role < sg_n_roles G game" and run: "dr_decide rule st ctx rng = (r, st', rng')"
  then show "state_typed k st' \<and> (\<forall>a. r = Inr a \<longrightarrow> a < k)"
    using acts [of init st0 ctx role rng _ rng']
    by (cases "choose_action ctx rng") (auto simp: assms(3) with_stateless_def split: option.splits)
qed (use init in \<open>simp_all add: learn_state_def assms(4,5) no_learn_step_def\<close>)

lemma fixed_well_behaved:
  fixes game :: 'g
  assumes "uniform_actions G game k"
  shows "well_behaved G game k (fixed_rule G stateless_slot action :: ('g, nat, 'f, 'f builtin_policy_state, 'x, 'r) decision_rule)"
proof (rule stateless_well_behaved [where choose_action = "\<lambda>_ rng. (Inr action, rng)"])
  fix init st0 role a and rng rng' :: 'r and ctx :: "('g, nat, 'f, 'x) decision_context"
  assume init: "dr_init_state (fixed_rule G stateless_slot action) init game = Inr st0" and "role < sg_n_roles G game"
    "(Inr action, rng) = (Inr a, rng')"
  moreover have "try_fold (\<lambda>_ role. map_err (\<lambda>e. RuleInvalidAction (show_action_error e)) (sg_check_action G game role action))
      () [0..<sg_n_roles G game] = Inr ()"
    using init by (auto simp: fixed_rule_def fixed_init_def try_bind_eq_Inr)
  ultimately show "a < k" using try_fold_units [of _ "[0..<sg_n_roles G game]" role] assms by (fastforce simp: uniform_actions_def)
qed (auto simp: fixed_rule_def fixed_init_def try_bind_eq_Inr stateless_slot_def state_typed_def)

lemma uniform_well_behaved:
  fixes game :: 'g
  assumes "uniform_actions G game k" "\<And>n r. 0 < n \<Longrightarrow> fst (dr_range R n r) < n"
  shows "well_behaved G game k (uniform_rule F G R stateless_slot :: ('g, nat, 'f, 'f builtin_policy_state, 'x, 'r) decision_rule)"
proof (rule stateless_well_behaved [where choose_action = "uniform_decide G R"])
  fix ctx :: "('g, nat, 'f, 'x) decision_context" and role rng a rng'
  assume "dc_game ctx = game" "dc_role ctx = Some role" "role < sg_n_roles G game" "uniform_decide G R ctx rng = (Inr a, rng')"
  then show "a < k" using assms(1) assms(2) [of k rng]
    by (auto simp: uniform_decide_def Let_def uniform_actions_def split: if_splits prod.splits)
qed (auto simp: uniform_rule_def stateless_slot_def state_typed_def)

lemma find_none_below:
  assumes "find P [0..<n] = None" "i < n"
  shows "\<not> P i"
  using assms by (auto simp: find_None_iff)

lemma mixed_well_behaved:
  fixes game :: 'g
  assumes "uniform_actions G game k"
  shows "well_behaved G game k (mixed_rule F G R stateless_slot q :: ('g, nat, 'f, 'f builtin_policy_state, 'x, 'r) decision_rule)"
proof (rule stateless_well_behaved [where choose_action = "\<lambda>_ rng. mixed_decide F R q rng"])
  fix init st0 role a rng rng'
  assume init: "dr_init_state (mixed_rule F G R stateless_slot q :: ('g, nat, 'f, 'f builtin_policy_state, 'x, 'r) decision_rule) init game = Inr st0"
    and role: "role < sg_n_roles G game" and draw: "mixed_decide F R q rng = (Inr a, rng')"
  have "find (\<lambda>role. length q \<noteq> fg_n_actions G game role) [0..<sg_n_roles G game] = None"
    using init by (auto simp: mixed_rule_def mixed_init_def Let_def split: option.splits if_splits)
  from find_none_below [OF this role] have "length q = k" using role assms by (simp add: uniform_actions_def)
  then show "a < k" using draw sample_probabilities_index [of F R q rng a] by (auto simp: mixed_decide_def Let_def split: prod.splits)
qed (auto simp: mixed_rule_def mixed_init_def stateless_slot_def state_typed_def Let_def split: option.splits if_splits)

lemma scanned_reply_range:
  assumes "\<And>n r. 0 < n \<Longrightarrow> fst (dr_range R n r) < n" "scanned_reply F R self payoff n rng = (Inr a, rng')"
  shows "a < n"
proof -
  obtain best where "scan_best F payoff n = Inr best" "resolve_tie R best (my_tie self) rng = (Inr a, rng')"
    using assms(2) by (auto simp: scanned_reply_def Let_def split: sum.splits prod.splits)
  then have "set best \<subseteq> {..<n}" "a \<in> set best" using scan_best_range resolve_tie_Inr [OF _ assms(1)] by blast+
  then show ?thesis by auto
qed

lemma myopic_well_behaved:
  fixes game :: 'g
  assumes uniform: "uniform_actions G game k" and draws: "\<And>n r. 0 < n \<Longrightarrow> fst (dr_range R n r) < n"
  shows "well_behaved G game k (myopic_rule F G R stateless_slot self :: ('g, nat, 'f, 'f builtin_policy_state, 'x, 'r) decision_rule)"
proof (rule stateless_well_behaved [where choose_action = "myopic_decide F R G self"])
  fix init st0 and ctx :: "('g, nat, 'f, 'x) decision_context" and role a rng rng'
  assume init: "dr_init_state (myopic_rule F G R stateless_slot self :: ('g, nat, 'f, 'f builtin_policy_state, 'x, 'r) decision_rule) init game = Inr st0"
    and ctx: "dc_game ctx = game" "dc_role ctx = Some role" "role < sg_n_roles G game"
    and decided: "myopic_decide F R G self ctx rng = (Inr a, rng')"
  have "find (\<lambda>role. my_first self \<ge> fg_n_actions G game role) [0..<sg_n_roles G game] = None"
    using init by (auto simp: myopic_rule_def myopic_init_def split: option.splits)
  from find_none_below [OF this ctx(3)] have first: "my_first self < k" using ctx(3) uniform by (simp add: uniform_actions_def)
  have "assigned_role ctx ''MyopicBestResponse'' = Inr role" by (simp add: assigned_role_def ok_or_def ctx(2))
  then have "a = my_first self \<or> (\<exists>payoff. scanned_reply F R self payoff (fg_n_actions G game role) rng = (Inr a, rng'))"
    using decided by (auto simp: myopic_decide_def ctx Let_def best_response_to_opponent_actions_def
        split: if_splits option.splits sum.splits)
  then show "a < k" using first scanned_reply_range [OF draws] uniform ctx(3) by (auto simp: uniform_actions_def)
qed (auto simp: myopic_rule_def myopic_init_def stateless_slot_def state_typed_def split: option.splits)

subsection \<open>Rules with learned states\<close>

text \<open>A property \<open>P\<close> of the learned states that \<open>initial\<close> gives and \<open>observe\<close> keeps.\<close>

lemma try_each_keeps:
  assumes "\<And>x s. P s \<Longrightarrow> x \<in> set xs \<Longrightarrow> P (snd (body x s))" "P s"
  shows "P (snd (try_each body xs s))"
  using assms
proof (induction xs arbitrary: s)
  case (Cons x xs)
  have "P (snd (body x s))" using Cons.prems by simp
  then show ?case using Cons.IH [of "snd (body x s)"] Cons.prems(1) by (cases "body x s") (auto split: sum.splits)
qed simp

lemma memory_insert:
  assumes "get_or_try_insert entries opponent init = Inr (entries', i)" "\<forall>x \<in> snd ` set entries. P x" "\<And>x. init () = Inr x \<Longrightarrow> P x"
  shows "(\<forall>x \<in> snd ` set entries'. P x) \<and> i < length entries'"
proof (cases "binary_search (map fst entries) opponent")
  case (Inl at_index)
  obtain x where x: "init () = Inr x" "entries' = list_insert at_index (opponent, x) entries" "i = at_index"
    using assms(1) unfolding get_or_try_insert_def Inl sum.case try_bind_eq_Inr by auto
  have "at_index \<le> length entries" using Inl length_takeWhile_le [of _ "map fst entries"]
    by (auto simp: binary_search_def Let_def split: if_splits)
  then show ?thesis using assms(2) assms(3) [OF x(1)]
    by (auto simp: x(2,3) list_insert_def dest: in_set_takeD in_set_dropD)
next
  case (Inr at_index)
  then show ?thesis using assms(1,2) binary_search_found [OF Inr] by (auto simp: get_or_try_insert_def)
qed

lemma keyed_decide_keeps:
  assumes put: "\<And>m m' st. sl_slot S st = Some m \<Longrightarrow> T st \<Longrightarrow> memory_all P m \<and> (memory_all P m' \<longrightarrow> T (sl_put S m' st))"
    and new: "\<And>role x. initial (dc_game ctx) role = Inr x \<Longrightarrow> P x"
    and T: "T st" and run: "keyed_decide S rule slot_name initial act st ctx rng = (r, st', rng')"
  shows "T st' \<and> (\<forall>a. r = Inr a \<longrightarrow> (\<exists>x role. dc_role ctx = Some role \<and> P x \<and> act (dc_game ctx) role x rng = (Inr a, rng')))"
proof (cases "assigned_role ctx rule")
  case (Inr role)
  then have role: "dc_role ctx = Some role" by (auto simp: assigned_role_def ok_or_def split: option.splits)
  show ?thesis
  proof (cases "sl_slot S st")
    case (Some m)
    note m = put [OF Some T]
    show ?thesis
    proof (cases "dc_scope ctx = PerEncounter")
      case True
      show ?thesis
      proof (cases "try_bind (decision_opponent ctx rule) (\<lambda>opponent.
          get_or_try_insert (os_by_opponent m) opponent (\<lambda>_. initial (dc_game ctx) role))")
        case (Inl e)
        then show ?thesis using run T by (auto simp: keyed_decide_def Inr Some True)
      next
        case ins: (Inr ei)
        obtain entries i where ei: "ei = (entries, i)" by (cases ei)
        obtain opponent where "get_or_try_insert (os_by_opponent m) opponent (\<lambda>_. initial (dc_game ctx) role) = Inr (entries, i)"
          using ins by (auto simp: ei try_bind_eq_Inr)
        from memory_insert [OF this, of P] m new have all: "\<forall>x \<in> snd ` set entries. P x" "i < length entries"
          by (auto simp: memory_all_def)
        then have "P (snd (entries ! i))" by (meson image_eqI nth_mem)
        moreover have "memory_all P (m\<lparr>os_by_opponent := entries\<rparr>)" using m all by (simp add: memory_all_def)
        ultimately show ?thesis using run m role
          by (auto simp: keyed_decide_def Inr Some True ins ei Let_def split: prod.splits)
      qed
    next
      case False
      then show ?thesis using run m role T by (auto simp: keyed_decide_def Inr Some Let_def memory_all_def split: prod.splits)
    qed
  qed (use run T Inr in \<open>auto simp: keyed_decide_def\<close>)
qed (use run T in \<open>auto simp: keyed_decide_def\<close>)

lemma keyed_learn_step_keeps:
  assumes put: "\<And>m m' st. sl_slot S st = Some m \<Longrightarrow> T st \<Longrightarrow> memory_all P m \<and> (memory_all P m' \<longrightarrow> T (sl_put S m' st))"
    and obs: "\<And>outcome x. P x \<Longrightarrow> outcome \<in> set (lc_outcomes lc) \<Longrightarrow> P (snd (observe outcome x))" and T: "T st"
  shows "T (snd (keyed_learn_step S slot_name observe st lc))"
proof (cases "sl_slot S st")
  case (Some m)
  have "P (snd (try_each observe (lc_outcomes lc) (os_global m)))"
    by (rule try_each_keeps) (use obs put [OF Some T, of m] in \<open>simp_all add: memory_all_def\<close>)
  then have "memory_all P (m\<lparr>os_global := snd (try_each observe (lc_outcomes lc) (os_global m))\<rparr>)"
    using put [OF Some T, of m] by (simp add: memory_all_def)
  then have "T (sl_put S (m\<lparr>os_global := snd (try_each observe (lc_outcomes lc) (os_global m))\<rparr>) st)"
    using put [OF Some T] by blast
  then show ?thesis using T Some
    by (cases "try_each observe (lc_outcomes lc) (os_global m)") (simp add: keyed_learn_step_def)
qed (use T in \<open>simp add: keyed_learn_step_def\<close>)

lemma keyed_learn_encounter_keeps:
  assumes put: "\<And>m m' st. sl_slot S st = Some m \<Longrightarrow> T st \<Longrightarrow> memory_all P m \<and> (memory_all P m' \<longrightarrow> T (sl_put S m' st))"
    and new: "\<And>role x. initial (lc_game lc) role = Inr x \<Longrightarrow> P x"
    and obs: "\<And>x. P x \<Longrightarrow> P (snd (observe outcome x))" and T: "T st"
  shows "T (snd (keyed_learn_encounter S rule slot_name initial observe st outcome lc))"
proof (cases "lc_scope lc = PerEncounter \<and> \<not> isl (outcome_opponent outcome rule) \<and> sl_slot S st \<noteq> None")
  case True
  then obtain role opponent m where opp: "outcome_opponent outcome rule = Inr (role, opponent)" and m: "sl_slot S st = Some m"
    by (cases "outcome_opponent outcome rule") auto
  show ?thesis
  proof (cases "get_or_try_insert (os_by_opponent m) opponent (\<lambda>_. initial (lc_game lc) (eo_role outcome))")
    case (Inr ei)
    obtain entries i where ei: "ei = (entries, i)" by (cases ei)
    note put' = put [OF m T]
    have all: "\<forall>x \<in> snd ` set entries. P x" "i < length entries"
      using memory_insert [OF Inr [unfolded ei], of P] put' new by (auto simp: memory_all_def)
    then have "P (snd (observe outcome (snd (entries ! i))))" using obs by (meson image_eqI nth_mem)
    then have "memory_all P (m\<lparr>os_by_opponent := list_update entries i (fst (entries ! i), snd (observe outcome (snd (entries ! i))))\<rparr>)"
      using put' all by (auto simp: memory_all_def dest!: set_update_subset_insert [THEN subsetD])
    then have "T (sl_put S (m\<lparr>os_by_opponent := list_update entries i (fst (entries ! i), snd (observe outcome (snd (entries ! i))))\<rparr>) st)"
      using put' by blast
    then show ?thesis using True by (cases "observe outcome (snd (entries ! i))") (simp add: keyed_learn_encounter_def opp m Inr ei)
  qed (use True T opp m in \<open>simp add: keyed_learn_encounter_def\<close>)
qed (use T in \<open>auto simp: keyed_learn_encounter_def split: sum.splits option.splits\<close>)

lemma keyed_well_behaved:
  fixes rule :: "('g, nat, 'f, 'f builtin_policy_state, 'x, 'r) decision_rule" and initial :: "'g \<Rightarrow> nat \<Rightarrow> rule_error + 't"
  assumes init: "\<And>init st0. dr_init_state rule init game = Inr st0 \<Longrightarrow> state_typed k st0"
    and put: "\<And>m m' st. sl_slot S st = Some m \<Longrightarrow> state_typed k st \<Longrightarrow>
      memory_all P m \<and> (memory_all P m' \<longrightarrow> state_typed k (sl_put S m' st))"
    and new: "\<And>role x. initial game role = Inr x \<Longrightarrow> P x"
    and obs: "\<And>outcome x. P x \<Longrightarrow> P (snd (observe outcome x))"
    and acts: "\<And>init st0 x role rng a rng'. dr_init_state rule init game = Inr st0 \<Longrightarrow> P x \<Longrightarrow> role < sg_n_roles G game \<Longrightarrow>
      act game role x rng = (Inr a, rng') \<Longrightarrow> a < k"
    and decide: "dr_decide rule = keyed_decide S name slot_name initial act"
    and step: "dr_learn_step rule = keyed_learn_step S slot_name observe"
    and encounter: "dr_learn_encounter rule = keyed_learn_encounter S name slot_name initial observe"
  shows "well_behaved G game k rule"
proof (rule well_behavedI)
  fix init st0 st ctx role rng r st' rng'
  assume st: "dr_init_state rule init game = Inr st0" "state_typed k st" and ctx: "dc_game ctx = game" "dc_role ctx = Some role"
    "role < sg_n_roles G game" and run: "dr_decide rule st ctx rng = (r, st', rng')"
  have "state_typed k st' \<and> (\<forall>a. r = Inr a \<longrightarrow> (\<exists>x role. dc_role ctx = Some role \<and> P x \<and> act (dc_game ctx) role x rng = (Inr a, rng')))"
    by (rule keyed_decide_keeps [where T = "state_typed k" and P = P, OF _ _ st(2) run [unfolded decide]])
      (use put ctx(1) new in blast)+
  then show "state_typed k st' \<and> (\<forall>a. r = Inr a \<longrightarrow> a < k)" using acts [OF st(1)] ctx by fastforce
next
  fix init st0 and st :: "'f builtin_policy_state" and lc :: "('g, nat, 'f, 'x) learn_context"
  assume st: "state_typed k st" and lc: "lc_game lc = game"
  have one: "state_typed k (snd (dr_learn_encounter rule st outcome lc))" if "state_typed k st" for st outcome
    unfolding encounter
    by (rule keyed_learn_encounter_keeps [where T = "state_typed k" and P = P, OF _ _ _ that])
      (use put lc new obs in blast)+
  have last: "state_typed k (snd (dr_learn_step rule st lc))" if "state_typed k st" for st
    unfolding step
    by (rule keyed_learn_step_keeps [where T = "state_typed k" and P = P, OF _ _ that]) (use put obs in blast)+
  have "state_typed k (snd (try_each (\<lambda>outcome st. dr_learn_encounter rule st outcome lc) (lc_outcomes lc) st))"
    by (rule try_each_keeps) (use one st in auto)
  then show "state_typed k (snd (learn_state rule lc st))" using last st
    by (auto simp: learn_state_def split: prod.splits sum.splits)
qed (rule init)

lemma memory_all_new [simp]: "memory_all P (opponent_state_new global) \<longleftrightarrow> P global"
  by (simp add: memory_all_def opponent_state_new_def)

lemma memory_all_True [simp]: "memory_all (\<lambda>_. True) m"
  by (simp add: memory_all_def)

lemma fictitious_well_behaved:
  fixes game :: 'g
  assumes "uniform_actions G game k" "\<And>n r. 0 < n \<Longrightarrow> fst (dr_range R n r) < n"
  shows "well_behaved G game k (fictitious_rule F G R belief_slot self :: ('g, nat, 'f, 'f builtin_policy_state, 'x, 'r) decision_rule)"
proof (rule keyed_well_behaved [where P = "\<lambda>_. True" and S = belief_slot])
  fix x role rng a rng'
  assume "role < sg_n_roles G game" "fictitious_act F R G game role x rng = (Inr a, rng')"
  then show "a < k" using best_response_range [OF assms(2), of F G game role x rng a rng'] assms(1)
    by (auto simp: fictitious_act_def Let_def uniform_actions_def split: prod.splits)
qed (auto simp: fictitious_rule_def fictitious_init_def try_bind_eq_Inr belief_slot_def state_typed_def
    split: if_splits builtin_policy_state.splits)

lemma logit_well_behaved:
  fixes game :: 'g
  assumes "uniform_actions G game k"
  shows "well_behaved G game k (logit_rule F G R estimate_slot self :: ('g, nat, 'f, 'f builtin_policy_state, 'x, 'r) decision_rule)"
  by (rule keyed_well_behaved [where P = "\<lambda>_. True" and S = estimate_slot])
    (use assms in \<open>auto simp: logit_rule_def keyed_init_def try_bind_eq_Inr estimate_slot_def state_typed_def
      logit_act_def Let_def uniform_actions_def split: if_splits builtin_policy_state.splits prod.splits
      dest!: logit_choose_range\<close>)

lemma roth_initial_length:
  assumes "roth_initial F G self game role = Inr x"
  shows "role < sg_n_roles G game \<and> length (re_propensities x) = fg_n_actions G game role"
proof -
  obtain r where "roth_erev_new F G game role (rr_initial_propensity self) (rr_phi self) (rr_epsilon self) = Some r"
    using roth_erev_new_returns [of F G game role "rr_initial_propensity self" "rr_phi self" "rr_epsilon self"] by auto
  then show ?thesis using assms
    by (auto simp: roth_initial_def roth_erev_new_def validate_role_def Let_def try_bind_eq_Inr split: sum.splits if_splits)
qed

lemma roth_well_behaved:
  fixes game :: 'g
  assumes "uniform_actions G game k"
  shows "well_behaved G game k (roth_rule F G R propensity_slot self :: ('g, nat, 'f, 'f builtin_policy_state, 'x, 'r) decision_rule)"
proof (rule keyed_well_behaved [where P = "\<lambda>self. length (re_propensities self) = k" and S = propensity_slot])
  show "length (re_propensities x) = k" if "roth_initial F G self game role = Inr x" for role x
    using roth_initial_length [OF that] assms by (simp add: uniform_actions_def)
next
  fix init st0
  assume "dr_init_state (roth_rule F G R propensity_slot self :: ('g, nat, 'f, 'f builtin_policy_state, 'x, 'r) decision_rule) init game = Inr st0"
  then obtain global where global: "roth_initial F G self game 0 = Inr global" "st0 = BpPropensity (opponent_state_new global)"
    by (auto simp: roth_rule_def keyed_init_def try_bind_eq_Inr propensity_slot_def)
  then show "state_typed k st0" using roth_initial_length [OF global(1)] assms by (simp add: state_typed_def uniform_actions_def)
next
  fix x :: "'f roth_erev_state" and role rng a and rng' :: 'r
  assume "length (re_propensities x) = k" "roth_act F R game role x rng = (Inr a, rng')"
  then show "a < k" using roth_erev_choose_range [of F R x rng a rng'] by (auto simp: roth_act_def Let_def split: prod.splits)
qed (auto simp: roth_rule_def propensity_slot_def state_typed_def roth_observe_def Let_def case_prod_unfold roth_erev_update_length
    split: builtin_policy_state.splits sum.splits option.splits)

lemma automaton_well_behaved:
  fixes game :: 'g
  assumes "uniform_actions G game k"
  shows "well_behaved G game k (automaton_rule F G R automaton_slot self :: ('g, nat, 'f, 'f builtin_policy_state, 'x, 'r) decision_rule)"
proof (rule keyed_well_behaved [where P = automaton_typed and S = automaton_slot])
  fix init st0 x role rng a rng'
  assume init: "dr_init_state (automaton_rule F G R automaton_slot self :: ('g, nat, 'f, 'f builtin_policy_state, 'x, 'r) decision_rule) init game = Inr st0" and x: "automaton_typed x"
    and role: "role < sg_n_roles G game" and act: "automaton_act F R game role x rng = (Inr a, rng')"
  have "find (\<lambda>role. fg_n_actions G game role \<noteq> 2) [0..<sg_n_roles G game] = None"
    using init by (auto simp: automaton_rule_def automaton_init_def validate_two_action_game_def try_bind_eq_Inr split: option.splits)
  from find_none_below [OF this role] have "k = 2" using role assms by (simp add: uniform_actions_def)
  then show "a < k" using next_action_range [OF x] act by (auto simp: automaton_act_def Let_def split: prod.splits)
qed (auto simp: automaton_rule_def automaton_slot_def state_typed_def automaton_init_def automaton_initial_def
    automaton_rule_observe_def try_bind_eq_Inr Let_def case_prod_unfold
    split: builtin_policy_state.splits sum.splits intro: automaton_new_typed automaton_observe_typed)

subsection \<open>Tit for tat\<close>

lemma outcome_action_typed:
  assumes "plays_typed k (lc_plays lc)" "outcome \<in> set (lc_outcomes lc)" "Some a \<in> set (eo_actions outcome)"
  shows "a < k"
proof -
  obtain i where "outcome_of (lc_plays lc) (lc_me lc) i = Some outcome"
    using assms(2) by (auto simp: lc_outcomes_def List.map_filter_def)
  then have "set (eo_actions outcome) \<subseteq> set (pa_actions (lc_plays lc))"
    by (auto simp: row_of_def dest!: outcome_of_Some in_set_takeD in_set_dropD)
  then show ?thesis using assms(1,3) by (auto simp: plays_typed_def)
qed

lemma tft_observe_typed:
  assumes "\<forall>a. tft_last_opponent tft = Some a \<longrightarrow> a < k" "\<And>a. Some a \<in> set (eo_actions outcome) \<Longrightarrow> a < k"
  shows "\<forall>a. tft_last_opponent (snd (tft_observe outcome tft)) = Some a \<longrightarrow> a < k"
  using assms
  by (auto simp: tft_observe_def get_opt_def split: option.splits bind_splits if_splits) (metis nth_mem)+

lemma tft_well_behaved:
  fixes game :: 'g
  assumes uniform: "uniform_actions G game k"
  shows "well_behaved G game k (tft_rule F G tft_slot coop :: ('g, nat, 'f, 'f builtin_policy_state, 'x, 'r) decision_rule)"
proof (rule well_behavedI)
  fix init st0 st ctx role rng r st' rng'
  assume init: "dr_init_state (tft_rule F G tft_slot coop :: ('g, nat, 'f, 'f builtin_policy_state, 'x, 'r) decision_rule) init game = Inr st0" and st: "state_typed k st"
    and role: "role < sg_n_roles G game" and run: "dr_decide (tft_rule F G tft_slot coop :: ('g, nat, 'f, 'f builtin_policy_state, 'x, 'r) decision_rule) st ctx rng = (r, st', rng')"
  have "try_fold (\<lambda>_ role. if fg_n_actions G game role \<noteq> 2
      then Inl (Unsupported (''TitForTat requires two actions for role '' @ show_nat role @ '', got '' @ show_nat (fg_n_actions G game role)))
      else if isl (sg_check_action G game role coop)
      then Inl (Unsupported (''TitForTat cooperation action '' @ show_nat coop @ '' is invalid for role '' @ show_nat role))
      else Inr ()) () [0..<sg_n_roles G game] = Inr ()"
    using init by (auto simp: tft_rule_def tft_init_def Let_def try_bind_eq_Inr split: if_splits)
  from try_fold_units [OF this, of role] have "\<not> isl (sg_check_action G game role coop)"
    using role by (auto split: if_splits)
  then have "sg_check_action G game role coop = Inr ()" by (cases "sg_check_action G game role coop") auto
  then have "coop < k" using uniform role by (simp add: uniform_actions_def)
  then show "state_typed k st' \<and> (\<forall>a. r = Inr a \<longrightarrow> a < k)"
    using run st by (auto simp: tft_rule_def tft_decide_def tft_slot_def state_typed_def split: option.splits builtin_policy_state.splits)
next
  fix st :: "'f builtin_policy_state" and lc :: "('g, nat, 'f, 'x) learn_context"
  assume st: "state_typed k st" and plays: "plays_typed k (lc_plays lc)"
  show "state_typed k (snd (learn_state (tft_rule F G tft_slot coop :: ('g, nat, 'f, 'f builtin_policy_state, 'x, 'r) decision_rule) lc st))"
  proof (cases st)
    case (BpTitForTat tft)
    have "\<forall>a. tft_last_opponent (snd (try_each tft_observe (lc_outcomes lc) tft)) = Some a \<longrightarrow> a < k"
    proof (rule try_each_keeps [where P = "\<lambda>tft. \<forall>a. tft_last_opponent tft = Some a \<longrightarrow> a < k"])
      fix outcome and tft :: tft_state assume "\<forall>a. tft_last_opponent tft = Some a \<longrightarrow> a < k" "outcome \<in> set (lc_outcomes lc)"
      then show "\<forall>a. tft_last_opponent (snd (tft_observe outcome tft)) = Some a \<longrightarrow> a < k"
        by (intro tft_observe_typed) (use outcome_action_typed [OF plays] in auto)
    qed (use st BpTitForTat in \<open>simp add: state_typed_def\<close>)
    then show ?thesis
      by (cases "try_each tft_observe (lc_outcomes lc) tft")
        (simp add: BpTitForTat learn_state_def tft_rule_def tft_learn_step_def tft_slot_def state_typed_def)
  qed (use st in \<open>simp_all add: learn_state_def tft_rule_def tft_learn_step_def tft_slot_def state_typed_def\<close>)
qed (auto simp: tft_rule_def tft_init_def tft_slot_def state_typed_def Let_def try_bind_eq_Inr split: if_splits)

subsection \<open>The lives of a policy\<close>

inductive builtin_rule ::
    "('f, 'z) rule_ops_scheme \<Rightarrow> ('g, 'f, 'y) finite_game_scheme \<Rightarrow> ('f, 'r) draw_ops \<Rightarrow>
     ('g, nat, 'f, 'f builtin_policy_state, 'x, 'r) decision_rule \<Rightarrow> bool" for F G R where
  "builtin_rule F G R (fixed_rule G stateless_slot action)"
| "builtin_rule F G R (uniform_rule F G R stateless_slot)"
| "builtin_rule F G R (tft_rule F G tft_slot coop)"
| "builtin_rule F G R (mixed_rule F G R stateless_slot probabilities)"
| "builtin_rule F G R (myopic_rule F G R stateless_slot my)"
| "builtin_rule F G R (fictitious_rule F G R belief_slot fp)"
| "builtin_rule F G R (logit_rule F G R estimate_slot lo)"
| "builtin_rule F G R (roth_rule F G R propensity_slot rr)"
| "builtin_rule F G R (automaton_rule F G R automaton_slot au)"

text \<open>
  A policy is born when its rule accepts the game, decides in roles of the game and learns from played
  steps, in any order, and it lives on after a callback that failed.
\<close>

inductive policy_life ::
    "('g, 'f, 'y) finite_game_scheme \<Rightarrow> 'g \<Rightarrow> nat \<Rightarrow> ('g, nat, 'f, 's, 'x, 'r) decision_rule \<Rightarrow> 's \<Rightarrow> bool" for G game k rule where
  born: "dr_init_state rule init game = Inr st \<Longrightarrow> policy_life G game k rule st"
| decided: "policy_life G game k rule st \<Longrightarrow> dc_game ctx = game \<Longrightarrow> dc_role ctx = Some role \<Longrightarrow> role < sg_n_roles G game \<Longrightarrow>
    dr_decide rule st ctx rng = (r, st', rng') \<Longrightarrow> policy_life G game k rule st'"
| taught: "policy_life G game k rule st \<Longrightarrow> lc_game lc = game \<Longrightarrow> plays_typed k (lc_plays lc) \<Longrightarrow>
    learn_state rule lc st = (r, st') \<Longrightarrow> policy_life G game k rule st'"

lemma builtin_well_behaved:
  fixes game :: 'g and rule :: "('g, nat, 'f, 'f builtin_policy_state, 'x, 'r) decision_rule"
  assumes "builtin_rule F G R rule" "uniform_actions G game k" "\<And>n r. 0 < n \<Longrightarrow> fst (dr_range R n r) < n"
  shows "well_behaved G game k rule"
  using assms(1)
  by (cases rule: builtin_rule.cases)
    (simp_all add: fixed_well_behaved uniform_well_behaved tft_well_behaved mixed_well_behaved myopic_well_behaved
      fictitious_well_behaved logit_well_behaved roth_well_behaved automaton_well_behaved assms(2,3))

lemma well_behaved_decide:
  assumes "well_behaved G game k rule" "dr_init_state rule init game = Inr st0" "state_typed k st" "dc_game ctx = game"
    "dc_role ctx = Some role" "role < sg_n_roles G game" "dr_decide rule st ctx rng = (r, st', rng')"
  shows "state_typed k st' \<and> (\<forall>a. r = Inr a \<longrightarrow> a < k)"
proof -
  note ok = assms(1) [unfolded well_behaved_def, rule_format, OF assms(2), THEN conjunct2, THEN conjunct1]
  from ok [rule_format, OF assms(3-6), of rng] assms(7) show ?thesis by simp
qed

lemma well_behaved_learn:
  assumes "well_behaved G game k rule" "dr_init_state rule init game = Inr st0" "state_typed k st" "lc_game lc = game"
    "plays_typed k (lc_plays lc)" "learn_state rule lc st = (r, st')"
  shows "state_typed k st'"
proof -
  note ok = assms(1) [unfolded well_behaved_def, rule_format, OF assms(2), THEN conjunct2, THEN conjunct2]
  from ok [rule_format, OF assms(3-5)] assms(6) show ?thesis by simp
qed

lemma policy_life_typed:
  assumes "policy_life G game k rule st" "well_behaved G game k rule"
  shows "state_typed k st \<and> (\<exists>init st0. dr_init_state rule init game = Inr st0)"
  using assms
proof (induction rule: policy_life.induct)
  case (decided st ctx role rng r st' rng')
  then show ?case using well_behaved_decide [of G game k rule _ _ st ctx role rng r st' rng'] by blast
next
  case (taught st lc r st')
  then show ?case using well_behaved_learn [of G game k rule _ _ st lc r st'] by blast
qed (auto simp: well_behaved_def)

text \<open>
  C7: In a game whose roles share the actions below \<open>k\<close>, a built-in rule that accepted the game never
  plays an invalid action: whatever the policy has decided and learned so far - in any scope and against
  any opponents, failed callbacks included - a decision in a role of the game is an action that role's
  check accepts, or an error. So the fallback of the driver is never needed for these rules.
\<close>

theorem builtin_rules_play_valid:
  fixes game :: 'g and rule :: "('g, nat, 'f, 'f builtin_policy_state, 'x, 'r) decision_rule"
  assumes "builtin_rule F G R rule" "uniform_actions G game k" "\<And>n r. 0 < n \<Longrightarrow> fst (dr_range R n r) < n"
    and "policy_life G game k rule st"
    and "dc_game ctx = game" "dc_role ctx = Some role" "role < sg_n_roles G game"
    and "dr_decide rule st ctx rng = (Inr a, st', rng')"
  shows "sg_check_action G game role a = Inr () \<and> policy_life G game k rule st'"
proof -
  note ok = builtin_well_behaved [OF assms(1-3)]
  obtain init st0 where "dr_init_state rule init game = Inr st0" "state_typed k st"
    using policy_life_typed [OF assms(4) ok] by blast
  from well_behaved_decide [OF ok this assms(5-8)] have "a < k" by simp
  then show ?thesis using assms(2,7) policy_life.decided [OF assms(4-8)] by (auto simp: uniform_actions_def)
qed

definition first_decision :: "(unit, nat, int, unit) decision_context" where
  "first_decision = \<lparr>dc_t = 1, dc_me = AgentId 0, dc_unit = UnitStep, dc_role = Some 1, dc_encounter = None,
     dc_opponents = [AgentId 1], dc_ids = [AgentId 0, AgentId 1], dc_game = (), dc_held = [0, 0],
     dc_history = step_history_new 0 2 1, dc_pair_history = None, dc_aggregate = None, dc_x = ()\<rparr>"

definition tft_policy :: "(unit, nat, int, int builtin_policy_state, unit, nat) decision_rule" where
  "tft_policy = tft_rule int_rules pennies tft_slot 1"

text \<open>A tit-for-tat policy that has seen the other play 0 in one encounter and 1 in the next.\<close>

theorem builtin_rules_play_valid_witness:
  "policy_life pennies () 2 tft_policy (BpTitForTat \<lparr>tft_last_opponent = Some 0\<rparr>) \<and>
   dr_decide tft_policy (BpTitForTat \<lparr>tft_last_opponent = Some 0\<rparr>) first_decision 7 =
     (Inr 0, BpTitForTat \<lparr>tft_last_opponent = Some 0\<rparr>, 7) \<and>
   sg_check_action pennies () 1 (0 :: nat) = Inr ()"
proof -
  have born: "policy_life pennies () 2 tft_policy (BpTitForTat \<lparr>tft_last_opponent = None\<rparr>)"
  proof (rule policy_life.born)
    show "dr_init_state tft_policy \<lparr>ri_agent = AgentId 0, ri_kind = RuleKindId 0, ri_generation = 0, ri_seed = 0\<rparr> () =
      Inr (BpTitForTat \<lparr>tft_last_opponent = None\<rparr>)"
      by (simp add: tft_policy_def tft_rule_def tft_init_def pennies_def tft_slot_def numeral_2_eq_2)
  qed
  have life: "policy_life pennies () 2 tft_policy (BpTitForTat \<lparr>tft_last_opponent = Some 0\<rparr>)"
  proof (rule policy_life.taught [OF born, of "pennies_step\<lparr>lc_scope := PerStep\<rparr>" "Inr ()"])
    have "lc_outcomes (pennies_step\<lparr>lc_scope := PerStep\<rparr>) = lc_outcomes pennies_step" by (simp add: lc_outcomes_def)
    then show "learn_state tft_policy (pennies_step\<lparr>lc_scope := PerStep\<rparr>) (BpTitForTat \<lparr>tft_last_opponent = None\<rparr>) =
      (Inr (), BpTitForTat \<lparr>tft_last_opponent = Some 0\<rparr>)"
      by (simp add: learn_state_def tft_policy_def tft_rule_def tft_learn_step_def tft_slot_def pennies_outcomes
          tft_observe_def get_opt_def)
  qed (simp_all add: pennies_step_def plays_typed_def)
  have decided: "dr_decide tft_policy (BpTitForTat \<lparr>tft_last_opponent = Some 0\<rparr>) first_decision 7 =
     (Inr 0, BpTitForTat \<lparr>tft_last_opponent = Some 0\<rparr>, 7)"
    by (simp add: tft_policy_def tft_rule_def tft_decide_def tft_slot_def)
  have "builtin_rule int_rules pennies cycling_draws tft_policy" unfolding tft_policy_def by (rule builtin_rule.intros(3))
  moreover have "uniform_actions pennies () 2" by (simp add: uniform_actions_def pennies_def)
  moreover have "\<And>n r. 0 < n \<Longrightarrow> fst (dr_range cycling_draws n r) < n" by (simp add: cycling_draws_def)
  ultimately show ?thesis
    using builtin_rules_play_valid [of int_rules pennies cycling_draws tft_policy "()" 2, OF _ _ _ life _ _ _ decided, of 1]
      life decided by (simp add: first_decision_def pennies_def)
qed

end
