(* ===== verification/Population.thy ===== *)
theory Population
  imports Anonymous
begin

section \<open>Population dynamics: configuration and checks (crates/socsim-games/src/mechanism/population.rs)\<close>

text \<open>
  The dynamics that copy held actions between agents: imitate the best, Fermi, proportional imitation
  and the Moran process. This theory holds their configurations, the two action spaces (indices and
  real vectors) and the payoff ranges their checks use; the mechanisms are in \<open>Copying\<close>. \<open>pop_ops\<close>
  adds to the operations of \<open>f64\<close> what the Moran process and the messages need; \<open>draw_ops\<close> are the
  draws of the generator. The loops over profiles and over count vectors are \<open>option\<close> values.
\<close>

datatype ordering = OrdLess | OrdEqual | OrdGreater

definition usize_cmp :: "nat \<Rightarrow> nat \<Rightarrow> ordering" where
  "usize_cmp a b = (if a < b then OrdLess else if a = b then OrdEqual else OrdGreater)"

record 'f pop_ops = "'f solve_ops" +
  fl_neg :: "'f \<Rightarrow> 'f"
  fl_ln :: "'f \<Rightarrow> 'f"
  fl_sqrt :: "'f \<Rightarrow> 'f"
  fl_cos :: "'f \<Rightarrow> 'f"
  fl_tau :: 'f
  fl_epsilon :: 'f
  fl_total_cmp :: "'f \<Rightarrow> 'f \<Rightarrow> ordering"
  fl_text :: "'f \<Rightarrow> string"

subsection \<open>Configurations\<close>

datatype update_schedule = Synchronous | Asynchronous

datatype imitation_tie = KeepOwn | LowestAction

record imitate_best =
  ib_update :: update_schedule
  ib_tie_break :: imitation_tie

definition imitate_best_new :: "update_schedule \<Rightarrow> imitate_best" where
  "imitate_best_new upd = \<lparr>ib_update = upd, ib_tie_break = KeepOwn\<rparr>"

definition imitate_best_tie_break :: "imitation_tie \<Rightarrow> imitate_best \<Rightarrow> imitate_best" where
  "imitate_best_tie_break tie self = self\<lparr>ib_tie_break := tie\<rparr>"

record 'f fermi_update =
  fu_k :: 'f
  fu_update :: update_schedule

definition fermi_update_new :: "('f, 'z) pop_ops_scheme \<Rightarrow> 'f \<Rightarrow> update_schedule \<Rightarrow> game_error + 'f fermi_update" where
  "fermi_update_new F k upd =
     (if \<not> (fl_finite F k \<and> fl_less F (fl_zero F) k)
      then Inl (PopulationError (''fermi_update requires a finite K greater than zero, got '' @ fl_text F k))
      else Inr \<lparr>fu_k = k, fu_update = upd\<rparr>)"

record 'f proportional_imitation =
  pi_beta :: 'f
  pi_update :: update_schedule

definition proportional_new ::
    "('f, 'z) pop_ops_scheme \<Rightarrow> 'f \<Rightarrow> update_schedule \<Rightarrow> game_error + 'f proportional_imitation" where
  "proportional_new F beta upd =
     (if \<not> (fl_finite F beta \<and> fl_less F (fl_zero F) beta)
      then Inl (PopulationError (''replicator_update requires a finite beta greater than zero, got '' @ fl_text F beta))
      else Inr \<lparr>pi_beta = beta, pi_update = upd\<rparr>)"

datatype 'f fitness = Linear 'f | Exponential 'f

definition fitness_value :: "('f, 'z) pop_ops_scheme \<Rightarrow> 'f fitness \<Rightarrow> 'f \<Rightarrow> 'f" where
  "fitness_value F fit payoff =
     (case fit of
        Linear w \<Rightarrow> fl_add F (fl_sub F (fl_one F) w) (fl_mul F w payoff)
      | Exponential w \<Rightarrow> fl_exp F (fl_mul F w payoff))"

record 'f moran_update =
  mu_fitness :: "'f fitness"
  mu_mutation :: 'f
  mu_gaussian_sd :: "'f option"
  mu_update :: update_schedule

text \<open>\<open>x.is_finite() && (0.0..=1.0).contains(&x)\<close>.\<close>

definition unit_interval :: "('f, 'z) pop_ops_scheme \<Rightarrow> 'f \<Rightarrow> bool" where
  "unit_interval F x \<longleftrightarrow> fl_finite F x \<and> fl_le F (fl_zero F) x \<and> fl_le F x (fl_one F)"

definition check_fitness :: "('f, 'z) pop_ops_scheme \<Rightarrow> 'f fitness \<Rightarrow> game_error + unit" where
  "check_fitness F fit =
     (case fit of
        Linear w \<Rightarrow>
          if \<not> unit_interval F w
          then Inl (PopulationError (''linear fitness requires w in [0, 1], got '' @ fl_text F w)) else Inr ()
      | Exponential w \<Rightarrow>
          if \<not> fl_finite F w
          then Inl (PopulationError (''exponential fitness requires a finite w, got '' @ fl_text F w)) else Inr ())"

definition moran_update_new ::
    "('f, 'z) pop_ops_scheme \<Rightarrow> 'f fitness \<Rightarrow> 'f \<Rightarrow> update_schedule \<Rightarrow> game_error + 'f moran_update" where
  "moran_update_new F fit mutation upd =
     try_bind (check_fitness F fit) (\<lambda>_.
       if \<not> unit_interval F mutation
       then Inl (PopulationError (''moran_update requires a mutation probability in [0, 1], got '' @ fl_text F mutation))
       else Inr \<lparr>mu_fitness = fit, mu_mutation = mutation, mu_gaussian_sd = None, mu_update = upd\<rparr>)"

definition gaussian_mutation ::
    "('f, 'z) pop_ops_scheme \<Rightarrow> 'f \<Rightarrow> 'f moran_update \<Rightarrow> game_error + 'f moran_update" where
  "gaussian_mutation F sd self =
     (if \<not> (fl_finite F sd \<and> fl_less F (fl_zero F) sd)
      then Inl (PopulationError (''gaussian_mutation requires a finite standard deviation greater than zero, got '' @
             fl_text F sd))
      else Inr (self\<lparr>mu_gaussian_sd := Some sd\<rparr>))"

subsection \<open>Payoff ranges\<close>

definition range_counts :: "('g, 'f, 'y) finite_game_scheme \<Rightarrow> 'g \<Rightarrow> game_error + nat list \<times> nat" where
  "range_counts G game =
     try_fold (\<lambda>(counts, profiles) role.
         let n = fg_n_actions G game role
         in if n = 0 then Inl (PopulationError (''role '' @ show_nat role @ '' has no actions''))
            else Inr (counts @ [n], saturating_mul_u128 profiles n))
       ([], 1) [0..<sg_n_roles G game]"

definition widen :: "('f, 'z) solve_ops_scheme \<Rightarrow> 'f \<times> 'f \<Rightarrow> 'f \<Rightarrow> game_error + 'f \<times> 'f" where
  "widen F acc payoff =
     (if \<not> fl_finite F payoff then Inl (PopulationError ''the game has a non-finite payoff'')
      else Inr (fl_min F (fst acc) payoff, fl_max F (snd acc) payoff))"

definition profile_range ::
    "('f, 'z) solve_ops_scheme \<Rightarrow> ('g, 'f, 'y) finite_game_scheme \<Rightarrow> 'g \<Rightarrow> 'f \<times> 'f \<Rightarrow> nat list \<Rightarrow> game_error + 'f \<times> 'f" where
  "profile_range F G game acc profile =
     try_fold (\<lambda>acc role. widen F acc (nf_payoff G game role profile)) acc [0..<sg_n_roles G game]"

definition finite_payoff_range ::
    "('f, 'z) solve_ops_scheme \<Rightarrow> ('g, 'f, 'y) finite_game_scheme \<Rightarrow> 'g \<Rightarrow> (game_error + 'f \<times> 'f) option" where
  "finite_payoff_range F G game =
     (let n_roles = sg_n_roles G game
      in if n_roles = 0 then Some (Inl (PopulationError ''the game has no roles to compute a payoff range''))
         else loop_bind (Some (range_counts G game)) (\<lambda>(counts, profiles).
           if profiles > max_profiles
           then Some (Inl (PopulationError (''the payoff range requires enumerating '' @ show_nat profiles @
                  '' action profiles, which exceeds the limit'')))
           else odometer_loop ((!) counts) n_roles (profile_range F G game) (replicate n_roles 0)
                  (fl_inf F, fl_neg_inf F)))"

definition common_action_space :: "('g, 'f, 'y) finite_game_scheme \<Rightarrow> 'g \<Rightarrow> game_error + unit" where
  "common_action_space G game =
     map_err PopulationError (check_common_action_space (sg_n_roles G) (fg_n_actions G) game)"

text \<open>The next count vector, and \<open>None\<close> where the code returns \<open>false\<close>.\<close>

definition next_composition :: "nat list \<Rightarrow> nat list option" where
  "next_composition counts =
     (let last = length counts - 1; tail = counts ! last
      in if tail > 0 \<and> last > 0
         then let c1 = list_update counts last 0;
                  c2 = list_update c1 (last - 1) (c1 ! (last - 1) + 1)
              in Some (list_update c2 last (tail - 1))
         else case find (\<lambda>index. counts ! index > 0) (rev [0..<last]) of
                None \<Rightarrow> None
              | Some pos \<Rightarrow>
                  if pos = 0 then None
                  else let moved = counts ! pos;
                           c1 = list_update counts pos 0;
                           c2 = list_update c1 (pos - 1) (c1 ! (pos - 1) + 1)
                       in Some (list_update c2 last (moved - 1)))"

partial_function (option) range_loop ::
    "('s \<Rightarrow> nat list \<Rightarrow> 'e + 's) \<Rightarrow> nat list \<Rightarrow> 's \<Rightarrow> ('e + 's) option" where
  "range_loop body counts s =
     (case body s counts of
        Inl e \<Rightarrow> Some (Inl e)
      | Inr s' \<Rightarrow> (case next_composition counts of
                     None \<Rightarrow> Some (Inr s') | Some counts' \<Rightarrow> range_loop body counts' s'))"

definition counts_range ::
    "('f, 'z) solve_ops_scheme \<Rightarrow> ('g, 'f, 'y) anonymous_game_scheme \<Rightarrow> 'g \<Rightarrow> nat \<Rightarrow> nat \<times> 'f \<times> 'f \<Rightarrow> nat list \<Rightarrow>
     game_error + nat \<times> 'f \<times> 'f" where
  "counts_range F G game n_actions st counts =
     (let visited = fst st + 1
      in if visited > max_profiles
         then Inl (PopulationError ''the payoff range requires enumerating too many count vectors'')
         else try_bind (try_fold (\<lambda>acc action. widen F acc (ag_payoff_by_counts G game action counts))
                (snd st) [0..<n_actions]) (\<lambda>acc. Inr (visited, acc)))"

definition anonymous_payoff_range ::
    "('f, 'z) solve_ops_scheme \<Rightarrow> ('g, 'f, 'y) anonymous_game_scheme \<Rightarrow> 'g \<Rightarrow> (game_error + 'f \<times> 'f) option" where
  "anonymous_payoff_range F G game =
     loop_bind (Some (common_action_space G game)) (\<lambda>_.
       let n_roles = sg_n_roles G game; n_actions = fg_n_actions G game 0
       in if n_roles = 0 \<or> n_actions = 0
          then Some (Inl (PopulationError ''the game has no roles or no actions''))
          else loop_bind (range_loop (counts_range F G game n_actions)
                 (list_update (replicate n_actions 0) (n_actions - 1) (n_roles - 1)) (0, fl_inf F, fl_neg_inf F))
               (\<lambda>(_, range'). Some (Inr range')))"

definition include_zero :: "('f, 'z) solve_ops_scheme \<Rightarrow> 'f \<times> 'f \<Rightarrow> nat \<Rightarrow> 'f \<times> 'f" where
  "include_zero F range' c_min =
     (if c_min = 0 then (fl_min F (fst range') (fl_zero F), fl_max F (snd range') (fl_zero F)) else range')"

text \<open>The two nested loops over \<open>[bounds.min, bounds.max]\<close> and \<open>[p_min, p_max]\<close>.\<close>

definition sum_range :: "('f, 'z) solve_ops_scheme \<Rightarrow> 'f \<times> 'f \<Rightarrow> encounter_bounds \<Rightarrow> 'f \<times> 'f" where
  "sum_range F single bounds =
     fold (\<lambda>cnt acc. fold (\<lambda>payoff (low, high).
         let v = fl_mul F (fl_of_nat F cnt) payoff in (fl_min F low v, fl_max F high v))
       [fst single, snd single] acc)
       [eb_min bounds, eb_max bounds] (fl_inf F, fl_neg_inf F)"

definition step_payoff_range ::
    "('f, 'z) solve_ops_scheme \<Rightarrow> 'f \<times> 'f \<Rightarrow> encounter_bounds option \<Rightarrow> payoff_aggregation \<Rightarrow> game_error + 'f \<times> 'f" where
  "step_payoff_range F single bounds aggregation =
     (case aggregation of
        AggSum \<Rightarrow>
          (case bounds of
             None \<Rightarrow> Inl (PopulationError ''the matching does not report encounter counts; summed payoffs cannot be bounded, use PayoffAggregation::Mean'')
           | Some b \<Rightarrow> Inr (include_zero F (sum_range F single b) (eb_min b)))
      | AggMean \<Rightarrow> Inr (include_zero F single (case bounds of None \<Rightarrow> 0 | Some b \<Rightarrow> eb_min b)))"

end
