(* ===== verification/Copying.thy ===== *)
theory Copying
  imports Population
begin

section \<open>Population dynamics: spaces and mechanisms (crates/socsim-games/src/mechanism/population.rs)\<close>

text \<open>
  The two implementations of \<open>ActionSpace\<close>, the kernels that choose whom to copy, the synchronous
  copying mechanism and the Moran mechanism, and the checks made when a simulation is assembled.
\<close>

subsection \<open>Action spaces\<close>

record ('g, 'f) continuous_game = "('g, 'f list, 'f) normal_form_game" +
  cg_bounds :: "'g \<Rightarrow> nat \<Rightarrow> ('f \<times> 'f) list"

datatype bounds_violation =
    NoRoles
  | EmptyBounds nat
  | NonFiniteBounds nat nat
  | EmptyInterval nat nat

definition show_bounds_violation :: "bounds_violation \<Rightarrow> string" where
  "show_bounds_violation v =
     (case v of
        NoRoles \<Rightarrow> ''the game has no roles''
      | EmptyBounds role \<Rightarrow> ''the bounds of role '' @ show_nat role @ '' have no dimension''
      | NonFiniteBounds role d \<Rightarrow>
          ''dimension '' @ show_nat d @ '' of the bounds of role '' @ show_nat role @ '' has a non-finite end point''
      | EmptyInterval role d \<Rightarrow>
          ''dimension '' @ show_nat d @ '' of the bounds of role '' @ show_nat role @ '' does not satisfy lo < hi'')"

definition check_dimension :: "('f, 'z) calc_ops_scheme \<Rightarrow> nat \<Rightarrow> nat \<times> 'f \<times> 'f \<Rightarrow> bounds_violation + unit" where
  "check_dimension F role entry =
     (let (d, lo, hi) = entry
      in if \<not> fl_finite F lo \<or> \<not> fl_finite F hi then Inl (NonFiniteBounds role d)
         else if fl_le F hi lo then Inl (EmptyInterval role d) else Inr ())"

definition check_game_bounds ::
    "('f, 'z) calc_ops_scheme \<Rightarrow> ('g, 'f, 'y) continuous_game_scheme \<Rightarrow> 'g \<Rightarrow> bounds_violation + unit" where
  "check_game_bounds F G game =
     (if sg_n_roles G game = 0 then Inl NoRoles
      else try_fold (\<lambda>_ role.
          let bounds = cg_bounds G game role
          in if bounds = [] then Inl (EmptyBounds role)
             else try_fold (\<lambda>_. check_dimension F role) () (List.enumerate 0 bounds))
        () [0..<sg_n_roles G game])"

text \<open>\<open>f64::clamp\<close>.\<close>

definition fl_clamp :: "('f, 'z) calc_ops_scheme \<Rightarrow> 'f \<Rightarrow> 'f \<Rightarrow> 'f \<Rightarrow> 'f" where
  "fl_clamp F lo hi x = (let y = (if fl_less F x lo then lo else x) in if fl_less F hi y then hi else y)"

text \<open>\<open>iter().map(|..| .. rng ..).collect()\<close>: the closure draws in the order of the elements.\<close>

primrec draw_map :: "('x \<Rightarrow> 'r \<Rightarrow> 'y \<times> 'r) \<Rightarrow> 'x list \<Rightarrow> 'r \<Rightarrow> 'y list \<times> 'r" where
  "draw_map f [] rng = ([], rng)"
| "draw_map f (x # xs) rng =
     (let (y, rng1) = f x rng; (ys, rng2) = draw_map f xs rng1 in (y # ys, rng2))"

definition standard_normal :: "('f, 'z) pop_ops_scheme \<Rightarrow> ('f, 'r) draw_ops \<Rightarrow> 'r \<Rightarrow> 'f \<times> 'r" where
  "standard_normal F R rng =
     (let (d1, rng1) = dr_f64 R rng; u1 = fl_sub F (fl_one F) d1;
          (u2, rng2) = dr_f64 R rng1
      in (fl_mul F (fl_sqrt F (fl_mul F (fl_neg F (fl_of_nat F 2)) (fl_ln F u1)))
            (fl_cos F (fl_mul F (fl_tau F) u2)), rng2))"

record ('g, 'a, 'f, 'r) action_space =
  sp_check_common :: "'g \<Rightarrow> game_error + unit"
  sp_uniform :: "'g \<Rightarrow> 'r \<Rightarrow> 'a \<times> 'r"
  sp_check_mutation :: "'f \<Rightarrow> 'f option \<Rightarrow> game_error + unit"
  sp_mutate :: "'g \<Rightarrow> 'a \<Rightarrow> 'f option \<Rightarrow> 'r \<Rightarrow> 'a \<times> 'r"
  sp_payoff_range :: "'g \<Rightarrow> (game_error + 'f \<times> 'f) option"
  sp_linear_fitness :: bool
  sp_tie_cmp :: "'a \<Rightarrow> 'a \<Rightarrow> ordering"

definition finite_space ::
    "('f, 'z) solve_ops_scheme \<Rightarrow> ('f, 'r) draw_ops \<Rightarrow> ('g, 'f, 'y) finite_game_scheme \<Rightarrow> ('g, nat, 'f, 'r) action_space" where
  "finite_space F R G =
     (let uniform = (\<lambda>game. dr_range R (fg_n_actions G game 0))
      in \<lparr>sp_check_common = common_action_space G,
          sp_uniform = uniform,
          sp_check_mutation = (\<lambda>_ sd. if sd \<noteq> None
            then Inl (PopulationError ''gaussian_mutation applies only to continuous games; finite games mutate to a uniformly drawn action'')
            else Inr ()),
          sp_mutate = (\<lambda>game _ _. uniform game),
          sp_payoff_range = finite_payoff_range F G,
          sp_linear_fitness = True,
          sp_tie_cmp = usize_cmp\<rparr>)"

definition same_dimension ::
    "('f, 'z) pop_ops_scheme \<Rightarrow> nat \<Rightarrow> nat \<times> ('f \<times> 'f) \<times> ('f \<times> 'f) \<Rightarrow> game_error + unit" where
  "same_dimension F role entry =
     (let (d, (lo, hi), (lo0, hi0)) = entry
      in if \<not> fl_eq F lo lo0 \<or> \<not> fl_eq F hi hi0
         then Inl (PopulationError (''copying dynamics require a common action space, but dimension '' @ show_nat d @
           '' of role '' @ show_nat role @ '' has bounds ['' @ fl_text F lo @ '', '' @ fl_text F hi @
           ''] and role 0 has ['' @ fl_text F lo0 @ '', '' @ fl_text F hi0 @ '']''))
         else Inr ())"

definition continuous_common_space ::
    "('f, 'z) pop_ops_scheme \<Rightarrow> ('g, 'f, 'y) continuous_game_scheme \<Rightarrow> 'g \<Rightarrow> game_error + unit" where
  "continuous_common_space F G game =
     try_bind (map_err (\<lambda>v. PopulationError (show_bounds_violation v)) (check_game_bounds F G game)) (\<lambda>_.
       let first = cg_bounds G game 0
       in try_fold (\<lambda>_ role.
            let bounds = cg_bounds G game role
            in if length bounds \<noteq> length first
               then Inl (PopulationError (''copying dynamics require a common action space, but role '' @ show_nat role @
                 '' has '' @ show_nat (length bounds) @ '' dimensions and role 0 has '' @ show_nat (length first)))
               else try_fold (\<lambda>_. same_dimension F role) () (List.enumerate 0 (zip bounds first)))
          () [1..<sg_n_roles G game])"

definition continuous_uniform ::
    "('f, 'z) pop_ops_scheme \<Rightarrow> ('f, 'r) draw_ops \<Rightarrow> ('g, 'f, 'y) continuous_game_scheme \<Rightarrow> 'g \<Rightarrow> 'r \<Rightarrow> 'f list \<times> 'r" where
  "continuous_uniform F R G game =
     draw_map (\<lambda>(lo, hi) rng.
         let (u, rng') = dr_f64 R rng
         in (fl_clamp F lo hi (fl_add F lo (fl_mul F (fl_sub F hi lo) u)), rng'))
       (cg_bounds G game 0)"

definition continuous_mutate ::
    "('f, 'z) pop_ops_scheme \<Rightarrow> ('f, 'r) draw_ops \<Rightarrow> ('g, 'f, 'y) continuous_game_scheme \<Rightarrow> 'g \<Rightarrow> 'f list \<Rightarrow> 'f option \<Rightarrow>
     'r \<Rightarrow> 'f list \<times> 'r" where
  "continuous_mutate F R G game parent gaussian_sd =
     (let sd = (case gaussian_sd of None \<Rightarrow> fl_zero F | Some sd \<Rightarrow> sd)
      in draw_map (\<lambda>(v, lo, hi) rng.
             let (normal, rng') = standard_normal F R rng
             in (fl_clamp F lo hi (fl_add F v (fl_mul F sd normal)), rng'))
           (zip parent (cg_bounds G game 0)))"

fun vector_tie_cmp :: "('f, 'z) pop_ops_scheme \<Rightarrow> 'f list \<Rightarrow> 'f list \<Rightarrow> ordering" where
  "vector_tie_cmp F (a # left) (b # right) =
     (case fl_total_cmp F a b of OrdEqual \<Rightarrow> vector_tie_cmp F left right | other \<Rightarrow> other)"
| "vector_tie_cmp F left right = usize_cmp (length left) (length right)"

definition continuous_linear_fitness_error :: game_error where
  "continuous_linear_fitness_error = PopulationError
     ''linear fitness requires a payoff range, which cannot be enumerated for a continuous game; use Fitness::Exponential''"

definition continuous_space ::
    "('f, 'z) pop_ops_scheme \<Rightarrow> ('f, 'r) draw_ops \<Rightarrow> ('g, 'f, 'y) continuous_game_scheme \<Rightarrow>
     ('g, 'f list, 'f, 'r) action_space" where
  "continuous_space F R G =
     \<lparr>sp_check_common = continuous_common_space F G,
      sp_uniform = continuous_uniform F R G,
      sp_check_mutation = (\<lambda>mutation sd. if fl_less F (fl_zero F) mutation \<and> sd = None
        then Inl (PopulationError (''moran_update with mutation '' @ fl_text F mutation @
               '' in a continuous game requires gaussian_mutation(sd)''))
        else Inr ()),
      sp_mutate = continuous_mutate F R G,
      sp_payoff_range = (\<lambda>_. Some (Inl continuous_linear_fitness_error)),
      sp_linear_fitness = False,
      sp_tie_cmp = vector_tie_cmp F\<rparr>"

subsection \<open>Kernels\<close>

text \<open>The neighbours \<open>for_each_neighbor\<close> visits, in its order.\<close>

definition topology_neighbors :: "('n, 'd) topology \<Rightarrow> nat \<Rightarrow> nat list" where
  "topology_neighbors topo index =
     (case topo of
        NoTopology \<Rightarrow> []
      | NetworkTopo nt \<Rightarrow> map agent_no (net_neighbors nt (AgentId index))
      | GridTopo gt \<Rightarrow> adj_row (gt_adjacency gt) index)"

definition comparison_partner ::
    "('f, 'r) draw_ops \<Rightarrow> ('n, 'd) topology \<Rightarrow> nat \<Rightarrow> nat \<Rightarrow> 'r \<Rightarrow> nat option \<times> 'r" where
  "comparison_partner R topo n_agents index rng =
     (case topo of
        NoTopology \<Rightarrow>
          if n_agents < 2 then (None, rng)
          else let (draw, rng') = dr_range R (n_agents - 1) rng
               in (Some (if draw \<ge> index then draw + 1 else draw), rng')
      | NetworkTopo nt \<Rightarrow>
          let neighbors = net_neighbors nt (AgentId index)
          in if neighbors = [] then (None, rng)
             else let (draw, rng') = dr_range R (length neighbors) rng in (Some (agent_no (neighbors ! draw)), rng')
      | GridTopo gt \<Rightarrow>
          let neighbors = adj_row (gt_adjacency gt) index
          in if neighbors = [] then (None, rng)
             else let (draw, rng') = dr_range R (length neighbors) rng in (Some (neighbors ! draw), rng'))"

definition fermi_probability :: "('f, 'z) pop_ops_scheme \<Rightarrow> 'f \<Rightarrow> 'f" where
  "fermi_probability F z =
     (if fl_le F (fl_zero F) z
      then fl_div F (fl_one F) (fl_add F (fl_one F) (fl_exp F (fl_neg F z)))
      else let e = fl_exp F z in fl_div F e (fl_add F (fl_one F) e))"

definition check_payoffs :: "('f \<Rightarrow> bool) \<Rightarrow> 'f list \<Rightarrow> string \<Rightarrow> unit result" where
  "check_payoffs finite' payoffs name =
     (case find (\<lambda>index. \<not> finite' (payoffs ! index)) [0..<length payoffs] of
        Some index \<Rightarrow> Inl (Mechanism (name @ '' found a non-finite payoff for agent '' @ show_nat index))
      | None \<Rightarrow> Inr ())"

record ('g, 'a, 'f, 'n, 'd, 'r) copy_kernel =
  ck_name :: string
  ck_source :: "'g \<Rightarrow> ('n, 'd) topology \<Rightarrow> 'a list \<Rightarrow> 'f list \<Rightarrow> nat \<Rightarrow> 'r \<Rightarrow> nat option \<times> 'r"

definition best_payoff :: "('f, 'z) calc_ops_scheme \<Rightarrow> ('n, 'd) topology \<Rightarrow> 'f list \<Rightarrow> nat \<Rightarrow> 'f" where
  "best_payoff F topo payoffs index =
     fold (\<lambda>neighbor best. fl_max F best (payoffs ! neighbor)) (topology_neighbors topo index) (payoffs ! index)"

definition choose_lowest ::
    "('f, 'z) calc_ops_scheme \<Rightarrow> ('a \<Rightarrow> 'a \<Rightarrow> ordering) \<Rightarrow> 'a list \<Rightarrow> 'f list \<Rightarrow> 'f \<Rightarrow> nat \<Rightarrow> nat option \<Rightarrow> nat option" where
  "choose_lowest F tie_cmp held payoffs best neighbor chosen =
     (if \<not> fl_eq F (payoffs ! neighbor) best then chosen
      else Some (case chosen of
          Some current \<Rightarrow> if tie_cmp (held ! current) (held ! neighbor) \<noteq> OrdGreater then current else neighbor
        | None \<Rightarrow> neighbor))"

definition imitate_best_source ::
    "('f, 'z) calc_ops_scheme \<Rightarrow> ('a \<Rightarrow> 'a \<Rightarrow> ordering) \<Rightarrow> imitation_tie \<Rightarrow> ('n, 'd) topology \<Rightarrow> 'a list \<Rightarrow> 'f list \<Rightarrow> nat \<Rightarrow>
     nat option" where
  "imitate_best_source F tie_cmp tie topo held payoffs index =
     (let best = best_payoff F topo payoffs index;
          own_is_best = fl_eq F (payoffs ! index) best
      in if own_is_best \<and> tie = KeepOwn then None
         else let chosen = fold (choose_lowest F tie_cmp held payoffs best) (topology_neighbors topo index)
                    (if own_is_best then Some index else None)
              in case chosen of Some source \<Rightarrow> if source \<noteq> index then Some source else None | None \<Rightarrow> None)"

definition imitate_best_kernel ::
    "('f, 'z) calc_ops_scheme \<Rightarrow> ('a \<Rightarrow> 'a \<Rightarrow> ordering) \<Rightarrow> imitation_tie \<Rightarrow> ('g, 'a, 'f, 'n, 'd, 'r) copy_kernel" where
  "imitate_best_kernel F tie_cmp tie =
     \<lparr>ck_name = ''imitate_best'',
      ck_source = (\<lambda>game topo held payoffs index rng. (imitate_best_source F tie_cmp tie topo held payoffs index, rng))\<rparr>"

definition fermi_source ::
    "('f, 'z) pop_ops_scheme \<Rightarrow> ('f, 'r) draw_ops \<Rightarrow> 'f \<Rightarrow> ('n, 'd) topology \<Rightarrow> 'f list \<Rightarrow> nat \<Rightarrow> 'r \<Rightarrow> nat option \<times> 'r" where
  "fermi_source F R k topo payoffs index rng =
     (case comparison_partner R topo (length payoffs) index rng of
        (None, rng1) \<Rightarrow> (None, rng1)
      | (Some partner, rng1) \<Rightarrow>
          let (draw, rng2) = dr_f64 R rng1;
              z = fl_div F (fl_sub F (payoffs ! partner) (payoffs ! index)) k
          in (if fl_less F draw (fermi_probability F z) then Some partner else None, rng2))"

definition fermi_kernel ::
    "('f, 'z) pop_ops_scheme \<Rightarrow> ('f, 'r) draw_ops \<Rightarrow> 'f \<Rightarrow> ('g, 'a, 'f, 'n, 'd, 'r) copy_kernel" where
  "fermi_kernel F R k =
     \<lparr>ck_name = ''fermi_update'', ck_source = (\<lambda>game topo held. fermi_source F R k topo)\<rparr>"

definition proportional_source ::
    "('f, 'z) solve_ops_scheme \<Rightarrow> ('f, 'r) draw_ops \<Rightarrow> 'f \<Rightarrow> ('n, 'd) topology \<Rightarrow> 'f list \<Rightarrow> nat \<Rightarrow> 'r \<Rightarrow> nat option \<times> 'r" where
  "proportional_source F R beta topo payoffs index rng =
     (case comparison_partner R topo (length payoffs) index rng of
        (None, rng1) \<Rightarrow> (None, rng1)
      | (Some partner, rng1) \<Rightarrow>
          let (draw, rng2) = dr_f64 R rng1;
              probability = fl_min F (fl_mul F beta
                (fl_max F (fl_sub F (payoffs ! partner) (payoffs ! index)) (fl_zero F))) (fl_one F)
          in (if fl_less F draw probability then Some partner else None, rng2))"

definition proportional_kernel ::
    "('f, 'z) solve_ops_scheme \<Rightarrow> ('f, 'r) draw_ops \<Rightarrow> 'f \<Rightarrow> ('g, 'a, 'f, 'n, 'd, 'r) copy_kernel" where
  "proportional_kernel F R beta =
     \<lparr>ck_name = ''replicator_update'', ck_source = (\<lambda>game topo held. proportional_source F R beta topo)\<rparr>"

subsection \<open>The synchronous copying mechanism\<close>

record ('g, 'a, 'f, 'n, 'd, 'r) copy_mechanism =
  cm_kernel :: "('g, 'a, 'f, 'n, 'd, 'r) copy_kernel"
  cm_next :: "'a list"

definition copy_mechanism_new ::
    "('g, 'a, 'f, 'n, 'd, 'r) copy_kernel \<Rightarrow> ('g, 'a, 'f, 'n, 'd, 'r) copy_mechanism" where
  "copy_mechanism_new kern = \<lparr>cm_kernel = kern, cm_next = []\<rparr>"

text \<open>One pass of the loop that fills the buffer.\<close>

definition copy_next ::
    "('g, 'a, 'f, 'n, 'd, 'r) copy_kernel \<Rightarrow> ('g, 'a, 'f, 's, 'x, 'n, 'd) game_world \<Rightarrow> nat \<Rightarrow> 'r \<Rightarrow> 'a \<times> 'r" where
  "copy_next kern w index rng =
     (let (source, rng') = ck_source kern (gw_game w) (gw_topology w) (gw_held w) (gw_payoff w) index rng
      in (gw_held w ! (case source of None \<Rightarrow> index | Some s \<Rightarrow> s), rng'))"

definition copy_apply ::
    "('f \<Rightarrow> bool) \<Rightarrow> ('g, 'a, 'f, 'n, 'd, 'r) copy_mechanism \<Rightarrow> ('g, 'a, 'f, 's, 'x, 'n, 'd) game_world \<times> 'r \<Rightarrow>
     unit result \<times> ('g, 'a, 'f, 'n, 'd, 'r) copy_mechanism \<times> ('g, 'a, 'f, 's, 'x, 'n, 'd) game_world \<times> 'r" where
  "copy_apply finite' self st =
     (let (w, rng) = st; n_agents = length (gw_held w); name = ck_name (cm_kernel self)
      in if length (gw_payoff w) \<noteq> n_agents
         then (Inl (Mechanism (name @ '' expected '' @ show_nat n_agents @ '' payoffs, got '' @
                 show_nat (length (gw_payoff w)))), self, w, rng)
         else case check_payoffs finite' (gw_payoff w) name of
           Inl e \<Rightarrow> (Inl e, self, w, rng)
         | Inr _ \<Rightarrow>
             let (nexts, rng') = draw_map (copy_next (cm_kernel self) w) [0..<n_agents] rng
             in (Inr (), self\<lparr>cm_next := gw_held w\<rparr>, w\<lparr>gw_held := nexts\<rparr>, rng'))"

definition population_copy ::
    "('f \<Rightarrow> bool) \<Rightarrow> ('g, 'a, 'f, 'n, 'd, 'r) copy_mechanism \<Rightarrow>
     (('g, 'a, 'f, 'n, 'd, 'r) copy_mechanism, ('g, 'a, 'f, 's, 'x, 'n, 'd) game_world, 'r, 'c, 'ty, 'v) mechanism" where
  "population_copy finite' self =
     \<lparr>mech_name = ck_name (cm_kernel self), mech_phases = [Reward], mech_self = self,
      mech_apply = (\<lambda>self ph ctx.
        let (r, self', w, rng) = copy_apply finite' self (ctx_world ctx, ctx_rng ctx)
        in (r, self', ctx\<lparr>ctx_world := w, ctx_rng := rng\<rparr>))\<rparr>"

subsection \<open>The Moran mechanism\<close>

record 'f moran_mechanism =
  mo_fitness :: "'f fitness"
  mo_mutation :: 'f
  mo_gaussian_sd :: "'f option"
  mo_weights :: "'f list"

definition moran_weight ::
    "('f, 'z) pop_ops_scheme \<Rightarrow> 'f fitness \<Rightarrow> nat \<times> 'f \<Rightarrow> 'f \<times> 'f list \<Rightarrow> unit result \<times> 'f \<times> 'f list" where
  "moran_weight F fit entry st =
     (let (index, payoff) = entry; (tot, weights) = st; weight = fitness_value F fit payoff
      in if \<not> fl_finite F weight \<or> fl_less F weight (fl_zero F)
         then (Inl (Mechanism (''moran_update computed an invalid fitness '' @ fl_text F weight @ '' for agent '' @
                 show_nat index)), tot, weights)
         else (Inr (), fl_add F tot weight, weights @ [weight]))"

record 'f parent_scan =
  ps_cumulative :: 'f
  ps_parent :: "nat option"
  ps_last_positive :: nat

definition scan_parent :: "('f, 'z) calc_ops_scheme \<Rightarrow> 'f \<Rightarrow> nat \<times> 'f \<Rightarrow> 'f parent_scan \<Rightarrow> 'f parent_scan" where
  "scan_parent F target entry sc =
     (let (index, weight) = entry;
          last_positive = (if fl_less F (fl_zero F) weight then index else ps_last_positive sc);
          cumulative = fl_add F (ps_cumulative sc) weight
      in \<lparr>ps_cumulative = cumulative,
          ps_parent = (if ps_parent sc = None \<and> fl_less F target cumulative then Some index else ps_parent sc),
          ps_last_positive = last_positive\<rparr>)"

definition draw_parent :: "('f, 'z) calc_ops_scheme \<Rightarrow> 'f list \<Rightarrow> 'f \<Rightarrow> nat" where
  "draw_parent F weights target =
     (let sc = fold (scan_parent F target) (List.enumerate 0 weights)
            \<lparr>ps_cumulative = fl_zero F, ps_parent = None, ps_last_positive = 0\<rparr>
      in case ps_parent sc of Some parent \<Rightarrow> parent | None \<Rightarrow> ps_last_positive sc)"

definition birth_death ::
    "('f, 'z) pop_ops_scheme \<Rightarrow> ('f, 'r) draw_ops \<Rightarrow> ('g, 'a, 'f, 'r) action_space \<Rightarrow> 'f moran_mechanism \<Rightarrow> 'f \<Rightarrow>
     ('g, 'a, 'f, 's, 'x, 'n, 'd) game_world \<Rightarrow> 'r \<Rightarrow> ('g, 'a, 'f, 's, 'x, 'n, 'd) game_world \<times> 'r" where
  "birth_death F R A self tot w rng =
     (let (u, rng1) = dr_f64 R rng;
          parent = draw_parent F (mo_weights self) (fl_mul F u tot);
          (death, rng2) = dr_range R (length (gw_held w)) rng1;
          (m, rng3) = dr_f64 R rng2;
          (mutant, rng4) = sp_mutate A (gw_game w) (gw_held w ! parent) (mo_gaussian_sd self) rng3
      in (w\<lparr>gw_held := list_update (gw_held w) death
              (if fl_less F m (mo_mutation self) then mutant else gw_held w ! parent)\<rparr>, rng4))"

definition moran_apply ::
    "('f, 'z) pop_ops_scheme \<Rightarrow> ('f, 'r) draw_ops \<Rightarrow> ('g, 'a, 'f, 'r) action_space \<Rightarrow> 'f moran_mechanism \<Rightarrow>
     ('g, 'a, 'f, 's, 'x, 'n, 'd) game_world \<times> 'r \<Rightarrow>
     unit result \<times> 'f moran_mechanism \<times> ('g, 'a, 'f, 's, 'x, 'n, 'd) game_world \<times> 'r" where
  "moran_apply F R A self st =
     (let (w, rng) = st
      in if length (gw_held w) = 0 then (Inr (), self, w, rng)
         else case check_payoffs (fl_finite F) (gw_payoff w) ''moran_update'' of
           Inl e \<Rightarrow> (Inl e, self, w, rng)
         | Inr _ \<Rightarrow>
             let (r, tot, weights) = for_each (moran_weight F (mo_fitness self)) (List.enumerate 0 (gw_payoff w)) (fl_zero F, []);
                 self' = self\<lparr>mo_weights := weights\<rparr>
             in case r of
                  Inl e \<Rightarrow> (Inl e, self', w, rng)
                | Inr _ \<Rightarrow>
                    if \<not> (fl_finite F tot \<and> fl_less F (fl_zero F) tot)
                    then (Inl (Mechanism (''moran_update requires a positive finite total fitness, got '' @ fl_text F tot)),
                          self', w, rng)
                    else let (w', rng') = birth_death F R A self' tot w rng in (Inr (), self', w', rng'))"

definition population_moran ::
    "('f, 'z) pop_ops_scheme \<Rightarrow> ('f, 'r) draw_ops \<Rightarrow> ('g, 'a, 'f, 'r) action_space \<Rightarrow> 'f moran_mechanism \<Rightarrow>
     ('f moran_mechanism, ('g, 'a, 'f, 's, 'x, 'n, 'd) game_world, 'r, 'c, 'ty, 'v) mechanism" where
  "population_moran F R A self =
     \<lparr>mech_name = ''moran_update'', mech_phases = [Reward], mech_self = self,
      mech_apply = (\<lambda>self ph ctx.
        let (r, self', w, rng) = moran_apply F R A self (ctx_world ctx, ctx_rng ctx)
        in (r, self', ctx\<lparr>ctx_world := w, ctx_rng := rng\<rparr>))\<rparr>"

subsection \<open>Checks made by the assembly\<close>

definition check_held_only :: "('g, 'a, 'f, 's, 'x, 'n, 'd) game_world \<Rightarrow> string \<Rightarrow> game_error + unit" where
  "check_held_only w name =
     (if list_ex (\<lambda>slot. slot \<noteq> HELD) (pt_slot (gw_policies w))
      then Inl (PopulationError (name @ '' applies only to held agents, but an active rule is assigned''))
      else Inr ())"

datatype ('g, 'f) payoff_range_source =
    RangeGame
  | RangeCounts "'g \<Rightarrow> (game_error + 'f \<times> 'f) option"
  | RangeUnknown

record ('g, 'a, 'f, 's, 'x, 'n, 'd) dynamics_check =
  dk_world :: "('g, 'a, 'f, 's, 'x, 'n, 'd) game_world"
  dk_encounter_bounds :: "encounter_bounds option"
  dk_aggregation :: payoff_aggregation
  dk_payoff_source :: "('g, 'f) payoff_range_source"

definition require_synchronous :: "update_schedule \<Rightarrow> string \<Rightarrow> game_error + unit" where
  "require_synchronous upd name =
     (case upd of
        Synchronous \<Rightarrow> Inr ()
      | Asynchronous \<Rightarrow> Inl (PopulationError (name @ '' with Update::Asynchronous must be assembled with assemble_async'')))"

definition single_range ::
    "('g, 'a, 'f, 's, 'x, 'n, 'd) dynamics_check \<Rightarrow> string \<Rightarrow> ('g \<Rightarrow> (game_error + 'f \<times> 'f) option) \<Rightarrow>
     (game_error + 'f \<times> 'f) option" where
  "single_range check name from_game =
     (case dk_payoff_source check of
        RangeGame \<Rightarrow> from_game (gw_game (dk_world check))
      | RangeCounts range' \<Rightarrow> range' (gw_game (dk_world check))
      | RangeUnknown \<Rightarrow> Some (Inl (PopulationError (name @ '' cannot bound payoffs produced by a user-defined outcome rule''))))"

definition imitate_best_check ::
    "('g, 'a, 'f, 'r) action_space \<Rightarrow> ('g, 'a, 'f, 's, 'x, 'n, 'd) dynamics_check \<Rightarrow> game_error + unit" where
  "imitate_best_check A check =
     try_bind (check_held_only (dk_world check) ''imitate_best'') (\<lambda>_.
     try_bind (sp_check_common A (gw_game (dk_world check))) (\<lambda>_.
       case gw_topology (dk_world check) of
         NoTopology \<Rightarrow> Inl (PopulationError ''imitate_best requires a grid or network topology'')
       | _ \<Rightarrow> Inr ()))"

definition imitate_best_prepare ::
    "('g, 'a, 'f, 'r) action_space \<Rightarrow> imitate_best \<Rightarrow> ('g, 'a, 'f, 's, 'x, 'n, 'd) dynamics_check \<Rightarrow> game_error + unit" where
  "imitate_best_prepare A self check =
     try_bind (require_synchronous (ib_update self) ''imitate_best'') (\<lambda>_. imitate_best_check A check)"

definition fermi_check ::
    "('g, 'a, 'f, 'r) action_space \<Rightarrow> ('g, 'a, 'f, 's, 'x, 'n, 'd) dynamics_check \<Rightarrow> game_error + unit" where
  "fermi_check A check =
     try_bind (check_held_only (dk_world check) ''fermi_update'') (\<lambda>_. sp_check_common A (gw_game (dk_world check)))"

definition fermi_prepare ::
    "('g, 'a, 'f, 'r) action_space \<Rightarrow> 'f fermi_update \<Rightarrow> ('g, 'a, 'f, 's, 'x, 'n, 'd) dynamics_check \<Rightarrow> game_error + unit" where
  "fermi_prepare A self check =
     try_bind (require_synchronous (fu_update self) ''fermi_update'') (\<lambda>_. fermi_check A check)"

definition proportional_check ::
    "('f, 'z) pop_ops_scheme \<Rightarrow> ('g, 'f, 'y) finite_game_scheme \<Rightarrow> 'f proportional_imitation \<Rightarrow>
     ('g, nat, 'f, 's, 'x, 'n, 'd) dynamics_check \<Rightarrow> (game_error + unit) option" where
  "proportional_check F G self check =
     loop_bind (Some (check_held_only (dk_world check) ''replicator_update'')) (\<lambda>_.
     loop_bind (Some (common_action_space G (gw_game (dk_world check)))) (\<lambda>_.
     loop_bind (single_range check ''replicator_update'' (finite_payoff_range F G)) (\<lambda>single.
     loop_bind (Some (step_payoff_range F single (dk_encounter_bounds check) (dk_aggregation check))) (\<lambda>(low, high).
       let width = fl_sub F high low
       in if \<not> fl_finite F width then Some (Inl (PopulationError ''the per-step payoff range is not finite''))
          else if fl_less F (fl_add F (fl_one F) (fl_mul F (fl_of_nat F 4) (fl_epsilon F))) (fl_mul F (pi_beta self) width)
          then Some (Inl (PopulationError (''replicator_update requires beta <= 1 / '' @ fl_text F width @
                 '' (the per-step payoff range), got '' @ fl_text F (pi_beta self))))
          else Some (Inr ())))))"

definition proportional_prepare ::
    "('f, 'z) pop_ops_scheme \<Rightarrow> ('g, 'f, 'y) finite_game_scheme \<Rightarrow> 'f proportional_imitation \<Rightarrow>
     ('g, nat, 'f, 's, 'x, 'n, 'd) dynamics_check \<Rightarrow> (game_error + unit) option" where
  "proportional_prepare F G self check =
     loop_bind (Some (require_synchronous (pi_update self) ''replicator_update'')) (\<lambda>_. proportional_check F G self check)"

definition check_linear_fitness ::
    "('f, 'z) pop_ops_scheme \<Rightarrow> ('g, 'a, 'f, 'r) action_space \<Rightarrow> 'f \<Rightarrow>
     ('g, 'a, 'f, 's, 'x, 'n, 'd) dynamics_check \<Rightarrow> (game_error + unit) option" where
  "check_linear_fitness F A w check =
     (if \<not> sp_linear_fitness A then Some (Inl continuous_linear_fitness_error)
      else loop_bind (single_range check ''moran_update'' (sp_payoff_range A)) (\<lambda>single.
        loop_bind (Some (step_payoff_range F single (dk_encounter_bounds check) (dk_aggregation check))) (\<lambda>(low, _).
          let fit = fl_add F (fl_sub F (fl_one F) w) (fl_mul F w low)
          in if \<not> (fl_finite F fit \<and> fl_less F (fl_zero F) fit)
             then Some (Inl (PopulationError (''linear fitness 1 - w + w * '' @ fl_text F low @ '' = '' @ fl_text F fit @
                    '' must be positive for the lowest attainable payoff'')))
             else Some (Inr ()))))"

definition moran_prepare ::
    "('f, 'z) pop_ops_scheme \<Rightarrow> ('g, 'a, 'f, 'r) action_space \<Rightarrow> 'f moran_update \<Rightarrow>
     ('g, 'a, 'f, 's, 'x, 'n, 'd) dynamics_check \<Rightarrow> (game_error + unit) option" where
  "moran_prepare F A self check =
     (if mu_update self = Asynchronous
      then Some (Inl (PopulationError ''moran_update supports only Update::Synchronous; it has no asynchronous form''))
      else loop_bind (Some (check_held_only (dk_world check) ''moran_update'')) (\<lambda>_.
        loop_bind (Some (sp_check_common A (gw_game (dk_world check)))) (\<lambda>_.
          if gw_topology (dk_world check) \<noteq> NoTopology
          then Some (Inl (PopulationError ''moran_update requires a world without topology''))
          else loop_bind (Some (sp_check_mutation A (mu_mutation self) (mu_gaussian_sd self))) (\<lambda>_.
            case mu_fitness self of
              Linear w \<Rightarrow> check_linear_fitness F A w check
            | Exponential _ \<Rightarrow> Some (Inr ())))))"

definition moran_into_mechanism :: "'f moran_update \<Rightarrow> 'f moran_mechanism" where
  "moran_into_mechanism self =
     \<lparr>mo_fitness = mu_fitness self, mo_mutation = mu_mutation self, mo_gaussian_sd = mu_gaussian_sd self,
      mo_weights = []\<rparr>"

end
