(* ===== verification/Copying_Facts.thy ===== *)
theory Copying_Facts
  imports Copying Learning
begin

section \<open>What the population dynamics do\<close>

text \<open>
  Imitating the best copies the lowest action among the best paid of an agent and its neighbours, so
  it depends on the topology only up to renaming the agents; the Moran process changes one agent, by
  a parent of positive fitness; the payoff ranges the checks use are exact. \<open>float_laws\<close> is the order
  of \<open>f64\<close>.
\<close>

subsection \<open>Ties\<close>

text \<open>What breaking ties relies on: the comparison is the order of a rank.\<close>

locale tie_order =
  fixes tie_cmp :: "'a \<Rightarrow> 'a \<Rightarrow> ordering" and rank :: "'a \<Rightarrow> 'k::linorder"
  assumes tie_greater: "tie_cmp x y = OrdGreater \<longleftrightarrow> rank y < rank x"
    and tie_equal: "tie_cmp x y = OrdEqual \<longleftrightarrow> x = y"
    and rank_inj: "rank x = rank y \<Longrightarrow> x = y"
begin

lemma fold_choose:
  "case fold (choose_lowest F tie_cmp held payoffs best) ns c of
     None \<Rightarrow> c = None \<and> (\<forall>j \<in> set ns. \<not> fl_eq F (payoffs ! j) best)
   | Some s \<Rightarrow> (c = Some s \<or> s \<in> set ns \<and> fl_eq F (payoffs ! s) best) \<and>
       (\<forall>j. c = Some j \<or> j \<in> set ns \<and> fl_eq F (payoffs ! j) best \<longrightarrow> rank (held ! s) \<le> rank (held ! j))"
proof (induction ns arbitrary: c)
  case Nil
  then show ?case by (cases c) simp_all
next
  case (Cons n ns)
  let ?c = "choose_lowest F tie_cmp held payoffs best n c"
  show ?case
  proof (cases "fl_eq F (payoffs ! n) best")
    case False
    then have "?c = c" by (simp add: choose_lowest_def)
    then show ?thesis using Cons.IH [of c] False by (auto split: option.splits)
  next
    case True
    then obtain m where m: "?c = Some m" "m = n \<or> c = Some m" "rank (held ! m) \<le> rank (held ! n)"
        "\<forall>j. c = Some j \<longrightarrow> rank (held ! m) \<le> rank (held ! j)"
      using True by (cases c; cases "rank (held ! the c) \<le> rank (held ! n)") (auto simp: choose_lowest_def tie_greater not_less)
    obtain s where s: "fold (choose_lowest F tie_cmp held payoffs best) ns (Some m) = Some s"
        "m = s \<or> s \<in> set ns \<and> fl_eq F (payoffs ! s) best" "rank (held ! s) \<le> rank (held ! m)"
        "\<forall>j. j \<in> set ns \<and> fl_eq F (payoffs ! j) best \<longrightarrow> rank (held ! s) \<le> rank (held ! j)"
      using Cons.IH [of "Some m"] by (auto split: option.splits)
    have "rank (held ! s) \<le> rank (held ! j)"
      if "c = Some j \<or> j \<in> set (n # ns) \<and> fl_eq F (payoffs ! j) best" for j
      using that s(3,4) m(3,4) by (auto intro: order_trans)
    moreover have "c = Some s \<or> s \<in> set (n # ns) \<and> fl_eq F (payoffs ! s) best"
      using s(2) m(2) True by auto
    ultimately show ?thesis using m(1) s(1) by simp
  qed
qed

end

interpretation usize_ties: tie_order usize_cmp "\<lambda>n. n"
  by unfold_locales (auto simp: usize_cmp_def)

subsection \<open>Imitating the best\<close>

definition neighborhood_of :: "('n, 'd) topology \<Rightarrow> nat \<Rightarrow> nat set" where
  "neighborhood_of topo index = insert index (set (topology_neighbors topo index))"

definition best_paid :: "('f \<Rightarrow> real) \<Rightarrow> ('n, 'd) topology \<Rightarrow> 'f list \<Rightarrow> nat \<Rightarrow> nat set" where
  "best_paid key topo payoffs index =
     {j \<in> neighborhood_of topo index. \<forall>k \<in> neighborhood_of topo index. key (payoffs ! k) \<le> key (payoffs ! j)}"

lemma neighborhood_finite [simp]: "finite (neighborhood_of topo index)" "index \<in> neighborhood_of topo index"
  by (simp_all add: neighborhood_of_def)

lemma neighborhood_nonempty [simp]: "neighborhood_of topo index \<noteq> {}"
  by (simp add: neighborhood_of_def)

lemma best_paid_nonempty: "best_paid key topo payoffs index \<noteq> {}"
proof -
  let ?N = "neighborhood_of topo index"
  have "Max ((\<lambda>j. key (payoffs ! j)) ` ?N) \<in> (\<lambda>j. key (payoffs ! j)) ` ?N"
    by (intro Max_in) simp_all
  then obtain j where "j \<in> ?N" "key (payoffs ! j) = Max ((\<lambda>j. key (payoffs ! j)) ` ?N)" by force
  then have "j \<in> best_paid key topo payoffs index" by (simp add: best_paid_def)
  then show ?thesis by blast
qed

lemma finite_best_paid [simp]: "finite (best_paid key topo payoffs index)"
  by (simp add: best_paid_def)

lemma best_payoff_key:
  assumes laws: "float_laws F num key" and fin: "\<forall>j \<in> neighborhood_of topo index. fl_finite F (payoffs ! j)"
    and j: "j \<in> neighborhood_of topo index"
  shows "fl_eq F (payoffs ! j) (best_payoff F topo payoffs index) \<longleftrightarrow> j \<in> best_paid key topo payoffs index"
proof -
  let ?ns = "topology_neighbors topo index" and ?N = "neighborhood_of topo index"
  have num: "num (payoffs ! k)" if "k \<in> ?N" for k using fin that float_lawsD(1) [OF laws] by blast
  have best: "num (best_payoff F topo payoffs index) \<and>
      key (best_payoff F topo payoffs index) = Max ((\<lambda>k. key (payoffs ! k)) ` ?N)"
    using fold_max_key [OF laws, of "payoffs ! index" ?ns "(!) payoffs"] num
    by (simp add: best_payoff_def neighborhood_of_def)
  then have "fl_eq F (payoffs ! j) (best_payoff F topo payoffs index) \<longleftrightarrow>
      key (payoffs ! j) = Max ((\<lambda>k. key (payoffs ! k)) ` ?N)"
    using float_lawsD(3) [OF laws num [OF j]] by simp
  also have "\<dots> \<longleftrightarrow> j \<in> best_paid key topo payoffs index"
    using j Max_eq_iff [of "(\<lambda>k. key (payoffs ! k)) ` ?N" "key (payoffs ! j)"]
    by (simp add: best_paid_def eq_commute [of "key (payoffs ! j)"])
  finally show ?thesis .
qed

definition imitated :: "('f, 'z) calc_ops_scheme \<Rightarrow> ('a \<Rightarrow> 'a \<Rightarrow> ordering) \<Rightarrow> imitation_tie \<Rightarrow> ('n, 'd) topology \<Rightarrow> 'a list \<Rightarrow>
    'f list \<Rightarrow> nat \<Rightarrow> nat" where
  "imitated F tie_cmp tie topo held payoffs index =
     (case imitate_best_source F tie_cmp tie topo held payoffs index of None \<Rightarrow> index | Some s \<Rightarrow> s)"

lemma imitated_best:
  fixes held :: "'a list" and tie :: imitation_tie
  assumes order: "tie_order tie_cmp rank" and laws: "float_laws F num key"
    and fin: "\<forall>j \<in> neighborhood_of topo index. fl_finite F (payoffs ! j)"
  defines "B \<equiv> best_paid key topo payoffs index" and "s \<equiv> imitated F tie_cmp tie topo held payoffs index"
  shows "if tie = KeepOwn \<and> index \<in> B then s = index else s \<in> B \<and> (\<forall>j \<in> B. rank (held ! s) \<le> rank (held ! j))"
proof -
  let ?best = "best_payoff F topo payoffs index" and ?ns = "topology_neighbors topo index"
  let ?c = "if fl_eq F (payoffs ! index) ?best then Some index else None"
  let ?f = "fold (choose_lowest F tie_cmp held payoffs ?best) ?ns ?c"
  have eq: "fl_eq F (payoffs ! j) ?best \<longleftrightarrow> j \<in> B" if "j \<in> neighborhood_of topo index" for j
    unfolding B_def by (rule best_payoff_key [OF laws fin that])
  have sub: "B \<subseteq> neighborhood_of topo index" by (auto simp: B_def best_paid_def)
  have mem: "(?c = Some j \<or> j \<in> set ?ns \<and> fl_eq F (payoffs ! j) ?best) \<longleftrightarrow> j \<in> B" for j
    using eq [of j] eq [of index] sub by (auto simp: neighborhood_of_def)
  have "B \<noteq> {}" by (simp add: B_def best_paid_nonempty)
  then obtain t where t: "?f = Some t" "t \<in> B" "\<forall>j \<in> B. rank (held ! t) \<le> rank (held ! j)"
    using tie_order.fold_choose [OF order, where F = F and held = held and payoffs = payoffs and best = ?best and ns = ?ns and c = ?c] mem
    by (cases ?f) auto
  show ?thesis
  proof (cases "tie = KeepOwn \<and> index \<in> B")
    case True
    then show ?thesis using eq [of index] by (simp add: s_def imitated_def imitate_best_source_def Let_def)
  next
    case False
    then have "s = t" using t(1) eq [of index] by (auto simp: s_def imitated_def imitate_best_source_def Let_def)
    then show ?thesis using t False by auto
  qed
qed

lemma draw_map_pure: "(\<And>x r. x \<in> set xs \<Longrightarrow> f x r = (g x, r)) \<Longrightarrow> draw_map f xs rng = (map g xs, rng)"
  by (induction xs) simp_all

lemma check_payoffs_Inr: "check_payoffs finite' payoffs name = Inr () \<longleftrightarrow> (\<forall>p \<in> set payoffs. finite' p)"
  by (auto simp: check_payoffs_def find_None_iff find_Some_iff all_set_conv_all_nth nth_append split: option.split)

text \<open>A step of imitation whose payoffs are all finite.\<close>

lemma imitation_step:
  assumes "cm_kernel self = imitate_best_kernel F tie_cmp tie" "length (gw_payoff w) = length (gw_held w)"
    and "\<forall>p \<in> set (gw_payoff w). fl_finite F p"
  shows "copy_apply (fl_finite F) self (w, rng) =
    (Inr (), self\<lparr>cm_next := gw_held w\<rparr>,
     w\<lparr>gw_held := map (\<lambda>i. gw_held w ! imitated F tie_cmp tie (gw_topology w) (gw_held w) (gw_payoff w) i)
       [0..<length (gw_held w)]\<rparr>, rng)"
proof -
  have "draw_map (copy_next (cm_kernel self) w) [0..<length (gw_held w)] rng =
      (map (\<lambda>i. gw_held w ! imitated F tie_cmp tie (gw_topology w) (gw_held w) (gw_payoff w) i) [0..<length (gw_held w)], rng)"
    by (rule draw_map_pure) (simp add: copy_next_def assms(1) imitate_best_kernel_def imitated_def)
  moreover have "check_payoffs (fl_finite F) (gw_payoff w) (ck_name (cm_kernel self)) = Inr ()"
    by (simp add: check_payoffs_Inr assms(3))
  ultimately show ?thesis by (simp add: copy_apply_def assms(2))
qed

definition closed_topology :: "('n, 'd) topology \<Rightarrow> nat \<Rightarrow> bool" where
  "closed_topology topo n \<longleftrightarrow> (\<forall>i < n. \<forall>j \<in> set (topology_neighbors topo i). j < n)"

text \<open>A world as the Reward phase finds it: one finite payoff per agent, and neighbours that are agents.\<close>

definition paid_world :: "('f \<Rightarrow> bool) \<Rightarrow> ('g, 'a, 'f, 's, 'x, 'n, 'd) game_world \<Rightarrow> bool" where
  "paid_world finite' w \<longleftrightarrow>
     length (gw_payoff w) = length (gw_held w) \<and> list_all finite' (gw_payoff w) \<and>
     closed_topology (gw_topology w) (length (gw_held w))"

text \<open>\<open>\<pi>\<close> renames the agents of \<open>w\<close> into agents of \<open>v\<close>: held actions, payoffs and neighbours go along.\<close>

definition renames :: "(nat \<Rightarrow> nat) \<Rightarrow> ('g, 'a, 'f, 's, 'x, 'n, 'd) game_world \<Rightarrow> ('g, 'a, 'f, 's, 'x, 'n, 'd) game_world \<Rightarrow> bool" where
  "renames \<pi> w v \<longleftrightarrow>
     (\<forall>i < length (gw_held w). \<pi> i < length (gw_held v) \<and> gw_held v ! \<pi> i = gw_held w ! i \<and>
        gw_payoff v ! \<pi> i = gw_payoff w ! i \<and>
        set (topology_neighbors (gw_topology v) (\<pi> i)) = \<pi> ` set (topology_neighbors (gw_topology w) i))"

lemma neighborhood_renamed:
  assumes "renames \<pi> w v" "i < length (gw_held w)"
  shows "neighborhood_of (gw_topology v) (\<pi> i) = \<pi> ` neighborhood_of (gw_topology w) i"
  using assms by (simp add: renames_def neighborhood_of_def)

lemma neighborhood_agents:
  assumes "paid_world finite' w" "i < length (gw_held w)" "j \<in> neighborhood_of (gw_topology w) i"
  shows "j < length (gw_held w)" "finite' (gw_payoff w ! j)"
proof -
  show "j < length (gw_held w)" using assms by (auto simp: paid_world_def closed_topology_def neighborhood_of_def)
  then show "finite' (gw_payoff w ! j)" using assms(1) by (simp add: paid_world_def list_all_length)
qed

lemma best_paid_renamed:
  assumes "renames \<pi> w v" "paid_world finite' w" "i < length (gw_held w)"
  shows "best_paid key (gw_topology v) (gw_payoff v) (\<pi> i) = \<pi> ` best_paid key (gw_topology w) (gw_payoff w) i"
proof -
  have "gw_payoff v ! \<pi> j = gw_payoff w ! j" if "j \<in> neighborhood_of (gw_topology w) i" for j
    using assms(1) neighborhood_agents(1) [OF assms(2,3) that] by (simp add: renames_def)
  then show ?thesis by (auto simp: best_paid_def neighborhood_renamed [OF assms(1,3)])
qed

text \<open>The action imitation gives an agent.\<close>

definition best_action :: "imitation_tie \<Rightarrow> ('f \<Rightarrow> real) \<Rightarrow> ('g, nat, 'f, 's, 'x, 'n, 'd) game_world \<Rightarrow> nat \<Rightarrow> nat" where
  "best_action tie key w i =
     (let B = best_paid key (gw_topology w) (gw_payoff w) i
      in if tie = KeepOwn \<and> i \<in> B then gw_held w ! i else Min ((!) (gw_held w) ` B))"

lemma imitated_action:
  assumes laws: "float_laws F num key" and w: "paid_world (fl_finite F) w" and i: "i < length (gw_held w)"
  shows "gw_held w ! imitated F usize_cmp tie (gw_topology w) (gw_held w) (gw_payoff w) i = best_action tie key w i"
proof -
  let ?B = "best_paid key (gw_topology w) (gw_payoff w) i"
  let ?s = "imitated F usize_cmp tie (gw_topology w) (gw_held w) (gw_payoff w) i"
  have "if tie = KeepOwn \<and> i \<in> ?B then ?s = i else ?s \<in> ?B \<and> (\<forall>j \<in> ?B. gw_held w ! ?s \<le> gw_held w ! j)"
    by (rule imitated_best [OF usize_ties.tie_order_axioms laws]) (use neighborhood_agents(2) [OF w i] in blast)
  moreover have "Min ((!) (gw_held w) ` ?B) = gw_held w ! ?s"
    if "?s \<in> ?B" "\<forall>j \<in> ?B. gw_held w ! ?s \<le> gw_held w ! j"
    using that by (intro Min_eqI) auto
  ultimately show ?thesis by (auto simp: best_action_def Let_def split: if_splits)
qed

lemma best_action_renamed:
  assumes "renames \<pi> w v" "paid_world finite' w" "i < length (gw_held w)"
  shows "best_action tie key v (\<pi> i) = best_action tie key w i"
proof -
  let ?B = "best_paid key (gw_topology w) (gw_payoff w) i"
  have agents: "j < length (gw_held w)" if "j \<in> ?B" for j
    using that neighborhood_agents(1) [OF assms(2,3)] by (simp add: best_paid_def)
  then have image: "(!) (gw_held v) ` \<pi> ` ?B = (!) (gw_held w) ` ?B"
    using assms(1) by (auto simp: renames_def image_image)
  have own: "\<pi> i \<in> \<pi> ` ?B \<longleftrightarrow> i \<in> ?B"
  proof
    assume "\<pi> i \<in> \<pi> ` ?B"
    then obtain j where j: "j \<in> ?B" "\<pi> i = \<pi> j" by blast
    then have "gw_payoff w ! i = gw_payoff w ! j"
      using assms(1,3) agents [OF j(1)] by (metis renames_def)
    then show "i \<in> ?B" using j(1) by (simp add: best_paid_def)
  qed simp
  show ?thesis
    using assms(1,3) own by (simp add: best_action_def best_paid_renamed [OF assms] image renames_def Let_def)
qed

text \<open>
  C9: imitating the best gives every agent the lowest action among the best paid of itself and its
  neighbours, or its own when it is among them and ties keep it; so the step commutes with every
  renaming of the agents that respects the neighbours.
\<close>

theorem imitation_commutes_with_symmetry:
  assumes "float_laws F num key" "cm_kernel self = imitate_best_kernel F usize_cmp tie"
    and "paid_world (fl_finite F) w" "paid_world (fl_finite F) v" "renames \<pi> w v"
  shows "\<exists>self1 w' self2 v'. copy_apply (fl_finite F) self (w, rng) = (Inr (), self1, w', rng) \<and>
    copy_apply (fl_finite F) self (v, rng) = (Inr (), self2, v', rng) \<and>
    (\<forall>i < length (gw_held w). gw_held w' ! i = best_action tie key w i \<and> gw_held v' ! \<pi> i = gw_held w' ! i)"
proof -
  let ?next = "\<lambda>u i. gw_held u ! imitated F usize_cmp tie (gw_topology u) (gw_held u) (gw_payoff u) i"
  have step: "copy_apply (fl_finite F) self (u, rng) =
      (Inr (), self\<lparr>cm_next := gw_held u\<rparr>, u\<lparr>gw_held := map (?next u) [0..<length (gw_held u)]\<rparr>, rng)"
    if "paid_world (fl_finite F) u" for u
    using that by (intro imitation_step assms(2)) (simp_all add: paid_world_def list_all_iff)
  have "?next w i = best_action tie key w i \<and> ?next v (\<pi> i) = best_action tie key w i \<and> \<pi> i < length (gw_held v)"
    if i: "i < length (gw_held w)" for i
  proof -
    have "\<pi> i < length (gw_held v)" using assms(5) i by (simp add: renames_def)
    then show ?thesis
      using imitated_action [OF assms(1,3) i] imitated_action [OF assms(1,4)] best_action_renamed [OF assms(5,3) i] by simp
  qed
  then show ?thesis using step [OF assms(3)] step [OF assms(4)] by simp
qed

definition copied_world :: "nat list \<Rightarrow> int list \<Rightarrow> (unit, nat, int, unit, unit, unit, unit) game_world" where
  "copied_world held payoffs =
     \<lparr>gw_clock = clock_new 10, gw_ids = map AgentId [0..<length held], gw_game = (),
      gw_topology = NetworkTopo \<lparr>net_network = Undirected (),
        net_tables = \<lparr>nt_offsets = [0, 1, 3, 4], nt_neighbors = [AgentId 1, AgentId 0, AgentId 2, AgentId 1],
          nt_edges = [(AgentId 0, AgentId 1), (AgentId 1, AgentId 2)],
          nt_incident_offsets = [0, 1, 3, 4], nt_incident_edges = [0, 0, 1, 1]\<rparr>\<rparr>,
      gw_held = held, gw_policies = policy_new [] (replicate (length held) HELD) [] [],
      gw_matching_state = NoMatchingState, gw_plays = arena_new 2, gw_payoff = payoffs,
      gw_n_played = map (\<lambda>_. 1) held, gw_played_counts = None, gw_step_history = step_history_new 0 3 1,
      gw_pair_history = None, gw_aggregate = None, gw_reports = None, gw_metrics_state = None,
      gw_x = (), gw_decision_root = 0\<rparr>"

lemma copied_world_neighbors:
  "topology_neighbors (gw_topology (copied_world held payoffs)) 0 = [1]"
  "topology_neighbors (gw_topology (copied_world held payoffs)) (Suc 0) = [0, 2]"
  "topology_neighbors (gw_topology (copied_world held payoffs)) (Suc (Suc 0)) = [1]"
  by (simp_all add: copied_world_def topology_neighbors_def net_neighbors_def table_lookup_def get_opt_def)

text \<open>Three agents on a line and their mirror image: the middle agent sees two best payoffs.\<close>

theorem imitation_commutes_with_symmetry_witness:
  "\<exists>self1 w'. copy_apply (fl_finite int_solve) (copy_mechanism_new (imitate_best_kernel int_solve usize_cmp KeepOwn))
      (copied_world [2, 0, 1] [7, 3, 7], ()) = (Inr (), self1, w', ()) \<and> gw_held w' ! 1 = 1"
proof -
  let ?self = "copy_mechanism_new (imitate_best_kernel int_solve usize_cmp KeepOwn)"
  let ?w = "copied_world [2, 0, 1] [7, 3, 7]" and ?v = "copied_world [1, 0, 2] [7, 3, 7]"
  let ?mirror = "\<lambda>i. 2 - i :: nat"
  have upto: "(\<forall>i < length (gw_held (copied_world [a, b, c] ps)). P i) \<longleftrightarrow> P 0 \<and> P (Suc 0) \<and> P (Suc (Suc 0))" for a b c ps P
    by (simp add: copied_world_def All_less_Suc2)
  have paid: "paid_world (fl_finite int_solve) (copied_world [a, b, c] [7, 3, 7])" for a b c
    unfolding paid_world_def closed_topology_def upto copied_world_neighbors by (simp add: copied_world_def int_solve_def)
  have "renames ?mirror ?w ?v"
    unfolding renames_def upto copied_world_neighbors by (simp add: copied_world_neighbors numeral_2_eq_2) (simp add: copied_world_def insert_commute)
  moreover have "best_paid real_of_int (gw_topology ?w) (gw_payoff ?w) 1 = {0, 2}"
    by (auto simp: best_paid_def neighborhood_of_def copied_world_neighbors) (auto simp: copied_world_def)
  then have "best_action KeepOwn real_of_int ?w 1 = 1"
    by (simp add: best_action_def) (simp add: copied_world_def)
  ultimately show ?thesis
    using imitation_commutes_with_symmetry [OF int_solve_laws _ paid paid, of ?self KeepOwn ?mirror 2 0 1 1 0 2 "()"]
    by (force simp: copy_mechanism_new_def copied_world_def)
qed

subsection \<open>The Moran process\<close>

lemma scan_parent_fold:
  "fold (scan_parent F target) ivs sc =
     \<lparr>ps_cumulative = fold (\<lambda>(_, v) c. fl_add F c v) ivs (ps_cumulative sc),
      ps_parent = (case ps_parent sc of Some p \<Rightarrow> Some p | None \<Rightarrow> first_cumulative F target (ps_cumulative sc) ivs),
      ps_last_positive = fold (\<lambda>(i, v) l. if fl_less F (fl_zero F) v then i else l) ivs (ps_last_positive sc)\<rparr>"
proof (induction ivs arbitrary: sc)
  case Nil
  then show ?case by (cases sc) (simp split: option.split)
next
  case (Cons iv ivs)
  then show ?case by (cases iv) (simp add: scan_parent_def Let_def split: option.split)
qed

lemma last_positive_positive:
  "\<exists>(i, v) \<in> set ivs. fl_less F (fl_zero F) v \<Longrightarrow>
   \<exists>v. (fold (\<lambda>(i, v) l. if fl_less F (fl_zero F) v then i else l) ivs l, v) \<in> set ivs \<and> fl_less F (fl_zero F) v"
proof (induction ivs rule: rev_induct)
  case (snoc iv ivs)
  show ?case
  proof (cases "fl_less F (fl_zero F) (snd iv)")
    case True
    then show ?thesis by (cases iv) auto
  next
    case False
    then have "\<exists>(i, v) \<in> set ivs. fl_less F (fl_zero F) v" using snoc.prems by auto
    then show ?thesis using snoc.IH False by (cases iv) auto
  qed
qed simp

lemma total_positive:
  assumes "zero_neutral F" "fl_less F d (fold (\<lambda>v c. fl_add F c v) vs c)" "\<not> fl_less F d c"
    and "\<forall>v \<in> set vs. fl_finite F v \<and> \<not> fl_less F v (fl_zero F)"
  shows "\<exists>v \<in> set vs. fl_less F (fl_zero F) v"
  using assms(2-)
proof (induction vs arbitrary: c)
  case (Cons v vs)
  show ?case
  proof (cases "fl_less F (fl_zero F) v")
    case False
    then have "\<not> fl_less F d (fl_add F c v)"
      using assms(1) Cons.prems(2,3) unfolding zero_neutral_def by (metis list.set_intros(1))
    then show ?thesis using Cons by auto
  qed simp
qed simp

lemma draw_parent_positive:
  assumes neutral: "zero_neutral F" and weights: "\<forall>v \<in> set weights. fl_finite F v \<and> \<not> fl_less F v (fl_zero F)"
    and mass: "\<exists>v \<in> set weights. fl_less F (fl_zero F) v" and target: "\<not> fl_less F target (fl_zero F)"
  shows "draw_parent F weights target < length weights \<and> fl_less F (fl_zero F) (weights ! draw_parent F weights target)"
proof -
  let ?ivs = "List.enumerate 0 weights"
  have mem: "(i, v) \<in> set ?ivs \<longleftrightarrow> i < length weights \<and> v = weights ! i" for i v
    by (auto simp: in_set_enumerate_eq)
  obtain k where "k < length weights" "fl_less F (fl_zero F) (weights ! k)" using mass by (auto simp: in_set_conv_nth)
  then have "(k, weights ! k) \<in> set ?ivs" "fl_less F (fl_zero F) (weights ! k)" by (simp_all add: mem)
  then have pos: "\<exists>(i, v) \<in> set ?ivs. fl_less F (fl_zero F) v" by blast
  obtain v where last: "(fold (\<lambda>(i, v) l. if fl_less F (fl_zero F) v then i else l) ?ivs 0, v) \<in> set ?ivs"
      "fl_less F (fl_zero F) v"
    using last_positive_positive [OF pos, where l = 0] by (elim exE conjE)
  have first: "\<exists>v. (i, v) \<in> set ?ivs \<and> fl_less F (fl_zero F) v"
    if "first_cumulative F target (fl_zero F) ?ivs = Some i" for i
    by (rule first_cumulative_positive [OF neutral that target]) (use weights in \<open>auto simp: mem\<close>)
  show ?thesis
  proof (cases "first_cumulative F target (fl_zero F) ?ivs")
    case None
    then have "draw_parent F weights target = fold (\<lambda>(i, v) l. if fl_less F (fl_zero F) v then i else l) ?ivs 0"
      by (simp add: draw_parent_def scan_parent_fold)
    then show ?thesis using last unfolding mem by simp
  next
    case (Some i)
    then have "draw_parent F weights target = i" by (simp add: draw_parent_def scan_parent_fold)
    then show ?thesis using first [OF Some] unfolding mem by auto
  qed
qed

lemma moran_weight_pair:
  "moran_weight F fit (i, p) (tot, ws) =
     (if \<not> fl_finite F (fitness_value F fit p) \<or> fl_less F (fitness_value F fit p) (fl_zero F)
      then (Inl (Mechanism (''moran_update computed an invalid fitness '' @ fl_text F (fitness_value F fit p) @
              '' for agent '' @ show_nat i)), tot, ws)
      else (Inr (), fl_add F tot (fitness_value F fit p), ws @ [fitness_value F fit p]))"
  by (simp add: moran_weight_def Let_def)

lemma moran_weights_Inr:
  assumes "for_each (moran_weight F fit) ivs (tot, ws) = (Inr (), tot', ws')"
  shows "ws' = ws @ map (fitness_value F fit \<circ> snd) ivs \<and> tot' = fold (\<lambda>v c. fl_add F c v) (map (fitness_value F fit \<circ> snd) ivs) tot \<and>
    (\<forall>(i, p) \<in> set ivs. fl_finite F (fitness_value F fit p) \<and> \<not> fl_less F (fitness_value F fit p) (fl_zero F))"
  using assms
proof (induction ivs arbitrary: tot ws)
  case (Cons iv ivs)
  obtain i p where iv: "iv = (i, p)" by (cases iv)
  let ?v = "fitness_value F fit p"
  have "fl_finite F ?v" "\<not> fl_less F ?v (fl_zero F)"
      "for_each (moran_weight F fit) ivs (fl_add F tot ?v, ws @ [?v]) = (Inr (), tot', ws')"
    using Cons.prems by (auto simp: iv moran_weight_pair split: if_splits)
  then show ?case using Cons.IH [of "fl_add F tot ?v" "ws @ [?v]"] by (auto simp: iv)
qed simp

lemma moran_apply_Ok:
  assumes "moran_apply F R A self (w, rng) = (Inr (), self', w', rng')" "gw_held w \<noteq> []"
  shows "\<exists>tot weights. for_each (moran_weight F (mo_fitness self)) (List.enumerate 0 (gw_payoff w)) (fl_zero F, []) =
      (Inr (), tot, weights) \<and> fl_less F (fl_zero F) tot \<and>
    birth_death F R A (self\<lparr>mo_weights := weights\<rparr>) tot w rng = (w', rng')"
proof -
  obtain r tot weights where run:
      "for_each (moran_weight F (mo_fitness self)) (List.enumerate 0 (gw_payoff w)) (fl_zero F, []) = (r, tot, weights)"
    by (cases "for_each (moran_weight F (mo_fitness self)) (List.enumerate 0 (gw_payoff w)) (fl_zero F, [])") auto
  show ?thesis
    using assms unfolding moran_apply_def run
    by (cases r) (auto simp: run Let_def split: sum.splits if_splits prod.splits)
qed

text \<open>The draws of \<open>rand\<close> lie in their ranges, and a product of values that are not negative is not.\<close>

definition fair_draws :: "('f, 'z) calc_ops_scheme \<Rightarrow> ('f, 'r) draw_ops \<Rightarrow> bool" where
  "fair_draws F R \<longleftrightarrow>
     (\<forall>n rng. 0 < n \<longrightarrow> fst (dr_range R n rng) < n) \<and>
     (\<forall>rng x. fl_less F (fl_zero F) x \<longrightarrow> \<not> fl_less F (fl_mul F (fst (dr_f64 R rng)) x) (fl_zero F)) \<and>
     \<not> fl_less F (fl_zero F) (fl_zero F)"

text \<open>
  C11: one Moran step in a finite game is one birth and one death. Exactly the held action of one agent is
  written, with the action of a parent whose fitness is positive or with an action of the game; and
  the step makes the same four draws whatever their outcome.
\<close>

theorem moran_step_is_birth_death:
  assumes "zero_neutral F" "fair_draws F R" "length (gw_payoff w) = length (gw_held w)" "gw_held w \<noteq> []"
    and "0 < fg_n_actions G (gw_game w) 0"
    and "moran_apply F R (finite_space F R G) self (w, rng) = (Inr (), self', w', rng')"
  shows "(\<exists>death < length (gw_held w). \<exists>parent < length (gw_held w). \<exists>a.
      fl_less F (fl_zero F) (fitness_value F (mo_fitness self) (gw_payoff w ! parent)) \<and>
      (a = gw_held w ! parent \<or> a < fg_n_actions G (gw_game w) 0) \<and> w' = w\<lparr>gw_held := list_update (gw_held w) death a\<rparr>) \<and>
    rng' = snd (dr_range R (fg_n_actions G (gw_game w) 0) (snd (dr_f64 R
             (snd (dr_range R (length (gw_held w)) (snd (dr_f64 R rng)))))))"
proof -
  let ?fit = "fitness_value F (mo_fitness self)" and ?n = "length (gw_held w)"
  let ?k = "fg_n_actions G (gw_game w) 0"
  obtain tot weights where run: "for_each (moran_weight F (mo_fitness self)) (List.enumerate 0 (gw_payoff w)) (fl_zero F, []) =
        (Inr (), tot, weights)" and tot: "fl_less F (fl_zero F) tot"
    and step: "birth_death F R (finite_space F R G) (self\<lparr>mo_weights := weights\<rparr>) tot w rng = (w', rng')"
    using moran_apply_Ok [OF assms(6,4)] by blast
  have weights: "weights = map ?fit (gw_payoff w)" and total: "tot = fold (\<lambda>v c. fl_add F c v) weights (fl_zero F)"
    using moran_weights_Inr [OF run] by (simp_all flip: map_map)
  have ok: "\<forall>v \<in> set weights. fl_finite F v \<and> \<not> fl_less F v (fl_zero F)"
    using moran_weights_Inr [OF run] by (fastforce simp: weights in_set_enumerate_eq in_set_conv_nth)
  have "\<exists>v \<in> set weights. fl_less F (fl_zero F) v"
    using assms(2) by (intro total_positive [OF assms(1) tot [unfolded total] _ ok]) (simp add: fair_draws_def)
  moreover have "\<not> fl_less F (fl_mul F (fst (dr_f64 R rng)) tot) (fl_zero F)"
    using assms(2) tot by (simp add: fair_draws_def)
  moreover define parent where "parent = draw_parent F weights (fl_mul F (fst (dr_f64 R rng)) tot)"
  ultimately have "parent < length weights" "fl_less F (fl_zero F) (weights ! parent)"
    using draw_parent_positive [OF assms(1) ok] by simp_all
  then have parent: "parent < ?n" "fl_less F (fl_zero F) (?fit (gw_payoff w ! parent))"
    using assms(3) by (simp_all add: weights)
  define death where "death = fst (dr_range R ?n (snd (dr_f64 R rng)))"
  have range: "fst (dr_range R n r) < n" if "0 < n" for n r using assms(2) that by (simp add: fair_draws_def)
  have death: "death < ?n" using range assms(4) by (simp add: death_def)
  let ?r3 = "snd (dr_f64 R (snd (dr_range R ?n (snd (dr_f64 R rng)))))"
  define a where "a = (if fl_less F (fst (dr_f64 R (snd (dr_range R ?n (snd (dr_f64 R rng)))))) (mo_mutation self)
      then fst (dr_range R ?k ?r3) else gw_held w ! parent)"
  have "w' = w\<lparr>gw_held := list_update (gw_held w) death a\<rparr> \<and> rng' = snd (dr_range R ?k ?r3)"
    using step by (auto simp: birth_death_def finite_space_def parent_def death_def a_def Let_def case_prod_unfold)
  moreover have "a = gw_held w ! parent \<or> a < ?k" using range [OF assms(5)] by (simp add: a_def)
  ultimately show ?thesis using parent death by blast
qed

definition int_pop :: "int pop_ops" where
  "int_pop = \<lparr>fl_zero = 0, fl_nan = - 2000, fl_add = (+), fl_div = (\<lambda>x y. x div y), fl_of_nat = int,
     fl_finite = (\<lambda>x. - 1000 < x \<and> x < 1000), fl_one = 1, fl_sub = (-), fl_mul = (*), fl_eq = (=), fl_less = (<),
     fl_max = max, fl_neg_inf = - 1000, fl_exp = (\<lambda>x. x),
     fl_sum = sum_list, fl_product = prod_list, fl_abs = abs, fl_dist_tol = 0, fl_inf = 1000, fl_min = min, fl_tiny = 0,
     fl_neg = uminus, fl_ln = (\<lambda>x. x), fl_sqrt = (\<lambda>x. x), fl_cos = (\<lambda>x. x), fl_tau = 6, fl_epsilon = 0,
     fl_total_cmp = (\<lambda>x y. if x < y then OrdLess else if x = y then OrdEqual else OrdGreater), fl_text = (\<lambda>_. [])\<rparr>"

text \<open>A generator that counts its draws: a zero for the uniform value, the last index for a range.\<close>

definition last_draws :: "(int, nat) draw_ops" where
  "last_draws = \<lparr>dr_f64 = (\<lambda>rng. (0, rng + 1)), dr_range = (\<lambda>n rng. (n - 1, rng + 1))\<rparr>"

theorem moran_step_is_birth_death_witness:
  "\<exists>self' w' rng'. moran_apply int_pop last_draws (finite_space int_pop last_draws prisoners)
      \<lparr>mo_fitness = Exponential 1, mo_mutation = 0, mo_gaussian_sd = None, mo_weights = []\<rparr>
      (copied_world [1, 0, 0] [3, 5, 2], 0) = (Inr (), self', w', rng') \<and> gw_held w' = [1, 0, 1] \<and> rng' = 4"
proof -
  let ?w = "copied_world [1, 0, 0] [3, 5, 2]"
  let ?self = "\<lparr>mo_fitness = Exponential 1, mo_mutation = 0, mo_gaussian_sd = None, mo_weights = []\<rparr> :: int moran_mechanism"
  have run: "moran_apply int_pop last_draws (finite_space int_pop last_draws prisoners) ?self (?w, 0) =
      (Inr (), ?self\<lparr>mo_weights := [3, 5, 2]\<rparr>, ?w\<lparr>gw_held := [1, 0, 1]\<rparr>, 4)"
    by (simp add: moran_apply_def copied_world_def check_payoffs_def upt_rec int_pop_def moran_weight_def fitness_value_def
        birth_death_def last_draws_def draw_parent_def scan_parent_def finite_space_def Let_def)
  have neutral: "zero_neutral int_pop" by (simp add: zero_neutral_def int_pop_def)
  have fair: "fair_draws int_pop last_draws" by (simp add: fair_draws_def int_pop_def last_draws_def)
  have fields: "gw_held ?w = [1, 0, 0]" "gw_payoff ?w = [3, 5, 2]" "fg_n_actions prisoners (gw_game ?w) 0 = 2"
    by (simp_all add: copied_world_def prisoners_sizes)
  have sizes: "length (gw_payoff ?w) = length (gw_held ?w)" "gw_held ?w \<noteq> []" "0 < fg_n_actions prisoners (gw_game ?w) 0"
    unfolding fields by simp_all
  from conjunct2 [OF moran_step_is_birth_death [OF neutral fair sizes run]]
  have "(4 :: nat) = snd (dr_range last_draws 2 (snd (dr_f64 last_draws (snd (dr_range last_draws 3 (snd (dr_f64 last_draws 0)))))))"
    unfolding fields by (simp add: numeral_3_eq_3)
  then show ?thesis using run by auto
qed

subsection \<open>Payoff ranges\<close>

definition range_laws :: "('f, 'z) solve_ops_scheme \<Rightarrow> ('f \<Rightarrow> real) \<Rightarrow> bool" where
  "range_laws F key \<longleftrightarrow>
     (\<forall>x y. fl_finite F x \<longrightarrow> fl_finite F y \<longrightarrow> key (fl_min F x y) = min (key x) (key y)) \<and>
     (\<forall>x. fl_finite F x \<longrightarrow> key (fl_min F (fl_inf F) x) = key x \<and> key (fl_max F (fl_neg_inf F) x) = key x)"

text \<open>The accumulator after the payoffs whose keys are \<open>S\<close>.\<close>

definition spans :: "('f, 'z) solve_ops_scheme \<Rightarrow> ('f \<Rightarrow> real) \<Rightarrow> real set \<Rightarrow> 'f \<times> 'f \<Rightarrow> bool" where
  "spans F key S acc \<longleftrightarrow> finite S \<and>
     (if S = {} then acc = (fl_inf F, fl_neg_inf F)
      else fl_finite F (fst acc) \<and> fl_finite F (snd acc) \<and> key (fst acc) = Min S \<and> key (snd acc) = Max S)"

lemma spans_widen:
  assumes "float_laws F num key" "range_laws F key" "spans F key S acc" "fl_finite F x"
  shows "\<exists>acc'. widen F acc x = Inr acc' \<and> spans F key (insert (key x) S) acc'"
proof (cases "S = {}")
  case True
  then show ?thesis
    using assms float_lawsD(10,11) [OF assms(1,4)] by (simp add: widen_def spans_def range_laws_def)
next
  case False
  then have acc: "fl_finite F (fst acc)" "fl_finite F (snd acc)" "key (fst acc) = Min S" "key (snd acc) = Max S" "finite S"
    using assms(3) by (simp_all add: spans_def)
  have "key (fl_max F (snd acc) x) = max (key (snd acc)) (key x)"
    by (rule float_lawsD(5) [OF assms(1)]) (simp_all add: float_lawsD(1) [OF assms(1)] acc assms(4))
  moreover have "key (fl_min F (fst acc) x) = min (key (fst acc)) (key x)"
    using assms(2,4) acc(1) by (simp add: range_laws_def)
  ultimately show ?thesis
    using acc False assms(4) float_lawsD(6) [OF assms(1) acc(2) assms(4)] float_lawsD(7) [OF assms(1) acc(1) assms(4)]
    by (simp add: widen_def spans_def max.commute min.commute)
qed

lemma spans_fold:
  assumes "spans F key S acc" "\<And>x S acc. x \<in> set xs \<Longrightarrow> spans F key S acc \<Longrightarrow> \<exists>acc'. f acc x = Inr acc' \<and> spans F key (S \<union> K x) acc'"
  shows "\<exists>acc'. try_fold f acc xs = Inr acc' \<and> spans F key (S \<union> (\<Union>x \<in> set xs. K x)) acc'"
  using assms
proof (induction xs arbitrary: S acc)
  case (Cons x xs)
  obtain acc1 where acc1: "f acc x = Inr acc1" "spans F key (S \<union> K x) acc1"
    using Cons.prems(2) [of x, OF _ Cons.prems(1)] by auto
  have "\<exists>acc'. try_fold f acc1 xs = Inr acc' \<and> spans F key ((S \<union> K x) \<union> (\<Union>x \<in> set xs. K x)) acc'"
    by (rule Cons.IH [OF acc1(2)]) (use Cons.prems(2) in simp)
  then show ?case using acc1(1) by (simp add: Un_assoc)
qed simp

lemma spans_profile:
  assumes "float_laws F num key" "range_laws F key" "spans F key S acc"
    and "\<forall>role < sg_n_roles G game. fl_finite F (nf_payoff G game role p)"
  shows "\<exists>acc'. profile_range F G game acc p = Inr acc' \<and>
    spans F key (S \<union> (\<Union>role \<in> {0..<sg_n_roles G game}. {key (nf_payoff G game role p)})) acc'"
  using spans_fold [OF assms(3), of "[0..<sg_n_roles G game]" "\<lambda>acc role. widen F acc (nf_payoff G game role p)"
      "\<lambda>role. {key (nf_payoff G game role p)}"] spans_widen [OF assms(1,2)] assms(4)
  by (simp add: profile_range_def)

lemma range_counts_accepts:
  assumes "\<forall>role < sg_n_roles G game. 0 < fg_n_actions G game role"
  shows "range_counts G game = Inr (map (fg_n_actions G game) [0..<sg_n_roles G game],
         min (prod_list (map (fg_n_actions G game) [0..<sg_n_roles G game])) (2 ^ 128 - 1))"
proof -
  let ?f = "fg_n_actions G game" and ?roles = "[0..<sg_n_roles G game]"
  have "try_fold (\<lambda>(counts, profiles) role.
         let n = ?f role in if n = 0 then Inl (PopulationError (''role '' @ show_nat role @ '' has no actions''))
            else Inr (counts @ [n], saturating_mul_u128 profiles n)) (counts, profiles) roles =
      Inr (counts @ map ?f roles, fold (\<lambda>n profiles. saturating_mul_u128 profiles n) (map ?f roles) profiles)"
    if "\<forall>role \<in> set roles. 0 < ?f role" for roles counts profiles
    using that by (induction roles arbitrary: counts profiles) (simp_all add: Let_def)
  from this [of ?roles "[]" 1] show ?thesis
    using assms saturating_product [of "map ?f ?roles" 1] by (simp add: range_counts_def)
qed

definition all_payoffs :: "('f \<Rightarrow> real) \<Rightarrow> ('g, 'f, 'y) finite_game_scheme \<Rightarrow> 'g \<Rightarrow> real set" where
  "all_payoffs key G game = (\<Union>p \<in> set (all_profiles (fg_n_actions G game) (sg_n_roles G game)).
     \<Union>role \<in> {0..<sg_n_roles G game}. {key (nf_payoff G game role p)})"

text \<open>
  C29: for a finite game within the size limit, the payoff range used to bound the imitation rate and the linear
  fitness returns and is exact: its ends are the smallest and the largest payoff of any role at any
  action profile.
\<close>

theorem finite_payoff_range_exact:
  assumes "float_laws F num key" "range_laws F key" "accepted_game F G game"
  shows "\<exists>low high. finite_payoff_range F G game = Some (Inr (low, high)) \<and>
    key low = Min (all_payoffs key G game) \<and> key high = Max (all_payoffs key G game)"
proof -
  let ?n = "sg_n_roles G game" and ?f = "fg_n_actions G game"
  have ok: "0 < ?n" "\<forall>role < ?n. 0 < ?f role" "prod_list (map ?f [0..<?n]) \<le> max_profiles"
    using assms(3) by (simp_all add: accepted_game_def)
  have small: "min (prod_list (map ?f [0..<?n])) (2 ^ 128 - 1) \<le> max_profiles" using ok(3) by simp
  have start: "spans F key {} (fl_inf F, fl_neg_inf F)" by (simp add: spans_def)
  have "\<exists>acc'. try_fold (profile_range F G game) (fl_inf F, fl_neg_inf F) (all_profiles ?f ?n) = Inr acc' \<and>
      spans F key ({} \<union> (\<Union>p \<in> set (all_profiles ?f ?n). \<Union>role \<in> {0..<?n}. {key (nf_payoff G game role p)})) acc'"
    by (rule spans_fold [OF start], rule spans_profile [OF assms(1,2)]) (use assms(3) in \<open>simp_all add: accepted_game_def\<close>)
  then obtain low high where run: "try_fold (profile_range F G game) (fl_inf F, fl_neg_inf F) (all_profiles ?f ?n) = Inr (low, high)"
    and range: "spans F key (all_payoffs key G game) (low, high)" by (auto simp: all_payoffs_def)
  have "all_payoffs key G game \<noteq> {}" using ok(1) by (auto simp: all_payoffs_def ex_in_conv)
  then have ends: "key low = Min (all_payoffs key G game)" "key high = Max (all_payoffs key G game)"
    using range by (simp_all add: spans_def)
  have "finite_payoff_range F G game = Some (Inr (low, high))"
    using ok(1) small run unfolding finite_payoff_range_def range_counts_accepts [OF ok(2)]
    by (auto simp: profiles_of_counts odometer_loop_product Let_def not_less)
  then show ?thesis using ends by blast
qed

theorem finite_payoff_range_exact_witness:
  "\<exists>low high. finite_payoff_range int_solve prisoners () = Some (Inr (low, high)) \<and> low = 0 \<and> high = 5"
proof -
  have "all_payoffs real_of_int prisoners () = {0, 1, 3, 5}"
    by (auto simp: all_payoffs_def prisoners_sizes prisoners_profiles atLeastLessThan_upt upt_rec) (auto simp: prisoners_def Let_def)
  moreover have "range_laws int_solve real_of_int" by (simp add: range_laws_def int_solve_def min_def)
  ultimately show ?thesis
    using finite_payoff_range_exact [OF int_solve_laws _ prisoners_accepted] by auto
qed

end
