(* ===== verification/Async_Population.thy ===== *)
theory Async_Population
  imports Copying
begin

section \<open>Asynchronous population dynamics (crates/socsim-games/src/mechanism/async_population.rs)\<close>

text \<open>
  Agents are activated one after the other. Each activation recomputes the payoffs the copying rule may
  look at from the current held actions, applies the rule and writes the action at once; the step ends
  with one implicit play of the final held actions.
\<close>

datatype async_activation = AgentOrder | UniformWithReplacement

record 'dyn async_step =
  asy_dynamics :: 'dyn
  asy_activation :: async_activation
  asy_log_updates :: bool

definition async_step_new :: "'dyn \<Rightarrow> 'dyn async_step" where
  "async_step_new dynamics = \<lparr>asy_dynamics = dynamics, asy_activation = AgentOrder, asy_log_updates = False\<rparr>"

definition async_with_activation :: "async_activation \<Rightarrow> 'dyn async_step \<Rightarrow> 'dyn async_step" where
  "async_with_activation activation self = self\<lparr>asy_activation := activation\<rparr>"

definition async_with_log :: "bool \<Rightarrow> 'dyn async_step \<Rightarrow> 'dyn async_step" where
  "async_with_log log_updates self = self\<lparr>asy_log_updates := log_updates\<rparr>"

definition require_asynchronous :: "update_schedule \<Rightarrow> game_error + unit" where
  "require_asynchronous upd =
     (case upd of
        Asynchronous \<Rightarrow> Inr ()
      | Synchronous \<Rightarrow> Inl (PopulationError ''assemble_async requires Update::Asynchronous, got Synchronous''))"

definition async_imitate_prepare ::
    "('g, 'a, 'f, 'r) action_space \<Rightarrow> imitate_best \<Rightarrow> ('g, 'a, 'f, 's, 'x, 'n, 'd) dynamics_check \<Rightarrow> game_error + unit" where
  "async_imitate_prepare A self check =
     try_bind (require_asynchronous (ib_update self)) (\<lambda>_. imitate_best_check A check)"

definition async_imitate_kernel ::
    "('f, 'z) calc_ops_scheme \<Rightarrow> ('g, 'a, 'f, 'r) action_space \<Rightarrow> imitate_best \<Rightarrow> ('g, 'a, 'f, 'n, 'd, 'r) copy_kernel" where
  "async_imitate_kernel F A self = imitate_best_kernel F (sp_tie_cmp A) (ib_tie_break self)"

definition async_fermi_prepare ::
    "('g, 'a, 'f, 'r) action_space \<Rightarrow> 'f fermi_update \<Rightarrow> ('g, 'a, 'f, 's, 'x, 'n, 'd) dynamics_check \<Rightarrow> game_error + unit" where
  "async_fermi_prepare A self check =
     try_bind (require_asynchronous (fu_update self)) (\<lambda>_. fermi_check A check)"

definition async_fermi_kernel ::
    "('f, 'z) pop_ops_scheme \<Rightarrow> ('f, 'r) draw_ops \<Rightarrow> 'f fermi_update \<Rightarrow> ('g, 'a, 'f, 'n, 'd, 'r) copy_kernel" where
  "async_fermi_kernel F R self = fermi_kernel F R (fu_k self)"

definition async_proportional_prepare ::
    "('f, 'z) pop_ops_scheme \<Rightarrow> ('g, 'f, 'y) finite_game_scheme \<Rightarrow> 'f proportional_imitation \<Rightarrow>
     ('g, nat, 'f, 's, 'x, 'n, 'd) dynamics_check \<Rightarrow> (game_error + unit) option" where
  "async_proportional_prepare F G self check =
     loop_bind (Some (require_asynchronous (pi_update self))) (\<lambda>_. proportional_check F G self check)"

definition async_proportional_kernel ::
    "('f, 'z) solve_ops_scheme \<Rightarrow> ('f, 'r) draw_ops \<Rightarrow> 'f proportional_imitation \<Rightarrow> ('g, 'a, 'f, 'n, 'd, 'r) copy_kernel" where
  "async_proportional_kernel F R self = proportional_kernel F R (pi_beta self)"

subsection \<open>The mechanism\<close>

record ('g, 'a, 'f, 'x, 'n, 'd, 'r) async_mechanism =
  am_kernel :: "('g, 'a, 'f, 'n, 'd, 'r) copy_kernel"
  am_runner :: "(('g, 'a, 'x, 'n, 'd) outcome_context, 'a, 'f) kernel_runner"
  am_pattern :: implicit_pattern
  am_aggregation :: payoff_aggregation
  am_aggregate :: "('g, 'a, 'f) aggregate_collector option"
  am_activation :: async_activation
  am_log_updates :: bool
  am_encounter_ids :: local_encounter_ids
  am_local :: "'f list"
  am_local_played :: "nat list"

definition async_mechanism_new ::
    "'f \<Rightarrow> ('g, 'a, 'f, 'n, 'd, 'r) copy_kernel \<Rightarrow> (('g, 'a, 'x, 'n, 'd) outcome_context, 'a, 'f) kernel_runner \<Rightarrow>
     implicit_pattern \<Rightarrow> payoff_aggregation \<Rightarrow> ('g, 'a, 'f) aggregate_collector option \<Rightarrow> async_activation \<Rightarrow> bool \<Rightarrow>
     nat \<Rightarrow> ('n, 'd) topology \<Rightarrow> ('g, 'a, 'f, 'x, 'n, 'd, 'r) async_mechanism result" where
  "async_mechanism_new zero kern runner pat aggregation aggregate activation log_updates n_agents topo =
     try_bind (local_ids_new pat topo) (\<lambda>lids.
       Inr \<lparr>am_kernel = kern, am_runner = runner, am_pattern = pat, am_aggregation = aggregation,
            am_aggregate = aggregate, am_activation = activation, am_log_updates = log_updates,
            am_encounter_ids = lids, am_local = replicate n_agents zero, am_local_played = replicate n_agents 0\<rparr>)"

definition no_local_runner :: socsim_error where
  "no_local_runner = Mechanism ''async_population_step requires a local payoff runner''"

definition am_local_payoff ::
    "('f \<Rightarrow> bool) \<Rightarrow> ('g, 'a, 'f, 's, 'x, 'n, 'd) game_world \<Rightarrow> nat \<Rightarrow> ('g, 'a, 'f, 'x, 'n, 'd, 'r) async_mechanism \<Rightarrow>
     unit result \<times> ('g, 'a, 'f, 'x, 'n, 'd, 'r) async_mechanism" where
  "am_local_payoff finite' w index self =
     (case kr_local_payoff (am_runner self) (am_pattern self) (outcome_context_of w) (gw_ids w) (am_encounter_ids self) index
          (am_aggregation self) of
        None \<Rightarrow> (Inl no_local_runner, self)
      | Some (Inl e) \<Rightarrow> (Inl e, self)
      | Some (Inr (payoff, played)) \<Rightarrow>
          if \<not> finite' payoff
          then (Inl (Mechanism (ck_name (am_kernel self) @ '' found a non-finite payoff for agent '' @ show_nat index)), self)
          else (Inr (), self\<lparr>am_local := list_update (am_local self) index payoff,
                             am_local_played := list_update (am_local_played self) index played\<rparr>))"

definition refresh_whole ::
    "('f \<Rightarrow> bool) \<Rightarrow> ('g, 'a, 'f, 's, 'x, 'n, 'd) game_world \<Rightarrow> ('g, 'a, 'f, 'x, 'n, 'd, 'r) async_mechanism \<Rightarrow>
     unit result \<times> ('g, 'a, 'f, 'x, 'n, 'd, 'r) async_mechanism" where
  "refresh_whole finite' w self =
     (case kr_whole_population (am_runner self) (outcome_context_of w) (gw_ids w) (am_aggregation self)
          (am_local self, am_local_played self) of
        None \<Rightarrow> (Inl no_local_runner, self)
      | Some (r, payoffs, played) \<Rightarrow>
          let self' = self\<lparr>am_local := payoffs, am_local_played := played\<rparr>
          in case r of
               Inl e \<Rightarrow> (Inl e, self')
             | Inr _ \<Rightarrow> (check_payoffs finite' payoffs (ck_name (am_kernel self)), self'))"

text \<open>The agents whose payoffs are refreshed after the activated one.\<close>

definition refreshed_others :: "('n, 'd) topology \<Rightarrow> nat \<Rightarrow> nat \<Rightarrow> nat list" where
  "refreshed_others topo n_agents index =
     (case topo of
        NoTopology \<Rightarrow> filter (\<lambda>other. other \<noteq> index) [0..<n_agents]
      | _ \<Rightarrow> topology_neighbors topo index)"

definition refresh_local ::
    "('f \<Rightarrow> bool) \<Rightarrow> ('g, 'a, 'f, 's, 'x, 'n, 'd) game_world \<Rightarrow> nat \<Rightarrow> ('g, 'a, 'f, 'x, 'n, 'd, 'r) async_mechanism \<Rightarrow>
     unit result \<times> ('g, 'a, 'f, 'x, 'n, 'd, 'r) async_mechanism" where
  "refresh_local finite' w index self =
     (if am_pattern self = WholePopulationPattern then refresh_whole finite' w self
      else case am_local_payoff finite' w index self of
        (Inl e, self') \<Rightarrow> (Inl e, self')
      | (Inr _, self') \<Rightarrow>
          for_each (am_local_payoff finite' w) (refreshed_others (gw_topology w) (length (gw_held w)) index) self')"

text \<open>What the events need: the recorder, and the JSON value of an update.\<close>

record ('a, 'c, 'f, 'j) update_events =
  ue_recorder :: "('c, 'f, 'j) recorder_ops"
  ue_async_update :: "agent_id \<Rightarrow> nat \<Rightarrow> 'a \<Rightarrow> 'a \<Rightarrow> 'j"

type_synonym ('g, 'a, 'f, 's, 'x, 'n, 'd, 'r, 'c, 'ty, 'v) async_state =
  "('g, 'a, 'f, 'x, 'n, 'd, 'r) async_mechanism \<times> (('g, 'a, 'f, 's, 'x, 'n, 'd) game_world, 'r, 'c, 'ty, 'v) step_context"

definition activate ::
    "('f \<Rightarrow> bool) \<Rightarrow> ('g, 'a, 'f, 'r) action_space \<Rightarrow> ('a, 'c, 'f, 'j) update_events \<Rightarrow> nat \<Rightarrow> nat \<Rightarrow>
     ('g, 'a, 'f, 's, 'x, 'n, 'd, 'r, 'c, 'ty, 'v) async_state \<Rightarrow>
     unit result \<times> ('g, 'a, 'f, 's, 'x, 'n, 'd, 'r, 'c, 'ty, 'v) async_state" where
  "activate finite' A E index order st =
     (let (self, ctx) = st; w = ctx_world ctx
      in if index \<ge> length (gw_held w)
         then (Inl (Mechanism (''async_population_step received unknown agent index '' @ show_nat index)), self, ctx)
         else case refresh_local finite' w index self of
           (Inl e, self') \<Rightarrow> (Inl e, self', ctx)
         | (Inr _, self') \<Rightarrow>
             let (source, rng) = ck_source (am_kernel self') (gw_game w) (gw_topology w) (gw_held w) (am_local self') index (ctx_rng ctx);
                 old = gw_held w ! index;
                 new = gw_held w ! (case source of None \<Rightarrow> index | Some s \<Rightarrow> s);
                 changed = (sp_tie_cmp A old new \<noteq> OrdEqual);
                 ctx1 = ctx\<lparr>ctx_world := w\<lparr>gw_held := list_update (gw_held w) index new\<rparr>, ctx_rng := rng\<rparr>;
                 ctx2 = (if am_log_updates self' \<and> changed
                         then ctx1\<lparr>ctx_recorder := record_event (ue_recorder E) (ctx_recorder ctx1) (clk_t (ctx_clock ctx1))
                                ''game.async_update'' (ue_async_update E (gw_ids w ! index) order old new)\<rparr>
                         else ctx1)
             in (Inr (), self', ctx2))"

definition activate_all ::
    "('f \<Rightarrow> bool) \<Rightarrow> ('f, 'r) draw_ops \<Rightarrow> ('g, 'a, 'f, 'r) action_space \<Rightarrow> ('a, 'c, 'f, 'j) update_events \<Rightarrow>
     ('g, 'a, 'f, 's, 'x, 'n, 'd, 'r, 'c, 'ty, 'v) async_state \<Rightarrow>
     unit result \<times> ('g, 'a, 'f, 's, 'x, 'n, 'd, 'r, 'c, 'ty, 'v) async_state" where
  "activate_all finite' R A E st =
     (let (self, ctx) = st; n_agents = length (gw_held (ctx_world ctx))
      in case am_activation self of
           AgentOrder \<Rightarrow>
             for_each (\<lambda>(order, agent). activate finite' A E (agent_no agent) order) (List.enumerate 0 (ctx_agent_order ctx)) st
         | UniformWithReplacement \<Rightarrow>
             for_each (\<lambda>order (self, ctx).
                 let (index, rng) = dr_range R n_agents (ctx_rng ctx)
                 in activate finite' A E index order (self, ctx\<lparr>ctx_rng := rng\<rparr>)) [0..<n_agents] st)"

text \<open>\<open>payoff.fill(0.0); n_played.fill(0); played_counts = None\<close>.\<close>

definition clear_payoffs :: "'f \<Rightarrow> ('g, 'a, 'f, 's, 'x, 'n, 'd) game_world \<Rightarrow> ('g, 'a, 'f, 's, 'x, 'n, 'd) game_world" where
  "clear_payoffs zero w =
     w\<lparr>gw_payoff := map (\<lambda>_. zero) (gw_payoff w), gw_n_played := map (\<lambda>_. 0) (gw_n_played w), gw_played_counts := None\<rparr>"

definition update_and_record ::
    "('g \<Rightarrow> nat) \<Rightarrow> 'f float_ops \<Rightarrow> ('f, 'r) draw_ops \<Rightarrow> ('g, 'a, 'f, 'r) action_space \<Rightarrow> ('a, 'c, 'f, 'j) update_events \<Rightarrow>
     ('g, 'a, 'f, 's, 'x, 'n, 'd, 'r, 'c, 'ty, 'v) async_state \<Rightarrow>
     unit result \<times> ('g, 'a, 'f, 's, 'x, 'n, 'd, 'r, 'c, 'ty, 'v) async_state" where
  "update_and_record n_roles F R A E st =
     (case activate_all (fl_finite F) R A E st of
        (Inl e, st') \<Rightarrow> (Inl e, st')
      | (Inr _, self, ctx) \<Rightarrow>
          let (r, w) = record_implicit_step n_roles F (am_runner self) (am_pattern self) (am_aggregation self) (am_aggregate self)
                         (clear_payoffs (fl_zero F) (ctx_world ctx))
          in (r, self, ctx\<lparr>ctx_world := w\<rparr>))"

text \<open>\<open>plays.clear()\<close> empties the arena and keeps its number of roles.\<close>

definition async_apply ::
    "('g \<Rightarrow> nat) \<Rightarrow> 'f float_ops \<Rightarrow> ('f, 'r) draw_ops \<Rightarrow> ('g, 'a, 'f, 'r) action_space \<Rightarrow> ('a, 'c, 'f, 'j) update_events \<Rightarrow> phase \<Rightarrow>
     ('g, 'a, 'f, 's, 'x, 'n, 'd, 'r, 'c, 'ty, 'v) async_state \<Rightarrow>
     unit result \<times> ('g, 'a, 'f, 's, 'x, 'n, 'd, 'r, 'c, 'ty, 'v) async_state" where
  "async_apply n_roles F R A E ph st =
     (case ph of
        PreStep \<Rightarrow> (Inr (), fst st, (snd st)\<lparr>ctx_world :=
          clear_payoffs (fl_zero F) ((ctx_world (snd st))\<lparr>gw_plays := arena_clear (gw_plays (ctx_world (snd st)))\<rparr>)\<rparr>)
      | Reward \<Rightarrow> update_and_record n_roles F R A E st
      | _ \<Rightarrow> (Inr (), st))"

definition async_population ::
    "('g \<Rightarrow> nat) \<Rightarrow> 'f float_ops \<Rightarrow> ('f, 'r) draw_ops \<Rightarrow> ('g, 'a, 'f, 'r) action_space \<Rightarrow> ('a, 'c, 'f, 'j) update_events \<Rightarrow>
     ('g, 'a, 'f, 'x, 'n, 'd, 'r) async_mechanism \<Rightarrow>
     (('g, 'a, 'f, 'x, 'n, 'd, 'r) async_mechanism, ('g, 'a, 'f, 's, 'x, 'n, 'd) game_world, 'r, 'c, 'ty, 'v) mechanism" where
  "async_population n_roles F R A E self =
     \<lparr>mech_name = ''async_population_step'', mech_phases = [PreStep, Reward], mech_self = self,
      mech_apply = (\<lambda>self ph ctx. async_apply n_roles F R A E ph (self, ctx))\<rparr>"

end
