(* ===== verification/Async_Facts.thy ===== *)
theory Async_Facts
  imports Async_Population Copying_Facts
begin

section \<open>Local payoffs are the payoffs of the full play\<close>

text \<open>
  An activation recomputes a few payoffs by the runner's local traversal. They are the payoffs a full
  play of the current held actions would pay, so the asynchronous step with imitation is the
  one-agent-at-a-time rule over freshly played payoffs.
\<close>

subsection \<open>The full play of a world\<close>

definition full_play ::
    "('a \<Rightarrow> nat option) \<Rightarrow> 'f float_ops \<Rightarrow> (('g, 'a, 'x, 'n, 'd) outcome_context, 'a, 'f) outcome_rule \<Rightarrow> implicit_pattern \<Rightarrow>
     ('g, 'a, 'f, 's, 'x, 'n, 'd) game_world \<Rightarrow> unit result \<times> 'f payoff_accum" where
  "full_play as_usize F outcome pat w =
     play_implicit_pairwise as_usize (fl_add F) (fl_zero F) pat (outcome_context_of w) (gw_ids w) outcome
       (fresh_accum (fl_zero F) (length (gw_ids w)) None)"

definition full_payoffs ::
    "('a \<Rightarrow> nat option) \<Rightarrow> 'f float_ops \<Rightarrow> (('g, 'a, 'x, 'n, 'd) outcome_context, 'a, 'f) outcome_rule \<Rightarrow> implicit_pattern \<Rightarrow>
     payoff_aggregation \<Rightarrow> ('g, 'a, 'f, 's, 'x, 'n, 'd) game_world \<Rightarrow> 'f list" where
  "full_payoffs as_usize F outcome pat aggregation w =
     (let acc = snd (full_play as_usize F outcome pat w)
      in aggregate_mean (fl_div F) (fl_of_nat F) aggregation (acc_payoff acc) (acc_n_played acc))"

text \<open>The full play succeeds and pays finite amounts.\<close>

definition playable ::
    "('a \<Rightarrow> nat option) \<Rightarrow> 'f float_ops \<Rightarrow> (('g, 'a, 'x, 'n, 'd) outcome_context, 'a, 'f) outcome_rule \<Rightarrow> implicit_pattern \<Rightarrow>
     payoff_aggregation \<Rightarrow> ('g, 'a, 'f, 's, 'x, 'n, 'd) game_world \<Rightarrow> bool" where
  "playable as_usize F outcome pat aggregation w \<longleftrightarrow>
     fst (full_play as_usize F outcome pat w) = Inr () \<and>
     list_all (fl_finite F) (full_payoffs as_usize F outcome pat aggregation w)"

text \<open>The parts of the mechanism that no activation changes.\<close>

definition same_rules :: "('g, 'a, 'f, 'x, 'n, 'd, 'r) async_mechanism \<Rightarrow> ('g, 'a, 'f, 'x, 'n, 'd, 'r) async_mechanism \<Rightarrow> bool" where
  "same_rules self self' \<longleftrightarrow>
     self' = self\<lparr>am_local := am_local self', am_local_played := am_local_played self'\<rparr> \<and>
     length (am_local self') = length (am_local self) \<and> length (am_local_played self') = length (am_local_played self)"

lemma same_rules_refl: "same_rules self self"
  by (simp add: same_rules_def)

lemma same_rulesD:
  assumes "same_rules self self'"
  shows "am_kernel self' = am_kernel self" "am_runner self' = am_runner self" "am_pattern self' = am_pattern self"
    "am_aggregation self' = am_aggregation self" "am_aggregate self' = am_aggregate self" "am_activation self' = am_activation self"
    "am_log_updates self' = am_log_updates self" "am_encounter_ids self' = am_encounter_ids self"
    "length (am_local self') = length (am_local self)" "length (am_local_played self') = length (am_local_played self)"
proof -
  have "self' = self\<lparr>am_local := am_local self', am_local_played := am_local_played self'\<rparr>" using assms by (simp add: same_rules_def)
  from arg_cong [OF this, of am_kernel] arg_cong [OF this, of am_runner] arg_cong [OF this, of am_pattern]
    arg_cong [OF this, of am_aggregation] arg_cong [OF this, of am_aggregate] arg_cong [OF this, of am_activation]
    arg_cong [OF this, of am_log_updates] arg_cong [OF this, of am_encounter_ids]
  show "am_kernel self' = am_kernel self" "am_runner self' = am_runner self" "am_pattern self' = am_pattern self"
    "am_aggregation self' = am_aggregation self" "am_aggregate self' = am_aggregate self" "am_activation self' = am_activation self"
    "am_log_updates self' = am_log_updates self" "am_encounter_ids self' = am_encounter_ids self" by simp_all
qed (use assms in \<open>simp_all add: same_rules_def\<close>)

lemma same_rules_trans: "same_rules a b \<Longrightarrow> same_rules b c \<Longrightarrow> same_rules a c"
  unfolding same_rules_def by (metis (no_types, lifting) async_mechanism.surjective async_mechanism.update_convs(9,10))

definition local_runs ::
    "'n social_ops \<Rightarrow> 'd social_ops \<Rightarrow> ('a \<Rightarrow> nat option) \<Rightarrow> 'f float_ops \<Rightarrow>
     (('g, 'a, 'x, 'n, 'd) outcome_context, 'a, 'f) outcome_rule \<Rightarrow>
     ('g, 'a, 'f, 'x, 'n, 'd, 'r) async_mechanism \<Rightarrow> ('g, 'a, 'f, 's, 'x, 'n, 'd) game_world \<Rightarrow> bool" where
  "local_runs U D as_usize F outcome self w \<longleftrightarrow>
     am_runner self = pairwise_runner as_usize F outcome \<and> keeps_slice outcome (outcome_context_of w) \<and>
     accepted U D (gw_topology w) (gw_ids w) \<and> length (gw_held w) = length (gw_ids w) \<and>
     local_ids_new (am_pattern self) (gw_topology w) = Inr (am_encounter_ids self) \<and>
     length (am_local self) = length (gw_ids w) \<and> length (am_local_played self) = length (gw_ids w) \<and>
     playable as_usize F outcome (am_pattern self) (am_aggregation self) w"

lemma local_runs_same: "local_runs U D as_usize F outcome self w \<Longrightarrow> same_rules self self' \<Longrightarrow> local_runs U D as_usize F outcome self' w"
  by (simp add: local_runs_def same_rulesD)

lemma am_local_payoff_full:
  assumes "local_runs U D as_usize F outcome self w" "index < length (gw_ids w)"
  defines "full \<equiv> full_payoffs as_usize F outcome (am_pattern self) (am_aggregation self) w"
  shows "\<exists>self'. am_local_payoff (fl_finite F) w index self = (Inr (), self') \<and> same_rules self self' \<and>
    am_local self' = list_update (am_local self) index (full ! index)"
proof -
  let ?pat = "am_pattern self"
  obtain acc where play: "full_play as_usize F outcome ?pat w = (Inr (), acc)"
    and fin: "list_all (fl_finite F) full" and full: "full = aggregate_mean (fl_div F) (fl_of_nat F) (am_aggregation self) (acc_payoff acc) (acc_n_played acc)"
    using assms(1) by (cases "full_play as_usize F outcome ?pat w") (auto simp: local_runs_def playable_def full_def full_payoffs_def Let_def)
  have keeps: "keeps_slice outcome (outcome_context_of w)" and acc: "accepted U D (oc_topology (outcome_context_of w)) (gw_ids w)"
    using assms(1) by (simp_all add: local_runs_def outcome_context_of_def)
  note run = pairwise_local_full [OF keeps acc assms(2) play [unfolded full_play_def]]
  have "kr_local_payoff (am_runner self) ?pat (outcome_context_of w) (gw_ids w) (am_encounter_ids self) index (am_aggregation self) =
      Some (Inr (full ! index, acc_n_played acc ! index))"
    using run(1) [of "fl_div F" "fl_of_nat F" "am_aggregation self"] assms(1)
    by (auto simp: local_runs_def pairwise_runner_def Let_def full outcome_context_of_def)
  moreover have "length full = length (gw_ids w)"
    using run(2) by (simp add: full accum_sized_def aggregate_mean_def)
  then have "fl_finite F (full ! index)" using fin assms(2) by (simp add: list_all_length)
  ultimately show ?thesis by (simp add: am_local_payoff_def same_rules_def)
qed

lemma am_local_payoffs_full:
  assumes "local_runs U D as_usize F outcome self w" "\<forall>j \<in> set js. j < length (gw_ids w)"
    and "am_pattern self = pat" "am_aggregation self = agg"
    and "\<forall>j \<in> A. am_local self ! j = full_payoffs as_usize F outcome pat agg w ! j"
  shows "\<exists>self'. for_each (am_local_payoff (fl_finite F) w) js self = (Inr (), self') \<and> same_rules self self' \<and>
    (\<forall>j \<in> A \<union> set js. am_local self' ! j = full_payoffs as_usize F outcome pat agg w ! j)"
  using assms
proof (induction js arbitrary: self A)
  case (Cons j js)
  let ?full = "full_payoffs as_usize F outcome pat agg w"
  obtain self1 where one: "am_local_payoff (fl_finite F) w j self = (Inr (), self1)" "same_rules self self1"
      "am_local self1 = list_update (am_local self) j (?full ! j)"
    using am_local_payoff_full [OF Cons.prems(1), of j] Cons.prems(2-4) by auto
  have pat: "am_pattern self1 = pat" "am_aggregation self1 = agg"
    using same_rulesD [OF one(2)] Cons.prems(3,4) by simp_all
  have "j < length (am_local self)" using Cons.prems(1,2) by (simp add: local_runs_def)
  then have A: "\<forall>i \<in> insert j A. am_local self1 ! i = ?full ! i"
    using Cons.prems(5) by (auto simp: one(3) nth_list_update)
  have "\<forall>i \<in> set js. i < length (gw_ids w)" using Cons.prems(2) by simp
  from Cons.IH [OF local_runs_same [OF Cons.prems(1) one(2)] this pat A] show ?case
    using one(1) same_rules_trans [OF one(2)] by auto
qed (auto intro: same_rules_refl)

lemma refresh_whole_full:
  assumes "local_runs U D as_usize F outcome self w" "am_pattern self = WholePopulationPattern"
  shows "\<exists>self'. refresh_whole (fl_finite F) w self = (Inr (), self') \<and> same_rules self self' \<and>
    am_local self' = full_payoffs as_usize F outcome (am_pattern self) (am_aggregation self) w"
proof -
  let ?w = "full_play as_usize F outcome WholePopulationPattern w"
  have zeros: "map (\<lambda>_. fl_zero F) (am_local self) = replicate (length (gw_ids w)) (fl_zero F)"
      "map (\<lambda>_. 0 :: nat) (am_local_played self) = replicate (length (gw_ids w)) 0"
    using assms(1) by (simp_all add: local_runs_def map_replicate_const)
  obtain acc where play: "?w = (Inr (), acc)"
    and fin: "list_all (fl_finite F) (full_payoffs as_usize F outcome WholePopulationPattern (am_aggregation self) w)"
    using assms by (cases ?w) (auto simp: local_runs_def playable_def)
  have sizes: "accum_sizes acc = (length (gw_ids w), length (gw_ids w))"
    using play_implicit_keeps(1) [of as_usize "fl_add F" "fl_zero F" WholePopulationPattern "outcome_context_of w" "gw_ids w" outcome
        "fresh_accum (fl_zero F) (length (gw_ids w)) None"] play
    by (simp add: full_play_def accum_sizes_def fresh_accum_def)
  have "kr_whole_population (am_runner self) (outcome_context_of w) (gw_ids w) (am_aggregation self) (am_local self, am_local_played self) =
      Some (Inr (), full_payoffs as_usize F outcome WholePopulationPattern (am_aggregation self) w, acc_n_played acc)"
    using assms(1) play
    by (simp add: local_runs_def pairwise_runner_def Let_def run_whole_population_def zeros full_payoffs_def full_play_def fresh_accum_def)
  moreover have "length (full_payoffs as_usize F outcome WholePopulationPattern (am_aggregation self) w) = length (gw_ids w)"
    using sizes play by (simp add: full_payoffs_def aggregate_mean_def accum_sizes_def)
  ultimately show ?thesis
    using assms sizes fin check_payoffs_Inr [of "fl_finite F" "full_payoffs as_usize F outcome WholePopulationPattern (am_aggregation self) w"]
    by (simp add: refresh_whole_def same_rules_def local_runs_def accum_sizes_def list_all_iff)
qed

lemma refresh_local_full:
  assumes "local_runs U D as_usize F outcome self w" "closed_topology (gw_topology w) (length (gw_ids w))" "index < length (gw_ids w)"
  defines "full \<equiv> full_payoffs as_usize F outcome (am_pattern self) (am_aggregation self) w"
  shows "\<exists>self'. refresh_local (fl_finite F) w index self = (Inr (), self') \<and> same_rules self self' \<and>
    (\<forall>j \<in> neighborhood_of (gw_topology w) index. am_local self' ! j = full ! j)"
proof (cases "am_pattern self = WholePopulationPattern")
  case True
  then show ?thesis using refresh_whole_full [OF assms(1) True] by (auto simp: refresh_local_def full_def)
next
  case False
  let ?others = "refreshed_others (gw_topology w) (length (gw_held w)) index"
  have "\<forall>j \<in> set (index # ?others). j < length (gw_ids w)"
    using assms(1-3) by (auto simp: refreshed_others_def closed_topology_def local_runs_def split: topology.splits)
  then obtain self' where run: "for_each (am_local_payoff (fl_finite F) w) (index # ?others) self = (Inr (), self')" "same_rules self self'"
      "\<forall>j \<in> {} \<union> set (index # ?others). am_local self' ! j = full ! j"
    using am_local_payoffs_full [OF assms(1) _ refl refl, of "index # ?others" "{}"] unfolding full_def by blast
  have "neighborhood_of (gw_topology w) index \<subseteq> set (index # ?others)"
    by (auto simp: neighborhood_of_def refreshed_others_def topology_neighbors_def split: topology.splits)
  then show ?thesis using run False by (auto simp: refresh_local_def split: prod.splits sum.splits)
qed

subsection \<open>The step, one agent at a time\<close>

lemma imitated_cong:
  assumes "\<forall>j \<in> neighborhood_of topo index. p ! j = q ! j"
  shows "imitate_best_source F tie_cmp tie topo held p index = imitate_best_source F tie_cmp tie topo held q index"
proof -
  let ?ns = "topology_neighbors topo index"
  have own: "p ! index = q ! index" and nbs: "j \<in> set ?ns \<Longrightarrow> p ! j = q ! j" for j
    using assms by (simp_all add: neighborhood_of_def)
  have best: "best_payoff F topo p index = best_payoff F topo q index"
    unfolding best_payoff_def by (rule fold_cong) (simp_all add: own nbs)
  have "fold (choose_lowest F tie_cmp held p b) ?ns c = fold (choose_lowest F tie_cmp held q b) ?ns c" for b c
    by (rule fold_cong) (simp_all add: choose_lowest_def nbs fun_eq_iff)
  then show ?thesis by (simp add: imitate_best_source_def best own Let_def)
qed

text \<open>The neighbours of an accepted grid are agents; of a network they are by its own contract.\<close>

lemma accepted_grid_closed: "accepted U D (GridTopo gt) ids \<Longrightarrow> closed_topology (GridTopo gt) (length ids)"
  by (auto simp: closed_topology_def topology_neighbors_def dest: accepted_grid(2))

text \<open>The rule an activation should follow: imitate over the payoffs the current actions earn.\<close>

definition imitate_one ::
    "('f, 'z) calc_ops_scheme \<Rightarrow> ('a \<Rightarrow> 'a \<Rightarrow> ordering) \<Rightarrow> imitation_tie \<Rightarrow>
     (('g, 'a, 'f, 's, 'x, 'n, 'd) game_world \<Rightarrow> 'f list) \<Rightarrow> nat \<Rightarrow>
     ('g, 'a, 'f, 's, 'x, 'n, 'd) game_world \<Rightarrow> ('g, 'a, 'f, 's, 'x, 'n, 'd) game_world" where
  "imitate_one F tie_cmp tie payoffs index w =
     w\<lparr>gw_held := list_update (gw_held w) index
        (gw_held w ! imitated F tie_cmp tie (gw_topology w) (gw_held w) (payoffs w) index)\<rparr>"

lemma imitated_neighbor:
  "imitated F tie_cmp tie topo held p index \<in> neighborhood_of topo index"
proof -
  have pick: "choose_lowest F tie_cmp held p b n c = Some s \<Longrightarrow> s = n \<or> c = Some s" for n b c s
    by (auto simp: choose_lowest_def split: option.splits if_splits)
  have "fold (choose_lowest F tie_cmp held p b) ns c = Some s \<Longrightarrow> s \<in> set ns \<or> c = Some s" for b ns c s
  proof (induction ns arbitrary: c)
    case (Cons n ns)
    then have "s \<in> set ns \<or> choose_lowest F tie_cmp held p b n c = Some s" by simp
    then show ?case using pick by auto
  qed simp
  then show ?thesis
    by (fastforce simp: imitated_def imitate_best_source_def neighborhood_of_def Let_def split: option.splits if_splits)
qed

lemma activate_imitates:
  assumes runs: "local_runs U D as_usize FO outcome self w" and closed: "closed_topology (gw_topology w) (length (gw_ids w))"
    and index: "index < length (gw_ids w)" and kern: "am_kernel self = imitate_best_kernel F tie_cmp tie" and w: "ctx_world ctx = w"
  shows "\<exists>self' ctx'. activate (fl_finite FO) A E index order (self, ctx) = (Inr (), self', ctx') \<and> same_rules self self' \<and>
    ctx_world ctx' = imitate_one F tie_cmp tie (full_payoffs as_usize FO outcome (am_pattern self) (am_aggregation self)) index w \<and>
    ctx_rng ctx' = ctx_rng ctx"
proof -
  let ?full = "full_payoffs as_usize FO outcome (am_pattern self) (am_aggregation self) w"
  obtain self' where fresh: "refresh_local (fl_finite FO) w index self = (Inr (), self')" "same_rules self self'"
      "\<forall>j \<in> neighborhood_of (gw_topology w) index. am_local self' ! j = ?full ! j"
    using refresh_local_full [OF runs closed index] by blast
  have "ck_source (am_kernel self') (gw_game w) (gw_topology w) (gw_held w) (am_local self') index (ctx_rng ctx) =
      (imitate_best_source F tie_cmp tie (gw_topology w) (gw_held w) ?full index, ctx_rng ctx)"
    by (simp add: same_rulesD(1) [OF fresh(2)] kern imitate_best_kernel_def imitated_cong [OF fresh(3)])
  moreover have "\<not> length (gw_held w) \<le> index" using runs index by (simp add: local_runs_def)
  ultimately show ?thesis
    using fresh(1,2) w by (auto simp: activate_def Let_def imitate_one_def imitated_def split: option.split)
qed

text \<open>
  C10: an asynchronous step with imitation activates the agents in the given order, and each one imitates over
  the payoffs that a full play of the actions held at that moment pays, although the mechanism only
  replays the encounters of the agent and its neighbours.
\<close>

theorem async_imitation_is_sequential:
  assumes "am_runner self = pairwise_runner as_usize FO outcome" "am_kernel self = imitate_best_kernel F tie_cmp tie"
    and "am_activation self = AgentOrder" "\<And>ctx. keeps_slice outcome ctx"
    and "accepted U D (gw_topology w) (gw_ids w)" "closed_topology (gw_topology w) (length (gw_ids w))"
    and "length (gw_held w) = length (gw_ids w)" "length (am_local self) = length (gw_ids w)"
    and "length (am_local_played self) = length (gw_ids w)"
    and "local_ids_new (am_pattern self) (gw_topology w) = Inr (am_encounter_ids self)"
    and "\<And>held. length held = length (gw_held w) \<Longrightarrow> set held \<subseteq> set (gw_held w) \<Longrightarrow>
      playable as_usize FO outcome (am_pattern self) (am_aggregation self) (w\<lparr>gw_held := held\<rparr>)"
    and "ctx_world ctx = w" "set (ctx_agent_order ctx) \<subseteq> set (gw_ids w)"
  shows "\<exists>self' ctx'. activate_all (fl_finite FO) R A E (self, ctx) = (Inr (), self', ctx') \<and>
    ctx_world ctx' = fold (\<lambda>agent. imitate_one F tie_cmp tie
        (full_payoffs as_usize FO outcome (am_pattern self) (am_aggregation self)) (agent_no agent))
      (ctx_agent_order ctx) w"
proof -
  let ?step = "\<lambda>agent. imitate_one F tie_cmp tie (full_payoffs as_usize FO outcome (am_pattern self) (am_aggregation self)) (agent_no agent)"
  have run: "\<exists>self' ctx'. for_each (\<lambda>(order, agent). activate (fl_finite FO) A E (agent_no agent) order) (List.enumerate k agents) (self1, ctx1) =
        (Inr (), self', ctx') \<and> ctx_world ctx' = fold ?step agents (ctx_world ctx1)"
    if "same_rules self self1" "ctx_world ctx1 = w\<lparr>gw_held := held\<rparr>" "length held = length (gw_held w)" "set held \<subseteq> set (gw_held w)"
      "set agents \<subseteq> set (gw_ids w)" for k agents self1 ctx1 held
    using that
  proof (induction agents arbitrary: k self1 ctx1 held)
    case (Cons agent agents)
    let ?w1 = "w\<lparr>gw_held := held\<rparr>"
    note rules = same_rulesD [OF Cons.prems(1)]
    have runs: "local_runs U D as_usize FO outcome self1 ?w1"
      using assms(1,4,5,7-10) assms(11) [OF Cons.prems(3,4)] Cons.prems(3) by (simp add: local_runs_def rules)
    have index: "agent_no agent < length (gw_ids w)" using Cons.prems(5) accepted_ids(4) [OF assms(5)] by auto
    have kern: "am_kernel self1 = imitate_best_kernel F tie_cmp tie" by (simp add: rules assms(2))
    obtain self2 ctx2 where act: "activate (fl_finite FO) A E (agent_no agent) k (self1, ctx1) = (Inr (), self2, ctx2)"
        "same_rules self1 self2" "ctx_world ctx2 = ?step agent ?w1"
      using activate_imitates [OF runs _ _ kern Cons.prems(2), where index = "agent_no agent" and A = A and E = E and order = k]
        assms(6) index unfolding rules by auto
    define held2 where "held2 = gw_held (?step agent ?w1)"
    have w2: "ctx_world ctx2 = w\<lparr>gw_held := held2\<rparr>" by (simp add: act(3) held2_def imitate_one_def)
    have "imitated F tie_cmp tie (gw_topology w) held (full_payoffs as_usize FO outcome (am_pattern self) (am_aggregation self) ?w1)
        (agent_no agent) \<in> neighborhood_of (gw_topology w) (agent_no agent)" by (rule imitated_neighbor)
    then have "imitated F tie_cmp tie (gw_topology w) held (full_payoffs as_usize FO outcome (am_pattern self) (am_aggregation self) ?w1)
        (agent_no agent) < length held"
      using assms(6,7) index Cons.prems(3) by (auto simp: neighborhood_of_def closed_topology_def)
    then have len: "length held2 = length (gw_held w)" and sub: "set held2 \<subseteq> set (gw_held w)"
      using Cons.prems(3,4) nth_mem by (fastforce simp: held2_def imitate_one_def dest: set_update_subset_insert [THEN subsetD])+
    from Cons.IH [OF same_rules_trans [OF Cons.prems(1) act(2)] w2 len sub, of "Suc k"] Cons.prems(5) act(1,3) show ?case
      by (auto simp: Cons.prems(2))
  qed simp
  have "w = w\<lparr>gw_held := gw_held w\<rparr>" by simp
  from run [OF same_rules_refl, of ctx "gw_held w" "ctx_agent_order ctx" 0] assms(3,12,13) show ?thesis
    by (auto simp: activate_all_def Let_def)
qed

definition own_action_rule :: "((unit, nat, unit, unit, unit) outcome_context, nat, int) outcome_rule" where
  "own_action_rule = \<lparr>or_name = ''own_action'',
     or_outcome = (\<lambda>_ _ actions out. (Inr (), map (\<lambda>i. int (actions ! i)) [0..<length out]))\<rparr>"

definition int_floats :: "int float_ops" where
  "int_floats = \<lparr>fl_zero = 0, fl_nan = 0, fl_add = (+), fl_div = (div), fl_of_nat = int, fl_finite = (\<lambda>_. True)\<rparr>"

definition line_world :: "nat list \<Rightarrow> (unit, nat, int, unit, unit, unit, unit) game_world" where
  "line_world held = (copied_world held [0, 0, 0])\<lparr>gw_topology := line_topology\<rparr>"

lemma line_world_fields:
  "gw_ids (line_world [a, b, c]) = [AgentId 0, AgentId 1, AgentId 2]" "gw_topology (line_world held) = line_topology"
  "gw_held (line_world held) = held"
  by (simp_all add: line_world_def copied_world_def upt_rec numeral_2_eq_2)

lemma line_payoffs:
  assumes "gw_ids w = [AgentId 0, AgentId 1, AgentId 2]" "gw_topology w = line_topology" "gw_held w = [a, b, c]"
  shows "full_play Some int_floats own_action_rule NetworkEdgesPattern w =
      (Inr (), \<lparr>acc_payoff = [int a, int b + int b, int c], acc_n_played = [1, 2, 1], acc_played_counts = None\<rparr>)"
  by (simp add: full_play_def play_implicit_pairwise_def for_each_implicit_def outcome_context_of_def assms line_encounters emit_def held_actions_def
      get_opt_def pairwise_pays_def own_action_rule_def accum_apply_def int_floats_def upt_rec
      count_actions_def credited_roles_def credit_seat_def fresh_accum_def u32_max_eq Let_def numeral_3_eq_3 numeral_2_eq_2)

lemma line_neighbors:
  "topology_neighbors line_topology 0 = [1]" "topology_neighbors line_topology (Suc 0) = [0, 2]"
  "topology_neighbors line_topology (Suc (Suc 0)) = [1]"
proof -
  have nbs: "net_neighbors (from_kind line_network no_network (Undirected ())) (AgentId i) =
      (if i < 3 then remdups_adj (sort (if i = 1 then [AgentId 2, AgentId 0] else [AgentId 1])) else [])" for i
    by (simp add: from_kind_tables remdups_adj_sort kind_node_count_def kind_neighbors_def line_network_def)
  show "topology_neighbors line_topology 0 = [1]" "topology_neighbors line_topology (Suc 0) = [0, 2]"
    "topology_neighbors line_topology (Suc (Suc 0)) = [1]"
    by (simp_all add: topology_neighbors_def line_topology_def topology_network_def nbs less_eq_agent_id_def less_agent_id_def)
qed

definition line_mechanism :: "(unit, nat, int, unit, unit, unit, nat) async_mechanism" where
  "line_mechanism =
     \<lparr>am_kernel = imitate_best_kernel int_solve usize_cmp KeepOwn, am_runner = pairwise_runner Some int_floats own_action_rule,
      am_pattern = NetworkEdgesPattern, am_aggregation = AggSum, am_aggregate = None, am_activation = AgentOrder,
      am_log_updates = False, am_encounter_ids = None, am_local = [0, 0, 0], am_local_played = [0, 0, 0]\<rparr>"

definition line_step :: "((unit, nat, int, unit, unit, unit, unit) game_world, nat, unit, unit, unit) step_context" where
  "line_step = \<lparr>ctx_world = line_world [0, 1, 5], ctx_clock = clock_new 10, ctx_rng = 0, ctx_recorder = (),
     ctx_agent_order = [AgentId 1, AgentId 0], ctx_scratch = bb_new, ctx_stop = False\<rparr>"

text \<open>The middle agent copies the last one; then the first one copies the middle agent's new action.\<close>

theorem async_imitation_is_sequential_witness:
  "\<exists>self' ctx'. activate_all (fl_finite int_floats) last_draws (finite_space int_pop last_draws prisoners)
      \<lparr>ue_recorder = null_recorder, ue_async_update = \<lambda>_ _ _ _. ()\<rparr> (line_mechanism, line_step) = (Inr (), self', ctx') \<and>
    gw_held (ctx_world ctx') = [5, 5, 5]"
proof -
  let ?pay = "full_payoffs Some int_floats own_action_rule NetworkEdgesPattern AggSum ::
      (unit, nat, int, unit, unit, unit, unit) game_world \<Rightarrow> int list"
  let ?one = "imitate_one int_solve usize_cmp KeepOwn ?pay"
  have pay: "?pay w = [int a, int b + int b, int c]"
    if "gw_ids w = [AgentId 0, AgentId 1, AgentId 2]" "gw_topology w = line_topology" "gw_held w = [a, b, c]" for w a b c
    by (simp add: full_payoffs_def line_payoffs [OF that] aggregate_mean_def)
  have fields: "gw_ids ((line_world [0, 1, 5])\<lparr>gw_held := held\<rparr>) = [AgentId 0, AgentId 1, AgentId 2]"
    "gw_topology ((line_world [0, 1, 5])\<lparr>gw_held := held\<rparr>) = line_topology" for held
    by (simp_all add: line_world_fields)
  have "playable Some int_floats own_action_rule NetworkEdgesPattern AggSum ((line_world [0, 1, 5])\<lparr>gw_held := held\<rparr>)"
    if "length held = 3" for held
  proof -
    obtain a b c where "held = [a, b, c]" using \<open>length held = 3\<close> by (auto simp: numeral_3_eq_3 length_Suc_conv)
    then show ?thesis using line_payoffs [OF fields, of held a b c] pay [OF fields, of held a b c]
      by (simp add: playable_def int_floats_def)
  qed
  moreover have "keeps_slice own_action_rule ctx" for ctx by (simp add: keeps_slice_def own_action_rule_def)
  moreover have "closed_topology line_topology 3"
    by (auto simp: closed_topology_def All_less_Suc2 line_neighbors numeral_3_eq_3)
  ultimately have run: "\<exists>self' ctx'. activate_all (fl_finite int_floats) last_draws (finite_space int_pop last_draws prisoners)
        \<lparr>ue_recorder = null_recorder, ue_async_update = \<lambda>_ _ _ _. ()\<rparr> (line_mechanism, line_step) = (Inr (), self', ctx') \<and>
      ctx_world ctx' = fold (\<lambda>agent. imitate_one int_solve usize_cmp KeepOwn ?pay (agent_no agent)) [AgentId 1, AgentId 0] (line_world [0, 1, 5])"
    using async_imitation_is_sequential [of line_mechanism Some int_floats own_action_rule int_solve usize_cmp KeepOwn
        line_network no_network "line_world [0, 1, 5]" line_step] line_accepted
    by (simp add: line_mechanism_def line_step_def line_world_fields local_ids_new_def numeral_3_eq_3)
  have "gw_ids (?one i w) = gw_ids w" "gw_topology (?one i w) = gw_topology w" for i w
    by (simp_all add: imitate_one_def)
  moreover have "gw_held (?one 1 w) = [0, 5, 5]"
    if "gw_ids w = [AgentId 0, AgentId 1, AgentId 2]" "gw_topology w = line_topology" "gw_held w = [0, 1, 5]" for w
    by (simp add: imitate_one_def imitated_def imitate_best_source_def best_payoff_def choose_lowest_def that pay [OF that] line_neighbors
        int_solve_def)
  moreover have "gw_held (?one 0 w) = [5, 5, 5]"
    if "gw_ids w = [AgentId 0, AgentId 1, AgentId 2]" "gw_topology w = line_topology" "gw_held w = [0, 5, 5]" for w
    by (simp add: imitate_one_def imitated_def imitate_best_source_def best_payoff_def choose_lowest_def that pay [OF that] line_neighbors
        int_solve_def)
  ultimately have "gw_held (?one 0 (?one 1 (line_world [0, 1, 5]))) = [5, 5, 5]" by (simp add: line_world_fields del: One_nat_def)
  then show ?thesis using run by auto
qed

end
