(* ===== verification/Scenario.thy ===== *)
theory Scenario
  imports Core
begin

section \<open>Scenarios and the mechanism registry (crates/socsim-config)\<close>

text \<open>
  A scenario is the parsed TOML file: the simulation section, the free-form world table, the ordered
  mechanism entries and the output section. The parser and the map type of a TOML table belong to the
  crate \<open>toml\<close>: a table is a finite map from names to values. A \<open>HashMap\<close> of constructors is a map.
\<close>

subsection \<open>TOML values\<close>

datatype 'f toml =
    TomlString string
  | TomlInteger int
  | TomlFloat 'f
  | TomlBoolean bool
  | TomlDatetime string
  | TomlArray "'f toml list"
  | TomlTable "string \<rightharpoonup> 'f toml"

type_synonym 'f toml_table = "string \<rightharpoonup> 'f toml"

text \<open>\<open>type_str\<close> of the crate.\<close>

definition type_str :: "'f toml \<Rightarrow> string" where
  "type_str v =
     (case v of
        TomlString _ \<Rightarrow> ''string'' | TomlInteger _ \<Rightarrow> ''integer'' | TomlFloat _ \<Rightarrow> ''float''
      | TomlBoolean _ \<Rightarrow> ''boolean'' | TomlDatetime _ \<Rightarrow> ''datetime'' | TomlArray _ \<Rightarrow> ''array'' | TomlTable _ \<Rightarrow> ''table'')"

subsection \<open>Params\<close>

record 'f params =
  par_table :: "'f toml_table"

definition params_empty :: "'f params" where
  "params_empty = \<lparr>par_table = Map.empty\<rparr>"

definition get_f64 :: "'f params \<Rightarrow> string \<Rightarrow> 'f \<Rightarrow> 'f" where
  "get_f64 self key dflt = (case par_table self key of Some (TomlFloat x) \<Rightarrow> x | _ \<Rightarrow> dflt)"

text \<open>\<open>i as u64\<close> wraps.\<close>

definition get_u64 :: "'f params \<Rightarrow> string \<Rightarrow> 64 word \<Rightarrow> 64 word" where
  "get_u64 self key dflt = (case par_table self key of Some (TomlInteger i) \<Rightarrow> word_of_int i | _ \<Rightarrow> dflt)"

definition get_i64 :: "'f params \<Rightarrow> string \<Rightarrow> int \<Rightarrow> int" where
  "get_i64 self key dflt = (case par_table self key of Some (TomlInteger i) \<Rightarrow> i | _ \<Rightarrow> dflt)"

definition get_bool :: "'f params \<Rightarrow> string \<Rightarrow> bool \<Rightarrow> bool" where
  "get_bool self key dflt = (case par_table self key of Some (TomlBoolean b) \<Rightarrow> b | _ \<Rightarrow> dflt)"

definition get_str :: "'f params \<Rightarrow> string \<Rightarrow> string \<Rightarrow> string" where
  "get_str self key dflt = (case par_table self key of Some (TomlString s) \<Rightarrow> s | _ \<Rightarrow> dflt)"

definition get_table :: "'f params \<Rightarrow> string \<Rightarrow> 'f params option" where
  "get_table self key = (case par_table self key of Some (TomlTable t) \<Rightarrow> Some \<lparr>par_table = t\<rparr> | _ \<Rightarrow> None)"

definition get_value :: "'f params \<Rightarrow> string \<Rightarrow> 'f toml option" where
  "get_value self key = par_table self key"

subsection \<open>The registry\<close>

type_synonym ('f, 'm) registry = "string \<rightharpoonup> ('f params \<Rightarrow> 'm result)"

definition registry_new :: "('f, 'm) registry" where
  "registry_new = Map.empty"

definition registry_register :: "string \<Rightarrow> ('f params \<Rightarrow> 'm result) \<Rightarrow> ('f, 'm) registry \<Rightarrow> ('f, 'm) registry" where
  "registry_register name ctor self = self(name \<mapsto> ctor)"

definition registry_build :: "('f, 'm) registry \<Rightarrow> string \<Rightarrow> 'f params \<Rightarrow> 'm result" where
  "registry_build self name params = (case self name of Some ctor \<Rightarrow> ctor params | None \<Rightarrow> Inl (UnknownMechanism name))"

subsection \<open>The scenario\<close>

record simulation_section =
  ss_name :: string
  ss_module_pack :: string
  ss_t_max :: "64 word"
  ss_seed :: "64 word"
  ss_scheduler :: string

record 'f mechanism_entry =
  me_name :: string
  me_phase :: "string option"
  me_params :: "'f toml_table"

record output_section =
  os_log_path :: string
  os_metrics :: "string list"

record 'f scenario =
  sc_simulation :: simulation_section
  sc_world :: "'f toml_table"
  sc_mechanisms :: "'f mechanism_entry list"
  sc_output :: output_section

definition to_params :: "'f toml_table \<Rightarrow> 'f params" where
  "to_params raw = \<lparr>par_table = raw\<rparr>"

definition set_f64 :: "string \<Rightarrow> 'f \<Rightarrow> 'f toml_table \<Rightarrow> 'f toml_table" where
  "set_f64 key v raw = raw(key \<mapsto> TomlFloat v)"

text \<open>\<open>str::replace\<close>: the matches are taken from the left and do not overlap. The pattern is not empty.\<close>

function replace_all :: "string \<Rightarrow> string \<Rightarrow> string \<Rightarrow> string" where
  "replace_all pat new s =
     (if s = [] then []
      else if pat \<noteq> [] \<and> take (length pat) s = pat then new @ replace_all pat new (drop (length pat) s)
      else hd s # replace_all pat new (tl s))"
  by pat_completeness auto
termination by (relation "measure (\<lambda>(pat, new, s). length s)") (auto simp: neq_Nil_conv)

declare replace_all.simps [simp del]

definition resolve_log_path :: "output_section \<Rightarrow> string \<Rightarrow> 64 word \<Rightarrow> string" where
  "resolve_log_path self name seed =
     replace_all ''{seed}'' (show_nat (unat seed)) (replace_all ''{name}'' name (os_log_path self))"

fun joined :: "string \<Rightarrow> string list \<Rightarrow> string" where
  "joined sep [] = []"
| "joined sep [x] = x"
| "joined sep (x # xs) = x @ sep @ joined sep xs"

text \<open>A text in single quotes, as in the messages.\<close>

definition quoted :: "string \<Rightarrow> string" where
  "quoted s = CHR 0x27 # s @ [CHR 0x27]"

definition scenario_validate :: "'f scenario \<Rightarrow> string list \<Rightarrow> unit result" where
  "scenario_validate self registry_names =
     (if ss_t_max (sc_simulation self) = 0 then Inl (Config ''simulation.t_max must be > 0'')
      else if ss_scheduler (sc_simulation self) \<notin> set [''sequential'', ''random_activation'']
      then Inl (Config (''unknown scheduler '' @ quoted (ss_scheduler (sc_simulation self)) @
             ''; valid values: sequential, random_activation''))
      else case find (\<lambda>entry. me_name entry \<notin> set registry_names) (sc_mechanisms self) of
        Some entry \<Rightarrow> Inl (Config (''mechanism '' @ quoted (me_name entry) @ '' is not registered in the '' @
             quoted (ss_module_pack (sc_simulation self)) @ '' pack; available: ['' @ joined '', '' registry_names @ '']''))
      | None \<Rightarrow> Inr ())"

subsection \<open>Metric patterns\<close>

text \<open>\<open>str::split\<close> on one character.\<close>

primrec split_on :: "char \<Rightarrow> string \<Rightarrow> string list" where
  "split_on c [] = [[]]"
| "split_on c (x # xs) =
     (if x = c then [] # split_on c xs
      else case split_on c xs of [] \<Rightarrow> [[x]] | y # ys \<Rightarrow> (x # y) # ys)"

definition is_placeholder :: "string \<Rightarrow> bool" where
  "is_placeholder segment \<longleftrightarrow> length segment > 2 \<and> hd segment = CHR ''{'' \<and> last segment = CHR ''}''"

definition metric_key_matches :: "string \<Rightarrow> string \<Rightarrow> bool" where
  "metric_key_matches pat key =
     (let pattern_segments = split_on CHR ''.'' pat; key_segments = split_on CHR ''.'' key
      in if length pattern_segments \<noteq> length key_segments \<or> list_ex is_placeholder key_segments then False
         else list_all (\<lambda>(p, k). if is_placeholder p then k \<noteq> [] else p = k) (zip pattern_segments key_segments))"

lemma split_on_nonempty [simp]: "split_on c xs \<noteq> []"
  by (induction xs) (auto split: list.split)

lemma split_on_plain: "c \<notin> set xs \<Longrightarrow> split_on c xs = [xs]"
  by (induction xs) auto

lemma split_on_append: "c \<notin> set xs \<Longrightarrow> split_on c (xs @ c # ys) = xs # split_on c ys"
  by (induction xs) auto

lemma split_on_no_sep: "\<forall>seg \<in> set (split_on c xs). c \<notin> set seg"
  by (induction xs) (auto split: list.splits)

text \<open>Splitting is undone by joining with the separator, so distinct keys have distinct segments.\<close>

lemma joined_split: "joined [c] (split_on c xs) = xs"
proof (induction xs)
  case (Cons x xs)
  obtain y ys where "split_on c xs = y # ys" by (cases "split_on c xs") auto
  then show ?case using Cons by (cases ys) auto
qed simp

lemma split_on_inj: "split_on c xs = split_on c ys \<Longrightarrow> xs = ys"
  by (metis joined_split)

end
