(* ===== verification/Runner.thy ===== *)
theory Runner
  imports Scenario Engine_Runs
begin

section \<open>Trials, seeds and sweeps (crates/socsim-runner)\<close>

text \<open>
  A trial is built from the scenario, run by the engine with an in-memory recorder (crates/socsim-log)
  and read out. Runs may not return, so what runs a trial is an \<open>option\<close>. A \<open>HashMap\<close> that the code
  iterates is an association list with distinct keys; every use ends in a sort by key. \<open>rayon\<close> collects
  the results of \<open>par_iter\<close> in the order of the input, like the sequential branch, so both branches of
  \<open>run_validated_trials\<close> are one definition. \<open>stat_ops\<close> and \<open>sweep_ops\<close> are operations of \<open>f64\<close>.
\<close>

subsection \<open>The in-memory recorder\<close>

record 'f metric_row =
  row_t :: u64
  row_key :: string
  row_value :: 'f

record 'j event_row =
  ev_t :: u64
  ev_kind :: string
  ev_payload :: 'j

record ('f, 'j) memory_recorder =
  mr_metrics :: "'f metric_row list"
  mr_events :: "'j event_row list"

definition memory_new :: "('f, 'j) memory_recorder" where
  "memory_new = \<lparr>mr_metrics = [], mr_events = []\<rparr>"

definition memory_metric :: "('f, 'j) memory_recorder \<Rightarrow> u64 \<Rightarrow> string \<Rightarrow> 'f \<Rightarrow> ('f, 'j) memory_recorder" where
  "memory_metric self t key v = self\<lparr>mr_metrics := mr_metrics self @ [\<lparr>row_t = t, row_key = key, row_value = v\<rparr>]\<rparr>"

definition memory_event :: "('f, 'j) memory_recorder \<Rightarrow> u64 \<Rightarrow> string \<Rightarrow> 'j \<Rightarrow> ('f, 'j) memory_recorder" where
  "memory_event self t kind payload = self\<lparr>mr_events := mr_events self @ [\<lparr>ev_t = t, ev_kind = kind, ev_payload = payload\<rparr>]\<rparr>"

definition memory_recorder_ops :: "(('f, 'j) memory_recorder, 'f, 'j) recorder_ops" where
  "memory_recorder_ops =
     \<lparr>record_metric = memory_metric, record_event = memory_event, record_row = default_record_row memory_metric\<rparr>"

subsection \<open>Trials\<close>

record ('m, 's, 'w, 'r, 'f, 'j, 'ty, 'v) trial =
  tr_world :: 'w
  tr_mechanisms :: "('m, 'w, 'r, ('f, 'j) memory_recorder, 'ty, 'v) mechanism list"
  tr_scheduler :: "('s, 'w, 'r) scheduler"
  tr_engine_seed :: u64

record ('p, 'tr) trial_factory =
  tf_validate :: "'p scenario \<Rightarrow> unit result"
  tf_build_trial :: "'p scenario \<Rightarrow> u64 \<Rightarrow> 'tr result"

record ('f, 'j) run_result =
  rs_seed :: u64
  rs_series :: "(string \<times> (u64 \<times> 'f) list) list"
  rs_final_metrics :: "(string \<times> 'f) list"
  rs_events :: "'j event_row list"
  rs_event_count :: nat

definition scheduler_from_scenario ::
    "(agent_id list \<Rightarrow> 'r \<Rightarrow> agent_id list \<times> 'r) \<Rightarrow> 'w world_ops \<Rightarrow> 'p scenario \<Rightarrow> (unit, 'w, 'r) scheduler result" where
  "scheduler_from_scenario shuffle W scen =
     (let s = ss_scheduler (sc_simulation scen)
      in if s = ''random_activation'' then Inr (random_activation_scheduler shuffle W)
         else if s = ''sequential'' then Inr (sequential_scheduler W)
         else Inl (Config (''unknown scheduler '' @ quoted s)))"

definition build_registry_trial ::
    "(agent_id list \<Rightarrow> 'r \<Rightarrow> agent_id list \<times> 'r) \<Rightarrow> 'w world_ops \<Rightarrow> ('p params \<Rightarrow> u64 \<Rightarrow> 'w result) \<Rightarrow>
     (('p, ('m, 'w, 'r, ('f, 'j) memory_recorder, 'ty, 'v) mechanism) registry \<Rightarrow>
      ('p, ('m, 'w, 'r, ('f, 'j) memory_recorder, 'ty, 'v) mechanism) registry) \<Rightarrow>
     'p scenario \<Rightarrow> u64 \<Rightarrow> ('m, unit, 'w, 'r, 'f, 'j, 'ty, 'v) trial result" where
  "build_registry_trial shuffle W world_factory reg scen seed =
     try_bind (world_factory (to_params (sc_world scen)) seed) (\<lambda>world.
       let registry = reg registry_new
       in try_bind (try_fold (\<lambda>ms entry. try_bind (registry_build registry (me_name entry) (to_params (me_params entry)))
              (\<lambda>m. Inr (ms @ [m]))) [] (sc_mechanisms scen)) (\<lambda>mechanisms.
          try_bind (scheduler_from_scenario shuffle W scen) (\<lambda>sch.
            Inr \<lparr>tr_world = world, tr_mechanisms = mechanisms, tr_scheduler = sch, tr_engine_seed = seed\<rparr>)))"

text \<open>\<open>entry(key).or_default().push(x)\<close>.\<close>

fun entry_push :: "'k \<Rightarrow> 'a \<Rightarrow> ('k \<times> 'a list) list \<Rightarrow> ('k \<times> 'a list) list" where
  "entry_push key x [] = [(key, [x])]"
| "entry_push key x ((k, xs) # es) = (if k = key then (k, xs @ [x]) # es else (k, xs) # entry_push key x es)"

definition extract_result :: "u64 \<Rightarrow> ('f, 'j) memory_recorder \<Rightarrow> ('f, 'j) run_result" where
  "extract_result seed recorder =
     (let series = fold (\<lambda>rw. entry_push (row_key rw) (row_t rw, row_value rw)) (mr_metrics recorder) [];
          final_metrics = map (\<lambda>(key, ts). (key, snd (last ts))) (filter (\<lambda>(key, ts). ts \<noteq> []) series)
      in \<lparr>rs_seed = seed, rs_series = series, rs_final_metrics = final_metrics, rs_events = mr_events recorder,
          rs_event_count = length (mr_events recorder)\<rparr>)"

text \<open>The simulation that runs the trial. The scheduler and the recorder are always set, so the defaults
  passed to \<open>build\<close> are never used.\<close>

definition trial_simulation ::
    "'g chacha_ops \<Rightarrow> 'w world_ops \<Rightarrow> 'p scenario \<Rightarrow> ('m, 's, 'w, 'g sim_rng, 'f, 'j, 'ty, 'v) trial \<Rightarrow>
     ('m, 's, 'w, 'g sim_rng, ('f, 'j) memory_recorder, 'ty, 'v) simulation" where
  "trial_simulation cc W scen tr =
     (let world = set_clock W (clock_new (ss_t_max (sc_simulation scen))) (tr_world tr);
          builder = fold add_mechanism (tr_mechanisms tr) (with_seed (tr_engine_seed tr) (builder_new world))
      in build cc (tr_scheduler tr) memory_new (with_recorder memory_new (with_scheduler (tr_scheduler tr) builder)))"

definition execute_trial ::
    "'g chacha_ops \<Rightarrow> 'w world_ops \<Rightarrow> 'p scenario \<Rightarrow> ('m, 's, 'w, 'g sim_rng, 'f, 'j, 'ty, 'v) trial \<Rightarrow> u64 \<Rightarrow>
     ('f, 'j) run_result result option" where
  "execute_trial cc W scen tr seed =
     map_option (\<lambda>(r, sim). try_bind r (\<lambda>_. Inr (extract_result seed (sim_recorder sim))))
       (run W (trial_simulation cc W scen tr))"

definition registry_trial_factory ::
    "(agent_id list \<Rightarrow> 'r \<Rightarrow> agent_id list \<times> 'r) \<Rightarrow> 'w world_ops \<Rightarrow>
     (('p, ('m, 'w, 'r, ('f, 'j) memory_recorder, 'ty, 'v) mechanism) registry \<Rightarrow> string list) \<Rightarrow>
     ('p params \<Rightarrow> u64 \<Rightarrow> 'w result) \<Rightarrow>
     (('p, ('m, 'w, 'r, ('f, 'j) memory_recorder, 'ty, 'v) mechanism) registry \<Rightarrow>
      ('p, ('m, 'w, 'r, ('f, 'j) memory_recorder, 'ty, 'v) mechanism) registry) \<Rightarrow>
     ('p, ('m, unit, 'w, 'r, 'f, 'j, 'ty, 'v) trial) trial_factory" where
  "registry_trial_factory shuffle W names world_factory reg =
     \<lparr>tf_validate = (\<lambda>scen. scenario_validate scen (names (reg registry_new))),
      tf_build_trial = build_registry_trial shuffle W world_factory reg\<rparr>"

definition run_once ::
    "(agent_id list \<Rightarrow> 'g sim_rng \<Rightarrow> agent_id list \<times> 'g sim_rng) \<Rightarrow> 'g chacha_ops \<Rightarrow> 'w world_ops \<Rightarrow> 'p scenario \<Rightarrow>
     ('p params \<Rightarrow> u64 \<Rightarrow> 'w result) \<Rightarrow>
     (('p, ('m, 'w, 'g sim_rng, ('f, 'j) memory_recorder, 'ty, 'v) mechanism) registry \<Rightarrow>
      ('p, ('m, 'w, 'g sim_rng, ('f, 'j) memory_recorder, 'ty, 'v) mechanism) registry) \<Rightarrow>
     u64 \<Rightarrow> ('f, 'j) run_result result option" where
  "run_once shuffle cc W scen world_factory reg seed =
     loop_bind (Some (build_registry_trial shuffle W world_factory reg scen seed)) (\<lambda>tr. execute_trial cc W scen tr seed)"

text \<open>A lazy \<open>collect\<close> into a \<open>Result\<close> ends at the first error.\<close>

fun collect_results :: "('a \<Rightarrow> ('e + 'b) option) \<Rightarrow> 'a list \<Rightarrow> ('e + 'b list) option" where
  "collect_results f [] = Some (Inr [])"
| "collect_results f (x # xs) = loop_bind (f x) (\<lambda>y. loop_bind (collect_results f xs) (\<lambda>ys. Some (Inr (y # ys))))"

text \<open>The sequential branch; in parallel the code returns the first error in processing order.\<close>

definition run_seeds ::
    "(agent_id list \<Rightarrow> 'g sim_rng \<Rightarrow> agent_id list \<times> 'g sim_rng) \<Rightarrow> 'g chacha_ops \<Rightarrow> 'w world_ops \<Rightarrow> 'p scenario \<Rightarrow>
     ('p params \<Rightarrow> u64 \<Rightarrow> 'w result) \<Rightarrow>
     (('p, ('m, 'w, 'g sim_rng, ('f, 'j) memory_recorder, 'ty, 'v) mechanism) registry \<Rightarrow>
      ('p, ('m, 'w, 'g sim_rng, ('f, 'j) memory_recorder, 'ty, 'v) mechanism) registry) \<Rightarrow>
     u64 list \<Rightarrow> ('f, 'j) run_result list result option" where
  "run_seeds shuffle cc W scen world_factory reg seeds =
     loop_bind (collect_results (run_once shuffle cc W scen world_factory reg) seeds) (\<lambda>results.
       Some (Inr (sort_key rs_seed results)))"

definition run_trial ::
    "'g chacha_ops \<Rightarrow> 'w world_ops \<Rightarrow> 'p scenario \<Rightarrow> ('p, ('m, 's, 'w, 'g sim_rng, 'f, 'j, 'ty, 'v) trial) trial_factory \<Rightarrow>
     u64 \<Rightarrow> ('f, 'j) run_result result option" where
  "run_trial cc W scen factory seed =
     loop_bind (Some (tf_validate factory scen)) (\<lambda>_.
     loop_bind (Some (tf_build_trial factory scen seed)) (\<lambda>tr. execute_trial cc W scen tr seed))"

definition show_socsim_error :: "socsim_error \<Rightarrow> string" where
  "show_socsim_error e =
     (case e of
        Config s \<Rightarrow> ''config error: '' @ s
      | Mechanism s \<Rightarrow> ''mechanism error: '' @ s
      | UnknownMechanism s \<Rightarrow> ''unknown mechanism: '' @ quoted s
      | Snapshot s \<Rightarrow> ''snapshot error: '' @ s)"

text \<open>Every trial runs; then the outcomes are read in the order of the seeds.\<close>

definition seed_outcome :: "'a list \<Rightarrow> u64 \<times> 'a result \<Rightarrow> 'a list result" where
  "seed_outcome results so =
     (case snd so of
        Inr r \<Rightarrow> Inr (results @ [r])
      | Inl e \<Rightarrow> Inl (Config (''trial seed '' @ show_nat (unat (fst so)) @ '': '' @ show_socsim_error e)))"

definition run_validated_trials ::
    "'g chacha_ops \<Rightarrow> 'w world_ops \<Rightarrow> 'p scenario \<Rightarrow> ('p, ('m, 's, 'w, 'g sim_rng, 'f, 'j, 'ty, 'v) trial) trial_factory \<Rightarrow>
     u64 list \<Rightarrow> ('f, 'j) run_result list result option" where
  "run_validated_trials cc W scen factory seeds =
     map_option (\<lambda>outcomes. try_bind (try_fold seed_outcome [] (zip seeds outcomes)) (\<lambda>results. Inr (sort_key rs_seed results)))
       (those (map (\<lambda>seed. loop_bind (Some (tf_build_trial factory scen seed)) (\<lambda>tr. execute_trial cc W scen tr seed)) seeds))"

definition run_trials ::
    "'g chacha_ops \<Rightarrow> 'w world_ops \<Rightarrow> 'p scenario \<Rightarrow> ('p, ('m, 's, 'w, 'g sim_rng, 'f, 'j, 'ty, 'v) trial) trial_factory \<Rightarrow>
     u64 list \<Rightarrow> ('f, 'j) run_result list result option" where
  "run_trials cc W scen factory seeds =
     loop_bind (Some (tf_validate factory scen)) (\<lambda>_. run_validated_trials cc W scen factory seeds)"

end
