(* ===== verification/Sweeps.thy ===== *)
theory Sweeps
  imports Runner "HOL-Library.List_Lexorder" "HOL-Library.Char_ord"
begin

section \<open>Summaries and parameter sweeps (crates/socsim-runner/src/lib.rs, checked_sweep.rs)\<close>

text \<open>
  The statistics of the final metrics over the seeds, the grid of an axis product, and the two sweeps:
  the legacy one and the checked one, which parses every key, patches and validates every point of
  the grid, and only then runs. Names are ordered by their bytes.
\<close>

subsection \<open>Summaries\<close>

record 'f stat_ops =
  st_sum :: "'f list \<Rightarrow> 'f"
  st_sub :: "'f \<Rightarrow> 'f \<Rightarrow> 'f"
  st_div :: "'f \<Rightarrow> 'f \<Rightarrow> 'f"
  st_powi2 :: "'f \<Rightarrow> 'f"
  st_sqrt :: "'f \<Rightarrow> 'f"
  st_min :: "'f \<Rightarrow> 'f \<Rightarrow> 'f"
  st_max :: "'f \<Rightarrow> 'f \<Rightarrow> 'f"
  st_of_nat :: "nat \<Rightarrow> 'f"
  st_inf :: 'f
  st_neg_inf :: 'f

record 'f metric_stats =
  mt_key :: string
  mt_mean :: 'f
  mt_std :: 'f
  mt_min :: 'f
  mt_max :: 'f
  mt_n :: nat

type_synonym 'f summary = "'f metric_stats list"

definition metric_stats_of :: "('f, 'z) stat_ops_scheme \<Rightarrow> string \<times> 'f list \<Rightarrow> 'f metric_stats" where
  "metric_stats_of F entry =
     (let (key, vals) = entry; n = length vals;
          mean = st_div F (st_sum F vals) (st_of_nat F n);
          variance = st_div F (st_sum F (map (\<lambda>v. st_powi2 F (st_sub F v mean)) vals)) (st_of_nat F n)
      in \<lparr>mt_key = key, mt_mean = mean, mt_std = st_sqrt F variance,
          mt_min = fold (\<lambda>v acc. st_min F acc v) vals (st_inf F), mt_max = fold (\<lambda>v acc. st_max F acc v) vals (st_neg_inf F),
          mt_n = n\<rparr>)"

definition values_by_key :: "('f, 'j) run_result list \<Rightarrow> (string \<times> 'f list) list" where
  "values_by_key results = fold (\<lambda>r. fold (\<lambda>(k, v). entry_push k v) (rs_final_metrics r)) results []"

definition summarize :: "('f, 'z) stat_ops_scheme \<Rightarrow> ('f, 'j) run_result list \<Rightarrow> 'f summary" where
  "summarize F results = sort_key mt_key (map (metric_stats_of F) (values_by_key results))"

definition select_metrics :: "'f summary \<Rightarrow> string list \<Rightarrow> 'f summary" where
  "select_metrics self keys =
     fold (\<lambda>key metrics.
         if list_ex (\<lambda>metric. mt_key metric = key) metrics then metrics
         else case find (\<lambda>metric. mt_key metric = key) (rev self) of
           Some metric \<Rightarrow> metrics @ [metric] | None \<Rightarrow> metrics) keys []"

subsection \<open>The grid\<close>

record 'f sweep_axis =
  ax_key :: string
  ax_values :: "'f list"

definition cartesian_product :: "'f sweep_axis list \<Rightarrow> (string \<times> 'f) list list" where
  "cartesian_product axes =
     (if axes = [] then [[]]
      else fold (\<lambda>axis result. concat (map (\<lambda>rw. map (\<lambda>v. rw @ [(ax_key axis, v)]) (ax_values axis)) result)) axes [[]])"

record 'f sweep_point =
  pt_params :: "(string \<times> 'f) list"
  pt_summary :: "'f summary"

text \<open>\<open>key.find('.')\<close> and the two slices around it.\<close>

definition split_first :: "string \<Rightarrow> (string \<times> string) option" where
  "split_first key =
     (if CHR ''.'' \<in> set key
      then Some (takeWhile (\<lambda>c. c \<noteq> CHR ''.'') key, tl (dropWhile (\<lambda>c. c \<noteq> CHR ''.'') key)) else None)"

definition legacy_patch :: "(string \<times> 'p) \<Rightarrow> 'p scenario \<Rightarrow> 'p scenario" where
  "legacy_patch entry scen =
     (case split_first (fst entry) of
        None \<Rightarrow> scen
      | Some (mname, pname) \<Rightarrow>
          scen\<lparr>sc_mechanisms := map (\<lambda>e. if me_name e = mname
             then e\<lparr>me_params := set_f64 pname (snd entry) (me_params e)\<rparr> else e) (sc_mechanisms scen)\<rparr>)"

text \<open>\<open>run_all\<close> is \<open>run_seeds\<close> with the factory, the registration and the seeds of the call.\<close>

fun run_combos ::
    "('f, 'z) stat_ops_scheme \<Rightarrow> ('f scenario \<Rightarrow> ('f, 'j) run_result list result option) \<Rightarrow> 'f scenario \<Rightarrow>
     (string \<times> 'f) list list \<Rightarrow> 'f sweep_point list result option" where
  "run_combos F run_all scen [] = Some (Inr [])"
| "run_combos F run_all scen (combo # combos) =
     loop_bind (run_all (fold legacy_patch combo scen)) (\<lambda>results.
     loop_bind (run_combos F run_all scen combos) (\<lambda>points.
       Some (Inr (\<lparr>pt_params = combo, pt_summary = summarize F results\<rparr> # points))))"

definition run_sweep ::
    "('f, 'z) stat_ops_scheme \<Rightarrow> (agent_id list \<Rightarrow> 'g sim_rng \<Rightarrow> agent_id list \<times> 'g sim_rng) \<Rightarrow> 'g chacha_ops \<Rightarrow> 'w world_ops \<Rightarrow>
     'f scenario \<Rightarrow> 'f sweep_axis list \<Rightarrow> ('f params \<Rightarrow> u64 \<Rightarrow> 'w result) \<Rightarrow>
     (('f, ('m, 'w, 'g sim_rng, ('f, 'j) memory_recorder, 'ty, 'v) mechanism) registry \<Rightarrow>
      ('f, ('m, 'w, 'g sim_rng, ('f, 'j) memory_recorder, 'ty, 'v) mechanism) registry) \<Rightarrow>
     u64 list \<Rightarrow> 'f sweep_point list result option" where
  "run_sweep F shuffle cc W scen axes world_factory reg seeds =
     run_combos F (\<lambda>patched. run_seeds shuffle cc W patched world_factory reg seeds) scen (cartesian_product axes)"

subsection \<open>Sweep keys\<close>

datatype sweep_target =
    WorldPath "string list"
  | MechanismParam string string

definition axis_error :: "string \<Rightarrow> string \<Rightarrow> socsim_error" where
  "axis_error key reason = Config (''sweep axis '' @ quoted key @ '': '' @ reason)"

definition strip_prefix :: "string \<Rightarrow> string \<Rightarrow> string option" where
  "strip_prefix pre s = (if take (length pre) s = pre then Some (drop (length pre) s) else None)"

definition parse_key :: "string \<Rightarrow> sweep_target result" where
  "parse_key key =
     (case strip_prefix ''world.'' key of
        Some rest \<Rightarrow>
          let segments = split_on CHR ''.'' rest
          in if list_ex (\<lambda>s. s = []) segments
             then Inl (axis_error key (''a '' @ quoted ''world.'' @
                    '' key needs one or more non-empty dot-separated segments after '' @ quoted ''world.''))
             else Inr (WorldPath segments)
      | None \<Rightarrow>
          (case split_first key of
             None \<Rightarrow> Inl (axis_error key (''key must be '' @ quoted ''world.<path>'' @ '' or '' @ quoted ''<mechanism>.<param>''))
           | Some (mechanism, param) \<Rightarrow>
               if mechanism = [] then Inl (axis_error key (''empty mechanism name before '' @ quoted ''.''))
               else if param = [] then Inl (axis_error key (''empty parameter name after '' @ quoted ''.''))
               else if CHR ''.'' \<in> set param
               then Inl (axis_error key (''parameter name '' @ quoted param @ '' must not contain '' @ quoted ''.''))
               else Inr (MechanismParam mechanism param)))"

subsection \<open>Patching\<close>

text \<open>\<open>sw_in_i64\<close> is \<open>(-TWO_POW_63..TWO_POW_63).contains\<close>, \<open>sw_integral\<close> is \<open>fract() == 0.0\<close> and \<open>sw_to_i64\<close> is \<open>as i64\<close>.\<close>

record 'f sweep_ops = "'f stat_ops" +
  sw_finite :: "'f \<Rightarrow> bool"
  sw_integral :: "'f \<Rightarrow> bool"
  sw_in_i64 :: "'f \<Rightarrow> bool"
  sw_to_i64 :: "'f \<Rightarrow> int"
  sw_text :: "'f \<Rightarrow> string"

definition write_existing :: "('f, 'z) sweep_ops_scheme \<Rightarrow> 'f toml \<Rightarrow> 'f \<Rightarrow> string + 'f toml" where
  "write_existing F slot v =
     (case slot of
        TomlInteger _ \<Rightarrow>
          if sw_integral F v \<and> sw_in_i64 F v then Inr (TomlInteger (sw_to_i64 F v))
          else Inl (''existing value is an integer; '' @ sw_text F v @ '' is not an integral value representable as i64'')
      | TomlFloat _ \<Rightarrow> Inr (TomlFloat v)
      | other \<Rightarrow> Inl (''existing value is a '' @ type_str other @ ''; only integer and float values can be swept''))"

definition table_label :: "string list \<Rightarrow> string" where
  "table_label segments =
     (if segments = [] then ''[world]'' else ''[world.'' @ joined ''.'' segments @ '']'')"

text \<open>The walk down the parent tables and the write at the leaf; \<open>seen\<close> are the segments passed.\<close>

fun patch_path ::
    "('f, 'z) sweep_ops_scheme \<Rightarrow> string list \<Rightarrow> string list \<Rightarrow> 'f \<Rightarrow> 'f toml_table \<Rightarrow> string + 'f toml_table" where
  "patch_path F seen [] v table = Inr table"
| "patch_path F seen [leaf] v table =
     (case table leaf of
        Some slot \<Rightarrow> try_bind (write_existing F slot v) (\<lambda>slot'. Inr (table(leaf \<mapsto> slot')))
      | None \<Rightarrow> Inl (''no key '' @ quoted leaf @ '' in '' @ table_label seen))"
| "patch_path F seen (seg # rest) v table =
     (case table seg of
        Some (TomlTable t) \<Rightarrow> try_bind (patch_path F (seen @ [seg]) rest v t) (\<lambda>t'. Inr (table(seg \<mapsto> TomlTable t')))
      | Some other \<Rightarrow> Inl (quoted seg @ '' in '' @ table_label seen @ '' is a '' @ type_str other @ '', not a table'')
      | None \<Rightarrow> Inl (''no key '' @ quoted seg @ '' in '' @ table_label seen))"

definition patch_world :: "('f, 'z) sweep_ops_scheme \<Rightarrow> 'f toml_table \<Rightarrow> string list \<Rightarrow> 'f \<Rightarrow> string + 'f toml_table" where
  "patch_world F world path v = patch_path F [] path v world"

definition patch_entry ::
    "('f, 'z) sweep_ops_scheme \<Rightarrow> string \<Rightarrow> string \<Rightarrow> 'f \<Rightarrow> 'f mechanism_entry list \<times> nat \<Rightarrow> nat \<times> 'f mechanism_entry \<Rightarrow>
     string + 'f mechanism_entry list \<times> nat" where
  "patch_entry F mechanism param v st entry =
     (let (acc, matched) = st; (index, e) = entry
      in if me_name e \<noteq> mechanism then Inr (acc @ [e], matched)
         else try_bind
           (case me_params e param of
              Some slot \<Rightarrow> map_err (\<lambda>reason. ''param '' @ quoted param @ '' of [[mechanism]] #'' @ show_nat index @
                  '' ('' @ quoted mechanism @ ''): '' @ reason)
                (try_bind (write_existing F slot v) (\<lambda>slot'. Inr ((me_params e)(param \<mapsto> slot'))))
            | None \<Rightarrow> Inr (set_f64 param v (me_params e)))
           (\<lambda>ps. Inr (acc @ [e\<lparr>me_params := ps\<rparr>], matched + 1)))"

definition patch_mechanism ::
    "('f, 'z) sweep_ops_scheme \<Rightarrow> 'f mechanism_entry list \<Rightarrow> string \<Rightarrow> string \<Rightarrow> 'f \<Rightarrow> string + 'f mechanism_entry list" where
  "patch_mechanism F mechanisms mechanism param v =
     try_bind (try_fold (patch_entry F mechanism param v) ([], 0) (List.enumerate 0 mechanisms)) (\<lambda>(ms, matched).
       if matched = 0 then Inl (''mechanism '' @ quoted mechanism @ '' is not in the scenario'') else Inr ms)"

definition patch :: "('f, 'z) sweep_ops_scheme \<Rightarrow> 'f scenario \<Rightarrow> string \<Rightarrow> sweep_target \<Rightarrow> 'f \<Rightarrow> 'f scenario result" where
  "patch F scen key target v =
     (if \<not> sw_finite F v then Inl (axis_error key (''value '' @ sw_text F v @ '' is not finite''))
      else map_err (axis_error key)
        (case target of
           WorldPath path \<Rightarrow> try_bind (patch_world F (sc_world scen) path v) (\<lambda>w. Inr (scen\<lparr>sc_world := w\<rparr>))
         | MechanismParam mechanism param \<Rightarrow>
             try_bind (patch_mechanism F (sc_mechanisms scen) mechanism param v) (\<lambda>ms. Inr (scen\<lparr>sc_mechanisms := ms\<rparr>))))"

definition format_params :: "('f, 'z) sweep_ops_scheme \<Rightarrow> (string \<times> 'f) list \<Rightarrow> string" where
  "format_params F params = joined '', '' (map (\<lambda>(k, v). k @ ''='' @ sw_text F v) params)"

subsection \<open>The checked sweep\<close>

record 'f checked_sweep_point =
  cs_params :: "(string \<times> 'f) list"
  cs_effective :: "'f scenario"
  cs_summary :: "'f summary"

definition check_axis :: "string list \<times> sweep_target list \<Rightarrow> 'f sweep_axis \<Rightarrow> (string list \<times> sweep_target list) result" where
  "check_axis st axis =
     (let (seen, targets) = st; key = ax_key axis
      in try_bind (parse_key key) (\<lambda>target.
           if key \<in> set seen then Inl (axis_error key ''duplicate axis; each key may appear once'')
           else if ax_values axis = [] then Inl (axis_error key ''axis has no values'')
           else Inr (key # seen, targets @ [target])))"

definition patch_all ::
    "('f, 'z) sweep_ops_scheme \<Rightarrow> sweep_target list \<Rightarrow> (string \<times> 'f) list \<Rightarrow> 'f scenario \<Rightarrow> 'f scenario result" where
  "patch_all F targets combo scen =
     try_fold (\<lambda>effective ((key, v), target). patch F effective key target v) scen (zip combo targets)"

definition plan_point ::
    "('f, 'z) sweep_ops_scheme \<Rightarrow> ('f scenario \<Rightarrow> unit result) \<Rightarrow> sweep_target list \<Rightarrow> 'f scenario \<Rightarrow>
     ((string \<times> 'f) list \<times> 'f scenario) list \<Rightarrow> (string \<times> 'f) list \<Rightarrow> ((string \<times> 'f) list \<times> 'f scenario) list result" where
  "plan_point F validate targets scen planned combo =
     try_bind (patch_all F targets combo scen) (\<lambda>effective.
     try_bind (map_err (\<lambda>e. Config (''sweep combination ['' @ format_params F combo @ '']: '' @ show_socsim_error e))
         (validate effective)) (\<lambda>_.
       Inr (planned @ [(combo, effective)])))"

definition plan_sweep ::
    "('f, 'z) sweep_ops_scheme \<Rightarrow> ('f scenario \<Rightarrow> unit result) \<Rightarrow> 'f scenario \<Rightarrow> 'f sweep_axis list \<Rightarrow>
     ((string \<times> 'f) list \<times> 'f scenario) list result" where
  "plan_sweep F validate scen axes =
     try_bind (try_fold check_axis ([], []) axes) (\<lambda>(_, targets).
       try_fold (plan_point F validate targets scen) [] (cartesian_product axes))"

fun run_planned ::
    "('f, 'z) stat_ops_scheme \<Rightarrow> ('f scenario \<Rightarrow> ('f, 'j) run_result list result option) \<Rightarrow>
     ((string \<times> 'f) list \<times> 'f scenario) list \<Rightarrow> 'f checked_sweep_point list result option" where
  "run_planned F run_all [] = Some (Inr [])"
| "run_planned F run_all ((params, effective) # planned) =
     loop_bind (run_all effective) (\<lambda>results.
     loop_bind (run_planned F run_all planned) (\<lambda>points.
       Some (Inr (\<lparr>cs_params = params, cs_effective = effective, cs_summary = summarize F results\<rparr> # points))))"

definition run_trial_sweep ::
    "('f, 'z) sweep_ops_scheme \<Rightarrow> 'g chacha_ops \<Rightarrow> 'w world_ops \<Rightarrow> 'f scenario \<Rightarrow> 'f sweep_axis list \<Rightarrow>
     ('f, ('m, 's, 'w, 'g sim_rng, 'f, 'j, 'ty, 'v) trial) trial_factory \<Rightarrow> u64 list \<Rightarrow>
     'f checked_sweep_point list result option" where
  "run_trial_sweep F cc W scen axes factory seeds =
     loop_bind (Some (plan_sweep F (tf_validate factory) scen axes)) (\<lambda>planned.
       run_planned F (\<lambda>effective. run_validated_trials cc W effective factory seeds) planned)"

end
