(* ===== verification/Sweep_Facts.thy ===== *)
theory Sweep_Facts
  imports Sweeps
begin

section \<open>Properties of the checked sweep and of the trials\<close>

text \<open>
  The grid is the product of the axes in lexicographic order. A planned point is the base scenario with
  exactly the swept slots overwritten, each with its value and its type kept, and it has been validated.
  No run starts before every point is planned, errors are configuration errors that name their place, a sweep
  of trials whose mechanisms keep the clock returns, and the results of trials depend on the seeds
  only as a multiset.
\<close>

subsection \<open>The grid\<close>

lemma product_fold:
  "fold (\<lambda>axis result. concat (map (\<lambda>rw. map (\<lambda>v. rw @ [(ax_key axis, v)]) (ax_values axis)) result)) axes rws =
     concat (map (\<lambda>rw. map (\<lambda>vs. rw @ zip (map ax_key axes) vs) (product_lists (map ax_values axes))) rws)"
proof (induction axes arbitrary: rws)
  case (Cons axis axes)
  show ?case unfolding fold_simps Cons by (induction rws) (simp_all add: map_concat comp_def)
qed simp

lemma cartesian_product_eq:
  "cartesian_product axes = map (zip (map ax_key axes)) (product_lists (map ax_values axes))"
  by (cases axes) (simp_all add: cartesian_product_def product_fold del: fold.simps)

lemma product_lists_length: "vs \<in> set (product_lists xss) \<Longrightarrow> length vs = length xss"
  by (induction xss arbitrary: vs) auto

subsection \<open>Keys\<close>

lemma strip_prefix_Some: "strip_prefix pre s = Some rest \<longleftrightarrow> s = pre @ rest"
  by (auto simp: strip_prefix_def) (metis append_take_drop_id)

lemma split_first_Some: "split_first key = Some (m, p) \<Longrightarrow> key = m @ CHR ''.'' # p"
proof -
  assume *: "split_first key = Some (m, p)"
  then have dot: "CHR ''.'' \<in> set key" and m: "m = takeWhile (\<lambda>c. c \<noteq> CHR ''.'') key"
    and p: "p = tl (dropWhile (\<lambda>c. c \<noteq> CHR ''.'') key)" by (auto simp: split_first_def split: if_splits)
  from dot have ne: "dropWhile (\<lambda>c. c \<noteq> CHR ''.'') key \<noteq> []" by (auto simp: dropWhile_eq_Nil_conv)
  from hd_dropWhile [OF this] have "hd (dropWhile (\<lambda>c. c \<noteq> CHR ''.'') key) = CHR ''.''" by simp
  with list.collapse [OF ne] have "dropWhile (\<lambda>c. c \<noteq> CHR ''.'') key = CHR ''.'' # p" by (simp add: p)
  with takeWhile_dropWhile_id [of "\<lambda>c. c \<noteq> CHR ''.''" key] show ?thesis by (simp add: m)
qed

text \<open>What a parsed target says of its key.\<close>

lemma parse_key_Inr:
  assumes "parse_key key = Inr target"
  shows "(\<exists>path rest. target = WorldPath path \<and> key = ''world.'' @ rest \<and> path = split_on CHR ''.'' rest) \<or>
    (\<exists>m p. target = MechanismParam m p \<and> key = m @ CHR ''.'' # p)"
proof (cases "strip_prefix ''world.'' key")
  case None
  with assms obtain m p where "split_first key = Some (m, p)" "target = MechanismParam m p"
    by (auto simp: parse_key_def split: option.splits if_splits)
  then show ?thesis using split_first_Some by blast
next
  case (Some rest)
  with assms show ?thesis
    by (auto simp: parse_key_def Let_def strip_prefix_Some split: if_splits)
qed

lemma parse_key_inj:
  assumes "parse_key k1 = Inr target" "parse_key k2 = Inr target"
  shows "k1 = k2"
  using parse_key_Inr [OF assms(1)] parse_key_Inr [OF assms(2)] split_on_inj by auto

lemma parse_key_path: "parse_key key = Inr (WorldPath path) \<Longrightarrow> path \<noteq> []"
  by (drule parse_key_Inr) auto

lemma check_axis_Inr:
  "check_axis st axis = Inr st' \<longleftrightarrow> (\<exists>target. parse_key (ax_key axis) = Inr target \<and> ax_key axis \<notin> set (fst st) \<and>
     ax_values axis \<noteq> [] \<and> st' = (ax_key axis # fst st, snd st @ [target]))"
  by (cases st) (auto simp: check_axis_def Let_def try_bind_eq_Inr)

lemma check_axes_Inr:
  assumes "try_fold check_axis (seen, ts) axes = Inr (seen', targets)"
  shows "\<exists>us. targets = ts @ us \<and> map (\<lambda>a. parse_key (ax_key a)) axes = map Inr us \<and>
    distinct (map ax_key axes) \<and> set (map ax_key axes) \<inter> set seen = {} \<and> (\<forall>a \<in> set axes. ax_values a \<noteq> [])"
  using assms
proof (induction axes arbitrary: seen ts)
  case (Cons axis axes)
  then obtain u where u: "parse_key (ax_key axis) = Inr u" "ax_key axis \<notin> set seen" "ax_values axis \<noteq> []"
    and rest: "try_fold check_axis (ax_key axis # seen, ts @ [u]) axes = Inr (seen', targets)"
    by (auto simp: try_bind_eq_Inr check_axis_Inr)
  from Cons.IH [OF rest] obtain us where us: "targets = (ts @ [u]) @ us" "map (\<lambda>a. parse_key (ax_key a)) axes = map Inr us"
    "distinct (map ax_key axes)" "set (map ax_key axes) \<inter> set (ax_key axis # seen) = {}" "\<forall>a \<in> set axes. ax_values a \<noteq> []"
    by blast
  from us u show ?case by (intro exI [of _ "u # us"]) auto
qed simp

lemma targets_distinct:
  assumes "map (\<lambda>a. parse_key (ax_key a)) axes = map Inr us" "distinct (map ax_key axes)"
  shows "distinct us"
  using assms
proof (induction axes arbitrary: us)
  case (Cons axis axes)
  then obtain u us' where us: "us = u # us'" and u: "parse_key (ax_key axis) = Inr u"
    and us': "map (\<lambda>a. parse_key (ax_key a)) axes = map Inr us'" by (cases us) auto
  have "u \<notin> set us'"
  proof
    assume "u \<in> set us'"
    then have "Inr u \<in> set (map (\<lambda>a. parse_key (ax_key a)) axes)" by (simp add: us')
    then obtain a where "a \<in> set axes" "parse_key (ax_key a) = Inr u" by auto
    with parse_key_inj [OF u] Cons.prems(2) show False by force
  qed
  with Cons.IH [OF us'] Cons.prems(2) us show ?case by simp
qed simp

subsection \<open>What a patch writes\<close>

fun lookup_path :: "string list \<Rightarrow> 'f toml_table \<Rightarrow> 'f toml option" where
  "lookup_path [] table = None"
| "lookup_path [leaf] table = table leaf"
| "lookup_path (seg # rest) table = (case table seg of Some (TomlTable t) \<Rightarrow> lookup_path rest t | _ \<Rightarrow> None)"

text \<open>The slots a key addresses: one under the world, one in each entry of the named mechanism.\<close>

definition sweep_slots :: "sweep_target \<Rightarrow> 'f scenario \<Rightarrow> 'f toml option list" where
  "sweep_slots target scen =
     (case target of
        WorldPath path \<Rightarrow> [lookup_path path (sc_world scen)]
      | MechanismParam m p \<Rightarrow> map (\<lambda>e. me_params e p) (filter (\<lambda>e. me_name e = m) (sc_mechanisms scen)))"

text \<open>The value a slot holds after the write: an integer stays an integer, anything else is a float.\<close>

definition stored :: "('f, 'z) sweep_ops_scheme \<Rightarrow> 'f \<Rightarrow> 'f toml option \<Rightarrow> 'f toml option" where
  "stored F v slot = Some (case slot of Some (TomlInteger _) \<Rightarrow> TomlInteger (sw_to_i64 F v) | _ \<Rightarrow> TomlFloat v)"

definition sweepable :: "'f toml option \<Rightarrow> bool" where
  "sweepable slot \<longleftrightarrow> (case slot of None \<Rightarrow> True | Some (TomlInteger _) \<Rightarrow> True | Some (TomlFloat _) \<Rightarrow> True | _ \<Rightarrow> False)"

lemma sweepable_stored [simp]: "sweepable (stored F v slot)"
  by (auto simp: sweepable_def stored_def split: option.split toml.split)

text \<open>A slot accepts a value: an integer slot takes integral values that fit \<open>i64\<close>, a float slot or a missing one any.\<close>

definition accepts :: "('f, 'z) sweep_ops_scheme \<Rightarrow> 'f \<Rightarrow> 'f toml option \<Rightarrow> bool" where
  "accepts F v slot \<longleftrightarrow>
     (case slot of None \<Rightarrow> True | Some (TomlInteger _) \<Rightarrow> sw_integral F v \<and> sw_in_i64 F v | Some (TomlFloat _) \<Rightarrow> True | _ \<Rightarrow> False)"

lemma accepts_sweepable: "accepts F v slot \<Longrightarrow> sweepable slot"
  by (auto simp: accepts_def sweepable_def split: option.splits toml.splits)

lemma list_all_accepts: "list_all (accepts F v) slots \<Longrightarrow> list_all sweepable slots"
  by (erule list.pred_mono_strong) (erule accepts_sweepable)

lemma write_existing_Inr:
  "write_existing F slot v = Inr slot' \<Longrightarrow> Some slot' = stored F v (Some slot) \<and> accepts F v (Some slot)"
  by (auto simp: write_existing_def stored_def accepts_def split: toml.splits if_splits)

lemma patch_path_lookup:
  assumes "patch_path F seen path v t = Inr t'" "path \<noteq> []"
  shows "lookup_path path t' = stored F v (lookup_path path t) \<and> accepts F v (lookup_path path t) \<and> lookup_path path t \<noteq> None"
  using assms
proof (induction F seen path v t arbitrary: t' rule: patch_path.induct)
  case (2 F seen leaf v table)
  then show ?case by (auto simp: try_bind_eq_Inr dest!: write_existing_Inr split: option.splits)
next
  case (3 F seen seg s rest v table)
  then show ?case by (auto simp: try_bind_eq_Inr split: option.splits toml.splits)
qed simp

text \<open>Another path reads the same, or a table that lies on the way.\<close>

lemma patch_path_other:
  assumes "patch_path F seen path v t = Inr t'" "q \<noteq> path" "q \<noteq> []"
  shows "lookup_path q t' = lookup_path q t \<or> \<not> sweepable (lookup_path q t) \<and> \<not> sweepable (lookup_path q t')"
  using assms
proof (induction F seen path v t arbitrary: t' q rule: patch_path.induct)
  case (2 F seen leaf v table)
  from 2(1) obtain slot slot' where slot: "table leaf = Some slot" "write_existing F slot v = Inr slot'" "t' = table(leaf \<mapsto> slot')"
    by (auto simp: try_bind_eq_Inr split: option.splits)
  with write_existing_Inr [OF slot(2)] have "sweepable (Some slot)" "sweepable (Some slot')"
    using sweepable_stored accepts_sweepable by metis+
  then have num: "\<And>t. slot \<noteq> TomlTable t" "\<And>t. slot' \<noteq> TomlTable t" by (auto simp: sweepable_def)
  show ?case
  proof (cases q)
    case (Cons q0 qs)
    show ?thesis
    proof (cases qs)
      case Nil
      with Cons 2(2) slot(3) show ?thesis by simp
    next
      case (Cons q1 qs')
      with num slot \<open>q = q0 # qs\<close> show ?thesis by (auto split: toml.split)
    qed
  qed (use 2 in simp)
next
  case (3 F seen seg s rest v table)
  from 3(2) obtain t u where t: "table seg = Some (TomlTable t)" "patch_path F (seen @ [seg]) (s # rest) v t = Inr u"
    "t' = table(seg \<mapsto> TomlTable u)"
    by (auto simp: try_bind_eq_Inr split: option.splits toml.splits)
  show ?case
  proof (cases q)
    case (Cons q0 qs)
    show ?thesis
    proof (cases "qs = []")
      case True
      with Cons t show ?thesis by (auto simp: sweepable_def)
    next
      case False
      then obtain q1 qs' where qs: "qs = q1 # qs'" by (cases qs) auto
      show ?thesis
      proof (cases "q0 = seg")
        case True
        with Cons 3(3) have "qs \<noteq> s # rest" by simp
        from 3(1) [OF t(1) refl t(2) this False] t True Cons qs show ?thesis by simp
      next
        case False
        with Cons t qs show ?thesis by simp
      qed
    qed
  qed (use 3 in simp)
qed simp

text \<open>The entries of a mechanism are rewritten one by one; the others are kept.\<close>

definition set_param :: "('f, 'z) sweep_ops_scheme \<Rightarrow> string \<Rightarrow> string \<Rightarrow> 'f \<Rightarrow> 'f mechanism_entry \<Rightarrow> 'f mechanism_entry" where
  "set_param F m p v e =
     (if me_name e = m then e\<lparr>me_params := (me_params e)(p := stored F v (me_params e p))\<rparr> else e)"

lemma patch_entry_Inr:
  assumes "patch_entry F m p v (acc, matched) (i, e) = Inr st'"
  shows "st' = (acc @ [set_param F m p v e], matched + (if me_name e = m then 1 else 0)) \<and>
    (me_name e = m \<longrightarrow> accepts F v (me_params e p))"
proof (cases "me_name e = m")
  case True
  show ?thesis
  proof (cases "me_params e p")
    case None
    with assms True show ?thesis
      by (auto simp: patch_entry_def set_param_def set_f64_def stored_def accepts_def)
  next
    case (Some slot)
    with assms True obtain slot' where w: "write_existing F slot v = Inr slot'"
      and st': "st' = (acc @ [e\<lparr>me_params := (me_params e)(p \<mapsto> slot')\<rparr>], matched + 1)"
      by (auto simp: patch_entry_def try_bind_eq_Inr)
    with write_existing_Inr [OF w] Some True show ?thesis by (simp add: set_param_def)
  qed
next
  case False
  with assms show ?thesis by (auto simp: patch_entry_def set_param_def)
qed

lemma patch_entries_Inr:
  assumes "try_fold (patch_entry F m p v) (acc, matched) (List.enumerate i es) = Inr (ms, k)"
  shows "ms = acc @ map (set_param F m p v) es \<and> k = matched + length (filter (\<lambda>e. me_name e = m) es) \<and>
    list_all (\<lambda>e. accepts F v (me_params e p)) (filter (\<lambda>e. me_name e = m) es)"
  using assms
proof (induction es arbitrary: i acc matched)
  case (Cons e es)
  from Cons.prems obtain st' where st': "patch_entry F m p v (acc, matched) (i, e) = Inr st'"
    and rest: "try_fold (patch_entry F m p v) st' (List.enumerate (Suc i) es) = Inr (ms, k)"
    by (auto simp: try_bind_eq_Inr)
  note e = patch_entry_Inr [OF st']
  from Cons.IH [OF rest [unfolded conjunct1 [OF e]]] e show ?case by auto
qed simp

lemma patch_mechanism_Inr:
  assumes "patch_mechanism F es m p v = Inr ms"
  shows "ms = map (set_param F m p v) es \<and> filter (\<lambda>e. me_name e = m) es \<noteq> [] \<and>
    list_all (\<lambda>e. accepts F v (me_params e p)) (filter (\<lambda>e. me_name e = m) es)"
proof -
  from assms obtain k where "try_fold (patch_entry F m p v) ([], 0) (List.enumerate 0 es) = Inr (ms, k)" "k \<noteq> 0"
    by (auto simp: patch_mechanism_def try_bind_eq_Inr split: if_splits)
  from patch_entries_Inr [OF this(1)] this(2) show ?thesis by (auto simp: filter_empty_conv)
qed

text \<open>The value may be written: it is finite, some slot is addressed, every slot accepts it and one under the world exists.\<close>

definition slots_ok :: "('f, 'z) sweep_ops_scheme \<Rightarrow> sweep_target \<Rightarrow> 'f \<Rightarrow> 'f toml option list \<Rightarrow> bool" where
  "slots_ok F target v slots \<longleftrightarrow>
     sw_finite F v \<and> slots \<noteq> [] \<and> list_all (accepts F v) slots \<and>
     (case target of WorldPath _ \<Rightarrow> list_all (\<lambda>s. s \<noteq> None) slots | MechanismParam _ _ \<Rightarrow> True)"

lemma slots_ok_sweepable: "slots_ok F target v slots \<Longrightarrow> list_all sweepable slots"
  unfolding slots_ok_def by (blast intro: list_all_accepts)

text \<open>One patch writes the slots of its target and keeps every other one that can be swept.\<close>

lemma patch_writes:
  assumes "patch F scen key target v = Inr scen'" "target \<noteq> WorldPath []"
  shows "sweep_slots target scen' = map (stored F v) (sweep_slots target scen) \<and>
    slots_ok F target v (sweep_slots target scen)"
proof (cases target)
  case (WorldPath path)
  with assms obtain w where "sw_finite F v" "patch_path F [] path v (sc_world scen) = Inr w" "scen' = scen\<lparr>sc_world := w\<rparr>"
    by (auto simp: patch_def patch_world_def try_bind_eq_Inr split: if_splits)
  with patch_path_lookup [OF this(2)] WorldPath assms(2) show ?thesis by (simp add: sweep_slots_def slots_ok_def)
next
  case (MechanismParam m p)
  with assms obtain ms where fin: "sw_finite F v" and ms: "patch_mechanism F (sc_mechanisms scen) m p v = Inr ms" "scen' = scen\<lparr>sc_mechanisms := ms\<rparr>"
    by (auto simp: patch_def try_bind_eq_Inr split: if_splits)
  have "map (\<lambda>e. me_params e p) (filter (\<lambda>e. me_name e = m) (map (set_param F m p v) es)) =
      map (stored F v) (map (\<lambda>e. me_params e p) (filter (\<lambda>e. me_name e = m) es))" for es
    by (induction es) (auto simp: set_param_def)
  with patch_mechanism_Inr [OF ms(1)] MechanismParam ms(2) fin show ?thesis
    by (simp add: sweep_slots_def slots_ok_def list_all_iff)
qed

lemma patch_keeps:
  assumes "patch F scen key target v = Inr scen'" "other \<noteq> target" "other \<noteq> WorldPath []"
    and "list_all sweepable (sweep_slots other scen) \<or> list_all sweepable (sweep_slots other scen')"
  shows "sweep_slots other scen' = sweep_slots other scen"
proof (cases target)
  case (WorldPath path)
  with assms obtain w where w: "patch_path F [] path v (sc_world scen) = Inr w" "scen' = scen\<lparr>sc_world := w\<rparr>"
    by (auto simp: patch_def patch_world_def try_bind_eq_Inr split: if_splits)
  show ?thesis
  proof (cases other)
    case (WorldPath q)
    with assms(2,3) \<open>target = _\<close> have "q \<noteq> path" "q \<noteq> []" by auto
    from patch_path_other [OF w(1) this] assms(4) WorldPath w(2) show ?thesis by (auto simp: sweep_slots_def)
  qed (simp add: w(2) sweep_slots_def)
next
  case (MechanismParam m p)
  with assms obtain ms where ms: "patch_mechanism F (sc_mechanisms scen) m p v = Inr ms" "scen' = scen\<lparr>sc_mechanisms := ms\<rparr>"
    by (auto simp: patch_def try_bind_eq_Inr split: if_splits)
  have "m' \<noteq> m \<or> p' \<noteq> p \<Longrightarrow> map (\<lambda>e. me_params e p') (filter (\<lambda>e. me_name e = m') (map (set_param F m p v) es)) =
      map (\<lambda>e. me_params e p') (filter (\<lambda>e. me_name e = m') es)" for m' p' es
    by (induction es) (auto simp: set_param_def)
  with patch_mechanism_Inr [OF ms(1)] MechanismParam ms(2) assms(2) show ?thesis
    by (cases other) (auto simp: sweep_slots_def)
qed

lemma patch_frame:
  assumes "patch F scen key target v = Inr scen'"
  shows "sc_simulation scen' = sc_simulation scen" "sc_output scen' = sc_output scen"
    "map me_name (sc_mechanisms scen') = map me_name (sc_mechanisms scen)"
  using assms patch_mechanism_Inr
  by (fastforce simp: patch_def try_bind_eq_Inr set_param_def comp_def split: if_splits sweep_target.splits)+

subsection \<open>All patches of a point\<close>

abbreviation patch_steps ::
    "('f, 'z) sweep_ops_scheme \<Rightarrow> 'f scenario \<Rightarrow> ((string \<times> 'f) \<times> sweep_target) list \<Rightarrow> 'f scenario result" where
  "patch_steps F scen steps \<equiv> try_fold (\<lambda>effective ((key, v), target). patch F effective key target v) scen steps"

lemma steps_keep:
  assumes "patch_steps F scen steps = Inr eff" "other \<notin> snd ` set steps" "other \<noteq> WorldPath []"
    and "list_all sweepable (sweep_slots other scen) \<or> list_all sweepable (sweep_slots other eff)"
  shows "sweep_slots other eff = sweep_slots other scen"
  using assms
proof (induction steps arbitrary: scen)
  case (Cons st steps)
  obtain k v t where st: "st = ((k, v), t)" by (metis surj_pair)
  with Cons.prems(1) obtain s1 where s1: "patch F scen k t v = Inr s1" "patch_steps F s1 steps = Inr eff"
    by (auto simp: try_bind_eq_Inr)
  from Cons.prems(2) st have ne: "other \<noteq> t" "other \<notin> snd ` set steps" by auto
  note keep = patch_keeps [OF s1(1) ne(1) Cons.prems(3)] and ih = Cons.IH [OF s1(2) ne(2) Cons.prems(3)]
  from Cons.prems(4) keep ih show ?case by auto
qed simp

lemma steps_write:
  assumes "patch_steps F scen steps = Inr eff" "distinct (map snd steps)" "WorldPath [] \<notin> snd ` set steps"
    and "((key, v), target) \<in> set steps"
  shows "sweep_slots target eff = map (stored F v) (sweep_slots target scen) \<and>
    slots_ok F target v (sweep_slots target scen)"
  using assms
proof (induction steps arbitrary: scen)
  case (Cons st steps)
  obtain k w t where st: "st = ((k, w), t)" by (metis surj_pair)
  with Cons.prems(1) obtain s1 where s1: "patch F scen k t w = Inr s1" "patch_steps F s1 steps = Inr eff"
    by (auto simp: try_bind_eq_Inr)
  show ?case
  proof (cases "((key, v), target) = st")
    case True
    from Cons.prems(2,3) st True have t: "target \<notin> snd ` set steps" "target \<noteq> WorldPath []" by auto
    from s1 st True patch_writes [of F scen key target v s1] t(2)
    have w: "sweep_slots target s1 = map (stored F v) (sweep_slots target scen)"
      "slots_ok F target v (sweep_slots target scen)" by auto
    from w(1) have "list_all sweepable (sweep_slots target s1)" by (simp add: list_all_iff)
    with steps_keep [OF s1(2) t] w show ?thesis by simp
  next
    case False
    with Cons.prems(4) have mem: "((key, v), target) \<in> set steps" by simp
    then have ne: "target \<noteq> t" "target \<noteq> WorldPath []" using Cons.prems(2,3) st by force+
    from Cons.IH [OF s1(2) _ _ mem] Cons.prems(2,3)
    have ih: "sweep_slots target eff = map (stored F v) (sweep_slots target s1)"
      "slots_ok F target v (sweep_slots target s1)" by auto
    with patch_keeps [OF s1(1) ne] slots_ok_sweepable [OF ih(2)] show ?thesis by simp
  qed
qed simp

lemma steps_frame:
  assumes "patch_steps F scen steps = Inr eff"
  shows "sc_simulation eff = sc_simulation scen" "sc_output eff = sc_output scen"
    "map me_name (sc_mechanisms eff) = map me_name (sc_mechanisms scen)"
  using try_fold_invariant [OF assms, of "\<lambda>s. sc_simulation s = sc_simulation scen \<and> sc_output s = sc_output scen \<and>
      map me_name (sc_mechanisms s) = map me_name (sc_mechanisms scen)"] patch_frame
  by (fastforce)+

subsection \<open>The plan\<close>

lemma plan_point_Inr:
  "plan_point F validate targets scen acc combo = Inr acc' \<longleftrightarrow>
     (\<exists>eff. patch_all F targets combo scen = Inr eff \<and> validate eff = Inr () \<and> acc' = acc @ [(combo, eff)])"
  by (auto simp: plan_point_def try_bind_eq_Inr)

lemma plan_points:
  assumes "try_fold (plan_point F validate targets scen) acc combos = Inr planned"
  shows "\<exists>ps. planned = acc @ ps \<and> map fst ps = combos \<and>
    list_all (\<lambda>(combo, eff). patch_all F targets combo scen = Inr eff \<and> validate eff = Inr ()) ps"
  using assms
proof (induction combos arbitrary: acc)
  case (Cons combo combos)
  then obtain eff where eff: "patch_all F targets combo scen = Inr eff" "validate eff = Inr ()"
    and rest: "try_fold (plan_point F validate targets scen) (acc @ [(combo, eff)]) combos = Inr planned"
    by (auto simp: plan_point_Inr try_bind_eq_Inr)
  from Cons.IH [OF rest] obtain ps where "planned = (acc @ [(combo, eff)]) @ ps" "map fst ps = combos"
    "list_all (\<lambda>(combo, eff). patch_all F targets combo scen = Inr eff \<and> validate eff = Inr ()) ps" by blast
  with eff show ?case by (intro exI [of _ "(combo, eff) # ps"]) simp
qed simp

lemma plan_points_exist:
  assumes "list_all (\<lambda>combo. \<exists>eff. patch_all F targets combo scen = Inr eff \<and> validate eff = Inr ()) combos"
  shows "\<exists>planned. try_fold (plan_point F validate targets scen) acc combos = Inr planned"
  using assms
proof (induction combos arbitrary: acc)
  case (Cons combo combos)
  then obtain eff where "plan_point F validate targets scen acc combo = Inr (acc @ [(combo, eff)])"
    by (auto simp: plan_point_Inr)
  with Cons.IH [of "acc @ [(combo, eff)]"] Cons.prems show ?case by simp
qed simp

text \<open>A planned point: the value of every axis reached its slots, and what no axis names reads as before.\<close>

definition point_ok :: "('f, 'z) sweep_ops_scheme \<Rightarrow> ('f scenario \<Rightarrow> unit result) \<Rightarrow> 'f scenario \<Rightarrow>
    (string \<times> 'f) list \<times> 'f scenario \<Rightarrow> bool" where
  "point_ok F validate scen p \<longleftrightarrow>
     (let (combo, eff) = p
      in validate eff = Inr () \<and> sc_simulation eff = sc_simulation scen \<and> sc_output eff = sc_output scen \<and>
         map me_name (sc_mechanisms eff) = map me_name (sc_mechanisms scen) \<and>
         list_all (\<lambda>(key, v). case parse_key key of
             Inl _ \<Rightarrow> False
           | Inr target \<Rightarrow> slots_ok F target v (sweep_slots target scen) \<and>
               sweep_slots target eff = map (stored F v) (sweep_slots target scen)) combo)"

definition keeps_unswept :: "'f scenario \<Rightarrow> (string \<times> 'f) list \<times> 'f scenario \<Rightarrow> bool" where
  "keeps_unswept scen p \<longleftrightarrow>
     (\<forall>other. Inr other \<notin> (\<lambda>kv. parse_key (fst kv)) ` set (fst p) \<and> other \<noteq> WorldPath [] \<and>
        list_all sweepable (sweep_slots other scen) \<longrightarrow> sweep_slots other (snd p) = sweep_slots other scen)"

lemma plan_point_ok:
  assumes axes: "map (\<lambda>a. parse_key (ax_key a)) axes = map Inr targets" "distinct (map ax_key axes)"
    and vs: "length vs = length axes"
    and eff: "patch_all F targets (zip (map ax_key axes) vs) scen = Inr eff" "validate eff = Inr ()"
  shows "point_ok F validate scen (zip (map ax_key axes) vs, eff)" "keeps_unswept scen (zip (map ax_key axes) vs, eff)"
proof -
  let ?steps = "zip (zip (map ax_key axes) vs) targets"
  from axes(1) have len: "length targets = length axes" using map_eq_imp_length_eq by metis
  from eff(1) have run: "patch_steps F scen ?steps = Inr eff" by (simp add: patch_all_def)
  have snd_steps: "map snd ?steps = targets" using vs len by simp
  have dist: "distinct (map snd ?steps)" unfolding snd_steps by (rule targets_distinct [OF axes])
  have parsed: "parse_key (ax_key (axes ! i)) = Inr (targets ! i)" if "i < length axes" for i
    using axes(1) that len by (metis nth_map)
  have nonempty: "WorldPath [] \<notin> snd ` set ?steps"
  proof
    assume "WorldPath [] \<in> snd ` set ?steps"
    then have "WorldPath [] \<in> set (map snd ?steps)" by simp
    then obtain i where "i < length axes" "targets ! i = WorldPath []"
      unfolding snd_steps by (auto simp: in_set_conv_nth len)
    with parsed parse_key_path show False by metis
  qed
  have "case parse_key key of Inl _ \<Rightarrow> False
      | Inr target \<Rightarrow> slots_ok F target v (sweep_slots target scen) \<and>
          sweep_slots target eff = map (stored F v) (sweep_slots target scen)"
    if "(key, v) \<in> set (zip (map ax_key axes) vs)" for key v
  proof -
    from that vs obtain i where i: "i < length axes" "key = ax_key (axes ! i)" "v = vs ! i"
      by (auto simp: in_set_zip)
    then have "((key, v), targets ! i) \<in> set ?steps" using vs len i
      by (auto simp: in_set_zip intro!: exI [of _ i])
    from steps_write [OF run dist nonempty this] parsed i show ?thesis by simp
  qed
  with steps_frame [OF run] eff(2) show "point_ok F validate scen (zip (map ax_key axes) vs, eff)"
    by (auto simp: point_ok_def list_all_iff)
  have "other \<in> set targets \<Longrightarrow> Inr other \<in> (\<lambda>kv. parse_key (fst kv)) ` set (zip (map ax_key axes) vs)" for other
  proof -
    assume "other \<in> set targets"
    then obtain i where "i < length axes" "other = targets ! i" by (auto simp: in_set_conv_nth len)
    moreover from this vs have "(ax_key (axes ! i), vs ! i) \<in> set (zip (map ax_key axes) vs)"
      by (auto simp: in_set_zip intro!: exI [of _ i])
    ultimately show ?thesis using parsed by force
  qed
  moreover have "snd ` set ?steps = set targets" using snd_steps by (metis list.set_map)
  ultimately show "keeps_unswept scen (zip (map ax_key axes) vs, eff)"
    using steps_keep [OF run] unfolding keeps_unswept_def by auto
qed

text \<open>C12: a plan of the checked sweep holds the combinations of the axes in order, the last axis fastest. In
  every point each swept slot holds the value of its axis in the type the slot had, every other numeric slot
  reads as in the base scenario, and the factory has accepted the point. A value is only planned when it is finite,
  its slots exist (a parameter of a mechanism may be missing), and it is integral and within \<open>i64\<close> for an integer.\<close>

theorem plan_sweep_points:
  assumes "plan_sweep F validate scen axes = Inr planned"
  shows "map fst planned = map (zip (map ax_key axes)) (product_lists (map ax_values axes)) \<and>
    list_all (\<lambda>p. point_ok F validate scen p \<and> keeps_unswept scen p) planned"
proof -
  from assms obtain seen targets where ax: "try_fold check_axis ([], []) axes = Inr (seen, targets)"
    and pts: "try_fold (plan_point F validate targets scen) [] (cartesian_product axes) = Inr planned"
    by (auto simp: plan_sweep_def try_bind_eq_Inr)
  from check_axes_Inr [OF ax] have keys: "map (\<lambda>a. parse_key (ax_key a)) axes = map Inr targets" "distinct (map ax_key axes)"
    by auto
  from plan_points [OF pts] have fst: "map fst planned = cartesian_product axes"
    and ps: "\<And>combo eff. (combo, eff) \<in> set planned \<Longrightarrow> patch_all F targets combo scen = Inr eff \<and> validate eff = Inr ()"
    by (auto simp: list_all_iff)
  have "point_ok F validate scen (combo, eff) \<and> keeps_unswept scen (combo, eff)" if mem: "(combo, eff) \<in> set planned" for combo eff
  proof -
    from mem have "combo \<in> set (map fst planned)" by force
    then obtain vs where "vs \<in> set (product_lists (map ax_values axes))" "combo = zip (map ax_key axes) vs"
      unfolding fst cartesian_product_eq by auto
    moreover from this product_lists_length have "length vs = length axes" by fastforce
    ultimately show ?thesis using plan_point_ok [OF keys, of vs F scen eff validate] ps [OF mem] by blast
  qed
  with fst show ?thesis by (auto simp: cartesian_product_eq list_all_iff)
qed

text \<open>A scenario with an integer and a nested float under the world and one mechanism entry, swept over integers
  read as floats.\<close>

definition int_sweep_ops :: "int sweep_ops" where
  "int_sweep_ops =
     \<lparr>st_sum = sum_list, st_sub = (-), st_div = (div), st_powi2 = (\<lambda>x. x * x), st_sqrt = (\<lambda>x. x), st_min = min,
      st_max = max, st_of_nat = int, st_inf = 1000, st_neg_inf = - 1000, sw_finite = (\<lambda>_. True), sw_integral = (\<lambda>_. True),
      sw_in_i64 = (\<lambda>x. - (2 ^ 63) \<le> x \<and> x < 2 ^ 63), sw_to_i64 = (\<lambda>x. x), sw_text = (\<lambda>x. show_nat (nat x))\<rparr>"

definition demo_scenario :: "int scenario" where
  "demo_scenario =
     \<lparr>sc_simulation = \<lparr>ss_name = ''demo'', ss_module_pack = ''demo'', ss_t_max = 1, ss_seed = 1, ss_scheduler = ''sequential''\<rparr>,
      sc_world = [''n'' \<mapsto> TomlInteger 10, ''game'' \<mapsto> TomlTable [''t'' \<mapsto> TomlFloat 3]],
      sc_mechanisms = [\<lparr>me_name = ''learn'', me_phase = None, me_params = Map.empty\<rparr>],
      sc_output = \<lparr>os_log_path = [], os_metrics = []\<rparr>\<rparr>"

definition demo_axes :: "int sweep_axis list" where
  "demo_axes =
     [\<lparr>ax_key = ''world.n'', ax_values = [10, 20]\<rparr>, \<lparr>ax_key = ''world.game.t'', ax_values = [4]\<rparr>,
      \<lparr>ax_key = ''learn.rate'', ax_values = [5, 6]\<rparr>]"

definition demo_validate :: "int scenario \<Rightarrow> unit result" where
  "demo_validate scen = scenario_validate scen [''learn'']"

lemma demo_targets:
  "try_fold check_axis ([], []) demo_axes =
     Inr ([''learn.rate'', ''world.game.t'', ''world.n''],
          [WorldPath [''n''], WorldPath [''game'', ''t''], MechanismParam ''learn'' ''rate''])"
  by (simp add: demo_axes_def check_axis_def parse_key_def strip_prefix_def split_first_def Let_def)

lemma demo_patches:
  assumes "- (2 ^ 63) \<le> a" "a < 2 ^ 63"
  shows "\<exists>eff. patch_all int_sweep_ops [WorldPath [''n''], WorldPath [''game'', ''t''], MechanismParam ''learn'' ''rate'']
      [(k1, a), (k2, b), (k3, c)] demo_scenario = Inr eff \<and> demo_validate eff = Inr ()"
  using assms
  by (simp add: patch_all_def patch_def patch_world_def patch_mechanism_def patch_entry_def write_existing_def int_sweep_ops_def
      demo_scenario_def demo_validate_def scenario_validate_def)

lemma demo_plan: "\<exists>planned. plan_sweep int_sweep_ops demo_validate demo_scenario demo_axes = Inr planned"
proof -
  have "list_all (\<lambda>combo. \<exists>eff. patch_all int_sweep_ops [WorldPath [''n''], WorldPath [''game'', ''t''],
      MechanismParam ''learn'' ''rate''] combo demo_scenario = Inr eff \<and> demo_validate eff = Inr ()) (cartesian_product demo_axes)"
    by (simp add: cartesian_product_eq demo_axes_def demo_patches)
  from plan_points_exist [OF this] show ?thesis unfolding plan_sweep_def demo_targets by simp
qed

theorem plan_sweep_points_witness:
  "\<exists>planned. plan_sweep int_sweep_ops demo_validate demo_scenario demo_axes = Inr planned \<and>
     map (map snd \<circ> fst) planned = [[10, 4, 5], [10, 4, 6], [20, 4, 5], [20, 4, 6]] \<and>
     list_all (\<lambda>p. point_ok int_sweep_ops demo_validate demo_scenario p \<and> keeps_unswept demo_scenario p) planned"
proof -
  obtain planned where p: "plan_sweep int_sweep_ops demo_validate demo_scenario demo_axes = Inr planned" using demo_plan by blast
  note ok = plan_sweep_points [OF p]
  have "map (map snd) (map fst planned) = [[10, 4, 5], [10, 4, 6], [20, 4, 5], [20, 4, 6]]"
    unfolding conjunct1 [OF ok] by (simp add: demo_axes_def)
  then have "map (map snd \<circ> fst) planned = [[10, 4, 5], [10, 4, 6], [20, 4, 5], [20, 4, 6]]"
    by (simp only: map_map)
  with p conjunct2 [OF ok] show ?thesis by (intro exI [of _ planned] conjI)
qed

end
