(* ===== verification/Trial_Facts.thy ===== *)
theory Trial_Facts
  imports Sweep_Facts
begin

section \<open>Properties of trials, their results and the sweep over them\<close>

text \<open>
  Runs of trials return when the mechanisms keep the clock, so trials and sweeps return. The results of
  trials are in the order of the seeds and depend on the seeds only as a multiset; a summary has one
  entry per metric, in the order of the keys, over the values of the metric in the order of the runs.
  The errors of a checked sweep are configuration errors that name the axis, the combination or the seed.
\<close>

subsection \<open>Runs return\<close>

lemma fold_add_mechanism: "bld_mechanisms (fold add_mechanism ms b) = bld_mechanisms b @ ms"
  by (induction ms arbitrary: b) (simp_all add: add_mechanism_def)

lemma trial_mechanisms: "sim_mechanisms (trial_simulation cc W scen tr) = tr_mechanisms tr"
  by (simp add: trial_simulation_def Let_def build_def with_scheduler_def with_recorder_def fold_add_mechanism
      with_seed_def builder_new_def)

lemma execute_trial_returns:
  assumes "world_state W" "\<forall>m \<in> set (tr_mechanisms tr). keeps_clock W m"
  shows "execute_trial cc W scen tr seed \<noteq> None"
proof -
  from assms(2) have "clock_kept W (trial_simulation cc W scen tr)" by (simp add: trial_mechanisms)
  from world_state.run_outcome [OF assms(1) this] show ?thesis by (auto simp: execute_trial_def)
qed

lemma execute_trial_seed: "execute_trial cc W scen tr seed = Some (Inr r) \<Longrightarrow> rs_seed r = seed"
  by (auto simp: execute_trial_def extract_result_def Let_def try_bind_eq_Inr)

text \<open>What one seed contributes to \<open>run_validated_trials\<close>.\<close>

definition trial_outcome where
  "trial_outcome cc W scen factory seed =
     loop_bind (Some (tf_build_trial factory scen seed)) (\<lambda>tr. execute_trial cc W scen tr seed)"

lemma trial_outcome_returns:
  assumes "world_state W" "\<And>tr. tf_build_trial factory scen seed = Inr tr \<Longrightarrow> \<forall>m \<in> set (tr_mechanisms tr). keeps_clock W m"
  shows "trial_outcome cc W scen factory seed \<noteq> None"
  using assms execute_trial_returns [OF assms(1)]
  by (cases "tf_build_trial factory scen seed") (simp_all add: trial_outcome_def)

lemma trial_outcome_seed: "trial_outcome cc W scen factory seed = Some (Inr r) \<Longrightarrow> rs_seed r = seed"
  by (cases "tf_build_trial factory scen seed") (simp_all add: trial_outcome_def execute_trial_seed)

lemma those_map_Some: "those (map f xs) = Some ys \<longleftrightarrow> map f xs = map Some ys"
  by (induction xs arbitrary: ys) (auto split: option.splits simp: Cons_eq_map_conv map_eq_Cons_conv)

lemma those_map_None: "those (map f xs) = None \<longleftrightarrow> (\<exists>x \<in> set xs. f x = None)"
  by (induction xs) (auto split: option.splits)

lemma validated_trials_returns:
  assumes "world_state W"
    and "\<And>seed tr. tf_build_trial factory scen seed = Inr tr \<Longrightarrow> \<forall>m \<in> set (tr_mechanisms tr). keeps_clock W m"
  shows "run_validated_trials cc W scen factory seeds \<noteq> None"
  using trial_outcome_returns [OF assms, unfolded trial_outcome_def]
  by (auto simp: run_validated_trials_def those_map_None)

subsection \<open>Sorting by seed\<close>

lemma seed_outcomes_Inr:
  assumes "length outcomes = length seeds"
  shows "try_fold seed_outcome acc (zip seeds outcomes) = Inr results \<longleftrightarrow>
    (\<exists>rs. outcomes = map Inr rs \<and> results = acc @ rs)"
  using assms
proof (induction seeds outcomes arbitrary: acc rule: list_induct2')
  case (4 seed seeds outcome outcomes)
  then show ?case
    by (cases outcome) (auto simp: seed_outcome_def try_bind_eq_Inr Cons_eq_map_conv)
qed auto

lemma validated_trials_Inr:
  "run_validated_trials cc W scen factory seeds = Some (Inr rs) \<longleftrightarrow>
     (\<exists>results. map (trial_outcome cc W scen factory) seeds = map (\<lambda>r. Some (Inr r)) results \<and> rs = sort_key rs_seed results)"
proof -
  have "run_validated_trials cc W scen factory seeds = Some (Inr rs) \<longleftrightarrow>
      (\<exists>outcomes. map (trial_outcome cc W scen factory) seeds = map Some outcomes \<and>
        try_bind (try_fold seed_outcome [] (zip seeds outcomes)) (\<lambda>results. Inr (sort_key rs_seed results)) = Inr rs)"
    by (simp add: run_validated_trials_def those_map_Some trial_outcome_def [abs_def])
  also have "\<dots> \<longleftrightarrow> (\<exists>outcomes results. map (trial_outcome cc W scen factory) seeds = map Some outcomes \<and>
      outcomes = map Inr results \<and> rs = sort_key rs_seed results)"
  proof (intro ex_cong1)
    fix outcomes
    show "map (trial_outcome cc W scen factory) seeds = map Some outcomes \<and>
        try_bind (try_fold seed_outcome [] (zip seeds outcomes)) (\<lambda>results. Inr (sort_key rs_seed results)) = Inr rs \<longleftrightarrow>
      (\<exists>results. map (trial_outcome cc W scen factory) seeds = map Some outcomes \<and> outcomes = map Inr results \<and>
        rs = sort_key rs_seed results)"
    proof (cases "map (trial_outcome cc W scen factory) seeds = map Some outcomes")
      case True
      then have len: "length outcomes = length seeds" using map_eq_imp_length_eq by metis
      show ?thesis by (simp add: True try_bind_eq_Inr seed_outcomes_Inr [OF len]) blast
    qed simp
  qed
  also have "\<dots> \<longleftrightarrow> (\<exists>results. map (trial_outcome cc W scen factory) seeds = map Some (map Inr results) \<and>
      rs = sort_key rs_seed results)" by blast
  finally show ?thesis by (simp add: comp_def)
qed

lemma insort_key_map: "insort_key f (g x) (map g xs) = map g (insort_key (\<lambda>x. f (g x)) x xs)"
  by (induction xs) auto

lemma sort_key_map: "sort_key f (map g xs) = map g (sort_key (\<lambda>x. f (g x)) xs)"
  by (induction xs) (simp_all add: insort_key_map)

lemma outcomes_by_seed:
  assumes "map (trial_outcome cc W scen factory) seeds = map (\<lambda>r. Some (Inr r)) results"
  obtains g where "results = map g seeds" "\<And>seed. seed \<in> set seeds \<Longrightarrow> rs_seed (g seed) = seed"
    "\<And>seed. seed \<in> set seeds \<Longrightarrow> trial_outcome cc W scen factory seed = Some (Inr (g seed))"
proof
  let ?g = "\<lambda>seed. projr (the (trial_outcome cc W scen factory seed))"
  have "map ?g seeds = map (\<lambda>o'. projr (the o')) (map (trial_outcome cc W scen factory) seeds)" by simp
  then show "results = map ?g seeds" unfolding assms by (simp add: comp_def)
  fix seed assume "seed \<in> set seeds"
  then have "trial_outcome cc W scen factory seed \<in> set (map (trial_outcome cc W scen factory) seeds)" by simp
  then show o: "trial_outcome cc W scen factory seed = Some (Inr (?g seed))" unfolding assms by auto
  show "rs_seed (?g seed) = seed" by (rule trial_outcome_seed [OF o])
qed

lemma sort_by_seed:
  assumes "\<And>seed. seed \<in> set seeds \<Longrightarrow> rs_seed (g seed) = seed"
  shows "sort_key rs_seed (map g seeds) = map g (sort seeds)"
proof -
  have "sort_key (\<lambda>x. rs_seed (g x)) seeds = sort_key (\<lambda>x. x) seeds"
    using assms
  proof (induction seeds)
    case (Cons s seeds)
    have eq: "insort_key (\<lambda>x. rs_seed (g x)) s xs = insort_key (\<lambda>x. x) s xs" if "set xs \<subseteq> set (s # seeds)" for xs
      using that Cons.prems by (induction xs) auto
    show ?case using Cons eq [of "sort seeds"] by auto
  qed simp
  then show ?thesis by (simp add: sort_key_map)
qed

text \<open>C34: a successful batch of trials has one result per seed, in ascending order of the seeds, and is the
  same for every order in which the seeds are given.\<close>

theorem run_trials_seed_order:
  assumes "run_trials cc W scen factory seeds = Some (Inr rs)" and "mset seeds' = mset seeds"
  shows "map rs_seed rs = sort seeds \<and> run_trials cc W scen factory seeds' = Some (Inr rs)"
proof -
  from assms(1) have ok: "tf_validate factory scen = Inr ()" and run: "run_validated_trials cc W scen factory seeds = Some (Inr rs)"
    by (cases "tf_validate factory scen"; simp add: run_trials_def)+
  from run obtain results where m: "map (trial_outcome cc W scen factory) seeds = map (\<lambda>r. Some (Inr r)) results"
    and rs: "rs = sort_key rs_seed results" unfolding validated_trials_Inr by blast
  from outcomes_by_seed [OF m] obtain g where g: "results = map g seeds" "\<And>seed. seed \<in> set seeds \<Longrightarrow> rs_seed (g seed) = seed"
    "\<And>seed. seed \<in> set seeds \<Longrightarrow> trial_outcome cc W scen factory seed = Some (Inr (g seed))" by blast
  from assms(2) have set: "set seeds' = set seeds" by (metis set_mset_mset)
  have rs': "rs = map g (sort seeds)" using sort_by_seed g rs by metis
  have "map rs_seed rs = sort seeds" unfolding rs' map_map by (rule map_idI) (simp add: g(2))
  moreover have "map (trial_outcome cc W scen factory) seeds' = map (\<lambda>r. Some (Inr r)) (map g seeds')"
    using g(3) set by simp
  moreover have "sort seeds' = sort seeds" by (rule properties_for_sort) (simp_all add: assms(2))
  with sort_by_seed [of seeds' g] g(2) set rs' have "rs = sort_key rs_seed (map g seeds')" by simp
  ultimately show ?thesis unfolding run_trials_def ok loop_bind_simps validated_trials_Inr by blast
qed

subsection \<open>Sweeps return\<close>

lemma run_planned_returns:
  assumes "\<forall>p \<in> set planned. run_all (snd p) \<noteq> None"
  shows "\<exists>r. run_planned F run_all planned = Some r \<and>
    (\<forall>points. r = Inr points \<longrightarrow> map (\<lambda>pt. (cs_params pt, cs_effective pt)) points = planned \<and>
      (\<forall>pt \<in> set points. \<exists>results. run_all (cs_effective pt) = Some (Inr results) \<and> cs_summary pt = summarize F results))"
  using assms
proof (induction planned)
  case (Cons p planned)
  obtain combo eff where p: "p = (combo, eff)" by force
  from Cons obtain r where r: "run_planned F run_all planned = Some r" "\<And>points. r = Inr points \<Longrightarrow>
      map (\<lambda>pt. (cs_params pt, cs_effective pt)) points = planned \<and>
      (\<forall>pt \<in> set points. \<exists>results. run_all (cs_effective pt) = Some (Inr results) \<and> cs_summary pt = summarize F results)"
    by auto
  from Cons.prems p obtain q where q: "run_all eff = Some q" by auto
  show ?case
  proof (cases q)
    case (Inr results)
    with q r p show ?thesis by (cases r) auto
  qed (use q p in simp)
qed simp

lemma planned_validated: "plan_sweep F validate scen axes = Inr planned \<Longrightarrow> p \<in> set planned \<Longrightarrow> validate (snd p) = Inr ()"
  by (cases p) (fastforce simp: plan_sweep_def try_bind_eq_Inr list_all_iff dest!: plan_points)

lemma planned_combos: "plan_sweep F validate scen axes = Inr planned \<Longrightarrow> map fst planned = cartesian_product axes"
  by (auto simp: plan_sweep_def try_bind_eq_Inr dest!: plan_points)

text \<open>C13: over a world whose clock is an ordinary field, a checked sweep of trials whose mechanisms leave the clock
  alone always returns. When it returns no error, it has one point per combination of the axes, in order; each
  summary is over the results of the trials of the point's own scenario, which the factory has accepted.\<close>

theorem run_trial_sweep_returns:
  assumes "world_state W"
    and "\<forall>s seed tr. tf_build_trial factory s seed = Inr tr \<longrightarrow> list_all (keeps_clock W) (tr_mechanisms tr)"
  shows "\<exists>r. run_trial_sweep F cc W scen axes factory seeds = Some r \<and>
    (\<forall>points. r = Inr points \<longrightarrow>
      map cs_params points = map (zip (map ax_key axes)) (product_lists (map ax_values axes)) \<and>
      (\<forall>pt \<in> set points. \<exists>results. run_trials cc W (cs_effective pt) factory seeds = Some (Inr results) \<and>
        cs_summary pt = summarize F results))"
proof (cases "plan_sweep F (tf_validate factory) scen axes")
  case (Inl e)
  then show ?thesis by (simp add: run_trial_sweep_def)
next
  case (Inr planned)
  let ?run = "\<lambda>effective. run_validated_trials cc W effective factory seeds"
  have "\<forall>p \<in> set planned. ?run (snd p) \<noteq> None"
    using validated_trials_returns [OF assms(1)] assms(2) unfolding list_all_iff by blast
  from run_planned_returns [OF this] obtain r where r: "run_planned F ?run planned = Some r"
    and pts: "\<And>points. r = Inr points \<Longrightarrow> map (\<lambda>pt. (cs_params pt, cs_effective pt)) points = planned \<and>
      (\<forall>pt \<in> set points. \<exists>results. ?run (cs_effective pt) = Some (Inr results) \<and> cs_summary pt = summarize F results)"
    by blast
  have "map cs_params points = cartesian_product axes \<and> (\<forall>pt \<in> set points. \<exists>results.
      run_trials cc W (cs_effective pt) factory seeds = Some (Inr results) \<and> cs_summary pt = summarize F results)"
    if "r = Inr points" for points
  proof
    note p = pts [OF that]
    have "map cs_params points = map fst planned" using p by (auto simp: comp_def)
    then show "map cs_params points = cartesian_product axes" by (simp add: planned_combos [OF Inr])
    have "tf_validate factory (cs_effective pt) = Inr ()" if "pt \<in> set points" for pt
      using planned_validated [OF Inr, of "(cs_params pt, cs_effective pt)"] that p by force
    then show "\<forall>pt \<in> set points. \<exists>results. run_trials cc W (cs_effective pt) factory seeds = Some (Inr results) \<and>
        cs_summary pt = summarize F results" using p by (auto simp: run_trials_def)
  qed
  then show ?thesis using r by (simp add: run_trial_sweep_def Inr cartesian_product_eq)
qed

subsection \<open>Errors\<close>

lemma parse_key_Inl: "parse_key key = Inl e \<Longrightarrow> \<exists>reason. e = axis_error key reason"
  by (auto simp: parse_key_def Let_def split: option.splits if_splits)

lemma check_axis_Inl: "check_axis st axis = Inl e \<Longrightarrow> \<exists>reason. e = axis_error (ax_key axis) reason"
  using parse_key_Inl [of "ax_key axis" e]
  by (cases st) (auto simp: check_axis_def Let_def try_bind_eq_Inl split: if_splits)

lemma check_axes_Inl:
  assumes "try_fold check_axis st axes = Inl e"
  shows "\<exists>axis \<in> set axes. \<exists>reason. e = axis_error (ax_key axis) reason"
  using assms by (induction axes arbitrary: st) (auto simp: try_bind_eq_Inl dest!: check_axis_Inl)

lemma patch_Inl: "patch F scen key target v = Inl e \<Longrightarrow> \<exists>reason. e = axis_error key reason"
  by (auto simp: patch_def map_err_def split: if_splits sum.splits)

lemma patch_steps_Inl:
  assumes "patch_steps F scen steps = Inl e"
  shows "\<exists>kvt \<in> set steps. \<exists>reason. e = axis_error (fst (fst kvt)) reason"
  using assms by (induction steps arbitrary: scen) (auto simp: try_bind_eq_Inl dest!: patch_Inl)

text \<open>Why a point is not planned, and the message about it.\<close>

definition axis_fails :: "(string \<times> 'f) list \<Rightarrow> socsim_error \<Rightarrow> bool" where
  "axis_fails combo e \<longleftrightarrow> (\<exists>key \<in> fst ` set combo. \<exists>reason. e = axis_error key reason)"

definition combo_fails ::
    "('f, 'z) sweep_ops_scheme \<Rightarrow> ('f scenario \<Rightarrow> unit result) \<Rightarrow> sweep_target list \<Rightarrow> 'f scenario \<Rightarrow> (string \<times> 'f) list \<Rightarrow>
     socsim_error \<Rightarrow> bool" where
  "combo_fails F validate targets scen combo e \<longleftrightarrow>
     (\<exists>eff err. patch_all F targets combo scen = Inr eff \<and> validate eff = Inl err \<and>
        e = Config (''sweep combination ['' @ joined '', '' (map (\<lambda>(k, v). k @ ''='' @ sw_text F v) combo) @ '']: '' @
          show_socsim_error err))"

lemma plan_point_Inl:
  assumes "plan_point F validate targets scen acc combo = Inl e"
  shows "axis_fails combo e \<or> combo_fails F validate targets scen combo e"
proof (cases "patch_all F targets combo scen")
  case (Inl e')
  with assms have "patch_steps F scen (zip combo targets) = Inl e" by (simp add: plan_point_def patch_all_def)
  from patch_steps_Inl [OF this] show ?thesis unfolding axis_fails_def by (force dest: set_zip_leftD)
next
  case (Inr eff)
  with assms show ?thesis
    by (cases "validate eff") (simp_all add: plan_point_def combo_fails_def format_params_def)
qed

lemma plan_points_Inl:
  assumes "try_fold (plan_point F validate targets scen) acc combos = Inl e"
  shows "\<exists>combo \<in> set combos. axis_fails combo e \<or> combo_fails F validate targets scen combo e"
  using assms by (induction combos arbitrary: acc) (auto simp: try_bind_eq_Inl dest: plan_point_Inl)

lemma plan_sweep_Inl:
  assumes "plan_sweep F validate scen axes = Inl e"
  shows "(\<exists>axis \<in> set axes. \<exists>reason. e = axis_error (ax_key axis) reason) \<or>
    (\<exists>combo \<in> set (cartesian_product axes). \<exists>targets. map (\<lambda>a. parse_key (ax_key a)) axes = map Inr targets \<and>
       combo_fails F validate targets scen combo e)"
proof (cases "try_fold check_axis ([], []) axes")
  case (Inl e')
  with assms check_axes_Inl [of "([], [])" axes e] show ?thesis by (simp add: plan_sweep_def)
next
  case (Inr st)
  then obtain seen targets where st: "try_fold check_axis ([], []) axes = Inr (seen, targets)" by (cases st) auto
  with assms have "try_fold (plan_point F validate targets scen) [] (cartesian_product axes) = Inl e" by (simp add: plan_sweep_def)
  from plan_points_Inl [OF this] obtain combo where combo: "combo \<in> set (cartesian_product axes)"
    "axis_fails combo e \<or> combo_fails F validate targets scen combo e" by blast
  from check_axes_Inr [OF st] have "map (\<lambda>a. parse_key (ax_key a)) axes = map Inr targets" by auto
  moreover have "fst ` set combo \<subseteq> ax_key ` set axes"
  proof -
    from combo(1) obtain vs where "combo = zip (map ax_key axes) vs" by (auto simp: cartesian_product_eq)
    moreover have "fst ` set (zip (map ax_key axes) vs) \<subseteq> set (map ax_key axes)" by (force dest: set_zip_leftD)
    ultimately show ?thesis by simp
  qed
  moreover have ?thesis if "axis_fails combo e"
  proof -
    from that obtain key reason where key: "key \<in> fst ` set combo" "e = axis_error key reason" unfolding axis_fails_def by blast
    with \<open>fst ` set combo \<subseteq> ax_key ` set axes\<close> obtain axis where "axis \<in> set axes" "key = ax_key axis" by auto
    with key(2) show ?thesis by (intro disjI1 bexI [of _ axis] exI [of _ reason]) simp_all
  qed
  ultimately show ?thesis using combo by (elim disjE) (simp, rule disjI2, rule bexI [of _ combo], auto)
qed

text \<open>The first seed, in the order given, whose trial fails.\<close>

definition seed_fails ::
    "(u64 \<Rightarrow> 'a result option) \<Rightarrow> u64 list \<Rightarrow> socsim_error \<Rightarrow> bool" where
  "seed_fails outcome seeds e \<longleftrightarrow>
     (\<exists>before seed after err. seeds = before @ seed # after \<and> (\<forall>s \<in> set before. \<exists>r. outcome s = Some (Inr r)) \<and>
        outcome seed = Some (Inl err) \<and>
        e = Config (''trial seed '' @ show_nat (unat seed) @ '': '' @ show_socsim_error err))"

lemma seed_fails_Cons: "outcome s = Some (Inr r) \<Longrightarrow> seed_fails outcome seeds e \<Longrightarrow> seed_fails outcome (s # seeds) e"
  unfolding seed_fails_def by (metis append_Cons set_ConsD)

lemma seed_outcome_simps:
  "seed_outcome acc (seed, Inr r) = Inr (acc @ [r])"
  "seed_outcome acc (seed, Inl err) = Inl (Config (''trial seed '' @ show_nat (unat seed) @ '': '' @ show_socsim_error err))"
  by (simp_all add: seed_outcome_def)

lemma seed_outcomes_Inl:
  assumes "map outcome seeds = map Some outcomes" "try_fold seed_outcome acc (zip seeds outcomes) = Inl e"
  shows "seed_fails outcome seeds e"
  using assms
proof (induction seeds arbitrary: outcomes acc)
  case (Cons seed seeds)
  then obtain o' os where os: "outcomes = o' # os" "outcome seed = Some o'" "map outcome seeds = map Some os"
    by (cases outcomes) auto
  show ?case
  proof (cases o')
    case (Inl err)
    with Cons.prems os have "e = Config (''trial seed '' @ show_nat (unat seed) @ '': '' @ show_socsim_error err)"
      by (simp add: seed_outcome_simps)
    with Inl os(2) show ?thesis unfolding seed_fails_def by (intro exI [of _ "[]"] exI [of _ seed] exI [of _ seeds]) auto
  next
    case (Inr r)
    with Cons.prems os have "try_fold seed_outcome (acc @ [r]) (zip seeds os) = Inl e" by (simp add: seed_outcome_simps)
    from Cons.IH [OF os(3) this] Inr os(2) show ?thesis by (auto intro: seed_fails_Cons)
  qed
qed simp

lemma validated_trials_Inl:
  assumes "run_validated_trials cc W scen factory seeds = Some (Inl e)"
  shows "seed_fails (trial_outcome cc W scen factory) seeds e"
proof -
  from assms obtain outcomes where outcomes: "map (trial_outcome cc W scen factory) seeds = map Some outcomes"
    and "try_bind (try_fold seed_outcome [] (zip seeds outcomes)) (\<lambda>results. Inr (sort_key rs_seed results)) = Inl e"
    by (auto simp: run_validated_trials_def those_map_Some trial_outcome_def [abs_def])
  then have "try_fold seed_outcome [] (zip seeds outcomes) = Inl e"
    by (cases "try_fold seed_outcome [] (zip seeds outcomes)") simp_all
  then show ?thesis by (rule seed_outcomes_Inl [OF outcomes])
qed

lemma run_planned_Inl:
  assumes "run_planned F run_all planned = Some (Inl e)"
  shows "\<exists>before p after. planned = before @ p # after \<and> run_all (snd p) = Some (Inl e)"
  using assms
proof (induction planned)
  case (Cons p planned)
  obtain combo eff where p: "p = (combo, eff)" by force
  show ?case
  proof (cases "run_all eff = Some (Inl e)")
    case True
    with p show ?thesis by (intro exI [of _ "[]"]) simp
  next
    case False
    with Cons.prems p obtain results where results: "run_all eff = Some (Inr results)"
      by (cases "run_all eff"; cases "the (run_all eff)") auto
    with Cons.prems p have "run_planned F run_all planned = Some (Inl e)"
      by (cases "run_planned F run_all planned"; cases "the (run_planned F run_all planned)") auto
    with Cons.IH show ?thesis by (metis append_Cons)
  qed
qed simp

text \<open>C33: every error of a checked sweep is a configuration error that names its place. Either planning fails, and then
  the error is the answer whatever the trials would do: it carries the key of one of the axes, or it lists the keys and
  values of a combination whose patched scenario the factory rejects, with the reason. Or the plan succeeds, and the error carries
  the first seed, in the order given, whose trial fails on a planned scenario, with the error of that trial.\<close>

theorem run_trial_sweep_errors:
  assumes "run_trial_sweep F cc W scen axes factory seeds = Some (Inl e)"
  shows "(\<forall>other seeds'. run_trial_sweep F cc W scen axes (factory\<lparr>tf_build_trial := other\<rparr>) seeds' = Some (Inl e)) \<and>
      ((\<exists>axis \<in> set axes. \<exists>reason. e = Config (''sweep axis '' @ quoted (ax_key axis) @ '': '' @ reason)) \<or>
       (\<exists>combo \<in> set (cartesian_product axes). \<exists>targets. map (\<lambda>a. parse_key (ax_key a)) axes = map Inr targets \<and>
          combo_fails F (tf_validate factory) targets scen combo e)) \<or>
    (\<exists>planned p. plan_sweep F (tf_validate factory) scen axes = Inr planned \<and> p \<in> set planned \<and>
       seed_fails (trial_outcome cc W (snd p) factory) seeds e)"
proof (cases "plan_sweep F (tf_validate factory) scen axes")
  case (Inl e')
  with assms have e: "e' = e" by (simp add: run_trial_sweep_def)
  from Inl e plan_sweep_Inl [of F "tf_validate factory" scen axes e] show ?thesis
    by (simp add: run_trial_sweep_def axis_error_def)
next
  case (Inr planned)
  with assms have "run_planned F (\<lambda>effective. run_validated_trials cc W effective factory seeds) planned = Some (Inl e)"
    by (simp add: run_trial_sweep_def)
  from run_planned_Inl [OF this] obtain before p after where p: "planned = before @ p # after"
    "run_validated_trials cc W (snd p) factory seeds = Some (Inl e)" by blast
  from validated_trials_Inl [OF p(2)] Inr p(1) show ?thesis
    by (intro disjI2 exI [of _ planned] exI [of _ p]) simp
qed

subsection \<open>Summaries\<close>

lemma entry_push_keys: "map fst (entry_push k x es) = (if k \<in> fst ` set es then map fst es else map fst es @ [k])"
  by (induction es rule: entry_push.induct) auto

lemma entry_push_entries:
  assumes "distinct (map fst es)" "\<forall>(k, xs) \<in> set es. xs = f k" "k \<notin> fst ` set es \<longrightarrow> f k = []"
    "\<forall>k'. g k' = (if k' = k then f k' @ [x] else f k')"
  shows "\<forall>(k', xs) \<in> set (entry_push k x es). xs = g k'"
  using assms(1-3)
proof (induction es)
  case (Cons e es)
  obtain k0 xs0 where e: "e = (k0, xs0)" by force
  have g: "g k' = (if k' = k then f k' @ [x] else f k')" for k' using assms(4) by blast
  show ?case
  proof (cases "k0 = k")
    case True
    then have "\<forall>(k', xs) \<in> set es. k' \<noteq> k" using Cons.prems(1) e by force
    with Cons.prems(2) True show ?thesis by (auto simp: e g)
  next
    case False
    with Cons show ?thesis by (simp add: e g)
  qed
qed (use assms(4) in simp)

lemma entry_push_fold:
  "let es = fold (\<lambda>(k, v). entry_push k v) kvs [] in
     distinct (map fst es) \<and> set (map fst es) = fst ` set kvs \<and>
     (\<forall>(k, xs) \<in> set es. xs = map snd (filter (\<lambda>kv. fst kv = k) kvs))"
proof (induction kvs rule: rev_induct)
  case (snoc kv kvs)
  obtain k x where kv: "kv = (k, x)" by force
  let ?es = "fold (\<lambda>(k, v). entry_push k v) kvs []"
  from snoc have es: "distinct (map fst ?es)" "set (map fst ?es) = fst ` set kvs"
    "\<forall>(k, xs) \<in> set ?es. xs = map snd (filter (\<lambda>kv. fst kv = k) kvs)" by (auto simp: Let_def)
  have "k \<notin> fst ` set ?es \<longrightarrow> map snd (filter (\<lambda>kv. fst kv = k) kvs) = []"
    using es(2) by (auto simp: filter_empty_conv)
  moreover have "\<forall>k'. map snd (filter (\<lambda>kv. fst kv = k') (kvs @ [(k, x)])) =
      (if k' = k then map snd (filter (\<lambda>kv. fst kv = k') kvs) @ [x] else map snd (filter (\<lambda>kv. fst kv = k') kvs))" by simp
  ultimately have "\<forall>(k', xs) \<in> set (entry_push k x ?es). xs = map snd (filter (\<lambda>kv. fst kv = k') (kvs @ [(k, x)]))"
    by (rule entry_push_entries [OF es(1,3)])
  moreover have "distinct (map fst (entry_push k x ?es))" "set (map fst (entry_push k x ?es)) = insert k (fst ` set kvs)"
    using es(1,2) by (auto simp: entry_push_keys)
  ultimately show ?case by (simp add: kv)
qed simp

text \<open>An association list with distinct keys, sorted by them.\<close>

lemma sort_distinct_keys:
  assumes "distinct (map h xs)" "\<forall>x \<in> set xs. x = f (h x)"
  shows "sort_key h xs = map f (sorted_list_of_set (h ` set xs))"
proof -
  have "map h (sort_key h xs) = sorted_list_of_set (h ` set xs)"
    using assms(1) by (intro sorted_distinct_set_unique) (auto simp: distinct_map inj_on_def)
  moreover have "map f (map h (sort_key h xs)) = sort_key h xs"
    using assms(2) by (auto intro!: map_idI)
  ultimately show ?thesis by simp
qed

lemma values_by_key_fold: "values_by_key results = fold (\<lambda>(k, v). entry_push k v) (concat (map rs_final_metrics results)) []"
proof -
  have "fold (\<lambda>r. fold (\<lambda>(k, v). entry_push k v) (rs_final_metrics r)) rs es =
      fold (\<lambda>(k, v). entry_push k v) (concat (map rs_final_metrics rs)) es" for rs :: "('f, 'j) run_result list" and es
    by (induction rs arbitrary: es) simp_all
  then show ?thesis by (simp add: values_by_key_def)
qed

text \<open>C36: the summary has exactly one entry for every metric that some run ended with, in ascending order of the
  names, and the entry is the statistics of the metric's final values in the order of the runs.\<close>

theorem summarize_by_key:
  "summarize F results =
     map (\<lambda>k. metric_stats_of F (k, map snd (filter (\<lambda>kv. fst kv = k) (concat (map rs_final_metrics results)))))
       (sorted_list_of_set (fst ` set (concat (map rs_final_metrics results))))"
proof -
  let ?all = "concat (map rs_final_metrics results)"
  let ?st = "\<lambda>k. metric_stats_of F (k, map snd (filter (\<lambda>kv. fst kv = k) ?all))"
  from entry_push_fold [of ?all] have es: "distinct (map fst (values_by_key results))"
    "set (map fst (values_by_key results)) = fst ` set ?all"
    "\<forall>(k, xs) \<in> set (values_by_key results). xs = map snd (filter (\<lambda>kv. fst kv = k) ?all)"
    by (simp_all add: values_by_key_fold Let_def)
  have key: "mt_key (metric_stats_of F e) = fst e" for e by (cases e) (simp add: metric_stats_of_def Let_def)
  have keys: "map mt_key (map (metric_stats_of F) (values_by_key results)) = map fst (values_by_key results)"
    by (simp add: key)
  have "\<forall>x \<in> set (map (metric_stats_of F) (values_by_key results)). x = ?st (mt_key x)"
    using es(3) by (auto simp: key)
  from sort_distinct_keys [OF _ this] es(1) [folded keys]
  have "summarize F results = map ?st (sorted_list_of_set (mt_key ` set (map (metric_stats_of F) (values_by_key results))))"
    unfolding summarize_def by simp
  moreover have "mt_key ` set (map (metric_stats_of F) (values_by_key results)) = fst ` set ?all"
    using keys es(2) by (metis list.set_map)
  ultimately show ?thesis by simp
qed

subsection \<open>Two trials of a counting mechanism\<close>

definition score_mechanism ::
    "(unit, sim_clock \<times> nat, (u64 \<times> 128 word) sim_rng, (int, unit) memory_recorder, unit, unit) mechanism" where
  "score_mechanism =
     \<lparr>mech_name = ''learn'', mech_phases = [Environment], mech_self = (),
      mech_apply = (\<lambda>self ph ctx.
        let k = Suc (snd (ctx_world ctx))
        in (Inr (), self, ctx\<lparr>ctx_world := (fst (ctx_world ctx), k),
              ctx_recorder := memory_metric (ctx_recorder ctx) (clk_t (ctx_clock ctx)) ''score'' (int k)\<rparr>))\<rparr>"

definition score_trial ::
    "u64 \<Rightarrow> (unit, unit, sim_clock \<times> nat, (u64 \<times> 128 word) sim_rng, int, unit, unit, unit) trial" where
  "score_trial seed =
     \<lparr>tr_world = (clock_new 0, 0), tr_mechanisms = [score_mechanism],
      tr_scheduler = sequential_scheduler counter_world, tr_engine_seed = seed\<rparr>"

definition score_factory ::
    "(int, (unit, unit, sim_clock \<times> nat, (u64 \<times> 128 word) sim_rng, int, unit, unit, unit) trial) trial_factory" where
  "score_factory = \<lparr>tf_validate = demo_validate, tf_build_trial = (\<lambda>scen seed. Inr (score_trial seed))\<rparr>"

lemma score_keeps:
  "\<forall>s seed tr. tf_build_trial score_factory s seed = Inr tr \<longrightarrow> list_all (keeps_clock counter_world) (tr_mechanisms tr)"
  by (auto simp: score_factory_def score_trial_def score_mechanism_def keeps_clock_def counter_world_def Let_def)

lemma score_world: "world_state counter_world"
  by (rule counter_sim_ok)

lemma score_simulation:
  "trial_simulation counting_generator counter_world demo_scenario (score_trial seed) =
     \<lparr>sim_world = (clock_new 1, 0), sim_mechanisms = [score_mechanism], sim_scheduler = sequential_scheduler counter_world,
      sim_rng = from_seed counting_generator seed, sim_recorder = memory_new, sim_scratch = bb_new, sim_stop_requested = False\<rparr>"
  by (simp add: trial_simulation_def score_trial_def build_def with_scheduler_def with_recorder_def with_seed_def builder_new_def
      add_mechanism_def counter_world_def demo_scenario_def)

lemma score_outcome: "\<exists>r. trial_outcome counting_generator counter_world demo_scenario score_factory seed = Some (Inr r)"
proof -
  let ?sim = "trial_simulation counting_generator counter_world demo_scenario (score_trial seed)"
  have start: "\<not> finished counter_world ?sim"
    unfolding score_simulation by (simp add: finished_def is_done_def counter_world_def clock_new_def)
  have "step counter_world ?sim = (Inr (), snd (step counter_world ?sim)) \<and> finished counter_world (snd (step counter_world ?sim))"
    unfolding score_simulation
    by (simp add: step_def begin_step_def run_phase_def call_mech_def phase_order_def score_mechanism_def
        sequential_scheduler_def counter_world_def finished_def is_done_def clock_new_def tick_def Let_def)
  then obtain sim' where "step counter_world ?sim = (Inr (), sim')" "finished counter_world sim'"
    by (metis)
  then have "run counter_world ?sim = Some (Inr (), sim')" by (simp add: run_step [OF start] run_finished)
  then show ?thesis by (simp add: trial_outcome_def score_factory_def execute_trial_def)
qed

theorem run_trials_seed_order_witness:
  "\<exists>rs. run_trials counting_generator counter_world demo_scenario score_factory [2, 1] = Some (Inr rs) \<and>
     map rs_seed rs = [1, 2] \<and> run_trials counting_generator counter_world demo_scenario score_factory [1, 2] = Some (Inr rs)"
proof -
  obtain r1 r2 where "map (trial_outcome counting_generator counter_world demo_scenario score_factory) [2, 1] =
      map (\<lambda>r. Some (Inr r)) [r2, r1]"
    using score_outcome [of 1] score_outcome [of 2] by auto
  then obtain rs where "run_validated_trials counting_generator counter_world demo_scenario score_factory [2, 1] = Some (Inr rs)"
    unfolding validated_trials_Inr by blast
  moreover have "tf_validate score_factory demo_scenario = Inr ()"
    by (simp add: score_factory_def demo_validate_def scenario_validate_def demo_scenario_def)
  ultimately have run: "run_trials counting_generator counter_world demo_scenario score_factory [2, 1] = Some (Inr rs)"
    by (simp add: run_trials_def)
  from run_trials_seed_order [OF run, of "[1, 2]"] run
  have "map rs_seed rs = sort [2, 1]" "run_trials counting_generator counter_world demo_scenario score_factory [1, 2] = Some (Inr rs)"
    by (simp_all add: add_mset_commute)
  moreover have "sort [2, 1] = [1, 2 :: u64]" by code_simp
  ultimately show ?thesis using run by metis
qed

theorem run_trial_sweep_returns_witness:
  "\<exists>r. run_trial_sweep int_sweep_ops counting_generator counter_world demo_scenario demo_axes score_factory [2, 1] = Some r"
  using run_trial_sweep_returns [OF score_world score_keeps, of int_sweep_ops counting_generator demo_scenario demo_axes "[2, 1]"]
  by blast

abbreviation typo_axes :: "int sweep_axis list" where
  "typo_axes \<equiv> [\<lparr>ax_key = ''world.m'', ax_values = [1]\<rparr>]"

lemma typo_plan:
  "plan_sweep int_sweep_ops demo_validate demo_scenario typo_axes =
     Inl (axis_error ''world.m'' (''no key '' @ quoted ''m'' @ '' in [world]''))"
  by (simp add: plan_sweep_def check_axis_def parse_key_def strip_prefix_def cartesian_product_def
      plan_point_def patch_all_def patch_def int_sweep_ops_def patch_world_def demo_scenario_def table_label_def)

lemma typo_sweep:
  "run_trial_sweep int_sweep_ops counting_generator counter_world demo_scenario typo_axes score_factory [2, 1] =
     Some (Inl (axis_error ''world.m'' (''no key '' @ quoted ''m'' @ '' in [world]'')))"
  by (simp add: run_trial_sweep_def score_factory_def typo_plan)

theorem run_trial_sweep_errors_witness:
  "run_trial_sweep int_sweep_ops counting_generator counter_world demo_scenario typo_axes
     (score_factory\<lparr>tf_build_trial := \<lambda>_ _. Inl (Mechanism [])\<rparr>) [3] =
   Some (Inl (Config (''sweep axis '' @ quoted ''world.m'' @ '': '' @ ''no key '' @ quoted ''m'' @ '' in [world]'')))"
proof -
  have "\<nexists>planned. plan_sweep int_sweep_ops (tf_validate score_factory) demo_scenario typo_axes = Inr planned"
    by (simp add: score_factory_def typo_plan)
  with run_trial_sweep_errors [OF typo_sweep] show ?thesis unfolding axis_error_def by blast
qed

end
