(* ===== verification/Spec2Isabelle.thy ===== *)
theory Spec2Isabelle
  imports Prelude Rng Core Engine Engine_Runs Grid Grid_Index Histories Arena Game_World Matching Seating
    Games Kernel Traversal Payoffs Kernel_Agreement Play Fenwick Network Network_Spec
    Network_Search Network_Gen Small_World Profiles Learners Automata Learning
    Mixed Solvers Nash Dominance Anonymous Mixed_Agreement
    Views Rules Learning_Rules Decide Decide_Facts Decide_Result Memory Typed_Rules
    Population Copying Copying_Facts Async_Population Async_Facts
    Scenario Runner Sweeps Sweep_Facts Trial_Facts
begin

text \<open>
  A verification development for the social-simulation workspace of this repository (Rust, under
  \<open>crates/\<close>).

  \<^bold>\<open>The program.\<close> A scenario file names a world, an ordered list of mechanisms and a scheduler
  (\<open>socsim-config\<close>). The runner (\<open>socsim-runner\<close>) builds a trial from it for every seed, and the
  engine (\<open>socsim-engine\<close>) runs the trial: a step advances the clock, asks the scheduler for an order of the
  agents and calls every mechanism in each of its phases, in a fixed order of phases (\<open>socsim-core\<close>). All
  randomness comes from one generator (\<open>socsim-rng\<close>). Worlds are laid out on grids (\<open>socsim-grid\<close>) or
  networks (\<open>socsim-net\<close>). The largest family of mechanisms plays stage games (\<open>socsim-games\<close>): a matching
  seats the agents in encounters in an arena, a driver lets the decision rules fill the seats, a payoff kernel
  pays the encounters, the histories record them, the rules learn from them, and population dynamics copy
  actions between agents. The same crate has solvers for the games.

  \<^bold>\<open>Theories and sources.\<close> Names of the code are kept unless HOL or another part of the code uses them.

    \<^item> \<open>Prelude\<close>: the error discipline (\<open>try_bind\<close> for \<open>?\<close>, \<open>try_fold\<close> for a loop with it, \<open>loop_bind\<close> for a
      loop that may also not return), checked and saturating arithmetic of \<open>usize\<close>, slices, lists.
    \<^item> \<open>Rng\<close> (socsim-rng/src/lib.rs): the seed derivation on 64-bit words and the generator wrapper. Derived
      seeds are shown to collide across label lists of different lengths, and \<open>derive\<close> to depend on the number
      of draws of the parent and not on its seed.
    \<^item> \<open>Core\<close>, \<open>Engine\<close>, \<open>Engine_Runs\<close> (socsim-core, socsim-engine src/lib.rs): clock, phases, blackboard, the
      traits as records, the step, the four drivers, snapshots, the builder. A step is the schedule of its
      calls; runs end; observing a run does not change it; a restored snapshot resumes it.
    \<^item> \<open>Grid\<close>, \<open>Grid_Index\<close> (socsim-grid/src/lib.rs): neighbourhoods, distances, the fixed-size iterator, the
      adjacency table, the index of agents and \<open>CellGrid\<close>. A neighbourhood is a ball of the metric, for radii
      within \<open>isize\<close>; the
      index keeps positions and occupants mirrored.
    \<^item> \<open>Fenwick\<close>, \<open>Network\<close>, \<open>Network_Spec\<close>, \<open>Network_Search\<close>, \<open>Network_Gen\<close>, \<open>Small_World\<close>
      (socsim-net/src/lib.rs): the network wrapper over a stable graph, searches, generators and the sampling
      tree. The wrapper refines a set of labelled arcs; searches end and are the reflexive transitive
      closure; the tree samples like a scan; small-world networks stay simple.
    \<^item> \<open>Histories\<close>, \<open>Arena\<close>, \<open>Game_World\<close> (socsim-games src/world/): the three bounded histories, the play arena,
      reports, policies and counts, the topology and the record of the world. The histories hold the last
      entries in order; the arena reads back what was pushed.
    \<^item> \<open>Matching\<close>, \<open>Seating\<close> (src/matching/, src/mechanism/matching.rs): the seven matchings and the
      contract \<open>seating\<close> that each of them meets.
    \<^item> \<open>Games\<close>, \<open>Kernel\<close>, \<open>Traversal\<close>, \<open>Payoffs\<close>, \<open>Kernel_Agreement\<close>, \<open>Play\<close> (src/game/, src/outcome/,
      src/mechanism/play.rs): matrix games, the two kernels over an arena and over an implicit
      matching, the Interaction phase. An implicit play is the play of its arena; one agent's payoff recomputed
      locally is the one of the full play; a step is recorded once.
    \<^item> \<open>Learners\<close>, \<open>Automata\<close>, \<open>Learning\<close> (src/learn/): fictitious play, Roth-Erev, logit, the six automata.
    \<^item> \<open>Views\<close>, \<open>Rules\<close>, \<open>Learning_Rules\<close>, \<open>Decide\<close>, \<open>Decide_Facts\<close>, \<open>Decide_Result\<close>, \<open>Memory\<close>,
      \<open>Typed_Rules\<close> (src/view.rs, src/rule/, src/mechanism/decide.rs): the contexts, every rule for a finite
      game, the rule book, and the driver of the Decision and Reward phases. Every seat is settled by its
      agent; the rules never play outside the game; what is learned about an opponent comes from that
      opponent's encounters only.
    \<^item> \<open>Population\<close>, \<open>Copying\<close>, \<open>Copying_Facts\<close>, \<open>Async_Population\<close>, \<open>Async_Facts\<close> (src/mechanism/population.rs,
      async_population.rs): imitation, Fermi, proportional imitation and the Moran process, synchronous and
      asynchronous, with the checks made before the first step. Imitation commutes with renaming the
      agents along a symmetry; an asynchronous step is a sequence of single imitations; payoff ranges are exact.
    \<^item> \<open>Profiles\<close>, \<open>Mixed\<close>, \<open>Solvers\<close>, \<open>Nash\<close>, \<open>Dominance\<close>, \<open>Anonymous\<close>, \<open>Mixed_Agreement\<close> (src/solve/, src/mixed.rs):
      the enumerations share one odometer; pure equilibria, iterated dominance, count equilibria and mixed
      regrets are related to their definitions and to each other.
    \<^item> \<open>Scenario\<close>, \<open>Runner\<close>, \<open>Sweeps\<close>, \<open>Sweep_Facts\<close>, \<open>Trial_Facts\<close> (socsim-config/src/, socsim-runner/src/, the
      in-memory recorder of socsim-log/src/lib.rs): parameters, registry and scenario, trials, batches of seeds,
      summaries, the legacy and the checked sweep. A checked sweep plans every point before it runs one;
      a point differs from the base scenario in the swept slots only, which accept their values; sweeps return; errors
      carry the axis, the combination or the seed they are about.

  \<^bold>\<open>How the code is modelled.\<close>

    \<^item> A struct is a record, an enum a datatype, a trait object a record of its state and operations. A \<open>&mut\<close>
      argument is taken and returned, also by operations that fail, since Rust keeps what was written.
    \<^item> A \<open>Result\<close> is a sum with the error on the left; the text of an error is modelled as the code formats it. A
      panic or an exceeded index is \<open>None\<close> where the code can reach it.
    \<^item> \<open>u64\<close> clocks, seeds and draws are words; counters that are increased with a check are natural numbers. \<open>usize\<close>, \<open>u32\<close> and the sizes in \<open>u128\<close> are natural numbers, with the checked,
      saturating or wrapping operation written where the code has one; \<open>isize\<close> and \<open>i64\<close> are integers;
      the cast of a radius to \<open>isize\<close> wraps, and the sums with coordinates are exact within the bounds the property states.
    \<^item> \<open>f64\<close> is a type parameter with a record of the operations the code applies (\<open>float_ops\<close>, \<open>calc_ops\<close>,
      \<open>mixed_ops\<close>, \<open>solve_ops\<close>, \<open>rule_ops\<close>, \<open>pop_ops\<close>, \<open>gen_ops\<close>, \<open>stat_ops\<close>, \<open>sweep_ops\<close>). What a theorem relies
      on is a named hypothesis: \<open>float_laws\<close> (comparisons of finite values are those of an order,
      subtracting the same finite value keeps the order, the tolerance is not negative), \<open>mixed_laws\<close>, \<open>range_laws\<close>, \<open>reads_as\<close>. Agreement theorems need
      no law at all: they hold operation for operation, whatever rounding does.
    \<^item> Third-party code is a parameter: ChaCha20 (\<open>chacha_ops\<close>), shuffles and draws (\<open>draw_ops\<close>, \<open>gen_ops\<close>), the
      stable graph of petgraph (\<open>graph_ops\<close>, with its documented laws as the locale \<open>stable_graph\<close>, met by a list
      model), the JSON parser of snapshots. \<open>Box<dyn Any>\<close> is a tagged value. The values of TOML are a datatype
      with the constructors the crate documents, and a table is a map.
    \<^item> Parallel branches collect in the order of the input like the sequential ones and are not told apart.

  \<^bold>\<open>Loops and termination.\<close> Loops over a list are folds. A loop that may not end is a \<open>partial_function\<close> into
  \<open>option\<close>, so not returning is a value: \<open>run\<close>, \<open>run_until\<close>, \<open>run_observed\<close>, \<open>odometer_loop\<close>, \<open>composition_loop\<close>,
  \<open>range_loop\<close> and \<open>dominance_loop\<close>. For each loop that a property rests on it is proved that a value is returned:
  runs under the hypothesis that mechanisms leave the clock alone (the measure is the time left), the others
  for the games the code accepts, within its size guard (the measures are the profiles, compositions or
  actions left). The breadth-first search is \<open>while\<close>, with a measure of the nodes not yet seen. Loops of the code that
  give up after a number of tries recurse on the tries left; no other fuel is used.

  \<^bold>\<open>Interfaces.\<close> The locales \<open>world_state\<close>, \<open>bounded_ring\<close>, \<open>stable_graph\<close>, \<open>seating\<close>, \<open>payoff_kernel\<close>,
  \<open>payoff_runner\<close>, \<open>slot_contract\<close> and \<open>tie_order\<close> state what a client relies on; each is interpreted on the code's
  own providers: the three histories, the matchings, the kernels and their runners, the policy slots, the tie-breaking
  of action indices and the game world.

  \<^bold>\<open>Not modelled.\<close> Floating-point algorithms whose content is numerical: the metrics mechanisms and
  socsim-metrics, the Lemke-Howson, support, minimax, quantal-response and replicator solvers, the
  update rules of socsim-mechanisms, the continuous decision rules and the payoff formulas of the game catalog.
  Assembly, configuration readers and factories of socsim-games, which only wire the modelled
  components. Input and output: scenario and snapshot files, the JSON-lines, CSV and parquet writers, exports,
  data sets, surveys, the command line and the model packs. Clients of services and libraries: socsim-llm and
  the language-model agents, socsim-marl over burn. The serde encodings are modelled only for networks and
  snapshots.
\<close>

end
